(* ===== verification/Prelude.thy ===== *)
theory Prelude
  imports Main "HOL-Library.Char_ord" "HOL-Library.List_Lexorder" "HOL-Library.Word"
    "HOL-Library.Multiset"
begin

text \<open>
  The shared base of the development.

  \<^item> The error values of \<open>internal/proxynode\<close> and the result type of every fallible
    operation. An \<open>errors.Is\<close> test in the source only looks at the sentinel an error wraps, so
    the constructors are the sentinels of \<open>validation.go\<close>; the static part of the message is
    kept as a string so that every early return of the source stays visible.
  \<^item> The sequencing combinators that stand for Go's \<open>if err != nil { return err }\<close> and
    for loops whose body may return early.
  \<^item> The generic facts about lists and finite maps the components share, in the collections
    \<open>res_simps\<close> (results) and \<open>list_simps\<close> (lists and maps).
\<close>

named_theorems res_simps \<open>equations that take a sequence of fallible steps apart\<close>
named_theorems list_simps \<open>facts about the list helpers below\<close>

section \<open>Results\<close>

datatype error =
    ErrNotFound
  | ErrConflict string
  | ErrAgentReferenced string
  | ErrAgentAddressUnavailable string string string string string
  | ErrInvalidState string
  | ErrOther string

type_synonym 'a res = "error + 'a"

text \<open>Wire types: Go's \<open>uint64\<close> wraps, so it is a 64-bit word.\<close>

type_synonym u64 = "64 word"

abbreviation ok :: "'a \<Rightarrow> 'a res" where
  "ok \<equiv> Inr"

abbreviation fail :: "error \<Rightarrow> 'a res" where
  "fail \<equiv> Inl"

fun bindE :: "'a res \<Rightarrow> ('a \<Rightarrow> 'b res) \<Rightarrow> 'b res" where
  "bindE (Inl e) k = Inl e"
| "bindE (Inr x) k = k x"

definition require :: "bool \<Rightarrow> error \<Rightarrow> unit res" where
  "require b e = (if b then Inr () else Inl e)"

definition from_option :: "error \<Rightarrow> 'a option \<Rightarrow> 'a res" where
  "from_option e x = (case x of None \<Rightarrow> Inl e | Some y \<Rightarrow> Inr y)"

text \<open>A wrapped error, \<open>fmt.Errorf("%w: \<dots>: %v", sentinel, err)\<close>: the inner error only
  survives as text.\<close>

fun wrapE :: "error \<Rightarrow> 'a res \<Rightarrow> 'a res" where
  "wrapE e (Inl _) = Inl e"
| "wrapE e (Inr x) = Inr x"

text \<open>A loop over a slice that threads a state and may return an error.\<close>

fun foldE :: "('s \<Rightarrow> 'a \<Rightarrow> 's res) \<Rightarrow> 's \<Rightarrow> 'a list \<Rightarrow> 's res" where
  "foldE f s [] = Inr s"
| "foldE f s (x # xs) = bindE (f s x) (\<lambda>s'. foldE f s' xs)"

text \<open>A loop over a slice that only checks.\<close>

fun eachE :: "('a \<Rightarrow> unit res) \<Rightarrow> 'a list \<Rightarrow> unit res" where
  "eachE f [] = Inr ()"
| "eachE f (x # xs) = bindE (f x) (\<lambda>_. eachE f xs)"

text \<open>A loop over a slice that rewrites every element and threads a resource.\<close>

fun traverseE :: "('a \<Rightarrow> 's \<Rightarrow> ('b \<times> 's) res) \<Rightarrow> 'a list \<Rightarrow> 's \<Rightarrow> ('b list \<times> 's) res" where
  "traverseE f [] s = Inr ([], s)"
| "traverseE f (x # xs) s =
     bindE (f x s) (\<lambda>(y, s). bindE (traverseE f xs s) (\<lambda>(ys, s). Inr (y # ys, s)))"

definition is_ok :: "'a res \<Rightarrow> bool" where
  "is_ok r = (case r of Inl _ \<Rightarrow> False | Inr _ \<Rightarrow> True)"

lemma bindE_Inr_iff [res_simps]: "bindE m k = Inr y \<longleftrightarrow> (\<exists>x. m = Inr x \<and> k x = Inr y)"
  by (cases m) auto

lemma bindE_Inl_iff: "bindE m k = Inl e \<longleftrightarrow> m = Inl e \<or> (\<exists>x. m = Inr x \<and> k x = Inl e)"
  by (cases m) auto

lemma require_Inr [res_simps]: "require b e = Inr u \<longleftrightarrow> b"
  by (simp add: require_def)

lemma require_Inl: "require b e = Inl e' \<longleftrightarrow> \<not> b \<and> e' = e"
  by (auto simp: require_def)

lemma from_option_Inr [res_simps]: "from_option e x = Inr y \<longleftrightarrow> x = Some y"
  by (cases x) (auto simp: from_option_def)

lemma wrapE_Inr [res_simps]: "wrapE e m = Inr x \<longleftrightarrow> m = Inr x"
  by (cases m) auto

lemma eachE_Inr [res_simps]: "eachE f xs = Inr u \<longleftrightarrow> (\<forall>x \<in> set xs. f x = Inr ())"
  by (induction xs) (auto simp: bindE_Inr_iff)

lemma is_ok_Inr [simp]: "is_ok (Inr x)" "\<not> is_ok (Inl e)"
  by (simp_all add: is_ok_def)

lemma is_ok_iff: "is_ok r \<longleftrightarrow> (\<exists>x. r = Inr x)"
  by (cases r) auto

lemma foldE_append: "foldE f s (xs @ ys) = bindE (foldE f s xs) (\<lambda>s'. foldE f s' ys)"
proof (induction xs arbitrary: s)
  case Nil
  then show ?case by simp
next
  case (Cons x xs)
  then show ?case by (cases "f s x") simp_all
qed

text \<open>The rule for a fallible loop: an invariant that each successful round keeps.\<close>

lemma foldE_invariant:
  assumes "foldE f s xs = Inr s'" and "P s"
    and "\<And>s x s'. P s \<Longrightarrow> x \<in> set xs \<Longrightarrow> f s x = Inr s' \<Longrightarrow> P s'"
  shows "P s'"
  using assms
proof (induction xs arbitrary: s)
  case Nil
  then show ?case by simp
next
  case (Cons x xs)
  from Cons.prems(1) obtain t where t: "f s x = Inr t" "foldE f t xs = Inr s'"
    by (auto simp: bindE_Inr_iff)
  have "P t" using Cons.prems(2,3) t(1) by (meson list.set_intros(1))
  moreover have "\<And>s x s'. P s \<Longrightarrow> x \<in> set xs \<Longrightarrow> f s x = Inr s' \<Longrightarrow> P s'"
    using Cons.prems(3) by (meson list.set_intros(2))
  ultimately show ?case using Cons.IH t(2) by blast
qed

lemma foldE_each:
  "foldE f acc xs = Inr r \<Longrightarrow> x \<in> set xs \<Longrightarrow> \<exists>a b. f a x = Inr b"
  by (induction xs arbitrary: acc) (auto simp: bindE_Inr_iff)

lemma foldE_map: "foldE f s (map g xs) = foldE (\<lambda>s x. f s (g x)) s xs"
proof (induction xs arbitrary: s)
  case (Cons x xs)
  then show ?case by (cases "f s (g x)") simp_all
qed simp

lemma traverseE_Inr:
  "traverseE f xs s = Inr (ys, s') \<Longrightarrow>
     list_all2 (\<lambda>x y. \<exists>t t'. f x t = Inr (y, t')) xs ys"
  by (induction xs arbitrary: s ys s') (auto simp: bindE_Inr_iff split: prod.splits)

section \<open>Slices\<close>

text \<open>\<open>slices.IndexFunc\<close> (\<open>None\<close> for \<open>-1\<close>), \<open>slices.DeleteFunc\<close>,
  \<open>slices.Insert\<close> and an assignment through a pointer into a slice.\<close>

fun index_func :: "('a \<Rightarrow> bool) \<Rightarrow> 'a list \<Rightarrow> nat option" where
  "index_func p [] = None"
| "index_func p (x # xs) = (if p x then Some 0 else map_option Suc (index_func p xs))"

definition delete_func :: "('a \<Rightarrow> bool) \<Rightarrow> 'a list \<Rightarrow> 'a list" where
  "delete_func p xs = filter (\<lambda>x. \<not> p x) xs"

definition insert_at :: "nat \<Rightarrow> 'a \<Rightarrow> 'a list \<Rightarrow> 'a list" where
  "insert_at i x xs = take i xs @ x # drop i xs"

definition update_at :: "nat \<Rightarrow> ('a \<Rightarrow> 'a) \<Rightarrow> 'a list \<Rightarrow> 'a list" where
  "update_at i f xs = (if i < length xs then xs[i := f (xs ! i)] else xs)"

definition enumerated :: "'a list \<Rightarrow> (nat \<times> 'a) list" where
  "enumerated xs = zip [0..<length xs] xs"

lemma index_func_SomeD:
  "index_func p xs = Some i \<Longrightarrow> i < length xs \<and> p (xs ! i) \<and> (\<forall>j < i. \<not> p (xs ! j))"
proof (induction xs arbitrary: i)
  case Nil
  then show ?case by simp
next
  case (Cons x xs)
  show ?case
  proof (cases "p x")
    case True
    with Cons.prems show ?thesis by auto
  next
    case False
    with Cons.prems obtain k where k: "index_func p xs = Some k" "i = Suc k" by auto
    from Cons.IH [OF k(1)] False k(2) show ?thesis by (auto simp: less_Suc_eq_0_disj)
  qed
qed

lemma index_func_None [list_simps]: "index_func p xs = None \<longleftrightarrow> (\<forall>x \<in> set xs. \<not> p x)"
  by (induction xs) auto

lemma set_delete_func [list_simps]: "set (delete_func p xs) = {x \<in> set xs. \<not> p x}"
  by (auto simp: delete_func_def)

lemma delete_func_noop [list_simps]: "delete_func p xs = xs \<longleftrightarrow> (\<forall>x \<in> set xs. \<not> p x)"
  by (auto simp: delete_func_def filter_id_conv)

lemma length_delete_func_less:
  "length (delete_func p xs) = length xs \<longleftrightarrow> (\<forall>x \<in> set xs. \<not> p x)"
  by (metis delete_func_def filter_True length_filter_less less_irrefl)

lemma length_update_at [simp]: "length (update_at i f xs) = length xs"
  by (simp add: update_at_def)

lemma nth_update_at: "j < length xs \<Longrightarrow> update_at i f xs ! j = (if i = j then f (xs ! j) else xs ! j)"
  by (simp add: update_at_def nth_list_update)

lemma update_at_unchanged_map:
  "(\<And>x. g (f x) = g x) \<Longrightarrow> map g (update_at i f xs) = map g xs"
  by (rule nth_equalityI) (auto simp: nth_update_at)

lemma set_insert_at [list_simps]: "set (insert_at i x xs) = insert x (set xs)"
  unfolding insert_at_def by (metis append_take_drop_id list.set(2) set_append Un_insert_right)

lemma length_enumerated [simp]: "length (enumerated xs) = length xs"
  by (simp add: enumerated_def)

lemma map_snd_enumerated [simp]: "map snd (enumerated xs) = xs"
  by (simp add: enumerated_def)

lemma set_enumerated: "set (enumerated xs) = {(i, xs ! i) | i. i < length xs}"
  by (auto simp: enumerated_def set_zip intro!: exI)

section \<open>Maps filled by a loop\<close>

text \<open>
  \<open>for _, x := range xs { m[key(x)] = value(x) }\<close>: a later element overwrites an earlier one.
\<close>

fun fill_map :: "('a \<Rightarrow> 'k) \<Rightarrow> ('a \<Rightarrow> 'v) \<Rightarrow> ('k \<rightharpoonup> 'v) \<Rightarrow> 'a list \<Rightarrow> ('k \<rightharpoonup> 'v)" where
  "fill_map key val m [] = m"
| "fill_map key val m (x # xs) = fill_map key val (m(key x \<mapsto> val x)) xs"

lemma fill_map_notin: "k \<notin> key ` set xs \<Longrightarrow> fill_map key val m xs k = m k"
  by (induction xs arbitrary: m) auto

lemma dom_fill_map [list_simps]: "dom (fill_map key val m xs) = dom m \<union> key ` set xs"
  by (induction xs arbitrary: m) auto

lemma fill_map_distinct:
  "distinct (map key xs) \<Longrightarrow> x \<in> set xs \<Longrightarrow> fill_map key val m xs (key x) = Some (val x)"
proof (induction xs arbitrary: m)
  case Nil
  then show ?case by simp
next
  case (Cons y ys)
  then show ?case
    by (cases "x = y") (auto simp: fill_map_notin)
qed

lemma fill_map_SomeD:
  "fill_map key val m xs k = Some v \<Longrightarrow> m k = Some v \<or> (\<exists>x \<in> set xs. key x = k \<and> val x = v)"
  by (induction xs arbitrary: m) (fastforce split: if_splits)+

text \<open>A loop that refuses a key it has already seen.\<close>

fun no_repeat :: "error \<Rightarrow> 'k set \<Rightarrow> 'k list \<Rightarrow> 'k set res" where
  "no_repeat e seen [] = Inr seen"
| "no_repeat e seen (k # ks) =
     (if k \<in> seen then Inl e else no_repeat e (insert k seen) ks)"

lemma no_repeat_Inr [res_simps]:
  "no_repeat e seen ks = Inr seen' \<longleftrightarrow>
     distinct ks \<and> set ks \<inter> seen = {} \<and> seen' = seen \<union> set ks"
  by (induction ks arbitrary: seen) auto

lemma sort_key_order:
  fixes xs :: "'a list" and f :: "'a \<Rightarrow> 'b::linorder"
  shows "mset (sort_key f xs) = mset xs" "sorted (map f (sort_key f xs))"
  by simp_all

end
