(* ===== verification/Text.thy ===== *)
theory Text
  imports Prelude
begin

text \<open>
  Strings and identifiers: the parts of Go's \<open>strings\<close>, \<open>strconv\<close>, \<open>unicode/utf8\<close>,
  \<open>encoding/base64\<close> and \<open>net\<close> packages that \<open>internal/proxynode\<close> uses, on byte strings
  (a Go string is a sequence of bytes, as is \<^typ>\<open>string\<close>), and the identifier patterns of
  \<open>validation.go\<close>.
\<close>

section \<open>Byte classes\<close>

definition is_lower :: "char \<Rightarrow> bool" where
  "is_lower c \<longleftrightarrow> CHR ''a'' \<le> c \<and> c \<le> CHR ''z''"

definition is_upper :: "char \<Rightarrow> bool" where
  "is_upper c \<longleftrightarrow> CHR ''A'' \<le> c \<and> c \<le> CHR ''Z''"

definition is_digit :: "char \<Rightarrow> bool" where
  "is_digit c \<longleftrightarrow> CHR ''0'' \<le> c \<and> c \<le> CHR ''9''"

definition is_alnum :: "char \<Rightarrow> bool" where
  "is_alnum c \<longleftrightarrow> is_lower c \<or> is_upper c \<or> is_digit c"

definition ascii_lower :: "char \<Rightarrow> char" where
  "ascii_lower c = (if is_upper c then char_of (of_char c + 32 :: nat) else c)"

section \<open>Searching and trimming\<close>

definition has_prefix :: "string \<Rightarrow> string \<Rightarrow> bool" where
  "has_prefix p s \<longleftrightarrow> take (length p) s = p"

definition contains_byte :: "char \<Rightarrow> string \<Rightarrow> bool" where
  "contains_byte c s \<longleftrightarrow> c \<in> set s"

definition contains_any :: "string \<Rightarrow> string \<Rightarrow> bool" where
  "contains_any cs s \<longleftrightarrow> list_ex (\<lambda>c. c \<in> set cs) s"

text \<open>\<open>strings.LastIndex\<close>; \<open>None\<close> stands for \<open>-1\<close>.\<close>

definition last_index :: "string \<Rightarrow> string \<Rightarrow> nat option" where
  "last_index sub s = find (\<lambda>i. has_prefix sub (drop i s)) (rev [0..<Suc (length s)])"

text \<open>\<open>strings.Split\<close> with a separator of one byte.\<close>

fun split_on :: "char \<Rightarrow> string \<Rightarrow> string list" where
  "split_on c [] = [[]]"
| "split_on c (x # xs) =
     (if x = c then [] # split_on c xs
      else case split_on c xs of [] \<Rightarrow> [[x]] | y # ys \<Rightarrow> (x # y) # ys)"

text \<open>
  \<open>unicode.IsSpace\<close> in UTF-8: the code points of \<open>White_Space\<close>, as the byte sequences
  \<open>strings.TrimSpace\<close> removes from either end.
\<close>

definition utf8_spaces :: "string list" where
  "utf8_spaces = map (map char_of)
     ([[9], [10], [11], [12], [13], [32], [0xC2, 0x85], [0xC2, 0xA0], [0xE1, 0x9A, 0x80],
       [0xE2, 0x80, 0x80], [0xE2, 0x80, 0x81], [0xE2, 0x80, 0x82], [0xE2, 0x80, 0x83],
       [0xE2, 0x80, 0x84], [0xE2, 0x80, 0x85], [0xE2, 0x80, 0x86], [0xE2, 0x80, 0x87],
       [0xE2, 0x80, 0x88], [0xE2, 0x80, 0x89], [0xE2, 0x80, 0x8A], [0xE2, 0x80, 0xA8],
       [0xE2, 0x80, 0xA9], [0xE2, 0x80, 0xAF], [0xE2, 0x81, 0x9F], [0xE3, 0x80, 0x80]]
      :: nat list list)"

function strip_front :: "string list \<Rightarrow> string \<Rightarrow> string" where
  "strip_front ws s =
     (case find (\<lambda>w. w \<noteq> [] \<and> has_prefix w s) ws of
        None \<Rightarrow> s
      | Some w \<Rightarrow> strip_front ws (drop (length w) s))"
  by pat_completeness auto
termination
proof (relation "measure (\<lambda>(ws, s). length s)")
  fix ws :: "string list" and s w
  assume "find (\<lambda>w. w \<noteq> [] \<and> has_prefix w s) ws = Some w"
  then have "w \<noteq> []" "has_prefix w s" by (auto simp: find_Some_iff)
  then show "((ws, drop (length w) s), (ws, s)) \<in> measure (\<lambda>(ws, s). length s)"
    by (cases s) (auto simp: has_prefix_def)
qed simp

declare strip_front.simps [simp del]

definition trim_space :: "string \<Rightarrow> string" where
  "trim_space s = rev (strip_front (map rev utf8_spaces) (rev (strip_front utf8_spaces s)))"

section \<open>Numbers\<close>

fun show_nat :: "nat \<Rightarrow> string" where
  "show_nat n =
     (if n < 10 then [char_of (48 + n)] else show_nat (n div 10) @ [char_of (48 + n mod 10)])"

declare show_nat.simps [simp del]

definition show_int :: "int \<Rightarrow> string" where
  "show_int i = (if i < 0 then CHR ''-'' # show_nat (nat (- i)) else show_nat (nat i))"

fun digits_value :: "nat \<Rightarrow> string \<Rightarrow> nat option" where
  "digits_value acc [] = Some acc"
| "digits_value acc (c # cs) =
     (if is_digit c then digits_value (acc * 10 + (of_char c - 48)) cs else None)"

text \<open>\<open>strconv.Atoi\<close>: an optional sign, at least one digit, within the 64-bit range.\<close>

definition atoi :: "string \<Rightarrow> int option" where
  "atoi s =
     (let (neg, body) =
        (case s of
           [] \<Rightarrow> (False, [])
         | c # cs \<Rightarrow> if c = CHR ''-'' then (True, cs) else if c = CHR ''+'' then (False, cs)
                      else (False, s))
      in if body = [] then None
         else case digits_value 0 body of
                None \<Rightarrow> None
              | Some n \<Rightarrow>
                  let v = (if neg then - int n else int n)
                  in if - (2 ^ 63) \<le> v \<and> v < 2 ^ 63 then Some v else None)"

section \<open>UTF-8\<close>

text \<open>
  \<open>utf8.ValidString\<close> and the runes a \<open>range\<close> loop over a valid string sees: no overlong
  forms, no surrogates, nothing above U+10FFFF.
\<close>

definition is_cont :: "nat \<Rightarrow> bool" where
  "is_cont b \<longleftrightarrow> 0x80 \<le> b \<and> b \<le> 0xBF"

fun utf8_decode :: "nat list \<Rightarrow> nat list option" where
  "utf8_decode [] = Some []"
| "utf8_decode (a # s) =
     (if a < 0x80 then map_option ((#) a) (utf8_decode s)
      else if 0xC2 \<le> a \<and> a \<le> 0xDF then
        (case s of
           b # s' \<Rightarrow>
             if is_cont b then map_option ((#) ((a - 0xC0) * 64 + (b - 0x80))) (utf8_decode s')
             else None
         | _ \<Rightarrow> None)
      else if 0xE0 \<le> a \<and> a \<le> 0xEF then
        (case s of
           b # c # s' \<Rightarrow>
             if is_cont b \<and> is_cont c \<and> (a = 0xE0 \<longrightarrow> 0xA0 \<le> b) \<and> (a = 0xED \<longrightarrow> b \<le> 0x9F)
             then map_option ((#) ((a - 0xE0) * 4096 + (b - 0x80) * 64 + (c - 0x80)))
                    (utf8_decode s')
             else None
         | _ \<Rightarrow> None)
      else if 0xF0 \<le> a \<and> a \<le> 0xF4 then
        (case s of
           b # c # d # s' \<Rightarrow>
             if is_cont b \<and> is_cont c \<and> is_cont d \<and> (a = 0xF0 \<longrightarrow> 0x90 \<le> b)
               \<and> (a = 0xF4 \<longrightarrow> b \<le> 0x8F)
             then map_option
                    ((#) ((a - 0xF0) * 262144 + (b - 0x80) * 4096 + (c - 0x80) * 64 + (d - 0x80)))
                    (utf8_decode s')
             else None
         | _ \<Rightarrow> None)
      else None)"

definition runes :: "string \<Rightarrow> nat list option" where
  "runes s = utf8_decode (map of_char s)"

section \<open>Base64\<close>

definition b64_std_alphabet :: string where
  "b64_std_alphabet =
     ''ABCDEFGHIJKLMNOPQRSTUVWXYZabcdefghijklmnopqrstuvwxyz0123456789+/''"

definition b64_url_alphabet :: string where
  "b64_url_alphabet =
     ''ABCDEFGHIJKLMNOPQRSTUVWXYZabcdefghijklmnopqrstuvwxyz0123456789-_''"

fun b64_encode :: "string \<Rightarrow> string \<Rightarrow> nat list \<Rightarrow> string" where
  "b64_encode al pad [] = []"
| "b64_encode al pad [a] =
     [al ! (a div 4 mod 64), al ! (a mod 4 * 16)] @ pad @ pad"
| "b64_encode al pad [a, b] =
     [al ! (a div 4 mod 64), al ! (a mod 4 * 16 + b div 16 mod 16), al ! (b mod 16 * 4)] @ pad"
| "b64_encode al pad (a # b # c # r) =
     [al ! (a div 4 mod 64), al ! (a mod 4 * 16 + b div 16 mod 16),
      al ! (b mod 16 * 4 + c div 64 mod 4), al ! (c mod 64)] @ b64_encode al pad r"

definition b64_std :: "nat list \<Rightarrow> string" where
  "b64_std bs = b64_encode b64_std_alphabet ''='' bs"

definition b64_raw_url :: "nat list \<Rightarrow> string" where
  "b64_raw_url bs = b64_encode b64_url_alphabet [] bs"

text \<open>
  \<open>base64.StdEncoding.DecodeString\<close>, of which the code only uses whether it succeeds and how
  long the result is. The decoder skips CR and LF anywhere, wants padded groups of four and,
  not being strict, does not look at the trailing bits.
\<close>

fun b64_std_groups :: "string \<Rightarrow> nat option" where
  "b64_std_groups [] = Some 0"
| "b64_std_groups (a # b # c # d # r) =
     (if a \<in> set b64_std_alphabet \<and> b \<in> set b64_std_alphabet then
        if c \<in> set b64_std_alphabet \<and> d \<in> set b64_std_alphabet
        then map_option (\<lambda>n. n + 3) (b64_std_groups r)
        else if r = [] \<and> d = CHR ''='' \<and> c = CHR ''='' then Some 1
        else if r = [] \<and> d = CHR ''='' \<and> c \<in> set b64_std_alphabet then Some 2
        else None
      else None)"
| "b64_std_groups _ = None"

definition b64_std_decoded_length :: "string \<Rightarrow> nat option" where
  "b64_std_decoded_length s =
     b64_std_groups (filter (\<lambda>c. c \<noteq> CHR 0x0A \<and> c \<noteq> CHR 0x0D) s)"

definition validBase64Length :: "string \<Rightarrow> nat \<Rightarrow> bool" where
  "validBase64Length value len \<longleftrightarrow> b64_std_decoded_length value = Some len"

section \<open>IP addresses\<close>

text \<open>
  \<open>net.ParseIP\<close>, of which the code only uses whether it succeeds. It is
  \<open>netip.ParseAddr\<close> without a zone: the first of a dot, a colon or a percent sign decides the
  family. A percent sign always leads to a refusal (an empty zone is an error, a zone is refused
  by \<open>net\<close>).
\<close>

definition ipv4_field :: "string \<Rightarrow> bool" where
  "ipv4_field f \<longleftrightarrow> f \<noteq> [] \<and> list_all is_digit f \<and> (length f > 1 \<longrightarrow> hd f \<noteq> CHR ''0'')
     \<and> (case digits_value 0 f of Some n \<Rightarrow> n \<le> 255 | None \<Rightarrow> False)"

definition parse_ipv4 :: "string \<Rightarrow> bool" where
  "parse_ipv4 s \<longleftrightarrow> length (split_on (CHR ''.'') s) = 4 \<and> list_all ipv4_field (split_on (CHR ''.'') s)"

definition is_hex :: "char \<Rightarrow> bool" where
  "is_hex c \<longleftrightarrow> is_digit c \<or> (CHR ''a'' \<le> c \<and> c \<le> CHR ''f'') \<or> (CHR ''A'' \<le> c \<and> c \<le> CHR ''F'')"

text \<open>
  The group loop of \<open>netip.parseIPv6\<close>: \<open>i\<close> bytes are filled, \<open>ell\<close> tells whether an
  ellipsis was seen. A group has one to four hexadecimal digits; a dot after them switches to a
  trailing dotted quad.
\<close>

function ipv6_groups :: "nat \<Rightarrow> bool \<Rightarrow> string \<Rightarrow> bool" where
  "ipv6_groups i ell s =
     (if i \<ge> 16 then s = [] \<and> \<not> ell
      else
        let h = takeWhile is_hex s; r = dropWhile is_hex s in
        if h = [] \<or> length h > 4 then False
        else if r \<noteq> [] \<and> hd r = CHR ''.'' then
          (ell \<or> i = 12) \<and> i + 4 \<le> 16 \<and> parse_ipv4 s \<and> (if i + 4 < 16 then ell else \<not> ell)
        else if r = [] then (if i + 2 < 16 then ell else \<not> ell)
        else if hd r \<noteq> CHR '':'' \<or> length r = 1 then False
        else if hd (tl r) = CHR '':'' then
          if ell then False
          else if tl (tl r) = [] then i + 2 < 16
          else ipv6_groups (i + 2) True (tl (tl r))
        else ipv6_groups (i + 2) ell (tl r))"
  by pat_completeness auto
termination
  by (relation "measure (\<lambda>(i, ell, s). 16 - i)") auto

declare ipv6_groups.simps [simp del]

definition parse_ipv6 :: "string \<Rightarrow> bool" where
  "parse_ipv6 s =
     (if CHR ''%'' \<in> set s then False
      else if has_prefix ''::'' s then drop 2 s = [] \<or> ipv6_groups 0 True (drop 2 s)
      else ipv6_groups 0 False s)"

definition parse_ip :: "string \<Rightarrow> bool" where
  "parse_ip s =
     (case find (\<lambda>c. c \<in> set ''.:%'') s of
        None \<Rightarrow> False
      | Some c \<Rightarrow> if c = CHR ''.'' then parse_ipv4 s else if c = CHR '':'' then parse_ipv6 s else False)"

text \<open>
  \<open>net.ParseCIDR\<close>: an address, a slash and a decimal prefix length within the address's
  width. \<open>netip.Addr.Is4\<close> holds exactly for a dotted quad.
\<close>

definition parse_cidr :: "string \<Rightarrow> bool" where
  "parse_cidr s =
     (let addr = takeWhile (\<lambda>c. c \<noteq> CHR ''/'') s; rest = dropWhile (\<lambda>c. c \<noteq> CHR ''/'') s in
      if rest = [] then False
      else parse_ip addr \<and> tl rest \<noteq> [] \<and>
        (case digits_value 0 (tl rest) of
           None \<Rightarrow> False
         | Some n \<Rightarrow> n \<le> (if parse_ipv4 addr then 32 else 128)))"

section \<open>Identifier patterns\<close>

definition id_tail_byte :: "char \<Rightarrow> bool" where
  "id_tail_byte c \<longleftrightarrow> is_alnum c \<or> c = CHR ''_'' \<or> c = CHR ''-''"

text \<open>\<open>idPattern\<close>: two to four lower-case letters, an underscore, 20 to 32 tail bytes.\<close>

definition matches_id_pattern :: "string \<Rightarrow> bool" where
  "matches_id_pattern value =
     (let p = takeWhile is_lower value; r = dropWhile is_lower value in
      2 \<le> length p \<and> length p \<le> 4 \<and> r \<noteq> [] \<and> hd r = CHR ''_'' \<and>
      20 \<le> length (tl r) \<and> length (tl r) \<le> 32 \<and> list_all id_tail_byte (tl r))"

definition validID :: "string \<Rightarrow> string \<Rightarrow> bool" where
  "validID value prefix \<longleftrightarrow> has_prefix prefix value \<and> matches_id_pattern value"

text \<open>A leading alphanumeric byte and a bounded tail over the given extra bytes.\<close>

definition name_pattern :: "string \<Rightarrow> nat \<Rightarrow> string \<Rightarrow> bool" where
  "name_pattern extra max_tail value =
     (case value of
        [] \<Rightarrow> False
      | c # cs \<Rightarrow> is_alnum c \<and> length cs \<le> max_tail \<and> list_all (\<lambda>d. is_alnum d \<or> d \<in> set extra) cs)"

definition legacyNamePattern :: "string \<Rightarrow> bool" where
  "legacyNamePattern = name_pattern ''._-'' 95"

definition validAgentID :: "string \<Rightarrow> bool" where
  "validAgentID = name_pattern ''._-'' 127"

definition ruleSetTagPattern :: "string \<Rightarrow> bool" where
  "ruleSetTagPattern = name_pattern ''._-'' 127"

definition subscriptionGeoPattern :: "string \<Rightarrow> bool" where
  "subscriptionGeoPattern = name_pattern ''._@!-'' 127"

definition server_label :: "string \<Rightarrow> bool" where
  "server_label l \<longleftrightarrow> l \<noteq> [] \<and> length l \<le> 63 \<and> hd l \<noteq> CHR ''-'' \<and> last l \<noteq> CHR ''-''
     \<and> list_all (\<lambda>c. is_alnum c \<or> c = CHR ''-'') l"

definition validServerName :: "string \<Rightarrow> bool" where
  "validServerName value =
     (let v = trim_space value in
      if v = [] \<or> length v > 253 \<or> contains_any [CHR 0x00, CHR ''/'', CHR 0x5C] v then False
      else if parse_ip v then True
      else list_all server_label (split_on (CHR ''.'') v))"

section \<open>Facts\<close>

lemma has_prefix_append: "has_prefix p (p @ s)"
  by (simp add: has_prefix_def)

lemma has_prefix_iff: "has_prefix p s \<longleftrightarrow> (\<exists>t. s = p @ t)"
  unfolding has_prefix_def by (metis append_eq_conv_conj append_take_drop_id)

lemma strip_front_no_prefix:
  "w \<in> set ws \<Longrightarrow> w \<noteq> [] \<Longrightarrow> \<not> has_prefix w (strip_front ws s)"
proof (induction ws s rule: strip_front.induct)
  case (1 ws s)
  show ?case
  proof (cases "find (\<lambda>w. w \<noteq> [] \<and> has_prefix w s) ws")
    case None
    then have "strip_front ws s = s" by (subst strip_front.simps) simp
    with 1 None show ?thesis by (auto simp: find_None_iff)
  next
    case (Some v)
    with 1 show ?thesis by (subst strip_front.simps) simp
  qed
qed

lemma strip_front_id:
  "(\<And>w. w \<in> set ws \<Longrightarrow> w \<noteq> [] \<Longrightarrow> \<not> has_prefix w s) \<Longrightarrow> strip_front ws s = s"
  by (subst strip_front.simps) (auto simp: find_None_iff split: option.splits dest!: find_Some_iff [THEN iffD1] nth_mem)

lemma strip_front_suffix: "\<exists>p. s = p @ strip_front ws s"
proof (induction ws s rule: strip_front.induct)
  case (1 ws s)
  show ?case
  proof (cases "find (\<lambda>w. w \<noteq> [] \<and> has_prefix w s) ws")
    case None
    then show ?thesis by (subst strip_front.simps) simp
  next
    case (Some w)
    with 1 obtain p where "drop (length w) s = p @ strip_front ws (drop (length w) s)" by blast
    then have "s = (take (length w) s @ p) @ strip_front ws (drop (length w) s)"
      by (metis append.assoc append_take_drop_id)
    moreover from Some have "strip_front ws s = strip_front ws (drop (length w) s)"
      by (subst strip_front.simps) simp
    ultimately show ?thesis by metis
  qed
qed

lemma trim_space_idem [simp]: "trim_space (trim_space s) = trim_space s"
proof -
  let ?f = "strip_front utf8_spaces s"
  let ?t = "trim_space s"
  obtain p where p: "rev ?f = p @ strip_front (map rev utf8_spaces) (rev ?f)"
    using strip_front_suffix by blast
  then have "?f = ?t @ rev p"
    unfolding trim_space_def by (metis rev_append rev_rev_ident)
  then have "\<not> has_prefix w ?t" if "w \<in> set utf8_spaces" "w \<noteq> []" for w
    using strip_front_no_prefix [OF that, of s] by (auto simp: has_prefix_iff)
  then have front: "strip_front utf8_spaces ?t = ?t"
    by (rule strip_front_id)
  have "strip_front (map rev utf8_spaces) (rev ?t) = rev ?t"
    by (rule strip_front_id) (simp add: trim_space_def strip_front_no_prefix)
  with front show ?thesis by (simp add: trim_space_def)
qed

lemma space_bytes: "list_all (\<lambda>w. w \<noteq> [] \<and> \<not> is_alnum (hd w) \<and> \<not> is_alnum (last w)) utf8_spaces"
  by code_simp

lemma strip_front_alnum:
  assumes "s = [] \<or> is_alnum (hd s)" "\<forall>w \<in> set ws. w \<noteq> [] \<and> \<not> is_alnum (hd w)"
  shows "strip_front ws s = s"
proof (rule strip_front_id)
  fix w assume w: "w \<in> set ws" "w \<noteq> []"
  show "\<not> has_prefix w s"
  proof
    assume "has_prefix w s"
    then obtain t where "s = w @ t" by (auto simp: has_prefix_iff)
    with assms w show False by auto
  qed
qed

lemma trim_space_alnum:
  assumes "s = [] \<or> is_alnum (hd s) \<and> is_alnum (last s)"
  shows "trim_space s = s"
proof -
  have "strip_front utf8_spaces s = s"
    using assms space_bytes by (intro strip_front_alnum) (auto simp: list_all_iff)
  moreover have "strip_front (map rev utf8_spaces) (rev s) = rev s"
    using assms space_bytes by (intro strip_front_alnum) (auto simp: list_all_iff hd_rev)
  ultimately show ?thesis by (simp add: trim_space_def)
qed

lemma length_b64_raw_url: "length (b64_raw_url bs) = (length bs * 4 + 2) div 3"
proof -
  have "length (b64_encode al [] bs) = (length bs * 4 + 2) div 3" for al
    by (induction al "[]::string" bs rule: b64_encode.induct) auto
  then show ?thesis by (simp add: b64_raw_url_def)
qed

lemma b64_encode_alphabet:
  "length al = 64 \<Longrightarrow> set (b64_encode al pad bs) \<subseteq> set al \<union> set pad"
  by (induction al pad bs rule: b64_encode.induct) (auto intro!: nth_mem)

lemma b64_url_id_tail: "list_all id_tail_byte b64_url_alphabet"
  by (simp add: b64_url_alphabet_def id_tail_byte_def is_alnum_def is_lower_def is_upper_def is_digit_def)

lemma b64_raw_url_tail: "list_all id_tail_byte (b64_raw_url bs)"
proof -
  have "set (b64_raw_url bs) \<subseteq> set b64_url_alphabet"
    using b64_encode_alphabet [of b64_url_alphabet "[]" bs]
    by (simp add: b64_raw_url_def) (simp add: b64_url_alphabet_def)
  with b64_url_id_tail show ?thesis by (auto simp: list_all_iff)
qed

lemma b64_std_length:
  "b64_std_groups (b64_encode b64_std_alphabet ''='' bs) = Some (length bs)"
proof -
  have len: "length b64_std_alphabet = 64" by (simp add: b64_std_alphabet_def)
  have pad: "CHR ''='' \<notin> set b64_std_alphabet" by (simp add: b64_std_alphabet_def)
  then have nth_pad: "b64_std_alphabet ! n \<noteq> CHR ''=''" if "n < 64" for n
    using that len by (metis nth_mem)
  have "al = b64_std_alphabet \<Longrightarrow> p = ''='' \<Longrightarrow> b64_std_groups (b64_encode al p bs) = Some (length bs)" for al p
  proof (induction al p bs rule: b64_encode.induct)
    case (4 al p a b c r)
    then show ?case by (simp add: len)
  qed (simp_all add: len pad nth_pad)
  then show ?thesis by simp
qed

lemma validBase64Length_std [simp]: "validBase64Length (b64_std bs) (length bs)"
proof -
  have "length b64_std_alphabet = 64" by (simp add: b64_std_alphabet_def)
  then have "set (b64_std bs) \<subseteq> set b64_std_alphabet \<union> set ''=''"
    unfolding b64_std_def by (rule b64_encode_alphabet)
  moreover have "CHR 0x0A \<notin> set b64_std_alphabet \<union> set ''=''"
    "CHR 0x0D \<notin> set b64_std_alphabet \<union> set ''=''"
    by (simp_all add: b64_std_alphabet_def)
  ultimately have "filter (\<lambda>c. c \<noteq> CHR 0x0A \<and> c \<noteq> CHR 0x0D) (b64_std bs) = b64_std bs"
    by (auto simp: filter_id_conv)
  then show ?thesis
    by (simp add: validBase64Length_def b64_std_decoded_length_def b64_std_length b64_std_def)
qed

lemma takeWhile_append_stop:
  "list_all p xs \<Longrightarrow> \<not> p y \<Longrightarrow> takeWhile p (xs @ y # ys) = xs \<and> dropWhile p (xs @ y # ys) = y # ys"
  by (induction xs) auto

lemma validID_generated:
  assumes "list_all is_lower p" "2 \<le> length p" "length p \<le> 4"
    and "20 \<le> length t" "length t \<le> 32" "list_all id_tail_byte t"
  shows "validID (p @ CHR ''_'' # t) (p @ [CHR ''_''])"
proof -
  have "\<not> is_lower (CHR ''_'')" by (simp add: is_lower_def)
  with assms show ?thesis
    using has_prefix_append [of "p @ [CHR ''_'']" t]
    by (simp add: validID_def matches_id_pattern_def takeWhile_append_stop Let_def)
qed

end
