(* ===== verification/Calendar.thy ===== *)
theory Calendar
  imports Prelude
begin

text \<open>
  The billing clock of \<open>internal/proxynode/billing.go\<close>.

  An instant is the number of nanoseconds since 0001-01-01 00:00:00 UTC, Go's zero time, so
  \<open>IsZero\<close> is \<open>t = 0\<close>, \<open>Equal\<close> is equality, \<open>Truncate(time.Second)\<close> rounds down to a
  multiple of a second and \<open>UTC\<close>/\<open>In\<close> do not change the value. The civil calendar
  functions \<open>time.Date\<close>, \<open>Year\<close>, \<open>Month\<close>, \<open>Day\<close> and \<open>AddDate\<close> are the
  proleptic Gregorian ones, in the fixed zone the code uses (UTC+8 for billing, UTC for the
  migration of old dates). On them stand \<open>billingDate\<close>, \<open>addCalendarMonths\<close> and
  \<open>addCalendarMonthsAnchored\<close>.

  Day numbers count from 0001-01-01. The round trip between day numbers and civil dates, and the
  characterisation of the month functions by first and last days, are the facts every billing
  property uses; they are collected in \<open>calendar_simps\<close>.
\<close>

named_theorems calendar_simps \<open>civil dates and billing dates\<close>

type_synonym time = int

definition second :: int where "second = 1000000000"
definition minute :: int where "minute = 60 * second"
definition hour :: int where "hour = 60 * minute"
definition day :: int where "day = 24 * hour"

text \<open>\<open>time.FixedZone("UTC+8", 8*60*60)\<close> and UTC, as offsets.\<close>

definition billingLocation :: int where "billingLocation = 8 * hour"
definition utc :: int where "utc = 0"

definition truncate_second :: "time \<Rightarrow> time" where
  "truncate_second t = t - t mod second"

definition nanosecond :: "time \<Rightarrow> int" where
  "nanosecond t = t mod second"

section \<open>Civil dates\<close>

definition leap :: "int \<Rightarrow> bool" where
  "leap y \<longleftrightarrow> y mod 4 = 0 \<and> (y mod 100 \<noteq> 0 \<or> y mod 400 = 0)"

definition days_before_year :: "int \<Rightarrow> int" where
  "days_before_year y = 365 * (y - 1) + (y - 1) div 4 - (y - 1) div 100 + (y - 1) div 400"

definition days_before_month :: "int \<Rightarrow> int \<Rightarrow> int" where
  "days_before_month y m =
     [0, 31, 59, 90, 120, 151, 181, 212, 243, 273, 304, 334] ! nat (m - 1)
     + (if leap y \<and> 2 < m then 1 else 0)"

definition days_in_month :: "int \<Rightarrow> int \<Rightarrow> int" where
  "days_in_month y m =
     [31, if leap y then 29 else 28, 31, 30, 31, 30, 31, 31, 30, 31, 30, 31] ! nat (m - 1)"

definition days_from_civil :: "int \<Rightarrow> int \<Rightarrow> int \<Rightarrow> int" where
  "days_from_civil y m d = days_before_year y + days_before_month y m + (d - 1)"

definition year_of :: "int \<Rightarrow> int" where
  "year_of n =
     (let a = n div 146097; r = n mod 146097;
          b = min 3 (r div 36524); r2 = r - 36524 * b;
          c = r2 div 1461; r3 = r2 mod 1461;
          d = min 3 (r3 div 365)
      in 400 * a + 100 * b + 4 * c + d + 1)"

definition year_day :: "int \<Rightarrow> int" where
  "year_day n = n - days_before_year (year_of n)"

definition month_of :: "int \<Rightarrow> int" where
  "month_of n =
     int (length (filter (\<lambda>m. days_before_month (year_of n) m \<le> year_day n)
                    [1, 2, 3, 4, 5, 6, 7, 8, 9, 10, 11, 12]))"

definition day_of :: "int \<Rightarrow> int" where
  "day_of n = year_day n - days_before_month (year_of n) (month_of n) + 1"

text \<open>The day number an instant falls on in a zone.\<close>

definition local_day :: "int \<Rightarrow> time \<Rightarrow> int" where
  "local_day zone t = (t + zone) div day"

text \<open>\<open>time.Date\<close>: the month is normalised into 1..12 first, then days are counted on from the
  first of that month. \<open>clock\<close> is the time of day in nanoseconds.\<close>

definition time_date :: "int \<Rightarrow> int \<Rightarrow> int \<Rightarrow> int \<Rightarrow> int \<Rightarrow> time" where
  "time_date zone y m d clock =
     (let y' = y + (m - 1) div 12; m' = (m - 1) mod 12 + 1
      in days_from_civil y' m' d * day + clock - zone)"

definition add_date :: "int \<Rightarrow> time \<Rightarrow> int \<Rightarrow> int \<Rightarrow> int \<Rightarrow> time" where
  "add_date zone t years months days =
     (let n = local_day zone t
      in time_date zone (year_of n + years) (month_of n + months) (day_of n + days)
           ((t + zone) mod day))"

section \<open>The billing functions\<close>

definition billingDate :: "time \<Rightarrow> time" where
  "billingDate value =
     (let n = local_day billingLocation value
      in time_date billingLocation (year_of n) (month_of n) (day_of n) 0)"

definition addCalendarMonthsAnchored :: "time \<Rightarrow> int \<Rightarrow> int \<Rightarrow> time" where
  "addCalendarMonthsAnchored date months anchorDay =
     (let date = billingDate date;
          n = local_day billingLocation date;
          first = add_date billingLocation
                    (time_date billingLocation (year_of n) (month_of n) 1 0) 0 months 0;
          lastDay = day_of (local_day billingLocation (add_date billingLocation first 0 1 (- 1)));
          d = min anchorDay lastDay;
          k = local_day billingLocation first
      in time_date billingLocation (year_of k) (month_of k) d 0)"

definition addCalendarMonths :: "time \<Rightarrow> int \<Rightarrow> time" where
  "addCalendarMonths date months =
     (let date = billingDate date
      in addCalendarMonthsAnchored date months (day_of (local_day billingLocation date)))"

definition legacyUTCDateToBillingDate :: "time \<Rightarrow> time" where
  "legacyUTCDateToBillingDate value =
     (if value = 0 then 0
      else let n = local_day utc value
           in time_date billingLocation (year_of n) (month_of n) (day_of n) 0)"

section \<open>Years\<close>

lemma days_before_year_parts:
  assumes "0 \<le> b" "b \<le> 3" "0 \<le> c" "c \<le> 24" "0 \<le> d" "d \<le> 3"
  shows "days_before_year (400 * a + 100 * b + 4 * c + d + 1) = 146097 * a + 36524 * b + 1461 * c + 365 * d"
proof -
  let ?k = "400 * a + 100 * b + 4 * c + d"
  have "?k div 4 = 100 * a + 25 * b + c"
    by (rule int_div_pos_eq [where r = d]) (use assms in simp_all)
  moreover have "?k div 100 = 4 * a + b"
    by (rule int_div_pos_eq [where r = "4 * c + d"]) (use assms in simp_all)
  moreover have "?k div 400 = a"
    by (rule int_div_pos_eq [where r = "100 * b + 4 * c + d"]) (use assms in simp_all)
  ultimately show ?thesis by (simp add: days_before_year_def)
qed

lemma div_step:
  fixes k y :: int
  assumes "0 < k"
  shows "y div k = (y - 1) div k + (if y mod k = 0 then 1 else 0)"
proof (cases "y mod k = 0")
  case True
  have "(y - 1) div k = y div k - 1"
    by (rule int_div_pos_eq [where r = "k - 1"])
      (use True assms mult_div_mod_eq [of k y] in \<open>simp_all add: algebra_simps\<close>)
  with True show ?thesis by simp
next
  case False
  have "0 \<le> y mod k" "y mod k < k" using assms by simp_all
  with False have "0 \<le> y mod k - 1" "y mod k - 1 < k" by linarith+
  then have "(y - 1) div k = y div k"
    using mult_div_mod_eq [of k y] by (intro int_div_pos_eq [where r = "y mod k - 1"]) simp_all
  with False show ?thesis by simp
qed

lemma leap_count:
  fixes q4 q100 q400 p4 p100 p400 y :: int
  assumes "q4 = p4 + (if A then 1 else 0 :: int)" "q100 = p100 + (if B then 1 else 0)"
    "q400 = p400 + (if C then 1 else 0)" and "C \<Longrightarrow> B" "B \<Longrightarrow> A"
  shows "365 * y + q4 - q100 + q400 =
    365 * (y - 1) + p4 - p100 + p400 + (if A \<and> (\<not> B \<or> C) then 366 else 365)"
  unfolding assms(1-3) by (cases A; cases B; cases C) (use assms(4,5) in simp_all)

lemma days_before_year_Suc:
  "days_before_year (y + 1) = days_before_year y + (if leap y then 366 else 365)"
proof -
  have c: "y mod 100 = 0" if "y mod 400 = 0"
    using dvd_trans [of "100::int" 400 y] that by (simp add: dvd_eq_mod_eq_0)
  have b: "y mod 4 = 0" if "y mod 100 = 0"
    using dvd_trans [of "4::int" 100 y] that by (simp add: dvd_eq_mod_eq_0)
  have "365 * y + y div 4 - y div 100 + y div 400 =
    365 * (y - 1) + (y - 1) div 4 - (y - 1) div 100 + (y - 1) div 400 +
    (if y mod 4 = 0 \<and> (y mod 100 \<noteq> 0 \<or> y mod 400 = 0) then 366 else 365)"
    by (rule leap_count [OF div_step div_step div_step c b]) simp_all
  then show ?thesis by (simp only: days_before_year_def leap_def add_diff_cancel_right')
qed

lemma days_before_year_mono_nat: "days_before_year y + 365 * int k \<le> days_before_year (y + int k)"
proof (induction k)
  case 0
  then show ?case by simp
next
  case (Suc k)
  have "days_before_year (y + int (Suc k)) = days_before_year (y + int k + 1)"
    by (simp add: algebra_simps)
  with Suc days_before_year_Suc [of "y + int k"] show ?case by (simp split: if_splits)
qed

lemma days_before_year_less:
  assumes "y < z"
  shows "days_before_year (y + 1) \<le> days_before_year z"
  using days_before_year_mono_nat [of "y + 1" "nat (z - y - 1)"] assms by simp

lemma year_unique:
  assumes "days_before_year y \<le> n" "n < days_before_year (y + 1)"
    and "days_before_year z \<le> n" "n < days_before_year (z + 1)"
  shows "y = z"
  using assms days_before_year_less [of y z] days_before_year_less [of z y] by linarith

lemma year_of_bounds:
  "days_before_year (year_of n) \<le> n \<and> n < days_before_year (year_of n + 1)"
proof -
  define a where "a = n div 146097"
  define r where "r = n mod 146097"
  define b where "b = min 3 (r div 36524)"
  define r2 where "r2 = r - 36524 * b"
  define c where "c = r2 div 1461"
  define r3 where "r3 = r2 mod 1461"
  define d where "d = min 3 (r3 div 365)"
  have y: "year_of n = 400 * a + 100 * b + 4 * c + d + 1"
    unfolding year_of_def Let_def a_def r_def b_def r2_def c_def r3_def d_def by (rule refl)
  have n: "n = 146097 * a + r" "0 \<le> r" "r < 146097"
    unfolding a_def r_def by (rule mult_div_mod_eq [symmetric], simp_all only: pos_mod_sign pos_mod_bound zero_less_numeral)
  have "0 \<le> r div 36524" "36524 * (r div 36524) \<le> r" "r < 36524 * (r div 36524) + 36524"
    using n(2) mult_div_mod_eq [of 36524 r] pos_mod_bound [of 36524 r] pos_mod_sign [of 36524 r]
    by (simp_all add: pos_imp_zdiv_nonneg_iff)
  then have b: "0 \<le> b" "b \<le> 3" "36524 * b \<le> r" "b < 3 \<Longrightarrow> r2 < 36524" "r2 \<le> 36524" "0 \<le> r2"
    using n(3) unfolding r2_def b_def min_def by (auto split: if_splits)
  have c: "0 \<le> c" "c \<le> 24" "r2 = 1461 * c + r3" "0 \<le> r3" "r3 < 1461"
    using b(5,6) zdiv_mono1 [of r2 36524 1461] unfolding c_def r3_def
    by (simp_all add: pos_imp_zdiv_nonneg_iff)
  have d: "0 \<le> d" "d \<le> 3" "365 * d \<le> r3" "d < 3 \<Longrightarrow> r3 < 365 * d + 365" "r3 \<le> 365 * d + 365"
    using c(4,5) mult_div_mod_eq [of 365 r3] pos_mod_bound [of 365 r3] pos_mod_sign [of 365 r3]
    unfolding d_def min_def by (auto simp: pos_imp_zdiv_nonneg_iff split: if_splits)
  have before: "days_before_year (year_of n) = 146097 * a + 36524 * b + 1461 * c + 365 * d"
    unfolding y by (rule days_before_year_parts) (use b c d in simp_all)
  have "leap (year_of n)" if "r3 = 365 * d + 365"
  proof -
    from that d(4) have "d = 3" using d(2) by linarith
    with that c(3) b(4) b(5) c(2) have cases: "c < 24 \<or> (c = 24 \<and> b = 3)"
      using b(2) by linarith
    have "year_of n mod 4 = 0"
      by (rule int_mod_pos_eq [where q = "100 * a + 25 * b + c + 1"])
        (use y \<open>d = 3\<close> in simp_all)
    moreover have "year_of n mod 100 = 4 * c + 4" if "c < 24"
      by (rule int_mod_pos_eq [where q = "4 * a + b"]) (use y \<open>d = 3\<close> c(1) that in simp_all)
    moreover have "year_of n mod 400 = 0" if "c = 24" "b = 3"
      by (rule int_mod_pos_eq [where q = "a + 1"]) (use y \<open>d = 3\<close> that in simp_all)
    ultimately show ?thesis using cases c(1) by (auto simp: leap_def)
  qed
  moreover have "n = days_before_year (year_of n) + (r3 - 365 * d)"
    using n(1) c(3) before r2_def by linarith
  ultimately show ?thesis
    using d(3,5) days_before_year_Suc [of "year_of n"] by (cases "r3 = 365 * d + 365") auto
qed

lemma year_of_unique:
  "days_before_year y \<le> n \<Longrightarrow> n < days_before_year (y + 1) \<Longrightarrow> year_of n = y"
  using year_unique year_of_bounds by blast

section \<open>Months\<close>

lemma month_cases:
  fixes m :: int
  assumes "1 \<le> m" "m \<le> 12"
  shows "m \<in> {1, 2, 3, 4, 5, 6, 7, 8, 9, 10, 11, 12}"
proof -
  have "m \<in> set [1..12]" using assms by simp
  also have "[1..12] = [1, 2, 3, 4, 5, 6, 7, 8, 9, 10, 11, 12::int]" by (simp add: upto.simps)
  finally show ?thesis by simp
qed

lemma days_before_month_table:
  "days_before_month y 1 = 0" "days_before_month y 2 = 31"
  "days_before_month y 3 = (if leap y then 60 else 59)"
  "days_before_month y 4 = (if leap y then 91 else 90)"
  "days_before_month y 5 = (if leap y then 121 else 120)"
  "days_before_month y 6 = (if leap y then 152 else 151)"
  "days_before_month y 7 = (if leap y then 182 else 181)"
  "days_before_month y 8 = (if leap y then 213 else 212)"
  "days_before_month y 9 = (if leap y then 244 else 243)"
  "days_before_month y 10 = (if leap y then 274 else 273)"
  "days_before_month y 11 = (if leap y then 305 else 304)"
  "days_before_month y 12 = (if leap y then 335 else 334)"
  by (simp_all add: days_before_month_def nth_Cons')

lemma days_in_month_table:
  "days_in_month y 1 = 31" "days_in_month y 2 = (if leap y then 29 else 28)"
  "days_in_month y 3 = 31" "days_in_month y 4 = 30" "days_in_month y 5 = 31"
  "days_in_month y 6 = 30" "days_in_month y 7 = 31" "days_in_month y 8 = 31"
  "days_in_month y 9 = 30" "days_in_month y 10 = 31" "days_in_month y 11 = 30"
  "days_in_month y 12 = 31"
  by (simp_all add: days_in_month_def nth_Cons')

lemma days_in_month_bounds:
  assumes "1 \<le> m" "m \<le> 12"
  shows "28 \<le> days_in_month y m" "days_in_month y m \<le> 31"
  using month_cases [OF assms] by (auto simp: days_in_month_table)

lemma days_before_month_Suc:
  assumes "1 \<le> m" "m < 12"
  shows "days_before_month y (m + 1) = days_before_month y m + days_in_month y m"
  using month_cases [of m] assms by (auto simp: days_before_month_table days_in_month_table)

lemma days_before_month_mono:
  assumes "1 \<le> i"
  shows "i + int k \<le> 11 \<Longrightarrow> days_before_month y i + days_in_month y i \<le> days_before_month y (i + int k + 1)"
proof (induction k)
  case 0
  with assms days_before_month_Suc [of i y] show ?case by simp
next
  case (Suc k)
  then have "1 \<le> i + int k + 1" "i + int k + 1 < 12" using assms by simp_all
  from days_before_month_Suc [OF this, of y] days_in_month_bounds(1) [of "i + int k + 1" y] Suc assms
  show ?case by (simp add: algebra_simps)
qed

lemma month_of_unique:
  assumes "1 \<le> m" "m \<le> 12"
    and "days_before_month (year_of n) m \<le> year_day n"
    and "year_day n < days_before_month (year_of n) m + days_in_month (year_of n) m"
  shows "month_of n = m"
proof -
  let ?f = "days_before_month (year_of n)"
  have le: "?f j \<le> year_day n \<longleftrightarrow> j \<le> m" if "j \<in> set [1, 2, 3, 4, 5, 6, 7, 8, 9, 10, 11, 12]" for j
  proof -
    from that have j: "1 \<le> j" "j \<le> 12" by auto
    consider "j = m" | "j < m" | "m < j" by linarith
    then show ?thesis
    proof cases
      case 2
      with days_before_month_mono [OF j(1), of "nat (m - j - 1)" "year_of n"] assms(2,3)
        days_in_month_bounds(1) [OF j, of "year_of n"] show ?thesis by simp
    next
      case 3
      with days_before_month_mono [OF assms(1), of "nat (j - m - 1)" "year_of n"] assms(4) j(2)
      show ?thesis by simp
    qed (use assms(3) in simp)
  qed
  have "month_of n = int (length (filter (\<lambda>j. j \<le> m) [1, 2, 3, 4, 5, 6, 7, 8, 9, 10, 11, 12]))"
    unfolding month_of_def using le by (metis (mono_tags, lifting) filter_cong)
  also have "\<dots> = m"
    using month_cases [OF assms(1,2)] by (elim insertE) simp_all
  finally show ?thesis .
qed

lemma interval_cover:
  fixes f g :: "nat \<Rightarrow> int"
  assumes "\<And>i. i < n \<Longrightarrow> f (Suc i) = f i + g i" and "f 0 \<le> k" and "k < f n + g n"
  shows "\<exists>i \<le> n. f i \<le> k \<and> k < f i + g i"
  using assms
proof (induction n)
  case 0
  then show ?case by auto
next
  case (Suc n)
  show ?case
  proof (cases "f (Suc n) \<le> k")
    case True
    with Suc.prems(3) show ?thesis by auto
  next
    case False
    with Suc.prems(1) [of n] have "k < f n + g n" by simp
    with Suc show ?thesis by (meson le_Suc_eq less_SucI)
  qed
qed

lemma month_of_bounds:
  "1 \<le> month_of n \<and> month_of n \<le> 12 \<and>
   days_before_month (year_of n) (month_of n) \<le> year_day n \<and>
   year_day n < days_before_month (year_of n) (month_of n) + days_in_month (year_of n) (month_of n)"
proof -
  let ?y = "year_of n" and ?k = "year_day n"
  have "0 \<le> ?k" "?k < (if leap ?y then 366 else 365)"
    using year_of_bounds [of n] by (simp_all add: year_day_def days_before_year_Suc)
  moreover have "days_before_month ?y 12 + days_in_month ?y 12 = (if leap ?y then 366 else 365)"
    by (simp add: days_before_month_table days_in_month_table)
  ultimately have "0 \<le> ?k" "?k < days_before_month ?y (int 11 + 1) + days_in_month ?y (int 11 + 1)"
    by simp_all
  then obtain i where i: "i \<le> 11" "days_before_month ?y (int i + 1) \<le> ?k"
    "?k < days_before_month ?y (int i + 1) + days_in_month ?y (int i + 1)"
    using interval_cover [of 11 "\<lambda>i. days_before_month ?y (int i + 1)"
        "\<lambda>i. days_in_month ?y (int i + 1)" ?k]
      days_before_month_Suc [of "int _ + 1" ?y]
    by (auto simp: days_before_month_table)
  then have "1 \<le> int i + 1" "int i + 1 \<le> 12" by simp_all
  with i(2,3) month_of_unique [of "int i + 1" n] show ?thesis by simp
qed

lemma day_of_bounds: "1 \<le> day_of n" "day_of n \<le> days_in_month (year_of n) (month_of n)"
  using month_of_bounds [of n] by (simp_all add: day_of_def)

section \<open>Months as one sequence\<close>

text \<open>
  Month arithmetic is linear in the index \<open>12 * year + (month - 1)\<close>: \<open>time.Date\<close>'s
  normalisation is the split of the index by 12, and the months tile the day numbers.
\<close>

definition month_index :: "int \<Rightarrow> int" where
  "month_index n = 12 * year_of n + (month_of n - 1)"

definition month_first :: "int \<Rightarrow> int" where
  "month_first i = days_from_civil (i div 12) (i mod 12 + 1) 1"

definition month_len :: "int \<Rightarrow> int" where
  "month_len i = days_in_month (i div 12) (i mod 12 + 1)"

lemma month_index_fold: "12 * year_of n + (month_of n - 1) = month_index n"
  by (simp add: month_index_def)

lemma month_index_split:
  fixes m y :: int
  assumes "1 \<le> m" "m \<le> 12"
  shows "(12 * y + (m - 1)) div 12 = y" "(12 * y + (m - 1)) mod 12 = m - 1"
  using assms by (auto intro: int_div_pos_eq int_mod_pos_eq)

lemma month_len_bounds: "28 \<le> month_len i" "month_len i \<le> 31"
  unfolding month_len_def by (rule days_in_month_bounds; simp)+

lemma month_first_Suc: "month_first (i + 1) = month_first i + month_len i"
proof (cases "i mod 12 = 11")
  case True
  then have i: "i = 12 * (i div 12) + 11" using mult_div_mod_eq [of 12 i] by simp
  have "(i + 1) div 12 = i div 12 + 1" by (rule int_div_pos_eq [where r = 0]) (use i in simp_all)
  moreover have "(i + 1) mod 12 = 0" by (rule int_mod_pos_eq [where q = "i div 12 + 1"]) (use i in simp_all)
  ultimately show ?thesis using True
    by (simp add: month_first_def month_len_def days_from_civil_def days_before_month_table
        days_in_month_table days_before_year_Suc)
next
  case False
  have "0 \<le> i mod 12" "i mod 12 < 12" by simp_all
  with False have m: "0 \<le> i mod 12" "i mod 12 < 11" by linarith+
  have "(i + 1) div 12 = i div 12"
    by (rule int_div_pos_eq [where r = "i mod 12 + 1"]) (use m mult_div_mod_eq [of 12 i] in simp_all)
  moreover have "(i + 1) mod 12 = i mod 12 + 1"
    by (rule int_mod_pos_eq [where q = "i div 12"]) (use m mult_div_mod_eq [of 12 i] in simp_all)
  ultimately show ?thesis
    using days_before_month_Suc [of "i mod 12 + 1" "i div 12"] m
    by (simp add: month_first_def month_len_def days_from_civil_def)
qed

lemma month_first_mono: "month_first i + 28 * int k \<le> month_first (i + int k)"
proof (induction k)
  case 0
  then show ?case by simp
next
  case (Suc k)
  with month_first_Suc [of "i + int k"] month_len_bounds(1) [of "i + int k"]
  show ?case by (simp add: algebra_simps)
qed

lemma month_first_less: "i < j \<Longrightarrow> month_first i + month_len i \<le> month_first j"
  using month_first_mono [of "i + 1" "nat (j - i - 1)"] month_first_Suc [of i] by simp

lemma month_first_index: "month_first (month_index n) = days_from_civil (year_of n) (month_of n) 1"
  and month_len_index: "month_len (month_index n) = days_in_month (year_of n) (month_of n)"
  using month_index_split [of "month_of n" "year_of n"] month_of_bounds [of n]
  by (simp_all add: month_first_def month_len_def month_index_def)

lemma month_index_bounds:
  "month_first (month_index n) \<le> n" "n < month_first (month_index n) + month_len (month_index n)"
  using month_of_bounds [of n]
  by (simp_all add: month_first_index month_len_index days_from_civil_def year_day_def)

lemma month_index_unique:
  assumes "month_first i \<le> n" "n < month_first i + month_len i"
  shows "month_index n = i"
  using month_first_less [of i "month_index n"] month_first_less [of "month_index n" i]
    month_index_bounds [of n] assms by linarith

lemma day_of_index [calendar_simps]: "day_of n = n - month_first (month_index n) + 1"
  by (simp add: day_of_def month_first_index days_from_civil_def year_day_def)

lemma days_from_civil_month [calendar_simps]:
  "1 \<le> m \<Longrightarrow> m \<le> 12 \<Longrightarrow> days_from_civil y m d = month_first (12 * y + (m - 1)) + (d - 1)"
  using month_index_split [of m y] by (simp add: month_first_def days_from_civil_def)

text \<open>Day numbers and civil dates determine each other.\<close>

lemma civil_of_days: "days_from_civil (year_of n) (month_of n) (day_of n) = n"
  using month_of_bounds [of n]
  by (simp add: days_from_civil_month day_of_index month_index_def [symmetric])

lemma days_of_civil:
  assumes "1 \<le> m" "m \<le> 12" "1 \<le> d" "d \<le> days_in_month y m"
  shows "year_of (days_from_civil y m d) = y" "month_of (days_from_civil y m d) = m"
    "day_of (days_from_civil y m d) = d"
proof -
  let ?n = "days_from_civil y m d" and ?i = "12 * y + (m - 1)"
  have n: "?n = month_first ?i + (d - 1)" using assms by (simp add: days_from_civil_month)
  have "month_len ?i = days_in_month y m"
    using month_index_split [of m y] assms by (simp add: month_len_def)
  with n assms have i: "month_index ?n = ?i" by (intro month_index_unique) simp_all
  then have *: "12 * year_of ?n + (month_of ?n - 1) = ?i" by (simp add: month_index_def)
  show y: "year_of ?n = y"
    using month_index_split(1) [of "month_of ?n" "year_of ?n"] month_index_split(1) [of m y]
      month_of_bounds [of ?n] assms * by metis
  with * show "month_of ?n = m" by simp
  from i n show "day_of ?n = d" by (simp add: day_of_index)
qed

section \<open>Instants in a zone\<close>

abbreviation bday :: "time \<Rightarrow> int" where
  "bday \<equiv> local_day billingLocation"

definition bday_start :: "int \<Rightarrow> time" where
  "bday_start n = n * day - billingLocation"

lemma day_pos [simp]: "0 < day" "day \<noteq> 0"
  by (simp_all add: day_def hour_def minute_def second_def)

lemma second_pos [simp]: "0 < second" "second \<noteq> 0"
  by (simp_all add: second_def)

lemma local_day_date: "0 \<le> c \<Longrightarrow> c < day \<Longrightarrow> local_day z (n * day + c - z) = n"
  unfolding local_day_def by (rule int_div_pos_eq [where r = c]) (simp_all add: mult.commute)

lemma bday_bday_start [simp]: "bday (bday_start n) = n"
  using local_day_date [of 0 billingLocation n] by (simp add: bday_start_def)

lemma bday_start_less_iff [simp]: "bday_start m < bday_start n \<longleftrightarrow> m < n"
  "bday_start m \<le> bday_start n \<longleftrightarrow> m \<le> n" "bday_start m = bday_start n \<longleftrightarrow> m = n"
  by (simp_all add: bday_start_def)

lemma bday_start_bounds: "bday_start (bday t) \<le> t" "t < bday_start (bday t + 1)"
proof -
  let ?q = "(t + billingLocation) div day" and ?r = "(t + billingLocation) mod day"
  have "t + billingLocation = day * ?q + ?r" by (simp only: mult_div_mod_eq)
  moreover have "0 \<le> ?r" "?r < day" by simp_all
  ultimately show "bday_start (bday t) \<le> t" "t < bday_start (bday t + 1)"
    by (simp_all only: bday_start_def local_day_def distrib_right mult.commute [of ?q day] mult_1_left)
qed

lemma bday_mono: "s \<le> t \<Longrightarrow> bday s \<le> bday t"
  by (simp add: local_day_def zdiv_mono1)

lemma time_date_month:
  "time_date z y m d c = (month_first (12 * y + (m - 1)) + (d - 1)) * day + c - z"
proof -
  have "(12 * y + (m - 1)) div 12 = y + (m - 1) div 12" "(12 * y + (m - 1)) mod 12 = (m - 1) mod 12"
    by simp_all
  then show ?thesis
    by (simp add: time_date_def Let_def month_first_def days_from_civil_def)
qed

lemma time_date_billing:
  "time_date billingLocation y m d 0 = bday_start (month_first (12 * y + (m - 1)) + (d - 1))"
  by (simp add: time_date_month bday_start_def)

lemma month_index_next: "12 * (year_of n + a) + (month_of n + b - 1) = month_index n + 12 * a + b"
  by (simp add: month_index_def)

lemma add_date_billing:
  "add_date billingLocation (bday_start n) a b c =
     bday_start (month_first (month_index n + 12 * a + b) + (day_of n + c - 1))"
proof -
  have "(bday_start n + billingLocation) mod day = 0" by (simp add: bday_start_def)
  then show ?thesis
    by (simp add: add_date_def Let_def time_date_billing month_index_def algebra_simps)
qed

lemma add_date_days [calendar_simps]: "add_date billingLocation (bday_start n) 0 0 c = bday_start (n + c)"
  by (simp add: add_date_billing day_of_index)

lemma billingDate_eq [calendar_simps]: "billingDate t = bday_start (bday t)"
  using month_index_next [of "bday t" 0 0]
  by (simp add: billingDate_def Let_def time_date_billing day_of_index)

lemma billingDate_idem [simp]: "billingDate (billingDate t) = billingDate t"
  by (simp add: billingDate_eq)

lemma billingDate_fixed: "billingDate t = t \<longleftrightarrow> t = bday_start (bday t)"
  by (auto simp: billingDate_eq)

lemma billingDate_le: "billingDate t \<le> t" "t < billingDate t + day"
  using bday_start_bounds [of t] by (simp_all add: billingDate_eq bday_start_def algebra_simps)

section \<open>Month arithmetic\<close>

text \<open>
  The result is the anchor day of the month that lies \<open>k\<close> months on, or that month's last day
  when the month is shorter.
\<close>

lemma addCalendarMonthsAnchored_eq:
  "addCalendarMonthsAnchored t k a =
     bday_start (month_first (month_index (bday t) + k) + (min a (month_len (month_index (bday t) + k)) - 1))"
proof -
  let ?i = "month_index (bday t)"
  have idx: "month_index (month_first j) = j" for j
    using month_len_bounds(1) [of j] by (intro month_index_unique) simp_all
  have day1: "day_of (month_first j) = 1" for j by (simp add: day_of_index idx)
  have next_first: "add_date billingLocation (bday_start (month_first ?i)) 0 k 0 = bday_start (month_first (?i + k))"
    by (simp add: add_date_billing idx day1)
  have "month_first (?i + k + 1) - 1 = month_first (?i + k) + (month_len (?i + k) - 1)"
    by (simp add: month_first_Suc)
  moreover from this have "month_index (month_first (?i + k + 1) - 1) = ?i + k"
    using month_len_bounds(1) [of "?i + k"] by (intro month_index_unique) simp_all
  ultimately have last: "day_of (month_first (?i + k + 1) - 1) = month_len (?i + k)"
    by (simp add: day_of_index)
  have "add_date billingLocation (bday_start (month_first (?i + k))) 0 1 (- 1) = bday_start (month_first (?i + k + 1) - 1)"
    by (simp add: add_date_billing idx day1)
  then show ?thesis
    by (simp add: addCalendarMonthsAnchored_def Let_def billingDate_eq time_date_billing
        month_index_fold next_first last idx)
qed

lemma addCalendarMonthsAnchored_month:
  assumes "1 \<le> a"
  shows "month_index (bday (addCalendarMonthsAnchored t k a)) = month_index (bday t) + k"
    and "day_of (bday (addCalendarMonthsAnchored t k a)) = min a (month_len (month_index (bday t) + k))"
proof -
  let ?j = "month_index (bday t) + k"
  show idx: "month_index (bday (addCalendarMonthsAnchored t k a)) = ?j"
    using assms month_len_bounds(1) [of ?j]
    by (intro month_index_unique) (simp_all add: addCalendarMonthsAnchored_eq)
  show "day_of (bday (addCalendarMonthsAnchored t k a)) = min a (month_len ?j)"
    unfolding day_of_index idx by (simp add: addCalendarMonthsAnchored_eq)
qed

lemma addCalendarMonthsAnchored_gt:
  assumes "1 \<le> a" "1 \<le> k"
  shows "bday t < bday (addCalendarMonthsAnchored t k a)"
    and "billingDate t < addCalendarMonthsAnchored t k a"
proof -
  have "bday t < month_first (month_index (bday t) + k)"
    using month_index_bounds(2) [of "bday t"] month_first_less [of "month_index (bday t)" "month_index (bday t) + k"]
      assms(2) by linarith
  moreover have "1 \<le> min a (month_len (month_index (bday t) + k))"
    using assms(1) month_len_bounds(1) [of "month_index (bday t) + k"] by simp
  ultimately have "bday t < month_first (month_index (bday t) + k)
      + (min a (month_len (month_index (bday t) + k)) - 1)"
    by linarith
  then show "bday t < bday (addCalendarMonthsAnchored t k a)"
    "billingDate t < addCalendarMonthsAnchored t k a"
    by (simp_all add: addCalendarMonthsAnchored_eq billingDate_eq)
qed

lemma addCalendarMonthsAnchored_billing [simp]:
  "billingDate (addCalendarMonthsAnchored t k a) = addCalendarMonthsAnchored t k a"
  by (simp add: billingDate_eq addCalendarMonthsAnchored_eq)

lemma addCalendarMonths_eq:
  "addCalendarMonths t k = addCalendarMonthsAnchored t k (day_of (bday t))"
  by (simp add: addCalendarMonths_def Let_def addCalendarMonthsAnchored_eq billingDate_eq)

lemma addCalendarMonths_gt: "1 \<le> k \<Longrightarrow> billingDate t < addCalendarMonths t k"
  unfolding addCalendarMonths_eq by (rule addCalendarMonthsAnchored_gt(2)) (simp_all add: day_of_bounds)

end
