(* ===== verification/Model.thy ===== *)
theory Model
  imports Text Calendar
begin

text \<open>
  The data of \<open>internal/proxynode/model.go\<close>, field by field, and the environment the package
  runs in.

  The string enumerations of the source become datatypes: one constructor per declared constant,
  one for the empty string where the code tests for it and one for any other text, since decoded
  state may hold anything. A slice is a list, an optional pointer an \<open>option\<close>, \<open>uint64\<close> a
  64-bit word, \<open>int\<close> an \<open>int\<close>, an instant a \<^typ>\<open>time\<close>.

  \<open>environment\<close> collects what lies outside the repository: the Unicode functions of
  \<open>golang.org/x/text\<close> and of the \<open>unicode\<close> tables, the URL grammar of \<open>net/url\<close> and what the
  machine makes of a \<open>float64\<close> outside the range of \<open>uint64\<close>, which Go leaves open. They are
  arguments of the definitions that use them.
\<close>

section \<open>Enumerations\<close>

datatype protocol = ProtocolShadowsocks | ProtocolAnyTLS | ProtocolHysteria2 | OtherProtocol string

datatype tls_mode = TLSModeUnset | TLSModeACME | TLSModeSelfSigned | TLSModeFiles | OtherTLSMode string

datatype target_type = TargetUnset | TargetDirect | TargetReject | TargetLink | OtherTarget string

datatype match_type =
    MatchNone | MatchProtocol | MatchDomain | MatchDomainSuffix | MatchDomainKeyword
  | MatchDomainRegex | MatchIPCIDR | MatchGeosite | MatchGeoIP | MatchRuleSet | MatchNetwork
  | OtherMatch string

datatype user_role = UserRoleEndUser | UserRoleAdministrator | OtherRole string

datatype subscription_action =
    SubscriptionActionUnset | SubscriptionProxy | SubscriptionDirect | SubscriptionReject
  | OtherAction string

datatype address_mode =
    SubscriptionAddressUnset | SubscriptionAddressDual | SubscriptionAddressIPv4
  | SubscriptionAddressIPv6 | OtherAddressMode string

datatype subscription_match =
    SubscriptionMatchDomain | SubscriptionMatchDomainSuffix | SubscriptionMatchDomainKeyword
  | SubscriptionMatchDomainRegex | SubscriptionMatchIPCIDR | SubscriptionMatchSourceIPCIDR
  | SubscriptionMatchGeosite | SubscriptionMatchGeoIP | SubscriptionMatchDestinationPort
  | SubscriptionMatchSourcePort | SubscriptionMatchNetwork | SubscriptionMatchProtocol
  | SubscriptionMatchProcessName | SubscriptionMatchProvider | OtherSubscriptionMatch string

datatype subscription_unit =
    SubscriptionUnitUnset | SubscriptionMinutes | SubscriptionHours | SubscriptionDays
  | SubscriptionMonths | OtherUnit string

datatype membership_status =
    MembershipEnabled | MembershipQuotaReached | MembershipExpired | OtherStatus string

section \<open>Records\<close>

record build_info =
  bi_Component :: string
  bi_Version :: string
  bi_Commit :: string
  bi_RecordedAt :: time

record subscription_rule =
  sr_ID :: string
  sr_Order :: int
  sr_Match :: subscription_match
  sr_Values :: "string list"
  sr_NoResolve :: bool
  sr_Provider :: string
  sr_Action :: subscription_action

record subscription_provider =
  sp_ID :: string
  sp_Name :: string
  sp_Behavior :: string
  sp_DefaultURL :: string
  sp_ClashURL :: string
  sp_SurgeURL :: string
  sp_SingBoxURL :: string
  sp_UpdateInterval :: int

record user_subscription =
  us_Token :: string
  us_UpdatedAt :: time
  us_DefaultAction :: subscription_action
  us_Rules :: "subscription_rule list"
  us_Providers :: "subscription_provider list"

record subscription_policy =
  pol_DefaultAction :: subscription_action
  pol_Rules :: "subscription_rule list"
  pol_Providers :: "subscription_provider list"
  pol_UpdatedAt :: time

record user =
  usr_ID :: string
  usr_Name :: string
  usr_Role :: user_role
  usr_Subscription :: user_subscription
  usr_CreatedAt :: time
  usr_UpdatedAt :: time

record tcp_brutal_config =
  brutal_Enabled :: bool
  brutal_UpMbps :: int
  brutal_DownMbps :: int

record multiplex_config =
  mux_Enabled :: bool
  mux_Padding :: bool
  mux_Brutal :: "tcp_brutal_config option"

record tls_config =
  tls_Mode :: tls_mode
  tls_ServerName :: string
  tls_Email :: string
  tls_CertificatePath :: string
  tls_KeyPath :: string

record endpoint =
  ep_Protocol :: protocol
  ep_Listen :: string
  ep_ListenPort :: int
  ep_Family :: string
  ep_Method :: string
  ep_ServerKey :: string
  ep_Multiplex :: "multiplex_config option"
  ep_TLS :: tls_config
  ep_UpMbps :: int
  ep_DownMbps :: int
  ep_ObfsType :: string
  ep_ObfsSecret :: string

record credential =
  cred_Secret :: string

record target =
  tgt_Type :: target_type
  tgt_LinkID :: string

record rule =
  rul_ID :: string
  rul_Order :: int
  rul_Match :: match_type
  rul_Values :: "string list"
  rul_LegacyTarget :: "target option"

record hop =
  hop_ID :: string
  hop_Name :: string
  hop_AgentID :: string
  hop_LegacyRules :: "rule list"
  hop_Final :: target
  hop_CreatedAt :: time
  hop_UpdatedAt :: time

record link =
  lnk_ID :: string
  lnk_ParentHopID :: string
  lnk_ChildHopID :: string
  lnk_Order :: int
  lnk_Rules :: "rule list"
  lnk_Fallback :: bool
  lnk_Endpoint :: endpoint
  lnk_Credential :: credential
  lnk_CreatedAt :: time
  lnk_UpdatedAt :: time

record block_branch =
  blk_ParentHopID :: string
  blk_Rule :: rule
  blk_CreatedAt :: time
  blk_UpdatedAt :: time

record membership =
  mem_ID :: string
  mem_UserID :: string
  mem_Credential :: credential
  mem_PendingCredential :: "credential option"
  mem_MonthlyQuotaBytes :: u64
  mem_UsedBytes :: u64
  mem_QuotaAnchorDay :: int
  mem_QuotaPeriodStartedOn :: time
  mem_QuotaResetsAfter :: time
  mem_SubscriptionStartedAt :: time
  mem_SubscriptionEndsAfter :: time
  mem_SubscriptionValue :: int
  mem_SubscriptionUnit :: subscription_unit
  mem_LegacySubscriptionMonths :: int
  mem_DisabledReason :: membership_status
  mem_CreatedAt :: time

record membership_plan =
  plan_MonthlyQuotaBytes :: u64
  plan_SubscriptionValue :: int
  plan_SubscriptionUnit :: subscription_unit

record custom_rule_set =
  rs_Tag :: string
  rs_URL :: string
  rs_Format :: string
  rs_UpdateInterval :: string

record entrance =
  ent_HopID :: string
  ent_Endpoint :: endpoint

record proxy_node =
  pn_ID :: string
  pn_Name :: string
  pn_SubscriptionAddressMode :: address_mode
  pn_Entrance :: entrance
  pn_Hops :: "hop list"
  pn_Links :: "link list"
  pn_BlockBranches :: "block_branch list"
  pn_Memberships :: "membership list"
  pn_RuleSets :: "custom_rule_set list"
  pn_CreatedAt :: time
  pn_UpdatedAt :: time

record traffic_observation =
  obs_AgentID :: string
  obs_InboundPath :: string
  obs_Username :: string
  obs_Epoch :: string
  obs_UplinkBytes :: u64
  obs_DownlinkBytes :: u64
  obs_ObservedAt :: time

record accounting_failure =
  af_AgentID :: string
  af_Reason :: string
  af_OccurredAt :: time

record user_traffic =
  ut_InboundPath :: string
  ut_Username :: string
  ut_UplinkBytes :: u64
  ut_DownlinkBytes :: u64

record state =
  st_Revision :: u64
  st_UserRevision :: u64
  st_AppliedRevision :: u64
  st_AdministratorProxyAccessEnabled :: bool
  st_Users :: "user list"
  st_SubscriptionPolicy :: subscription_policy
  st_ProxyNodes :: "proxy_node list"
  st_AppliedProxyNodes :: "proxy_node list"
  st_ManagedAgents :: "string list"
  st_TrafficObservations :: "traffic_observation list"
  st_AccountingFailures :: "accounting_failure list"

record create_proxy_node_input =
  cpi_Name :: string
  cpi_RootAgent :: string
  cpi_Entrance :: endpoint
  cpi_Final :: target

record add_link_input =
  ali_ParentHopID :: string
  ali_ChildAgent :: string
  ali_Endpoint :: endpoint
  ali_Final :: target

section \<open>The environment\<close>

record environment =
  env_nfc :: "string \<Rightarrow> string"
  env_fold :: "string \<Rightarrow> string"
  env_letter :: "nat \<Rightarrow> bool"
  env_digit :: "nat \<Rightarrow> bool"
  env_mark :: "nat \<Rightarrow> bool"
  env_parse_url :: "string \<Rightarrow> (string \<times> string) option"
  env_float_to_uint64 :: "nat \<Rightarrow> u64"

section \<open>Constants and empty values\<close>

definition SystemAdministratorUserID :: string where
  "SystemAdministratorUserID = ''usr_theatropolis_admin00''"

definition SystemAdministratorUserName :: string where
  "SystemAdministratorUserName = ''Administrator''"

definition IsSystemAdministrator :: "user \<Rightarrow> bool" where
  "IsSystemAdministrator u \<longleftrightarrow>
     usr_ID u = SystemAdministratorUserID \<and> usr_Role u = UserRoleAdministrator"

definition empty_subscription_policy :: subscription_policy where
  "empty_subscription_policy =
     \<lparr>pol_DefaultAction = SubscriptionActionUnset, pol_Rules = [], pol_Providers = [],
      pol_UpdatedAt = 0\<rparr>"

definition empty_tls :: tls_config where
  "empty_tls = \<lparr>tls_Mode = TLSModeUnset, tls_ServerName = [], tls_Email = [],
     tls_CertificatePath = [], tls_KeyPath = []\<rparr>"

definition direct_target :: target where
  "direct_target = \<lparr>tgt_Type = TargetDirect, tgt_LinkID = []\<rparr>"

definition unlimited_plan :: membership_plan where
  "unlimited_plan = \<lparr>plan_MonthlyQuotaBytes = 0, plan_SubscriptionValue = 0,
     plan_SubscriptionUnit = SubscriptionUnitUnset\<rparr>"

text \<open>The state a new installation starts from (\<open>Open\<close> on a missing file).\<close>

definition initial_state :: state where
  "initial_state =
     \<lparr>st_Revision = 0, st_UserRevision = 1, st_AppliedRevision = 0,
      st_AdministratorProxyAccessEnabled = False, st_Users = [],
      st_SubscriptionPolicy = empty_subscription_policy, st_ProxyNodes = [],
      st_AppliedProxyNodes = [], st_ManagedAgents = [], st_TrafficObservations = [],
      st_AccountingFailures = []\<rparr>"

end
