(* ===== verification/Credentials.thy ===== *)
theory Credentials
  imports Model
begin

text \<open>
  \<open>internal/proxynode/credentials.go\<close> and the secret handling of \<open>store.go\<close>: opaque
  identifiers, proxy credentials and listener secrets.

  \<open>crypto/rand\<close> is a list of the byte blocks it will hand out. A read of \<open>n\<close> bytes consumes
  the next block and fails when there is none or it has another length, which covers every
  behaviour of \<open>rand.Read\<close> on a buffer of \<open>n\<close> bytes.
\<close>

type_synonym entropy = "nat list list"

definition rand_read :: "nat \<Rightarrow> entropy \<Rightarrow> (nat list \<times> entropy) res" where
  "rand_read n src =
     (case src of
        [] \<Rightarrow> fail (ErrOther ''entropy'')
      | b # rest \<Rightarrow>
          if length b = n \<and> list_all (\<lambda>x. x < 256) b then ok (b, rest)
          else fail (ErrOther ''entropy''))"

definition randomID :: "string \<Rightarrow> entropy \<Rightarrow> (string \<times> entropy) res" where
  "randomID prefix src =
     bindE (rand_read 18 src) (\<lambda>(buffer, src).
       ok (prefix @ ''_'' @ b64_raw_url buffer, src))"

definition randomBase64 :: "nat \<Rightarrow> entropy \<Rightarrow> (string \<times> entropy) res" where
  "randomBase64 n src = bindE (rand_read n src) (\<lambda>(buffer, src). ok (b64_std buffer, src))"

definition randomURLSecret :: "nat \<Rightarrow> entropy \<Rightarrow> (string \<times> entropy) res" where
  "randomURLSecret n src = bindE (rand_read n src) (\<lambda>(buffer, src). ok (b64_raw_url buffer, src))"

definition shadowsocksKeyLength :: "string \<Rightarrow> nat res" where
  "shadowsocksKeyLength method =
     (if method = ''2022-blake3-aes-128-gcm'' then ok 16
      else if method = ''2022-blake3-aes-256-gcm'' \<or> method = ''2022-blake3-chacha20-poly1305'' then ok 32
      else fail (ErrOther ''unsupported Shadowsocks 2022 method''))"

definition generateEndpointSecrets :: "endpoint \<Rightarrow> entropy \<Rightarrow> (endpoint \<times> entropy) res" where
  "generateEndpointSecrets e src =
     bindE (if ep_Protocol e = ProtocolShadowsocks
            then bindE (shadowsocksKeyLength (ep_Method e)) (\<lambda>n.
                   bindE (randomBase64 n src) (\<lambda>(secret, src).
                     ok (e\<lparr>ep_ServerKey := secret\<rparr>, src)))
            else ok (e, src)) (\<lambda>(e, src).
     if ep_Protocol e = ProtocolHysteria2 \<and> ep_ObfsType e \<noteq> [] \<and> ep_ObfsSecret e = []
     then bindE (randomURLSecret 32 src) (\<lambda>(secret, src). ok (e\<lparr>ep_ObfsSecret := secret\<rparr>, src))
     else ok (e, src))"

definition generateCredential :: "endpoint \<Rightarrow> entropy \<Rightarrow> (credential \<times> entropy) res" where
  "generateCredential e src =
     (if ep_Protocol e = ProtocolShadowsocks
      then bindE (shadowsocksKeyLength (ep_Method e)) (\<lambda>n.
             bindE (randomBase64 n src) (\<lambda>(secret, src). ok (\<lparr>cred_Secret = secret\<rparr>, src)))
      else bindE (randomURLSecret 32 src) (\<lambda>(secret, src). ok (\<lparr>cred_Secret = secret\<rparr>, src)))"

definition credentialShapeChanged :: "endpoint \<Rightarrow> endpoint \<Rightarrow> bool" where
  "credentialShapeChanged left right \<longleftrightarrow>
     ep_Protocol left \<noteq> ep_Protocol right \<or>
     (ep_Protocol left = ProtocolShadowsocks \<and> ep_Method left \<noteq> ep_Method right)"

definition preserveEndpointSecrets :: "endpoint \<Rightarrow> endpoint \<Rightarrow> endpoint" where
  "preserveEndpointSecrets old next =
     (let next = (if ep_Protocol old = ep_Protocol next \<and> ep_Method old = ep_Method next
                  then next\<lparr>ep_ServerKey := ep_ServerKey old\<rparr> else next)
      in if ep_Protocol old = ep_Protocol next \<and> ep_ObfsType old = ep_ObfsType next
         then next\<lparr>ep_ObfsSecret := ep_ObfsSecret old\<rparr> else next)"

text \<open>Three attempts at a token no user holds yet (\<open>store.go\<close>).\<close>

fun unique_token_attempts :: "nat \<Rightarrow> user list \<Rightarrow> entropy \<Rightarrow> (string \<times> entropy) res" where
  "unique_token_attempts 0 users src =
     fail (ErrOther ''could not allocate a unique subscription token'')"
| "unique_token_attempts (Suc n) users src =
     bindE (randomID ''sub'' src) (\<lambda>(token, src).
       if list_ex (\<lambda>u. us_Token (usr_Subscription u) = token) users
       then unique_token_attempts n users src
       else ok (token, src))"

definition uniqueSubscriptionToken :: "user list \<Rightarrow> entropy \<Rightarrow> (string \<times> entropy) res" where
  "uniqueSubscriptionToken users src = unique_token_attempts 3 users src"

section \<open>Facts\<close>

lemma rand_read_ok [res_simps]:
  "rand_read n src = Inr (b, rest) \<longleftrightarrow> src = b # rest \<and> length b = n \<and> list_all (\<lambda>x. x < 256) b"
  by (auto simp: rand_read_def split: list.splits)

lemma randomID_ok:
  "randomID p src = Inr (uid, rest) \<longleftrightarrow>
     (\<exists>b. src = b # rest \<and> length b = 18 \<and> list_all (\<lambda>x. x < 256) b \<and> uid = p @ ''_'' @ b64_raw_url b)"
  by (auto simp: randomID_def res_simps split: prod.splits)

lemma randomID_valid:
  assumes "randomID p src = Inr (uid, rest)" and "list_all is_lower p" "2 \<le> length p" "length p \<le> 4"
  shows "validID uid (p @ ''_'')"
proof -
  from assms(1) obtain b where b: "length b = 18" "uid = p @ CHR ''_'' # b64_raw_url b"
    by (auto simp: randomID_ok)
  have "length (b64_raw_url b) = 24" by (simp add: length_b64_raw_url b(1))
  with validID_generated [OF assms(2-4), of "b64_raw_url b"] b64_raw_url_tail b(2)
  show ?thesis by simp
qed

lemma lower_prefixes:
  "list_all is_lower ''usr''" "list_all is_lower ''pn''" "list_all is_lower ''hop''"
  "list_all is_lower ''lnk''" "list_all is_lower ''rul''" "list_all is_lower ''mem''"
  "list_all is_lower ''sub''" "list_all is_lower ''sru''"
  by (simp_all add: is_lower_def)

lemma randomID_prefixes:
  "randomID ''usr'' src = Inr (uid, rest) \<Longrightarrow> validID uid ''usr_''"
  "randomID ''pn'' src = Inr (uid, rest) \<Longrightarrow> validID uid ''pn_''"
  "randomID ''hop'' src = Inr (uid, rest) \<Longrightarrow> validID uid ''hop_''"
  "randomID ''lnk'' src = Inr (uid, rest) \<Longrightarrow> validID uid ''lnk_''"
  "randomID ''rul'' src = Inr (uid, rest) \<Longrightarrow> validID uid ''rul_''"
  "randomID ''mem'' src = Inr (uid, rest) \<Longrightarrow> validID uid ''mem_''"
  "randomID ''sub'' src = Inr (uid, rest) \<Longrightarrow> validID uid ''sub_''"
  "randomID ''sru'' src = Inr (uid, rest) \<Longrightarrow> validID uid ''sru_''"
  using randomID_valid lower_prefixes by fastforce+

lemma credentialShapeChanged_refl [simp]: "\<not> credentialShapeChanged e e"
  by (simp add: credentialShapeChanged_def)

lemma unique_token_attempts_ok:
  "unique_token_attempts n users src = Inr (token, rest) \<Longrightarrow>
     validID token ''sub_'' \<and> (\<forall>u \<in> set users. us_Token (usr_Subscription u) \<noteq> token)"
proof (induction n arbitrary: src)
  case 0
  then show ?case by simp
next
  case (Suc n)
  then show ?case
    by (auto simp: res_simps list_ex_iff randomID_prefixes(7) split: if_splits prod.splits)
qed

end
