(* ===== verification/Validation.thy ===== *)
theory Validation
  imports Credentials
begin

text \<open>
  \<open>internal/proxynode/validation.go\<close>: the checks every stored state passes. Each function
  returns the error of the first check that fails, in the source's order. A loop that fills a map
  and refuses a key already present is a \<^const>\<open>foldE\<close> over the slice whose state is that map.

  Two loops of \<open>validateProxyNode\<close> run over Go maps, whose order is unspecified; here they run
  over the Hops in slice order, which changes at most the message of the error. The maps
  \<open>outgoing\<close> and \<open>ruleOrders\<close> are functions of the slices (\<open>outgoing_links\<close>,
  \<open>rule_orders\<close>).
\<close>

section \<open>Names\<close>

definition normalizeDisplayName :: "environment \<Rightarrow> string \<Rightarrow> string" where
  "normalizeDisplayName env value = env_nfc env (trim_space value)"

definition displayNameKey :: "environment \<Rightarrow> string \<Rightarrow> string" where
  "displayNameKey env value = env_nfc env (env_fold env (normalizeDisplayName env value))"

definition validDisplayName :: "environment \<Rightarrow> string \<Rightarrow> bool" where
  "validDisplayName env value =
     (case runes value of
        None \<Rightarrow> False
      | Some rs \<Rightarrow>
          value \<noteq> [] \<and> length value \<le> 240 \<and> length rs \<le> 60 \<and>
          (case rs of
             [] \<Rightarrow> False
           | r # rest \<Rightarrow>
               (env_letter env r \<or> env_digit env r) \<and>
               list_all (\<lambda>r. env_letter env r \<or> env_digit env r \<or> env_mark env r
                  \<or> r \<in> {32, 46, 95, 45}) rest))"

definition validStoredDisplayName :: "environment \<Rightarrow> string \<Rightarrow> bool" where
  "validStoredDisplayName env value \<longleftrightarrow>
     validDisplayName env value \<or> (length value \<le> 96 \<and> legacyNamePattern value)"

section \<open>Endpoints, credentials and rules\<close>

definition validateMultiplex :: "multiplex_config option \<Rightarrow> unit res" where
  "validateMultiplex config =
     (case config of
        None \<Rightarrow> ok ()
      | Some c \<Rightarrow>
          if \<not> mux_Enabled c \<and> \<not> mux_Padding c \<and> mux_Brutal c = None
          then fail (ErrOther ''multiplex configuration must be enabled or omitted'')
          else case mux_Brutal c of
                 None \<Rightarrow> ok ()
               | Some b \<Rightarrow>
                   if \<not> brutal_Enabled b \<or> brutal_UpMbps b < 1 \<or> brutal_UpMbps b > 1000000
                     \<or> brutal_DownMbps b < 1 \<or> brutal_DownMbps b > 1000000
                   then fail (ErrOther ''TCP Brutal requires valid upload and download bandwidth'')
                   else ok ())"

definition validateTLS :: "tls_config \<Rightarrow> unit res" where
  "validateTLS config =
     (case tls_Mode config of
        TLSModeACME \<Rightarrow>
          require (validServerName (tls_ServerName config)) (ErrOther ''ACME requires a valid server name'')
      | TLSModeSelfSigned \<Rightarrow>
          require (validServerName (tls_ServerName config))
            (ErrOther ''self-signed TLS requires a valid server name or IP'')
      | TLSModeFiles \<Rightarrow>
          require (trim_space (tls_CertificatePath config) \<noteq> [] \<and> trim_space (tls_KeyPath config) \<noteq> [])
            (ErrOther ''TLS certificate and key paths are required'')
      | _ \<Rightarrow> fail (ErrOther ''TLS mode is required''))"

definition validateEndpoint :: "endpoint \<Rightarrow> unit res" where
  "validateEndpoint e =
     (if ep_Listen e = [] \<or> \<not> parse_ip (ep_Listen e)
      then fail (ErrOther ''listen address must be a literal IP address'')
      else if ep_ListenPort e < 1 \<or> ep_ListenPort e > 65535 \<or> ep_ListenPort e = 80
      then fail (ErrOther ''listen port is invalid or reserved'')
      else if ep_Family e \<notin> set [[], ''auto'', ''ipv4'', ''ipv6'']
      then fail (ErrOther ''address family is invalid'')
      else case ep_Protocol e of
        ProtocolShadowsocks \<Rightarrow>
          bindE (shadowsocksKeyLength (ep_Method e)) (\<lambda>n.
            if \<not> validBase64Length (ep_ServerKey e) n
            then fail (ErrOther ''Shadowsocks server key has the wrong size'')
            else if tls_Mode (ep_TLS e) \<noteq> TLSModeUnset \<or> ep_UpMbps e \<noteq> 0 \<or> ep_DownMbps e \<noteq> 0
              \<or> ep_ObfsType e \<noteq> [] \<or> ep_ObfsSecret e \<noteq> []
            then fail (ErrOther ''Shadowsocks endpoint has incompatible options'')
            else validateMultiplex (ep_Multiplex e))
      | OtherProtocol _ \<Rightarrow> fail (ErrOther ''unsupported proxy protocol'')
      | _ \<Rightarrow>
          if ep_Multiplex e \<noteq> None
          then fail (ErrOther ''multiplex is supported only by Shadowsocks endpoints'')
          else bindE (validateTLS (ep_TLS e)) (\<lambda>_.
            if ep_Protocol e = ProtocolAnyTLS \<and> (ep_UpMbps e \<noteq> 0 \<or> ep_DownMbps e \<noteq> 0 \<or> ep_ObfsType e \<noteq> [])
            then fail (ErrOther ''AnyTLS endpoint has Hysteria2-only options'')
            else if ep_Protocol e = ProtocolHysteria2 then
              (if ep_UpMbps e < 0 \<or> ep_DownMbps e < 0
               then fail (ErrOther ''Hysteria2 bandwidth cannot be negative'')
               else if ep_ObfsType e \<notin> set [[], ''salamander'', ''gecko'']
               then fail (ErrOther ''unsupported Hysteria2 obfuscation'')
               else if ep_ObfsType e \<noteq> [] \<and> ep_ObfsSecret e = []
               then fail (ErrOther ''Hysteria2 obfuscation requires a secret'')
               else ok ())
            else ok ()))"

definition validateCredential :: "endpoint \<Rightarrow> credential \<Rightarrow> unit res" where
  "validateCredential e c =
     (if ep_Protocol e = ProtocolShadowsocks then
        bindE (shadowsocksKeyLength (ep_Method e)) (\<lambda>n.
          require (validBase64Length (cred_Secret c) n)
            (ErrOther ''Shadowsocks user key has the wrong size''))
      else
        require (24 \<le> length (cred_Secret c) \<and> length (cred_Secret c) \<le> 256
          \<and> \<not> contains_any [CHR 0x00, CHR 0x0D, CHR 0x0A] (cred_Secret c))
          (ErrOther ''credential secret is invalid''))"

definition validateRule :: "rule \<Rightarrow> unit res" where
  "validateRule r =
     (if (case rul_Match r of OtherMatch _ \<Rightarrow> True | _ \<Rightarrow> False)
      then fail (ErrOther ''unsupported routing match type'')
      else if rul_Match r = MatchNone \<and> rul_Values r \<noteq> []
      then fail (ErrOther ''all-traffic Rule cannot contain match values'')
      else if rul_Match r \<noteq> MatchNone \<and> rul_Values r = []
      then fail (ErrOther ''routing Rule requires match values'')
      else if (rul_Match r = MatchGeosite \<or> rul_Match r = MatchGeoIP) \<and> length (rul_Values r) \<noteq> 1
      then fail (ErrOther ''geosite and geoip Rules accept one value'')
      else eachE (\<lambda>v. require (v \<noteq> [] \<and> length v \<le> 1024 \<and> \<not> contains_byte (CHR 0x00) v)
                   (ErrOther ''routing Rule contains an invalid value'')) (rul_Values r))"

definition validateTerminalTarget :: "target \<Rightarrow> unit res" where
  "validateTerminalTarget t =
     (if tgt_Type t = TargetDirect \<or> tgt_Type t = TargetReject
      then require (tgt_LinkID t = []) (ErrOther ''terminal target cannot reference a Link'')
      else fail (ErrOther ''terminal target must be Direct or Reject''))"

definition validSubscriptionAddressMode :: "address_mode \<Rightarrow> bool" where
  "validSubscriptionAddressMode m \<longleftrightarrow>
     m = SubscriptionAddressUnset \<or> m = SubscriptionAddressDual \<or> m = SubscriptionAddressIPv4
     \<or> m = SubscriptionAddressIPv6"

section \<open>Normalisation\<close>

definition normalizeTLSConfig :: "tls_config \<Rightarrow> tls_config" where
  "normalizeTLSConfig config =
     (let config = config\<lparr>tls_ServerName := trim_space (tls_ServerName config),
            tls_Email := trim_space (tls_Email config),
            tls_CertificatePath := trim_space (tls_CertificatePath config),
            tls_KeyPath := trim_space (tls_KeyPath config)\<rparr>
      in case tls_Mode config of
           TLSModeACME \<Rightarrow> config\<lparr>tls_CertificatePath := [], tls_KeyPath := []\<rparr>
         | TLSModeSelfSigned \<Rightarrow>
             config\<lparr>tls_Email := [], tls_CertificatePath := [], tls_KeyPath := []\<rparr>
         | TLSModeFiles \<Rightarrow> config\<lparr>tls_Email := []\<rparr>
         | _ \<Rightarrow> config)"

definition normalizeEndpoint :: "endpoint \<Rightarrow> endpoint" where
  "normalizeEndpoint e =
     (let listen = trim_space (ep_Listen e);
          family = trim_space (ep_Family e);
          method = trim_space (ep_Method e)
      in e\<lparr>ep_Listen := (if listen = [] then ''::'' else listen),
           ep_Family := (if family = [] then ''auto'' else family),
           ep_Method := (if ep_Protocol e = ProtocolShadowsocks \<and> method = []
                         then ''2022-blake3-aes-128-gcm'' else method),
           ep_TLS := normalizeTLSConfig (ep_TLS e),
           ep_ObfsType := trim_space (ep_ObfsType e)\<rparr>)"

definition normalizeBuild :: "build_info \<Rightarrow> time \<Rightarrow> build_info" where
  "normalizeBuild build now =
     (let component = trim_space (bi_Component build);
          version = trim_space (bi_Version build);
          commit = trim_space (bi_Commit build)
      in \<lparr>bi_Component = (if component = [] then ''master'' else component),
          bi_Version = (if version = [] then ''development'' else version),
          bi_Commit = (if commit = [] then ''unknown'' else commit),
          bi_RecordedAt = now\<rparr>)"

definition validateBuildInfo :: "build_info \<Rightarrow> unit res" where
  "validateBuildInfo build =
     (if bi_Component build \<noteq> ''master'' \<and> bi_Component build \<noteq> ''agent''
      then fail (ErrOther ''last-used component is invalid'')
      else if trim_space (bi_Version build) = [] \<or> length (bi_Version build) > 128
        \<or> contains_byte (CHR 0x00) (bi_Version build)
      then fail (ErrOther ''last-used version is invalid'')
      else if trim_space (bi_Commit build) = [] \<or> length (bi_Commit build) > 128
        \<or> contains_byte (CHR 0x00) (bi_Commit build)
      then fail (ErrOther ''last-used commit is invalid'')
      else if bi_RecordedAt build = 0 then fail (ErrOther ''last-used time is invalid'')
      else ok ())"

section \<open>Subscription policy\<close>

definition validSubscriptionAction :: "subscription_action \<Rightarrow> bool" where
  "validSubscriptionAction a \<longleftrightarrow>
     a = SubscriptionProxy \<or> a = SubscriptionDirect \<or> a = SubscriptionReject"

definition validSubscriptionMatch :: "subscription_match \<Rightarrow> bool" where
  "validSubscriptionMatch m =
     (case m of
        SubscriptionMatchProtocol \<Rightarrow> False
      | SubscriptionMatchProvider \<Rightarrow> False
      | OtherSubscriptionMatch _ \<Rightarrow> False
      | _ \<Rightarrow> True)"

definition valid_port :: "string \<Rightarrow> bool" where
  "valid_port part = (case atoi part of None \<Rightarrow> False | Some p \<Rightarrow> 1 \<le> p \<and> p \<le> 65535)"

definition validateSubscriptionRuleValue :: "subscription_match \<Rightarrow> string \<Rightarrow> unit res" where
  "validateSubscriptionRuleValue m value =
     (if contains_any [CHR 0x0D, CHR 0x0A] value
      then fail (ErrOther ''subscription rule value contains a line break'')
      else if m = SubscriptionMatchIPCIDR \<or> m = SubscriptionMatchSourceIPCIDR
      then require (parse_ip value \<or> parse_cidr value) (ErrOther ''subscription IP/CIDR value is invalid'')
      else if m = SubscriptionMatchDestinationPort \<or> m = SubscriptionMatchSourcePort
      then require (length (split_on (CHR ''-'') value) \<le> 2 \<and> list_all valid_port (split_on (CHR ''-'') value))
             (ErrOther ''subscription port value is invalid'')
      else if m = SubscriptionMatchNetwork
      then require (map ascii_lower value = ''tcp'' \<or> map ascii_lower value = ''udp'')
             (ErrOther ''subscription network must be TCP or UDP'')
      else if m = SubscriptionMatchGeosite \<or> m = SubscriptionMatchGeoIP
      then require (subscriptionGeoPattern value) (ErrOther ''subscription geo rule-set value is invalid'')
      else ok ())"

definition validate_subscription_rule ::
  "nat \<Rightarrow> string set \<times> int set \<Rightarrow> subscription_rule \<Rightarrow> (string set \<times> int set) res" where
  "validate_subscription_rule n = (\<lambda>(ids, orders) r.
     if \<not> validID (sr_ID r) ''sru_'' \<or> sr_Order r < 0 \<or> sr_Order r \<ge> int n
       \<or> \<not> validSubscriptionAction (sr_Action r) \<or> \<not> validSubscriptionMatch (sr_Match r)
     then fail (ErrOther ''invalid subscription rule'')
     else if sr_ID r \<in> ids then fail (ErrOther ''duplicate subscription rule ID'')
     else if sr_Order r \<in> orders then fail (ErrOther ''duplicate subscription rule order'')
     else if sr_Provider r \<noteq> [] \<or> sr_Values r = [] \<or> length (sr_Values r) > 256
     then fail (ErrOther ''subscription rule values are invalid'')
     else if sr_NoResolve r \<and> sr_Match r \<noteq> SubscriptionMatchIPCIDR \<and> sr_Match r \<noteq> SubscriptionMatchGeoIP
     then fail (ErrOther ''subscription no-resolve is only valid for destination IP/CIDR and GeoIP rules'')
     else bindE (eachE (\<lambda>v.
            if trim_space v \<noteq> v \<or> v = [] \<or> length v > 1024 \<or> contains_byte (CHR 0x00) v
            then fail (ErrOther ''subscription rule value is invalid'')
            else validateSubscriptionRuleValue (sr_Match r) v) (sr_Values r))
          (\<lambda>_. ok (insert (sr_ID r) ids, insert (sr_Order r) orders)))"

definition validateSubscriptionPolicy :: "subscription_policy \<Rightarrow> unit res" where
  "validateSubscriptionPolicy p =
     (if pol_DefaultAction p = SubscriptionActionUnset \<and> pol_Rules p = [] \<and> pol_Providers p = []
        \<and> pol_UpdatedAt p = 0
      then ok ()
      else if pol_UpdatedAt p = 0 then fail (ErrOther ''missing update time'')
      else if \<not> validSubscriptionAction (if pol_DefaultAction p = SubscriptionActionUnset
                then SubscriptionProxy else pol_DefaultAction p)
      then fail (ErrOther ''invalid default action'')
      else if pol_Providers p \<noteq> []
      then fail (ErrOther ''subscription policy contains legacy rule providers'')
      else if length (pol_Rules p) > 512 then fail (ErrOther ''subscription is too large'')
      else bindE (foldE (validate_subscription_rule (length (pol_Rules p))) ({}, {}) (pol_Rules p))
             (\<lambda>_. ok ()))"

definition validateUserSubscription :: "user_subscription \<Rightarrow> unit res" where
  "validateUserSubscription s =
     (if us_DefaultAction s \<noteq> SubscriptionActionUnset \<or> us_Rules s \<noteq> [] \<or> us_Providers s \<noteq> []
      then fail (ErrOther ''user contains a legacy per-user policy'')
      else if us_Token s = [] then ok ()
      else if \<not> validID (us_Token s) ''sub_'' then fail (ErrOther ''invalid bearer token'')
      else if us_UpdatedAt s = 0 then fail (ErrOther ''missing update time'')
      else ok ())"

section \<open>Reachability\<close>

definition children :: "link list \<Rightarrow> string \<Rightarrow> string list" where
  "children links h = map lnk_ChildHopID (filter (\<lambda>l. lnk_ParentHopID l = h) links)"

text \<open>
  The depth-first search. \<open>active\<close> holds the Hops on the current path (the source clears the
  mark on the way back, so it is an argument), \<open>seen\<close> the finished ones. It stops because a Hop
  with children joins \<open>active\<close> before they are visited.
\<close>

function visit :: "link list \<Rightarrow> string set \<Rightarrow> string set \<Rightarrow> string \<Rightarrow> string set res"
  and visit_all :: "link list \<Rightarrow> string set \<Rightarrow> string set \<Rightarrow> string list \<Rightarrow> string set res" where
  "visit links active seen h =
     (if h \<in> active then fail (ErrOther ''Proxy Node contains a cycle'')
      else if h \<in> seen then ok seen
      else bindE (visit_all links (insert h active) seen (children links h))
             (\<lambda>seen. ok (insert h seen)))"
| "visit_all links active seen [] = ok seen"
| "visit_all links active seen (c # cs) =
     bindE (visit links active seen c) (\<lambda>seen. visit_all links active seen cs)"
  by pat_completeness auto
termination
proof (relation "measures [
    \<lambda>x. case x of Inl (links, active, seen, h) \<Rightarrow> card (lnk_ParentHopID ` set links - active)
      | Inr (links, active, seen, cs) \<Rightarrow>
          (if cs = [] then 0 else card (lnk_ParentHopID ` set links - active)),
    \<lambda>x. case x of Inl _ \<Rightarrow> 1 | Inr (links, active, seen, cs) \<Rightarrow> 2 * length cs]")
  fix links :: "link list" and active seen :: "string set" and h :: string
  assume "h \<notin> active"
  have "card (lnk_ParentHopID ` set links - insert h active) < card (lnk_ParentHopID ` set links - active)"
    if "children links h \<noteq> []"
  proof (rule psubset_card_mono)
    from that have "h \<in> lnk_ParentHopID ` set links" by (auto simp: children_def filter_empty_conv)
    with \<open>h \<notin> active\<close> show "lnk_ParentHopID ` set links - insert h active \<subset> lnk_ParentHopID ` set links - active"
      by blast
  qed simp
  then show "(Inr (links, insert h active, seen, children links h), Inl (links, active, seen, h))
    \<in> measures [
    \<lambda>x. case x of Inl (links, active, seen, h) \<Rightarrow> card (lnk_ParentHopID ` set links - active)
      | Inr (links, active, seen, cs) \<Rightarrow>
          (if cs = [] then 0 else card (lnk_ParentHopID ` set links - active)),
    \<lambda>x. case x of Inl _ \<Rightarrow> 1 | Inr (links, active, seen, cs) \<Rightarrow> 2 * length cs]"
    by (cases "children links h = []") (auto, blast)
qed (auto, blast)

declare visit.simps [simp del]

definition validateReachability :: "string \<Rightarrow> string set \<Rightarrow> link list \<Rightarrow> unit res" where
  "validateReachability root hops links =
     bindE (visit links {} {} root) (\<lambda>seen.
       require (card seen = card hops) (ErrOther ''Proxy Node contains an unreachable Hop''))"

section \<open>Memberships and traffic identities\<close>

definition maxSubscriptionValue :: "subscription_unit \<Rightarrow> int" where
  "maxSubscriptionValue unit =
     (case unit of
        SubscriptionMinutes \<Rightarrow> 52560000
      | SubscriptionHours \<Rightarrow> 876000
      | SubscriptionDays \<Rightarrow> 36500
      | SubscriptionMonths \<Rightarrow> 1200
      | _ \<Rightarrow> 0)"

definition validateMembershipPlan :: "membership_plan \<Rightarrow> unit res" where
  "validateMembershipPlan plan =
     (if plan_SubscriptionValue plan = 0 \<and> plan_SubscriptionUnit plan = SubscriptionUnitUnset
      then ok ()
      else if plan_SubscriptionValue plan \<le> 0
        \<or> plan_SubscriptionValue plan > maxSubscriptionValue (plan_SubscriptionUnit plan)
      then fail (ErrInvalidState ''invalid subscription duration'')
      else ok ())"

definition validManagedTrafficPath :: "string \<Rightarrow> bool" where
  "validManagedTrafficPath path \<longleftrightarrow>
     has_prefix ''/tp-in-'' path \<and> length path \<le> 80
     \<and> list_all (\<lambda>c. is_lower c \<or> is_digit c \<or> c = CHR ''-'') (tl path)"

definition AccountingFailureCollection :: string where
  "AccountingFailureCollection = ''collection_failed''"

definition AccountingFailurePersistence :: string where
  "AccountingFailurePersistence = ''persistence_failed''"

definition validAccountingFailureReason :: "string \<Rightarrow> bool" where
  "validAccountingFailureReason reason \<longleftrightarrow>
     reason = AccountingFailureCollection \<or> reason = AccountingFailurePersistence"

text \<open>The four field checks at the head of the Membership loop of \<open>validateProxyNode\<close>.\<close>

definition membership_fields :: "membership \<Rightarrow> unit res" where
  "membership_fields m =
     (if \<not> validID (mem_ID m) ''mem_'' \<or> mem_CreatedAt m = 0
        \<or> mem_QuotaAnchorDay m < 1 \<or> mem_QuotaAnchorDay m > 31
        \<or> mem_QuotaPeriodStartedOn m = 0 \<or> mem_QuotaResetsAfter m = 0
        \<or> mem_QuotaPeriodStartedOn m \<noteq> billingDate (mem_QuotaPeriodStartedOn m)
        \<or> mem_QuotaResetsAfter m \<noteq> billingDate (mem_QuotaResetsAfter m)
        \<or> \<not> mem_QuotaPeriodStartedOn m < mem_QuotaResetsAfter m
      then fail (ErrOther ''invalid Membership'')
      else if mem_SubscriptionEndsAfter m \<noteq> 0 \<and>
        (mem_SubscriptionStartedAt m = 0 \<or> nanosecond (mem_SubscriptionStartedAt m) \<noteq> 0
         \<or> nanosecond (mem_SubscriptionEndsAfter m) \<noteq> 0
         \<or> \<not> mem_SubscriptionStartedAt m < mem_SubscriptionEndsAfter m
         \<or> \<not> truncate_second (mem_CreatedAt m) < mem_SubscriptionEndsAfter m)
      then fail (ErrOther ''invalid Membership subscription'')
      else if mem_LegacySubscriptionMonths m \<noteq> 0
        \<or> (mem_SubscriptionValue m = 0) \<noteq> (mem_SubscriptionEndsAfter m = 0)
        \<or> (mem_SubscriptionValue m > 0 \<and>
            (mem_SubscriptionValue m > maxSubscriptionValue (mem_SubscriptionUnit m)
             \<or> maxSubscriptionValue (mem_SubscriptionUnit m) = 0))
        \<or> (mem_SubscriptionValue m = 0 \<and>
            (mem_SubscriptionUnit m \<noteq> SubscriptionUnitUnset \<or> mem_SubscriptionStartedAt m \<noteq> 0))
      then fail (ErrOther ''invalid Membership subscription length'')
      else if mem_DisabledReason m \<noteq> MembershipEnabled
        \<and> mem_DisabledReason m \<noteq> MembershipQuotaReached \<and> mem_DisabledReason m \<noteq> MembershipExpired
      then fail (ErrOther ''invalid Membership status'')
      else ok ())"

definition validate_membership ::
  "endpoint \<Rightarrow> string set \<Rightarrow> string set \<times> string set \<times> string set \<Rightarrow> membership
    \<Rightarrow> (string set \<times> string set \<times> string set) res" where
  "validate_membership entrance users = (\<lambda>(ids, members, creds) m.
     bindE (membership_fields m) (\<lambda>_.
       if mem_ID m \<in> ids then fail (ErrOther ''duplicate Membership ID'')
       else if mem_UserID m \<notin> users then fail (ErrOther ''Membership references a missing End User'')
       else if mem_UserID m \<in> members
       then fail (ErrOther ''End User has two Memberships in one Proxy Node'')
       else bindE (validateCredential entrance
                (case mem_PendingCredential m of None \<Rightarrow> mem_Credential m | Some p \<Rightarrow> p)) (\<lambda>_.
         if cred_Secret (mem_Credential m) \<in> creds
         then fail (ErrOther ''Membership credential is reused'')
         else
           let ids = insert (mem_ID m) ids; members = insert (mem_UserID m) members;
               creds = insert (cred_Secret (mem_Credential m)) creds
           in case mem_PendingCredential m of
                None \<Rightarrow> ok (ids, members, creds)
              | Some p \<Rightarrow>
                  if cred_Secret p = cred_Secret (mem_Credential m)
                  then fail (ErrOther ''pending Membership credential is unchanged'')
                  else if cred_Secret p \<in> creds
                  then fail (ErrOther ''pending Membership credential is reused'')
                  else ok (ids, members, insert (cred_Secret p) creds))))"

section \<open>Proxy Nodes\<close>

definition validate_hop :: "string set \<Rightarrow> hop \<Rightarrow> string set res" where
  "validate_hop hops h =
     (if \<not> validID (hop_ID h) ''hop_'' \<or> \<not> validAgentID (hop_AgentID h)
        \<or> hop_CreatedAt h = 0 \<or> hop_UpdatedAt h = 0
      then fail (ErrOther ''invalid Hop'')
      else if hop_ID h \<in> hops then fail (ErrOther ''duplicate Hop ID'')
      else ok (insert (hop_ID h) hops))"

definition validate_link_rule :: "rule \<Rightarrow> unit res" where
  "validate_link_rule r =
     (if \<not> validID (rul_ID r) ''rul_'' \<or> rul_Order r < 0 \<or> rul_LegacyTarget r \<noteq> None
      then fail (ErrOther ''invalid Link Rule'')
      else bindE (validateRule r) (\<lambda>_.
        require (rul_Match r \<noteq> MatchNone) (ErrOther ''unconditional routing must use a fallback Link'')))"

text \<open>One round of the Link loop; \<open>ids\<close> is the key set of \<open>links\<close>, \<open>parents\<close> is
  \<open>parentByChild\<close>.\<close>

definition validate_link ::
  "string \<Rightarrow> string set \<Rightarrow> string set \<times> (string \<rightharpoonup> string) \<Rightarrow> link
    \<Rightarrow> (string set \<times> (string \<rightharpoonup> string)) res" where
  "validate_link root hops = (\<lambda>(ids, parents) l.
     if \<not> validID (lnk_ID l) ''lnk_'' \<or> lnk_Order l < 0 \<or> lnk_CreatedAt l = 0 \<or> lnk_UpdatedAt l = 0
     then fail (ErrOther ''invalid Link'')
     else if lnk_ID l \<in> ids then fail (ErrOther ''duplicate Link ID'')
     else if lnk_ParentHopID l = lnk_ChildHopID l then fail (ErrOther ''Link cannot target its parent'')
     else if lnk_ParentHopID l \<notin> hops then fail (ErrOther ''Link parent does not exist'')
     else if lnk_ChildHopID l \<notin> hops then fail (ErrOther ''Link child does not exist'')
     else if parents (lnk_ChildHopID l) \<noteq> None then fail (ErrOther ''two Links merge into one Hop'')
     else if lnk_ChildHopID l = root then fail (ErrOther ''entrance Hop cannot have a parent'')
     else bindE (validateEndpoint (lnk_Endpoint l)) (\<lambda>_.
       bindE (validateCredential (lnk_Endpoint l) (lnk_Credential l)) (\<lambda>_.
         if lnk_Fallback l \<and> lnk_Rules l \<noteq> []
         then fail (ErrOther ''fallback Link cannot contain match rules'')
         else if length (lnk_Rules l) > 1
         then fail (ErrOther ''Link cannot contain more than one routing Rule'')
         else bindE (eachE validate_link_rule (lnk_Rules l)) (\<lambda>_.
           ok (insert (lnk_ID l) ids, parents(lnk_ChildHopID l \<mapsto> lnk_ParentHopID l))))))"

definition validate_block_branch :: "string set \<Rightarrow> block_branch \<Rightarrow> unit res" where
  "validate_block_branch hops b =
     (if blk_ParentHopID b \<notin> hops then fail (ErrOther ''BLOCK branch parent does not exist'')
      else if blk_CreatedAt b = 0 \<or> blk_UpdatedAt b = 0 \<or> \<not> validID (rul_ID (blk_Rule b)) ''rul_''
        \<or> rul_Order (blk_Rule b) < 0 \<or> rul_LegacyTarget (blk_Rule b) \<noteq> None
      then fail (ErrOther ''invalid BLOCK branch'')
      else if rul_Match (blk_Rule b) = MatchNone
      then fail (ErrOther ''BLOCK branch requires a conditional match'')
      else validateRule (blk_Rule b))"

definition outgoing_links :: "link list \<Rightarrow> string \<Rightarrow> link list" where
  "outgoing_links links h = filter (\<lambda>l. lnk_ParentHopID l = h) links"

definition rule_orders :: "link list \<Rightarrow> block_branch list \<Rightarrow> string \<Rightarrow> int list" where
  "rule_orders links blocks h =
     concat (map (\<lambda>l. map rul_Order (lnk_Rules l)) (outgoing_links links h))
     @ map (\<lambda>b. rul_Order (blk_Rule b)) (filter (\<lambda>b. blk_ParentHopID b = h) blocks)"

definition validate_rule_orders :: "int list \<Rightarrow> unit res" where
  "validate_rule_orders orders =
     eachE (\<lambda>(expected, order). require (order = int expected)
        (ErrOther ''route Rule order is not contiguous'')) (enumerated (sort orders))"

definition validate_siblings :: "link list \<Rightarrow> unit res" where
  "validate_siblings siblings =
     bindE (foldE (\<lambda>fallbacks (order, l).
        if lnk_Order l \<noteq> int order
        then fail (ErrOther ''child Link order is not contiguous'')
        else if lnk_Fallback l then
          (if order \<noteq> length siblings - 1 then fail (ErrOther ''fallback Link must be last'')
           else ok (fallbacks + 1))
        else ok fallbacks) (0::nat) (enumerated (sort_key lnk_Order siblings))) (\<lambda>fallbacks.
       require (fallbacks \<le> 1) (ErrOther ''Hop has more than one fallback Link''))"

definition validate_rule_set :: "environment \<Rightarrow> string set \<Rightarrow> custom_rule_set \<Rightarrow> string set res" where
  "validate_rule_set env tags r =
     (if \<not> ruleSetTagPattern (rs_Tag r) \<or> rs_Format r \<noteq> ''binary''
      then fail (ErrOther ''invalid custom Rule Set'')
      else if length (rs_URL r) > 2048 \<or> length (rs_UpdateInterval r) > 32
      then fail (ErrOther ''custom Rule Set field exceeds its size limit'')
      else if (case env_parse_url env (rs_URL r) of
                 None \<Rightarrow> True | Some (scheme, host) \<Rightarrow> scheme \<noteq> ''https'' \<or> host = [])
      then fail (ErrOther ''custom Rule Set URL must use HTTPS'')
      else if rs_Tag r \<in> tags then fail (ErrOther ''duplicate custom Rule Set tag'')
      else ok (insert (rs_Tag r) tags))"

definition validate_topology :: "proxy_node \<Rightarrow> unit res" where
  "validate_topology node =
     (if pn_Hops node = [] then fail (ErrOther ''Proxy Node has no entrance Hop'')
      else if \<not> validSubscriptionAddressMode (pn_SubscriptionAddressMode node)
      then fail (ErrOther ''invalid configuration subscription address mode'')
      else if length (pn_Hops node) + length (pn_Links node) + length (pn_BlockBranches node) > 10000
      then fail (ErrOther ''Proxy Node exceeds topology entity limit'')
      else bindE (validateEndpoint (ent_Endpoint (pn_Entrance node))) (\<lambda>_.
        bindE (foldE validate_hop {} (pn_Hops node)) (\<lambda>hops.
        let root = ent_HopID (pn_Entrance node) in
        if root \<notin> hops then fail (ErrOther ''entrance references a missing Hop'')
        else bindE (foldE (validate_link root hops) ({}, Map.empty) (pn_Links node)) (\<lambda>(ids, parents).
          bindE (eachE (validate_block_branch hops) (pn_BlockBranches node)) (\<lambda>_.
          bindE (eachE (\<lambda>h. validate_rule_orders (rule_orders (pn_Links node) (pn_BlockBranches node) (hop_ID h)))
                  (pn_Hops node)) (\<lambda>_.
          bindE (eachE (\<lambda>h. validate_siblings (outgoing_links (pn_Links node) (hop_ID h)))
                  (pn_Hops node)) (\<lambda>_.
          bindE (eachE (\<lambda>h. require (hop_ID h = root \<or> parents (hop_ID h) \<noteq> None)
                    (ErrOther ''non-entrance Hop has no parent'')) (pn_Hops node)) (\<lambda>_.
          validateReachability root hops (pn_Links node)))))))))"

definition validateProxyNode :: "environment \<Rightarrow> proxy_node \<Rightarrow> string set \<Rightarrow> unit res" where
  "validateProxyNode env node users =
     bindE (validate_topology node) (\<lambda>_.
     bindE (foldE (validate_membership (ent_Endpoint (pn_Entrance node)) users) ({}, {}, {})
              (pn_Memberships node)) (\<lambda>(ids, members, creds).
     bindE (no_repeat (ErrOther ''Link credential is reused'') creds
              (map (\<lambda>l. cred_Secret (lnk_Credential l)) (pn_Links node))) (\<lambda>_.
     bindE (eachE (\<lambda>h.
              if hop_LegacyRules h \<noteq> [] then fail (ErrOther ''Hop contains legacy routing Rules'')
              else validateTerminalTarget (hop_Final h)) (pn_Hops node)) (\<lambda>_.
     bindE (foldE (validate_rule_set env) {} (pn_RuleSets node)) (\<lambda>_. ok ())))))"

section \<open>States\<close>

definition validate_user ::
  "environment \<Rightarrow> string set \<times> (string \<rightharpoonup> user_role) \<times> string set \<Rightarrow> user
    \<Rightarrow> (string set \<times> (string \<rightharpoonup> user_role) \<times> string set) res" where
  "validate_user env = (\<lambda>(ids, names, tokens) u.
     if \<not> validID (usr_ID u) ''usr_'' \<or> \<not> validStoredDisplayName env (usr_Name u)
       \<or> usr_Name u \<noteq> normalizeDisplayName env (usr_Name u) \<or> usr_CreatedAt u = 0 \<or> usr_UpdatedAt u = 0
     then fail (ErrInvalidState ''invalid end user'')
     else bindE (wrapE (ErrInvalidState ''invalid subscription'')
                  (validateUserSubscription (usr_Subscription u))) (\<lambda>_.
       bindE (case usr_Role u of
          UserRoleEndUser \<Rightarrow> ok ()
        | UserRoleAdministrator \<Rightarrow>
            if \<not> IsSystemAdministrator u \<or> usr_Name u \<noteq> SystemAdministratorUserName
            then fail (ErrInvalidState ''invalid system administrator'')
            else require (us_Token (usr_Subscription u) \<noteq> [])
                   (ErrInvalidState ''system administrator has no configuration subscription'')
        | OtherRole _ \<Rightarrow> fail (ErrInvalidState ''invalid end user role'')) (\<lambda>_.
       let token = us_Token (usr_Subscription u); key = displayNameKey env (usr_Name u) in
       if token \<noteq> [] \<and> token \<in> tokens
       then fail (ErrInvalidState ''duplicate user subscription token'')
       else if usr_ID u \<in> ids then fail (ErrInvalidState ''duplicate end user ID'')
       else if (case names key of
                  None \<Rightarrow> False
                | Some r \<Rightarrow> r \<noteq> UserRoleAdministrator \<and> usr_Role u \<noteq> UserRoleAdministrator)
       then fail (ErrInvalidState ''duplicate end user name'')
       else ok (insert (usr_ID u) ids, names(key \<mapsto> usr_Role u),
                if token \<noteq> [] then insert token tokens else tokens))))"

text \<open>The identifiers and the credentials one Proxy Node adds to the global sets, in the order
  the loops visit them.\<close>

definition node_entity_ids :: "proxy_node \<Rightarrow> string list" where
  "node_entity_ids node =
     map hop_ID (pn_Hops node)
     @ concat (map (\<lambda>l. lnk_ID l # map rul_ID (lnk_Rules l)) (pn_Links node))
     @ map (\<lambda>b. rul_ID (blk_Rule b)) (pn_BlockBranches node)
     @ map mem_ID (pn_Memberships node)"

definition membership_secrets :: "membership \<Rightarrow> string list" where
  "membership_secrets m =
     cred_Secret (mem_Credential m)
     # (case mem_PendingCredential m of None \<Rightarrow> [] | Some p \<Rightarrow> [cred_Secret p])"

definition node_secrets :: "proxy_node \<Rightarrow> string list" where
  "node_secrets node =
     map (\<lambda>l. cred_Secret (lnk_Credential l)) (pn_Links node)
     @ concat (map membership_secrets (pn_Memberships node))"

definition validate_state_node ::
  "environment \<Rightarrow> string set \<Rightarrow> string set \<times> string set \<times> string set \<times> string set \<Rightarrow> proxy_node
    \<Rightarrow> (string set \<times> string set \<times> string set \<times> string set) res" where
  "validate_state_node env users = (\<lambda>(ids, names, entities, secrets) node.
     if \<not> validID (pn_ID node) ''pn_'' \<or> \<not> validStoredDisplayName env (pn_Name node)
       \<or> pn_Name node \<noteq> normalizeDisplayName env (pn_Name node)
       \<or> pn_CreatedAt node = 0 \<or> pn_UpdatedAt node = 0
     then fail (ErrInvalidState ''invalid Proxy Node identity'')
     else if pn_ID node \<in> ids then fail (ErrInvalidState ''duplicate Proxy Node ID'')
     else if displayNameKey env (pn_Name node) \<in> names
     then fail (ErrInvalidState ''duplicate Proxy Node name'')
     else bindE (wrapE (ErrInvalidState ''Proxy Node'') (validateProxyNode env node users)) (\<lambda>_.
       bindE (no_repeat (ErrInvalidState ''entity ID is reused'') (insert (pn_ID node) entities)
                (node_entity_ids node)) (\<lambda>entities.
       bindE (no_repeat (ErrInvalidState ''generated credential is reused'') secrets (node_secrets node))
         (\<lambda>secrets.
       ok (insert (pn_ID node) ids, insert (displayNameKey env (pn_Name node)) names,
           entities, secrets)))))"

definition validate_observation :: "(string \<times> string \<times> string) set \<Rightarrow> traffic_observation
    \<Rightarrow> (string \<times> string \<times> string) set res" where
  "validate_observation seen ob =
     (let key = (obs_AgentID ob, obs_InboundPath ob, obs_Username ob) in
      if \<not> validAgentID (obs_AgentID ob) \<or> \<not> validManagedTrafficPath (obs_InboundPath ob)
        \<or> trim_space (obs_Username ob) = [] \<or> length (obs_Username ob) > 128
        \<or> trim_space (obs_Epoch ob) = [] \<or> length (obs_Epoch ob) > 128
        \<or> obs_ObservedAt ob = 0 \<or> contains_byte (CHR 0x00) (obs_Username ob)
        \<or> contains_byte (CHR 0x00) (obs_Epoch ob)
      then fail (ErrInvalidState ''invalid traffic observation'')
      else if key \<in> seen then fail (ErrInvalidState ''duplicate traffic observation'')
      else ok (insert key seen))"

definition validateStateCore :: "environment \<Rightarrow> state \<Rightarrow> unit res" where
  "validateStateCore env st =
     bindE (foldE (validate_user env) ({}, Map.empty, {}) (st_Users st)) (\<lambda>(users, names, tokens).
     bindE (foldE (validate_state_node env users) ({}, {}, users, {}) (st_ProxyNodes st)) (\<lambda>_.
     bindE (eachE (\<lambda>a. require (validAgentID a) (ErrInvalidState ''invalid managed Agent ID''))
              (st_ManagedAgents st)) (\<lambda>_.
     bindE (no_repeat (ErrInvalidState ''duplicate managed Agent ID'') {} (st_ManagedAgents st)) (\<lambda>_.
     if length (st_TrafficObservations st) > 100000
     then fail (ErrInvalidState ''too many traffic observations'')
     else bindE (foldE validate_observation {} (st_TrafficObservations st)) (\<lambda>_.
       if length (st_AccountingFailures st) > 256
       then fail (ErrInvalidState ''too many accounting failures'')
       else eachE (\<lambda>f. require (validAgentID (af_AgentID f) \<and> validAccountingFailureReason (af_Reason f)
                \<and> af_OccurredAt f \<noteq> 0) (ErrInvalidState ''invalid accounting failure''))
              (st_AccountingFailures st))))))"

text \<open>The projection of the applied topology \<open>validateState\<close> checks a second time.\<close>

definition applied_projection :: "state \<Rightarrow> state" where
  "applied_projection st =
     initial_state\<lparr>st_Revision := st_AppliedRevision st, st_UserRevision := st_UserRevision st,
       st_AppliedRevision := st_AppliedRevision st, st_Users := st_Users st,
       st_ProxyNodes := st_AppliedProxyNodes st\<rparr>"

definition validateState :: "environment \<Rightarrow> state \<Rightarrow> unit res" where
  "validateState env st =
     (if st_UserRevision st = 0 \<or> st_AppliedRevision st > st_Revision st
      then fail (ErrInvalidState ''invalid configuration-plane revisions'')
      else bindE (validateStateCore env st) (\<lambda>_.
        bindE (wrapE (ErrInvalidState ''invalid universal subscription policy'')
                 (validateSubscriptionPolicy (st_SubscriptionPolicy st))) (\<lambda>_.
        bindE (wrapE (ErrInvalidState ''invalid applied topology'')
                 (validateStateCore env (applied_projection st))) (\<lambda>_.
        eachE (\<lambda>n. require (pn_Memberships n = [])
                 (ErrInvalidState ''applied topology contains memberships''))
          (st_AppliedProxyNodes st)))))"

definition administrator_membership :: "proxy_node \<Rightarrow> membership option" where
  "administrator_membership node =
     find (\<lambda>m. mem_UserID m = SystemAdministratorUserID) (pn_Memberships node)"

definition validateStoredState :: "environment \<Rightarrow> state \<Rightarrow> unit res" where
  "validateStoredState env st =
     bindE (validateState env st) (\<lambda>_.
       let administrators = length (filter (\<lambda>u. IsSystemAdministrator u
             \<and> usr_Name u = SystemAdministratorUserName \<and> us_Token (usr_Subscription u) \<noteq> []) (st_Users st))
       in if \<not> st_AdministratorProxyAccessEnabled st then
            (if administrators \<noteq> 0 \<or> list_ex (\<lambda>u. usr_ID u = SystemAdministratorUserID
                  \<or> usr_Role u = UserRoleAdministrator) (st_Users st)
             then fail (ErrInvalidState ''disabled administrator access retains a system administrator'')
             else eachE (\<lambda>n. require (administrator_membership n = None)
                    (ErrInvalidState ''disabled administrator access retains a Membership''))
                    (st_ProxyNodes st))
          else if administrators \<noteq> 1
          then fail (ErrInvalidState ''enabled administrator access must contain exactly one system administrator'')
          else eachE (\<lambda>n.
            case administrator_membership n of
              None \<Rightarrow> fail (ErrInvalidState ''Proxy Node has no administrator Membership'')
            | Some m \<Rightarrow>
                require (mem_MonthlyQuotaBytes m = 0 \<and> mem_SubscriptionEndsAfter m = 0
                  \<and> mem_SubscriptionValue m = 0 \<and> mem_SubscriptionUnit m = SubscriptionUnitUnset
                  \<and> mem_DisabledReason m = MembershipEnabled)
                  (ErrInvalidState ''Proxy Node has an invalid administrator Membership''))
            (st_ProxyNodes st))"

end
