(* ===== verification/Topology.thy ===== *)
theory Topology
  imports Validation
begin

text \<open>
  What \<open>validateProxyNode\<close> guarantees about the routing graph, stated without loops.

  \<open>edges\<close> is the parent-to-child relation of the Links. \<open>routing_tree\<close> says that the Hops form a
  tree rooted at the entrance; \<open>contiguous\<close> that a list of order numbers is a permutation of
  \<open>0..n-1\<close>; \<open>siblings_ok\<close> and \<open>rules_ok\<close> are the priority invariants of one Hop. The lemmas
  relate each check to its declarative counterpart in both directions, so that the operations of
  the Store can be shown to pass validation and not only to be refused by it.
\<close>

section \<open>The routing graph\<close>

definition edges :: "link list \<Rightarrow> (string \<times> string) set" where
  "edges links = {(lnk_ParentHopID l, lnk_ChildHopID l) | l. l \<in> set links}"

definition hop_ids :: "proxy_node \<Rightarrow> string set" where
  "hop_ids node = hop_ID ` set (pn_Hops node)"

abbreviation root_hop :: "proxy_node \<Rightarrow> string" where
  "root_hop node \<equiv> ent_HopID (pn_Entrance node)"

definition routing_tree :: "proxy_node \<Rightarrow> bool" where
  "routing_tree node \<longleftrightarrow>
     distinct (map hop_ID (pn_Hops node)) \<and>
     root_hop node \<in> hop_ids node \<and>
     edges (pn_Links node) \<subseteq> hop_ids node \<times> (hop_ids node - {root_hop node}) \<and>
     distinct (map lnk_ChildHopID (pn_Links node)) \<and>
     (\<forall>h \<in> hop_ids node. (root_hop node, h) \<in> (edges (pn_Links node))\<^sup>*)"

lemma edges_children: "c \<in> set (children links h) \<longleftrightarrow> (h, c) \<in> edges links"
  by (auto simp: children_def edges_def)

lemma finite_hop_ids [simp]: "finite (hop_ids node)"
  by (simp add: hop_ids_def)

lemma edges_unique_parent:
  assumes "distinct (map lnk_ChildHopID links)" "(p, c) \<in> edges links" "(q, c) \<in> edges links"
  shows "p = q"
  using assms by (auto simp: edges_def distinct_map dest: inj_onD)

text \<open>In a graph with unique parents a cycle below the root would pass through the root.\<close>

lemma cycle_reaches_root:
  assumes uniq: "\<And>p q c. (p, c) \<in> E \<Longrightarrow> (q, c) \<in> E \<Longrightarrow> p = q"
    and "(r, x) \<in> E\<^sup>*" and "(x, x) \<in> E\<^sup>+"
  shows "(r, r) \<in> E\<^sup>+"
  using assms(2,3)
proof (induction rule: rtrancl_induct)
  case base
  then show ?case .
next
  case (step y z)
  from step.prems obtain w where w: "(z, w) \<in> E\<^sup>*" "(w, z) \<in> E" by (meson tranclD2)
  with uniq step.hyps(2) have "w = y" by blast
  with w(1) step.hyps(2) have "(y, y) \<in> E\<^sup>+" by (simp add: rtrancl_into_trancl2)
  then show ?case by (rule step.IH)
qed

lemma routing_tree_acyclic:
  assumes "routing_tree node"
  shows "acyclic (edges (pn_Links node))"
proof (rule acyclicI, intro allI notI)
  let ?E = "edges (pn_Links node)"
  fix x
  assume x: "(x, x) \<in> ?E\<^sup>+"
  then obtain y where "(x, y) \<in> ?E" by (meson tranclD)
  with assms have "x \<in> hop_ids node" by (auto simp: routing_tree_def)
  with assms have "(root_hop node, x) \<in> ?E\<^sup>*" by (simp add: routing_tree_def)
  moreover have "p = q" if "(p, c) \<in> ?E" "(q, c) \<in> ?E" for p q c
    using edges_unique_parent that assms unfolding routing_tree_def by blast
  ultimately have "(root_hop node, root_hop node) \<in> ?E\<^sup>+"
    using x by (metis cycle_reaches_root)
  then obtain w where "(w, root_hop node) \<in> ?E" by (meson tranclD2)
  with assms show False by (auto simp: routing_tree_def)
qed

section \<open>The depth-first search\<close>

lemma visit_sound:
  "visit links active seen h = Inr seen' \<Longrightarrow>
     seen \<subseteq> seen' \<and> h \<in> seen' \<and> seen' \<subseteq> seen \<union> (edges links)\<^sup>* `` {h}"
  "visit_all links active seen cs = Inr seen' \<Longrightarrow>
     seen \<subseteq> seen' \<and> set cs \<subseteq> seen' \<and> seen' \<subseteq> seen \<union> (edges links)\<^sup>* `` set cs"
proof (induction links active seen h and links active seen cs arbitrary: seen' and seen'
    rule: visit_visit_all.induct)
  case (1 links active seen h)
  show ?case
  proof (cases "h \<in> seen")
    case True
    with 1 show ?thesis by (auto simp: visit.simps split: if_splits)
  next
    case False
    with 1 obtain s where s: "visit_all links (insert h active) seen (children links h) = Inr s"
      and seen': "seen' = insert h s" and h: "h \<notin> active"
      by (auto simp: visit.simps res_simps split: if_splits)
    from 1(1) [OF h False s] have "s \<subseteq> seen \<union> (edges links)\<^sup>* `` set (children links h)" "seen \<subseteq> s"
      by simp_all
    moreover have "(edges links)\<^sup>* `` set (children links h) \<subseteq> (edges links)\<^sup>* `` {h}"
      by (auto simp: edges_children intro: converse_rtrancl_into_rtrancl)
    ultimately show ?thesis using seen' by blast
  qed
next
  case (2 links active seen)
  then show ?case by simp
next
  case (3 links active seen c cs)
  then obtain s where s: "visit links active seen c = Inr s" "visit_all links active s cs = Inr seen'"
    by (auto simp: res_simps)
  have "(edges links)\<^sup>* `` set (c # cs) = (edges links)\<^sup>* `` {c} \<union> (edges links)\<^sup>* `` set cs"
    by auto
  moreover note 3(1) [OF s(1)]
  moreover note 3(2) [OF s(2)]
  ultimately show ?case by (simp only: list.set(2) insert_subset) blast
qed

lemma visit_complete:
  "acyclic (edges links) \<Longrightarrow> \<forall>a \<in> active. (a, h) \<in> (edges links)\<^sup>+ \<Longrightarrow>
     edges links `` seen \<subseteq> seen \<Longrightarrow>
     \<exists>seen'. visit links active seen h = Inr seen' \<and> edges links `` seen' \<subseteq> seen'"
  "acyclic (edges links) \<Longrightarrow> \<forall>a \<in> active. \<forall>c \<in> set cs. (a, c) \<in> (edges links)\<^sup>+ \<Longrightarrow>
     edges links `` seen \<subseteq> seen \<Longrightarrow>
     \<exists>seen'. visit_all links active seen cs = Inr seen' \<and> edges links `` seen' \<subseteq> seen'"
proof (induction links active seen h and links active seen cs rule: visit_visit_all.induct)
  case (1 links active seen h)
  have h: "h \<notin> active" using 1(2,3) by (auto simp: acyclic_def)
  show ?case
  proof (cases "h \<in> seen")
    case True
    with h 1(4) show ?thesis by (simp add: visit.simps)
  next
    case False
    have "\<forall>a \<in> insert h active. \<forall>c \<in> set (children links h). (a, c) \<in> (edges links)\<^sup>+"
      using 1(3) by (auto simp: edges_children intro: trancl_into_trancl)
    with 1(1) [OF h False 1(2) _ 1(4)] obtain s where
      s: "visit_all links (insert h active) seen (children links h) = Inr s" "edges links `` s \<subseteq> s"
      by blast
    from visit_sound(2) [OF s(1)] have "edges links `` {h} \<subseteq> s" by (auto simp: edges_children)
    with s h False show ?thesis by (auto simp: visit.simps)
  qed
next
  case (2 links active seen)
  then show ?case by simp
next
  case (3 links active seen c cs)
  from 3(3,4,5) 3(1) obtain s where s: "visit links active seen c = Inr s" "edges links `` s \<subseteq> s"
    by auto
  from 3(2) [OF 3(3) _ s(2)] 3(4) obtain t where
    "visit_all links active s cs = Inr t" "edges links `` t \<subseteq> t" by auto
  with s(1) show ?case by simp
qed

lemma closed_Image:
  assumes "E `` S \<subseteq> S" "x \<in> S" "(x, y) \<in> E\<^sup>*"
  shows "y \<in> S"
  using assms(3) by (induction rule: rtrancl_induct) (use assms(1,2) in auto)

lemma reach_in_hops:
  assumes "E \<subseteq> H \<times> H" "r \<in> H"
  shows "E\<^sup>* `` {r} \<subseteq> H"
proof
  fix x
  assume "x \<in> E\<^sup>* `` {r}"
  then have "(r, x) \<in> E\<^sup>*" by simp
  then show "x \<in> H" by (induction rule: rtrancl_induct) (use assms in auto)
qed

lemma validateReachability_sound:
  assumes "edges links \<subseteq> H \<times> H" "root \<in> H" "finite H"
    and "validateReachability root H links = Inr ()"
  shows "\<forall>h \<in> H. (root, h) \<in> (edges links)\<^sup>*"
proof -
  from assms(4) obtain seen where s: "visit links {} {} root = Inr seen" "card seen = card H"
    by (auto simp: validateReachability_def res_simps)
  from visit_sound(1) [OF s(1)] have reach: "seen \<subseteq> (edges links)\<^sup>* `` {root}" by simp
  with reach_in_hops [OF assms(1,2)] have "seen \<subseteq> H" by blast
  with s(2) assms(3) have "seen = H" by (simp add: card_subset_eq)
  with reach show ?thesis by blast
qed

lemma validateReachability_complete:
  assumes "edges links \<subseteq> H \<times> H" "root \<in> H" "acyclic (edges links)"
    and "\<forall>h \<in> H. (root, h) \<in> (edges links)\<^sup>*"
  shows "validateReachability root H links = Inr ()"
proof -
  from visit_complete(1) [OF assms(3), of "{}" root "{}"] obtain seen where
    s: "visit links {} {} root = Inr seen" "edges links `` seen \<subseteq> seen" by auto
  from visit_sound(1) [OF s(1)] have r: "root \<in> seen" "seen \<subseteq> (edges links)\<^sup>* `` {root}" by auto
  have "H \<subseteq> seen" using assms(4) closed_Image [OF s(2) r(1)] by blast
  moreover have "seen \<subseteq> H" using r(2) reach_in_hops [OF assms(1,2)] by blast
  ultimately have "seen = H" by blast
  with s(1) show ?thesis by (simp add: validateReachability_def require_def)
qed

section \<open>Order numbers\<close>

definition contiguous :: "int list \<Rightarrow> bool" where
  "contiguous xs \<longleftrightarrow> mset xs = mset (map int [0..<length xs])"

lemma sorted_upt_int [simp]: "sorted (map int [0..<n])"
  by (simp add: sorted_iff_nth_mono)

lemma contiguous_sort: "contiguous xs \<longleftrightarrow> sort xs = map int [0..<length xs]"
proof
  assume "contiguous xs"
  then show "sort xs = map int [0..<length xs]"
    unfolding contiguous_def by (metis properties_for_sort sorted_upt_int)
next
  assume "sort xs = map int [0..<length xs]"
  then show "contiguous xs" unfolding contiguous_def by (metis mset_sort)
qed

lemma contiguous_Nil [simp]: "contiguous []"
  by (simp add: contiguous_def)

lemma contiguous_set: "contiguous xs \<Longrightarrow> set xs = {0..<int (length xs)}"
proof -
  assume "contiguous xs"
  then have "set xs = set (map int [0..<length xs])"
    unfolding contiguous_def by (rule mset_eq_setD)
  also have "\<dots> = {0..<int (length xs)}" by (simp add: image_int_atLeastLessThan)
  finally show ?thesis .
qed

lemma contiguous_distinct: "contiguous xs \<Longrightarrow> distinct xs"
  unfolding contiguous_sort by (metis distinct_map distinct_sort distinct_upt inj_on_of_nat)

lemma nth_upt_iff:
  "map f xs = map int [0..<length xs] \<longleftrightarrow> (\<forall>i < length xs. f (xs ! i) = int i)"
proof
  assume eq: "map f xs = map int [0..<length xs]"
  show "\<forall>i < length xs. f (xs ! i) = int i"
  proof (intro allI impI)
    fix i
    assume "i < length xs"
    with arg_cong [OF eq, of "\<lambda>l. l ! i"] show "f (xs ! i) = int i" by simp
  qed
next
  assume "\<forall>i < length xs. f (xs ! i) = int i"
  then show "map f xs = map int [0..<length xs]" by (intro nth_equalityI) simp_all
qed

lemma validate_rule_orders_iff [res_simps]: "validate_rule_orders xs = Inr () \<longleftrightarrow> contiguous xs"
proof -
  have "validate_rule_orders xs = Inr () \<longleftrightarrow> (\<forall>i < length (sort xs). sort xs ! i = int i)"
    unfolding validate_rule_orders_def eachE_Inr set_enumerated by (auto simp: require_Inr)
  also have "\<dots> \<longleftrightarrow> map (\<lambda>x. x) (sort xs) = map int [0..<length (sort xs)]"
    by (rule nth_upt_iff [symmetric])
  finally show ?thesis by (simp add: contiguous_sort)
qed

definition siblings_ok :: "link list \<Rightarrow> bool" where
  "siblings_ok ls \<longleftrightarrow> contiguous (map lnk_Order ls) \<and>
     (\<forall>l \<in> set ls. lnk_Fallback l \<longrightarrow> lnk_Order l = int (length ls) - 1)"

lemma foldE_count:
  assumes "\<And>n x. f n x = (if p x then (if q x then Inr (n + 1) else Inr n) else Inl (e x))"
  shows "foldE f (n::nat) xs = Inr m \<longleftrightarrow> (\<forall>x \<in> set xs. p x) \<and> m = n + length (filter q xs)"
  by (induction xs arbitrary: n) (auto simp: assms)

lemma sorted_orders: "map lnk_Order (sort_key lnk_Order ls) = sort (map lnk_Order ls)"
proof (rule properties_for_sort [symmetric])
  show "mset (map lnk_Order (sort_key lnk_Order ls)) = mset (map lnk_Order ls)"
    unfolding mset_map by simp
qed simp

lemma siblings_ok_sorted:
  "siblings_ok ls \<longleftrightarrow> (\<forall>i < length ls. lnk_Order (sort_key lnk_Order ls ! i) = int i
     \<and> (lnk_Fallback (sort_key lnk_Order ls ! i) \<longrightarrow> i = length ls - 1))"
proof -
  let ?s = "sort_key lnk_Order ls" and ?n = "length ls"
  have c: "contiguous (map lnk_Order ls) \<longleftrightarrow> (\<forall>i < ?n. lnk_Order (?s ! i) = int i)"
    using nth_upt_iff [of lnk_Order ?s] by (simp add: contiguous_sort sorted_orders)
  have "(\<forall>l \<in> set ls. lnk_Fallback l \<longrightarrow> lnk_Order l = int ?n - 1) \<longleftrightarrow>
      (\<forall>l \<in> set ?s. lnk_Fallback l \<longrightarrow> lnk_Order l = int ?n - 1)" by simp
  also have "\<dots> \<longleftrightarrow> (\<forall>i < ?n. lnk_Fallback (?s ! i) \<longrightarrow> lnk_Order (?s ! i) = int ?n - 1)"
    unfolding all_set_conv_all_nth by simp
  finally have "siblings_ok ls \<longleftrightarrow> (\<forall>i < ?n. lnk_Order (?s ! i) = int i) \<and>
      (\<forall>i < ?n. lnk_Fallback (?s ! i) \<longrightarrow> lnk_Order (?s ! i) = int ?n - 1)"
    by (simp add: siblings_ok_def c)
  moreover have "int i = int ?n - 1 \<longleftrightarrow> i = ?n - 1" if "i < ?n" for i using that by linarith
  ultimately show ?thesis by metis
qed

text \<open>The sibling check accepts exactly the lists that satisfy \<open>siblings_ok\<close>; the count
  of fallback Links it makes afterwards can no longer fail.\<close>

lemma validate_siblings_iff [res_simps]: "validate_siblings ls = Inr () \<longleftrightarrow> siblings_ok ls"
proof -
  let ?s = "sort_key lnk_Order ls" and ?n = "length ls"
  define p where "p = (\<lambda>(i, l :: link). lnk_Order l = int i \<and> (lnk_Fallback l \<longrightarrow> i = ?n - 1))"
  define q where "q = (\<lambda>(i::nat, l :: link). lnk_Fallback l)"
  define e where "e = (\<lambda>(order, l :: link). if lnk_Order l \<noteq> int order
     then ErrOther ''child Link order is not contiguous'' else ErrOther ''fallback Link must be last'')"
  define f where "f = (\<lambda>(fallbacks::nat) (order, l :: link).
        if lnk_Order l \<noteq> int order then Inl (ErrOther ''child Link order is not contiguous'')
        else if lnk_Fallback l then
          (if order \<noteq> length ls - 1 then Inl (ErrOther ''fallback Link must be last'')
           else Inr (fallbacks + 1))
        else Inr fallbacks)"
  have "f n x = (if p x then (if q x then Inr (n + 1) else Inr n) else Inl (e x))" for n x
    by (cases x) (simp add: f_def p_def q_def e_def)
  then have count: "foldE f 0 (enumerated ?s) = Inr m \<longleftrightarrow>
     (\<forall>x \<in> set (enumerated ?s). p x) \<and> m = 0 + length (filter q (enumerated ?s))" for m
    by (rule foldE_count)
  have all: "(\<forall>x \<in> set (enumerated ?s). p x) \<longleftrightarrow> siblings_ok ls"
    unfolding siblings_ok_sorted set_enumerated p_def by auto
  have "length (filter q (enumerated ?s)) \<le> 1" if "\<forall>x \<in> set (enumerated ?s). p x"
  proof -
    have "distinct (map fst (filter q (enumerated ?s)))"
      by (intro distinct_map_filter) (simp add: enumerated_def)
    moreover have "set (map fst (filter q (enumerated ?s))) \<subseteq> {?n - 1}"
      using that by (auto simp: p_def q_def)
    ultimately have "length (map fst (filter q (enumerated ?s))) \<le> card {?n - 1}"
      by (metis card_mono distinct_card finite.emptyI finite.insertI)
    then show ?thesis by simp
  qed
  with count all show ?thesis
    unfolding validate_siblings_def f_def [symmetric] bindE_Inr_iff require_Inr by auto
qed

section \<open>The whole check\<close>

text \<open>The conditions on a single Hop, Link or BLOCK branch.\<close>

definition hop_ok :: "hop \<Rightarrow> bool" where
  "hop_ok h \<longleftrightarrow> validID (hop_ID h) ''hop_'' \<and> validAgentID (hop_AgentID h) \<and>
     hop_CreatedAt h \<noteq> 0 \<and> hop_UpdatedAt h \<noteq> 0"

definition link_rule_ok :: "rule \<Rightarrow> bool" where
  "link_rule_ok r \<longleftrightarrow> validID (rul_ID r) ''rul_'' \<and> rul_Order r \<ge> 0 \<and> rul_LegacyTarget r = None \<and>
     rul_Match r \<noteq> MatchNone \<and> validateRule r = Inr ()"

definition link_ok :: "link \<Rightarrow> bool" where
  "link_ok l \<longleftrightarrow> validID (lnk_ID l) ''lnk_'' \<and> lnk_Order l \<ge> 0 \<and>
     lnk_CreatedAt l \<noteq> 0 \<and> lnk_UpdatedAt l \<noteq> 0 \<and> lnk_ParentHopID l \<noteq> lnk_ChildHopID l \<and>
     validateEndpoint (lnk_Endpoint l) = Inr () \<and>
     validateCredential (lnk_Endpoint l) (lnk_Credential l) = Inr () \<and>
     (lnk_Fallback l \<longrightarrow> lnk_Rules l = []) \<and> length (lnk_Rules l) \<le> 1 \<and>
     (\<forall>r \<in> set (lnk_Rules l). link_rule_ok r)"

definition block_ok :: "block_branch \<Rightarrow> bool" where
  "block_ok b \<longleftrightarrow> blk_CreatedAt b \<noteq> 0 \<and> blk_UpdatedAt b \<noteq> 0 \<and> link_rule_ok (blk_Rule b)"

definition topology_ok :: "proxy_node \<Rightarrow> bool" where
  "topology_ok node \<longleftrightarrow>
     validSubscriptionAddressMode (pn_SubscriptionAddressMode node) \<and>
     length (pn_Hops node) + length (pn_Links node) + length (pn_BlockBranches node) \<le> 10000 \<and>
     validateEndpoint (ent_Endpoint (pn_Entrance node)) = Inr () \<and>
     (\<forall>h \<in> set (pn_Hops node). hop_ok h) \<and>
     (\<forall>l \<in> set (pn_Links node). link_ok l) \<and>
     (\<forall>b \<in> set (pn_BlockBranches node). block_ok b \<and> blk_ParentHopID b \<in> hop_ids node) \<and>
     distinct (map lnk_ID (pn_Links node)) \<and>
     routing_tree node \<and>
     (\<forall>h \<in> hop_ids node. contiguous (rule_orders (pn_Links node) (pn_BlockBranches node) h)) \<and>
     (\<forall>h \<in> hop_ids node. siblings_ok (outgoing_links (pn_Links node) h))"

lemma foldE_validate_hop:
  "foldE validate_hop S hs = Inr T \<longleftrightarrow>
     (\<forall>h \<in> set hs. hop_ok h) \<and> distinct (map hop_ID hs) \<and> hop_ID ` set hs \<inter> S = {} \<and>
     T = S \<union> hop_ID ` set hs"
  by (induction hs arbitrary: S) (auto simp: validate_hop_def hop_ok_def res_simps)

lemma validate_link_rule_iff: "validate_link_rule r = Inr () \<longleftrightarrow> link_rule_ok r"
  by (auto simp: validate_link_rule_def link_rule_ok_def res_simps)

lemma validate_link_iff:
  "validate_link root H (ids, parents) l = Inr (ids', parents') \<longleftrightarrow>
     link_ok l \<and> lnk_ID l \<notin> ids \<and> lnk_ParentHopID l \<in> H \<and> lnk_ChildHopID l \<in> H - {root} \<and>
     parents (lnk_ChildHopID l) = None \<and>
     ids' = insert (lnk_ID l) ids \<and> parents' = parents(lnk_ChildHopID l \<mapsto> lnk_ParentHopID l)"
  unfolding validate_link_def link_ok_def
  by (simp add: bindE_Inr_iff eachE_Inr validate_link_rule_iff) auto

lemma foldE_validate_link:
  "foldE (validate_link root H) (ids, parents) ls = Inr (ids', parents') \<longleftrightarrow>
     (\<forall>l \<in> set ls. link_ok l \<and> lnk_ParentHopID l \<in> H \<and> lnk_ChildHopID l \<in> H - {root}) \<and>
     distinct (map lnk_ID ls) \<and> lnk_ID ` set ls \<inter> ids = {} \<and>
     distinct (map lnk_ChildHopID ls) \<and> lnk_ChildHopID ` set ls \<inter> dom parents = {} \<and>
     ids' = ids \<union> lnk_ID ` set ls \<and> parents' = fill_map lnk_ChildHopID lnk_ParentHopID parents ls"
proof (induction ls arbitrary: ids parents)
  case Nil
  then show ?case by auto
next
  case (Cons l ls)
  show ?case
    by (simp only: foldE.simps bindE_Inr_iff split_paired_Ex validate_link_iff Cons.IH) auto
qed

lemma validate_block_branch_iff:
  "validate_block_branch H b = Inr () \<longleftrightarrow> block_ok b \<and> blk_ParentHopID b \<in> H"
  by (auto simp: validate_block_branch_def block_ok_def link_rule_ok_def)

lemma edges_within:
  "edges ls \<subseteq> H \<times> (H - {r}) \<longleftrightarrow>
     (\<forall>l \<in> set ls. lnk_ParentHopID l \<in> H \<and> lnk_ChildHopID l \<in> H - {r})"
  by (auto simp: edges_def)

lemma dom_parents: "(\<exists>p. fill_map lnk_ChildHopID lnk_ParentHopID Map.empty ls h = Some p) \<longleftrightarrow>
    h \<in> lnk_ChildHopID ` set ls"
  using dom_fill_map [of lnk_ChildHopID lnk_ParentHopID Map.empty ls] by (auto simp: dom_def)

lemma reached_has_parent:
  assumes "(root, h) \<in> (edges ls)\<^sup>*" "h \<noteq> root"
  shows "h \<in> lnk_ChildHopID ` set ls"
proof -
  from assms obtain p where "(p, h) \<in> edges ls" by (metis rtranclE)
  then show ?thesis by (auto simp: edges_def)
qed

text \<open>The successful runs of the check, with the loops replaced by what they compute.\<close>

lemma validate_topology_steps:
  "validate_topology node = Inr () \<longleftrightarrow>
     pn_Hops node \<noteq> [] \<and> validSubscriptionAddressMode (pn_SubscriptionAddressMode node) \<and>
     length (pn_Hops node) + length (pn_Links node) + length (pn_BlockBranches node) \<le> 10000 \<and>
     validateEndpoint (ent_Endpoint (pn_Entrance node)) = Inr () \<and>
     (\<forall>h \<in> set (pn_Hops node). hop_ok h) \<and> distinct (map hop_ID (pn_Hops node)) \<and>
     root_hop node \<in> hop_ids node \<and>
     (\<forall>l \<in> set (pn_Links node). link_ok l) \<and>
     edges (pn_Links node) \<subseteq> hop_ids node \<times> (hop_ids node - {root_hop node}) \<and>
     distinct (map lnk_ID (pn_Links node)) \<and> distinct (map lnk_ChildHopID (pn_Links node)) \<and>
     (\<forall>b \<in> set (pn_BlockBranches node). block_ok b \<and> blk_ParentHopID b \<in> hop_ids node) \<and>
     (\<forall>h \<in> hop_ids node. contiguous (rule_orders (pn_Links node) (pn_BlockBranches node) h)) \<and>
     (\<forall>h \<in> hop_ids node. siblings_ok (outgoing_links (pn_Links node) h)) \<and>
     (\<forall>h \<in> hop_ids node. h = root_hop node \<or> h \<in> lnk_ChildHopID ` set (pn_Links node)) \<and>
     validateReachability (root_hop node) (hop_ids node) (pn_Links node) = Inr ()"
proof -
  have each_hop: "(\<forall>h \<in> set (pn_Hops node). P (hop_ID h)) \<longleftrightarrow> (\<forall>h \<in> hop_ids node. P h)" for P
    by (simp add: hop_ids_def)
  show ?thesis
    unfolding validate_topology_def Let_def edges_within
    by (auto simp: bindE_Inr_iff foldE_validate_hop foldE_validate_link eachE_Inr require_Inr
        validate_block_branch_iff validate_rule_orders_iff validate_siblings_iff dom_parents
        hop_ids_def not_less)
qed

lemma validate_topology_iff: "validate_topology node = Inr () \<longleftrightarrow> topology_ok node"
proof
  assume v: "validate_topology node = Inr ()"
  note s = v [unfolded validate_topology_steps]
  have sub: "edges (pn_Links node) \<subseteq> hop_ids node \<times> hop_ids node" using s by blast
  have "\<forall>h \<in> hop_ids node. (root_hop node, h) \<in> (edges (pn_Links node))\<^sup>*"
    by (rule validateReachability_sound [OF sub]) (use s in simp_all)
  then show "topology_ok node" using s by (simp add: topology_ok_def routing_tree_def)
next
  assume t: "topology_ok node"
  then have tree: "routing_tree node" by (simp add: topology_ok_def)
  have "validateReachability (root_hop node) (hop_ids node) (pn_Links node) = Inr ()"
    by (rule validateReachability_complete)
      (use tree routing_tree_acyclic [OF tree] in \<open>auto simp: routing_tree_def\<close>)
  moreover have "pn_Hops node \<noteq> []" using tree by (auto simp: routing_tree_def hop_ids_def)
  moreover have "\<forall>h \<in> hop_ids node. h = root_hop node \<or> h \<in> lnk_ChildHopID ` set (pn_Links node)"
    using tree reached_has_parent unfolding routing_tree_def by blast
  ultimately show "validate_topology node = Inr ()"
    using t tree unfolding validate_topology_steps by (simp add: topology_ok_def routing_tree_def)
qed

lemma validateProxyNode_topology_ok: "validateProxyNode env node users = Inr () \<Longrightarrow> topology_ok node"
  by (auto simp: validateProxyNode_def bindE_Inr_iff validate_topology_iff)

end
