(* ===== verification/Listeners.thy ===== *)
theory Listeners
  imports Topology Credentials "HOL-Library.Product_Lexorder"
begin

text \<open>
  \<open>internal/proxynode/listeners.go\<close>: several logical inbounds may share one physical listener
  of an Agent when their listener-wide options agree.

  The source identifies a physical listener by a string, the socket followed by the JSON text of
  the listener-wide options. Here the key is the pair of the socket and a record of those options,
  which are equal exactly when the two texts are (for valid UTF-8 fields).

  \<open>listenerRef\<close> holds pointers into the state; here a reference holds the position of its
  endpoint, a \<open>slot\<close>, and reads and writes go through it. \<open>shortDigest\<close>, a truncated SHA-256
  of the key, is a parameter.
\<close>

section \<open>Keys\<close>

record listener_policy =
  lpol_Padding :: bool
  lpol_Brutal :: "tcp_brutal_config option"

record listener_options =
  lo_Protocol :: protocol
  lo_Listen :: string
  lo_ListenPort :: int
  lo_Method :: string
  lo_Multiplex :: listener_policy
  lo_TLS :: tls_config
  lo_UpMbps :: int
  lo_DownMbps :: int
  lo_ObfsType :: string

record socket =
  so_Agent :: string
  so_Network :: string
  so_Listen :: string
  so_Port :: int

type_synonym listener_key = "socket \<times> listener_options"

definition listenerMultiplexPolicyFor :: "multiplex_config option \<Rightarrow> listener_policy" where
  "listenerMultiplexPolicyFor config =
     (case config of
        None \<Rightarrow> \<lparr>lpol_Padding = False, lpol_Brutal = None\<rparr>
      | Some c \<Rightarrow> \<lparr>lpol_Padding = mux_Padding c, lpol_Brutal = mux_Brutal c\<rparr>)"

definition listener_socket :: "string \<Rightarrow> string \<Rightarrow> endpoint \<Rightarrow> socket" where
  "listener_socket agent network e =
     \<lparr>so_Agent = agent, so_Network = network, so_Listen = ep_Listen e, so_Port = ep_ListenPort e\<rparr>"

definition listenerKeys :: "string \<Rightarrow> endpoint \<Rightarrow> listener_key" where
  "listenerKeys agent e =
     (let options =
        \<lparr>lo_Protocol = ep_Protocol e, lo_Listen = ep_Listen e, lo_ListenPort = ep_ListenPort e,
         lo_Method = ep_Method e, lo_Multiplex = listenerMultiplexPolicyFor (ep_Multiplex e),
         lo_TLS = normalizeTLSConfig (ep_TLS e), lo_UpMbps = ep_UpMbps e,
         lo_DownMbps = ep_DownMbps e, lo_ObfsType = ep_ObfsType e\<rparr>;
        network = (if ep_Protocol e = ProtocolHysteria2 then ''udp''
                   else if ep_Protocol e = ProtocolShadowsocks then ''tcp+udp'' else ''tcp'')
      in (listener_socket agent network e, options))"

definition listenerSocketClaims :: "string \<Rightarrow> endpoint \<Rightarrow> socket list res" where
  "listenerSocketClaims agent e =
     (case ep_Protocol e of
        ProtocolShadowsocks \<Rightarrow> ok [listener_socket agent ''tcp'' e, listener_socket agent ''udp'' e]
      | ProtocolHysteria2 \<Rightarrow> ok [listener_socket agent ''udp'' e]
      | ProtocolAnyTLS \<Rightarrow> ok [listener_socket agent ''tcp'' e]
      | OtherProtocol _ \<Rightarrow> fail (ErrOther ''unsupported listener protocol''))"

section \<open>References\<close>

datatype slot = EntranceSlot nat | LinkSlot nat nat

record listener_ref =
  ref_agent :: string
  ref_slot :: slot

definition hop_agents :: "proxy_node \<Rightarrow> string \<rightharpoonup> string" where
  "hop_agents node = fill_map hop_ID hop_AgentID Map.empty (pn_Hops node)"

definition hop_agent :: "proxy_node \<Rightarrow> string \<Rightarrow> string" where
  "hop_agent node h = (case hop_agents node h of None \<Rightarrow> [] | Some a \<Rightarrow> a)"

definition node_listener_refs :: "nat \<Rightarrow> proxy_node \<Rightarrow> listener_ref list" where
  "node_listener_refs i node =
     (let agent = hop_agent node (ent_HopID (pn_Entrance node)) in
      (if agent \<noteq> [] then [\<lparr>ref_agent = agent, ref_slot = EntranceSlot i\<rparr>] else [])
      @ concat (map (\<lambda>(j, l). let agent = hop_agent node (lnk_ChildHopID l) in
           if agent \<noteq> [] then [\<lparr>ref_agent = agent, ref_slot = LinkSlot i j\<rparr>] else [])
         (enumerated (pn_Links node))))"

definition stateListenerRefs :: "state \<Rightarrow> listener_ref list" where
  "stateListenerRefs st =
     concat (map (\<lambda>(i, node). node_listener_refs i node) (enumerated (st_ProxyNodes st)))"

fun slot_endpoint :: "state \<Rightarrow> slot \<Rightarrow> endpoint" where
  "slot_endpoint st (EntranceSlot i) = ent_Endpoint (pn_Entrance (st_ProxyNodes st ! i))"
| "slot_endpoint st (LinkSlot i j) = lnk_Endpoint (pn_Links (st_ProxyNodes st ! i) ! j)"

abbreviation ref_endpoint :: "state \<Rightarrow> listener_ref \<Rightarrow> endpoint" where
  "ref_endpoint st r \<equiv> slot_endpoint st (ref_slot r)"

abbreviation ref_key :: "state \<Rightarrow> listener_ref \<Rightarrow> listener_key" where
  "ref_key st r \<equiv> listenerKeys (ref_agent r) (ref_endpoint st r)"

definition update_node :: "nat \<Rightarrow> (proxy_node \<Rightarrow> proxy_node) \<Rightarrow> state \<Rightarrow> state" where
  "update_node i f st = st\<lparr>st_ProxyNodes := update_at i f (st_ProxyNodes st)\<rparr>"

fun set_slot :: "slot \<Rightarrow> endpoint \<Rightarrow> state \<Rightarrow> state" where
  "set_slot (EntranceSlot i) e st =
     update_node i (\<lambda>n. n\<lparr>pn_Entrance := (pn_Entrance n)\<lparr>ent_Endpoint := e\<rparr>\<rparr>) st"
| "set_slot (LinkSlot i j) e st =
     update_node i (\<lambda>n. n\<lparr>pn_Links := update_at j (\<lambda>l. l\<lparr>lnk_Endpoint := e\<rparr>) (pn_Links n)\<rparr>) st"

section \<open>Shared secrets\<close>

type_synonym listener_secrets = "string \<times> string"

definition endpointListenerSecrets :: "endpoint \<Rightarrow> listener_secrets" where
  "endpointListenerSecrets e = (ep_ServerKey e, ep_ObfsSecret e)"

definition applyListenerSecrets :: "endpoint \<Rightarrow> listener_secrets \<Rightarrow> endpoint" where
  "applyListenerSecrets e secrets =
     (case ep_Protocol e of
        ProtocolShadowsocks \<Rightarrow> e\<lparr>ep_ServerKey := fst secrets\<rparr>
      | ProtocolHysteria2 \<Rightarrow>
          if ep_ObfsType e \<noteq> [] then e\<lparr>ep_ObfsSecret := snd secrets\<rparr> else e
      | _ \<Rightarrow> e)"

fun preferred_secrets ::
  "state \<Rightarrow> (listener_key \<rightharpoonup> listener_secrets) \<Rightarrow> listener_ref list \<Rightarrow> (listener_key \<rightharpoonup> listener_secrets)" where
  "preferred_secrets st preferred [] = preferred"
| "preferred_secrets st preferred (r # rs) =
     preferred_secrets st
       (case preferred (ref_key st r) of
          Some _ \<Rightarrow> preferred
        | None \<Rightarrow> preferred(ref_key st r \<mapsto> endpointListenerSecrets (ref_endpoint st r))) rs"

fun reconcile_refs ::
  "(listener_key \<rightharpoonup> listener_secrets) \<Rightarrow> (listener_key \<rightharpoonup> listener_secrets) \<Rightarrow> bool \<Rightarrow> state
    \<Rightarrow> listener_ref list \<Rightarrow> state \<times> bool" where
  "reconcile_refs preferred selected changed st [] = (st, changed)"
| "reconcile_refs preferred selected changed st (r # rs) =
     (let key = ref_key st r; old = ref_endpoint st r;
          (secrets, selected) =
            (case selected key of
               Some s \<Rightarrow> (s, selected)
             | None \<Rightarrow>
                 let s = (case preferred key of
                            Some s \<Rightarrow> s
                          | None \<Rightarrow> endpointListenerSecrets old)
                 in (s, selected(key \<mapsto> s)));
          after = applyListenerSecrets old secrets
      in reconcile_refs preferred selected
           (changed \<or> endpointListenerSecrets after \<noteq> endpointListenerSecrets old)
           (set_slot (ref_slot r) after st) rs)"

definition reconcileSharedListenerSecrets :: "state \<Rightarrow> state option \<Rightarrow> state \<times> bool" where
  "reconcileSharedListenerSecrets st previous =
     (let preferred = (case previous of
            None \<Rightarrow> Map.empty
          | Some p \<Rightarrow> preferred_secrets p Map.empty (stateListenerRefs p))
      in reconcile_refs preferred Map.empty False st (stateListenerRefs st))"

section \<open>The layout check\<close>

definition claim_sockets ::
  "listener_key \<Rightarrow> (socket \<rightharpoonup> listener_key) \<Rightarrow> socket list \<Rightarrow> (socket \<rightharpoonup> listener_key) res" where
  "claim_sockets key = foldE (\<lambda>sockets claim.
     case sockets claim of
       Some existing \<Rightarrow>
         if existing \<noteq> key then fail (ErrConflict ''incompatible logical inbounds'')
         else ok (sockets(claim \<mapsto> key))
     | None \<Rightarrow> ok (sockets(claim \<mapsto> key)))"

definition validateListenerLayout :: "state \<Rightarrow> unit res" where
  "validateListenerLayout st =
     bindE (foldE (\<lambda>sockets r.
        bindE (listenerSocketClaims (ref_agent r) (ref_endpoint st r)) (\<lambda>claims.
          claim_sockets (ref_key st r) sockets claims)) Map.empty (stateListenerRefs st)) (\<lambda>_. ok ())"

section \<open>Editing a shared listener\<close>

definition appliedEntranceEndpoint :: "state \<Rightarrow> string \<Rightarrow> endpoint option" where
  "appliedEntranceEndpoint st node =
     map_option (\<lambda>n. ent_Endpoint (pn_Entrance n)) (find (\<lambda>n. pn_ID n = node) (st_AppliedProxyNodes st))"

definition mergeListenerMultiplex ::
  "multiplex_config option \<Rightarrow> multiplex_config option \<Rightarrow> multiplex_config option" where
  "mergeListenerMultiplex listener_wide per_link =
     (let enabled = (case per_link of None \<Rightarrow> False | Some c \<Rightarrow> mux_Enabled c);
          padding = (case listener_wide of None \<Rightarrow> False | Some c \<Rightarrow> mux_Padding c);
          brutal = (case listener_wide of None \<Rightarrow> None | Some c \<Rightarrow> mux_Brutal c)
      in if \<not> enabled \<and> \<not> padding \<and> brutal = None then None
         else Some \<lparr>mux_Enabled = enabled, mux_Padding = padding, mux_Brutal = brutal\<rparr>)"

definition edit_link_credential ::
  "endpoint \<Rightarrow> endpoint \<Rightarrow> time \<Rightarrow> link \<Rightarrow> entropy \<Rightarrow> (link \<times> entropy) res" where
  "edit_link_credential old next now l src =
     (if credentialShapeChanged old next
      then bindE (generateCredential next src) (\<lambda>(c, src).
             ok (l\<lparr>lnk_Credential := c, lnk_UpdatedAt := now\<rparr>, src))
      else ok (l, src))"

definition edit_membership_credential ::
  "endpoint option \<Rightarrow> endpoint \<Rightarrow> endpoint \<Rightarrow> membership \<Rightarrow> entropy \<Rightarrow> (membership \<times> entropy) res" where
  "edit_membership_credential active old next m src =
     (case active of
        None \<Rightarrow>
          bindE (if credentialShapeChanged old next
                 then bindE (generateCredential next src) (\<lambda>(c, src). ok (m\<lparr>mem_Credential := c\<rparr>, src))
                 else ok (m, src)) (\<lambda>(m, src). ok (m\<lparr>mem_PendingCredential := None\<rparr>, src))
      | Some a \<Rightarrow>
          if credentialShapeChanged a next
          then bindE (generateCredential next src) (\<lambda>(c, src).
                 ok (m\<lparr>mem_PendingCredential := Some c\<rparr>, src))
          else ok (m\<lparr>mem_PendingCredential := None\<rparr>, src))"

definition edit_ref ::
  "slot \<Rightarrow> listener_key \<Rightarrow> endpoint \<Rightarrow> time \<Rightarrow> state \<times> entropy \<Rightarrow> listener_ref \<Rightarrow> (state \<times> entropy) res" where
  "edit_ref target old_key replacement now = (\<lambda>(st, src) r.
     if ref_key st r \<noteq> old_key then ok (st, src)
     else
       let old = ref_endpoint st r;
           next = (if ref_slot r = target then replacement
                   else replacement\<lparr>ep_Family := ep_Family old,
                     ep_Multiplex := mergeListenerMultiplex (ep_Multiplex replacement) (ep_Multiplex old)\<rparr>)
       in bindE (case ref_slot r of
             LinkSlot i j \<Rightarrow>
               bindE (edit_link_credential old next now (pn_Links (st_ProxyNodes st ! i) ! j) src)
                 (\<lambda>(l, src). ok (update_node i (\<lambda>n. n\<lparr>pn_Links := (pn_Links n)[j := l]\<rparr>) st, src))
           | EntranceSlot i \<Rightarrow>
               let node = st_ProxyNodes st ! i in
               bindE (traverseE (edit_membership_credential (appliedEntranceEndpoint st (pn_ID node)) old next)
                       (pn_Memberships node) src)
                 (\<lambda>(ms, src). ok (update_node i (\<lambda>n. n\<lparr>pn_Memberships := ms\<rparr>) st, src)))
          (\<lambda>(st, src). ok (set_slot (ref_slot r) next st, src)))"

definition applySharedListenerEdit ::
  "slot \<Rightarrow> endpoint \<Rightarrow> time \<Rightarrow> state \<Rightarrow> entropy \<Rightarrow> (state \<times> entropy) res" where
  "applySharedListenerEdit target replacement now st src =
     (let refs = stateListenerRefs st in
      case find (\<lambda>r. ref_slot r = target) refs of
        None \<Rightarrow> fail ErrNotFound
      | Some t \<Rightarrow>
          bindE (generateEndpointSecrets
                   (preserveEndpointSecrets (ref_endpoint st t) replacement) src) (\<lambda>(replacement, src).
          bindE (foldE (edit_ref target (ref_key st t) replacement now) (st, src) refs) (\<lambda>(st, src).
          bindE (validateListenerLayout st) (\<lambda>_. ok (st, src)))))"

section \<open>Presets\<close>

record listener_preset =
  lp_ID :: string
  lp_AgentID :: string
  lp_Endpoint :: endpoint
  lp_ReferenceCount :: nat

definition ListenerPresetID :: "(listener_key \<Rightarrow> string) \<Rightarrow> string \<Rightarrow> endpoint \<Rightarrow> string" where
  "ListenerPresetID digest agent e = ''listener-'' @ digest (listenerKeys agent e)"

text \<open>\<open>byKey\<close>, with its keys in the order they are first seen.\<close>

fun collect_presets ::
  "(listener_key \<Rightarrow> string) \<Rightarrow> state \<Rightarrow> (listener_key \<times> listener_preset) list \<Rightarrow> listener_ref list
    \<Rightarrow> (listener_key \<times> listener_preset) list" where
  "collect_presets digest st acc [] = acc"
| "collect_presets digest st acc (r # rs) =
     (let key = ref_key st r; e = ref_endpoint st r in
      collect_presets digest st
        (if key \<in> set (map fst acc)
         then map (\<lambda>(k, p). (k, if k = key then p\<lparr>lp_ReferenceCount := lp_ReferenceCount p + 1\<rparr> else p)) acc
         else acc @ [(key, \<lparr>lp_ID = ''listener-'' @ digest key, lp_AgentID = ref_agent r,
            lp_Endpoint = e\<lparr>ep_TLS := normalizeTLSConfig (ep_TLS e), ep_ServerKey := [], ep_ObfsSecret := []\<rparr>,
            lp_ReferenceCount = 1\<rparr>)]) rs)"

definition ListenerPresets :: "(listener_key \<Rightarrow> string) \<Rightarrow> state \<Rightarrow> listener_preset list" where
  "ListenerPresets digest st =
     sort_key (\<lambda>p. (lp_AgentID p, ep_ListenPort (lp_Endpoint p), lp_ID p))
       (map snd (collect_presets digest st [] (stateListenerRefs st)))"

section \<open>The layout check is pairwise\<close>

definition socket_claims :: "string \<Rightarrow> endpoint \<Rightarrow> socket set" where
  "socket_claims agent e =
     (case listenerSocketClaims agent e of Inl _ \<Rightarrow> {} | Inr claims \<Rightarrow> set claims)"

abbreviation ref_claims :: "state \<Rightarrow> listener_ref \<Rightarrow> socket set" where
  "ref_claims st r \<equiv> socket_claims (ref_agent r) (ref_endpoint st r)"

definition layout_ok :: "state \<Rightarrow> bool" where
  "layout_ok st \<longleftrightarrow>
     (\<forall>r \<in> set (stateListenerRefs st). is_ok (listenerSocketClaims (ref_agent r) (ref_endpoint st r))) \<and>
     (\<forall>r \<in> set (stateListenerRefs st). \<forall>q \<in> set (stateListenerRefs st).
        \<forall>c \<in> ref_claims st r. c \<in> ref_claims st q \<longrightarrow> ref_key st r = ref_key st q)"

lemma claim_sockets_Inr:
  "claim_sockets key m cs = Inr m' \<longleftrightarrow>
     (\<forall>c \<in> set cs. m c = None \<or> m c = Some key) \<and> m' = (\<lambda>c. if c \<in> set cs then Some key else m c)"
proof (induction cs arbitrary: m)
  case Nil
  then show ?case by (auto simp: claim_sockets_def)
next
  case (Cons c cs)
  then show ?case
    by (auto simp: claim_sockets_def fun_eq_iff split: option.splits)
qed

abbreviation layout_step ::
  "state \<Rightarrow> (socket \<rightharpoonup> listener_key) \<Rightarrow> listener_ref \<Rightarrow> (socket \<rightharpoonup> listener_key) res" where
  "layout_step st sockets r \<equiv>
     bindE (listenerSocketClaims (ref_agent r) (ref_endpoint st r)) (\<lambda>claims.
       claim_sockets (ref_key st r) sockets claims)"

lemma layout_step_Inr:
  "layout_step st m r = Inr m' \<longleftrightarrow>
     is_ok (listenerSocketClaims (ref_agent r) (ref_endpoint st r)) \<and>
     (\<forall>c \<in> ref_claims st r. m c = None \<or> m c = Some (ref_key st r)) \<and>
     m' = (\<lambda>c. if c \<in> ref_claims st r then Some (ref_key st r) else m c)"
  by (cases "listenerSocketClaims (ref_agent r) (ref_endpoint st r)")
    (auto simp: socket_claims_def claim_sockets_Inr)

lemma claims_fold:
  assumes step: "\<And>m r m'. step m r = Inr m' \<longleftrightarrow> good r \<and>
      (\<forall>c \<in> cl r. m c = None \<or> m c = Some (key r)) \<and> m' = (\<lambda>c. if c \<in> cl r then Some (key r) else m c)"
  shows "(\<exists>m'. foldE step m rs = Inr m') \<longleftrightarrow>
     (\<forall>r \<in> set rs. good r) \<and>
     (\<forall>r \<in> set rs. \<forall>c \<in> cl r. m c = None \<or> m c = Some (key r)) \<and>
     (\<forall>r \<in> set rs. \<forall>q \<in> set rs. \<forall>c \<in> cl r. c \<in> cl q \<longrightarrow> key r = key q)"
proof (induction rs arbitrary: m)
  case Nil
  then show ?case by simp
next
  case (Cons r rs)
  let ?t = "\<lambda>c. if c \<in> cl r then Some (key r) else m c"
  have new: "(\<forall>q \<in> set rs. \<forall>c \<in> cl q. ?t c = None \<or> ?t c = Some (key q)) \<longleftrightarrow>
      (\<forall>q \<in> set rs. \<forall>c \<in> cl q. (c \<in> cl r \<longrightarrow> key r = key q) \<and>
         (c \<notin> cl r \<longrightarrow> m c = None \<or> m c = Some (key q)))"
    by auto
  have "(\<exists>m'. foldE step m (r # rs) = Inr m') \<longleftrightarrow> good r \<and>
      (\<forall>c \<in> cl r. m c = None \<or> m c = Some (key r)) \<and> (\<exists>m'. foldE step ?t rs = Inr m')"
    by (simp add: bindE_Inr_iff step)
  then show ?case unfolding Cons.IH new by (simp add: ball_Un) (rule iffI; force)
qed

lemma layout_fold:
  "(\<exists>m'. foldE (layout_step st) m rs = Inr m') \<longleftrightarrow>
     (\<forall>r \<in> set rs. is_ok (listenerSocketClaims (ref_agent r) (ref_endpoint st r))) \<and>
     (\<forall>r \<in> set rs. \<forall>c \<in> ref_claims st r. m c = None \<or> m c = Some (ref_key st r)) \<and>
     (\<forall>r \<in> set rs. \<forall>q \<in> set rs. \<forall>c \<in> ref_claims st r. c \<in> ref_claims st q \<longrightarrow>
        ref_key st r = ref_key st q)"
  by (rule claims_fold) (rule layout_step_Inr)

lemma validateListenerLayout_iff: "validateListenerLayout st = Inr () \<longleftrightarrow> layout_ok st"
  using layout_fold [of st Map.empty "stateListenerRefs st"]
  unfolding validateListenerLayout_def layout_ok_def by (simp add: bindE_Inr_iff)

section \<open>Slots\<close>

fun slot_ok :: "state \<Rightarrow> slot \<Rightarrow> bool" where
  "slot_ok st (EntranceSlot i) \<longleftrightarrow> i < length (st_ProxyNodes st)"
| "slot_ok st (LinkSlot i j) \<longleftrightarrow>
     i < length (st_ProxyNodes st) \<and> j < length (pn_Links (st_ProxyNodes st ! i))"

lemma update_node_simps [simp]:
  "length (st_ProxyNodes (update_node i f st)) = length (st_ProxyNodes st)"
  "k < length (st_ProxyNodes st) \<Longrightarrow> st_ProxyNodes (update_node i f st) ! k =
     (if i = k then f (st_ProxyNodes st ! k) else st_ProxyNodes st ! k)"
  by (simp_all add: update_node_def nth_update_at)

lemma slot_endpoint_set_slot:
  "slot_ok st s \<Longrightarrow> slot_ok st t \<Longrightarrow>
     slot_endpoint (set_slot s e st) t = (if s = t then e else slot_endpoint st t)"
  by (cases s; cases t) (auto simp: nth_update_at)

lemma slot_ok_set_slot [simp]: "slot_ok (set_slot s e st) t = slot_ok st t"
  by (cases s; cases t) (auto simp: update_node_def nth_update_at split: if_splits)

lemma refs_slot_ok: "r \<in> set (stateListenerRefs st) \<Longrightarrow> slot_ok st (ref_slot r)"
  by (auto simp: stateListenerRefs_def node_listener_refs_def set_enumerated Let_def split: if_splits)

lemma applyListenerSecrets_keeps [simp]:
  "ep_Protocol (applyListenerSecrets e s) = ep_Protocol e"
  "ep_Method (applyListenerSecrets e s) = ep_Method e"
  "ep_Multiplex (applyListenerSecrets e s) = ep_Multiplex e"
  "ep_Family (applyListenerSecrets e s) = ep_Family e"
  "ep_TLS (applyListenerSecrets e s) = ep_TLS e"
  "ep_ObfsType (applyListenerSecrets e s) = ep_ObfsType e"
  "ep_Listen (applyListenerSecrets e s) = ep_Listen e"
  "ep_ListenPort (applyListenerSecrets e s) = ep_ListenPort e"
  "ep_UpMbps (applyListenerSecrets e s) = ep_UpMbps e"
  "ep_DownMbps (applyListenerSecrets e s) = ep_DownMbps e"
  by (simp_all add: applyListenerSecrets_def split: protocol.split)

lemma listenerKeys_applyListenerSecrets [simp]:
  "listenerKeys a (applyListenerSecrets e s) = listenerKeys a e"
  by (simp add: listenerKeys_def listener_socket_def)

lemma applyListenerSecrets_idem [simp]:
  "applyListenerSecrets (applyListenerSecrets e s) t = applyListenerSecrets e t"
  by (cases "ep_Protocol e") (simp_all add: applyListenerSecrets_def)

lemma applyListenerSecrets_self [simp]: "applyListenerSecrets e (endpointListenerSecrets e) = e"
  by (cases "ep_Protocol e") (simp_all add: applyListenerSecrets_def endpointListenerSecrets_def)

section \<open>What reconciliation computes\<close>

text \<open>The secrets of the first reference with a given key, and the secrets reconciliation chooses.\<close>

definition first_secrets :: "state \<Rightarrow> listener_ref list \<Rightarrow> listener_key \<rightharpoonup> listener_secrets" where
  "first_secrets st rs k =
     map_option (\<lambda>r. endpointListenerSecrets (ref_endpoint st r)) (find (\<lambda>r. ref_key st r = k) rs)"

definition canonical_secrets :: "state \<Rightarrow> state option \<Rightarrow> listener_key \<Rightarrow> listener_secrets" where
  "canonical_secrets st previous k =
     (case (case previous of None \<Rightarrow> None | Some p \<Rightarrow> first_secrets p (stateListenerRefs p) k) of
        Some s \<Rightarrow> s
      | None \<Rightarrow> the (first_secrets st (stateListenerRefs st) k))"

lemma preferred_secrets_eq:
  "preferred_secrets st m rs k = (case m k of Some s \<Rightarrow> Some s | None \<Rightarrow> first_secrets st rs k)"
proof (induction rs arbitrary: m)
  case Nil
  then show ?case by (simp add: first_secrets_def split: option.split)
next
  case (Cons r rs)
  show ?case
    by (simp add: Cons.IH) (auto simp: first_secrets_def split: option.splits)
qed

definition pick_secrets ::
  "(listener_key \<rightharpoonup> listener_secrets) \<Rightarrow> (listener_key \<rightharpoonup> listener_secrets) \<Rightarrow> state
    \<Rightarrow> listener_ref list \<Rightarrow> listener_key \<Rightarrow> listener_secrets" where
  "pick_secrets preferred selected st rs k =
     (case selected k of Some s \<Rightarrow> s
      | None \<Rightarrow> (case preferred k of Some s \<Rightarrow> s | None \<Rightarrow> the (first_secrets st rs k)))"

lemma find_cong_set: "(\<And>x. x \<in> set xs \<Longrightarrow> P x = Q x) \<Longrightarrow> find P xs = find Q xs"
  by (induction xs) auto

lemma find_SomeD: "find P xs = Some x \<Longrightarrow> x \<in> set xs" "find P xs = Some x \<Longrightarrow> P x"
  by (induction xs) (auto split: if_splits)

lemma reconcile_refs_endpoint:
  assumes "distinct (map ref_slot rs)" "\<forall>r \<in> set rs. slot_ok st (ref_slot r)"
    and "reconcile_refs preferred selected changed st rs = (st', changed')"
  shows "(\<forall>r \<in> set rs. ref_endpoint st' r =
           applyListenerSecrets (ref_endpoint st r) (pick_secrets preferred selected st rs (ref_key st r))) \<and>
         (\<forall>t. slot_ok st t \<longrightarrow> t \<notin> ref_slot ` set rs \<longrightarrow> slot_endpoint st' t = slot_endpoint st t)"
  using assms
proof (induction rs arbitrary: selected changed st)
  case Nil
  then show ?case by simp
next
  case (Cons r rs)
  define s where "s = pick_secrets preferred selected st (r # rs) (ref_key st r)"
  define sel where "sel = selected(ref_key st r \<mapsto> s)"
  define st1 where "st1 = set_slot (ref_slot r) (applyListenerSecrets (ref_endpoint st r) s) st"
  have first: "first_secrets st (r # rs) (ref_key st r) = Some (endpointListenerSecrets (ref_endpoint st r))"
    by (simp add: first_secrets_def)
  obtain c where run: "reconcile_refs preferred sel c st1 rs = (st', changed')"
  proof (cases "selected (ref_key st r)")
    case None
    with Cons.prems(3) first that show ?thesis
      by (auto simp: s_def sel_def st1_def Let_def pick_secrets_def split: option.splits)
  next
    case (Some t)
    then have "sel = selected" by (auto simp: sel_def s_def pick_secrets_def)
    with Some Cons.prems(3) that show ?thesis by (auto simp: s_def st1_def Let_def pick_secrets_def)
  qed
  have ep: "slot_endpoint st1 t = (if t = ref_slot r then applyListenerSecrets (ref_endpoint st r) s
      else slot_endpoint st t)" if "slot_ok st t" for t
    using that Cons.prems(2) by (simp add: st1_def slot_endpoint_set_slot)
  have other: "ref_endpoint st1 q = ref_endpoint st q" if "q \<in> set rs" for q
  proof -
    have "ref_slot q \<noteq> ref_slot r" using that Cons.prems(1) by (auto simp: image_iff)
    then show ?thesis using that Cons.prems(2) by (simp add: ep)
  qed
  have "first_secrets st1 rs k = first_secrets st rs k" for k
  proof -
    have "find (\<lambda>r. ref_key st1 r = k) rs = find (\<lambda>r. ref_key st r = k) rs"
      by (rule find_cong_set) (simp add: other)
    then show ?thesis
      unfolding first_secrets_def
      by (cases "find (\<lambda>r. ref_key st r = k) rs") (simp_all add: find_SomeD(1) other)
  qed
  then have pick: "pick_secrets preferred sel st1 rs k = pick_secrets preferred selected st (r # rs) k" for k
    using first by (auto simp: sel_def s_def pick_secrets_def first_secrets_def split: option.splits)
  have rest: "(\<forall>q \<in> set rs. ref_endpoint st' q =
           applyListenerSecrets (ref_endpoint st1 q) (pick_secrets preferred sel st1 rs (ref_key st1 q))) \<and>
         (\<forall>t. slot_ok st1 t \<longrightarrow> t \<notin> ref_slot ` set rs \<longrightarrow> slot_endpoint st' t = slot_endpoint st1 t)"
    by (rule Cons.IH [OF _ _ run]) (use Cons.prems in \<open>simp_all add: st1_def\<close>)
  have "ref_slot r \<notin> ref_slot ` set rs" using Cons.prems(1) by simp
  moreover have "slot_ok st1 (ref_slot r)" using Cons.prems(2) by (simp add: st1_def)
  ultimately have "ref_endpoint st' r = applyListenerSecrets (ref_endpoint st r) s"
    using rest ep Cons.prems(2) by simp
  moreover have "ref_endpoint st' q = applyListenerSecrets (ref_endpoint st q)
      (pick_secrets preferred selected st (r # rs) (ref_key st q))" if "q \<in> set rs" for q
    using rest other [OF that] that unfolding pick by simp
  moreover have "slot_endpoint st' t = slot_endpoint st t"
    if "slot_ok st t" "t \<notin> ref_slot ` set (r # rs)" for t
  proof -
    have "slot_ok st1 t" using that(1) by (simp add: st1_def)
    then show ?thesis using rest that by (simp add: ep)
  qed
  ultimately show ?case unfolding s_def by simp
qed

lemma distinct_concat_tagged:
  assumes "\<And>i x. distinct (map k (F i x))" and "\<And>i x y. y \<in> set (F i x) \<Longrightarrow> tag (k y) = i"
  shows "distinct (map k (concat (map (\<lambda>(i, x). F i x) (zip [a..<b] xs)))) \<and>
    (\<forall>y \<in> set (concat (map (\<lambda>(i, x). F i x) (zip [a..<b] xs))). (a::nat) \<le> tag (k y))"
proof (induction xs arbitrary: a)
  case Nil
  then show ?case by simp
next
  case (Cons x xs)
  show ?case
  proof (cases "a < b")
    case False
    then show ?thesis by simp
  next
    case True
    let ?rest = "concat (map (\<lambda>(i, x). F i x) (zip [Suc a..<b] xs))"
    from Cons.IH [of "Suc a"] have rest: "distinct (map k ?rest)" "\<And>y. y \<in> set ?rest \<Longrightarrow> Suc a \<le> tag (k y)"
      by blast+
    have split: "concat (map (\<lambda>(i, x). F i x) (zip [a..<b] (x # xs))) = F a x @ ?rest"
      using True by (simp add: upt_conv_Cons)
    have "k ` set (F a x) \<inter> k ` set ?rest = {}"
    proof (intro equals0I)
      fix z
      assume "z \<in> k ` set (F a x) \<inter> k ` set ?rest"
      then obtain y y' where "y \<in> set (F a x)" "y' \<in> set ?rest" "k y = k y'" by blast
      with assms(2) rest(2) show False by (metis Suc_n_not_le_n)
    qed
    moreover have "a \<le> tag (k y)" if "y \<in> set (F a x) \<union> set ?rest" for y
      using that assms(2) rest(2) by (metis Suc_leD Un_iff order_refl)
    ultimately show ?thesis
      unfolding split map_append distinct_append set_map set_append using assms(1) rest(1) by blast
  qed
qed

fun slot_node :: "slot \<Rightarrow> nat" where
  "slot_node (EntranceSlot i) = i"
| "slot_node (LinkSlot i j) = i"

fun slot_link :: "slot \<Rightarrow> nat" where
  "slot_link (EntranceSlot i) = 0"
| "slot_link (LinkSlot i j) = j"

lemma node_listener_refs_distinct: "distinct (map ref_slot (node_listener_refs i n))"
proof -
  let ?F = "\<lambda>j l. if hop_agent n (lnk_ChildHopID l) \<noteq> []
     then [\<lparr>ref_agent = hop_agent n (lnk_ChildHopID l), ref_slot = LinkSlot i j\<rparr>] else []"
  have "distinct (map ref_slot (concat (map (\<lambda>(j, l). ?F j l) (enumerated (pn_Links n)))))"
    unfolding enumerated_def
    by (rule distinct_concat_tagged [where tag = slot_link, THEN conjunct1]) (auto split: if_splits)
  moreover have "EntranceSlot i \<notin> ref_slot ` set (concat (map (\<lambda>(j, l). ?F j l) (enumerated (pn_Links n))))"
    by (auto split: if_splits)
  ultimately show ?thesis by (simp add: node_listener_refs_def Let_def)
qed

lemma node_listener_refs_slot: "r \<in> set (node_listener_refs i n) \<Longrightarrow> slot_node (ref_slot r) = i"
  by (auto simp: node_listener_refs_def Let_def split: if_splits)

lemma refs_distinct: "distinct (map ref_slot (stateListenerRefs st))"
  unfolding stateListenerRefs_def enumerated_def
  by (rule distinct_concat_tagged [where tag = slot_node, THEN conjunct1])
    (simp_all add: node_listener_refs_distinct node_listener_refs_slot)

lemma refs_slot_inj:
  "r \<in> set (stateListenerRefs st) \<Longrightarrow> q \<in> set (stateListenerRefs st) \<Longrightarrow> ref_slot r = ref_slot q \<Longrightarrow> r = q"
  using refs_distinct [of st] by (auto simp: distinct_map dest: inj_onD)

lemma map_update_at: "map f (update_at i g xs) = update_at i (\<lambda>y. f (g (xs ! i))) (map f xs)"
  by (simp add: update_at_def map_update)

text \<open>Writing an endpoint through a slot changes no Hop and no edge of the graph.\<close>

definition graph_of :: "proxy_node \<Rightarrow> (string \<times> string) list \<times> string \<times> (string \<times> string) list" where
  "graph_of n = (map (\<lambda>h. (hop_ID h, hop_AgentID h)) (pn_Hops n), ent_HopID (pn_Entrance n),
     map (\<lambda>l. (lnk_ParentHopID l, lnk_ChildHopID l)) (pn_Links n))"

lemma fill_map_cong: "map (\<lambda>x. (k x, v x)) xs = map (\<lambda>x. (k x, v x)) ys \<Longrightarrow> fill_map k v m xs = fill_map k v m ys"
proof (induction xs arbitrary: ys m)
  case (Cons x xs)
  then obtain y zs where ys: "ys = y # zs" by (cases ys) simp_all
  have "k x = k y" "v x = v y" "map (\<lambda>x. (k x, v x)) xs = map (\<lambda>x. (k x, v x)) zs"
    using Cons.prems unfolding ys by simp_all
  then show ?case unfolding ys fill_map.simps by (simp only: Cons.IH)
qed simp

lemma hop_agent_graph:
  assumes "graph_of n = graph_of n'"
  shows "hop_agent n h = hop_agent n' h"
proof -
  have "map (\<lambda>h. (hop_ID h, hop_AgentID h)) (pn_Hops n) = map (\<lambda>h. (hop_ID h, hop_AgentID h)) (pn_Hops n')"
    using assms by (simp add: graph_of_def)
  then have "hop_agents n = hop_agents n'" unfolding hop_agents_def by (rule fill_map_cong)
  then show ?thesis by (simp add: hop_agent_def)
qed

lemma map_enumerated_cong:
  assumes "map g xs = map h ys" and "\<And>i x y. g x = h y \<Longrightarrow> F i x = G i y"
  shows "map (\<lambda>(i, x). F i x) (enumerated xs) = map (\<lambda>(i, x). G i x) (enumerated ys)"
proof (rule nth_equalityI)
  have len: "length xs = length ys" using assms(1) by (metis length_map)
  then show "length (map (\<lambda>(i, x). F i x) (enumerated xs)) = length (map (\<lambda>(i, x). G i x) (enumerated ys))"
    by simp
  fix i
  assume "i < length (map (\<lambda>(i, x). F i x) (enumerated xs))"
  then have i: "i < length xs" by simp
  with len arg_cong [OF assms(1), of "\<lambda>l. l ! i"] have "g (xs ! i) = h (ys ! i)" by simp
  with assms(2) i len show "map (\<lambda>(i, x). F i x) (enumerated xs) ! i = map (\<lambda>(i, x). G i x) (enumerated ys) ! i"
    by (simp add: enumerated_def)
qed

lemma node_listener_refs_graph:
  assumes "graph_of n = graph_of n'"
  shows "node_listener_refs i n = node_listener_refs i n'"
proof -
  have "map lnk_ChildHopID (pn_Links n) = map snd (snd (snd (graph_of n)))" for n
    by (simp add: graph_of_def)
  then have ch: "map lnk_ChildHopID (pn_Links n) = map lnk_ChildHopID (pn_Links n')" by (simp add: assms)
  have "map (\<lambda>(j, l). let agent = hop_agent n (lnk_ChildHopID l) in
      if agent \<noteq> [] then [\<lparr>ref_agent = agent, ref_slot = LinkSlot i j\<rparr>] else []) (enumerated (pn_Links n))
    = map (\<lambda>(j, l). let agent = hop_agent n' (lnk_ChildHopID l) in
      if agent \<noteq> [] then [\<lparr>ref_agent = agent, ref_slot = LinkSlot i j\<rparr>] else []) (enumerated (pn_Links n'))"
    by (rule map_enumerated_cong [OF ch]) (simp add: hop_agent_graph [OF assms])
  moreover have "ent_HopID (pn_Entrance n) = ent_HopID (pn_Entrance n')"
    using assms by (simp add: graph_of_def)
  ultimately show ?thesis
    unfolding node_listener_refs_def by (simp only: hop_agent_graph [OF assms])
qed

lemma stateListenerRefs_graph:
  assumes "map graph_of (st_ProxyNodes st) = map graph_of (st_ProxyNodes st')"
  shows "stateListenerRefs st = stateListenerRefs st'"
  unfolding stateListenerRefs_def
  by (rule arg_cong [where f = concat], rule map_enumerated_cong [OF assms])
    (rule node_listener_refs_graph)

text \<open>A Proxy Node without the secrets reconciliation may write.\<close>

definition bare_endpoint :: "endpoint \<Rightarrow> endpoint" where
  "bare_endpoint e = e\<lparr>ep_ServerKey := [], ep_ObfsSecret := []\<rparr>"

definition bare_link :: "link \<Rightarrow> link" where
  "bare_link l = l\<lparr>lnk_Endpoint := bare_endpoint (lnk_Endpoint l)\<rparr>"

definition bare_node :: "proxy_node \<Rightarrow> proxy_node" where
  "bare_node n = n\<lparr>pn_Entrance := (pn_Entrance n)\<lparr>ent_Endpoint := bare_endpoint (ent_Endpoint (pn_Entrance n))\<rparr>,
     pn_Links := map bare_link (pn_Links n)\<rparr>"

lemma bare_applyListenerSecrets [simp]: "bare_endpoint (applyListenerSecrets e s) = bare_endpoint e"
  by (simp add: bare_endpoint_def applyListenerSecrets_def split: protocol.split)

lemma bare_node_set_slot:
  assumes "slot_ok st s" "bare_endpoint e = bare_endpoint (slot_endpoint st s)"
  shows "map bare_node (st_ProxyNodes (set_slot s e st)) = map bare_node (st_ProxyNodes st)"
proof (cases s)
  case (EntranceSlot i)
  with assms show ?thesis
    by (intro nth_equalityI) (auto simp: bare_node_def)
next
  case (LinkSlot i j)
  have "map bare_link (update_at j (\<lambda>l. l\<lparr>lnk_Endpoint := e\<rparr>) ls) = map bare_link ls"
    if "bare_endpoint e = bare_endpoint (lnk_Endpoint (ls ! j))" for ls
    using that by (intro nth_equalityI) (auto simp: nth_update_at bare_link_def)
  with LinkSlot assms show ?thesis
    by (intro nth_equalityI) (auto simp: bare_node_def)
qed

lemma set_slot_state: "\<exists>ns. set_slot s e st = st\<lparr>st_ProxyNodes := ns\<rparr>"
  by (cases s) (auto simp: update_node_def)

lemma reconcile_refs_bare:
  "(\<forall>r \<in> set rs. slot_ok st (ref_slot r)) \<Longrightarrow>
   reconcile_refs preferred selected changed st rs = (st', changed') \<Longrightarrow>
     map bare_node (st_ProxyNodes st') = map bare_node (st_ProxyNodes st) \<and>
     (\<exists>ns. st' = st\<lparr>st_ProxyNodes := ns\<rparr>)"
proof (induction rs arbitrary: selected changed st)
  case Nil
  then show ?case by (auto intro: exI [of _ "st_ProxyNodes st"])
next
  case (Cons r rs)
  then obtain sel c s where run: "reconcile_refs preferred sel c
      (set_slot (ref_slot r) (applyListenerSecrets (ref_endpoint st r) s) st) rs = (st', changed')"
    by (auto simp: Let_def split: option.splits)
  obtain ns where ns: "set_slot (ref_slot r) (applyListenerSecrets (ref_endpoint st r) s) st = st\<lparr>st_ProxyNodes := ns\<rparr>"
    using set_slot_state by blast
  let ?st1 = "set_slot (ref_slot r) (applyListenerSecrets (ref_endpoint st r) s) st"
  have "\<forall>r \<in> set rs. slot_ok ?st1 (ref_slot r)" using Cons.prems(1) by simp
  from Cons.IH [OF this run] have
    "map bare_node (st_ProxyNodes st') = map bare_node (st_ProxyNodes ?st1)"
    "\<exists>ms. st' = ?st1\<lparr>st_ProxyNodes := ms\<rparr>" by blast+
  moreover have "map bare_node (st_ProxyNodes ?st1) = map bare_node (st_ProxyNodes st)"
    using Cons.prems(1) by (intro bare_node_set_slot) simp_all
  ultimately show ?case by (auto simp: ns)
qed

lemma bare_graph: "map bare_node ns = map bare_node ns' \<Longrightarrow> map graph_of ns = map graph_of ns'"
proof -
  assume eq: "map bare_node ns = map bare_node ns'"
  have "graph_of n = graph_of (bare_node n)" for n
    by (simp add: graph_of_def bare_node_def bare_link_def)
  then have "graph_of = graph_of \<circ> bare_node" by (simp add: fun_eq_iff)
  then have "map graph_of xs = map graph_of (map bare_node xs)" for xs by (metis map_map)
  with eq show ?thesis by metis
qed

theorem reconcile_result:
  assumes "reconcileSharedListenerSecrets st previous = (st', changed)"
  shows "stateListenerRefs st' = stateListenerRefs st"
    and "\<And>r. r \<in> set (stateListenerRefs st) \<Longrightarrow> ref_endpoint st' r =
           applyListenerSecrets (ref_endpoint st r) (canonical_secrets st previous (ref_key st r))"
    and "map bare_node (st_ProxyNodes st') = map bare_node (st_ProxyNodes st)"
    and "\<exists>ns. st' = st\<lparr>st_ProxyNodes := ns\<rparr>"
proof -
  obtain preferred where run: "reconcile_refs preferred Map.empty False st (stateListenerRefs st) = (st', changed)"
    and p: "preferred = (case previous of None \<Rightarrow> Map.empty
       | Some p \<Rightarrow> preferred_secrets p Map.empty (stateListenerRefs p))"
    using assms by (simp add: reconcileSharedListenerSecrets_def Let_def)
  have all_ok: "\<forall>r \<in> set (stateListenerRefs st). slot_ok st (ref_slot r)" using refs_slot_ok by blast
  from reconcile_refs_bare [OF all_ok run]
  show bare: "map bare_node (st_ProxyNodes st') = map bare_node (st_ProxyNodes st)"
    and "\<exists>ns. st' = st\<lparr>st_ProxyNodes := ns\<rparr>" by blast+
  show "stateListenerRefs st' = stateListenerRefs st"
    using bare by (intro stateListenerRefs_graph bare_graph)
  fix r
  assume r: "r \<in> set (stateListenerRefs st)"
  have "pick_secrets preferred Map.empty st (stateListenerRefs st) k = canonical_secrets st previous k" for k
    unfolding pick_secrets_def canonical_secrets_def p
    by (cases previous) (simp_all add: preferred_secrets_eq)
  with reconcile_refs_endpoint [OF refs_distinct all_ok run] r
  show "ref_endpoint st' r = applyListenerSecrets (ref_endpoint st r) (canonical_secrets st previous (ref_key st r))"
    by simp
qed

end
