(* ===== verification/Routing.thy ===== *)
theory Routing
  imports Listeners
begin

text \<open>
  The tree and priority helpers of \<open>store.go\<close> and \<open>topology.go\<close>: which Hops hang below a
  Hop, which Agents a branch has already passed, the order of sibling Links and of the Rules of a
  Hop, and the copy of a whole branch.

  A pointer into a slice is an index; a sort is the stable \<open>sort_key\<close>. The two search loops
  and the recursive copy get a termination proof.
\<close>

section \<open>Descendants and ancestors\<close>

text \<open>One sweep of \<open>descendantHops\<close> over the Links; the flag is \<open>changed\<close>.\<close>

fun descend_pass :: "link list \<Rightarrow> string set \<times> bool \<Rightarrow> string set \<times> bool" where
  "descend_pass [] acc = acc"
| "descend_pass (l # ls) (found, changed) =
     descend_pass ls
       (if lnk_ParentHopID l \<in> found \<and> lnk_ChildHopID l \<notin> found
        then (insert (lnk_ChildHopID l) found, True) else (found, changed))"

lemma descend_pass_facts:
  "descend_pass ls (found, c) = (found', c') \<Longrightarrow>
     found \<subseteq> found' \<and> found' \<subseteq> found \<union> lnk_ChildHopID ` set ls \<and> (c \<longrightarrow> c') \<and>
     (c' \<longrightarrow> c \<or> (\<exists>x \<in> lnk_ChildHopID ` set ls. x \<in> found' \<and> x \<notin> found))"
proof (induction ls arbitrary: found c)
  case Nil
  then show ?case by simp
next
  case (Cons l ls)
  show ?case
  proof (cases "lnk_ParentHopID l \<in> found \<and> lnk_ChildHopID l \<notin> found")
    case True
    with Cons.prems have "descend_pass ls (insert (lnk_ChildHopID l) found, True) = (found', c')" by simp
    from Cons.IH [OF this] True show ?thesis by auto
  next
    case False
    with Cons.prems have "descend_pass ls (found, c) = (found', c')" by simp
    from Cons.IH [OF this] show ?thesis by auto
  qed
qed

function descend :: "link list \<Rightarrow> string set \<Rightarrow> string set" where
  "descend ls found =
     (let (found', changed) = descend_pass ls (found, False)
      in if changed then descend ls found' else found')"
  by auto
termination
proof (relation "measure (\<lambda>(ls, found). card (lnk_ChildHopID ` set ls - found))", goal_cases)
  case 1
  show ?case by simp
next
  case (2 ls found p found' changed)
  then have "descend_pass ls (found, False) = (found', True)" by simp
  from descend_pass_facts [OF this] have
    "lnk_ChildHopID ` set ls - found' \<subset> lnk_ChildHopID ` set ls - found" by blast
  then show ?case by (simp add: psubset_card_mono)
qed

declare descend.simps [simp del]

definition descendantHops :: "proxy_node \<Rightarrow> string \<Rightarrow> string set" where
  "descendantHops node root = descend (pn_Links node) {root}"

function ancestor_agents ::
  "hop list \<Rightarrow> (string \<rightharpoonup> string) \<Rightarrow> (string \<rightharpoonup> string) \<Rightarrow> string set \<Rightarrow> string \<Rightarrow> string set" where
  "ancestor_agents hops agents parents visited current =
     (if current = [] \<or> current \<in> visited then {}
      else if current \<notin> hop_ID ` set hops then {}
      else case agents current of
             None \<Rightarrow> {}
           | Some a \<Rightarrow> insert a (ancestor_agents hops agents parents (insert current visited)
               (case parents current of None \<Rightarrow> [] | Some p \<Rightarrow> p)))"
  by auto
termination
proof (relation "measure (\<lambda>(hops, agents, parents, visited, current).
    card (hop_ID ` set hops - visited))", goal_cases)
  case 1
  show ?case by simp
next
  case (2 hops agents parents visited current a)
  then have "hop_ID ` set hops - insert current visited \<subset> hop_ID ` set hops - visited" by blast
  then show ?case by (simp add: psubset_card_mono)
qed

declare ancestor_agents.simps [simp del]

text \<open>The key set of the result of \<open>AncestorAgentIDs\<close>.\<close>

definition AncestorAgentIDs :: "proxy_node \<Rightarrow> string \<Rightarrow> string set" where
  "AncestorAgentIDs node h =
     ancestor_agents (pn_Hops node) (hop_agents node)
       (fill_map lnk_ChildHopID lnk_ParentHopID Map.empty (pn_Links node)) {} h"

section \<open>The order of sibling Links\<close>

definition orderedSiblingLinkIndexes :: "link list \<Rightarrow> string \<Rightarrow> nat list" where
  "orderedSiblingLinkIndexes links parent =
     sort_key (\<lambda>i. lnk_Order (links ! i))
       (filter (\<lambda>i. lnk_ParentHopID (links ! i) = parent) [0..<length links])"

definition set_link_orders :: "nat list \<Rightarrow> link list \<Rightarrow> link list" where
  "set_link_orders indexes links =
     fold (\<lambda>(order, i). update_at i (\<lambda>l. l\<lparr>lnk_Order := int order\<rparr>)) (enumerated indexes) links"

definition normalize_siblings :: "string \<Rightarrow> link list \<Rightarrow> link list" where
  "normalize_siblings parent links =
     set_link_orders
       (sort_key (\<lambda>i. (lnk_Fallback (links ! i), lnk_Order (links ! i)))
         (orderedSiblingLinkIndexes links parent)) links"

definition normalizeLinkOrders :: "proxy_node \<Rightarrow> proxy_node" where
  "normalizeLinkOrders node =
     node\<lparr>pn_Links := fold (\<lambda>h. normalize_siblings (hop_ID h)) (pn_Hops node) (pn_Links node)\<rparr>"

section \<open>The order of Rules\<close>

datatype rule_place = LinkRule nat nat | BlockRule nat

record ordered_rule =
  or_place :: rule_place
  or_rule :: rule

definition unordered_rules :: "link list \<Rightarrow> block_branch list \<Rightarrow> string \<Rightarrow> ordered_rule list" where
  "unordered_rules links blocks h =
     concat (map (\<lambda>(i, l). if lnk_ParentHopID l \<noteq> h then []
        else map (\<lambda>(j, r). \<lparr>or_place = LinkRule i j, or_rule = r\<rparr>) (enumerated (lnk_Rules l)))
       (enumerated links))
     @ concat (map (\<lambda>(i, b). if blk_ParentHopID b \<noteq> h then []
        else [\<lparr>or_place = BlockRule i, or_rule = blk_Rule b\<rparr>]) (enumerated blocks))"

definition orderedRulesForHop :: "proxy_node \<Rightarrow> string \<Rightarrow> ordered_rule list" where
  "orderedRulesForHop node h =
     sort_key (\<lambda>e. rul_Order (or_rule e)) (unordered_rules (pn_Links node) (pn_BlockBranches node) h)"

fun set_rule_order :: "nat \<Rightarrow> rule_place \<Rightarrow> proxy_node \<Rightarrow> proxy_node" where
  "set_rule_order order (BlockRule i) node =
     node\<lparr>pn_BlockBranches := update_at i
        (\<lambda>b. b\<lparr>blk_Rule := (blk_Rule b)\<lparr>rul_Order := int order\<rparr>\<rparr>) (pn_BlockBranches node)\<rparr>"
| "set_rule_order order (LinkRule i j) node =
     node\<lparr>pn_Links := update_at i
        (\<lambda>l. l\<lparr>lnk_Rules := update_at j (\<lambda>r. r\<lparr>rul_Order := int order\<rparr>) (lnk_Rules l)\<rparr>) (pn_Links node)\<rparr>"

definition applyRuleOrder :: "ordered_rule list \<Rightarrow> proxy_node \<Rightarrow> proxy_node" where
  "applyRuleOrder ordered node =
     fold (\<lambda>(order, e). set_rule_order order (or_place e)) (enumerated ordered) node"

definition normalizeRuleOrders :: "proxy_node \<Rightarrow> proxy_node" where
  "normalizeRuleOrders node =
     fold (\<lambda>h node. applyRuleOrder (orderedRulesForHop node (hop_ID h)) node) (pn_Hops node) node"

definition ruleCountForHop :: "proxy_node \<Rightarrow> string \<Rightarrow> int" where
  "ruleCountForHop node h = int (length (orderedRulesForHop node h))"

fun normalize_values_from :: "string set \<Rightarrow> string list \<Rightarrow> string list" where
  "normalize_values_from seen [] = []"
| "normalize_values_from seen (v # vs) =
     (let v = trim_space v in
      if v = [] \<or> v \<in> seen then normalize_values_from seen vs
      else v # normalize_values_from (insert v seen) vs)"

definition normalizeValues :: "string list \<Rightarrow> string list" where
  "normalizeValues values = normalize_values_from {} values"

section \<open>Copying a branch\<close>

record branch_copy =
  bc_Hops :: "hop list"
  bc_Links :: "link list"
  bc_Blocks :: "block_branch list"

definition empty_copy :: branch_copy where
  "empty_copy = \<lparr>bc_Hops = [], bc_Links = [], bc_Blocks = []\<rparr>"

definition copy_rule :: "rule \<Rightarrow> entropy \<Rightarrow> (rule \<times> entropy) res" where
  "copy_rule r src = bindE (randomID ''rul'' src) (\<lambda>(uid, src). ok (r\<lparr>rul_ID := uid\<rparr>, src))"

definition copy_block :: "string \<Rightarrow> time \<Rightarrow> block_branch \<Rightarrow> entropy \<Rightarrow> (block_branch \<times> entropy) res" where
  "copy_block new_hop now b src =
     bindE (copy_rule (blk_Rule b) src) (\<lambda>(r, src).
       ok (b\<lparr>blk_ParentHopID := new_hop, blk_Rule := r, blk_CreatedAt := now, blk_UpdatedAt := now\<rparr>, src))"

definition copy_link ::
  "string \<Rightarrow> string \<Rightarrow> time \<Rightarrow> link \<Rightarrow> entropy \<Rightarrow> (link \<times> entropy) res" where
  "copy_link new_parent new_child now l src =
     bindE (randomID ''lnk'' src) (\<lambda>(uid, src).
     bindE (generateCredential (lnk_Endpoint l) src) (\<lambda>(c, src).
     bindE (traverseE copy_rule (lnk_Rules l) src) (\<lambda>(rules, src).
       ok (l\<lparr>lnk_ID := uid, lnk_ParentHopID := new_parent, lnk_ChildHopID := new_child,
             lnk_Credential := c, lnk_CreatedAt := now, lnk_UpdatedAt := now, lnk_Rules := rules\<rparr>, src))))"

text \<open>\<open>cloneHop\<close> and its loop over the Links below a Hop. \<open>active\<close> is the path to the Hop.\<close>

function clone_hop ::
  "proxy_node \<Rightarrow> time \<Rightarrow> string set \<Rightarrow> string \<Rightarrow> branch_copy \<times> entropy \<Rightarrow> (string \<times> branch_copy \<times> entropy) res"
and clone_links ::
  "proxy_node \<Rightarrow> time \<Rightarrow> string set \<Rightarrow> string \<Rightarrow> link list \<Rightarrow> branch_copy \<times> entropy \<Rightarrow> (branch_copy \<times> entropy) res"
where
  "clone_hop node now active old (copy, src) =
     (if length (bc_Hops copy) + length (bc_Links copy) + length (bc_Blocks copy) \<ge> 10000
      then fail (ErrInvalidState ''cloned topology exceeds entity limit'')
      else if old \<in> active then fail (ErrInvalidState ''cannot clone a cyclic topology'')
      else if old \<notin> hop_ID ` set (pn_Hops node)
      then fail (ErrInvalidState ''cloned Link references a missing Hop'')
      else case fill_map hop_ID (\<lambda>h. h) Map.empty (pn_Hops node) old of
        None \<Rightarrow> fail (ErrInvalidState ''cloned Link references a missing Hop'')
      | Some h \<Rightarrow>
          bindE (randomID ''hop'' src) (\<lambda>(uid, src).
          bindE (traverseE (copy_block uid now)
                  (filter (\<lambda>b. blk_ParentHopID b = old) (pn_BlockBranches node)) src) (\<lambda>(blocks, src).
          let copy = copy\<lparr>bc_Hops := bc_Hops copy @
                 [h\<lparr>hop_ID := uid, hop_LegacyRules := [], hop_CreatedAt := now, hop_UpdatedAt := now\<rparr>],
               bc_Blocks := bc_Blocks copy @ blocks\<rparr>
          in bindE (clone_links node now (insert old active) uid
                (sort_key lnk_Order (filter (\<lambda>l. lnk_ParentHopID l = old) (pn_Links node))) (copy, src))
              (\<lambda>(copy, src). ok (uid, copy, src)))))"
| "clone_links node now active new_hop [] (copy, src) = ok (copy, src)"
| "clone_links node now active new_hop (l # ls) (copy, src) =
     bindE (clone_hop node now active (lnk_ChildHopID l) (copy, src)) (\<lambda>(child, copy, src).
     bindE (copy_link new_hop child now l src) (\<lambda>(new, src).
       clone_links node now active new_hop ls (copy\<lparr>bc_Links := bc_Links copy @ [new]\<rparr>, src)))"
  by pat_completeness auto
termination
proof (relation "measures [
    case_sum (\<lambda>(node, now, active, old, st). card (hop_ID ` set (pn_Hops node) - active))
      (\<lambda>(node, now, active, new, ls, st). card (hop_ID ` set (pn_Hops node) - active)),
    case_sum (\<lambda>_. 0) (\<lambda>(node, now, active, new, ls, st). Suc (length ls))]", goal_cases)
  case (2 node now active old)
  then have "hop_ID ` set (pn_Hops node) - insert old active \<subset> hop_ID ` set (pn_Hops node) - active"
    by blast
  then show ?case by (simp add: psubset_card_mono)
qed auto

definition cloneLinkBranch ::
  "proxy_node \<Rightarrow> link \<Rightarrow> time \<Rightarrow> entropy \<Rightarrow> (link \<times> branch_copy \<times> entropy) res" where
  "cloneLinkBranch node root now src =
     bindE (clone_hop node now {} (lnk_ChildHopID root) (empty_copy, src)) (\<lambda>(child, copy, src).
     bindE (randomID ''lnk'' src) (\<lambda>(uid, src).
     bindE (generateCredential (lnk_Endpoint root) src) (\<lambda>(c, src).
       ok (root\<lparr>lnk_ID := uid, lnk_ChildHopID := child, lnk_Credential := c,
             lnk_CreatedAt := now, lnk_UpdatedAt := now\<rparr>, copy, src))))"

text \<open>Appending a copied branch to its Proxy Node.\<close>

definition append_branch :: "link \<Rightarrow> branch_copy \<Rightarrow> proxy_node \<Rightarrow> proxy_node" where
  "append_branch root copy node =
     node\<lparr>pn_Hops := pn_Hops node @ bc_Hops copy,
          pn_Links := pn_Links node @ [root] @ bc_Links copy,
          pn_BlockBranches := pn_BlockBranches node @ bc_Blocks copy\<rparr>"

end
