(* ===== verification/Ledger.thy ===== *)
theory Ledger
  imports Validation "HOL-Library.Product_Lexorder"
begin

text \<open>
  The accounting ledger of \<open>internal/proxynode/accounting_sql.go\<close>: the SQLite tables that hold
  per-Membership usage, the per-day history, the legacy counter baselines and the failure log.

  A table is a map from its primary key (or a list, where only the order of insertion matters)
  and each statement the code issues is the corresponding map operation. \<open>updated_at\<close> columns
  are never read and are left out; instants are stored in whole Unix seconds, as in the tables;
  \<open>usage_date\<close>, the text of a UTC+8 date, is the number of that day. Whether the database
  accepts a statement at all is a fault the Store injects (\<open>Store\<close>).
\<close>

section \<open>Counters\<close>

abbreviation MaxUint64 :: u64 where
  "MaxUint64 \<equiv> - 1"

definition saturatingAdd :: "u64 \<Rightarrow> u64 \<Rightarrow> u64" where
  "saturatingAdd left right = (if MaxUint64 - left < right then MaxUint64 else left + right)"

definition counterDelta :: "u64 \<Rightarrow> u64 \<Rightarrow> u64" where
  "counterDelta previous current = (if current \<ge> previous then current - previous else current)"

lemma saturatingAdd_unat: "unat (saturatingAdd a b) = min (unat a + unat b) (2 ^ 64 - 1)"
proof -
  have max: "unat MaxUint64 = 2 ^ 64 - 1" by (simp add: unsigned_minus_1_eq_mask mask_eq_exp_minus_1)
  have "a \<le> MaxUint64" by simp
  then have sub: "unat (MaxUint64 - a) = 2 ^ 64 - 1 - unat a" by (simp only: unat_sub max)
  have bound: "unat a \<le> 2 ^ 64 - 1" using unsigned_less [of a, where 'a = nat] by simp
  show ?thesis
  proof (cases "MaxUint64 - a < b")
    case True
    then have "2 ^ 64 - 1 - unat a < unat b" by (simp only: word_less_nat_alt sub)
    with True max show ?thesis by (simp add: saturatingAdd_def)
  next
    case False
    then have "unat b \<le> 2 ^ 64 - 1 - unat a" by (simp only: word_less_nat_alt sub not_less)
    with bound have le: "unat a + unat b \<le> 2 ^ 64 - 1" by linarith
    then have "unat a + unat b < 2 ^ LENGTH(64)" by simp
    then have "unat (a + b) = unat a + unat b" by (rule unat_add_lem [THEN iffD1])
    with False le show ?thesis by (simp add: saturatingAdd_def)
  qed
qed

section \<open>Tables\<close>

text \<open>Seconds since 1970-01-01 UTC and back.\<close>

definition unix_epoch :: time where
  "unix_epoch = 719162 * day"

definition unix_seconds :: "time \<Rightarrow> int" where
  "unix_seconds t = (t - unix_epoch) div second"

definition from_unix :: "int \<Rightarrow> time" where
  "from_unix s = unix_epoch + s * second"

record usage_row =
  row_UsedBytes :: u64
  row_PeriodStartedAt :: int
  row_ResetsAfter :: int

record observation_row =
  orow_Epoch :: string
  orow_UplinkBytes :: u64
  orow_DownlinkBytes :: u64
  orow_ObservedAt :: int

record failure_row =
  frow_AgentID :: string
  frow_Reason :: string
  frow_OccurredAt :: int

record ledger =
  led_version :: "int option"
  led_usage :: "(string \<times> usage_row) list"
  led_daily :: "(string \<times> int) \<rightharpoonup> u64"
  led_observations :: "((string \<times> string \<times> string) \<times> observation_row) list"
  led_failures :: "failure_row list"
  led_user_revision :: "u64 option"
  led_imported :: bool

definition empty_ledger :: ledger where
  "empty_ledger = \<lparr>led_version = None, led_usage = [], led_daily = Map.empty, led_observations = [], led_failures = [],
     led_user_revision = None, led_imported = False\<rparr>"

definition membership_row :: "membership \<Rightarrow> usage_row" where
  "membership_row m = \<lparr>row_UsedBytes = mem_UsedBytes m,
     row_PeriodStartedAt = unix_seconds (mem_QuotaPeriodStartedOn m),
     row_ResetsAfter = unix_seconds (mem_QuotaResetsAfter m)\<rparr>"

definition all_memberships :: "state \<Rightarrow> membership list" where
  "all_memberships st = concat (map pn_Memberships (st_ProxyNodes st))"

text \<open>\<open>INSERT \<dots> ON CONFLICT DO NOTHING\<close>, \<open>UPDATE \<dots> WHERE\<close>, \<open>INSERT \<dots> ON CONFLICT DO UPDATE\<close>
  and \<open>DELETE\<close> of the rows whose key fails a test, on the usage table.\<close>

definition insert_row :: "string \<Rightarrow> usage_row \<Rightarrow> (string \<times> usage_row) list \<Rightarrow> (string \<times> usage_row) list" where
  "insert_row k row rows = (if map_of rows k = None then rows @ [(k, row)] else rows)"

definition update_row :: "string \<Rightarrow> usage_row \<Rightarrow> (string \<times> usage_row) list \<Rightarrow> (string \<times> usage_row) list" where
  "update_row k row rows = map (\<lambda>(k', r). (k', if k' = k then row else r)) rows"

definition upsert_row :: "string \<Rightarrow> usage_row \<Rightarrow> (string \<times> usage_row) list \<Rightarrow> (string \<times> usage_row) list" where
  "upsert_row k row rows = (if map_of rows k = None then rows @ [(k, row)] else update_row k row rows)"

definition ensureAccountingMemberships :: "state \<Rightarrow> ledger \<Rightarrow> ledger" where
  "ensureAccountingMemberships st led =
     led\<lparr>led_usage := fold (\<lambda>m. insert_row (mem_ID m) (membership_row m)) (all_memberships st) (led_usage led)\<rparr>"

text \<open>Deleting a usage row deletes its daily rows (\<open>ON DELETE CASCADE\<close>).\<close>

definition pruneAccountingMemberships :: "state \<Rightarrow> ledger \<Rightarrow> ledger" where
  "pruneAccountingMemberships st led =
     (let live = set (map mem_ID (all_memberships st)) in
      led\<lparr>led_usage := filter (\<lambda>(k, r). k \<in> live) (led_usage led),
          led_daily := (\<lambda>(k, d). if map_of (led_usage led) k \<noteq> None \<and> k \<notin> live then None else led_daily led (k, d))\<rparr>)"

definition syncAccountingMembershipUsage :: "state \<Rightarrow> ledger \<Rightarrow> ledger" where
  "syncAccountingMembershipUsage st led =
     led\<lparr>led_usage := fold (\<lambda>m. update_row (mem_ID m) (membership_row m)) (all_memberships st) (led_usage led)\<rparr>"

definition setAccountingUserRevision :: "u64 \<Rightarrow> ledger \<Rightarrow> ledger" where
  "setAccountingUserRevision revision led =
     (case led_user_revision led of
        Some current \<Rightarrow> if current \<ge> revision then led else led\<lparr>led_user_revision := Some revision\<rparr>
      | None \<Rightarrow> led\<lparr>led_user_revision := Some revision\<rparr>)"

definition prepareMembershipReconciliation :: "state \<Rightarrow> ledger \<Rightarrow> ledger" where
  "prepareMembershipReconciliation st led =
     setAccountingUserRevision (st_UserRevision st)
       (pruneAccountingMemberships st
         (syncAccountingMembershipUsage st (ensureAccountingMemberships st led)))"

definition observation_key :: "traffic_observation \<Rightarrow> string \<times> string \<times> string" where
  "observation_key ob = (obs_AgentID ob, obs_InboundPath ob, obs_Username ob)"

definition to_observation_row :: "traffic_observation \<Rightarrow> observation_row" where
  "to_observation_row ob = \<lparr>orow_Epoch = obs_Epoch ob, orow_UplinkBytes = obs_UplinkBytes ob,
     orow_DownlinkBytes = obs_DownlinkBytes ob, orow_ObservedAt = unix_seconds (obs_ObservedAt ob)\<rparr>"

definition to_failure_row :: "accounting_failure \<Rightarrow> failure_row" where
  "to_failure_row f = \<lparr>frow_AgentID = af_AgentID f, frow_Reason = af_Reason f,
     frow_OccurredAt = unix_seconds (af_OccurredAt f)\<rparr>"

section \<open>Writing\<close>

text \<open>\<open>dailyUsageDelta\<close>: a day and the bytes to add per Membership.\<close>

type_synonym daily_delta = "int \<times> (string \<times> u64) list"

definition add_daily :: "string \<Rightarrow> u64 \<Rightarrow> (string \<times> u64) list \<Rightarrow> (string \<times> u64) list" where
  "add_daily k delta bytes =
     (if map_of bytes k = None then bytes @ [(k, saturatingAdd 0 delta)]
      else map (\<lambda>(k', b). (k', if k' = k then saturatingAdd b delta else b)) bytes)"

definition persistDailyUsage :: "daily_delta \<Rightarrow> ledger \<Rightarrow> ledger" where
  "persistDailyUsage = (\<lambda>(date, bytes) led.
     led\<lparr>led_daily := fold (\<lambda>(k, delta) daily.
        if delta = 0 then daily
        else daily((k, date) \<mapsto> saturatingAdd (case daily (k, date) of None \<Rightarrow> 0 | Some c \<Rightarrow> c) delta))
       bytes (led_daily led)\<rparr>)"

definition changed_membership :: "state \<Rightarrow> membership \<Rightarrow> bool" where
  "changed_membership previous m \<longleftrightarrow>
     (case fill_map mem_ID (\<lambda>m. m) Map.empty (all_memberships previous) (mem_ID m) of
        None \<Rightarrow> True
      | Some p \<Rightarrow> \<not> (mem_UsedBytes p = mem_UsedBytes m
          \<and> mem_QuotaPeriodStartedOn p = mem_QuotaPeriodStartedOn m
          \<and> mem_QuotaResetsAfter p = mem_QuotaResetsAfter m))"

definition persistChanges :: "state \<Rightarrow> state \<Rightarrow> daily_delta option \<Rightarrow> ledger \<Rightarrow> ledger" where
  "persistChanges previous after daily led =
     (let led = led\<lparr>led_usage := fold (\<lambda>m rows.
            if changed_membership previous m then upsert_row (mem_ID m) (membership_row m) rows else rows)
            (all_memberships after) (led_usage led)\<rparr>;
          led = (if st_TrafficObservations previous \<noteq> st_TrafficObservations after
                 then led\<lparr>led_observations :=
                   map (\<lambda>ob. (observation_key ob, to_observation_row ob)) (st_TrafficObservations after)\<rparr>
                 else led);
          led = (if st_AccountingFailures previous \<noteq> st_AccountingFailures after
                 then led\<lparr>led_failures := map to_failure_row (st_AccountingFailures after)\<rparr> else led);
          led = (case daily of Some (d, b) \<Rightarrow> if b \<noteq> [] then persistDailyUsage (d, b) led else led
                 | None \<Rightarrow> led)
      in setAccountingUserRevision (st_UserRevision after)
           (pruneAccountingMemberships after (ensureAccountingMemberships after led)))"

section \<open>Opening\<close>

definition recomputeMembershipStatus :: "time \<Rightarrow> membership \<Rightarrow> membership" where
  "recomputeMembershipStatus now m =
     m\<lparr>mem_DisabledReason :=
        if mem_SubscriptionEndsAfter m \<noteq> 0 \<and> \<not> now < mem_SubscriptionEndsAfter m then MembershipExpired
        else if mem_MonthlyQuotaBytes m > 0 \<and> mem_UsedBytes m \<ge> mem_MonthlyQuotaBytes m
        then MembershipQuotaReached else MembershipEnabled\<rparr>"

definition importLegacyAccounting :: "state \<Rightarrow> ledger \<Rightarrow> ledger" where
  "importLegacyAccounting st led =
     (let led = ensureAccountingMemberships st led in
      led\<lparr>led_observations := fold (\<lambda>ob rows.
             if map_of rows (observation_key ob) = None
             then rows @ [(observation_key ob, to_observation_row ob)]
             else map (\<lambda>(k, r). (k, if k = observation_key ob then to_observation_row ob else r)) rows)
             (st_TrafficObservations st) (led_observations led),
          led_failures := led_failures led @ map to_failure_row (st_AccountingFailures st)\<rparr>)"

definition load_membership :: "time \<Rightarrow> ledger \<Rightarrow> membership \<Rightarrow> membership" where
  "load_membership now led m =
     recomputeMembershipStatus now
       (case map_of (led_usage led) (mem_ID m) of
          None \<Rightarrow> m
        | Some row \<Rightarrow> m\<lparr>mem_UsedBytes := row_UsedBytes row,
            mem_QuotaPeriodStartedOn := from_unix (row_PeriodStartedAt row),
            mem_QuotaResetsAfter := from_unix (row_ResetsAfter row)\<rparr>)"

definition loadIntoState :: "time \<Rightarrow> ledger \<Rightarrow> state \<Rightarrow> state res" where
  "loadIntoState now led st =
     bindE (eachE (\<lambda>(k, row). require (row_PeriodStartedAt row > 0 \<and> row_ResetsAfter row > 0)
              (ErrInvalidState ''invalid membership accounting row'')) (led_usage led)) (\<lambda>_.
     bindE (eachE (\<lambda>(k, row). require (orow_ObservedAt row > 0)
              (ErrInvalidState ''invalid legacy observation row'')) (led_observations led)) (\<lambda>_.
     let failures = drop (length (led_failures led) - 256) (led_failures led) in
     bindE (eachE (\<lambda>row. require (frow_OccurredAt row > 0 \<and> validAgentID (frow_AgentID row)
                \<and> validAccountingFailureReason (frow_Reason row))
              (ErrInvalidState ''invalid accounting failure row'')) failures) (\<lambda>_.
     bindE (from_option (ErrOther ''read accounting user revision'') (led_user_revision led)) (\<lambda>revision.
     ok (st\<lparr>st_ProxyNodes := map (\<lambda>n. n\<lparr>pn_Memberships := map (load_membership now led) (pn_Memberships n)\<rparr>)
                (st_ProxyNodes st),
            st_TrafficObservations :=
              map (\<lambda>((a, p, u), row). \<lparr>obs_AgentID = a, obs_InboundPath = p, obs_Username = u,
                    obs_Epoch = orow_Epoch row, obs_UplinkBytes = orow_UplinkBytes row,
                    obs_DownlinkBytes = orow_DownlinkBytes row,
                    obs_ObservedAt = from_unix (orow_ObservedAt row)\<rparr>)
                (sort_key fst (led_observations led)),
            st_AccountingFailures :=
              map (\<lambda>row. \<lparr>af_AgentID = frow_AgentID row, af_Reason = frow_Reason row,
                    af_OccurredAt = from_unix (frow_OccurredAt row)\<rparr>) failures,
            st_UserRevision := max revision (st_UserRevision st)\<rparr>)))))"

definition accountingSchemaVersion :: int where
  "accountingSchemaVersion = 4"

definition migrateAccountingSchemaV1 :: "ledger \<Rightarrow> ledger" where
  "migrateAccountingSchemaV1 led =
     led\<lparr>led_version := Some accountingSchemaVersion,
       led_usage := map (\<lambda>(k, row). (k, row\<lparr>
         row_PeriodStartedAt := unix_seconds (legacyUTCDateToBillingDate (from_unix (row_PeriodStartedAt row))),
         row_ResetsAfter := unix_seconds (legacyUTCDateToBillingDate (from_unix (row_ResetsAfter row)))\<rparr>))
        (led_usage led)\<rparr>"

text \<open>\<open>initialize\<close>: the schema version, the one-time import of the JSON accounting fields and the
  reconciliation with the Memberships of the document, in one transaction.\<close>

definition initialize_ledger :: "state \<Rightarrow> ledger \<Rightarrow> ledger res" where
  "initialize_ledger st led =
     bindE (case led_version led of
          None \<Rightarrow> ok (led\<lparr>led_version := Some accountingSchemaVersion\<rparr>)
        | Some v \<Rightarrow>
            if v = 1 then ok (migrateAccountingSchemaV1 led)
            else if v = 2 \<or> v = 3 then ok (led\<lparr>led_version := Some accountingSchemaVersion\<rparr>)
            else if v \<noteq> accountingSchemaVersion
            then fail (ErrInvalidState ''unsupported accounting schema version'')
            else ok led) (\<lambda>led.
       let led = (if led_imported led then led
                  else (importLegacyAccounting st led)\<lparr>led_imported := True\<rparr>)
       in ok (setAccountingUserRevision (st_UserRevision st)
                (pruneAccountingMemberships st (ensureAccountingMemberships st led))))"

definition openAccountingDB :: "time \<Rightarrow> state \<Rightarrow> ledger \<Rightarrow> (state \<times> ledger) res" where
  "openAccountingDB now st led =
     bindE (initialize_ledger st led) (\<lambda>led.
     bindE (loadIntoState now led st) (\<lambda>st. ok (st, led)))"

end
