(* ===== verification/Store.thy ===== *)
theory Store
  imports Routing Ledger
begin

text \<open>
  The Store of \<open>internal/proxynode/store.go\<close>: the state in memory, its two durable copies (a JSON
  document and the accounting ledger) and the transaction every operation runs in.

  An operation takes a \<open>call\<close>, what the world supplies while it runs: the readings of the clock,
  the random bytes and the outcome of every storage step. It returns its result together with the
  Store it leaves behind, so that what a failed operation has done is visible. \<open>cloneState\<close>, a
  JSON round trip, is the identity on these values. The lock makes operations sequential.
\<close>

section \<open>State\<close>

record faults =
  flt_secure :: "unit res"
  flt_prepare :: "unit res"
  flt_document :: "unit res"
  flt_document_sync :: "unit res"
  flt_commit :: "unit res"
  flt_retry :: "unit res"
  flt_retry_secure :: "unit res"
  flt_restore :: "unit res"
  flt_restore_sync :: "unit res"
  flt_rollback :: "unit res"
  flt_rollback_secure :: "unit res"
  flt_ledger :: "unit res"
  flt_ledger_secure :: "unit res"

definition no_faults :: faults where
  "no_faults = \<lparr>flt_secure = ok (), flt_prepare = ok (), flt_document = ok (), flt_document_sync = ok (),
     flt_commit = ok (), flt_retry = ok (), flt_retry_secure = ok (), flt_restore = ok (),
     flt_restore_sync = ok (), flt_rollback = ok (), flt_rollback_secure = ok (),
     flt_ledger = ok (), flt_ledger_secure = ok ()\<rparr>"

text \<open>\<open>call_now\<close> is the reading the body of an operation uses, \<open>call_touch\<close> the one stamped on
  the Proxy Node afterwards and \<open>call_build\<close> the one recorded with the build.\<close>

record call =
  call_now :: time
  call_touch :: time
  call_build :: time
  call_entropy :: entropy
  call_faults :: faults

record store =
  sto_state :: state
  sto_build :: build_info
  sto_userIndex :: "string \<rightharpoonup> nat"
  sto_subscriptionIndex :: "string \<rightharpoonup> nat"
  sto_open :: bool
  sto_document :: "state \<times> build_info"
  sto_ledger :: ledger

section \<open>Persistence\<close>

definition user_index :: "user list \<Rightarrow> string \<rightharpoonup> nat" where
  "user_index users = fill_map (\<lambda>(i, u). usr_ID u) fst Map.empty (enumerated users)"

definition subscription_index :: "user list \<Rightarrow> string \<rightharpoonup> nat" where
  "subscription_index users =
     fill_map (\<lambda>(i, u). us_Token (usr_Subscription u)) fst Map.empty
       (filter (\<lambda>(i, u). us_Token (usr_Subscription u) \<noteq> []) (enumerated users))"

definition rebuildIndexes :: "store \<Rightarrow> store" where
  "rebuildIndexes s =
     s\<lparr>sto_userIndex := user_index (st_Users (sto_state s)),
       sto_subscriptionIndex := subscription_index (st_Users (sto_state s))\<rparr>"

text \<open>\<open>s.state = next; s.build = build; s.rebuildIndexesLocked()\<close>.\<close>

definition adopt :: "state \<Rightarrow> build_info \<Rightarrow> store \<Rightarrow> store" where
  "adopt next build s = rebuildIndexes (s\<lparr>sto_state := next, sto_build := build\<rparr>)"

text \<open>The document is replaced by a rename; the directory is flushed afterwards, so an error can
  be reported before or after the replacement (\<open>replace_file_unix.go\<close>).\<close>

definition persistLocked ::
  "unit res \<Rightarrow> unit res \<Rightarrow> state \<Rightarrow> build_info \<Rightarrow> store \<Rightarrow> unit res \<times> store" where
  "persistLocked written flushed st build s =
     (case written of
        Inl e \<Rightarrow> (Inl e, s)
      | Inr _ \<Rightarrow> (flushed, s\<lparr>sto_document := (st, build)\<rparr>))"

definition reconcileMemberships ::
  "unit res \<Rightarrow> unit res \<Rightarrow> state \<Rightarrow> store \<Rightarrow> unit res \<times> store" where
  "reconcileMemberships commit secure st s =
     (case commit of
        Inl e \<Rightarrow> (Inl e, s)
      | Inr _ \<Rightarrow> (secure, s\<lparr>sto_ledger := prepareMembershipReconciliation st (sto_ledger s)\<rparr>))"

definition persistStateAndAccountingLocked ::
  "faults \<Rightarrow> state \<Rightarrow> build_info \<Rightarrow> store \<Rightarrow> unit res \<times> store" where
  "persistStateAndAccountingLocked flt next build s =
     (if \<not> sto_open s then (fail (ErrOther ''accounting database is unavailable''), s)
      else case flt_secure flt of Inl e \<Rightarrow> (Inl e, s)
      | Inr _ \<Rightarrow>
     (case flt_prepare flt of Inl e \<Rightarrow> (Inl e, s)
      | Inr _ \<Rightarrow>
     (let transaction = prepareMembershipReconciliation next (sto_ledger s) in
      case persistLocked (flt_document flt) (flt_document_sync flt) next build s of
        (Inl e, s1) \<Rightarrow> (Inl e, s1)
      | (Inr _, s1) \<Rightarrow>
     (case flt_commit flt of
        Inr _ \<Rightarrow> (ok (), adopt next build (s1\<lparr>sto_ledger := transaction\<rparr>))
      | Inl commit_error \<Rightarrow>
     (case reconcileMemberships (flt_retry flt) (flt_retry_secure flt) next s1 of
        (Inr _, s2) \<Rightarrow> (ok (), adopt next build s2)
      | (Inl _, s2) \<Rightarrow>
     (case persistLocked (flt_restore flt) (flt_restore_sync flt) (sto_state s2) (sto_build s2) s2 of
        (Inl _, s3) \<Rightarrow> (Inl commit_error, s3)
      | (Inr _, s3) \<Rightarrow>
          (Inl commit_error,
           snd (reconcileMemberships (flt_rollback flt) (flt_rollback_secure flt) (sto_state s3) s3))))))))"

section \<open>Transactions\<close>

definition mutate ::
  "environment \<Rightarrow> call \<Rightarrow> (state \<Rightarrow> (state \<times> 'a) res) \<Rightarrow> store \<Rightarrow> 'a res \<times> store" where
  "mutate env c mutation s =
     (case mutation (sto_state s) of
        Inl e \<Rightarrow> (Inl e, s)
      | Inr (next, x) \<Rightarrow>
     (let next = fst (reconcileSharedListenerSecrets next (Some (sto_state s)));
          next = next\<lparr>st_Revision := st_Revision next + 1\<rparr>
      in case validateStoredState env next of
        Inl e \<Rightarrow> (Inl e, s)
      | Inr _ \<Rightarrow>
     (case persistStateAndAccountingLocked (call_faults c) next
             (normalizeBuild (sto_build s) (call_build c)) s of
        (Inl e, s') \<Rightarrow> (Inl e, s')
      | (Inr _, s') \<Rightarrow> (Inr x, s'))))"

definition mutateUser ::
  "environment \<Rightarrow> call \<Rightarrow> (state \<Rightarrow> (state \<times> 'a) res) \<Rightarrow> store \<Rightarrow> 'a res \<times> store" where
  "mutateUser env c mutation s =
     (case mutation (sto_state s) of
        Inl e \<Rightarrow> (Inl e, s)
      | Inr (next, x) \<Rightarrow>
     (let next = next\<lparr>st_UserRevision := st_UserRevision next + 1\<rparr>
      in case validateStoredState env next of
        Inl e \<Rightarrow> (Inl e, s)
      | Inr _ \<Rightarrow>
     (case persistStateAndAccountingLocked (call_faults c) next
             (normalizeBuild (sto_build s) (call_build c)) s of
        (Inl e, s') \<Rightarrow> (Inl e, s')
      | (Inr _, s') \<Rightarrow> (Inr x, s'))))"

text \<open>The mutation of one Proxy Node gets the index of the node and may change the whole state.\<close>

definition on_proxy_node ::
  "call \<Rightarrow> string \<Rightarrow> (nat \<Rightarrow> state \<Rightarrow> (state \<times> 'a) res) \<Rightarrow> state \<Rightarrow> (state \<times> 'a) res" where
  "on_proxy_node c node mutation st =
     (case index_func (\<lambda>n. pn_ID n = node) (st_ProxyNodes st) of
        None \<Rightarrow> fail ErrNotFound
      | Some i \<Rightarrow>
          bindE (mutation i st) (\<lambda>(st, x).
            ok (update_node i (\<lambda>n. n\<lparr>pn_UpdatedAt := call_touch c\<rparr>) st, x)))"

definition mutateProxyNode ::
  "environment \<Rightarrow> call \<Rightarrow> string \<Rightarrow> (nat \<Rightarrow> state \<Rightarrow> (state \<times> 'a) res) \<Rightarrow> store \<Rightarrow> 'a res \<times> store" where
  "mutateProxyNode env c node mutation = mutate env c (on_proxy_node c node mutation)"

definition mutateUserProxyNode ::
  "environment \<Rightarrow> call \<Rightarrow> string \<Rightarrow> (nat \<Rightarrow> state \<Rightarrow> (state \<times> 'a) res) \<Rightarrow> store \<Rightarrow> 'a res \<times> store" where
  "mutateUserProxyNode env c node mutation = mutateUser env c (on_proxy_node c node mutation)"

text \<open>A mutation that only touches the Proxy Node it is about.\<close>

definition edit_node :: "(proxy_node \<Rightarrow> (proxy_node \<times> 'a) res) \<Rightarrow> nat \<Rightarrow> state \<Rightarrow> (state \<times> 'a) res" where
  "edit_node f i st =
     bindE (f (st_ProxyNodes st ! i)) (\<lambda>(n, x).
       ok (st\<lparr>st_ProxyNodes := (st_ProxyNodes st)[i := n]\<rparr>, x))"

text \<open>\<open>mutateBillingWithDaily\<close> writes only the ledger. The mutation says whether it changed the
  user authority and what to add to the daily history.\<close>

definition mutateBillingWithDaily ::
  "environment \<Rightarrow> call \<Rightarrow> (state \<Rightarrow> (state \<times> bool \<times> daily_delta option) res) \<Rightarrow> store \<Rightarrow> bool res \<times> store" where
  "mutateBillingWithDaily env c mutation s =
     (case mutation (sto_state s) of
        Inl e \<Rightarrow> (Inl e, s)
      | Inr (next, changed, daily) \<Rightarrow>
     (let next = (if changed then next\<lparr>st_UserRevision := st_UserRevision next + 1\<rparr> else next)
      in case validateStoredState env next of
        Inl e \<Rightarrow> (Inl e, s)
      | Inr _ \<Rightarrow>
          if \<not> sto_open s then (fail (ErrOther ''accounting database is unavailable''), s)
          else case flt_ledger (call_faults c) of
            Inl e \<Rightarrow> (Inl e, s)
          | Inr _ \<Rightarrow>
              let s1 = s\<lparr>sto_ledger := persistChanges (sto_state s) next daily (sto_ledger s)\<rparr>
              in case flt_ledger_secure (call_faults c) of
                   Inl e \<Rightarrow> (Inl e, s1)
                 | Inr _ \<Rightarrow> (Inr changed, s1\<lparr>sto_state := next\<rparr>)))"

definition mutateBilling ::
  "environment \<Rightarrow> call \<Rightarrow> (state \<Rightarrow> (state \<times> bool) res) \<Rightarrow> store \<Rightarrow> bool res \<times> store" where
  "mutateBilling env c mutation =
     mutateBillingWithDaily env c (\<lambda>st. bindE (mutation st) (\<lambda>(next, changed). ok (next, changed, None)))"

section \<open>Reading\<close>

definition User :: "string \<Rightarrow> store \<Rightarrow> user option" where
  "User uid s =
     (case sto_userIndex s uid of
        None \<Rightarrow> None
      | Some i \<Rightarrow> if i < length (st_Users (sto_state s)) then Some (st_Users (sto_state s) ! i) else None)"

definition ProxyNode :: "string \<Rightarrow> store \<Rightarrow> proxy_node option" where
  "ProxyNode nid s = find (\<lambda>n. pn_ID n = nid) (st_ProxyNodes (sto_state s))"

definition AppliedProxyNode :: "string \<Rightarrow> store \<Rightarrow> proxy_node option" where
  "AppliedProxyNode nid s = find (\<lambda>n. pn_ID n = nid) (st_AppliedProxyNodes (sto_state s))"

definition MarkReady :: "call \<Rightarrow> store \<Rightarrow> unit res \<times> store" where
  "MarkReady c s =
     (let build = normalizeBuild (sto_build s) (call_build c) in
      case persistLocked (flt_document (call_faults c)) (flt_document_sync (call_faults c)) (sto_state s) build s of
        (Inl e, s') \<Rightarrow> (Inl e, s')
      | (Inr _, s') \<Rightarrow> (ok (), s'\<lparr>sto_build := build\<rparr>))"

definition Close :: "store \<Rightarrow> store" where
  "Close s = s\<lparr>sto_open := False\<rparr>"

end
