(* ===== verification/UserPlane.thy ===== *)
theory UserPlane
  imports Store
begin

text \<open>
  The user plane of the Store: End Users, Memberships, credentials, subscription terms and the
  system administrator (\<open>store.go\<close>, the plan operations of \<open>billing.go\<close>), and the configuration
  subscriptions of \<open>subscriptions.go\<close>. Every operation runs in \<open>mutateUser\<close>: it advances the user
  revision and leaves the topology revision alone.
\<close>

section \<open>Subscription terms\<close>

text \<open>\<open>time.Duration\<close> is a signed 64-bit number of nanoseconds and its product wraps.\<close>

definition duration :: "int \<Rightarrow> int" where
  "duration x = (x + 2 ^ 63) mod 2 ^ 64 - 2 ^ 63"

definition subscriptionDeadline :: "time \<Rightarrow> int \<Rightarrow> subscription_unit \<Rightarrow> time" where
  "subscriptionDeadline now value unit =
     (let now = truncate_second now in
      case unit of
        SubscriptionMinutes \<Rightarrow> now + duration (value * minute)
      | SubscriptionHours \<Rightarrow> now + duration (value * hour)
      | SubscriptionDays \<Rightarrow> now + duration (duration (value * 24) * hour)
      | SubscriptionMonths \<Rightarrow> add_date billingLocation (addCalendarMonths (billingDate now) value) 0 0 1
      | _ \<Rightarrow> 0)"

definition extendSubscriptionDeadline :: "time \<Rightarrow> int \<Rightarrow> subscription_unit \<Rightarrow> time" where
  "extendSubscriptionDeadline deadline value unit =
     (if unit = SubscriptionMonths then addCalendarMonths deadline value
      else subscriptionDeadline deadline value unit)"

definition MembershipQuotaResetAt :: "membership \<Rightarrow> time" where
  "MembershipQuotaResetAt m = add_date billingLocation (mem_QuotaResetsAfter m) 0 0 1"

section \<open>Memberships\<close>

definition membershipForUser :: "proxy_node \<Rightarrow> string \<Rightarrow> nat option" where
  "membershipForUser node uid = index_func (\<lambda>m. mem_UserID m = uid) (pn_Memberships node)"

definition active_endpoint :: "state \<Rightarrow> proxy_node \<Rightarrow> endpoint" where
  "active_endpoint st node =
     (case appliedEntranceEndpoint st (pn_ID node) of
        Some e \<Rightarrow> e
      | None \<Rightarrow> ent_Endpoint (pn_Entrance node))"

text \<open>The candidate credential a pending change of the entrance needs.\<close>

definition pending_credential ::
  "endpoint \<Rightarrow> endpoint \<Rightarrow> entropy \<Rightarrow> (credential option \<times> entropy) res" where
  "pending_credential active desired src =
     (if credentialShapeChanged active desired
      then bindE (generateCredential desired src) (\<lambda>(p, src). ok (Some p, src))
      else ok (None, src))"

definition newMembership ::
  "state \<Rightarrow> proxy_node \<Rightarrow> string \<Rightarrow> membership_plan \<Rightarrow> time \<Rightarrow> entropy \<Rightarrow> (membership \<times> entropy) res" where
  "newMembership st node uid plan now src =
     bindE (randomID ''mem'' src) (\<lambda>(mid, src).
     let active = active_endpoint st node in
     bindE (generateCredential active src) (\<lambda>(c, src).
     let today = billingDate now in
     bindE (pending_credential active (ent_Endpoint (pn_Entrance node)) src) (\<lambda>(pending, src).
     let term = plan_SubscriptionValue plan > 0 in
     ok (\<lparr>mem_ID = mid, mem_UserID = uid, mem_Credential = c, mem_PendingCredential = pending,
          mem_MonthlyQuotaBytes = plan_MonthlyQuotaBytes plan, mem_UsedBytes = 0,
          mem_QuotaAnchorDay = day_of (local_day billingLocation today),
          mem_QuotaPeriodStartedOn = today, mem_QuotaResetsAfter = addCalendarMonths today 1,
          mem_SubscriptionStartedAt = (if term then truncate_second now else 0),
          mem_SubscriptionEndsAfter =
            (if term then subscriptionDeadline now (plan_SubscriptionValue plan) (plan_SubscriptionUnit plan)
             else 0),
          mem_SubscriptionValue = (if term then plan_SubscriptionValue plan else 0),
          mem_SubscriptionUnit = (if term then plan_SubscriptionUnit plan else SubscriptionUnitUnset),
          mem_LegacySubscriptionMonths = 0, mem_DisabledReason = MembershipEnabled,
          mem_CreatedAt = now\<rparr>, src))))"

definition insert_membership :: "membership \<Rightarrow> membership list \<Rightarrow> membership list" where
  "insert_membership m ms =
     (case index_func (\<lambda>m. mem_UserID m = SystemAdministratorUserID) ms of
        None \<Rightarrow> ms @ [m]
      | Some i \<Rightarrow> insert_at i m ms)"

definition resetMembershipCredential ::
  "state \<Rightarrow> proxy_node \<Rightarrow> string \<Rightarrow> entropy \<Rightarrow> (proxy_node \<times> entropy) res" where
  "resetMembershipCredential st node uid src =
     (case membershipForUser node uid of
        None \<Rightarrow> fail ErrNotFound
      | Some i \<Rightarrow>
          let active = active_endpoint st node in
          bindE (generateCredential active src) (\<lambda>(c, src).
          bindE (pending_credential active (ent_Endpoint (pn_Entrance node)) src) (\<lambda>(pending, src).
          ok (node\<lparr>pn_Memberships := update_at i
                (\<lambda>m. m\<lparr>mem_Credential := c, mem_PendingCredential := pending\<rparr>) (pn_Memberships node)\<rparr>, src))))"

text \<open>The loop over all Proxy Nodes that rotates every credential of one user and counts them.\<close>

definition reset_user_nodes :: "state \<Rightarrow> string \<Rightarrow> time \<Rightarrow> entropy \<Rightarrow> (state \<times> nat) res" where
  "reset_user_nodes st uid now src =
     bindE (traverseE (\<lambda>node src.
        if membershipForUser node uid = None then ok (node, src)
        else bindE (resetMembershipCredential st node uid src) (\<lambda>(node, src).
               ok (node\<lparr>pn_UpdatedAt := now\<rparr>, src))) (st_ProxyNodes st) src) (\<lambda>(nodes, src).
     ok (st\<lparr>st_ProxyNodes := nodes\<rparr>,
         length (filter (\<lambda>n. membershipForUser n uid \<noteq> None) (st_ProxyNodes st))))"

section \<open>Users\<close>

definition CreateUser :: "environment \<Rightarrow> call \<Rightarrow> string \<Rightarrow> store \<Rightarrow> user res \<times> store" where
  "CreateUser env c name s =
     (let name = normalizeDisplayName env name in
      if \<not> validDisplayName env name then (fail (ErrInvalidState ''invalid end user name''), s)
      else case randomID ''usr'' (call_entropy c) of
        Inl e \<Rightarrow> (Inl e, s)
      | Inr (uid, src) \<Rightarrow>
     (case randomID ''sub'' src of
        Inl e \<Rightarrow> (Inl e, s)
      | Inr (token, src) \<Rightarrow>
          let created = \<lparr>usr_ID = uid, usr_Name = name, usr_Role = UserRoleEndUser,
                usr_Subscription = \<lparr>us_Token = token, us_UpdatedAt = call_now c,
                  us_DefaultAction = SubscriptionActionUnset, us_Rules = [], us_Providers = []\<rparr>,
                usr_CreatedAt = call_now c, usr_UpdatedAt = call_now c\<rparr>
          in mutateUser env c (\<lambda>st.
               if list_ex (\<lambda>u. displayNameKey env (usr_Name u) = displayNameKey env name) (st_Users st)
               then fail (ErrConflict ''an end user with this management name already exists'')
               else ok (st\<lparr>st_Users := st_Users st @ [created]\<rparr>, created)) s))"

definition RenameUser :: "environment \<Rightarrow> call \<Rightarrow> string \<Rightarrow> string \<Rightarrow> store \<Rightarrow> unit res \<times> store" where
  "RenameUser env c uid name s =
     (if uid = SystemAdministratorUserID
      then (fail (ErrConflict ''administrator user is immutable''), s)
      else let name = normalizeDisplayName env name in
      if \<not> validDisplayName env name then (fail (ErrInvalidState ''invalid end user name''), s)
      else mutateUser env c (\<lambda>st.
        if list_ex (\<lambda>u. usr_ID u \<noteq> uid
             \<and> displayNameKey env (usr_Name u) = displayNameKey env name) (st_Users st)
        then fail (ErrConflict ''an end user with this management name already exists'')
        else case index_func (\<lambda>u. usr_ID u = uid) (st_Users st) of
          None \<Rightarrow> fail ErrNotFound
        | Some i \<Rightarrow> ok (st\<lparr>st_Users := update_at i
            (\<lambda>u. u\<lparr>usr_Name := name, usr_UpdatedAt := call_now c\<rparr>) (st_Users st)\<rparr>, ())) s)"

definition DeleteUser :: "environment \<Rightarrow> call \<Rightarrow> string \<Rightarrow> store \<Rightarrow> unit res \<times> store" where
  "DeleteUser env c uid s =
     (if uid = SystemAdministratorUserID
      then (fail (ErrConflict ''administrator user is immutable''), s)
      else mutateUser env c (\<lambda>st.
        case index_func (\<lambda>u. usr_ID u = uid) (st_Users st) of
          None \<Rightarrow> fail ErrNotFound
        | Some i \<Rightarrow>
            ok (st\<lparr>st_Users := take i (st_Users st) @ drop (Suc i) (st_Users st),
                  st_ProxyNodes := map (\<lambda>n. n\<lparr>pn_Memberships :=
                      delete_func (\<lambda>m. mem_UserID m = uid) (pn_Memberships n),
                      pn_UpdatedAt := call_now c\<rparr>) (st_ProxyNodes st)\<rparr>, ())) s)"

section \<open>Operations on Memberships\<close>

definition AddMembershipWithPlan ::
  "environment \<Rightarrow> call \<Rightarrow> string \<Rightarrow> string \<Rightarrow> membership_plan \<Rightarrow> store \<Rightarrow> membership res \<times> store" where
  "AddMembershipWithPlan env c nid uid plan s =
     (if uid = SystemAdministratorUserID
      then (fail (ErrConflict ''administrator Membership already exists''), s)
      else case validateMembershipPlan plan of
        Inl e \<Rightarrow> (Inl e, s)
      | Inr _ \<Rightarrow> mutateUserProxyNode env c nid (\<lambda>i st.
          let node = st_ProxyNodes st ! i in
          if \<not> list_ex (\<lambda>u. usr_ID u = uid) (st_Users st) then fail ErrNotFound
          else if list_ex (\<lambda>m. mem_UserID m = uid) (pn_Memberships node)
          then fail (ErrConflict ''membership'')
          else bindE (newMembership st node uid plan (call_now c) (call_entropy c)) (\<lambda>(m, src).
            ok (update_node i (\<lambda>n. n\<lparr>pn_Memberships := insert_membership m (pn_Memberships n)\<rparr>) st, m))) s)"

definition AddMembership ::
  "environment \<Rightarrow> call \<Rightarrow> string \<Rightarrow> string \<Rightarrow> store \<Rightarrow> membership res \<times> store" where
  "AddMembership env c nid uid = AddMembershipWithPlan env c nid uid unlimited_plan"

definition RemoveMembership :: "environment \<Rightarrow> call \<Rightarrow> string \<Rightarrow> string \<Rightarrow> store \<Rightarrow> unit res \<times> store" where
  "RemoveMembership env c nid uid s =
     (if uid = SystemAdministratorUserID
      then (fail (ErrConflict ''administrator Membership is immutable''), s)
      else mutateUserProxyNode env c nid (edit_node (\<lambda>node.
        let ms = delete_func (\<lambda>m. mem_UserID m = uid) (pn_Memberships node) in
        if length ms = length (pn_Memberships node) then fail ErrNotFound
        else ok (node\<lparr>pn_Memberships := ms\<rparr>, ()))) s)"

definition ResetMembershipCredential ::
  "environment \<Rightarrow> call \<Rightarrow> string \<Rightarrow> string \<Rightarrow> store \<Rightarrow> unit res \<times> store" where
  "ResetMembershipCredential env c nid uid s =
     (if uid = SystemAdministratorUserID
      then (fail (ErrConflict ''administrator Membership is immutable''), s)
      else mutateUserProxyNode env c nid (\<lambda>i st.
        edit_node (\<lambda>node. bindE (resetMembershipCredential st node uid (call_entropy c))
          (\<lambda>(node, src). ok (node, ()))) i st) s)"

definition ResetUserCredentials :: "environment \<Rightarrow> call \<Rightarrow> string \<Rightarrow> store \<Rightarrow> nat res \<times> store" where
  "ResetUserCredentials env c uid s =
     (if uid = SystemAdministratorUserID
      then (fail (ErrConflict ''administrator user is immutable''), s)
      else mutateUser env c (\<lambda>st.
        if \<not> list_ex (\<lambda>u. usr_ID u = uid) (st_Users st) then fail ErrNotFound
        else reset_user_nodes st uid (call_now c) (call_entropy c)) s)"

definition UpdateMembershipPlan ::
  "environment \<Rightarrow> call \<Rightarrow> string \<Rightarrow> string \<Rightarrow> membership_plan \<Rightarrow> store \<Rightarrow> unit res \<times> store" where
  "UpdateMembershipPlan env c nid uid plan s =
     (if uid = SystemAdministratorUserID
      then (fail (ErrConflict ''administrator Membership is immutable''), s)
      else case validateMembershipPlan plan of
        Inl e \<Rightarrow> (Inl e, s)
      | Inr _ \<Rightarrow> mutateUserProxyNode env c nid (edit_node (\<lambda>node.
          case membershipForUser node uid of
            None \<Rightarrow> fail ErrNotFound
          | Some i \<Rightarrow>
              let m = pn_Memberships node ! i; now = call_now c in
              if mem_SubscriptionEndsAfter m \<noteq> 0 \<and> \<not> now < mem_SubscriptionEndsAfter m
              then fail ErrNotFound
              else
                let term = plan_SubscriptionValue plan > 0;
                    m = m\<lparr>mem_MonthlyQuotaBytes := plan_MonthlyQuotaBytes plan,
                          mem_SubscriptionStartedAt := (if term then truncate_second now else 0),
                          mem_SubscriptionEndsAfter :=
                            (if term then subscriptionDeadline now (plan_SubscriptionValue plan)
                               (plan_SubscriptionUnit plan) else 0),
                          mem_SubscriptionValue := plan_SubscriptionValue plan,
                          mem_SubscriptionUnit := plan_SubscriptionUnit plan,
                          mem_LegacySubscriptionMonths := 0\<rparr>
                in ok (node\<lparr>pn_Memberships :=
                         (pn_Memberships node)[i := recomputeMembershipStatus now m]\<rparr>, ()))) s)"

text \<open>The checks and the update the two extension operations share; the error for a Membership
  without an end differs only in its text.\<close>

definition extend_membership ::
  "string \<Rightarrow> time \<Rightarrow> int \<Rightarrow> subscription_unit \<Rightarrow> membership \<Rightarrow> membership res" where
  "extend_membership message now value unit m =
     (if mem_SubscriptionEndsAfter m = 0 then fail (ErrConflict message)
      else if \<not> now < mem_SubscriptionEndsAfter m then fail ErrNotFound
      else ok (recomputeMembershipStatus now
             (m\<lparr>mem_SubscriptionEndsAfter :=
                  extendSubscriptionDeadline (mem_SubscriptionEndsAfter m) value unit\<rparr>)))"

definition duration_plan :: "int \<Rightarrow> subscription_unit \<Rightarrow> membership_plan" where
  "duration_plan value unit = \<lparr>plan_MonthlyQuotaBytes = 0, plan_SubscriptionValue = value,
     plan_SubscriptionUnit = unit\<rparr>"

definition ExtendMembershipSubscription ::
  "environment \<Rightarrow> call \<Rightarrow> string \<Rightarrow> string \<Rightarrow> int \<Rightarrow> subscription_unit \<Rightarrow> store \<Rightarrow> unit res \<times> store" where
  "ExtendMembershipSubscription env c nid uid value unit s =
     (if uid = SystemAdministratorUserID
      then (fail (ErrConflict ''administrator Membership is immutable''), s)
      else case validateMembershipPlan (duration_plan value unit) of
        Inl e \<Rightarrow> (Inl e, s)
      | Inr _ \<Rightarrow> mutateUserProxyNode env c nid (edit_node (\<lambda>node.
          case membershipForUser node uid of
            None \<Rightarrow> fail ErrNotFound
          | Some i \<Rightarrow>
              bindE (extend_membership ''subscription has no expiration'' (call_now c) value unit
                       (pn_Memberships node ! i)) (\<lambda>m.
                ok (node\<lparr>pn_Memberships := (pn_Memberships node)[i := m]\<rparr>, ())))) s)"

definition extend_selected ::
  "string set \<Rightarrow> time \<Rightarrow> int \<Rightarrow> subscription_unit \<Rightarrow> membership \<Rightarrow> nat \<Rightarrow> (membership \<times> nat) res" where
  "extend_selected selected now value unit m extended =
     (if mem_ID m \<notin> selected then ok (m, extended)
      else bindE (extend_membership ''selected Membership has no expiration'' now value unit m)
             (\<lambda>m. ok (m, extended + 1)))"

definition ExtendProxyNodeSubscriptions ::
  "environment \<Rightarrow> call \<Rightarrow> string \<Rightarrow> string list \<Rightarrow> int \<Rightarrow> subscription_unit \<Rightarrow> store \<Rightarrow> nat res \<times> store" where
  "ExtendProxyNodeSubscriptions env c nid ids value unit s =
     (case validateMembershipPlan (duration_plan value unit) of
        Inl e \<Rightarrow> (Inl e, s)
      | Inr _ \<Rightarrow>
          let selected = set (map trim_space ids) in
          if \<not> list_all (\<lambda>i. validID (trim_space i) ''mem_'') ids
          then (fail (ErrInvalidState ''invalid Membership selection''), s)
          else if selected = {} then (fail (ErrInvalidState ''no Memberships selected''), s)
          else mutateUserProxyNode env c nid (edit_node (\<lambda>node.
            bindE (traverseE (extend_selected selected (call_now c) value unit) (pn_Memberships node) 0)
              (\<lambda>(ms, extended).
                if extended \<noteq> card selected then fail ErrNotFound
                else ok (node\<lparr>pn_Memberships := ms\<rparr>, extended)))) s)"

section \<open>The system administrator\<close>

definition ensure_administrator_membership ::
  "state \<Rightarrow> time \<Rightarrow> proxy_node \<Rightarrow> entropy \<Rightarrow> (proxy_node \<times> entropy) res" where
  "ensure_administrator_membership st now node src =
     (if membershipForUser node SystemAdministratorUserID \<noteq> None then ok (node, src)
      else bindE (newMembership st node SystemAdministratorUserID unlimited_plan now src) (\<lambda>(m, src).
             ok (node\<lparr>pn_Memberships := pn_Memberships node @ [m]\<rparr>, src)))"

text \<open>\<open>now\<close> is truncated to the second only when the user has to be created.\<close>

definition ensureSystemAdministrator :: "state \<Rightarrow> time \<Rightarrow> entropy \<Rightarrow> (state \<times> entropy) res" where
  "ensureSystemAdministrator st now src =
     bindE (case find (\<lambda>u. usr_ID u = SystemAdministratorUserID) (st_Users st) of
         Some u \<Rightarrow>
           if \<not> IsSystemAdministrator u
           then fail (ErrOther ''reserved administrator user ID is already in use'')
           else ok (st, now, src)
       | None \<Rightarrow>
           bindE (uniqueSubscriptionToken (st_Users st) src) (\<lambda>(token, src).
           let now = truncate_second now in
           ok (st\<lparr>st_Users := st_Users st @ [\<lparr>usr_ID = SystemAdministratorUserID,
                 usr_Name = SystemAdministratorUserName, usr_Role = UserRoleAdministrator,
                 usr_Subscription = \<lparr>us_Token = token, us_UpdatedAt = now,
                   us_DefaultAction = SubscriptionActionUnset, us_Rules = [], us_Providers = []\<rparr>,
                 usr_CreatedAt = now, usr_UpdatedAt = now\<rparr>]\<rparr>, now, src))) (\<lambda>(st, now, src).
     bindE (traverseE (ensure_administrator_membership st now) (st_ProxyNodes st) src) (\<lambda>(nodes, src).
     ok (st\<lparr>st_ProxyNodes := nodes\<rparr>, src)))"

definition removeSystemAdministrator :: "state \<Rightarrow> state" where
  "removeSystemAdministrator st =
     st\<lparr>st_Users := delete_func (\<lambda>u. usr_ID u = SystemAdministratorUserID
            \<or> usr_Role u = UserRoleAdministrator) (st_Users st),
        st_ProxyNodes := map (\<lambda>n. n\<lparr>pn_Memberships :=
            delete_func (\<lambda>m. mem_UserID m = SystemAdministratorUserID) (pn_Memberships n)\<rparr>)
          (st_ProxyNodes st)\<rparr>"

definition SetAdministratorProxyAccess :: "environment \<Rightarrow> call \<Rightarrow> bool \<Rightarrow> store \<Rightarrow> bool res \<times> store" where
  "SetAdministratorProxyAccess env c enabled s =
     (if st_AdministratorProxyAccessEnabled (sto_state s) = enabled then (ok False, s)
      else case (if enabled
                 then map_sum id fst (ensureSystemAdministrator (sto_state s) (call_now c) (call_entropy c))
                 else ok (removeSystemAdministrator (sto_state s))) of
        Inl e \<Rightarrow> (Inl e, s)
      | Inr next \<Rightarrow>
     (let next = next\<lparr>st_ProxyNodes := map (\<lambda>n. n\<lparr>pn_UpdatedAt := call_now c\<rparr>) (st_ProxyNodes next),
            st_AdministratorProxyAccessEnabled := enabled, st_UserRevision := st_UserRevision next + 1\<rparr>
      in case validateStoredState env next of
        Inl e \<Rightarrow> (Inl e, s)
      | Inr _ \<Rightarrow>
     (case persistStateAndAccountingLocked (call_faults c) next
             (normalizeBuild (sto_build s) (call_build c)) s of
        (Inl e, s') \<Rightarrow> (Inl e, s')
      | (Inr _, s') \<Rightarrow> (ok True, s'))))"

section \<open>Configuration subscriptions\<close>

record subscription_rule_input =
  sri_Match :: subscription_match
  sri_Values :: "string list"
  sri_NoResolve :: bool
  sri_Action :: subscription_action

definition EffectiveSubscriptionAddressMode :: "address_mode \<Rightarrow> address_mode" where
  "EffectiveSubscriptionAddressMode mode =
     (if mode = SubscriptionAddressUnset then SubscriptionAddressDual else mode)"

definition SetProxyNodeSubscriptionAddressMode ::
  "environment \<Rightarrow> call \<Rightarrow> string \<Rightarrow> address_mode \<Rightarrow> store \<Rightarrow> unit res \<times> store" where
  "SetProxyNodeSubscriptionAddressMode env c nid mode s =
     (if mode \<notin> {SubscriptionAddressDual, SubscriptionAddressIPv4, SubscriptionAddressIPv6}
      then (fail (ErrInvalidState ''invalid configuration subscription address mode''), s)
      else mutateUserProxyNode env c nid
             (edit_node (\<lambda>node. ok (node\<lparr>pn_SubscriptionAddressMode := mode\<rparr>, ()))) s)"

record subscription_projection =
  prj_User :: user
  prj_Policy :: subscription_policy
  prj_ProxyNodes :: "proxy_node list"
  prj_AppliedProxyNodes :: "string \<rightharpoonup> proxy_node"

definition default_policy :: "subscription_policy \<Rightarrow> subscription_policy" where
  "default_policy p =
     (if pol_DefaultAction p = SubscriptionActionUnset
      then p\<lparr>pol_DefaultAction := SubscriptionProxy\<rparr> else p)"

definition SubscriptionProjection :: "string \<Rightarrow> store \<Rightarrow> subscription_projection option" where
  "SubscriptionProjection uid s =
     (case User uid s of
        None \<Rightarrow> None
      | Some u \<Rightarrow>
          let nodes = filter (\<lambda>n. list_ex (\<lambda>m. mem_UserID m = uid) (pn_Memberships n))
                        (st_ProxyNodes (sto_state s))
          in Some \<lparr>prj_User = u, prj_Policy = default_policy (st_SubscriptionPolicy (sto_state s)),
               prj_ProxyNodes = nodes,
               prj_AppliedProxyNodes = fill_map pn_ID (\<lambda>n. n) Map.empty
                 (filter (\<lambda>a. list_ex (\<lambda>n. pn_ID n = pn_ID a) nodes)
                   (st_AppliedProxyNodes (sto_state s)))\<rparr>)"

definition UserBySubscriptionToken :: "string \<Rightarrow> store \<Rightarrow> user option" where
  "UserBySubscriptionToken token s =
     (let token = trim_space token in
      if \<not> validID token ''sub_'' then None
      else case sto_subscriptionIndex s token of
        None \<Rightarrow> None
      | Some i \<Rightarrow> if i < length (st_Users (sto_state s)) then Some (st_Users (sto_state s) ! i) else None)"

definition set_token :: "string \<Rightarrow> time \<Rightarrow> user \<Rightarrow> user" where
  "set_token token now u =
     u\<lparr>usr_Subscription := (usr_Subscription u)\<lparr>us_Token := token, us_UpdatedAt := now\<rparr>, usr_UpdatedAt := now\<rparr>"

definition rotateUserSubscriptionToken ::
  "state \<Rightarrow> string \<Rightarrow> time \<Rightarrow> entropy \<Rightarrow> (state \<times> user_subscription \<times> entropy) res" where
  "rotateUserSubscriptionToken st uid now src =
     (case index_func (\<lambda>u. usr_ID u = uid) (st_Users st) of
        None \<Rightarrow> fail ErrNotFound
      | Some i \<Rightarrow>
          bindE (unique_token_attempts 3 (st_Users st) src) (\<lambda>(token, src).
          let users = update_at i (set_token token now) (st_Users st)
          in ok (st\<lparr>st_Users := users\<rparr>, usr_Subscription (users ! i), src)))"

definition RotateUserSubscription ::
  "environment \<Rightarrow> call \<Rightarrow> string \<Rightarrow> store \<Rightarrow> user_subscription res \<times> store" where
  "RotateUserSubscription env c uid s =
     (if uid = SystemAdministratorUserID
      then (fail (ErrConflict ''administrator subscription is immutable''), s)
      else mutateUser env c (\<lambda>st.
        bindE (rotateUserSubscriptionToken st uid (call_now c) (call_entropy c))
          (\<lambda>(st, sub, src). ok (st, sub))) s)"

definition ResetUserSubscriptionAndCredentials ::
  "environment \<Rightarrow> call \<Rightarrow> string \<Rightarrow> store \<Rightarrow> (user_subscription \<times> nat) res \<times> store" where
  "ResetUserSubscriptionAndCredentials env c uid s =
     (if uid = SystemAdministratorUserID
      then (fail (ErrConflict ''administrator subscription is immutable''), s)
      else mutateUser env c (\<lambda>st.
        bindE (rotateUserSubscriptionToken st uid (call_now c) (call_entropy c)) (\<lambda>(st, sub, src).
        bindE (reset_user_nodes st uid (call_now c) src) (\<lambda>(st, rotated). ok (st, sub, rotated)))) s)"

definition RevokeUserSubscription :: "environment \<Rightarrow> call \<Rightarrow> string \<Rightarrow> store \<Rightarrow> unit res \<times> store" where
  "RevokeUserSubscription env c uid s =
     (if uid = SystemAdministratorUserID
      then (fail (ErrConflict ''administrator subscription is immutable''), s)
      else mutateUser env c (\<lambda>st.
        case index_func (\<lambda>u. usr_ID u = uid) (st_Users st) of
          None \<Rightarrow> fail ErrNotFound
        | Some i \<Rightarrow> ok (st\<lparr>st_Users := update_at i (set_token [] (call_now c)) (st_Users st)\<rparr>, ())) s)"

definition SubscriptionPolicy :: "store \<Rightarrow> subscription_policy" where
  "SubscriptionPolicy s = default_policy (st_SubscriptionPolicy (sto_state s))"

definition updateSubscriptionPolicy ::
  "environment \<Rightarrow> call \<Rightarrow> (subscription_policy \<Rightarrow> (subscription_policy \<times> 'a) res) \<Rightarrow> store \<Rightarrow> 'a res \<times> store" where
  "updateSubscriptionPolicy env c mutation =
     mutateUser env c (\<lambda>st.
       bindE (mutation ((default_policy (st_SubscriptionPolicy st))\<lparr>pol_UpdatedAt := call_now c\<rparr>)) (\<lambda>(p, x).
         ok (st\<lparr>st_SubscriptionPolicy := p\<rparr>, x)))"

definition SetSubscriptionDefault ::
  "environment \<Rightarrow> call \<Rightarrow> subscription_action \<Rightarrow> store \<Rightarrow> unit res \<times> store" where
  "SetSubscriptionDefault env c action s =
     (if \<not> validSubscriptionAction action then (fail (ErrInvalidState []), s)
      else updateSubscriptionPolicy env c (\<lambda>p. ok (p\<lparr>pol_DefaultAction := action\<rparr>, ())) s)"

definition normalizeSubscriptionRuleInput :: "subscription_rule_input \<Rightarrow> subscription_rule_input" where
  "normalizeSubscriptionRuleInput input =
     input\<lparr>sri_Values := filter (\<lambda>v. v \<noteq> []) (map trim_space (sri_Values input))\<rparr>"

definition reorderSubscriptionRules :: "subscription_rule list \<Rightarrow> subscription_rule list" where
  "reorderSubscriptionRules rules = map (\<lambda>(i, r). r\<lparr>sr_Order := int i\<rparr>) (enumerated rules)"

definition AddSubscriptionRule ::
  "environment \<Rightarrow> call \<Rightarrow> subscription_rule_input \<Rightarrow> store \<Rightarrow> subscription_rule res \<times> store" where
  "AddSubscriptionRule env c input s =
     (let input = normalizeSubscriptionRuleInput input in
      case randomID ''sru'' (call_entropy c) of
        Inl e \<Rightarrow> (Inl e, s)
      | Inr (rid, src) \<Rightarrow> updateSubscriptionPolicy env c (\<lambda>p.
          let created = \<lparr>sr_ID = rid, sr_Order = int (length (pol_Rules p)), sr_Match = sri_Match input,
                sr_Values = sri_Values input, sr_NoResolve = sri_NoResolve input, sr_Provider = [],
                sr_Action = sri_Action input\<rparr>;
              candidate = p\<lparr>pol_Rules := pol_Rules p @ [created]\<rparr>
          in bindE (validateSubscriptionPolicy candidate) (\<lambda>_. ok (candidate, created))) s)"

definition UpdateSubscriptionRule ::
  "environment \<Rightarrow> call \<Rightarrow> string \<Rightarrow> subscription_rule_input \<Rightarrow> store \<Rightarrow> unit res \<times> store" where
  "UpdateSubscriptionRule env c rid input =
     (let input = normalizeSubscriptionRuleInput input in
      updateSubscriptionPolicy env c (\<lambda>p.
        case index_func (\<lambda>r. sr_ID r = rid) (pol_Rules p) of
          None \<Rightarrow> fail ErrNotFound
        | Some i \<Rightarrow>
            let candidate = p\<lparr>pol_Rules := update_at i (\<lambda>r. r\<lparr>sr_Match := sri_Match input,
                  sr_Values := sri_Values input, sr_NoResolve := sri_NoResolve input,
                  sr_Action := sri_Action input\<rparr>) (pol_Rules p)\<rparr>
            in bindE (validateSubscriptionPolicy candidate) (\<lambda>_. ok (candidate, ()))))"

definition DeleteSubscriptionRule :: "environment \<Rightarrow> call \<Rightarrow> string \<Rightarrow> store \<Rightarrow> unit res \<times> store" where
  "DeleteSubscriptionRule env c rid =
     updateSubscriptionPolicy env c (\<lambda>p.
       let rules = delete_func (\<lambda>r. sr_ID r = rid) (pol_Rules p) in
       if length rules = length (pol_Rules p) then fail ErrNotFound
       else ok (p\<lparr>pol_Rules := reorderSubscriptionRules rules\<rparr>, ()))"

definition swap_at :: "nat \<Rightarrow> nat \<Rightarrow> 'a list \<Rightarrow> 'a list" where
  "swap_at i j xs = xs[i := xs ! j, j := xs ! i]"

definition MoveSubscriptionRule ::
  "environment \<Rightarrow> call \<Rightarrow> string \<Rightarrow> int \<Rightarrow> store \<Rightarrow> unit res \<times> store" where
  "MoveSubscriptionRule env c rid direction s =
     (if direction \<noteq> -1 \<and> direction \<noteq> 1 then (fail (ErrInvalidState []), s)
      else updateSubscriptionPolicy env c (\<lambda>p.
        let rules = sort_key sr_Order (pol_Rules p) in
        case index_func (\<lambda>r. sr_ID r = rid) rules of
          None \<Rightarrow> fail ErrNotFound
        | Some i \<Rightarrow>
            let target = int i + direction in
            if target < 0 \<or> target \<ge> int (length rules) then fail (ErrConflict [])
            else ok (p\<lparr>pol_Rules := reorderSubscriptionRules (swap_at i (nat target) rules)\<rparr>, ())) s)"

text \<open>\<open>byID\<close> of the two reorder operations: the entries still to be placed, by identifier.\<close>

fun take_by_id ::
  "error \<Rightarrow> (string \<rightharpoonup> 'a) \<Rightarrow> string list \<Rightarrow> ('a list \<times> (string \<rightharpoonup> 'a)) res" where
  "take_by_id e left [] = ok ([], left)"
| "take_by_id e left (k # ks) =
     (case left k of
        None \<Rightarrow> fail e
      | Some x \<Rightarrow> bindE (take_by_id e (left(k := None)) ks) (\<lambda>(xs, left). ok (x # xs, left)))"

definition remaining :: "('a \<Rightarrow> string) \<Rightarrow> (string \<rightharpoonup> 'a) \<Rightarrow> 'a list \<Rightarrow> bool" where
  "remaining key left xs \<longleftrightarrow> list_ex (\<lambda>x. left (key x) \<noteq> None) xs"

definition ReorderSubscriptionRules ::
  "environment \<Rightarrow> call \<Rightarrow> string list \<Rightarrow> store \<Rightarrow> unit res \<times> store" where
  "ReorderSubscriptionRules env c ids =
     updateSubscriptionPolicy env c (\<lambda>p.
       if length ids \<noteq> length (pol_Rules p) then fail (ErrInvalidState [])
       else bindE (take_by_id (ErrInvalidState [])
                     (fill_map sr_ID (\<lambda>r. r) Map.empty (pol_Rules p)) ids) (\<lambda>(rules, left).
         if remaining sr_ID left (pol_Rules p) then fail (ErrInvalidState [])
         else ok (p\<lparr>pol_Rules := reorderSubscriptionRules rules\<rparr>, ())))"

end
