(* ===== verification/TopologyPlane.thy ===== *)
theory TopologyPlane
  imports UserPlane
begin

text \<open>
  The topology plane of the Store (\<open>store.go\<close>): Proxy Nodes, Hops, Links, BLOCK branches, Rules,
  rule sets and the application of a topology to the fleet. Every operation but the last two runs
  in \<open>mutate\<close>: it advances the topology revision, reconciles the shared listener secrets and
  leaves the user revision alone unless it says otherwise.
\<close>

section \<open>Inputs\<close>

record add_branch_input =
  abi_Link :: add_link_input
  abi_Match :: match_type
  abi_Values :: "string list"

record add_block_branch_input =
  abb_ParentHopID :: string
  abb_Match :: match_type
  abb_Values :: "string list"

record add_rule_input =
  ari_LinkID :: string
  ari_Match :: match_type
  ari_Values :: "string list"

record update_rule_input =
  uri_LinkID :: string
  uri_Match :: match_type
  uri_Values :: "string list"

definition bare_rule :: "match_type \<Rightarrow> string list \<Rightarrow> rule" where
  "bare_rule match vals =
     \<lparr>rul_ID = [], rul_Order = 0, rul_Match = match, rul_Values = vals, rul_LegacyTarget = None\<rparr>"

definition default_final :: "target \<Rightarrow> target" where
  "default_final t = (if tgt_Type t = TargetUnset then direct_target else t)"

definition initial_final_ok :: "target \<Rightarrow> bool" where
  "initial_final_ok t \<longleftrightarrow> (tgt_Type t = TargetDirect \<or> tgt_Type t = TargetReject) \<and> tgt_LinkID t = []"

text \<open>Editing one Proxy Node and checking the listener layout of the whole state.\<close>

definition edit_node_layout ::
  "(proxy_node \<Rightarrow> (proxy_node \<times> 'a) res) \<Rightarrow> nat \<Rightarrow> state \<Rightarrow> (state \<times> 'a) res" where
  "edit_node_layout f i st =
     bindE (edit_node f i st) (\<lambda>(st, x). bindE (validateListenerLayout st) (\<lambda>_. ok (st, x)))"

section \<open>Proxy Nodes\<close>

definition CreateProxyNode :: "environment \<Rightarrow> call \<Rightarrow> create_proxy_node_input \<Rightarrow> store \<Rightarrow> proxy_node res \<times> store" where
  "CreateProxyNode env c input s =
     (let name = normalizeDisplayName env (cpi_Name input);
          agent = trim_space (cpi_RootAgent input);
          final = default_final (cpi_Final input);
          now = call_now c
      in if \<not> validDisplayName env name then (fail (ErrInvalidState ''invalid Proxy Node name''), s)
      else if \<not> validAgentID agent then (fail (ErrInvalidState ''invalid entrance Agent''), s)
      else if \<not> initial_final_ok final
      then (fail (ErrInvalidState ''initial terminal exit must be Direct or Reject''), s)
      else case bindE (generateEndpointSecrets (normalizeEndpoint (cpi_Entrance input)) (call_entropy c))
             (\<lambda>(e, src). bindE (randomID ''pn'' src) (\<lambda>(pid, src).
              bindE (randomID ''hop'' src) (\<lambda>(hid, src). ok (e, pid, hid, src)))) of
        Inl e \<Rightarrow> (Inl e, s)
      | Inr (e, pid, hid, src) \<Rightarrow>
          let created =
            \<lparr>pn_ID = pid, pn_Name = name, pn_SubscriptionAddressMode = SubscriptionAddressIPv4,
             pn_Entrance = \<lparr>ent_HopID = hid, ent_Endpoint = e\<rparr>,
             pn_Hops = [\<lparr>hop_ID = hid, hop_Name = agent, hop_AgentID = agent, hop_LegacyRules = [],
               hop_Final = final, hop_CreatedAt = now, hop_UpdatedAt = now\<rparr>],
             pn_Links = [], pn_BlockBranches = [], pn_Memberships = [], pn_RuleSets = [],
             pn_CreatedAt = now, pn_UpdatedAt = now\<rparr>
          in mutate env c (\<lambda>st.
            if list_ex (\<lambda>n. displayNameKey env (pn_Name n) = displayNameKey env name) (st_ProxyNodes st)
            then fail (ErrConflict ''proxy node name'')
            else bindE (if st_AdministratorProxyAccessEnabled st
                   then bindE (newMembership st created SystemAdministratorUserID unlimited_plan now src)
                          (\<lambda>(m, src). ok (st\<lparr>st_UserRevision := st_UserRevision st + 1\<rparr>,
                             created\<lparr>pn_Memberships := [m]\<rparr>))
                   else ok (st, created)) (\<lambda>(st, created).
              let st = st\<lparr>st_ProxyNodes := st_ProxyNodes st @ [created]\<rparr> in
              bindE (validateListenerLayout st) (\<lambda>_. ok (st, created)))) s)"

definition RenameProxyNode :: "environment \<Rightarrow> call \<Rightarrow> string \<Rightarrow> string \<Rightarrow> store \<Rightarrow> unit res \<times> store" where
  "RenameProxyNode env c nid name s =
     (let name = normalizeDisplayName env name in
      if \<not> validDisplayName env name then (fail (ErrInvalidState ''invalid Proxy Node name''), s)
      else mutateProxyNode env c nid (\<lambda>i st.
        if list_ex (\<lambda>n. pn_ID n \<noteq> nid
             \<and> displayNameKey env (pn_Name n) = displayNameKey env name) (st_ProxyNodes st)
        then fail (ErrConflict ''proxy node name'')
        else ok (update_node i (\<lambda>n. n\<lparr>pn_Name := name\<rparr>) st, ())) s)"

definition DeleteProxyNode :: "environment \<Rightarrow> call \<Rightarrow> string \<Rightarrow> store \<Rightarrow> unit res \<times> store" where
  "DeleteProxyNode env c nid =
     mutate env c (\<lambda>st.
       case index_func (\<lambda>n. pn_ID n = nid) (st_ProxyNodes st) of
         None \<Rightarrow> fail ErrNotFound
       | Some i \<Rightarrow>
           ok (st\<lparr>st_ProxyNodes := take i (st_ProxyNodes st) @ drop (Suc i) (st_ProxyNodes st),
                 st_UserRevision := st_UserRevision st + 1\<rparr>, ()))"

definition UpdateEntrance :: "environment \<Rightarrow> call \<Rightarrow> string \<Rightarrow> endpoint \<Rightarrow> store \<Rightarrow> unit res \<times> store" where
  "UpdateEntrance env c nid e =
     mutateProxyNode env c nid (\<lambda>i st.
       bindE (applySharedListenerEdit (EntranceSlot i) (normalizeEndpoint e) (call_now c) st (call_entropy c))
         (\<lambda>(st, src). ok (st, ())))"

section \<open>Branches\<close>

text \<open>The position of the first Fallback Link below a Hop.\<close>

definition fallback_index :: "string \<Rightarrow> link list \<Rightarrow> nat option" where
  "fallback_index parent = index_func (\<lambda>l. lnk_ParentHopID l = parent \<and> lnk_Fallback l)"

text \<open>The order of a new conditional Link: before the Fallback Link, which moves up by one.\<close>

definition place_link :: "string \<Rightarrow> link list \<Rightarrow> int \<times> link list" where
  "place_link parent links =
     (case fallback_index parent links of
        None \<Rightarrow> (int (length (orderedSiblingLinkIndexes links parent)), links)
      | Some i \<Rightarrow> (lnk_Order (links ! i),
          update_at i (\<lambda>l. l\<lparr>lnk_Order := lnk_Order l + 1\<rparr>) links))"

definition add_link_to_node ::
  "link \<Rightarrow> hop \<Rightarrow> rule option \<Rightarrow> proxy_node \<Rightarrow> (proxy_node \<times> link \<times> hop \<times> rule) res" where
  "add_link_to_node new child rule node =
     (let parent = lnk_ParentHopID new in
      if \<not> list_ex (\<lambda>h. hop_ID h = parent) (pn_Hops node) then fail ErrNotFound
      else if hop_AgentID child \<in> AncestorAgentIDs node parent
      then fail (ErrConflict ''destination Agent already appears earlier in this branch'')
      else if lnk_Fallback new \<and> fallback_index parent (pn_Links node) \<noteq> None
      then fail (ErrConflict ''Hop already has an ALL fallback branch'')
      else
        let (order, links) = place_link parent (pn_Links node);
            rule = map_option (\<lambda>r. r\<lparr>rul_Order := ruleCountForHop node parent\<rparr>) rule;
            new = new\<lparr>lnk_Order := order, lnk_Rules := (case rule of None \<Rightarrow> [] | Some r \<Rightarrow> [r])\<rparr>
        in ok (node\<lparr>pn_Hops := pn_Hops node @ [child], pn_Links := links @ [new]\<rparr>, new, child,
               case rule of None \<Rightarrow> bare_rule MatchNone [] | Some r \<Rightarrow> r))"

definition addLink ::
  "environment \<Rightarrow> call \<Rightarrow> string \<Rightarrow> add_link_input \<Rightarrow> rule option \<Rightarrow> bool \<Rightarrow> entropy \<Rightarrow> store
    \<Rightarrow> (link \<times> hop \<times> rule) res \<times> store" where
  "addLink env c nid input rule fallback src s =
     (let parent = trim_space (ali_ParentHopID input);
          agent = trim_space (ali_ChildAgent input);
          final = default_final (ali_Final input);
          now = call_now c
      in if \<not> validAgentID agent then (fail (ErrInvalidState ''invalid child Hop''), s)
      else if \<not> initial_final_ok final
      then (fail (ErrInvalidState ''initial terminal exit must be Direct or Reject''), s)
      else case bindE (generateEndpointSecrets (normalizeEndpoint (ali_Endpoint input)) src) (\<lambda>(e, src).
             bindE (randomID ''lnk'' src) (\<lambda>(lid, src). bindE (randomID ''hop'' src) (\<lambda>(hid, src).
             bindE (generateCredential e src) (\<lambda>(cred, src). ok (e, lid, hid, cred))))) of
        Inl e \<Rightarrow> (Inl e, s)
      | Inr (e, lid, hid, cred) \<Rightarrow>
          let child = \<lparr>hop_ID = hid, hop_Name = agent, hop_AgentID = agent, hop_LegacyRules = [],
                hop_Final = final, hop_CreatedAt = now, hop_UpdatedAt = now\<rparr>;
              new = \<lparr>lnk_ID = lid, lnk_ParentHopID = parent, lnk_ChildHopID = hid, lnk_Order = 0,
                lnk_Rules = [], lnk_Fallback = fallback, lnk_Endpoint = e, lnk_Credential = cred,
                lnk_CreatedAt = now, lnk_UpdatedAt = now\<rparr>
          in mutateProxyNode env c nid (edit_node_layout (add_link_to_node new child rule)) s)"

definition AddLink :: "environment \<Rightarrow> call \<Rightarrow> string \<Rightarrow> add_link_input \<Rightarrow> store \<Rightarrow> (link \<times> hop) res \<times> store" where
  "AddLink env c nid input s =
     (case addLink env c nid input None False (call_entropy c) s of
        (Inl e, s) \<Rightarrow> (Inl e, s)
      | (Inr (l, h, r), s) \<Rightarrow> (Inr (l, h), s))"

definition AddBranch ::
  "environment \<Rightarrow> call \<Rightarrow> string \<Rightarrow> add_branch_input \<Rightarrow> store \<Rightarrow> (link \<times> hop \<times> rule) res \<times> store" where
  "AddBranch env c nid input s =
     (let vals = normalizeValues (abi_Values input) in
      case wrapE (ErrInvalidState ''rule'') (validateRule (bare_rule (abi_Match input) vals)) of
        Inl e \<Rightarrow> (Inl e, s)
      | Inr _ \<Rightarrow>
          if abi_Match input = MatchNone
          then addLink env c nid (abi_Link input) None True (call_entropy c) s
          else case randomID ''rul'' (call_entropy c) of
            Inl e \<Rightarrow> (Inl e, s)
          | Inr (rid, src) \<Rightarrow>
              addLink env c nid (abi_Link input)
                (Some ((bare_rule (abi_Match input) vals)\<lparr>rul_ID := rid\<rparr>)) False src s)"

definition add_block_to_node :: "block_branch \<Rightarrow> proxy_node \<Rightarrow> (proxy_node \<times> block_branch) res" where
  "add_block_to_node b node =
     (if \<not> list_ex (\<lambda>h. hop_ID h = blk_ParentHopID b) (pn_Hops node) then fail ErrNotFound
      else let b = b\<lparr>blk_Rule := (blk_Rule b)\<lparr>rul_Order := ruleCountForHop node (blk_ParentHopID b)\<rparr>\<rparr>
           in ok (node\<lparr>pn_BlockBranches := pn_BlockBranches node @ [b]\<rparr>, b))"

definition AddBlockBranch ::
  "environment \<Rightarrow> call \<Rightarrow> string \<Rightarrow> add_block_branch_input \<Rightarrow> store \<Rightarrow> block_branch res \<times> store" where
  "AddBlockBranch env c nid input s =
     (let vals = normalizeValues (abb_Values input); now = call_now c in
      if abb_Match input = MatchNone
      then (fail (ErrInvalidState ''BLOCK requires a conditional match''), s)
      else case bindE (wrapE (ErrInvalidState ''rule'') (validateRule (bare_rule (abb_Match input) vals)))
             (\<lambda>_. randomID ''rul'' (call_entropy c)) of
        Inl e \<Rightarrow> (Inl e, s)
      | Inr (rid, src) \<Rightarrow> mutateProxyNode env c nid (edit_node (add_block_to_node
          \<lparr>blk_ParentHopID = trim_space (abb_ParentHopID input),
           blk_Rule = (bare_rule (abb_Match input) vals)\<lparr>rul_ID := rid\<rparr>,
           blk_CreatedAt = now, blk_UpdatedAt = now\<rparr>)) s)"

definition link_index :: "string \<Rightarrow> proxy_node \<Rightarrow> nat res" where
  "link_index lid node = from_option ErrNotFound (index_func (\<lambda>l. lnk_ID l = lid) (pn_Links node))"

definition UpdateLink :: "environment \<Rightarrow> call \<Rightarrow> string \<Rightarrow> string \<Rightarrow> endpoint \<Rightarrow> store \<Rightarrow> unit res \<times> store" where
  "UpdateLink env c nid lid e =
     mutateProxyNode env c nid (\<lambda>i st.
       bindE (link_index lid (st_ProxyNodes st ! i)) (\<lambda>j.
       bindE (applySharedListenerEdit (LinkSlot i j) (normalizeEndpoint e) (call_now c) st (call_entropy c))
         (\<lambda>(st, src). ok (st, ()))))"

definition move_hop :: "string \<Rightarrow> string \<Rightarrow> time \<Rightarrow> proxy_node \<Rightarrow> (proxy_node \<times> unit) res" where
  "move_hop hid agent now node =
     (case index_func (\<lambda>h. hop_ID h = hid) (pn_Hops node) of
        None \<Rightarrow> fail ErrNotFound
      | Some i \<Rightarrow> ok (node\<lparr>pn_Hops := update_at i
          (\<lambda>h. h\<lparr>hop_Name := agent, hop_AgentID := agent, hop_UpdatedAt := now\<rparr>) (pn_Hops node)\<rparr>, ()))"

definition MoveHop :: "environment \<Rightarrow> call \<Rightarrow> string \<Rightarrow> string \<Rightarrow> string \<Rightarrow> store \<Rightarrow> unit res \<times> store" where
  "MoveHop env c nid hid agent s =
     (let agent = trim_space agent in
      if \<not> validAgentID agent then (fail (ErrInvalidState ''invalid Hop''), s)
      else mutateProxyNode env c nid (edit_node_layout (move_hop hid agent (call_now c))) s)"

definition UpdateHop ::
  "environment \<Rightarrow> call \<Rightarrow> string \<Rightarrow> string \<Rightarrow> string \<Rightarrow> string \<Rightarrow> store \<Rightarrow> unit res \<times> store" where
  "UpdateHop env c nid hid name agent = MoveHop env c nid hid agent"

text \<open>Removing the Hops of a branch with everything attached to them, except one Link.\<close>

definition remove_hops :: "string set \<Rightarrow> (link \<Rightarrow> bool) \<Rightarrow> proxy_node \<Rightarrow> proxy_node" where
  "remove_hops removed drop_link node =
     node\<lparr>pn_Hops := delete_func (\<lambda>h. hop_ID h \<in> removed) (pn_Hops node),
          pn_Links := delete_func drop_link (pn_Links node),
          pn_BlockBranches := delete_func (\<lambda>b. blk_ParentHopID b \<in> removed) (pn_BlockBranches node)\<rparr>"

definition touches :: "string set \<Rightarrow> link \<Rightarrow> bool" where
  "touches removed l \<longleftrightarrow> lnk_ParentHopID l \<in> removed \<or> lnk_ChildHopID l \<in> removed"

definition replace_destination ::
  "string \<Rightarrow> hop \<Rightarrow> endpoint \<Rightarrow> credential \<Rightarrow> time \<Rightarrow> proxy_node \<Rightarrow> (proxy_node \<times> hop) res" where
  "replace_destination lid created e cred now node =
     bindE (link_index lid node) (\<lambda>i.
     let root = pn_Links node ! i in
     if hop_AgentID created \<in> AncestorAgentIDs node (lnk_ParentHopID root)
     then fail (ErrConflict ''destination Agent already appears earlier in this branch'')
     else
       let removed = descendantHops node (lnk_ChildHopID root);
           node = remove_hops removed (\<lambda>l. lnk_ID l \<noteq> lid \<and> touches removed l) node;
           node = node\<lparr>pn_Hops := pn_Hops node @ [created]\<rparr>
       in bindE (link_index lid node) (\<lambda>i.
          let node = node\<lparr>pn_Links := update_at i (\<lambda>l. l\<lparr>lnk_ChildHopID := hop_ID created,
                lnk_Endpoint := e, lnk_Credential := cred, lnk_UpdatedAt := now\<rparr>) (pn_Links node)\<rparr>
          in ok (normalizeRuleOrders (normalizeLinkOrders node), created)))"

definition ReplaceLinkDestination ::
  "environment \<Rightarrow> call \<Rightarrow> string \<Rightarrow> string \<Rightarrow> string \<Rightarrow> endpoint \<Rightarrow> target \<Rightarrow> store \<Rightarrow> hop res \<times> store" where
  "ReplaceLinkDestination env c nid lid agent e final s =
     (let agent = trim_space agent; final = default_final final; now = call_now c in
      if \<not> validAgentID agent then (fail (ErrInvalidState ''invalid destination Agent''), s)
      else if \<not> initial_final_ok final
      then (fail (ErrInvalidState ''replacement terminal exit must be Direct or Reject''), s)
      else case bindE (generateEndpointSecrets (normalizeEndpoint e) (call_entropy c)) (\<lambda>(e, src).
             bindE (randomID ''hop'' src) (\<lambda>(hid, src).
             bindE (generateCredential e src) (\<lambda>(cred, src). ok (e, hid, cred)))) of
        Inl e \<Rightarrow> (Inl e, s)
      | Inr (e, hid, cred) \<Rightarrow>
          mutateProxyNode env c nid (edit_node_layout (replace_destination lid
            \<lparr>hop_ID = hid, hop_Name = agent, hop_AgentID = agent, hop_LegacyRules = [],
             hop_Final = final, hop_CreatedAt = now, hop_UpdatedAt = now\<rparr> e cred now)) s)"

definition delete_link :: "string \<Rightarrow> proxy_node \<Rightarrow> (proxy_node \<times> unit) res" where
  "delete_link lid node =
     bindE (link_index lid node) (\<lambda>i.
       let removed = descendantHops node (lnk_ChildHopID (pn_Links node ! i));
           remove_links = lnk_ID ` {l \<in> set (pn_Links node). lnk_ID l = lid \<or> touches removed l};
           node = remove_hops removed (\<lambda>l. lnk_ID l \<in> remove_links) node
       in ok (normalizeRuleOrders (normalizeLinkOrders node), ()))"

definition DeleteLink :: "environment \<Rightarrow> call \<Rightarrow> string \<Rightarrow> string \<Rightarrow> store \<Rightarrow> unit res \<times> store" where
  "DeleteLink env c nid lid = mutateProxyNode env c nid (edit_node (delete_link lid))"

section \<open>Rules\<close>

definition other_fallback :: "string \<Rightarrow> string \<Rightarrow> link list \<Rightarrow> bool" where
  "other_fallback lid parent links \<longleftrightarrow>
     list_ex (\<lambda>l. lnk_ID l \<noteq> lid \<and> lnk_ParentHopID l = parent \<and> lnk_Fallback l) links"

definition add_rule_to_node ::
  "string \<Rightarrow> rule \<Rightarrow> time \<Rightarrow> entropy \<Rightarrow> nat \<Rightarrow> state \<Rightarrow> (state \<times> rule) res" where
  "add_rule_to_node lid created now src ni st =
     (let node = st_ProxyNodes st ! ni; put = (\<lambda>n. st\<lparr>st_ProxyNodes := (st_ProxyNodes st)[ni := n]\<rparr>) in
      bindE (link_index lid node) (\<lambda>i.
      let l = pn_Links node ! i; parent = lnk_ParentHopID l in
      if lnk_Fallback l then fail (ErrConflict ''fallback Link cannot contain match rules'')
      else if rul_Match created = MatchNone then
        (if other_fallback (lnk_ID l) parent (pn_Links node)
         then fail (ErrConflict ''Hop already has an ALL fallback branch'')
         else if lnk_Rules l = [] then
           ok (put (normalizeLinkOrders (node\<lparr>pn_Links := update_at i
                 (\<lambda>l. l\<lparr>lnk_Fallback := True, lnk_UpdatedAt := now\<rparr>) (pn_Links node)\<rparr>)), created)
         else if length (lnk_Rules l) \<noteq> 1
         then fail (ErrInvalidState ''Link has more than one routing Rule'')
         else bindE (cloneLinkBranch node l now src) (\<lambda>(root, copy, src).
           let root = root\<lparr>lnk_Rules := [], lnk_Fallback := True,
                 lnk_Order := int (length (orderedSiblingLinkIndexes (pn_Links node) parent))\<rparr>;
               st = put (normalizeLinkOrders (append_branch root copy node))
           in bindE (validateListenerLayout st) (\<lambda>_. ok (st, created))))
      else
        let created = created\<lparr>rul_Order := ruleCountForHop node parent\<rparr> in
        if lnk_Rules l = [] then
          ok (put (node\<lparr>pn_Links := update_at i
                (\<lambda>l. l\<lparr>lnk_Rules := [created], lnk_UpdatedAt := now\<rparr>) (pn_Links node)\<rparr>), created)
        else if length (lnk_Rules l) \<noteq> 1
        then fail (ErrInvalidState ''Link has more than one routing Rule'')
        else bindE (cloneLinkBranch node l now src) (\<lambda>(root, copy, src).
          let (order, links) = place_link parent (pn_Links node);
              root = root\<lparr>lnk_Rules := [created], lnk_Order := order\<rparr>;
              st = put (append_branch root copy (node\<lparr>pn_Links := links\<rparr>))
          in bindE (validateListenerLayout st) (\<lambda>_. ok (st, created)))))"

definition AddRule :: "environment \<Rightarrow> call \<Rightarrow> string \<Rightarrow> add_rule_input \<Rightarrow> store \<Rightarrow> rule res \<times> store" where
  "AddRule env c nid input s =
     (let vals = normalizeValues (ari_Values input); rule = bare_rule (ari_Match input) vals in
      case bindE (wrapE (ErrInvalidState ''rule'') (validateRule rule)) (\<lambda>_.
             if ari_Match input = MatchNone then ok (rule, call_entropy c)
             else bindE (randomID ''rul'' (call_entropy c)) (\<lambda>(rid, src). ok (rule\<lparr>rul_ID := rid\<rparr>, src))) of
        Inl e \<Rightarrow> (Inl e, s)
      | Inr (created, src) \<Rightarrow>
          mutateProxyNode env c nid (add_rule_to_node (ari_LinkID input) created (call_now c) src) s)"

definition update_rule_in_node ::
  "string \<Rightarrow> update_rule_input \<Rightarrow> string list \<Rightarrow> time \<Rightarrow> proxy_node \<Rightarrow> (proxy_node \<times> unit) res" where
  "update_rule_in_node rid input vals now node =
     bindE (link_index (uri_LinkID input) node) (\<lambda>i.
     let l = pn_Links node ! i in
     bindE (from_option ErrNotFound (index_func (\<lambda>r. rul_ID r = rid) (lnk_Rules l))) (\<lambda>j.
     if uri_Match input = MatchNone then
       (if other_fallback (lnk_ID l) (lnk_ParentHopID l) (pn_Links node)
        then fail (ErrConflict ''Hop already has an ALL fallback branch'')
        else ok (normalizeRuleOrders (normalizeLinkOrders (node\<lparr>pn_Links := update_at i
               (\<lambda>l. l\<lparr>lnk_Rules := [], lnk_Fallback := True, lnk_UpdatedAt := now\<rparr>) (pn_Links node)\<rparr>)), ()))
     else ok (node\<lparr>pn_Links := update_at i
            (\<lambda>l. l\<lparr>lnk_Rules := update_at j (\<lambda>r. r\<lparr>rul_Match := uri_Match input, rul_Values := vals\<rparr>)
                (lnk_Rules l), lnk_UpdatedAt := now\<rparr>) (pn_Links node)\<rparr>, ())))"

definition UpdateRule ::
  "environment \<Rightarrow> call \<Rightarrow> string \<Rightarrow> string \<Rightarrow> update_rule_input \<Rightarrow> store \<Rightarrow> unit res \<times> store" where
  "UpdateRule env c nid rid input s =
     (let vals = normalizeValues (uri_Values input) in
      case wrapE (ErrInvalidState ''rule'') (validateRule (bare_rule (uri_Match input) vals)) of
        Inl e \<Rightarrow> (Inl e, s)
      | Inr _ \<Rightarrow> mutateProxyNode env c nid (edit_node (update_rule_in_node rid input vals (call_now c))) s)"

definition delete_rule :: "string \<Rightarrow> string \<Rightarrow> proxy_node \<Rightarrow> (proxy_node \<times> unit) res" where
  "delete_rule lid rid node =
     bindE (link_index lid node) (\<lambda>i.
       let rules = lnk_Rules (pn_Links node ! i);
           kept = delete_func (\<lambda>r. rul_ID r = rid) rules
       in if length kept = length rules then fail ErrNotFound
          else ok (normalizeRuleOrders (node\<lparr>pn_Links := update_at i
                 (\<lambda>l. l\<lparr>lnk_Rules := kept\<rparr>) (pn_Links node)\<rparr>), ()))"

definition DeleteRule :: "environment \<Rightarrow> call \<Rightarrow> string \<Rightarrow> string \<Rightarrow> string \<Rightarrow> store \<Rightarrow> unit res \<times> store" where
  "DeleteRule env c nid lid rid = mutateProxyNode env c nid (edit_node (delete_rule lid rid))"

text \<open>The common tail of \<open>MoveRule\<close> and \<open>MoveBlockBranch\<close>.\<close>

definition move_ordered :: "string \<Rightarrow> string \<Rightarrow> int \<Rightarrow> proxy_node \<Rightarrow> proxy_node" where
  "move_ordered rid parent delta node =
     (let ordered = orderedRulesForHop node parent in
      case index_func (\<lambda>e. rul_ID (or_rule e) = rid) ordered of
        None \<Rightarrow> node
      | Some i \<Rightarrow>
          let target = int i + delta in
          if target < 0 \<or> target \<ge> int (length ordered) then node
          else applyRuleOrder (swap_at i (nat target) ordered) node)"

definition move_rule :: "string \<Rightarrow> string \<Rightarrow> int \<Rightarrow> proxy_node \<Rightarrow> (proxy_node \<times> unit) res" where
  "move_rule lid rid delta node =
     bindE (link_index lid node) (\<lambda>i.
       if \<not> list_ex (\<lambda>r. rul_ID r = rid) (lnk_Rules (pn_Links node ! i)) then fail ErrNotFound
       else ok (move_ordered rid (lnk_ParentHopID (pn_Links node ! i)) delta node, ()))"

definition MoveRule ::
  "environment \<Rightarrow> call \<Rightarrow> string \<Rightarrow> string \<Rightarrow> string \<Rightarrow> int \<Rightarrow> store \<Rightarrow> unit res \<times> store" where
  "MoveRule env c nid lid rid delta s =
     (if delta \<noteq> -1 \<and> delta \<noteq> 1 then (fail (ErrInvalidState ''invalid Rule movement''), s)
      else mutateProxyNode env c nid (edit_node (move_rule lid rid delta)) s)"

definition block_index :: "string \<Rightarrow> proxy_node \<Rightarrow> nat res" where
  "block_index rid node =
     from_option ErrNotFound (index_func (\<lambda>b. rul_ID (blk_Rule b) = rid) (pn_BlockBranches node))"

definition UpdateBlockBranch ::
  "environment \<Rightarrow> call \<Rightarrow> string \<Rightarrow> string \<Rightarrow> update_rule_input \<Rightarrow> store \<Rightarrow> unit res \<times> store" where
  "UpdateBlockBranch env c nid rid input s =
     (let vals = normalizeValues (uri_Values input) in
      if uri_Match input = MatchNone
      then (fail (ErrInvalidState ''BLOCK requires a conditional match''), s)
      else case wrapE (ErrInvalidState ''rule'') (validateRule (bare_rule (uri_Match input) vals)) of
        Inl e \<Rightarrow> (Inl e, s)
      | Inr _ \<Rightarrow> mutateProxyNode env c nid (edit_node (\<lambda>node.
          bindE (block_index rid node) (\<lambda>i.
            ok (node\<lparr>pn_BlockBranches := update_at i (\<lambda>b. b\<lparr>blk_Rule := (blk_Rule b)\<lparr>
                   rul_Match := uri_Match input, rul_Values := vals\<rparr>, blk_UpdatedAt := call_now c\<rparr>)
                 (pn_BlockBranches node)\<rparr>, ())))) s)"

definition delete_block :: "string \<Rightarrow> proxy_node \<Rightarrow> (proxy_node \<times> unit) res" where
  "delete_block rid node =
     (let kept = delete_func (\<lambda>b. rul_ID (blk_Rule b) = rid) (pn_BlockBranches node) in
      if length kept = length (pn_BlockBranches node) then fail ErrNotFound
      else ok (normalizeRuleOrders (node\<lparr>pn_BlockBranches := kept\<rparr>), ()))"

definition DeleteBlockBranch :: "environment \<Rightarrow> call \<Rightarrow> string \<Rightarrow> string \<Rightarrow> store \<Rightarrow> unit res \<times> store" where
  "DeleteBlockBranch env c nid rid = mutateProxyNode env c nid (edit_node (delete_block rid))"

definition MoveBlockBranch :: "environment \<Rightarrow> call \<Rightarrow> string \<Rightarrow> string \<Rightarrow> int \<Rightarrow> store \<Rightarrow> unit res \<times> store" where
  "MoveBlockBranch env c nid rid delta s =
     (if delta \<noteq> -1 \<and> delta \<noteq> 1 then (fail (ErrInvalidState ''invalid Rule movement''), s)
      else mutateProxyNode env c nid (edit_node (\<lambda>node.
        bindE (block_index rid node) (\<lambda>i.
          ok (move_ordered rid (blk_ParentHopID (pn_BlockBranches node ! i)) delta node, ())))) s)"

definition reorder_rules :: "string \<Rightarrow> string list \<Rightarrow> proxy_node \<Rightarrow> (proxy_node \<times> unit) res" where
  "reorder_rules hid ids node =
     (if \<not> list_ex (\<lambda>h. hop_ID h = hid) (pn_Hops node) then fail ErrNotFound
      else
        let ordered = orderedRulesForHop node hid; key = (\<lambda>e. rul_ID (or_rule e)) in
        if length ids \<noteq> length ordered then fail (ErrConflict ''reordered Rule set is incomplete'')
        else bindE (take_by_id (ErrConflict ''reordered Rule does not belong to this Hop'')
                      (fill_map key (\<lambda>e. e) Map.empty ordered) ids) (\<lambda>(next, left).
          if remaining key left ordered
          then fail (ErrConflict ''reordered Rule set contains duplicates'')
          else ok (applyRuleOrder next node, ())))"

definition ReorderRules ::
  "environment \<Rightarrow> call \<Rightarrow> string \<Rightarrow> string \<Rightarrow> string list \<Rightarrow> store \<Rightarrow> unit res \<times> store" where
  "ReorderRules env c nid hid ids = mutateProxyNode env c nid (edit_node (reorder_rules hid ids))"

section \<open>The order and the fallback of Links\<close>

definition move_link :: "string \<Rightarrow> int \<Rightarrow> proxy_node \<Rightarrow> (proxy_node \<times> unit) res" where
  "move_link lid delta node =
     bindE (link_index lid node) (\<lambda>i.
       let links = pn_Links node; l = links ! i;
           siblings = orderedSiblingLinkIndexes links (lnk_ParentHopID l)
       in case index_func (\<lambda>k. k = i) siblings of
         None \<Rightarrow> ok (node, ())
       | Some position \<Rightarrow>
           let target = int position + delta in
           if target < 0 \<or> target \<ge> int (length siblings) then ok (node, ())
           else
             let j = siblings ! nat target in
             if (lnk_Fallback l \<and> delta < 0) \<or> (lnk_Fallback (links ! j) \<and> delta > 0)
             then fail (ErrConflict ''fallback Link must remain last'')
             else ok (node\<lparr>pn_Links := update_at j (\<lambda>other. other\<lparr>lnk_Order := lnk_Order l\<rparr>)
                    (update_at i (\<lambda>l. l\<lparr>lnk_Order := lnk_Order (links ! j)\<rparr>) links)\<rparr>, ()))"

definition MoveLink :: "environment \<Rightarrow> call \<Rightarrow> string \<Rightarrow> string \<Rightarrow> int \<Rightarrow> store \<Rightarrow> unit res \<times> store" where
  "MoveLink env c nid lid delta s =
     (if delta \<noteq> -1 \<and> delta \<noteq> 1 then (fail (ErrInvalidState ''invalid Link movement''), s)
      else mutateProxyNode env c nid (edit_node (move_link lid delta)) s)"

definition set_link_fallback :: "string \<Rightarrow> bool \<Rightarrow> proxy_node \<Rightarrow> (proxy_node \<times> unit) res" where
  "set_link_fallback lid fallback node =
     bindE (link_index lid node) (\<lambda>i.
       let parent = lnk_ParentHopID (pn_Links node ! i) in
       if fallback then
         let links = map (\<lambda>l. if lnk_ParentHopID l = parent then l\<lparr>lnk_Fallback := False\<rparr> else l) (pn_Links node);
             links = update_at i (\<lambda>l. l\<lparr>lnk_Rules := [], lnk_Fallback := True\<rparr>) links
         in ok (normalizeRuleOrders (normalizeLinkOrders (node\<lparr>pn_Links := links\<rparr>)), ())
       else ok (node\<lparr>pn_Links := update_at i (\<lambda>l. l\<lparr>lnk_Fallback := False\<rparr>) (pn_Links node)\<rparr>, ()))"

definition SetLinkFallback :: "environment \<Rightarrow> call \<Rightarrow> string \<Rightarrow> string \<Rightarrow> bool \<Rightarrow> store \<Rightarrow> unit res \<times> store" where
  "SetLinkFallback env c nid lid fallback = mutateProxyNode env c nid (edit_node (set_link_fallback lid fallback))"

definition SetFinal :: "environment \<Rightarrow> call \<Rightarrow> string \<Rightarrow> string \<Rightarrow> target \<Rightarrow> store \<Rightarrow> unit res \<times> store" where
  "SetFinal env c nid hid t =
     mutateProxyNode env c nid (edit_node (\<lambda>node.
       case index_func (\<lambda>h. hop_ID h = hid) (pn_Hops node) of
         None \<Rightarrow> fail ErrNotFound
       | Some i \<Rightarrow> ok (node\<lparr>pn_Hops := update_at i
           (\<lambda>h. h\<lparr>hop_Final := t, hop_UpdatedAt := call_now c\<rparr>) (pn_Hops node)\<rparr>, ())))"

section \<open>Rule sets\<close>

definition UpsertRuleSet :: "environment \<Rightarrow> call \<Rightarrow> string \<Rightarrow> custom_rule_set \<Rightarrow> store \<Rightarrow> unit res \<times> store" where
  "UpsertRuleSet env c nid r =
     (let r = r\<lparr>rs_Tag := trim_space (rs_Tag r), rs_URL := trim_space (rs_URL r), rs_Format := ''binary'',
            rs_UpdateInterval := (if trim_space (rs_UpdateInterval r) = [] then ''1d'' else rs_UpdateInterval r)\<rparr>
      in mutateProxyNode env c nid (edit_node (\<lambda>node.
        ok (node\<lparr>pn_RuleSets := (case index_func (\<lambda>q. rs_Tag q = rs_Tag r) (pn_RuleSets node) of
                None \<Rightarrow> pn_RuleSets node @ [r]
              | Some i \<Rightarrow> (pn_RuleSets node)[i := r])\<rparr>, ()))))"

definition delete_rule_set :: "string \<Rightarrow> proxy_node \<Rightarrow> (proxy_node \<times> unit) res" where
  "delete_rule_set tag node =
     (let kept = delete_func (\<lambda>r. rs_Tag r = tag) (pn_RuleSets node) in
      if length kept = length (pn_RuleSets node) then fail ErrNotFound
      else if list_ex (\<lambda>l. list_ex (\<lambda>r. rul_Match r = MatchRuleSet \<and> tag \<in> set (rul_Values r)) (lnk_Rules l))
             (pn_Links node)
      then fail (ErrConflict ''Rule Set is still referenced'')
      else ok (node\<lparr>pn_RuleSets := kept\<rparr>, ()))"

definition DeleteRuleSet :: "environment \<Rightarrow> call \<Rightarrow> string \<Rightarrow> string \<Rightarrow> store \<Rightarrow> unit res \<times> store" where
  "DeleteRuleSet env c nid tag = mutateProxyNode env c nid (edit_node (delete_rule_set tag))"

section \<open>Applying a topology\<close>

text \<open>\<open>sort.Strings\<close> followed by \<open>slices.Compact\<close>.\<close>

definition sorted_agents :: "string list \<Rightarrow> string list" where
  "sorted_agents ids = remdups_adj (sort ids)"

definition SetManagedAgents :: "environment \<Rightarrow> call \<Rightarrow> string list \<Rightarrow> store \<Rightarrow> unit res \<times> store" where
  "SetManagedAgents env c ids =
     mutate env c (\<lambda>st. ok (st\<lparr>st_ManagedAgents := sorted_agents ids\<rparr>, ()))"

definition topologySnapshot :: "proxy_node list \<Rightarrow> proxy_node list" where
  "topologySnapshot =
     map (\<lambda>n. n\<lparr>pn_Memberships := [], pn_SubscriptionAddressMode := SubscriptionAddressUnset\<rparr>)"

definition activate_membership :: "membership \<Rightarrow> membership" where
  "activate_membership m =
     (case mem_PendingCredential m of
        None \<Rightarrow> m
      | Some p \<Rightarrow> m\<lparr>mem_Credential := p, mem_PendingCredential := None\<rparr>)"

definition applied_state :: "string list \<Rightarrow> state \<Rightarrow> state" where
  "applied_state agents st =
     (let nodes = map (\<lambda>n. n\<lparr>pn_Memberships := map activate_membership (pn_Memberships n)\<rparr>) (st_ProxyNodes st)
      in st\<lparr>st_ProxyNodes := nodes, st_AppliedProxyNodes := topologySnapshot nodes,
            st_AppliedRevision := st_Revision st, st_ManagedAgents := sorted_agents agents,
            st_UserRevision := st_UserRevision st + 1\<rparr>)"

text \<open>The tail \<open>MarkTopologyApplied\<close> and \<open>RestoreTopology\<close> share.\<close>

definition install :: "environment \<Rightarrow> call \<Rightarrow> state \<Rightarrow> store \<Rightarrow> unit res \<times> store" where
  "install env c next s =
     (case validateStoredState env next of
        Inl e \<Rightarrow> (Inl e, s)
      | Inr _ \<Rightarrow> persistStateAndAccountingLocked (call_faults c) next
          (normalizeBuild (sto_build s) (call_build c)) s)"

definition MarkTopologyApplied :: "environment \<Rightarrow> call \<Rightarrow> u64 \<Rightarrow> string list \<Rightarrow> store \<Rightarrow> unit res \<times> store" where
  "MarkTopologyApplied env c expected agents s =
     (if st_Revision (sto_state s) \<noteq> expected then (fail (ErrConflict []), s)
      else install env c (applied_state agents (sto_state s)) s)"

definition restore_membership :: "membership \<Rightarrow> membership \<Rightarrow> membership" where
  "restore_membership old live =
     old\<lparr>mem_MonthlyQuotaBytes := mem_MonthlyQuotaBytes live, mem_UsedBytes := mem_UsedBytes live,
         mem_QuotaAnchorDay := mem_QuotaAnchorDay live,
         mem_QuotaPeriodStartedOn := mem_QuotaPeriodStartedOn live,
         mem_QuotaResetsAfter := mem_QuotaResetsAfter live,
         mem_SubscriptionStartedAt := mem_SubscriptionStartedAt live,
         mem_SubscriptionEndsAfter := mem_SubscriptionEndsAfter live,
         mem_SubscriptionValue := mem_SubscriptionValue live,
         mem_SubscriptionUnit := mem_SubscriptionUnit live,
         mem_LegacySubscriptionMonths := 0, mem_Credential := mem_Credential live,
         mem_DisabledReason := mem_DisabledReason live\<rparr>"

definition mergeRestoredMemberships :: "membership list \<Rightarrow> membership list \<Rightarrow> membership list" where
  "mergeRestoredMemberships previous current =
     (let previous_by_id = fill_map mem_ID (\<lambda>m. m) Map.empty previous in
      map (\<lambda>live. case previous_by_id (mem_ID live) of
             None \<Rightarrow> live\<lparr>mem_PendingCredential := None\<rparr>
           | Some old \<Rightarrow> restore_membership old live) current)"

definition restored_node :: "state \<Rightarrow> proxy_node \<Rightarrow> proxy_node" where
  "restored_node st old =
     (let ms = (case fill_map pn_ID (\<lambda>n. n) Map.empty (st_ProxyNodes st) (pn_ID old) of
            None \<Rightarrow> pn_Memberships old
          | Some current \<Rightarrow> mergeRestoredMemberships (pn_Memberships old) (pn_Memberships current));
          live = usr_ID ` set (st_Users st)
      in old\<lparr>pn_Memberships := delete_func (\<lambda>m. mem_UserID m \<notin> live) ms\<rparr>)"

definition RestoreTopology :: "environment \<Rightarrow> call \<Rightarrow> u64 \<Rightarrow> state \<Rightarrow> store \<Rightarrow> unit res \<times> store" where
  "RestoreTopology env c expected previous s =
     (if st_Revision (sto_state s) \<noteq> expected then (fail (ErrConflict []), s)
      else
        let st = sto_state s in
        install env c (st\<lparr>st_ProxyNodes := map (restored_node st) (st_ProxyNodes previous),
          st_Revision := st_Revision st + 1, st_UserRevision := st_UserRevision st + 1\<rparr>) s)"

definition uses_agent :: "string \<Rightarrow> proxy_node \<Rightarrow> bool" where
  "uses_agent agent n \<longleftrightarrow> list_ex (\<lambda>h. hop_AgentID h = agent) (pn_Hops n)"

definition RequireAgentUnreferenced :: "string \<Rightarrow> store \<Rightarrow> unit res" where
  "RequireAgentUnreferenced agent s =
     (let agent = trim_space agent; st = sto_state s in
      if \<not> validAgentID agent then fail (ErrInvalidState ''invalid Agent ID'')
      else if list_ex (uses_agent agent) (st_ProxyNodes st) \<or> list_ex (uses_agent agent) (st_AppliedProxyNodes st)
      then fail (ErrAgentReferenced ''Agent is used by a Proxy Node'')
      else if agent \<in> set (st_ManagedAgents st)
      then fail (ErrAgentReferenced ''Agent still owns an applied managed configuration'')
      else ok ())"

end
