(* ===== verification/Billing.thy ===== *)
theory Billing
  imports TopologyPlane
begin

text \<open>
  Traffic accounting and the billing clock (\<open>billing.go\<close>, \<open>agent_usage.go\<close>): which Membership a
  reported counter belongs to, how a report changes its usage, and the transitions at the end of a
  quota period and of a subscription.

  A pointer to a Membership is the pair of the positions of its Proxy Node and of itself. The keys
  \<open>path + "\x00" + username\<close> of the source are pairs. The catch-up loop of \<open>advanceBilling\<close> is
  a partial function: \<open>None\<close> means that it never returns.
\<close>

section \<open>Accounting failures\<close>

text \<open>The applied Proxy Nodes whose entrance runs on an Agent, with the position of the live node.\<close>

definition live_index :: "state \<Rightarrow> string \<Rightarrow> nat option" where
  "live_index st nid =
     fill_map (\<lambda>(i, n). pn_ID n) fst Map.empty (enumerated (st_ProxyNodes st)) nid"

definition entrance_agent :: "proxy_node \<Rightarrow> string option" where
  "entrance_agent n =
     map_option hop_AgentID (find (\<lambda>h. hop_ID h = ent_HopID (pn_Entrance n)) (pn_Hops n))"

definition agentHasActiveEntranceMembership :: "state \<Rightarrow> string \<Rightarrow> bool" where
  "agentHasActiveEntranceMembership st agent \<longleftrightarrow>
     list_ex (\<lambda>a. entrance_agent a = Some agent \<and>
       (case live_index st (pn_ID a) of
          None \<Rightarrow> False
        | Some i \<Rightarrow> list_ex (\<lambda>m. mem_DisabledReason m = MembershipEnabled)
            (pn_Memberships (st_ProxyNodes st ! i)))) (st_AppliedProxyNodes st)"

definition RecordAccountingFailure ::
  "environment \<Rightarrow> call \<Rightarrow> string \<Rightarrow> string \<Rightarrow> time \<Rightarrow> store \<Rightarrow> bool res \<times> store" where
  "RecordAccountingFailure env c agent reason occurred s =
     (let agent = trim_space agent; reason = trim_space reason in
      if \<not> validAgentID agent \<or> \<not> validAccountingFailureReason reason \<or> occurred = 0
      then (fail (ErrInvalidState ''invalid accounting failure''), s)
      else mutateBilling env c (\<lambda>st.
        if \<not> agentHasActiveEntranceMembership st agent then ok (st, False)
        else
          let failures = st_AccountingFailures st
                @ [\<lparr>af_AgentID = agent, af_Reason = reason, af_OccurredAt = occurred\<rparr>]
          in ok (st\<lparr>st_AccountingFailures :=
                if length failures > 256 then drop (length failures - 256) failures else failures\<rparr>, False)) s)"

definition ClearAccountingFailures :: "environment \<Rightarrow> call \<Rightarrow> store \<Rightarrow> bool res \<times> store" where
  "ClearAccountingFailures env c =
     mutateBilling env c (\<lambda>st. ok (st\<lparr>st_AccountingFailures := []\<rparr>, False))"

definition ResetMembershipTraffic ::
  "environment \<Rightarrow> call \<Rightarrow> string \<Rightarrow> string \<Rightarrow> store \<Rightarrow> bool res \<times> store" where
  "ResetMembershipTraffic env c nid uid s =
     (if uid = SystemAdministratorUserID
      then (fail (ErrConflict ''administrator Membership is immutable''), s)
      else mutateBilling env c (\<lambda>st.
        case index_func (\<lambda>n. pn_ID n = nid) (st_ProxyNodes st) of
          None \<Rightarrow> fail ErrNotFound
        | Some i \<Rightarrow>
            (case membershipForUser (st_ProxyNodes st ! i) uid of
               None \<Rightarrow> fail ErrNotFound
             | Some j \<Rightarrow>
                 let m = pn_Memberships (st_ProxyNodes st ! i) ! j;
                     m' = recomputeMembershipStatus (call_now c) (m\<lparr>mem_UsedBytes := 0\<rparr>)
                 in ok (update_node i (\<lambda>n. n\<lparr>pn_Memberships := (pn_Memberships n)[j := m']\<rparr>) st,
                        mem_DisabledReason m \<noteq> mem_DisabledReason m'))) s)"

section \<open>Traffic identities\<close>

definition shortID :: "string \<Rightarrow> string" where
  "shortID uid =
     (let tail = (if contains_byte (CHR ''_'') uid then tl (dropWhile (\<lambda>c. c \<noteq> CHR ''_'') uid) else uid)
      in take 12 tail)"

definition AuthenticatedUserLabel :: "string \<Rightarrow> string" where
  "AuthenticatedUserLabel mid = mid @ ''-m-'' @ shortID mid"

definition trafficAliasKey :: "string \<Rightarrow> string \<Rightarrow> (string \<times> string) option" where
  "trafficAliasKey path username =
     (case last_index ''-m-'' username of
        None \<Rightarrow> None
      | Some marker \<Rightarrow>
          let suffix = drop (marker + 3) username in
          if length suffix \<noteq> 12 then None
          else if list_all id_tail_byte suffix then Some (path, suffix) else None)"

type_synonym position = "nat \<times> nat"
type_synonym traffic_index = "(string \<times> string) \<rightharpoonup> position"

definition membership_at :: "state \<Rightarrow> position \<Rightarrow> membership" where
  "membership_at st = (\<lambda>(i, j). pn_Memberships (st_ProxyNodes st ! i) ! j)"

definition register_membership ::
  "state \<Rightarrow> string \<Rightarrow> string \<Rightarrow> nat \<Rightarrow> traffic_index \<times> traffic_index \<Rightarrow> nat \<Rightarrow> (traffic_index \<times> traffic_index) res"
where
  "register_membership st path applied_name i = (\<lambda>(targets, aliases) j.
     let m = membership_at st (i, j);
         label = AuthenticatedUserLabel (mem_ID m)
     in if targets (path, label) \<noteq> None then fail (ErrOther ''ambiguous managed-user traffic identity'')
        else case trafficAliasKey path label of
          None \<Rightarrow> fail (ErrOther ''invalid managed-user traffic identity'')
        | Some alias_key \<Rightarrow>
            if (case aliases alias_key of None \<Rightarrow> False | Some p \<Rightarrow> mem_ID (membership_at st p) \<noteq> mem_ID m)
            then fail (ErrOther ''ambiguous managed-user traffic identity'')
            else
              let targets = targets((path, label) \<mapsto> (i, j));
                  user_name = (case fill_map usr_ID usr_Name Map.empty (st_Users st) (mem_UserID m) of
                     None \<Rightarrow> [] | Some n \<Rightarrow> n);
                  legacy = (path, applied_name @ ''-'' @ user_name)
              in ok (if targets legacy = None \<or> targets legacy = Some (i, j)
                     then targets(legacy \<mapsto> (i, j)) else targets,
                     aliases(alias_key \<mapsto> (i, j))))"

definition trafficMemberships ::
  "(listener_key \<Rightarrow> string) \<Rightarrow> state \<Rightarrow> string \<Rightarrow> (traffic_index \<times> traffic_index) res" where
  "trafficMemberships digest st agent =
     foldE (\<lambda>acc a.
       case live_index st (pn_ID a) of
         None \<Rightarrow> ok acc
       | Some i \<Rightarrow>
           if entrance_agent a \<noteq> Some agent then ok acc
           else foldE (register_membership st
                  (''/tp-in-'' @ digest (listenerKeys agent (ent_Endpoint (pn_Entrance a)))) (pn_Name a) i)
                  acc [0..<length (pn_Memberships (st_ProxyNodes st ! i))])
       (Map.empty, Map.empty) (st_AppliedProxyNodes st)"

definition find_target :: "traffic_index \<times> traffic_index \<Rightarrow> string \<Rightarrow> string \<Rightarrow> position option" where
  "find_target = (\<lambda>(targets, aliases) path username.
     case targets (path, username) of
       Some p \<Rightarrow> Some p
     | None \<Rightarrow> (case trafficAliasKey path username of None \<Rightarrow> None | Some k \<Rightarrow> aliases k))"

section \<open>Adding usage\<close>

definition charge :: "u64 \<Rightarrow> membership \<Rightarrow> membership" where
  "charge delta m =
     (let m = m\<lparr>mem_UsedBytes := saturatingAdd (mem_UsedBytes m) delta\<rparr> in
      if mem_DisabledReason m = MembershipEnabled \<and> mem_MonthlyQuotaBytes m > 0
        \<and> mem_UsedBytes m \<ge> mem_MonthlyQuotaBytes m
      then m\<lparr>mem_DisabledReason := MembershipQuotaReached\<rparr> else m)"

definition update_membership :: "position \<Rightarrow> (membership \<Rightarrow> membership) \<Rightarrow> state \<Rightarrow> state" where
  "update_membership = (\<lambda>(i, j) f.
     update_node i (\<lambda>n. n\<lparr>pn_Memberships := update_at j f (pn_Memberships n)\<rparr>))"

text \<open>The state of the loop over the reported counters: the state, the daily bytes and
  \<open>configurationChanged\<close>.\<close>

type_synonym report_state = "state \<times> (string \<times> u64) list \<times> bool"

definition charge_position :: "position \<Rightarrow> u64 \<Rightarrow> u64 \<Rightarrow> report_state \<Rightarrow> report_state" where
  "charge_position p delta daily_delta = (\<lambda>(st, bytes, changed).
     let m = membership_at st p; m' = charge delta m in
     (update_membership p (charge delta) st, add_daily (mem_ID m) daily_delta bytes,
      changed \<or> mem_DisabledReason m \<noteq> mem_DisabledReason m'))"

definition valid_report_user :: "user_traffic \<Rightarrow> bool" where
  "valid_report_user u \<longleftrightarrow>
     validManagedTrafficPath (ut_InboundPath u) \<and> trim_space (ut_Username u) \<noteq> []
     \<and> length (ut_Username u) \<le> 128 \<and> \<not> contains_byte (CHR 0x00) (ut_Username u)"

definition delta_step :: "traffic_index \<times> traffic_index \<Rightarrow> user_traffic \<Rightarrow> report_state \<Rightarrow> report_state" where
  "delta_step index u acc =
     (case find_target index (ut_InboundPath u) (ut_Username u) of
        None \<Rightarrow> acc
      | Some p \<Rightarrow>
          let delta = saturatingAdd (ut_UplinkBytes u) (ut_DownlinkBytes u)
          in charge_position p delta delta acc)"

text \<open>The closure \<open>ApplyTrafficDeltaReport\<close> passes to \<open>mutateBillingWithDaily\<close>.\<close>

definition apply_deltas ::
  "(listener_key \<Rightarrow> string) \<Rightarrow> string \<Rightarrow> time \<Rightarrow> user_traffic list \<Rightarrow> state
    \<Rightarrow> (state \<times> bool \<times> daily_delta option) res" where
  "apply_deltas digest agent observed users st =
     bindE (trafficMemberships digest st agent) (\<lambda>index.
       let st = st\<lparr>st_TrafficObservations :=
             filter (\<lambda>ob. obs_AgentID ob \<noteq> agent) (st_TrafficObservations st)\<rparr>;
           (st, bytes, changed) = fold (delta_step index) users (st, [], False)
       in ok (st, changed, Some (local_day billingLocation observed, bytes)))"

definition ApplyTrafficDeltaReport ::
  "environment \<Rightarrow> (listener_key \<Rightarrow> string) \<Rightarrow> call \<Rightarrow> string \<Rightarrow> time \<Rightarrow> user_traffic list \<Rightarrow> store
    \<Rightarrow> bool res \<times> store" where
  "ApplyTrafficDeltaReport env digest c agent observed users s =
     (let agent = trim_space agent in
      if \<not> validAgentID agent \<or> observed = 0 \<or> length users > 100000
      then (fail (ErrInvalidState ''invalid traffic delta report''), s)
      else if \<not> list_all valid_report_user users
      then (fail (ErrInvalidState ''invalid traffic delta report user''), s)
      else mutateBillingWithDaily env c (apply_deltas digest agent observed users) s)"

section \<open>Cumulative reports\<close>

text \<open>\<open>float64\<close>: a mantissa and an exponent. \<open>float_ratio\<close> is the double nearest to a quotient
  of positive numbers (ties to even); the magnitudes here are far from overflow and underflow.\<close>

fun bit_length :: "nat \<Rightarrow> nat" where
  "bit_length n = (if n = 0 then 0 else Suc (bit_length (n div 2)))"

declare bit_length.simps [simp del]

definition round_even :: "nat \<Rightarrow> nat \<Rightarrow> nat" where
  "round_even n d =
     (let q = n div d; r = n mod d in
      if 2 * r < d \<or> (2 * r = d \<and> even q) then q else q + 1)"

definition float_ratio :: "nat \<Rightarrow> nat \<Rightarrow> nat \<times> int" where
  "float_ratio n d =
     (if n = 0 then (0, 0)
      else
        let k = int (bit_length n) - int (bit_length d);
            e = (if k \<ge> 0 then (if n \<ge> d * 2 ^ nat k then k else k - 1)
                 else (if n * 2 ^ nat (- k) \<ge> d then k else k - 1)) - 52
        in (if e \<ge> 0 then round_even n (d * 2 ^ nat e) else round_even (n * 2 ^ nat (- e)) d, e))"

definition float_of_nat :: "nat \<Rightarrow> nat \<times> int" where
  "float_of_nat n = float_ratio n 1"

definition float_mul :: "nat \<times> int \<Rightarrow> nat \<times> int \<Rightarrow> nat \<times> int" where
  "float_mul = (\<lambda>(m, e) (m', e'). let (m'', e'') = float_of_nat (m * m') in (m'', e'' + e + e'))"

definition float_div :: "nat \<times> int \<Rightarrow> nat \<times> int \<Rightarrow> nat \<times> int" where
  "float_div = (\<lambda>(m, e) (m', e'). let (m'', e'') = float_ratio m m' in (m'', e'' + e - e'))"

definition float_trunc :: "nat \<times> int \<Rightarrow> nat" where
  "float_trunc = (\<lambda>(m, e). if e \<ge> 0 then m * 2 ^ nat e else m div 2 ^ nat (- e))"

definition uint64_of_float :: "environment \<Rightarrow> nat \<times> int \<Rightarrow> u64" where
  "uint64_of_float env x =
     (let n = float_trunc x in if n < 2 ^ 64 then of_nat n else env_float_to_uint64 env n)"

text \<open>\<open>Time.Sub\<close> saturates.\<close>

definition time_sub :: "time \<Rightarrow> time \<Rightarrow> int" where
  "time_sub a b = max (- (2 ^ 63)) (min (2 ^ 63 - 1) (a - b))"

definition trafficInsideCurrentPeriod :: "environment \<Rightarrow> u64 \<Rightarrow> time \<Rightarrow> time \<Rightarrow> time \<Rightarrow> u64" where
  "trafficInsideCurrentPeriod env value previous current period_start =
     (if value = 0 \<or> period_start = 0 \<or> \<not> previous < period_start \<or> \<not> current > period_start
      then (if \<not> current > period_start \<and> previous < period_start then 0 else value)
      else
        let whole = time_sub current previous; inside = time_sub current period_start in
        if whole \<le> 0 \<or> inside \<le> 0 \<or> inside \<ge> whole then value
        else uint64_of_float env
          (float_div (float_mul (float_of_nat (unat value)) (float_of_nat (nat inside)))
             (float_of_nat (nat whole))))"

definition observationFor :: "state \<Rightarrow> string \<Rightarrow> string \<Rightarrow> string \<Rightarrow> nat option" where
  "observationFor st agent path username =
     index_func (\<lambda>ob. obs_AgentID ob = agent \<and> obs_InboundPath ob = path \<and> obs_Username ob = username)
       (st_TrafficObservations st)"

definition put_observation :: "nat option \<Rightarrow> traffic_observation \<Rightarrow> state \<Rightarrow> state" where
  "put_observation at ob st =
     st\<lparr>st_TrafficObservations := (case at of
          None \<Rightarrow> st_TrafficObservations st @ [ob]
        | Some i \<Rightarrow> (st_TrafficObservations st)[i := ob])\<rparr>"

definition report_step ::
  "environment \<Rightarrow> string \<Rightarrow> string \<Rightarrow> time \<Rightarrow> traffic_index \<times> traffic_index \<Rightarrow> user_traffic
    \<Rightarrow> report_state \<Rightarrow> report_state" where
  "report_step env agent epoch observed index u = (\<lambda>(st, bytes, changed).
     case find_target index (ut_InboundPath u) (ut_Username u) of
       None \<Rightarrow> (st, bytes, changed)
     | Some p \<Rightarrow>
         let at = observationFor st agent (ut_InboundPath u) (ut_Username u);
             fresh = saturatingAdd (ut_UplinkBytes u) (ut_DownlinkBytes u);
             (delta, daily_delta) =
               (case at of
                  None \<Rightarrow> (fresh, fresh)
                | Some i \<Rightarrow>
                    let ob = st_TrafficObservations st ! i in
                    if obs_Epoch ob \<noteq> epoch then (fresh, fresh)
                    else
                      let d = saturatingAdd (counterDelta (obs_UplinkBytes ob) (ut_UplinkBytes u))
                                (counterDelta (obs_DownlinkBytes ob) (ut_DownlinkBytes u))
                      in (trafficInsideCurrentPeriod env d (obs_ObservedAt ob) observed
                            (mem_QuotaPeriodStartedOn (membership_at st p)), d));
             st = put_observation at
               \<lparr>obs_AgentID = agent, obs_InboundPath = ut_InboundPath u, obs_Username = ut_Username u,
                obs_Epoch = epoch, obs_UplinkBytes = ut_UplinkBytes u,
                obs_DownlinkBytes = ut_DownlinkBytes u, obs_ObservedAt = observed\<rparr> st
         in charge_position p delta daily_delta (st, bytes, changed))"

text \<open>The closure \<open>ApplyTrafficReport\<close> passes to \<open>mutateBillingWithDaily\<close>.\<close>

definition apply_counters ::
  "environment \<Rightarrow> (listener_key \<Rightarrow> string) \<Rightarrow> string \<Rightarrow> string \<Rightarrow> time \<Rightarrow> user_traffic list \<Rightarrow> state
    \<Rightarrow> (state \<times> bool \<times> daily_delta option) res" where
  "apply_counters env digest agent epoch observed users st =
     bindE (trafficMemberships digest st agent) (\<lambda>index.
       let reported = set (map (\<lambda>u. (ut_InboundPath u, ut_Username u)) users);
           st = st\<lparr>st_TrafficObservations :=
             filter (\<lambda>ob. obs_AgentID ob \<noteq> agent \<or> (obs_InboundPath ob, obs_Username ob) \<in> reported
                 \<or> find_target index (obs_InboundPath ob) (obs_Username ob) \<noteq> None)
               (st_TrafficObservations st)\<rparr>;
           (st, bytes, changed) = fold (report_step env agent epoch observed index) users (st, [], False)
       in ok (st, changed, Some (local_day billingLocation observed, bytes)))"

definition ApplyTrafficReport ::
  "environment \<Rightarrow> (listener_key \<Rightarrow> string) \<Rightarrow> call \<Rightarrow> string \<Rightarrow> string \<Rightarrow> time \<Rightarrow> user_traffic list
    \<Rightarrow> store \<Rightarrow> bool res \<times> store" where
  "ApplyTrafficReport env digest c agent epoch observed users s =
     (let agent = trim_space agent; epoch = trim_space epoch in
      if \<not> validAgentID agent \<or> epoch = [] \<or> length epoch > 128 \<or> contains_byte (CHR 0x00) epoch
        \<or> observed = 0 \<or> length users > 100000
      then (fail (ErrInvalidState ''invalid traffic report''), s)
      else if \<not> list_all valid_report_user users
      then (fail (ErrInvalidState ''invalid traffic report user''), s)
      else mutateBillingWithDaily env c (apply_counters env digest agent epoch observed users) s)"

section \<open>The billing clock\<close>

definition next_period :: "membership \<Rightarrow> membership" where
  "next_period m =
     m\<lparr>mem_UsedBytes := 0,
       mem_QuotaPeriodStartedOn := add_date billingLocation (mem_QuotaResetsAfter m) 0 0 1,
       mem_QuotaResetsAfter := addCalendarMonthsAnchored (mem_QuotaResetsAfter m) 1 (mem_QuotaAnchorDay m),
       mem_DisabledReason := (if mem_DisabledReason m = MembershipQuotaReached then MembershipEnabled
                              else mem_DisabledReason m)\<rparr>"

text \<open>The flags are \<open>accountingChanged\<close> and \<open>authorityChanged\<close>.\<close>

partial_function (option) reset_periods ::
  "time \<Rightarrow> membership \<Rightarrow> bool \<times> bool \<Rightarrow> (membership \<times> bool \<times> bool) option" where
  "reset_periods today m flags =
     (if today > mem_QuotaResetsAfter m
      then reset_periods today (next_period m)
             (True, snd flags \<or> mem_DisabledReason m = MembershipQuotaReached)
      else Some (m, flags))"

fun traverse_option :: "('a \<Rightarrow> 's \<Rightarrow> ('b \<times> 's) option) \<Rightarrow> 'a list \<Rightarrow> 's \<Rightarrow> ('b list \<times> 's) option" where
  "traverse_option f [] s = Some ([], s)"
| "traverse_option f (x # xs) s =
     (case f x s of
        None \<Rightarrow> None
      | Some (y, s) \<Rightarrow>
          (case traverse_option f xs s of None \<Rightarrow> None | Some (ys, s) \<Rightarrow> Some (y # ys, s)))"

definition expired :: "time \<Rightarrow> membership \<Rightarrow> bool" where
  "expired now m \<longleftrightarrow> mem_SubscriptionEndsAfter m \<noteq> 0 \<and> \<not> now < mem_SubscriptionEndsAfter m"

definition expire_memberships :: "time \<Rightarrow> state \<Rightarrow> state" where
  "expire_memberships now st =
     st\<lparr>st_ProxyNodes := map (\<lambda>n. n\<lparr>pn_Memberships := filter (\<lambda>m. \<not> expired now m) (pn_Memberships n)\<rparr>)
       (st_ProxyNodes st)\<rparr>"

definition reset_all_periods :: "time \<Rightarrow> state \<Rightarrow> bool \<times> bool \<Rightarrow> (state \<times> bool \<times> bool) option" where
  "reset_all_periods today st flags =
     map_option (\<lambda>(nodes, flags). (st\<lparr>st_ProxyNodes := nodes\<rparr>, flags))
       (traverse_option (\<lambda>n flags. map_option (\<lambda>(ms, flags). (n\<lparr>pn_Memberships := ms\<rparr>, flags))
          (traverse_option (reset_periods today) (pn_Memberships n) flags)) (st_ProxyNodes st) flags)"

definition advanceBilling ::
  "environment \<Rightarrow> call \<Rightarrow> time \<Rightarrow> bool \<Rightarrow> bool \<Rightarrow> store \<Rightarrow> (bool res \<times> store) option" where
  "advanceBilling env c now reset_traffic expire s =
     (let st = sto_state s; today = billingDate now;
          identity_changed = (expire \<and> list_ex (\<lambda>n. list_ex (expired now) (pn_Memberships n)) (st_ProxyNodes st));
          st1 = (if expire then expire_memberships now st else st)
      in map_option (\<lambda>(next, accounting_changed, authority_changed).
          if \<not> identity_changed \<and> \<not> accounting_changed then (ok False, s)
          else
            let next = (if authority_changed
                        then next\<lparr>st_UserRevision := st_UserRevision next + 1\<rparr> else next)
            in case validateStoredState env next of
              Inl e \<Rightarrow> (Inl e, s)
            | Inr _ \<Rightarrow>
                if identity_changed then
                  (case persistStateAndAccountingLocked (call_faults c) next
                          (normalizeBuild (sto_build s) (call_build c)) s of
                     (Inl e, s') \<Rightarrow> (Inl e, s')
                   | (Inr _, s') \<Rightarrow> (Inr authority_changed, s'))
                else if \<not> sto_open s then (fail (ErrOther ''accounting database is unavailable''), s)
                else case flt_ledger (call_faults c) of
                  Inl e \<Rightarrow> (Inl e, s)
                | Inr _ \<Rightarrow>
                    let s1 = s\<lparr>sto_ledger := persistChanges st next None (sto_ledger s)\<rparr>
                    in case flt_ledger_secure (call_faults c) of
                         Inl e \<Rightarrow> (Inl e, s1)
                       | Inr _ \<Rightarrow> (Inr authority_changed, s1\<lparr>sto_state := next\<rparr>))
        (if reset_traffic then reset_all_periods today st1 (False, identity_changed)
         else Some (st1, False, identity_changed)))"

definition AdvanceBilling :: "environment \<Rightarrow> call \<Rightarrow> time \<Rightarrow> store \<Rightarrow> (bool res \<times> store) option" where
  "AdvanceBilling env c now = advanceBilling env c now True True"

definition advanceSubscriptions :: "environment \<Rightarrow> call \<Rightarrow> time \<Rightarrow> store \<Rightarrow> (bool res \<times> store) option" where
  "advanceSubscriptions env c now = advanceBilling env c now False True"

section \<open>Summaries\<close>

record agent_entrance_usage =
  aeu_AllocatedBytes :: u64
  aeu_UsedBytes :: u64
  aeu_UnlimitedUsers :: nat

definition EntranceUsageForAgent :: "string \<Rightarrow> store \<Rightarrow> agent_entrance_usage res" where
  "EntranceUsageForAgent agent s =
     (if \<not> validAgentID agent then fail (ErrInvalidState ''invalid Agent ID'')
      else
        let st = sto_state s;
            ms = concat (map (\<lambda>a.
              if entrance_agent a \<noteq> Some agent then []
              else case live_index st (pn_ID a) of
                None \<Rightarrow> []
              | Some i \<Rightarrow> pn_Memberships (st_ProxyNodes st ! i)) (st_AppliedProxyNodes st));
            finite = filter (\<lambda>m. mem_MonthlyQuotaBytes m \<noteq> 0) ms
        in ok \<lparr>aeu_AllocatedBytes = fold (\<lambda>m acc. saturatingAdd acc (mem_MonthlyQuotaBytes m)) finite 0,
               aeu_UsedBytes = fold (\<lambda>m acc. saturatingAdd acc (mem_UsedBytes m)) finite 0,
               aeu_UnlimitedUsers =
                 card (mem_UserID ` set (filter (\<lambda>m. mem_MonthlyQuotaBytes m = 0) ms))\<rparr>)"

record daily_usage =
  du_Date :: time
  du_ProxyNodeID :: string
  du_ProxyNodeName :: string
  du_UsedBytes :: u64

text \<open>The rows of the query, newest day first and by Membership within a day.\<close>

definition UserDailyUsage :: "call \<Rightarrow> string \<Rightarrow> int \<Rightarrow> store \<Rightarrow> daily_usage list res" where
  "UserDailyUsage c uid days s =
     (let uid = trim_space uid; st = sto_state s in
      if \<not> validID uid ''usr_'' \<or> days \<le> 0 \<or> days > 366
      then fail (ErrInvalidState ''invalid daily usage query'')
      else if sto_userIndex s uid = None then fail ErrNotFound
      else if \<not> sto_open s then fail (ErrOther ''accounting database is unavailable'')
      else
        let owned = concat (map (\<lambda>n. map (\<lambda>m. (mem_ID m, n))
                (filter (\<lambda>m. mem_UserID m = uid) (pn_Memberships n))) (st_ProxyNodes st));
            nodes = fill_map fst snd Map.empty owned;
            today = local_day billingLocation (call_now c)
        in ok (concat (map (\<lambda>k. concat (map (\<lambda>mid.
             case (led_daily (sto_ledger s) (mid, today - k), nodes mid) of
               (Some used, Some n) \<Rightarrow> [\<lparr>du_Date = bday_start (today - k), du_ProxyNodeID = pn_ID n,
                 du_ProxyNodeName = pn_Name n, du_UsedBytes = used\<rparr>]
             | _ \<Rightarrow> []) (sort (remdups (map fst owned))))) (map int [0..<nat days]))))"

end
