(* ===== verification/StateFacts.thy ===== *)
theory StateFacts
  imports Topology
begin

text \<open>
  What a state that passes \<open>validateStoredState\<close> guarantees, stated without the loops and the sets
  they thread: unique identifiers and credentials over the whole state, valid routing trees, valid
  Memberships. These are the facts the operations of the Store may rely on.
\<close>

section \<open>Users\<close>

definition user_ids_of :: "state \<Rightarrow> string list" where
  "user_ids_of st = map usr_ID (st_Users st)"

definition user_tokens_of :: "state \<Rightarrow> string list" where
  "user_tokens_of st = filter (\<lambda>t. t \<noteq> []) (map (\<lambda>u. us_Token (usr_Subscription u)) (st_Users st))"

lemma validate_user_step:
  assumes "validate_user env (ids, names, tokens) u = Inr (ids', names', tokens')"
  shows "usr_ID u \<notin> ids \<and> ids' = insert (usr_ID u) ids \<and>
    (let t = us_Token (usr_Subscription u) in
      (t \<noteq> [] \<longrightarrow> t \<notin> tokens) \<and> tokens' = (if t \<noteq> [] then insert t tokens else tokens))"
  using assms by (auto simp: validate_user_def Let_def bindE_Inr_iff split: if_splits)

lemma foldE_validate_user:
  "foldE (validate_user env) (ids, names, tokens) us = Inr (ids', names', tokens') \<Longrightarrow>
     distinct (map usr_ID us) \<and> usr_ID ` set us \<inter> ids = {} \<and> ids' = ids \<union> usr_ID ` set us \<and>
     distinct (filter (\<lambda>t. t \<noteq> []) (map (\<lambda>u. us_Token (usr_Subscription u)) us)) \<and>
     (\<forall>u \<in> set us. us_Token (usr_Subscription u) \<noteq> [] \<longrightarrow> us_Token (usr_Subscription u) \<notin> tokens)"
proof (induction us arbitrary: ids names tokens)
  case Nil
  then show ?case by simp
next
  case (Cons u us)
  from Cons.prems obtain i n t where step: "validate_user env (ids, names, tokens) u = Inr (i, n, t)"
    and rest: "foldE (validate_user env) (i, n, t) us = Inr (ids', names', tokens')"
    by (auto simp: bindE_Inr_iff)
  from validate_user_step [OF step] Cons.IH [OF rest] show ?case
    by (auto simp: Let_def split: if_splits)
qed

section \<open>Proxy Nodes\<close>

definition entity_ids_of :: "proxy_node list \<Rightarrow> string list" where
  "entity_ids_of nodes = concat (map node_entity_ids nodes)"

definition secrets_of :: "proxy_node list \<Rightarrow> string list" where
  "secrets_of nodes = concat (map node_secrets nodes)"

lemma validate_state_node_step:
  assumes "validate_state_node env users (ids, names, entities, secrets) n = Inr (ids', names', entities', secrets')"
  shows "pn_ID n \<notin> ids" "ids' = insert (pn_ID n) ids" "validateProxyNode env n users = Inr ()"
    "distinct (node_entity_ids n)" "set (node_entity_ids n) \<inter> entities = {}" "entities \<union> set (node_entity_ids n) \<subseteq> entities'"
    "distinct (node_secrets n)" "set (node_secrets n) \<inter> secrets = {}" "secrets' = secrets \<union> set (node_secrets n)"
  using assms by (auto simp: validate_state_node_def res_simps split: if_splits)

lemma foldE_validate_state_node:
  "foldE (validate_state_node env users) (ids, names, entities, secrets) ns = Inr x \<Longrightarrow>
     distinct (map pn_ID ns) \<and> pn_ID ` set ns \<inter> ids = {} \<and>
     (\<forall>n \<in> set ns. validateProxyNode env n users = Inr ()) \<and>
     distinct (entity_ids_of ns) \<and> set (entity_ids_of ns) \<inter> entities = {} \<and>
     distinct (secrets_of ns) \<and> set (secrets_of ns) \<inter> secrets = {}"
proof (induction ns arbitrary: ids names entities secrets)
  case Nil
  then show ?case by (simp add: entity_ids_of_def secrets_of_def)
next
  case (Cons n ns)
  from Cons.prems obtain i m e s where
    step: "validate_state_node env users (ids, names, entities, secrets) n = Inr (i, m, e, s)"
    and rest: "foldE (validate_state_node env users) (i, m, e, s) ns = Inr x"
    by (auto simp: bindE_Inr_iff)
  note f = validate_state_node_step [OF step]
  note r = Cons.IH [OF rest]
  have "pn_ID n \<notin> pn_ID ` set ns" "pn_ID ` set ns \<inter> ids = {}" using f(2) r by auto
  moreover have "set (node_entity_ids n) \<inter> set (entity_ids_of ns) = {}" "set (entity_ids_of ns) \<inter> entities = {}"
    using f(6) r by blast+
  moreover have "set (node_secrets n) \<inter> set (secrets_of ns) = {}" "set (secrets_of ns) \<inter> secrets = {}"
    using f(9) r by blast+
  ultimately show ?case using f r by (simp add: entity_ids_of_def secrets_of_def Int_Un_distrib2)
qed

section \<open>The whole state\<close>

definition state_ok :: "environment \<Rightarrow> state \<Rightarrow> bool" where
  "state_ok env st \<longleftrightarrow>
     distinct (user_ids_of st) \<and> distinct (user_tokens_of st) \<and>
     distinct (map pn_ID (st_ProxyNodes st)) \<and>
     (\<forall>n \<in> set (st_ProxyNodes st). topology_ok n \<and> validateProxyNode env n (set (user_ids_of st)) = Inr ()) \<and>
     distinct (entity_ids_of (st_ProxyNodes st)) \<and>
     set (entity_ids_of (st_ProxyNodes st)) \<inter> set (user_ids_of st) = {} \<and>
     distinct (secrets_of (st_ProxyNodes st)) \<and>
     distinct (st_ManagedAgents st)"

lemma validateStateCore_ok:
  assumes "validateStateCore env st = Inr ()"
  shows "state_ok env st"
proof -
  from assms obtain users names tokens x y where
    u: "foldE (validate_user env) ({}, Map.empty, {}) (st_Users st) = Inr (users, names, tokens)"
    and n: "foldE (validate_state_node env users) ({}, {}, users, {}) (st_ProxyNodes st) = Inr x"
    and a: "no_repeat (ErrInvalidState ''duplicate managed Agent ID'') {} (st_ManagedAgents st) = Inr y"
    by (auto simp: validateStateCore_def bindE_Inr_iff)
  note fu = foldE_validate_user [OF u]
  have users: "users = set (user_ids_of st)" using fu by (simp add: user_ids_of_def)
  from foldE_validate_state_node [OF n] fu a show ?thesis
    unfolding users state_ok_def user_ids_of_def user_tokens_of_def
    using validateProxyNode_topology_ok by (auto simp: no_repeat_Inr)
qed

lemma validateStoredState_core:
  assumes "validateStoredState env st = Inr ()"
  shows "validateStateCore env st = Inr ()" "validateStateCore env (applied_projection st) = Inr ()"
    "st_UserRevision st \<noteq> 0" "st_AppliedRevision st \<le> st_Revision st"
  using assms by (auto simp: validateStoredState_def validateState_def bindE_Inr_iff res_simps not_less split: if_splits)

lemma validateStoredState_ok: "validateStoredState env st = Inr () \<Longrightarrow> state_ok env st"
  by (rule validateStateCore_ok, rule validateStoredState_core)

lemma validateStoredState_applied:
  assumes "validateStoredState env st = Inr ()" "n \<in> set (st_AppliedProxyNodes st)"
  shows "topology_ok n"
  using validateStateCore_ok [OF validateStoredState_core(2) [OF assms(1)]] assms(2)
  by (simp add: state_ok_def applied_projection_def)

lemma distinct_membership_ids:
  assumes "distinct (entity_ids_of nodes)"
  shows "distinct (map mem_ID (concat (map pn_Memberships nodes)))"
  using assms
proof (induction nodes)
  case (Cons n ns)
  then have "distinct (map mem_ID (pn_Memberships n))" by (simp add: entity_ids_of_def node_entity_ids_def)
  moreover have "set (map mem_ID (concat (map pn_Memberships ns))) \<subseteq> set (entity_ids_of ns)"
    by (auto simp: entity_ids_of_def node_entity_ids_def)
  moreover have "mem_ID ` set (pn_Memberships n) \<inter> set (entity_ids_of ns) = {}"
    using Cons.prems by (auto simp: entity_ids_of_def node_entity_ids_def)
  ultimately show ?case using Cons by (auto simp: entity_ids_of_def)
qed simp

lemma distinct_link_rule_ids:
  assumes "distinct (node_entity_ids n)"
  shows "distinct (concat (map (\<lambda>l. map rul_ID (lnk_Rules l)) (pn_Links n)) @ map (\<lambda>b. rul_ID (blk_Rule b)) (pn_BlockBranches n))"
proof -
  have sub: "set (concat (map (\<lambda>l. map rul_ID (lnk_Rules l)) ls)) \<subseteq> set (concat (map (\<lambda>l. lnk_ID l # map rul_ID (lnk_Rules l)) ls))" for ls
    by auto
  have "distinct (concat (map (\<lambda>l. lnk_ID l # map rul_ID (lnk_Rules l)) ls)) \<Longrightarrow>
      distinct (concat (map (\<lambda>l. map rul_ID (lnk_Rules l)) ls))" for ls
  proof (induction ls)
    case (Cons l ls)
    let ?rules = "concat (map (\<lambda>l. map rul_ID (lnk_Rules l)) ls)" and ?all = "concat (map (\<lambda>l. lnk_ID l # map rul_ID (lnk_Rules l)) ls)"
    have "set (map rul_ID (lnk_Rules l)) \<inter> set ?all = {}" using Cons.prems by auto
    then have "set (map rul_ID (lnk_Rules l)) \<inter> set ?rules = {}" using sub [of ls] by blast
    moreover have "distinct ?rules" "distinct (map rul_ID (lnk_Rules l))" using Cons by simp_all
    ultimately show ?case by (simp only: list.map concat.simps distinct_append)
  qed simp
  moreover have "distinct (concat (map (\<lambda>l. lnk_ID l # map rul_ID (lnk_Rules l)) (pn_Links n)))"
    "distinct (map (\<lambda>b. rul_ID (blk_Rule b)) (pn_BlockBranches n))"
    "set (concat (map (\<lambda>l. lnk_ID l # map rul_ID (lnk_Rules l)) (pn_Links n))) \<inter>
      set (map (\<lambda>b. rul_ID (blk_Rule b)) (pn_BlockBranches n)) = {}"
    using assms unfolding node_entity_ids_def distinct_append set_append by blast+
  ultimately show ?thesis using sub [of "pn_Links n"] unfolding distinct_append by blast
qed

end
