(* ===== verification/LedgerFacts.thy ===== *)
theory LedgerFacts
  imports Ledger StateFacts
begin

text \<open>
  The ledger as the authority for usage. \<open>agrees\<close> says that the usage table holds the counters of
  every Membership of a state. Reconciliation establishes it, every write of the billing path
  keeps it, and loading a ledger that agrees with the state in memory restores that state's
  counters, whatever stale counters the JSON document carries.
\<close>

section \<open>Tables keyed by an identifier\<close>

text \<open>What the writers of a table rely on: an upsert changes one entry.\<close>

locale keyed_table =
  fixes look :: "'t \<Rightarrow> 'k \<Rightarrow> 'v option" and put :: "'k \<Rightarrow> 'v \<Rightarrow> 't \<Rightarrow> 't"
  assumes look_put: "look (put k v t) = (look t)(k \<mapsto> v)"
begin

lemma look_fold: "look (fold (\<lambda>x. put (key x) (val x)) xs t) = fill_map key val (look t) xs"
  by (induction xs arbitrary: t) (simp_all add: look_put)

lemma look_fold_if:
  "look (fold (\<lambda>x t. if p x then put (key x) (val x) t else t) xs t) = fill_map key val (look t) (filter p xs)"
  by (induction xs arbitrary: t) (simp_all add: look_put)

end

lemma map_of_update_row: "map_of (update_row k v rows) = (\<lambda>j. if j = k \<and> map_of rows k \<noteq> None then Some v else map_of rows j)"
  by (induction rows) (auto simp: update_row_def fun_eq_iff)

lemma map_of_insert_row: "map_of (insert_row k v rows) = (\<lambda>j. if j = k \<and> map_of rows k = None then Some v else map_of rows j)"
  by (auto simp: insert_row_def fun_eq_iff map_add_def split: option.splits)

interpretation usage_table: keyed_table map_of upsert_row
proof
  fix k v and rows :: "(string \<times> usage_row) list"
  show "map_of (upsert_row k v rows) = (map_of rows)(k \<mapsto> v)"
    by (auto simp: upsert_row_def map_of_update_row fun_eq_iff map_add_def split: option.splits)
qed

section \<open>Agreement\<close>

definition agrees :: "state \<Rightarrow> ledger \<Rightarrow> bool" where
  "agrees st led \<longleftrightarrow>
     (\<forall>m \<in> set (all_memberships st). map_of (led_usage led) (mem_ID m) = Some (membership_row m))"

abbreviation membership_ids :: "state \<Rightarrow> string list" where
  "membership_ids st \<equiv> map mem_ID (all_memberships st)"

lemma valid_membership_ids: "validateStoredState env st = Inr () \<Longrightarrow> distinct (membership_ids st)"
  using distinct_membership_ids validateStoredState_ok by (auto simp: state_ok_def all_memberships_def)

lemma ensure_rows:
  "map_of (fold (\<lambda>m. insert_row (mem_ID m) (membership_row m)) ms rows) k =
     (case map_of rows k of Some r \<Rightarrow> Some r | None \<Rightarrow> map_option membership_row (find (\<lambda>m. mem_ID m = k) ms))"
  by (induction ms arbitrary: rows) (auto simp: map_of_insert_row split: option.splits)

lemma find_absent: "y \<notin> f ` set xs \<Longrightarrow> find (\<lambda>x. f x = y) xs = None"
  by (induction xs) auto

lemma sync_rows:
  assumes "distinct (map mem_ID ms)"
  shows "map_of (fold (\<lambda>m. update_row (mem_ID m) (membership_row m)) ms rows) k =
     (if map_of rows k = None then None else
      case find (\<lambda>m. mem_ID m = k) ms of None \<Rightarrow> map_of rows k | Some m \<Rightarrow> Some (membership_row m))"
  using assms
proof (induction ms arbitrary: rows)
  case (Cons m ms)
  have "find (\<lambda>n. mem_ID n = mem_ID m) ms = None" using Cons.prems by (simp add: find_absent)
  then show ?case using Cons by (auto simp: map_of_update_row split: option.splits)
qed simp

lemma prune_rows: "map_of (filter (\<lambda>(k, r). k \<in> live) rows) k = (if k \<in> live then map_of rows k else None)"
  by (induction rows) auto

lemma revision_usage [simp]: "led_usage (setAccountingUserRevision v led) = led_usage led"
  by (auto simp: setAccountingUserRevision_def split: option.splits)

text \<open>After a reconciliation the usage table holds exactly the Memberships of the state.\<close>

lemma prepare_usage:
  assumes "distinct (membership_ids st)"
  shows "map_of (led_usage (prepareMembershipReconciliation st led)) k =
     map_option membership_row (find (\<lambda>m. mem_ID m = k) (all_memberships st))"
proof -
  have "find (\<lambda>m. mem_ID m = k) (all_memberships st) = None \<longleftrightarrow> k \<notin> mem_ID ` set (all_memberships st)"
    by (auto simp: find_None_iff)
  then show ?thesis using sync_rows [OF assms]
    by (auto simp: prepareMembershipReconciliation_def pruneAccountingMemberships_def Let_def prune_rows
        syncAccountingMembershipUsage_def ensureAccountingMemberships_def ensure_rows split: option.splits)
qed

lemma find_distinct:
  "distinct (map f xs) \<Longrightarrow> x \<in> set xs \<Longrightarrow> find (\<lambda>y. f y = f x) xs = Some x"
  by (induction xs) force+

lemma prepare_agrees: "distinct (membership_ids st) \<Longrightarrow> agrees st (prepareMembershipReconciliation st led)"
  by (simp add: agrees_def prepare_usage find_distinct)

lemma persist_daily_usage [simp]: "led_usage (persistDailyUsage d led) = led_usage led"
  by (cases d) (simp add: persistDailyUsage_def)

lemma persistChanges_agrees:
  assumes before: "agrees before led" "distinct (membership_ids before)" and after: "distinct (membership_ids after)"
  shows "agrees after (persistChanges before after daily led)"
  unfolding agrees_def
proof
  fix m
  assume m: "m \<in> set (all_memberships after)"
  let ?ms = "all_memberships after"
  let ?rows = "fold (\<lambda>m rows. if changed_membership before m then upsert_row (mem_ID m) (membership_row m) rows else rows)
      ?ms (led_usage led)"
  have rows: "map_of ?rows = fill_map mem_ID membership_row (map_of (led_usage led)) (filter (changed_membership before) ?ms)"
    by (rule usage_table.look_fold_if)
  have "map_of ?rows (mem_ID m) = Some (membership_row m)"
  proof (cases "changed_membership before m")
    case True
    then show ?thesis unfolding rows
      by (intro fill_map_distinct) (use m after in \<open>auto intro: distinct_map_filter\<close>)
  next
    case False
    then obtain p where p: "fill_map mem_ID (\<lambda>m. m) Map.empty (all_memberships before) (mem_ID m) = Some p"
      and same: "mem_UsedBytes p = mem_UsedBytes m" "mem_QuotaPeriodStartedOn p = mem_QuotaPeriodStartedOn m"
        "mem_QuotaResetsAfter p = mem_QuotaResetsAfter m"
      by (auto simp: changed_membership_def split: option.splits)
    have "p \<in> set (all_memberships before)" "mem_ID p = mem_ID m" using fill_map_SomeD [OF p] by auto
    then have old: "map_of (led_usage led) (mem_ID m) = Some (membership_row m)"
      using before(1) same by (auto simp: agrees_def membership_row_def)
    have "x = m" if "x \<in> set ?ms" "mem_ID x = mem_ID m" for x
      using that m after by (auto simp: distinct_map dest: inj_onD)
    then have "mem_ID m \<notin> mem_ID ` set (filter (changed_membership before) ?ms)" using False by auto
    then show ?thesis unfolding rows by (simp add: fill_map_notin old)
  qed
  then show "map_of (led_usage (persistChanges before after daily led)) (mem_ID m) = Some (membership_row m)"
    using m by (auto simp: persistChanges_def Let_def pruneAccountingMemberships_def ensureAccountingMemberships_def
        prune_rows ensure_rows split: option.splits)
qed

section \<open>Settled ledgers\<close>

text \<open>A ledger that a reconciliation with the state leaves alone.\<close>

definition settled :: "state \<Rightarrow> ledger \<Rightarrow> bool" where
  "settled st led \<longleftrightarrow>
     distinct (map fst (led_usage led)) \<and> fst ` set (led_usage led) = set (membership_ids st) \<and> agrees st led \<and>
     (\<exists>r. led_user_revision led = Some r \<and> r \<ge> st_UserRevision st)"

lemma insert_row_present: "map_of rows k \<noteq> None \<Longrightarrow> insert_row k v rows = rows"
  by (simp add: insert_row_def)

lemma update_row_same: "distinct (map fst rows) \<Longrightarrow> map_of rows k = Some v \<Longrightarrow> update_row k v rows = rows"
proof -
  assume d: "distinct (map fst rows)" and at: "map_of rows k = Some v"
  have "(case x of (k', r) \<Rightarrow> (k', if k' = k then v else r)) = x" if "x \<in> set rows" for x
    using map_of_is_SomeI [OF d, of "fst x" "snd x"] that at by (cases x) auto
  then show "update_row k v rows = rows" unfolding update_row_def by (rule map_idI)
qed

lemma fold_unchanged: "(\<And>x. x \<in> set xs \<Longrightarrow> f x t = t) \<Longrightarrow> fold f xs t = t"
  by (induction xs) auto

lemma settled_prepare:
  assumes "settled st led"
  shows "prepareMembershipReconciliation st led = led"
proof -
  let ?rows = "led_usage led" and ?ms = "all_memberships st"
  have at: "map_of ?rows (mem_ID m) = Some (membership_row m)" if "m \<in> set ?ms" for m
    using assms that by (simp add: settled_def agrees_def)
  have ensure: "ensureAccountingMemberships st led = led"
    unfolding ensureAccountingMemberships_def using at by (subst fold_unchanged) (auto simp: insert_row_present)
  have sync: "syncAccountingMembershipUsage st led = led"
    unfolding syncAccountingMembershipUsage_def
    using at assms by (subst fold_unchanged) (auto simp: update_row_same settled_def)
  have keys: "fst x \<in> set (membership_ids st)" if "x \<in> set ?rows" for x using assms that by (auto simp: settled_def)
  have "filter (\<lambda>(k, r). k \<in> set (membership_ids st)) ?rows = ?rows" using keys by (auto simp: filter_id_conv)
  moreover have "map_of ?rows k \<noteq> None \<Longrightarrow> k \<in> set (membership_ids st)" for k
    using keys unfolding map_of_eq_None_iff by blast
  ultimately have prune: "pruneAccountingMemberships st led = led"
    by (auto simp: pruneAccountingMemberships_def Let_def fun_eq_iff intro!: ledger.equality)
  show ?thesis
    using assms by (auto simp: prepareMembershipReconciliation_def ensure sync prune setAccountingUserRevision_def settled_def)
qed

lemma insert_row_keys:
  "distinct (map fst rows) \<Longrightarrow> distinct (map fst (insert_row k v rows)) \<and>
     fst ` set (insert_row k v rows) = insert k (fst ` set rows)"
  by (auto simp: insert_row_def map_of_eq_None_iff)

lemma ensure_keys:
  "distinct (map fst rows) \<Longrightarrow> distinct (map fst (fold (\<lambda>m. insert_row (mem_ID m) (membership_row m)) ms rows)) \<and>
     fst ` set (fold (\<lambda>m. insert_row (mem_ID m) (membership_row m)) ms rows) = fst ` set rows \<union> mem_ID ` set ms"
proof (induction ms arbitrary: rows)
  case (Cons m ms)
  then show ?case using insert_row_keys [of rows "mem_ID m" "membership_row m"] by simp
qed simp

lemma update_row_keys: "map fst (update_row k v rows) = map fst rows"
  by (simp add: update_row_def split_def)

lemma sync_keys: "map fst (fold (\<lambda>m. update_row (mem_ID m) (membership_row m)) ms rows) = map fst rows"
  by (induction ms arbitrary: rows) (simp_all add: update_row_keys)

lemma prune_keys:
  "distinct (map fst rows) \<Longrightarrow> distinct (map fst (filter (\<lambda>(k, r). k \<in> live) rows)) \<and>
     fst ` set (filter (\<lambda>(k, r). k \<in> live) rows) = fst ` set rows \<inter> live"
  by (auto simp: distinct_map_filter image_iff)

lemma set_revision:
  "\<exists>r. led_user_revision (setAccountingUserRevision v led) = Some r \<and> r \<ge> v"
  by (auto simp: setAccountingUserRevision_def split: option.splits)

lemma prepare_settled:
  assumes "distinct (membership_ids st)" "distinct (map fst (led_usage led))"
  shows "settled st (prepareMembershipReconciliation st led)"
proof -
  let ?ms = "all_memberships st"
  let ?rows = "fold (\<lambda>m. insert_row (mem_ID m) (membership_row m)) ?ms (led_usage led)"
  let ?sync = "fold (\<lambda>m. update_row (mem_ID m) (membership_row m)) ?ms ?rows"
  have d: "distinct (map fst ?sync)" using ensure_keys [OF assms(2)] by (simp only: sync_keys)
  have "fst ` set ?sync = fst ` set (led_usage led) \<union> mem_ID ` set ?ms"
    using ensure_keys [OF assms(2), of ?ms] sync_keys [of ?ms ?rows] by (metis set_map)
  then have "distinct (map fst (filter (\<lambda>(k, r). k \<in> set (membership_ids st)) ?sync)) \<and>
      fst ` set (filter (\<lambda>(k, r). k \<in> set (membership_ids st)) ?sync) = set (membership_ids st)"
    using prune_keys [OF d, of "set (membership_ids st)"] by auto
  moreover have "led_usage (prepareMembershipReconciliation st led) =
      filter (\<lambda>(k, r). k \<in> set (membership_ids st)) ?sync"
    by (simp add: prepareMembershipReconciliation_def pruneAccountingMemberships_def Let_def
        syncAccountingMembershipUsage_def ensureAccountingMemberships_def)
  ultimately show ?thesis
    using prepare_agrees [OF assms(1)] set_revision
    by (simp add: settled_def prepareMembershipReconciliation_def)
qed

lemma upsert_row_keys:
  "distinct (map fst rows) \<Longrightarrow> distinct (map fst (upsert_row k v rows)) \<and>
     fst ` set (upsert_row k v rows) = insert k (fst ` set rows)"
proof (cases "map_of rows k")
  case (Some r)
  then have "k \<in> fst ` set rows" by (force dest: map_of_SomeD)
  moreover have "fst ` set (update_row k v rows) = fst ` set rows" by (metis set_map update_row_keys)
  ultimately show "distinct (map fst rows) \<Longrightarrow> ?thesis" using Some by (auto simp: upsert_row_def update_row_keys)
qed (auto simp: upsert_row_def map_of_eq_None_iff)

lemma upserts_keys:
  "distinct (map fst rows) \<Longrightarrow> distinct (map fst (fold (\<lambda>m rows. if p m then upsert_row (mem_ID m) (membership_row m) rows else rows) ms rows))"
  by (induction ms arbitrary: rows) (simp_all add: upsert_row_keys)

lemma persistChanges_settled:
  assumes before: "settled before led" "distinct (membership_ids before)" and after: "distinct (membership_ids after)"
  shows "settled after (persistChanges before after daily led)"
proof -
  let ?ms = "all_memberships after"
  let ?up = "fold (\<lambda>m rows. if changed_membership before m then upsert_row (mem_ID m) (membership_row m) rows else rows)
      ?ms (led_usage led)"
  let ?rows = "fold (\<lambda>m. insert_row (mem_ID m) (membership_row m)) ?ms ?up"
  have "distinct (map fst ?up)" using before(1) by (intro upserts_keys) (simp add: settled_def)
  note e = ensure_keys [OF this, of ?ms]
  have usage: "led_usage (persistChanges before after daily led) = filter (\<lambda>(k, r). k \<in> set (membership_ids after)) ?rows"
    by (auto simp: persistChanges_def Let_def pruneAccountingMemberships_def ensureAccountingMemberships_def split: option.splits)
  have "distinct (map fst (led_usage (persistChanges before after daily led)))"
    "fst ` set (led_usage (persistChanges before after daily led)) = set (membership_ids after)"
    unfolding usage using prune_keys [of ?rows "set (membership_ids after)"] e by auto
  moreover have "agrees after (persistChanges before after daily led)"
    by (rule persistChanges_agrees [OF _ before(2) after]) (use before(1) in \<open>simp add: settled_def\<close>)
  moreover have "\<exists>r. led_user_revision (persistChanges before after daily led) = Some r \<and> r \<ge> st_UserRevision after"
    unfolding persistChanges_def Let_def by (rule set_revision)
  ultimately show ?thesis by (simp add: settled_def)
qed

section \<open>Opening the ledger again\<close>

text \<open>The instants of a valid Membership survive the tables.\<close>

lemma unix_billingDate:
  assumes "t = billingDate t"
  shows "from_unix (unix_seconds t) = t"
proof -
  define n where "n = bday t"
  have t: "t = n * day - billingLocation"
    using assms unfolding n_def by (metis billingDate_eq bday_start_def)
  have "t - unix_epoch = ((n - 719162) * 86400 - 28800) * second"
    unfolding t unix_epoch_def billingLocation_def day_def hour_def minute_def second_def by simp
  then have "unix_seconds t = (n - 719162) * 86400 - 28800" by (simp add: unix_seconds_def)
  with \<open>t - unix_epoch = _\<close> show ?thesis by (simp add: from_unix_def)
qed

lemma load_recovers:
  assumes agree: "agrees st led" and m: "m \<in> set (all_memberships st)" and same: "mem_ID old = mem_ID m"
    and dates: "mem_QuotaPeriodStartedOn m = billingDate (mem_QuotaPeriodStartedOn m)"
      "mem_QuotaResetsAfter m = billingDate (mem_QuotaResetsAfter m)"
  shows "mem_UsedBytes (load_membership now led old) = mem_UsedBytes m"
    "mem_QuotaPeriodStartedOn (load_membership now led old) = mem_QuotaPeriodStartedOn m"
    "mem_QuotaResetsAfter (load_membership now led old) = mem_QuotaResetsAfter m"
proof -
  have "map_of (led_usage led) (mem_ID old) = Some (membership_row m)" using agree m same by (simp add: agrees_def)
  then show "mem_UsedBytes (load_membership now led old) = mem_UsedBytes m"
    "mem_QuotaPeriodStartedOn (load_membership now led old) = mem_QuotaPeriodStartedOn m"
    "mem_QuotaResetsAfter (load_membership now led old) = mem_QuotaResetsAfter m"
    using unix_billingDate dates
    by (simp_all add: load_membership_def recomputeMembershipStatus_def membership_row_def)
qed

end
