(* ===== verification/RoutingFacts.thy ===== *)
theory RoutingFacts
  imports TopologyPlane
begin

text \<open>
  Facts about the tree and priority helpers: the searches compute reachability along the Links,
  and renumbering establishes the priority invariants \<open>validateProxyNode\<close> checks.
\<close>

section \<open>Descendants\<close>

lemma descend_pass_within:
  "descend_pass ls (found, c) = (found', c') \<Longrightarrow> edges ls \<subseteq> E \<Longrightarrow> found' \<subseteq> E\<^sup>* `` found"
proof (induction ls arbitrary: found c)
  case Nil
  then show ?case by auto
next
  case (Cons l ls)
  let ?next = "if lnk_ParentHopID l \<in> found \<and> lnk_ChildHopID l \<notin> found
    then (insert (lnk_ChildHopID l) found, True) else (found, c)"
  have "edges ls \<subseteq> E" using Cons.prems(2) by (auto simp: edges_def)
  moreover have "descend_pass ls (fst ?next, snd ?next) = (found', c')" using Cons.prems(1) by simp
  ultimately have "found' \<subseteq> E\<^sup>* `` fst ?next" using Cons.IH by blast
  moreover have "fst ?next \<subseteq> E\<^sup>* `` found"
  proof -
    have "(lnk_ParentHopID l, lnk_ChildHopID l) \<in> E" using Cons.prems(2) by (auto simp: edges_def)
    then show ?thesis by auto
  qed
  ultimately show ?case using rtrancl_trans [of _ _ E] by blast
qed

lemma descend_pass_mono: "descend_pass ls (found, c) = (found', c') \<Longrightarrow> found \<subseteq> found'"
  using descend_pass_facts by blast

lemma descend_pass_stable:
  "descend_pass ls (found, c) = (found', False) \<Longrightarrow> found' = found \<and> edges ls `` found \<subseteq> found"
proof (induction ls arbitrary: found c)
  case Nil
  then show ?case by (simp add: edges_def)
next
  case (Cons l ls)
  show ?case
  proof (cases "lnk_ParentHopID l \<in> found \<and> lnk_ChildHopID l \<notin> found")
    case True
    with Cons.prems have "descend_pass ls (insert (lnk_ChildHopID l) found, True) = (found', False)" by simp
    then show ?thesis using descend_pass_facts by blast
  next
    case False
    with Cons.prems have "descend_pass ls (found, c) = (found', False)" by simp
    from Cons.IH [OF this] False show ?thesis by (auto simp: edges_def)
  qed
qed

lemma descend_reachable: "descend ls found = (edges ls)\<^sup>* `` found"
proof (induction ls found rule: descend.induct)
  case (1 ls found)
  obtain found' changed where pass: "descend_pass ls (found, False) = (found', changed)" by fastforce
  show ?case
  proof (cases changed)
    case False
    with pass have "descend_pass ls (found, False) = (found', False)" by simp
    from descend_pass_stable [OF this] have "found' = found \<and> edges ls `` found \<subseteq> found" .
    then show ?thesis using pass False by (subst descend.simps) (simp add: Image_closed_trancl)
  next
    case True
    have "found \<subseteq> found'" "found' \<subseteq> (edges ls)\<^sup>* `` found"
      using descend_pass_mono [OF pass] descend_pass_within [OF pass order_refl] by blast+
    then have "(edges ls)\<^sup>* `` found' = (edges ls)\<^sup>* `` found"
      using rtrancl_trans [of _ _ "edges ls"] by blast
    moreover have "descend ls found = descend ls found'"
      using pass True by (subst descend.simps) simp
    ultimately show ?thesis using 1 [OF pass [symmetric] refl] True pass by simp
  qed
qed

lemma descendants_reachable: "descendantHops node root = {h. (root, h) \<in> (edges (pn_Links node))\<^sup>*}"
  by (auto simp: descendantHops_def descend_reachable)

section \<open>Ancestors\<close>

definition parent_map :: "proxy_node \<Rightarrow> string \<rightharpoonup> string" where
  "parent_map node = fill_map lnk_ChildHopID lnk_ParentHopID Map.empty (pn_Links node)"

lemma parent_map_iff:
  assumes "distinct (map lnk_ChildHopID (pn_Links node))"
  shows "parent_map node c = Some p \<longleftrightarrow> (p, c) \<in> edges (pn_Links node)"
proof
  assume "parent_map node c = Some p"
  then show "(p, c) \<in> edges (pn_Links node)"
    unfolding parent_map_def by (auto dest!: fill_map_SomeD simp: edges_def)
next
  assume "(p, c) \<in> edges (pn_Links node)"
  then obtain l where "l \<in> set (pn_Links node)" "p = lnk_ParentHopID l" "c = lnk_ChildHopID l"
    by (auto simp: edges_def)
  then show "parent_map node c = Some p"
    unfolding parent_map_def using fill_map_distinct [OF assms] by simp
qed

lemma hop_agents_iff:
  assumes "distinct (map hop_ID (pn_Hops node))"
  shows "hop_agents node h = Some a \<longleftrightarrow> (\<exists>x \<in> set (pn_Hops node). hop_ID x = h \<and> hop_AgentID x = a)"
proof
  assume "hop_agents node h = Some a"
  then show "\<exists>x \<in> set (pn_Hops node). hop_ID x = h \<and> hop_AgentID x = a"
    unfolding hop_agents_def by (auto dest!: fill_map_SomeD)
next
  assume "\<exists>x \<in> set (pn_Hops node). hop_ID x = h \<and> hop_AgentID x = a"
  then show "hop_agents node h = Some a"
    unfolding hop_agents_def using fill_map_distinct [OF assms] by blast
qed

lemma hop_ids_not_empty_name:
  assumes "\<forall>h \<in> set (pn_Hops node). hop_ok h" "h \<in> hop_ids node"
  shows "h \<noteq> []"
  using assms by (auto simp: hop_ids_def hop_ok_def validID_def has_prefix_def)

text \<open>The walk up from a Hop, with the visited Hops lying strictly below it.\<close>

lemma ancestor_agents_Nil [simp]: "ancestor_agents hops agents parents visited [] = {}"
  by (subst ancestor_agents.simps) simp

lemma ancestor_agents_path:
  assumes tree: "routing_tree node" and names: "\<forall>h \<in> hop_ids node. h \<noteq> []"
  shows "h \<in> hop_ids node \<Longrightarrow> (\<forall>v \<in> visited. (h, v) \<in> (edges (pn_Links node))\<^sup>+) \<Longrightarrow>
    ancestor_agents (pn_Hops node) (hop_agents node) (parent_map node) visited h =
      {hop_AgentID x | x. x \<in> set (pn_Hops node) \<and> (hop_ID x, h) \<in> (edges (pn_Links node))\<^sup>*}"
proof (induction "pn_Hops node" "hop_agents node" "parent_map node" visited h
    rule: ancestor_agents.induct)
  case (1 visited h)
  let ?E = "edges (pn_Links node)"
  have acyclic: "acyclic ?E" using tree by (rule routing_tree_acyclic)
  have dist: "distinct (map hop_ID (pn_Hops node))" "distinct (map lnk_ChildHopID (pn_Links node))"
    and sub: "?E \<subseteq> hop_ids node \<times> hop_ids node"
    using tree by (auto simp: routing_tree_def)
  have h: "h \<notin> visited" "h \<noteq> []" "h \<in> hop_ID ` set (pn_Hops node)"
    using 1(2,3) acyclic names by (auto simp: acyclic_def hop_ids_def)
  then obtain x where x: "x \<in> set (pn_Hops node)" "hop_ID x = h" by auto
  then have agent: "hop_agents node h = Some (hop_AgentID x)" using hop_agents_iff [OF dist(1)] by blast
  have same: "y = x" if "y \<in> set (pn_Hops node)" "hop_ID y = h" for y
    using that x dist(1) by (auto simp: distinct_map dest: inj_onD)
  have walk: "ancestor_agents (pn_Hops node) (hop_agents node) (parent_map node) visited h =
      insert (hop_AgentID x) (ancestor_agents (pn_Hops node) (hop_agents node) (parent_map node)
        (insert h visited) (case parent_map node h of None \<Rightarrow> [] | Some p \<Rightarrow> p))"
    using h agent by (subst ancestor_agents.simps) simp
  show ?case
  proof (cases "parent_map node h")
    case None
    have "(z, h) \<notin> ?E" for z using None parent_map_iff [OF dist(2)] by (metis option.distinct(1))
    then have star: "(y, h) \<in> ?E\<^sup>* \<longleftrightarrow> y = h" for y by (meson rtrancl.rtrancl_refl rtranclE)
    have "{hop_AgentID y | y. y \<in> set (pn_Hops node) \<and> (hop_ID y, h) \<in> ?E\<^sup>*} = {hop_AgentID x}"
      unfolding star using x same by blast
    then show ?thesis unfolding walk None by simp
  next
    case (Some p)
    then have p: "(p, h) \<in> ?E" using parent_map_iff [OF dist(2)] by blast
    have up: "(y, h) \<in> ?E\<^sup>* \<longleftrightarrow> y = h \<or> (y, p) \<in> ?E\<^sup>*" for y
    proof
      assume "(y, h) \<in> ?E\<^sup>*"
      then show "y = h \<or> (y, p) \<in> ?E\<^sup>*"
        by (rule rtranclE) (use p edges_unique_parent [OF dist(2)] in blast)+
    qed (use p in \<open>auto intro: rtrancl_into_rtrancl\<close>)
    have "\<forall>v \<in> insert h visited. (p, v) \<in> ?E\<^sup>+" using 1(3) p by (auto intro: trancl_into_trancl2)
    then have "ancestor_agents (pn_Hops node) (hop_agents node) (parent_map node) (insert h visited) p =
        {hop_AgentID x | x. x \<in> set (pn_Hops node) \<and> (hop_ID x, p) \<in> ?E\<^sup>*}"
      using 1(1) [of "hop_AgentID x"] h agent Some p sub by auto
    moreover have "{hop_AgentID y | y. y \<in> set (pn_Hops node) \<and> (hop_ID y, h) \<in> ?E\<^sup>*} =
        insert (hop_AgentID x) {hop_AgentID y | y. y \<in> set (pn_Hops node) \<and> (hop_ID y, p) \<in> ?E\<^sup>*}"
      unfolding up using x same by blast
    ultimately show ?thesis unfolding walk Some by simp
  qed
qed

lemma AncestorAgentIDs_path:
  assumes "topology_ok node" "h \<in> hop_ids node"
  shows "AncestorAgentIDs node h =
    {hop_AgentID x | x. x \<in> set (pn_Hops node) \<and> (hop_ID x, h) \<in> (edges (pn_Links node))\<^sup>*}"
proof -
  have "\<forall>h \<in> hop_ids node. h \<noteq> []" using hop_ids_not_empty_name assms(1) by (auto simp: topology_ok_def)
  then show ?thesis
    using ancestor_agents_path [of node h "{}"] assms
    by (simp add: AncestorAgentIDs_def parent_map_def topology_ok_def)
qed

section \<open>Numbering\<close>

text \<open>The interface of a family of order numbers that are written one by one: writing one slot
  leaves the others alone. Numbering the slots of a list from zero then makes any rearrangement of
  the list contiguous.\<close>

locale order_slots =
  fixes order_at :: "'s \<Rightarrow> 'k \<Rightarrow> int" and put :: "nat \<Rightarrow> 'k \<Rightarrow> 's \<Rightarrow> 's" and slot :: "'s \<Rightarrow> 'k \<Rightarrow> bool"
  assumes put_same: "slot s k \<Longrightarrow> order_at (put n k s) k = int n"
    and put_other: "slot s k \<Longrightarrow> slot s j \<Longrightarrow> j \<noteq> k \<Longrightarrow> order_at (put n k s) j = order_at s j"
    and slot_put: "slot s k \<Longrightarrow> slot (put n k s) j = slot s j"
begin

lemma number_from:
  assumes "distinct ks" "\<forall>k \<in> set ks. slot s k"
  shows "(\<forall>j. slot (fold (\<lambda>(n, k). put n k) (zip [a..<a + length ks] ks) s) j = slot s j) \<and>
    (\<forall>p < length ks. order_at (fold (\<lambda>(n, k). put n k) (zip [a..<a + length ks] ks) s) (ks ! p) = int (a + p)) \<and>
    (\<forall>j. slot s j \<longrightarrow> j \<notin> set ks \<longrightarrow>
       order_at (fold (\<lambda>(n, k). put n k) (zip [a..<a + length ks] ks) s) j = order_at s j)"
  using assms
proof (induction ks arbitrary: a s)
  case Nil
  then show ?case by simp
next
  case (Cons k ks)
  let ?s = "put a k s"
  let ?r = "fold (\<lambda>(n, k). put n k) (zip [Suc a..<Suc a + length ks] ks) ?s"
  have split: "fold (\<lambda>(n, k). put n k) (zip [a..<a + length (k # ks)] (k # ks)) s = ?r"
    by (simp add: upt_conv_Cons del: upt_Suc)
  have k: "slot s k" "k \<notin> set ks" "distinct ks" using Cons.prems by auto
  then have "\<forall>j \<in> set ks. slot ?s j" using Cons.prems by (simp add: slot_put)
  note IH = Cons.IH [OF k(3) this, of "Suc a"]
  have "order_at ?r ((k # ks) ! p) = int (a + p)" if "p < length (k # ks)" for p
    using that IH k put_same by (cases p) (simp_all add: slot_put)
  moreover have "order_at ?r j = order_at s j" if "slot s j" "j \<notin> set (k # ks)" for j
    using that IH k put_other by (simp add: slot_put)
  ultimately show ?case unfolding split using IH k(1) by (simp add: slot_put)
qed

lemma number_contiguous:
  assumes "distinct ks" "\<forall>k \<in> set ks. slot s k" "mset js = mset ks"
  shows "contiguous (map (order_at (fold (\<lambda>(n, k). put n k) (enumerated ks) s)) js)"
proof -
  let ?r = "fold (\<lambda>(n, k). put n k) (enumerated ks) s"
  have "map (order_at ?r) ks = map int [0..<length ks]"
    using number_from [OF assms(1,2), of 0] by (intro nth_equalityI) (simp_all add: enumerated_def)
  then have "mset (map (order_at ?r) js) = mset (map int [0..<length ks])"
    using assms(3) by (metis mset_map)
  moreover have "length js = length ks" using assms(3) by (rule mset_eq_length)
  ultimately show ?thesis by (simp add: contiguous_def)
qed

lemma number_others:
  assumes "distinct ks" "\<forall>k \<in> set ks. slot s k" "slot s j" "j \<notin> set ks"
  shows "order_at (fold (\<lambda>(n, k). put n k) (enumerated ks) s) j = order_at s j"
  using number_from [OF assms(1,2), of 0] assms(3,4) by (simp add: enumerated_def)

end

interpretation link_order: order_slots "\<lambda>ls i. lnk_Order (ls ! i)"
  "\<lambda>n i. update_at i (\<lambda>l. l\<lparr>lnk_Order := int n\<rparr>)" "\<lambda>ls i. i < length ls"
  by unfold_locales (simp_all add: nth_update_at)

section \<open>Renumbering sibling Links\<close>

lemma fold_update_at:
  assumes "distinct is" "set is \<subseteq> {..<length xs}"
  shows "length (fold (\<lambda>(k, i). update_at i (f k)) (zip [a..<a + length is] is) xs) = length xs \<and>
    (\<forall>p < length is. fold (\<lambda>(k, i). update_at i (f k)) (zip [a..<a + length is] is) xs ! (is ! p)
        = f (a + p) (xs ! (is ! p))) \<and>
    (\<forall>k < length xs. k \<notin> set is \<longrightarrow>
        fold (\<lambda>(k, i). update_at i (f k)) (zip [a..<a + length is] is) xs ! k = xs ! k)"
  using assms
proof (induction "is" arbitrary: a xs)
  case Nil
  then show ?case by simp
next
  case (Cons i js)
  let ?xs = "update_at i (f a) xs"
  let ?r = "fold (\<lambda>(k, i). update_at i (f k)) (zip [Suc a..<Suc a + length js] js) ?xs"
  have split: "fold (\<lambda>(k, i). update_at i (f k)) (zip [a..<a + length (i # js)] (i # js)) xs = ?r"
    by (simp add: upt_conv_Cons del: upt_Suc)
  have "distinct js" "set js \<subseteq> {..<length ?xs}" "i \<notin> set js" "i < length xs" using Cons.prems by auto
  note IH = Cons.IH [OF this(1,2), of "Suc a"]
  have at: "?r ! ((i # js) ! p) = f (a + p) (xs ! ((i # js) ! p))" if "p < length (i # js)" for p
  proof (cases p)
    case 0
    then show ?thesis using IH \<open>i \<notin> set js\<close> \<open>i < length xs\<close> by (simp add: nth_update_at)
  next
    case (Suc q)
    with that have q: "q < length js" by simp
    then have "js ! q \<in> set js" by simp
    with \<open>i \<notin> set js\<close> Cons.prems(2) have "js ! q \<noteq> i" "js ! q < length xs" by auto
    then show ?thesis using IH q Suc by (simp add: nth_update_at)
  qed
  have "?r ! k = xs ! k" if "k < length xs" "k \<notin> set (i # js)" for k
    using IH that by (simp add: nth_update_at)
  with at IH show ?case unfolding split by simp
qed

lemma set_link_orders_nth:
  assumes "distinct is" "set is \<subseteq> {..<length ls}"
  shows "length (set_link_orders is ls) = length ls"
    and "p < length is \<Longrightarrow> set_link_orders is ls ! (is ! p) = (ls ! (is ! p))\<lparr>lnk_Order := int p\<rparr>"
    and "k < length ls \<Longrightarrow> k \<notin> set is \<Longrightarrow> set_link_orders is ls ! k = ls ! k"
  using fold_update_at [OF assms, of "\<lambda>order l. l\<lparr>lnk_Order := int order\<rparr>" 0]
  by (simp_all add: set_link_orders_def enumerated_def)

text \<open>The positions of the Links below a Hop, and the order in which they are renumbered.\<close>

definition sibling_positions :: "link list \<Rightarrow> string \<Rightarrow> nat list" where
  "sibling_positions ls p = filter (\<lambda>i. lnk_ParentHopID (ls ! i) = p) [0..<length ls]"

definition new_order :: "link list \<Rightarrow> string \<Rightarrow> nat list" where
  "new_order ls p = sort_key (\<lambda>i. (lnk_Fallback (ls ! i), lnk_Order (ls ! i))) (orderedSiblingLinkIndexes ls p)"

lemma ordered_positions: "orderedSiblingLinkIndexes ls p = sort_key (\<lambda>i. lnk_Order (ls ! i)) (sibling_positions ls p)"
  by (simp add: orderedSiblingLinkIndexes_def sibling_positions_def)

lemma new_order_facts:
  "distinct (new_order ls p)" "set (new_order ls p) = set (sibling_positions ls p)"
  "mset (new_order ls p) = mset (sibling_positions ls p)"
  "length (new_order ls p) = length (sibling_positions ls p)"
  by (simp_all add: new_order_def ordered_positions sibling_positions_def)

lemma outgoing_links_positions: "outgoing_links ls p = map (\<lambda>i. ls ! i) (sibling_positions ls p)"
proof -
  have "filter P ls = map ((!) ls) (filter (\<lambda>i. P (ls ! i)) [0..<length ls])" for P
    by (metis (no_types, lifting) comp_def filter_cong filter_map map_nth)
  then show ?thesis by (simp add: outgoing_links_def sibling_positions_def)
qed

lemma length_outgoing: "length (outgoing_links ls p) = length (sibling_positions ls p)"
  by (simp add: outgoing_links_positions)

lemma normalize_siblings_nth:
  shows "length (normalize_siblings p ls) = length ls"
    and "k < length (new_order ls p) \<Longrightarrow>
      normalize_siblings p ls ! (new_order ls p ! k) = (ls ! (new_order ls p ! k))\<lparr>lnk_Order := int k\<rparr>"
    and "k < length ls \<Longrightarrow> lnk_ParentHopID (ls ! k) \<noteq> p \<Longrightarrow> normalize_siblings p ls ! k = ls ! k"
proof -
  have sub: "set (new_order ls p) \<subseteq> {..<length ls}"
    by (auto simp: new_order_facts sibling_positions_def)
  have eq: "normalize_siblings p ls = set_link_orders (new_order ls p) ls"
    by (simp add: normalize_siblings_def new_order_def)
  note facts = set_link_orders_nth [OF new_order_facts(1) sub, folded eq]
  show "length (normalize_siblings p ls) = length ls" by (rule facts(1))
  show "normalize_siblings p ls ! (new_order ls p ! k) = (ls ! (new_order ls p ! k))\<lparr>lnk_Order := int k\<rparr>"
    if "k < length (new_order ls p)" using facts(2) [OF that] .
  show "normalize_siblings p ls ! k = ls ! k" if "k < length ls" "lnk_ParentHopID (ls ! k) \<noteq> p"
    using facts(3) [OF that(1)] that(2) by (simp add: new_order_facts sibling_positions_def)
qed

definition unordered_link :: "link \<Rightarrow> link" where
  "unordered_link l = l\<lparr>lnk_Order := 0\<rparr>"

lemma normalize_siblings_shape: "map unordered_link (normalize_siblings p ls) = map unordered_link ls"
proof (rule nth_equalityI)
  fix k
  assume "k < length (map unordered_link (normalize_siblings p ls))"
  then have k: "k < length ls" by (simp add: normalize_siblings_nth)
  show "map unordered_link (normalize_siblings p ls) ! k = map unordered_link ls ! k"
  proof (cases "lnk_ParentHopID (ls ! k) = p")
    case False
    then show ?thesis using k by (simp add: normalize_siblings_nth)
  next
    case True
    with k have "k \<in> set (new_order ls p)" by (simp add: new_order_facts sibling_positions_def)
    then obtain j where "j < length (new_order ls p)" "k = new_order ls p ! j" by (metis in_set_conv_nth)
    then show ?thesis
      using k normalize_siblings_nth(2) [of j ls p] by (simp add: normalize_siblings_nth(1) unordered_link_def)
  qed
qed (simp add: normalize_siblings_nth)

lemma unordered_keeps:
  assumes "map unordered_link ls = map unordered_link ls'"
  shows "map lnk_ParentHopID ls = map lnk_ParentHopID ls'" "map lnk_ChildHopID ls = map lnk_ChildHopID ls'"
    "map lnk_ID ls = map lnk_ID ls'" "map lnk_Rules ls = map lnk_Rules ls'"
    "map lnk_Fallback ls = map lnk_Fallback ls'" "map lnk_Endpoint ls = map lnk_Endpoint ls'"
    "map lnk_Credential ls = map lnk_Credential ls'" "length ls = length ls'"
proof -
  have comp: "map f ls = map f ls'" if "f = f \<circ> unordered_link" for f :: "link \<Rightarrow> 'x"
    using assms that by (metis list.map_comp)
  show "map lnk_ParentHopID ls = map lnk_ParentHopID ls'" "map lnk_ChildHopID ls = map lnk_ChildHopID ls'"
    "map lnk_ID ls = map lnk_ID ls'" "map lnk_Rules ls = map lnk_Rules ls'"
    "map lnk_Fallback ls = map lnk_Fallback ls'" "map lnk_Endpoint ls = map lnk_Endpoint ls'"
    "map lnk_Credential ls = map lnk_Credential ls'"
    by (intro comp; simp add: fun_eq_iff unordered_link_def)+
  show "length ls = length ls'" using assms by (rule map_eq_imp_length_eq)
qed

lemma sibling_positions_cong:
  assumes "map lnk_ParentHopID ls = map lnk_ParentHopID ls'"
  shows "sibling_positions ls p = sibling_positions ls' p"
proof -
  have "length ls = length ls'" using assms by (rule map_eq_imp_length_eq)
  moreover have "lnk_ParentHopID (ls ! i) = lnk_ParentHopID (ls' ! i)" if "i < length ls" for i
    using arg_cong [OF assms, of "\<lambda>l. l ! i"] that calculation by simp
  ultimately show ?thesis unfolding sibling_positions_def by (intro filter_cong) auto
qed

lemma normalize_siblings_parents [simp]:
  "map lnk_ParentHopID (normalize_siblings p ls) = map lnk_ParentHopID ls"
  using unordered_keeps(1) [OF normalize_siblings_shape] .

lemma outgoing_other:
  assumes "q \<noteq> p"
  shows "outgoing_links (normalize_siblings p ls) q = outgoing_links ls q"
proof -
  have "sibling_positions (normalize_siblings p ls) q = sibling_positions ls q"
    by (intro sibling_positions_cong) simp
  moreover have "normalize_siblings p ls ! i = ls ! i" if "i \<in> set (sibling_positions ls q)" for i
    using that assms by (intro normalize_siblings_nth(3)) (auto simp: sibling_positions_def)
  ultimately show ?thesis by (simp add: outgoing_links_positions)
qed

lemma new_order_sorted:
  assumes "i \<le> j" "j < length (new_order ls p)"
  shows "(lnk_Fallback (ls ! (new_order ls p ! i)), lnk_Order (ls ! (new_order ls p ! i)))
       \<le> (lnk_Fallback (ls ! (new_order ls p ! j)), lnk_Order (ls ! (new_order ls p ! j)))"
proof -
  have "sorted (map (\<lambda>i. (lnk_Fallback (ls ! i), lnk_Order (ls ! i))) (new_order ls p))"
    by (simp add: new_order_def)
  from sorted_nth_mono [OF this, of i j] assms show ?thesis by simp
qed

lemma mset_map_new_order: "mset (map f (new_order ls p)) = mset (map f (sibling_positions ls p))"
  by (simp only: mset_map new_order_facts(3))

lemma two_fallbacks:
  assumes "length (filter lnk_Fallback (outgoing_links ls p)) \<le> 1"
    and "i \<in> set (sibling_positions ls p)" "j \<in> set (sibling_positions ls p)"
    and "lnk_Fallback (ls ! i)" "lnk_Fallback (ls ! j)"
  shows "i = j"
proof (rule ccontr)
  assume "i \<noteq> j"
  have "filter lnk_Fallback (outgoing_links ls p) =
      map ((!) ls) (filter (\<lambda>i. lnk_Fallback (ls ! i)) (sibling_positions ls p))"
    by (simp add: outgoing_links_positions filter_map comp_def)
  then have "length (filter (\<lambda>i. lnk_Fallback (ls ! i)) (sibling_positions ls p)) \<le> 1"
    using assms(1) by simp
  moreover have "distinct (filter (\<lambda>i. lnk_Fallback (ls ! i)) (sibling_positions ls p))"
    by (simp add: sibling_positions_def)
  ultimately have "card (set (filter (\<lambda>i. lnk_Fallback (ls ! i)) (sibling_positions ls p))) \<le> 1"
    by (simp only: distinct_card)
  moreover have "{i, j} \<subseteq> set (filter (\<lambda>i. lnk_Fallback (ls ! i)) (sibling_positions ls p))"
    using assms by auto
  ultimately have "card {i, j} \<le> 1" by (meson List.finite_set card_mono le_trans)
  with \<open>i \<noteq> j\<close> show False by simp
qed

lemma normalize_siblings_ok:
  assumes one: "length (filter lnk_Fallback (outgoing_links ls p)) \<le> 1"
  shows "siblings_ok (outgoing_links (normalize_siblings p ls) p)"
proof -
  let ?R = "normalize_siblings p ls" and ?J = "new_order ls p" and ?I = "sibling_positions ls p"
  let ?n = "length ?I"
  have pos: "sibling_positions ?R p = ?I" by (intro sibling_positions_cong) simp
  have out: "outgoing_links ?R p = map ((!) ?R) ?I" by (simp add: outgoing_links_positions pos)
  have R: "?R = fold (\<lambda>(n, i). update_at i (\<lambda>l. l\<lparr>lnk_Order := int n\<rparr>)) (enumerated ?J) ls"
    by (simp add: normalize_siblings_def set_link_orders_def new_order_def)
  have "\<forall>i \<in> set ?J. i < length ls" by (simp add: new_order_facts sibling_positions_def)
  from link_order.number_contiguous [OF new_order_facts(1) this new_order_facts(3) [symmetric], folded R]
  have cont: "contiguous (map lnk_Order (outgoing_links ?R p))"
    by (simp add: out comp_def)
  have last: "lnk_Order l = int ?n - 1" if l: "l \<in> set (outgoing_links ?R p)" "lnk_Fallback l" for l
  proof -
    from l(1) obtain i where i: "i \<in> set ?I" "l = ?R ! i" by (auto simp: out)
    then obtain k where k: "k < ?n" "i = ?J ! k" by (metis in_set_conv_nth new_order_facts(2,4))
    then have Rk: "l = (ls ! (?J ! k))\<lparr>lnk_Order := int k\<rparr>"
      using normalize_siblings_nth(2) [of k ls p] i by (simp add: new_order_facts)
    have "?J ! k = ?J ! (?n - 1)"
    proof (rule two_fallbacks [OF one])
      show "?J ! k \<in> set ?I" using i k by simp
      show "?J ! (?n - 1) \<in> set ?I"
        using k(1) by (metis Suc_pred' diff_less lessI less_trans new_order_facts(2,4) not_gr_zero not_less0 nth_mem zero_less_Suc)
      show fb: "lnk_Fallback (ls ! (?J ! k))" using l(2) Rk by simp
      show "lnk_Fallback (ls ! (?J ! (?n - 1)))"
        using new_order_sorted [of k "?n - 1" ls p] k(1) fb by (auto simp: new_order_facts less_eq_prod_def)
    qed
    then have "k = ?n - 1"
      using k(1) new_order_facts(1) [of ls p] by (subst (asm) nth_eq_iff_index_eq) (auto simp: new_order_facts)
    with Rk k(1) show ?thesis by simp
  qed
  show ?thesis unfolding siblings_ok_def using cont last by (simp add: out)
qed

lemma normalize_siblings_noop:
  assumes ok: "siblings_ok (outgoing_links ls p)"
  shows "normalize_siblings p ls = ls"
proof -
  let ?J = "new_order ls p" and ?I = "sibling_positions ls p"
  let ?n = "length ?I"
  have out: "outgoing_links ls p = map ((!) ls) ?I" by (rule outgoing_links_positions)
  have cont: "mset (map (\<lambda>i. lnk_Order (ls ! i)) ?J) = mset (map int [0..<?n])"
    using ok mset_map_new_order [of "\<lambda>i. lnk_Order (ls ! i)" ls p]
    by (simp add: siblings_ok_def contiguous_def out comp_def)
  have range: "lnk_Order (ls ! i) \<le> int ?n - 1" if "i \<in> set ?J" for i
  proof -
    have "lnk_Order (ls ! i) \<in> set (map int [0..<?n])"
      using that cont by (metis (mono_tags, lifting) image_eqI image_set mset_eq_setD)
    then show ?thesis by auto
  qed
  have last: "lnk_Order (ls ! i) = int ?n - 1" if "i \<in> set ?J" "lnk_Fallback (ls ! i)" for i
    using ok that unfolding siblings_ok_def out by (auto simp: new_order_facts)
  have "sorted (map (\<lambda>i. lnk_Order (ls ! i)) ?J)"
    unfolding sorted_iff_nth_mono
  proof (intro allI impI)
    fix i j
    assume ij: "i \<le> j" "j < length (map (\<lambda>i. lnk_Order (ls ! i)) ?J)"
    then have J: "?J ! i \<in> set ?J" "?J ! j \<in> set ?J" by simp_all
    have le: "(lnk_Fallback (ls ! (?J ! i)), lnk_Order (ls ! (?J ! i)))
       \<le> (lnk_Fallback (ls ! (?J ! j)), lnk_Order (ls ! (?J ! j)))"
      using new_order_sorted ij by simp
    have "lnk_Order (ls ! (?J ! i)) \<le> lnk_Order (ls ! (?J ! j))"
      using le last [OF J(2)] range [OF J(1)] by (auto simp: less_eq_prod_def)
    with ij show "map (\<lambda>i. lnk_Order (ls ! i)) ?J ! i \<le> map (\<lambda>i. lnk_Order (ls ! i)) ?J ! j" by simp
  qed
  then have "map (\<lambda>i. lnk_Order (ls ! i)) ?J = map int [0..<?n]"
    using cont by (metis properties_for_sort sorted_upt_int)
  then have eq: "map (\<lambda>i. lnk_Order (ls ! i)) ?J = map int [0..<?n]" .
  have fixed: "lnk_Order (ls ! (?J ! k)) = int k" if "k < ?n" for k
    using that arg_cong [OF eq, of "\<lambda>l. l ! k"] by (simp add: new_order_facts)
  show ?thesis
  proof (rule nth_equalityI)
    fix k
    assume "k < length (normalize_siblings p ls)"
    then have k: "k < length ls" by (simp add: normalize_siblings_nth)
    show "normalize_siblings p ls ! k = ls ! k"
    proof (cases "lnk_ParentHopID (ls ! k) = p")
      case False
      with k show ?thesis by (simp add: normalize_siblings_nth)
    next
      case True
      with k have "k \<in> set ?J" by (simp add: new_order_facts sibling_positions_def)
      then obtain j where "j < ?n" "k = ?J ! j" by (metis in_set_conv_nth new_order_facts(4))
      then show ?thesis using normalize_siblings_nth(2) [of j ls p] fixed [of j] by (simp add: new_order_facts)
    qed
  qed (simp add: normalize_siblings_nth)
qed

text \<open>What \<open>normalizeLinkOrders\<close> does to the whole list.\<close>

definition one_fallback :: "link list \<Rightarrow> string \<Rightarrow> bool" where
  "one_fallback ls p \<longleftrightarrow> length (filter lnk_Fallback (outgoing_links ls p)) \<le> 1"

lemma outgoing_unordered: "map unordered_link (outgoing_links ls p) = outgoing_links (map unordered_link ls) p"
  by (induction ls) (auto simp: outgoing_links_def unordered_link_def)

lemma one_fallback_shape:
  assumes "map unordered_link ls = map unordered_link ls'"
  shows "one_fallback ls p = one_fallback ls' p"
proof -
  have count: "length (filter lnk_Fallback (outgoing_links ls p)) =
      length (filter lnk_Fallback (outgoing_links (map unordered_link ls) p))" for ls
    unfolding outgoing_unordered [symmetric] by (simp add: filter_map comp_def unordered_link_def)
  show ?thesis unfolding one_fallback_def count [of ls] count [of ls'] assms ..
qed

lemma siblings_ok_one_fallback:
  assumes "siblings_ok (outgoing_links ls p)"
  shows "one_fallback ls p"
proof -
  let ?f = "filter lnk_Fallback (outgoing_links ls p)"
  have "distinct (map lnk_Order (outgoing_links ls p))"
    using assms contiguous_distinct by (simp add: siblings_ok_def)
  then have "distinct (map lnk_Order ?f)" by (rule distinct_map_filter)
  moreover have "set (map lnk_Order ?f) \<subseteq> {int (length (outgoing_links ls p)) - 1}"
    using assms by (auto simp: siblings_ok_def)
  ultimately have "length (map lnk_Order ?f) \<le> card {int (length (outgoing_links ls p)) - 1}"
    by (metis card_mono distinct_card finite.emptyI finite.insertI)
  then show ?thesis by (simp add: one_fallback_def)
qed

lemma fold_normalize_siblings:
  defines "run \<equiv> \<lambda>hs ls. fold (\<lambda>h. normalize_siblings (hop_ID h)) hs ls"
  shows "map unordered_link (run hs ls) = map unordered_link ls"
    and "p \<notin> hop_ID ` set hs \<Longrightarrow> outgoing_links (run hs ls) p = outgoing_links ls p"
    and "p \<in> hop_ID ` set hs \<Longrightarrow> one_fallback ls p \<Longrightarrow> siblings_ok (outgoing_links (run hs ls) p)"
proof -
  show shape: "map unordered_link (run hs ls) = map unordered_link ls" for hs ls
    unfolding run_def by (induction hs arbitrary: ls) (simp_all add: normalize_siblings_shape)
  show "p \<notin> hop_ID ` set hs \<Longrightarrow> outgoing_links (run hs ls) p = outgoing_links ls p"
    unfolding run_def by (induction hs arbitrary: ls) (simp_all add: outgoing_other)
  have keep: "siblings_ok (outgoing_links ls p) \<Longrightarrow> siblings_ok (outgoing_links (run hs ls) p)" for hs ls
    unfolding run_def
  proof (induction hs arbitrary: ls)
    case (Cons h hs)
    then show ?case
      by (cases "p = hop_ID h") (simp_all add: normalize_siblings_noop outgoing_other)
  qed simp
  show "p \<in> hop_ID ` set hs \<Longrightarrow> one_fallback ls p \<Longrightarrow> siblings_ok (outgoing_links (run hs ls) p)"
  proof (induction hs arbitrary: ls)
    case (Cons h hs)
    show ?case
    proof (cases "p = hop_ID h")
      case True
      with Cons.prems have "siblings_ok (outgoing_links (normalize_siblings p ls) p)"
        by (simp add: one_fallback_def normalize_siblings_ok)
      then show ?thesis using keep True by (simp add: run_def)
    next
      case False
      with Cons.prems(1) have "p \<in> hop_ID ` set hs" by simp
      moreover have "one_fallback (normalize_siblings (hop_ID h) ls) p"
        using Cons.prems(2) one_fallback_shape [OF normalize_siblings_shape] by simp
      ultimately show ?thesis using Cons.IH by (simp add: run_def)
    qed
  qed simp
qed

lemma normalizeLinkOrders_noop:
  assumes "\<forall>h \<in> hop_ids node. siblings_ok (outgoing_links (pn_Links node) h)"
  shows "normalizeLinkOrders node = node"
proof -
  have "fold (\<lambda>h. normalize_siblings (hop_ID h)) hs ls = ls"
    if "\<forall>h \<in> set hs. siblings_ok (outgoing_links ls (hop_ID h))" for hs ls
    using that by (induction hs arbitrary: ls) (simp_all add: normalize_siblings_noop)
  then have "fold (\<lambda>h. normalize_siblings (hop_ID h)) (pn_Hops node) (pn_Links node) = pn_Links node"
    using assms by (simp add: hop_ids_def)
  then show ?thesis by (simp add: normalizeLinkOrders_def)
qed

section \<open>Renumbering Rules\<close>

fun rule_at :: "proxy_node \<Rightarrow> rule_place \<Rightarrow> rule" where
  "rule_at node (LinkRule i j) = lnk_Rules (pn_Links node ! i) ! j"
| "rule_at node (BlockRule i) = blk_Rule (pn_BlockBranches node ! i)"

fun rule_slot :: "proxy_node \<Rightarrow> rule_place \<Rightarrow> bool" where
  "rule_slot node (LinkRule i j) \<longleftrightarrow> i < length (pn_Links node) \<and> j < length (lnk_Rules (pn_Links node ! i))"
| "rule_slot node (BlockRule i) \<longleftrightarrow> i < length (pn_BlockBranches node)"

interpretation rule_order: order_slots "\<lambda>node place. rul_Order (rule_at node place)" set_rule_order rule_slot
proof
  fix node place and n :: nat
  assume slot: "rule_slot node place"
  then show "rul_Order (rule_at (set_rule_order n place node) place) = int n"
    by (cases place) (simp_all add: nth_update_at)
  fix other
  show "rule_slot (set_rule_order n place node) other = rule_slot node other"
    using slot by (cases place; cases other) (auto simp: nth_update_at split: if_splits)
  assume "rule_slot node other" "other \<noteq> place"
  then show "rul_Order (rule_at (set_rule_order n place node) other) = rul_Order (rule_at node other)"
    using slot by (cases place; cases other) (auto simp: nth_update_at)
qed

definition rule_places :: "proxy_node \<Rightarrow> string \<Rightarrow> rule_place list" where
  "rule_places node h = map or_place (unordered_rules (pn_Links node) (pn_BlockBranches node) h)"

lemma unordered_rules_at:
  assumes "e \<in> set (unordered_rules (pn_Links node) (pn_BlockBranches node) h)"
  shows "rule_slot node (or_place e)" "or_rule e = rule_at node (or_place e)"
  using assms by (auto simp: unordered_rules_def set_enumerated split: if_splits)

lemma map_enumerated: "map (\<lambda>(i, x). f x) (enumerated xs) = map f xs"
proof -
  have "map (\<lambda>(i, x). f x) (enumerated xs) = map f (map snd (enumerated xs))"
    by (simp add: split_def comp_def del: map_snd_enumerated)
  then show ?thesis by simp
qed

lemma rule_orders_places:
  "rule_orders (pn_Links node) (pn_BlockBranches node) h =
     map (\<lambda>place. rul_Order (rule_at node place)) (rule_places node h)"
proof -
  let ?u = "unordered_rules (pn_Links node) (pn_BlockBranches node) h"
  have "map (\<lambda>e. rul_Order (or_rule e)) ?u = rule_orders (pn_Links node) (pn_BlockBranches node) h"
  proof -
    have rules: "map (\<lambda>e. rul_Order (or_rule e)) (map (\<lambda>(j, r). \<lparr>or_place = LinkRule i j, or_rule = r\<rparr>) (enumerated rs))
        = map rul_Order rs" for i rs
      using map_enumerated [of rul_Order rs] by (simp add: comp_def split_def)
    have links: "map (\<lambda>e. rul_Order (or_rule e)) (concat (map (\<lambda>(i, l). if lnk_ParentHopID l \<noteq> h then []
        else map (\<lambda>(j, r). \<lparr>or_place = LinkRule i j, or_rule = r\<rparr>) (enumerated (lnk_Rules l))) (enumerated ls)))
      = concat (map (\<lambda>l. if lnk_ParentHopID l \<noteq> h then [] else map rul_Order (lnk_Rules l)) ls)" for ls
      unfolding map_concat map_map map_enumerated [of "\<lambda>l. if lnk_ParentHopID l \<noteq> h then []
        else map rul_Order (lnk_Rules l)", symmetric]
      by (intro arg_cong [where f = concat] map_cong refl) (simp add: rules [unfolded list.map_comp] split: prod.split)
    have blocks: "map (\<lambda>e. rul_Order (or_rule e)) (concat (map (\<lambda>(i, b). if blk_ParentHopID b \<noteq> h then []
        else [\<lparr>or_place = BlockRule i, or_rule = blk_Rule b\<rparr>]) (enumerated bs)))
      = concat (map (\<lambda>b. if blk_ParentHopID b \<noteq> h then [] else [rul_Order (blk_Rule b)]) bs)" for bs
      unfolding map_concat map_map map_enumerated [of "\<lambda>b. if blk_ParentHopID b \<noteq> h then []
        else [rul_Order (blk_Rule b)]", symmetric]
      by (intro arg_cong [where f = concat] map_cong refl) (simp split: prod.split)
    have "concat (map (\<lambda>l. if lnk_ParentHopID l \<noteq> h then [] else map rul_Order (lnk_Rules l)) ls) =
        concat (map (\<lambda>l. map rul_Order (lnk_Rules l)) (outgoing_links ls h))" for ls
      by (induction ls) (simp_all add: outgoing_links_def)
    moreover have "concat (map (\<lambda>b. if blk_ParentHopID b \<noteq> h then [] else [rul_Order (blk_Rule b)]) bs) =
        map (\<lambda>b. rul_Order (blk_Rule b)) (filter (\<lambda>b. blk_ParentHopID b = h) bs)" for bs
      by (induction bs) simp_all
    ultimately show ?thesis
      by (simp add: unordered_rules_def rule_orders_def links blocks)
  qed
  moreover have "map (\<lambda>e. rul_Order (or_rule e)) ?u = map (\<lambda>place. rul_Order (rule_at node place)) (map or_place ?u)"
    using unordered_rules_at(2) by simp
  ultimately show ?thesis by (simp add: rule_places_def)
qed

fun place_parent :: "proxy_node \<Rightarrow> rule_place \<Rightarrow> string" where
  "place_parent node (LinkRule i j) = lnk_ParentHopID (pn_Links node ! i)"
| "place_parent node (BlockRule i) = blk_ParentHopID (pn_BlockBranches node ! i)"

lemma set_rule_places: "place \<in> set (rule_places node h) \<longleftrightarrow> rule_slot node place \<and> place_parent node place = h"
proof -
  have "set (rule_places node h) =
      {LinkRule i j | i j. i < length (pn_Links node) \<and> lnk_ParentHopID (pn_Links node ! i) = h
         \<and> j < length (lnk_Rules (pn_Links node ! i))}
      \<union> {BlockRule i | i. i < length (pn_BlockBranches node) \<and> blk_ParentHopID (pn_BlockBranches node ! i) = h}"
    unfolding rule_places_def unordered_rules_def
    by (auto simp: set_enumerated image_iff split: if_splits) (metis ordered_rule.select_convs(1))+
  then show ?thesis by (cases place) auto
qed

fun place_index :: "rule_place \<Rightarrow> nat" where
  "place_index (LinkRule i j) = i"
| "place_index (BlockRule i) = i"

lemma distinct_rule_places: "distinct (rule_places node h)"
proof -
  have inner: "distinct (map or_place (map (\<lambda>(j, r). \<lparr>or_place = LinkRule i j, or_rule = r\<rparr>) (enumerated rs)))" for i rs
  proof -
    have "map or_place (map (\<lambda>(j, r). \<lparr>or_place = LinkRule i j, or_rule = r\<rparr>) (enumerated rs))
        = map (LinkRule i) [0..<length rs]"
      by (simp add: enumerated_def comp_def split_def flip: map_map [of "LinkRule i" fst, unfolded comp_def])
    then show ?thesis by (simp add: distinct_map inj_on_def)
  qed
  let ?L = "concat (map (\<lambda>(i, l). if lnk_ParentHopID l \<noteq> h then []
        else map (\<lambda>(j, r). \<lparr>or_place = LinkRule i j, or_rule = r\<rparr>) (enumerated (lnk_Rules l)))
       (enumerated (pn_Links node)))"
  let ?B = "concat (map (\<lambda>(i, b). if blk_ParentHopID b \<noteq> h then []
        else [\<lparr>or_place = BlockRule i, or_rule = blk_Rule b\<rparr>]) (enumerated (pn_BlockBranches node)))"
  have "distinct (map or_place ?L)" unfolding enumerated_def [of "pn_Links node"]
    by (rule distinct_concat_tagged [where tag = place_index, THEN conjunct1])
      (use inner in \<open>auto split: if_splits\<close>)
  moreover have "distinct (map or_place ?B)" unfolding enumerated_def
    by (rule distinct_concat_tagged [where tag = place_index, THEN conjunct1]) (auto split: if_splits)
  moreover have "or_place ` set ?L \<inter> or_place ` set ?B = {}" by (auto split: if_splits)
  ultimately show ?thesis by (simp add: rule_places_def unordered_rules_def)
qed

text \<open>A Proxy Node up to the orders of its Rules.\<close>

definition unordered_rule :: "rule \<Rightarrow> rule" where
  "unordered_rule r = r\<lparr>rul_Order := 0\<rparr>"

definition ruleless :: "proxy_node \<Rightarrow> proxy_node" where
  "ruleless node = node\<lparr>pn_Links := map (\<lambda>l. l\<lparr>lnk_Rules := map unordered_rule (lnk_Rules l)\<rparr>) (pn_Links node),
     pn_BlockBranches := map (\<lambda>b. b\<lparr>blk_Rule := unordered_rule (blk_Rule b)\<rparr>) (pn_BlockBranches node)\<rparr>"

lemma update_at_map_same: "(\<And>x. g (f x) = g x) \<Longrightarrow> map g (update_at i f xs) = map g xs"
  by (rule update_at_unchanged_map)

lemma ruleless_set_rule_order [simp]: "ruleless (set_rule_order n place node) = ruleless node"
proof (cases place)
  case (LinkRule i j)
  have "map unordered_rule (update_at j (\<lambda>r. r\<lparr>rul_Order := int n\<rparr>) rs) = map unordered_rule rs" for rs
    by (rule update_at_map_same) (simp add: unordered_rule_def)
  then show ?thesis
    unfolding LinkRule ruleless_def by (simp add: update_at_map_same)
next
  case (BlockRule i)
  then show ?thesis unfolding ruleless_def by (simp add: update_at_map_same unordered_rule_def)
qed

lemma ruleless_fold [simp]:
  "ruleless (fold (\<lambda>(n, place). set_rule_order n place) xs node) = ruleless node"
  by (induction xs arbitrary: node) auto

lemma ruleless_keeps:
  assumes "ruleless node = ruleless node'"
  shows "pn_Hops node = pn_Hops node'" "pn_Entrance node = pn_Entrance node'"
    "map (\<lambda>l. l\<lparr>lnk_Rules := map unordered_rule (lnk_Rules l)\<rparr>) (pn_Links node) =
       map (\<lambda>l. l\<lparr>lnk_Rules := map unordered_rule (lnk_Rules l)\<rparr>) (pn_Links node')"
    "map (\<lambda>b. b\<lparr>blk_Rule := unordered_rule (blk_Rule b)\<rparr>) (pn_BlockBranches node) =
       map (\<lambda>b. b\<lparr>blk_Rule := unordered_rule (blk_Rule b)\<rparr>) (pn_BlockBranches node')"
    "pn_Memberships node = pn_Memberships node'" "pn_RuleSets node = pn_RuleSets node'"
    "pn_SubscriptionAddressMode node = pn_SubscriptionAddressMode node'"
    "pn_ID node = pn_ID node'" "pn_Name node = pn_Name node'"
    "pn_CreatedAt node = pn_CreatedAt node'" "pn_UpdatedAt node = pn_UpdatedAt node'"
  using arg_cong [OF assms, of pn_Hops]
    arg_cong [OF assms, of pn_Entrance]
    arg_cong [OF assms, of pn_Links]
    arg_cong [OF assms, of pn_BlockBranches]
    arg_cong [OF assms, of pn_Memberships]
    arg_cong [OF assms, of pn_RuleSets]
    arg_cong [OF assms, of pn_SubscriptionAddressMode]
    arg_cong [OF assms, of pn_ID]
    arg_cong [OF assms, of pn_Name]
    arg_cong [OF assms, of pn_CreatedAt]
    arg_cong [OF assms, of pn_UpdatedAt]
  by (simp_all add: ruleless_def)

lemma rule_count_same:
  assumes "ruleless node = ruleless node'"
  shows "rule_slot node place = rule_slot node' place"
    and "rule_slot node place \<Longrightarrow> place_parent node place = place_parent node' place"
proof -
  let ?f = "\<lambda>l. l\<lparr>lnk_Rules := map unordered_rule (lnk_Rules l)\<rparr>"
  let ?g = "\<lambda>b. b\<lparr>blk_Rule := unordered_rule (blk_Rule b)\<rparr>"
  note eq = ruleless_keeps(3,4) [OF assms]
  have len: "length (pn_Links node) = length (pn_Links node')"
    "length (pn_BlockBranches node) = length (pn_BlockBranches node')"
    using eq [THEN map_eq_imp_length_eq] by simp_all
  have l: "?f (pn_Links node ! i) = ?f (pn_Links node' ! i)" if "i < length (pn_Links node)" for i
    using arg_cong [OF eq(1), of "\<lambda>l. l ! i"] that len by simp
  have b: "?g (pn_BlockBranches node ! i) = ?g (pn_BlockBranches node' ! i)"
    if "i < length (pn_BlockBranches node)" for i
    using arg_cong [OF eq(2), of "\<lambda>l. l ! i"] that len by simp
  have l1: "length (lnk_Rules (pn_Links node ! i)) = length (lnk_Rules (pn_Links node' ! i))"
    "lnk_ParentHopID (pn_Links node ! i) = lnk_ParentHopID (pn_Links node' ! i)"
    if "i < length (pn_Links node)" for i
    using arg_cong [OF l [OF that], of "\<lambda>l. length (lnk_Rules l)"] arg_cong [OF l [OF that], of lnk_ParentHopID]
    by simp_all
  have b1: "blk_ParentHopID (pn_BlockBranches node ! i) = blk_ParentHopID (pn_BlockBranches node' ! i)"
    if "i < length (pn_BlockBranches node)" for i
    using arg_cong [OF b [OF that], of blk_ParentHopID] by simp
  show "rule_slot node place = rule_slot node' place"
    by (cases place) (use len l1 in auto)
  show "place_parent node place = place_parent node' place" if "rule_slot node place"
    using that by (cases place) (use l1 b1 in auto)
qed

lemma rule_places_mset:
  assumes "ruleless node = ruleless node'"
  shows "mset (rule_places node h) = mset (rule_places node' h)"
proof -
  have "set (rule_places node h) = set (rule_places node' h)"
    using rule_count_same [OF assms] rule_count_same [OF assms [symmetric]] by (auto simp: set_rule_places)
  then show ?thesis by (simp add: distinct_rule_places set_eq_iff_mset_eq_distinct)
qed

definition rules_ok :: "proxy_node \<Rightarrow> string \<Rightarrow> bool" where
  "rules_ok node h \<longleftrightarrow> contiguous (rule_orders (pn_Links node) (pn_BlockBranches node) h)"

lemma applyRuleOrder_facts:
  assumes "mset (map or_place ordered) = mset (rule_places node h)"
  defines "node' \<equiv> applyRuleOrder ordered node"
  shows "ruleless node' = ruleless node" and "rules_ok node' h"
    and "q \<noteq> h \<Longrightarrow> rules_ok node' q = rules_ok node q"
    and "p < length ordered \<Longrightarrow> rul_Order (rule_at node' (or_place (ordered ! p))) = int p"
    and "rule_slot node place \<Longrightarrow> place_parent node place \<noteq> h \<Longrightarrow>
      rul_Order (rule_at node' place) = rul_Order (rule_at node place)"
proof -
  let ?ks = "map or_place ordered"
  have run: "node' = fold (\<lambda>(n, k). set_rule_order n k) (enumerated ?ks) node"
    unfolding node'_def applyRuleOrder_def enumerated_def
    by (simp add: zip_map2 fold_map comp_def split_def)
  have set_ks: "set ?ks = set (rule_places node h)" using assms(1) by (rule mset_eq_setD)
  have dist: "distinct ?ks" using assms(1) distinct_rule_places by (metis mset_eq_imp_distinct_iff)
  have slots: "\<forall>k \<in> set ?ks. rule_slot node k" using set_ks by (simp add: set_rule_places)
  show shape: "ruleless node' = ruleless node" unfolding run by simp
  have "mset (rule_places node' h) = mset ?ks" using rule_places_mset [OF shape] assms(1) by simp
  from rule_order.number_contiguous [OF dist slots this, folded run]
  show "rules_ok node' h" by (simp add: rules_ok_def rule_orders_places)
  show other: "rul_Order (rule_at node' place) = rul_Order (rule_at node place)"
    if "rule_slot node place" "place_parent node place \<noteq> h" for place
    using rule_order.number_others [OF dist slots that(1), folded run] set_ks that(2)
    by (simp add: set_rule_places)
  show "rules_ok node' q = rules_ok node q" if "q \<noteq> h"
  proof -
    have "map (\<lambda>place. rul_Order (rule_at node' place)) (rule_places node q) =
        map (\<lambda>place. rul_Order (rule_at node place)) (rule_places node q)"
      using other that by (auto simp: set_rule_places)
    moreover have "contiguous (map f (rule_places node' q)) = contiguous (map f (rule_places node q))" for f
      unfolding contiguous_def using rule_places_mset [OF shape, of q]
      by (metis length_map mset_eq_length mset_map)
    ultimately show ?thesis unfolding rules_ok_def rule_orders_places by (simp only:)
  qed
  show "rul_Order (rule_at node' (or_place (ordered ! p))) = int p" if "p < length ordered"
    using rule_order.number_from [OF dist slots, of 0] that run by (simp add: enumerated_def)
qed

lemma orderedRules_places: "mset (map or_place (orderedRulesForHop node h)) = mset (rule_places node h)"
  by (simp add: orderedRulesForHop_def rule_places_def)

lemma normalizeRuleOrders_facts:
  "ruleless (normalizeRuleOrders node) = ruleless node"
  "h \<in> hop_ids node \<Longrightarrow> rules_ok (normalizeRuleOrders node) h"
proof -
  let ?run = "\<lambda>hs node. fold (\<lambda>h node. applyRuleOrder (orderedRulesForHop node (hop_ID h)) node) hs node"
  note step = applyRuleOrder_facts [OF orderedRules_places]
  have shape: "ruleless (?run hs node) = ruleless node" for hs node
    by (induction hs arbitrary: node) (simp_all add: step(1))
  then show "ruleless (normalizeRuleOrders node) = ruleless node" by (simp add: normalizeRuleOrders_def)
  have keep: "rules_ok node h \<Longrightarrow> rules_ok (?run hs node) h" for hs node
  proof (induction hs arbitrary: node)
    case (Cons x hs)
    have "rules_ok (applyRuleOrder (orderedRulesForHop node (hop_ID x)) node) h"
      using step(2) [of node "hop_ID x"] step(3) [of h "hop_ID x" node] Cons.prems by (cases "h = hop_ID x") auto
    then show ?case using Cons.IH by simp
  qed simp
  have "h \<in> hop_ID ` set hs \<Longrightarrow> rules_ok (?run hs node) h" for hs node
  proof (induction hs arbitrary: node)
    case (Cons x hs)
    then show ?case using keep step(2) [of node "hop_ID x"] by (cases "h = hop_ID x") auto
  qed simp
  then show "h \<in> hop_ids node \<Longrightarrow> rules_ok (normalizeRuleOrders node) h"
    by (simp add: normalizeRuleOrders_def hop_ids_def)
qed

end
