(* ===== verification/TopologyFacts.thy ===== *)
theory TopologyFacts
  imports RoutingFacts
begin

text \<open>
  The operations of the topology plane keep a Proxy Node valid: what they do to the routing tree
  and to the priorities, and that the result passes the checks of \<open>validateProxyNode\<close> again.

  \<open>topology_pre\<close> is validity without the priority conditions. Renumbering turns it into
  \<open>topology_ok\<close>, so an operation that ends in \<open>normalizeLinkOrders\<close> and \<open>normalizeRuleOrders\<close> only
  has to keep the tree.
\<close>

section \<open>Validity without priorities\<close>

definition unordered :: "link \<Rightarrow> link" where
  "unordered l = l\<lparr>lnk_Order := 0, lnk_Rules := map unordered_rule (lnk_Rules l)\<rparr>"

definition unordered_block :: "block_branch \<Rightarrow> block_branch" where
  "unordered_block b = b\<lparr>blk_Rule := unordered_rule (blk_Rule b)\<rparr>"

definition topology_pre :: "proxy_node \<Rightarrow> bool" where
  "topology_pre node \<longleftrightarrow>
     validSubscriptionAddressMode (pn_SubscriptionAddressMode node) \<and>
     length (pn_Hops node) + length (pn_Links node) + length (pn_BlockBranches node) \<le> 10000 \<and>
     validateEndpoint (ent_Endpoint (pn_Entrance node)) = Inr () \<and>
     (\<forall>h \<in> set (pn_Hops node). hop_ok h) \<and>
     (\<forall>l \<in> set (pn_Links node). link_ok (unordered l)) \<and>
     (\<forall>b \<in> set (pn_BlockBranches node). block_ok (unordered_block b) \<and> blk_ParentHopID b \<in> hop_ids node) \<and>
     distinct (map lnk_ID (pn_Links node)) \<and>
     routing_tree node \<and>
     (\<forall>h \<in> hop_ids node. one_fallback (pn_Links node) h)"

lemma validateRule_unordered [simp]: "validateRule (r\<lparr>rul_Order := n\<rparr>) = validateRule r"
  by (simp add: validateRule_def)

lemma link_rule_ok_unordered: "link_rule_ok r \<longleftrightarrow> link_rule_ok (unordered_rule r) \<and> rul_Order r \<ge> 0"
  by (auto simp: link_rule_ok_def unordered_rule_def)

lemma link_ok_unordered:
  "link_ok l \<longleftrightarrow> link_ok (unordered l) \<and> lnk_Order l \<ge> 0 \<and> (\<forall>r \<in> set (lnk_Rules l). rul_Order r \<ge> 0)"
proof -
  have "(\<forall>r \<in> set (lnk_Rules l). link_rule_ok r) \<longleftrightarrow>
      (\<forall>r \<in> set (lnk_Rules l). link_rule_ok (unordered_rule r)) \<and> (\<forall>r \<in> set (lnk_Rules l). rul_Order r \<ge> 0)"
    using link_rule_ok_unordered by blast
  then show ?thesis unfolding link_ok_def unordered_def by auto
qed

lemma block_ok_unordered: "block_ok b \<longleftrightarrow> block_ok (unordered_block b) \<and> rul_Order (blk_Rule b) \<ge> 0"
  using link_rule_ok_unordered [of "blk_Rule b"] by (auto simp: block_ok_def unordered_block_def)

lemma contiguous_nonneg: "contiguous xs \<Longrightarrow> x \<in> set xs \<Longrightarrow> x \<ge> 0"
  using contiguous_set by fastforce

lemma topology_ok_pre:
  "topology_ok node \<longleftrightarrow> topology_pre node \<and> (\<forall>h \<in> hop_ids node. rules_ok node h) \<and>
     (\<forall>h \<in> hop_ids node. siblings_ok (outgoing_links (pn_Links node) h))"
proof
  assume "topology_ok node"
  then show "topology_pre node \<and> (\<forall>h \<in> hop_ids node. rules_ok node h) \<and>
     (\<forall>h \<in> hop_ids node. siblings_ok (outgoing_links (pn_Links node) h))"
    using link_ok_unordered block_ok_unordered siblings_ok_one_fallback
    unfolding topology_ok_def topology_pre_def rules_ok_def by blast
next
  assume a: "topology_pre node \<and> (\<forall>h \<in> hop_ids node. rules_ok node h) \<and>
     (\<forall>h \<in> hop_ids node. siblings_ok (outgoing_links (pn_Links node) h))"
  have parent: "lnk_ParentHopID l \<in> hop_ids node" if "l \<in> set (pn_Links node)" for l
    using a that by (auto simp: topology_pre_def routing_tree_def edges_def)
  have "link_ok l" if l: "l \<in> set (pn_Links node)" for l
  proof -
    have out: "l \<in> set (outgoing_links (pn_Links node) (lnk_ParentHopID l))"
      using l by (simp add: outgoing_links_def)
    have "contiguous (map lnk_Order (outgoing_links (pn_Links node) (lnk_ParentHopID l)))"
      using a parent [OF l] by (simp add: siblings_ok_def)
    then have "lnk_Order l \<ge> 0" by (rule contiguous_nonneg) (use out in simp)
    moreover have "rul_Order r \<ge> 0" if "r \<in> set (lnk_Rules l)" for r
    proof -
      have "rul_Order r \<in> set (rule_orders (pn_Links node) (pn_BlockBranches node) (lnk_ParentHopID l))"
        using that out by (auto simp: rule_orders_def)
      moreover have "contiguous (rule_orders (pn_Links node) (pn_BlockBranches node) (lnk_ParentHopID l))"
        using a parent [OF l] by (simp add: rules_ok_def)
      ultimately show ?thesis by (metis contiguous_nonneg)
    qed
    ultimately show ?thesis using a l by (subst link_ok_unordered) (auto simp: topology_pre_def)
  qed
  moreover have "block_ok b" if b: "b \<in> set (pn_BlockBranches node)" for b
  proof -
    have "blk_ParentHopID b \<in> hop_ids node" using a b by (simp add: topology_pre_def)
    moreover have "rul_Order (blk_Rule b) \<in>
        set (rule_orders (pn_Links node) (pn_BlockBranches node) (blk_ParentHopID b))"
      using b by (auto simp: rule_orders_def)
    moreover have "contiguous (rule_orders (pn_Links node) (pn_BlockBranches node) (blk_ParentHopID b))"
      using a calculation(1) by (simp add: rules_ok_def)
    ultimately have "rul_Order (blk_Rule b) \<ge> 0" by (metis contiguous_nonneg)
    then show ?thesis using a b by (subst block_ok_unordered) (auto simp: topology_pre_def)
  qed
  ultimately show "topology_ok node"
    using a unfolding topology_ok_def topology_pre_def rules_ok_def by blast
qed

section \<open>Renumbering\<close>

text \<open>Two Proxy Nodes that differ only in the orders of Links and Rules.\<close>

definition same_shape :: "proxy_node \<Rightarrow> proxy_node \<Rightarrow> bool" where
  "same_shape n n' \<longleftrightarrow>
     pn_Hops n = pn_Hops n' \<and> pn_Entrance n = pn_Entrance n' \<and>
     map unordered (pn_Links n) = map unordered (pn_Links n') \<and>
     map unordered_block (pn_BlockBranches n) = map unordered_block (pn_BlockBranches n') \<and>
     pn_SubscriptionAddressMode n = pn_SubscriptionAddressMode n' \<and>
     pn_ID n = pn_ID n' \<and> pn_Name n = pn_Name n' \<and> pn_Memberships n = pn_Memberships n' \<and>
     pn_RuleSets n = pn_RuleSets n' \<and> pn_CreatedAt n = pn_CreatedAt n' \<and> pn_UpdatedAt n = pn_UpdatedAt n'"

lemma same_shape_refl [simp]: "same_shape n n"
  by (simp add: same_shape_def)

lemma same_shape_trans: "same_shape a b \<Longrightarrow> same_shape b c \<Longrightarrow> same_shape a c"
  by (simp add: same_shape_def)

lemma map_via: "map f xs = map f ys \<Longrightarrow> (\<And>x. g x = h (f x)) \<Longrightarrow> map g xs = map g ys"
  by (metis (mono_tags, lifting) list.map_comp map_cong comp_def)

lemma same_shape_links:
  assumes "same_shape n n'"
  shows "edges (pn_Links n) = edges (pn_Links n')" "map lnk_ID (pn_Links n) = map lnk_ID (pn_Links n')"
    "map lnk_ChildHopID (pn_Links n) = map lnk_ChildHopID (pn_Links n')"
    "one_fallback (pn_Links n) p = one_fallback (pn_Links n') p"
    "hop_ids n = hop_ids n'"
proof -
  have eq: "map unordered (pn_Links n) = map unordered (pn_Links n')" using assms by (simp add: same_shape_def)
  have "edges ls = (\<lambda>l. (lnk_ParentHopID l, lnk_ChildHopID l)) ` set ls" for ls by (auto simp: edges_def)
  then have "edges ls = edges (map unordered ls)" for ls by (simp add: image_image unordered_def)
  then show "edges (pn_Links n) = edges (pn_Links n')" by (metis eq)
  show "map lnk_ID (pn_Links n) = map lnk_ID (pn_Links n')"
    "map lnk_ChildHopID (pn_Links n) = map lnk_ChildHopID (pn_Links n')"
    by (rule map_via [OF eq, where h = lnk_ID], simp add: unordered_def)
      (rule map_via [OF eq, where h = lnk_ChildHopID], simp add: unordered_def)
  have "length (filter lnk_Fallback (outgoing_links ls p)) =
      length (filter lnk_Fallback (outgoing_links (map unordered ls) p))" for ls
    by (induction ls) (auto simp: outgoing_links_def unordered_def)
  with eq show "one_fallback (pn_Links n) p = one_fallback (pn_Links n') p"
    unfolding one_fallback_def by metis
  show "hop_ids n = hop_ids n'" using assms by (simp add: hop_ids_def same_shape_def)
qed

lemma same_shape_pre:
  assumes "same_shape n n'"
  shows "topology_pre n = topology_pre n'"
proof -
  note links = same_shape_links [OF assms]
  have eq: "map unordered (pn_Links n) = map unordered (pn_Links n')"
    "map unordered_block (pn_BlockBranches n) = map unordered_block (pn_BlockBranches n')"
    using assms by (simp_all add: same_shape_def)
  have "(\<forall>l \<in> set (pn_Links n). link_ok (unordered l)) = (\<forall>l \<in> set (pn_Links n'). link_ok (unordered l))"
  proof -
    have "(\<forall>l \<in> set ls. link_ok (unordered l)) = (\<forall>l \<in> set (map unordered ls). link_ok l)" for ls by simp
    then show ?thesis by (simp only: eq(1))
  qed
  moreover have "(\<forall>b \<in> set (pn_BlockBranches n). block_ok (unordered_block b) \<and> blk_ParentHopID b \<in> hop_ids n) =
      (\<forall>b \<in> set (pn_BlockBranches n'). block_ok (unordered_block b) \<and> blk_ParentHopID b \<in> hop_ids n)"
  proof -
    have "(\<forall>b \<in> set bs. block_ok (unordered_block b) \<and> blk_ParentHopID b \<in> H) =
        (\<forall>b \<in> set (map unordered_block bs). block_ok b \<and> blk_ParentHopID b \<in> H)" for bs H
      by (auto simp: unordered_block_def)
    then show ?thesis by (simp only: eq(2))
  qed
  moreover have "length (pn_Links n) = length (pn_Links n')"
    "length (pn_BlockBranches n) = length (pn_BlockBranches n')"
    using eq [THEN map_eq_imp_length_eq] by simp_all
  moreover have "routing_tree n = routing_tree n'"
    using links assms by (simp add: routing_tree_def same_shape_def)
  ultimately show ?thesis
    using links assms unfolding topology_pre_def same_shape_def by simp
qed

lemma same_shape_ruleless:
  assumes "ruleless n = ruleless n'"
  shows "same_shape n n'"
proof -
  have "map unordered (pn_Links n) = map unordered (pn_Links n')"
    by (rule map_via [OF ruleless_keeps(3) [OF assms], where h = "\<lambda>l. l\<lparr>lnk_Order := 0\<rparr>"])
      (simp add: unordered_def)
  then show ?thesis
    using ruleless_keeps [OF assms] by (simp add: same_shape_def unordered_block_def [abs_def])
qed

lemma outgoing_via:
  "siblings_ok (outgoing_links ls h) = siblings_ok (outgoing_links (map (\<lambda>l. l\<lparr>lnk_Rules := map unordered_rule (lnk_Rules l)\<rparr>) ls) h)"
proof -
  let ?f = "\<lambda>l. l\<lparr>lnk_Rules := map unordered_rule (lnk_Rules l)\<rparr>"
  have "outgoing_links (map ?f ls) h = map ?f (outgoing_links ls h)"
    by (induction ls) (auto simp: outgoing_links_def)
  then show ?thesis by (simp add: siblings_ok_def comp_def)
qed

lemma ruleless_siblings:
  "ruleless n = ruleless n' \<Longrightarrow>
     siblings_ok (outgoing_links (pn_Links n) h) = siblings_ok (outgoing_links (pn_Links n') h)"
  using outgoing_via [of "pn_Links n" h] outgoing_via [of "pn_Links n'" h] ruleless_keeps(3) [of n n']
  by simp

text \<open>Any rearrangement of the Rules of a Hop keeps a Proxy Node valid.\<close>

lemma ruleless_topology_ok:
  assumes "topology_ok n" "ruleless n' = ruleless n" "\<forall>h \<in> hop_ids n. rules_ok n' h"
  shows "topology_ok n'"
proof -
  note shape = same_shape_ruleless [OF assms(2)]
  have "topology_pre n'" using assms(1) same_shape_pre [OF shape] by (simp add: topology_ok_pre)
  then show ?thesis
    using assms same_shape_links(5) [OF shape] ruleless_siblings [OF assms(2)]
    by (simp add: topology_ok_pre)
qed

lemma same_shape_normalizeLinkOrders: "same_shape (normalizeLinkOrders n) n"
proof -
  have "map unordered_link (pn_Links (normalizeLinkOrders n)) = map unordered_link (pn_Links n)"
    using fold_normalize_siblings(1) by (simp add: normalizeLinkOrders_def)
  then have "map unordered (pn_Links (normalizeLinkOrders n)) = map unordered (pn_Links n)"
    by (rule map_via [where h = "\<lambda>l. l\<lparr>lnk_Rules := map unordered_rule (lnk_Rules l)\<rparr>"])
      (simp add: unordered_def unordered_link_def)
  then show ?thesis by (simp add: same_shape_def normalizeLinkOrders_def)
qed

lemma same_shape_normalize: "same_shape (normalizeRuleOrders (normalizeLinkOrders n)) n"
  using same_shape_trans [OF same_shape_ruleless [OF normalizeRuleOrders_facts(1)] same_shape_normalizeLinkOrders] .

lemma normalize_topology_ok:
  assumes "topology_pre n"
  shows "topology_ok (normalizeRuleOrders (normalizeLinkOrders n))"
proof -
  let ?m = "normalizeLinkOrders n" and ?r = "normalizeRuleOrders (normalizeLinkOrders n)"
  have hops: "hop_ids ?m = hop_ids n" "hop_ids ?r = hop_ids n"
    using same_shape_links(5) same_shape_normalizeLinkOrders same_shape_normalize by blast+
  have "siblings_ok (outgoing_links (pn_Links ?m) h)" if "h \<in> hop_ids n" for h
  proof -
    have "one_fallback (pn_Links n) h" using assms that by (simp add: topology_pre_def)
    moreover have "h \<in> hop_ID ` set (pn_Hops n)" using that by (simp add: hop_ids_def)
    ultimately show ?thesis
      using fold_normalize_siblings(3) [where ls = "pn_Links n" and hs = "pn_Hops n"]
      by (simp add: normalizeLinkOrders_def)
  qed
  then have "\<forall>h \<in> hop_ids n. siblings_ok (outgoing_links (pn_Links ?r) h)"
    using ruleless_siblings [OF normalizeRuleOrders_facts(1)] by blast
  moreover have "\<forall>h \<in> hop_ids n. rules_ok ?r h" using normalizeRuleOrders_facts(2) hops by blast
  moreover have "topology_pre ?r" using same_shape_pre [OF same_shape_normalize] assms by blast
  ultimately show ?thesis by (simp add: topology_ok_pre hops)
qed

end
