(* ===== verification/BranchFacts.thy ===== *)
theory BranchFacts
  imports TopologyFacts TopologyPlane
begin

text \<open>
  What the operations on branches, Links, Rules and Hops do to a valid Proxy Node: removing a
  Link removes exactly the subtree below it, adding a branch adds a leaf, and each of them leaves
  a Proxy Node that passes the topology checks. So the validation that every transaction runs
  afterwards never refuses them for a reason of their own.
\<close>

named_theorems edit_simps \<open>the result of an edit of one Proxy Node, step by step\<close>

declare bindE_Inr_iff [edit_simps] from_option_Inr [edit_simps] Let_def [edit_simps]

section \<open>Removing a subtree\<close>

lemma one_fallback_filter: "one_fallback ls p \<Longrightarrow> one_fallback (filter P ls) p"
proof -
  assume one: "one_fallback ls p"
  have "filter lnk_Fallback (outgoing_links (filter P ls) p) = filter P (filter lnk_Fallback (outgoing_links ls p))"
    unfolding outgoing_links_def by (induction ls) auto
  then show ?thesis using one length_filter_le order_trans unfolding one_fallback_def by metis
qed

lemma edges_filter: "edges (filter P ls) \<subseteq> edges ls"
  by (auto simp: edges_def)

lemma edges_image: "edges ls = (\<lambda>l. (lnk_ParentHopID l, lnk_ChildHopID l)) ` set ls"
  by (auto simp: edges_def)

lemma edges_memI: "l \<in> set ls \<Longrightarrow> (lnk_ParentHopID l, lnk_ChildHopID l) \<in> edges ls"
  by (auto simp: edges_def)

text \<open>Dropping a set of Hops that is closed under going down keeps a tree.\<close>

lemma reach_outside:
  assumes "E `` R \<subseteq> R" "(r, h) \<in> E\<^sup>*" "h \<notin> R"
  shows "(r, h) \<in> (E \<inter> (- R) \<times> (- R))\<^sup>*"
  using assms(2,3)
proof (induction rule: rtrancl_induct)
  case base
  then show ?case by simp
next
  case (step y z)
  have "y \<notin> R" using step.hyps(2) step.prems assms(1) by blast
  then have "(y, z) \<in> E \<inter> (- R) \<times> (- R)" using step.hyps(2) step.prems by simp
  then show ?case using step.IH \<open>y \<notin> R\<close> by (meson rtrancl_into_rtrancl)
qed

lemma edges_touches:
  "edges (filter (\<lambda>l. \<not> touches R l) ls) = edges ls \<inter> (- R) \<times> (- R)"
  unfolding edges_def touches_def by auto

lemma prune_tree:
  assumes "routing_tree node" "edges (pn_Links node) `` R \<subseteq> R" "root_hop node \<notin> R"
  shows "routing_tree (remove_hops R (touches R) node)"
proof -
  have ids: "hop_ids (remove_hops R (touches R) node) = hop_ids node - R"
    by (auto simp: hop_ids_def remove_hops_def set_delete_func)
  have "(root_hop node, h) \<in> (edges (pn_Links node) \<inter> (- R) \<times> (- R))\<^sup>*" if "h \<in> hop_ids node - R" for h
    using reach_outside [OF assms(2)] assms(1) that by (simp add: routing_tree_def)
  then show ?thesis
    using assms ids unfolding routing_tree_def
    by (auto simp: remove_hops_def delete_func_def edges_touches intro: distinct_map_filter)
qed

lemma topology_pre_remove:
  assumes "topology_pre node" "routing_tree (remove_hops R p node)"
  shows "topology_pre (remove_hops R p node)"
proof -
  let ?n = "remove_hops R p node"
  have ids: "hop_ids ?n = hop_ids node - R" by (auto simp: hop_ids_def remove_hops_def set_delete_func)
  have "length (pn_Hops ?n) + length (pn_Links ?n) + length (pn_BlockBranches ?n)
      \<le> length (pn_Hops node) + length (pn_Links node) + length (pn_BlockBranches node)"
    unfolding remove_hops_def delete_func_def by (simp add: add_mono)
  then show ?thesis
    using assms ids unfolding topology_pre_def
    by (auto simp: remove_hops_def delete_func_def intro: distinct_map_filter one_fallback_filter)
qed

lemma descendants_closed: "edges (pn_Links node) `` descendantHops node h \<subseteq> descendantHops node h"
  by (auto simp: descendants_reachable intro: rtrancl_into_rtrancl)

lemma below_not_root:
  assumes "routing_tree node" "(p, c) \<in> edges (pn_Links node)" "(c, h) \<in> (edges (pn_Links node))\<^sup>*"
  shows "h \<noteq> root_hop node"
proof -
  have "c \<noteq> root_hop node" using assms(1,2) by (auto simp: routing_tree_def)
  with assms(3) show ?thesis
    by (induction rule: rtrancl_induct) (use assms(1) in \<open>auto simp: routing_tree_def\<close>)
qed

lemma parent_not_below:
  assumes "routing_tree node" "(p, c) \<in> edges (pn_Links node)"
  shows "p \<notin> descendantHops node c"
proof
  assume "p \<in> descendantHops node c"
  then have "(p, p) \<in> (edges (pn_Links node))\<^sup>+"
    using assms(2) by (simp add: descendants_reachable rtrancl_into_trancl2)
  then show False using routing_tree_acyclic [OF assms(1)] by (simp add: acyclic_def)
qed

lemma same_id_same_link:
  "distinct (map lnk_ID ls) \<Longrightarrow> l \<in> set ls \<Longrightarrow> m \<in> set ls \<Longrightarrow> lnk_ID l = lnk_ID m \<Longrightarrow> l = m"
  by (auto simp: distinct_map dest: inj_onD)

lemma link_index_Inr:
  "link_index lid node = Inr i \<Longrightarrow>
     i < length (pn_Links node) \<and> pn_Links node ! i \<in> set (pn_Links node) \<and> lnk_ID (pn_Links node ! i) = lid"
  unfolding link_index_def by (auto simp: from_option_Inr dest: index_func_SomeD)

lemma link_index_found:
  assumes "l \<in> set (pn_Links node)"
  shows "\<exists>i. link_index (lnk_ID l) node = Inr i"
proof (cases "link_index (lnk_ID l) node")
  case (Inl e)
  then have "index_func (\<lambda>m. lnk_ID m = lnk_ID l) (pn_Links node) = None"
    by (simp add: link_index_def from_option_def split: option.splits)
  then show ?thesis using assms unfolding index_func_None by blast
qed blast

text \<open>\<open>DeleteLink\<close> removes exactly the Hops below the Link, and every Link and BLOCK branch that
  hangs on them; the rest is renumbered.\<close>

lemma delete_link_result:
  assumes ok: "topology_ok node" and l: "l \<in> set (pn_Links node)"
  shows "delete_link (lnk_ID l) node = Inr (normalizeRuleOrders (normalizeLinkOrders
      (remove_hops (descendantHops node (lnk_ChildHopID l))
        (touches (descendantHops node (lnk_ChildHopID l))) node)), ())"
proof -
  let ?R = "descendantHops node (lnk_ChildHopID l)"
  have dist: "distinct (map lnk_ID (pn_Links node))" using ok by (simp add: topology_ok_def)
  obtain i where i: "link_index (lnk_ID l) node = Inr i" using link_index_found [OF l] ..
  then have at: "pn_Links node ! i = l" using same_id_same_link [OF dist _ l] link_index_Inr by blast
  have "touches ?R l" by (simp add: touches_def descendants_reachable)
  then have "lnk_ID m = lnk_ID l \<or> touches ?R m \<longleftrightarrow> touches ?R m" if "m \<in> set (pn_Links node)" for m
    using same_id_same_link [OF dist that l] by blast
  then have "lnk_ID m \<in> lnk_ID ` {m \<in> set (pn_Links node). lnk_ID m = lnk_ID l \<or> touches ?R m} \<longleftrightarrow> touches ?R m"
    if "m \<in> set (pn_Links node)" for m
    using that same_id_same_link [OF dist that] by blast
  then have "remove_hops ?R (\<lambda>m. lnk_ID m \<in> lnk_ID ` {m \<in> set (pn_Links node). lnk_ID m = lnk_ID l \<or> touches ?R m}) node
      = remove_hops ?R (touches ?R) node"
    unfolding remove_hops_def delete_func_def by (simp cong: filter_cong)
  then show ?thesis by (simp add: delete_link_def i at Let_def)
qed

lemma prune_below:
  assumes ok: "topology_ok node" and l: "l \<in> set (pn_Links node)"
  defines "R \<equiv> descendantHops node (lnk_ChildHopID l)"
  shows "topology_pre (remove_hops R (touches R) node)"
proof -
  have tree: "routing_tree node" using ok by (simp add: topology_ok_def)
  have "root_hop node \<notin> R"
    using below_not_root [OF tree edges_memI [OF l]] by (auto simp: R_def descendants_reachable)
  then show ?thesis
    using topology_pre_remove prune_tree [OF tree] descendants_closed ok
    by (simp add: R_def topology_ok_pre)
qed

lemma delete_link_topology_ok:
  assumes "topology_ok node" "l \<in> set (pn_Links node)"
  obtains node' where "delete_link (lnk_ID l) node = Inr (node', ())" "topology_ok node'"
    "hop_ids node' = {h \<in> hop_ids node. (lnk_ChildHopID l, h) \<notin> (edges (pn_Links node))\<^sup>*}"
    "edges (pn_Links node') = {(p, c) \<in> edges (pn_Links node). (lnk_ChildHopID l, c) \<notin> (edges (pn_Links node))\<^sup>*}"
proof -
  let ?R = "descendantHops node (lnk_ChildHopID l)"
  let ?m = "remove_hops ?R (touches ?R) node"
  let ?n = "normalizeRuleOrders (normalizeLinkOrders ?m)"
  have "hop_ids ?n = hop_ids ?m" "edges (pn_Links ?n) = edges (pn_Links ?m)"
    using same_shape_links [OF same_shape_normalize] by blast+
  moreover have "hop_ids ?m = hop_ids node - ?R" by (auto simp: hop_ids_def remove_hops_def set_delete_func)
  moreover have "edges (pn_Links ?m) = edges (pn_Links node) \<inter> (- ?R) \<times> (- ?R)"
    by (simp add: remove_hops_def delete_func_def edges_touches)
  moreover have "edges (pn_Links node) \<inter> (- ?R) \<times> (- ?R) = {(p, c) \<in> edges (pn_Links node). c \<notin> ?R}"
    using descendants_closed by blast
  ultimately show ?thesis
    using that [OF delete_link_result [OF assms] normalize_topology_ok [OF prune_below [OF assms]]]
    by (auto simp: descendants_reachable)
qed

section \<open>Replacing the Hop behind a Link\<close>

lemma topology_preI:
  assumes "topology_pre node" "routing_tree node'"
    and "pn_SubscriptionAddressMode node' = pn_SubscriptionAddressMode node" "pn_Entrance node' = pn_Entrance node"
    and "length (pn_Hops node') + length (pn_Links node') + length (pn_BlockBranches node') \<le> 10000"
    and "\<And>h. h \<in> set (pn_Hops node') \<Longrightarrow> hop_ok h"
    and "\<And>l. l \<in> set (pn_Links node') \<Longrightarrow> link_ok (unordered l)"
    and "\<And>b. b \<in> set (pn_BlockBranches node') \<Longrightarrow> block_ok (unordered_block b) \<and> blk_ParentHopID b \<in> hop_ids node'"
    and "distinct (map lnk_ID (pn_Links node'))"
    and "\<And>h. h \<in> hop_ids node' \<Longrightarrow> one_fallback (pn_Links node') h"
  shows "topology_pre node'"
  using assms by (simp add: topology_pre_def)

text \<open>A tree with one more leaf.\<close>

lemma leaf_tree:
  assumes "routing_tree node" "p \<in> hop_ids node" "hop_ID h \<notin> hop_ids node"
    and "pn_Hops node' = pn_Hops node @ [h]" "pn_Entrance node' = pn_Entrance node"
    and "edges (pn_Links node') = insert (p, hop_ID h) (edges (pn_Links node))"
    and "distinct (map lnk_ChildHopID (pn_Links node'))"
  shows "routing_tree node'"
proof -
  let ?E = "edges (pn_Links node)" and ?E' = "edges (pn_Links node')"
  have ids: "hop_ids node' = insert (hop_ID h) (hop_ids node)" using assms(4) by (auto simp: hop_ids_def)
  have mono: "?E\<^sup>* \<subseteq> ?E'\<^sup>*" using assms(6) by (intro rtrancl_mono) blast
  have "(root_hop node, p) \<in> ?E'\<^sup>*" using assms(1,2) mono by (auto simp: routing_tree_def)
  moreover have "(p, hop_ID h) \<in> ?E'" by (simp add: assms(6))
  ultimately have "(root_hop node, hop_ID h) \<in> ?E'\<^sup>*" by (rule rtrancl_into_rtrancl)
  then have reach: "\<forall>x \<in> hop_ids node'. (root_hop node, x) \<in> ?E'\<^sup>*"
    using assms(1) mono by (auto simp: ids routing_tree_def dest: subsetD)
  have "hop_ID h \<noteq> root_hop node" using assms(1,3) by (auto simp: routing_tree_def)
  moreover have "?E \<subseteq> hop_ids node \<times> (hop_ids node - {root_hop node})"
    using assms(1) by (simp add: routing_tree_def)
  ultimately have sub: "?E' \<subseteq> hop_ids node' \<times> (hop_ids node' - {root_hop node})"
    using assms(2) unfolding ids assms(6) by auto
  have dist: "distinct (map hop_ID (pn_Hops node'))"
    using assms(1,3,4) by (simp add: routing_tree_def hop_ids_def)
  have "root_hop node \<in> hop_ids node'" using assms(1) ids by (simp add: routing_tree_def)
  then show ?thesis using reach sub dist assms(5,7) by (simp add: routing_tree_def)
qed

lemma update_unique:
  assumes "distinct xs" "i < length xs"
  shows "update_at i f xs = map (\<lambda>x. if x = xs ! i then f x else x) xs"
  using assms by (intro nth_equalityI) (auto simp: nth_update_at nth_eq_iff_index_eq)

lemma one_fallback_map:
  assumes "\<And>l. lnk_ParentHopID (g l) = lnk_ParentHopID l" "\<And>l. lnk_Fallback (g l) = lnk_Fallback l"
  shows "one_fallback (map g ls) p = one_fallback ls p"
proof -
  have "length (filter lnk_Fallback (outgoing_links (map g ls) p)) = length (filter lnk_Fallback (outgoing_links ls p))"
    by (induction ls) (simp_all add: outgoing_links_def assms)
  then show ?thesis by (simp add: one_fallback_def)
qed

definition redirect :: "link \<Rightarrow> string \<Rightarrow> endpoint \<Rightarrow> credential \<Rightarrow> time \<Rightarrow> link \<Rightarrow> link" where
  "redirect l child e cred now m = (if m = l then m\<lparr>lnk_ChildHopID := child,
     lnk_Endpoint := e, lnk_Credential := cred, lnk_UpdatedAt := now\<rparr> else m)"

definition redirected :: "link \<Rightarrow> hop \<Rightarrow> endpoint \<Rightarrow> credential \<Rightarrow> time \<Rightarrow> proxy_node \<Rightarrow> proxy_node" where
  "redirected l created e cred now node =
     (let R = descendantHops node (lnk_ChildHopID l);
          m = remove_hops R (\<lambda>m. m \<noteq> l \<and> touches R m) node
      in m\<lparr>pn_Hops := pn_Hops m @ [created],
           pn_Links := map (redirect l (hop_ID created) e cred now) (pn_Links m)\<rparr>)"

lemma replace_destination_result:
  assumes ok: "topology_ok node" and l: "l \<in> set (pn_Links node)"
    and agent: "hop_AgentID created \<notin> AncestorAgentIDs node (lnk_ParentHopID l)"
  shows "replace_destination (lnk_ID l) created e cred now node =
    Inr (normalizeRuleOrders (normalizeLinkOrders (redirected l created e cred now node)), created)"
proof -
  let ?R = "descendantHops node (lnk_ChildHopID l)"
  let ?drop = "\<lambda>m. lnk_ID m \<noteq> lnk_ID l \<and> touches ?R m"
  have dist: "distinct (map lnk_ID (pn_Links node))" using ok by (simp add: topology_ok_def)
  have at: "pn_Links n ! i = l" if "link_index (lnk_ID l) n = Inr i" "set (pn_Links n) \<subseteq> set (pn_Links node)" for n i
    using same_id_same_link [OF dist _ l] link_index_Inr [OF that(1)] that(2) by blast
  obtain i where i: "link_index (lnk_ID l) node = Inr i" using link_index_found [OF l] ..
  have drop: "remove_hops ?R ?drop node = remove_hops ?R (\<lambda>m. m \<noteq> l \<and> touches ?R m) node" (is "_ = ?m")
  proof -
    have "?drop m \<longleftrightarrow> m \<noteq> l \<and> touches ?R m" if "m \<in> set (pn_Links node)" for m
      using same_id_same_link [OF dist that l] by blast
    then show ?thesis unfolding remove_hops_def delete_func_def by (simp cong: filter_cong)
  qed
  let ?n = "?m\<lparr>pn_Hops := pn_Hops ?m @ [created]\<rparr>"
  have links: "pn_Links ?n = filter (\<lambda>m. m = l \<or> \<not> touches ?R m) (pn_Links node)"
    by (simp add: remove_hops_def delete_func_def)
  have "l \<in> set (pn_Links ?n)" using l by (simp add: links)
  then obtain j where j: "link_index (lnk_ID l) ?n = Inr j" using link_index_found by blast
  have at_j: "pn_Links ?n ! j = l" using at [OF j] by (simp add: links)
  have "distinct (pn_Links ?n)" using dist unfolding links by (simp add: distinct_map)
  from update_unique [OF this conjunct1 [OF link_index_Inr [OF j]]] at_j
  have upd: "update_at j f (pn_Links ?m) = map (\<lambda>m. if m = l then f m else m) (pn_Links ?m)" for f by simp
  show ?thesis
    using i j at [OF i] agent
    by (simp add: replace_destination_def Let_def drop upd redirected_def redirect_def [abs_def])
qed

lemma redirected_tree:
  assumes ok: "topology_ok node" and l: "l \<in> set (pn_Links node)" and fresh: "hop_ID created \<notin> hop_ids node"
  shows "routing_tree (redirected l created e cred now node)"
proof -
  let ?R = "descendantHops node (lnk_ChildHopID l)"
  let ?n = "redirected l created e cred now node" and ?m = "remove_hops ?R (touches ?R) node"
  let ?ls = "filter (\<lambda>m. m = l \<or> \<not> touches ?R m) (pn_Links node)"
  let ?g = "redirect l (hop_ID created) e cred now"
  have tree: "routing_tree node" using ok by (simp add: topology_ok_def)
  have inside: "x \<in> ?R" if "x = lnk_ChildHopID l" for x using that by (simp add: descendants_reachable)
  have links: "pn_Links ?n = map ?g ?ls"
    by (simp add: redirected_def Let_def remove_hops_def delete_func_def)
  have p: "lnk_ParentHopID l \<notin> ?R" using parent_not_below [OF tree edges_memI [OF l]] .
  have "lnk_ParentHopID l \<in> hop_ids node" using tree l edges_memI by (force simp: routing_tree_def)
  moreover have ids: "hop_ids ?m = hop_ids node - ?R" by (auto simp: hop_ids_def remove_hops_def set_delete_func)
  ultimately have parent: "lnk_ParentHopID l \<in> hop_ids ?m" using p by simp
  have "touches ?R l" using inside by (simp add: touches_def)
  then have "set ?ls = insert l (set (filter (\<lambda>m. \<not> touches ?R m) (pn_Links node)))" using l by auto
  moreover have "?g m = m" if "m \<in> set (filter (\<lambda>m. \<not> touches ?R m) (pn_Links node))" for m
    using that \<open>touches ?R l\<close> by (auto simp: redirect_def)
  ultimately have set: "set (pn_Links ?n) = insert (?g l) (set (pn_Links ?m))"
    by (simp add: links remove_hops_def delete_func_def)
  have edges: "edges (pn_Links ?n) = insert (lnk_ParentHopID l, hop_ID created) (edges (pn_Links ?m))"
    unfolding edges_image set by (simp add: redirect_def)
  have child: "lnk_ChildHopID (?g m) = (if m = l then hop_ID created else lnk_ChildHopID m)" for m
    by (simp add: redirect_def)
  have old: "lnk_ChildHopID m \<noteq> hop_ID created" if "m \<in> set (pn_Links node)" for m
    using tree fresh edges_memI [OF that] by (auto simp: routing_tree_def)
  have "inj_on lnk_ChildHopID (set (pn_Links node))" "distinct (pn_Links node)"
    using tree by (simp_all add: routing_tree_def distinct_map)
  then have "distinct (map lnk_ChildHopID (pn_Links ?n))"
    unfolding links map_map distinct_map comp_def child
    by (auto simp: inj_on_def old old [symmetric])
  moreover have "routing_tree ?m"
    using prune_below [OF ok l] by (simp add: topology_pre_def)
  ultimately show ?thesis
    using leaf_tree [of ?m "lnk_ParentHopID l" created ?n] parent ids fresh edges
    by (simp add: redirected_def Let_def remove_hops_def)
qed

lemma redirected_size:
  assumes ok: "topology_ok node" and l: "l \<in> set (pn_Links node)"
  fixes created :: hop and e :: endpoint and cred :: credential and now :: time
  defines "n \<equiv> redirected l created e cred now node"
  shows "length (pn_Hops n) + length (pn_Links n) + length (pn_BlockBranches n) \<le> 10000"
proof -
  let ?R = "descendantHops node (lnk_ChildHopID l)"
  have tree: "routing_tree node" using ok by (simp add: topology_ok_def)
  then have "lnk_ChildHopID l \<in> hop_ids node" using edges_memI [OF l] by (auto simp: routing_tree_def)
  then obtain h where h: "h \<in> set (pn_Hops node)" "hop_ID h = lnk_ChildHopID l" by (auto simp: hop_ids_def)
  then have "\<not> hop_ID h \<notin> ?R" by (simp add: descendants_reachable)
  with h(1) have "length (filter (\<lambda>h. hop_ID h \<notin> ?R) (pn_Hops node)) < length (pn_Hops node)"
    by (rule length_filter_less)
  moreover have "length (pn_Hops node) + length (pn_Links node) + length (pn_BlockBranches node) \<le> 10000"
    using ok by (simp add: topology_ok_def)
  moreover note length_filter_le [of "\<lambda>m. m = l \<or> \<not> touches ?R m" "pn_Links node"]
    length_filter_le [of "\<lambda>b. blk_ParentHopID b \<notin> ?R" "pn_BlockBranches node"]
  ultimately have "length (filter (\<lambda>h. hop_ID h \<notin> ?R) (pn_Hops node)) + 1
      + length (filter (\<lambda>m. m = l \<or> \<not> touches ?R m) (pn_Links node))
      + length (filter (\<lambda>b. blk_ParentHopID b \<notin> ?R) (pn_BlockBranches node)) \<le> 10000"
    by linarith
  then show ?thesis
    unfolding n_def redirected_def Let_def remove_hops_def delete_func_def by simp
qed

lemma redirected_pre:
  assumes ok: "topology_ok node" and l: "l \<in> set (pn_Links node)" and fresh: "hop_ID created \<notin> hop_ids node"
    and new: "hop_ok created" "validateEndpoint e = Inr ()" "validateCredential e cred = Inr ()" "now \<noteq> 0"
  shows "topology_pre (redirected l created e cred now node)"
proof (rule topology_preI)
  let ?R = "descendantHops node (lnk_ChildHopID l)" and ?n = "redirected l created e cred now node"
  let ?ls = "filter (\<lambda>m. m = l \<or> \<not> touches ?R m) (pn_Links node)"
  let ?g = "redirect l (hop_ID created) e cred now"
  have links: "pn_Links ?n = map ?g ?ls"
    by (simp add: redirected_def Let_def remove_hops_def delete_func_def)
  have ids: "hop_ids ?n = insert (hop_ID created) (hop_ids node - ?R)"
    by (auto simp: hop_ids_def redirected_def remove_hops_def set_delete_func Let_def)
  show pre: "topology_pre node" using ok by (simp add: topology_ok_pre)
  show "routing_tree ?n" by (rule redirected_tree [OF ok l fresh])
  show "pn_SubscriptionAddressMode ?n = pn_SubscriptionAddressMode node" "pn_Entrance ?n = pn_Entrance node"
    by (simp_all add: redirected_def remove_hops_def Let_def)
  show "length (pn_Hops ?n) + length (pn_Links ?n) + length (pn_BlockBranches ?n) \<le> 10000"
    by (rule redirected_size [OF ok l])
  show "hop_ok h" if "h \<in> set (pn_Hops ?n)" for h
    using that pre new(1) by (auto simp: redirected_def remove_hops_def Let_def set_delete_func topology_pre_def)
  have tree: "routing_tree node" using ok by (simp add: topology_ok_def)
  have "lnk_ParentHopID l \<noteq> hop_ID created" using tree fresh edges_memI [OF l] by (auto simp: routing_tree_def)
  moreover have "link_ok (unordered m)" if "m \<in> set (pn_Links node)" for m using pre that by (simp add: topology_pre_def)
  ultimately show "link_ok (unordered m)" if "m \<in> set (pn_Links ?n)" for m
    using that new l unfolding links by (auto simp: redirect_def link_ok_def unordered_def)
  show "block_ok (unordered_block b) \<and> blk_ParentHopID b \<in> hop_ids ?n" if "b \<in> set (pn_BlockBranches ?n)" for b
    using that pre unfolding ids
    by (auto simp: redirected_def remove_hops_def Let_def set_delete_func topology_pre_def)
  have "map lnk_ID (pn_Links ?n) = map lnk_ID ?ls" unfolding links by (simp add: redirect_def)
  then show "distinct (map lnk_ID (pn_Links ?n))"
    using pre by (auto simp: topology_pre_def intro: distinct_map_filter)
  have parents: "lnk_ParentHopID (?g m) = lnk_ParentHopID m" "lnk_Fallback (?g m) = lnk_Fallback m" for m
    by (simp_all add: redirect_def)
  show "one_fallback (pn_Links ?n) h" if "h \<in> hop_ids ?n" for h
  proof (cases "h \<in> hop_ids node")
    case True
    then show ?thesis using pre unfolding links one_fallback_map [OF parents]
      by (auto simp: topology_pre_def intro: one_fallback_filter)
  next
    case False
    have "lnk_ParentHopID m \<noteq> h" if "m \<in> set (pn_Links node)" for m
      using tree edges_memI [OF that] False by (auto simp: routing_tree_def)
    then have "outgoing_links (pn_Links ?n) h = []"
      unfolding links outgoing_links_def by (auto simp: filter_empty_conv parents)
    then show ?thesis by (simp add: one_fallback_def)
  qed
qed

lemma replace_destination_topology_ok:
  assumes "topology_ok node" "l \<in> set (pn_Links node)" "hop_ID created \<notin> hop_ids node"
    and "hop_AgentID created \<notin> AncestorAgentIDs node (lnk_ParentHopID l)"
    and "hop_ok created" "validateEndpoint e = Inr ()" "validateCredential e cred = Inr ()" "now \<noteq> 0"
  obtains node' where "replace_destination (lnk_ID l) created e cred now node = Inr (node', created)"
    "topology_ok node'"
  using replace_destination_result [OF assms(1,2,4)] normalize_topology_ok [OF redirected_pre] assms by metis

section \<open>Editing a Link in place\<close>

lemma at_most_one:
  "length (filter Q xs) \<le> 1 \<longleftrightarrow> (\<forall>i < length xs. \<forall>j < length xs. Q (xs ! i) \<longrightarrow> Q (xs ! j) \<longrightarrow> i = j)"
  by (auto simp: length_filter_conv_card card_le_Suc0_iff_eq)

lemma one_fallback_iff:
  "one_fallback ls p \<longleftrightarrow> (\<forall>i < length ls. \<forall>j < length ls. lnk_ParentHopID (ls ! i) = p \<longrightarrow> lnk_Fallback (ls ! i) \<longrightarrow>
     lnk_ParentHopID (ls ! j) = p \<longrightarrow> lnk_Fallback (ls ! j) \<longrightarrow> i = j)"
proof -
  have "filter lnk_Fallback (outgoing_links ls p) = filter (\<lambda>l. lnk_ParentHopID l = p \<and> lnk_Fallback l) ls"
    unfolding outgoing_links_def by (simp add: conj_commute)
  then show ?thesis unfolding one_fallback_def
    using at_most_one [of "\<lambda>l. lnk_ParentHopID l = p \<and> lnk_Fallback l" ls] by (simp add: imp_conjL)
qed

lemma routing_tree_cong:
  assumes "map hop_ID (pn_Hops n) = map hop_ID (pn_Hops n')" "pn_Entrance n = pn_Entrance n'"
    and "map lnk_ParentHopID (pn_Links n) = map lnk_ParentHopID (pn_Links n')"
    and "map lnk_ChildHopID (pn_Links n) = map lnk_ChildHopID (pn_Links n')"
  shows "routing_tree n = routing_tree n'" "hop_ids n = hop_ids n'" "edges (pn_Links n) = edges (pn_Links n')"
proof -
  show ids: "hop_ids n = hop_ids n'" unfolding hop_ids_def using assms(1) by (metis set_map)
  have "(\<lambda>l. (lnk_ParentHopID l, lnk_ChildHopID l)) ` set ls =
      set (zip (map lnk_ParentHopID ls) (map lnk_ChildHopID ls))" for ls :: "link list"
    by (simp add: zip_map_map zip_same_conv_map)
  then show edges: "edges (pn_Links n) = edges (pn_Links n')" unfolding edges_image by (simp only: assms(3,4))
  show "routing_tree n = routing_tree n'"
    unfolding routing_tree_def ids edges using assms by simp
qed

text \<open>A new list of Links with the same names and ends.\<close>

lemma topology_pre_links:
  assumes pre: "topology_pre node"
    and keep: "map lnk_ID ls = map lnk_ID (pn_Links node)" "map lnk_ParentHopID ls = map lnk_ParentHopID (pn_Links node)"
      "map lnk_ChildHopID ls = map lnk_ChildHopID (pn_Links node)"
    and links: "\<And>l. l \<in> set ls \<Longrightarrow> link_ok (unordered l)"
    and one: "\<And>h. h \<in> hop_ids node \<Longrightarrow> one_fallback ls h"
  shows "topology_pre (node\<lparr>pn_Links := ls\<rparr>)"
proof (rule topology_preI [OF pre])
  let ?n = "node\<lparr>pn_Links := ls\<rparr>"
  note same = routing_tree_cong [of ?n node]
  show "routing_tree ?n" using same(1) keep pre by (simp add: topology_pre_def)
  have "length ls = length (pn_Links node)" using keep(1) by (rule map_eq_imp_length_eq)
  then show "length (pn_Hops ?n) + length (pn_Links ?n) + length (pn_BlockBranches ?n) \<le> 10000"
    using pre by (simp add: topology_pre_def)
  show "block_ok (unordered_block b) \<and> blk_ParentHopID b \<in> hop_ids ?n" if "b \<in> set (pn_BlockBranches ?n)" for b
    using that pre by (simp add: topology_pre_def hop_ids_def)
  show "distinct (map lnk_ID (pn_Links ?n))" using pre keep(1) by (simp add: topology_pre_def)
  show "one_fallback (pn_Links ?n) h" if "h \<in> hop_ids ?n" for h using one that by (simp add: hop_ids_def)
qed (use pre links in \<open>simp_all add: topology_pre_def\<close>)

lemma set_update_at: "set (update_at i f xs) \<subseteq> insert (f (xs ! i)) (set xs)"
  unfolding update_at_def using set_update_subset_insert by (metis subset_insertI)

lemma ball_update_at:
  "\<forall>x \<in> set xs. P x \<Longrightarrow> P (f (xs ! i)) \<Longrightarrow> \<forall>x \<in> set (update_at i f xs). P x"
  using set_update_at by fastforce

text \<open>A Link loses its Rules and becomes the only Fallback Link below its parent.\<close>

definition to_fallback :: "nat \<Rightarrow> (link \<Rightarrow> time) \<Rightarrow> link list \<Rightarrow> link list" where
  "to_fallback i t = update_at i (\<lambda>l. l\<lparr>lnk_Rules := [], lnk_Fallback := True, lnk_UpdatedAt := t l\<rparr>)"

lemma to_fallback_pre:
  assumes pre: "topology_pre node" and i: "i < length (pn_Links node)" and now: "t (pn_Links node ! i) \<noteq> 0"
    and only: "\<forall>l \<in> set (pn_Links node). lnk_ParentHopID l = lnk_ParentHopID (pn_Links node ! i) \<longrightarrow>
      lnk_Fallback l \<longrightarrow> l = pn_Links node ! i"
  shows "topology_pre (node\<lparr>pn_Links := to_fallback i t (pn_Links node)\<rparr>)"
proof (rule topology_pre_links [OF pre])
  let ?ls = "pn_Links node" and ?r = "to_fallback i t (pn_Links node)"
  show "map lnk_ID ?r = map lnk_ID ?ls" "map lnk_ParentHopID ?r = map lnk_ParentHopID ?ls"
    "map lnk_ChildHopID ?r = map lnk_ChildHopID ?ls"
    unfolding to_fallback_def by (simp_all add: update_at_unchanged_map)
  have "link_ok (unordered l)" if "l \<in> set ?ls" for l using pre that by (simp add: topology_pre_def)
  then show "link_ok (unordered l)" if "l \<in> set ?r" for l
    using that set_update_at [of i _ ?ls] i now nth_mem [OF i] unfolding to_fallback_def
    by (fastforce simp: link_ok_def unordered_def)
  have dist: "distinct ?ls" using pre by (simp add: topology_pre_def distinct_map)
  show "one_fallback ?r h" if "h \<in> hop_ids node" for h
  proof (cases "h = lnk_ParentHopID (?ls ! i)")
    case True
    have "k = i" if "k < length ?ls" "lnk_ParentHopID (?ls ! k) = h" "lnk_Fallback (?ls ! k)" for k
      using only that True nth_mem [OF that(1)] dist i by (metis nth_eq_iff_index_eq)
    then show ?thesis unfolding one_fallback_iff to_fallback_def
      by (auto simp: nth_update_at split: if_splits)
  next
    case False
    have "one_fallback ?ls h" using pre that by (simp add: topology_pre_def)
    then show ?thesis using False unfolding one_fallback_iff to_fallback_def
      by (auto simp: nth_update_at)
  qed
qed

lemma set_link_fallback_topology_ok:
  assumes ok: "topology_ok node" and i: "link_index lid node = Inr i"
  obtains node' where "set_link_fallback lid True node = Inr (node', ())" "topology_ok node'"
proof -
  let ?ls = "pn_Links node" let ?l = "?ls ! i"
  let ?clear = "\<lambda>m. if lnk_ParentHopID m = lnk_ParentHopID ?l then m\<lparr>lnk_Fallback := False\<rparr> else m"
  let ?n = "node\<lparr>pn_Links := map ?clear ?ls\<rparr>"
  have il: "i < length ?ls" using link_index_Inr [OF i] by simp
  have pre: "topology_pre node" using ok by (simp add: topology_ok_pre)
  have links: "link_ok (unordered m)" if "m \<in> set ?ls" for m using pre that by (simp add: topology_pre_def)
  have "topology_pre ?n"
  proof (rule topology_pre_links [OF pre])
    show "link_ok (unordered m)" if "m \<in> set (map ?clear ?ls)" for m
      using that links by (force simp: link_ok_def unordered_def)
    show "one_fallback (map ?clear ?ls) h" if "h \<in> hop_ids node" for h
    proof -
      have "one_fallback ?ls h" using pre that by (simp add: topology_pre_def)
      then show ?thesis by (auto simp: one_fallback_iff)
    qed
  qed (simp_all add: comp_def if_distrib cong: if_cong)
  then have "topology_pre (?n\<lparr>pn_Links := to_fallback i lnk_UpdatedAt (pn_Links ?n)\<rparr>)"
  proof (rule to_fallback_pre)
    have "lnk_UpdatedAt ?l \<noteq> 0" using links [OF nth_mem [OF il]] by (simp add: link_ok_def unordered_def)
    then show "lnk_UpdatedAt (pn_Links ?n ! i) \<noteq> 0" using il by simp
  qed (use il in auto)
  then have "topology_ok (normalizeRuleOrders (normalizeLinkOrders
      (node\<lparr>pn_Links := to_fallback i lnk_UpdatedAt (map ?clear ?ls)\<rparr>)))"
    by (intro normalize_topology_ok) simp
  then show ?thesis
    using that i by (simp add: set_link_fallback_def to_fallback_def Let_def)
qed

lemma outgoing_cong:
  assumes "map (\<lambda>l. (lnk_ParentHopID l, f l)) ls = map (\<lambda>l. (lnk_ParentHopID l, f l)) ls'"
  shows "map f (outgoing_links ls h) = map f (outgoing_links ls' h)"
proof -
  have "map f (outgoing_links ls h) = map snd (filter (\<lambda>x. fst x = h) (map (\<lambda>l. (lnk_ParentHopID l, f l)) ls))" for ls
    by (induction ls) (simp_all add: outgoing_links_def)
  then show ?thesis by (simp only: assms)
qed

lemma siblings_ok_cong:
  assumes "map (\<lambda>l. (lnk_Order l, lnk_Fallback l)) ls = map (\<lambda>l. (lnk_Order l, lnk_Fallback l)) ls'"
  shows "siblings_ok ls = siblings_ok ls'"
proof -
  let ?key = "\<lambda>l. (lnk_Order l, lnk_Fallback l)"
  have "siblings_ok ls \<longleftrightarrow> contiguous (map fst (map ?key ls)) \<and>
      (\<forall>x \<in> set (map ?key ls). snd x \<longrightarrow> fst x = int (length (map ?key ls)) - 1)" for ls :: "link list"
    by (simp add: siblings_ok_def comp_def)
  then show ?thesis by (simp only: assms)
qed

text \<open>An edit that changes neither the names, the ends nor any order or fallback mark.\<close>

definition link_key :: "link \<Rightarrow> string \<times> string \<times> string \<times> int \<times> bool \<times> int list" where
  "link_key l = (lnk_ID l, lnk_ParentHopID l, lnk_ChildHopID l, lnk_Order l, lnk_Fallback l, map rul_Order (lnk_Rules l))"

lemma same_keys_topology_ok:
  assumes ok: "topology_ok node" and key: "map link_key ls = map link_key (pn_Links node)"
    and links: "\<And>l. l \<in> set ls \<Longrightarrow> link_ok (unordered l)"
  shows "topology_ok (node\<lparr>pn_Links := ls\<rparr>)"
proof -
  note same = map_via [OF key]
  let ?n = "node\<lparr>pn_Links := ls\<rparr>"
  have keep: "map lnk_ID ls = map lnk_ID (pn_Links node)" "map lnk_ParentHopID ls = map lnk_ParentHopID (pn_Links node)"
    "map lnk_ChildHopID ls = map lnk_ChildHopID (pn_Links node)"
    by (rule same [where h = fst], simp add: link_key_def,
      rule same [where h = "\<lambda>(a, b, c, d). b"], simp add: link_key_def,
      rule same [where h = "\<lambda>(a, b, c, d). c"], simp add: link_key_def)
  have "map (\<lambda>l. (lnk_Order l, lnk_Fallback l)) (outgoing_links ls h) =
      map (\<lambda>l. (lnk_Order l, lnk_Fallback l)) (outgoing_links (pn_Links node) h)" for h
    by (rule outgoing_cong, rule same [where h = "\<lambda>(a, b, c, d, e, f). (b, d, e)"]) (simp add: link_key_def)
  then have sib: "siblings_ok (outgoing_links ls h) = siblings_ok (outgoing_links (pn_Links node) h)" for h
    by (rule siblings_ok_cong)
  have "map (\<lambda>l. map rul_Order (lnk_Rules l)) (outgoing_links ls h) =
      map (\<lambda>l. map rul_Order (lnk_Rules l)) (outgoing_links (pn_Links node) h)" for h
    by (rule outgoing_cong, rule same [where h = "\<lambda>(a, b, c, d, e, f). (b, f)"]) (simp add: link_key_def)
  then have rules: "rules_ok ?n h = rules_ok node h" for h by (simp add: rules_ok_def rule_orders_def)
  have ids: "hop_ids ?n = hop_ids node" by (simp add: hop_ids_def)
  have "topology_pre ?n"
    by (rule topology_pre_links [OF _ keep links])
      (use ok sib siblings_ok_one_fallback in \<open>auto simp: topology_ok_pre\<close>)
  then show ?thesis using ok sib rules ids by (simp add: topology_ok_pre)
qed

lemma validateRule_cong:
  "rul_Match r = rul_Match r' \<Longrightarrow> rul_Values r = rul_Values r' \<Longrightarrow> validateRule r = validateRule r'"
  by (simp only: validateRule_def)

lemma update_rule_topology_ok:
  assumes ok: "topology_ok node" and now: "now \<noteq> 0"
    and valid: "validateRule (bare_rule (uri_Match input) vals) = Inr ()"
    and run: "update_rule_in_node rid input vals now node = Inr (node', ())"
  shows "topology_ok node'"
proof -
  obtain i j where i: "link_index (uri_LinkID input) node = Inr i"
    and j: "index_func (\<lambda>r. rul_ID r = rid) (lnk_Rules (pn_Links node ! i)) = Some j"
    using run by (auto simp: update_rule_in_node_def edit_simps)
  let ?ls = "pn_Links node" let ?l = "?ls ! i"
  have il: "i < length ?ls" "?l \<in> set ?ls" using link_index_Inr [OF i] by simp_all
  have pre: "topology_pre node" using ok by (simp add: topology_ok_pre)
  have links: "link_ok (unordered m)" if "m \<in> set ?ls" for m using pre that by (simp add: topology_pre_def)
  show ?thesis
  proof (cases "uri_Match input = MatchNone")
    case True
    then have other: "\<not> other_fallback (lnk_ID ?l) (lnk_ParentHopID ?l) ?ls"
      and node': "node' = normalizeRuleOrders (normalizeLinkOrders (node\<lparr>pn_Links := to_fallback i (\<lambda>_. now) ?ls\<rparr>))"
      using run i j by (auto simp: update_rule_in_node_def from_option_def to_fallback_def Let_def split: if_splits)
    have "\<forall>m \<in> set ?ls. lnk_ParentHopID m = lnk_ParentHopID ?l \<longrightarrow> lnk_Fallback m \<longrightarrow> m = ?l"
      using other same_id_same_link [of ?ls _ ?l] il(2) pre
      by (auto simp: other_fallback_def list_ex_iff topology_pre_def)
    from to_fallback_pre [OF pre il(1) _ this, of "\<lambda>_. now"] now show ?thesis
      unfolding node' by (intro normalize_topology_ok) simp
  next
    case False
    let ?f = "\<lambda>l. l\<lparr>lnk_Rules := update_at j (\<lambda>r. r\<lparr>rul_Match := uri_Match input, rul_Values := vals\<rparr>) (lnk_Rules l),
        lnk_UpdatedAt := now\<rparr>"
    have node': "node' = node\<lparr>pn_Links := update_at i ?f ?ls\<rparr>"
      using run i j False by (auto simp: update_rule_in_node_def from_option_def Let_def)
    have "map rul_Order (update_at j (\<lambda>r. r\<lparr>rul_Match := uri_Match input, rul_Values := vals\<rparr>) rs) = map rul_Order rs" for rs
      by (rule update_at_unchanged_map) simp
    then have key: "map link_key (update_at i ?f ?ls) = map link_key ?ls"
      by (intro update_at_unchanged_map) (simp add: link_key_def)
    have rule: "link_rule_ok (unordered_rule (r\<lparr>rul_Match := uri_Match input, rul_Values := vals\<rparr>))"
      if "link_rule_ok (unordered_rule r)" for r
      using that valid False validateRule_cong [of "bare_rule (uri_Match input) vals"
          "r\<lparr>rul_Match := uri_Match input, rul_Values := vals\<rparr>"]
        validateRule_cong [of "bare_rule (uri_Match input) vals"
          "r\<lparr>rul_Order := 0, rul_Match := uri_Match input, rul_Values := vals\<rparr>"]
      by (simp add: link_rule_ok_def unordered_rule_def bare_rule_def)
    have "link_ok (unordered (?f ?l))"
    proof -
      have l: "link_ok (unordered ?l)" using links il(2) .
      have "\<forall>r \<in> set (update_at j (\<lambda>r. r\<lparr>rul_Match := uri_Match input, rul_Values := vals\<rparr>) (lnk_Rules ?l)).
          link_rule_ok (unordered_rule r)"
        using rule l index_func_SomeD [OF j] set_update_at [of j _ "lnk_Rules ?l"]
        by (fastforce simp: link_ok_def unordered_def)
      moreover have "update_at j g rs = [] \<longleftrightarrow> rs = []" for g and rs :: "rule list"
        by (metis length_0_conv length_update_at)
      ultimately show ?thesis using l now by (auto simp: link_ok_def unordered_def)
    qed
    then show ?thesis
      unfolding node' using links set_update_at [of i ?f ?ls]
      by (intro same_keys_topology_ok [OF ok key]) blast
  qed
qed

section \<open>Adding a branch\<close>

lemma contiguous_add:
  assumes "contiguous xs" "mset ys = add_mset (int (length xs)) (mset xs)"
  shows "contiguous ys"
proof -
  have "length ys = Suc (length xs)" using assms(2) by (metis mset_eq_length size_add_mset size_mset)
  then show ?thesis using assms unfolding contiguous_def by simp
qed

lemma mset_outgoing: "mset (map f (outgoing_links ls p)) = image_mset f (filter_mset (\<lambda>l. lnk_ParentHopID l = p) (mset ls))"
  by (simp add: outgoing_links_def)

lemma mset_split_at: "i < length xs \<Longrightarrow> mset xs = add_mset (xs ! i) (mset xs - {#xs ! i#})"
  by simp

lemma length_siblings: "length (orderedSiblingLinkIndexes ls p) = length (outgoing_links ls p)"
  by (simp add: ordered_positions length_outgoing)

text \<open>\<open>place_link\<close> makes room for one more Link: the order it returns fills the gap, and a Fallback
  Link stays last.\<close>

lemma place_link_keeps:
  assumes "place_link p ls = (order, ls')"
  shows "map unordered_link ls' = map unordered_link ls"
    and "q \<noteq> p \<Longrightarrow> map (\<lambda>l. (lnk_Order l, lnk_Fallback l)) (outgoing_links ls' q) =
      map (\<lambda>l. (lnk_Order l, lnk_Fallback l)) (outgoing_links ls q)"
proof -
  show "map unordered_link ls' = map unordered_link ls"
    using assms by (auto simp: place_link_def unordered_link_def intro!: update_at_unchanged_map split: option.splits)
  show "map (\<lambda>l. (lnk_Order l, lnk_Fallback l)) (outgoing_links ls' q) =
      map (\<lambda>l. (lnk_Order l, lnk_Fallback l)) (outgoing_links ls q)" if "q \<noteq> p"
  proof (cases "fallback_index p ls")
    case None
    then show ?thesis using assms by (simp add: place_link_def)
  next
    case (Some i)
    then have i: "i < length ls" "lnk_ParentHopID (ls ! i) = p"
      using index_func_SomeD unfolding fallback_index_def by fastforce+
    have ls': "ls' = update_at i (\<lambda>l. l\<lparr>lnk_Order := lnk_Order l + 1\<rparr>) ls"
      using assms Some by (simp add: place_link_def)
    have "outgoing_links ls' q = outgoing_links ls q"
    proof -
      have "take i ls @ [x] @ drop (Suc i) ls = ls[i := x]" for x using i(1) by (simp add: upd_conv_take_nth_drop)
      then have split: "outgoing_links (ls[i := x]) q = outgoing_links (take i ls) q @ outgoing_links [x] q
          @ outgoing_links (drop (Suc i) ls) q" for x
        unfolding outgoing_links_def by (metis filter_append)
      show ?thesis using split [of "ls ! i"] split [of "(ls ! i)\<lparr>lnk_Order := lnk_Order (ls ! i) + 1\<rparr>"] i that
        unfolding ls' update_at_def by (simp add: outgoing_links_def)
    qed
    then show ?thesis by simp
  qed
qed

lemma place_link_siblings:
  assumes place: "place_link p ls = (order, ls')" and ok: "siblings_ok (outgoing_links ls p)"
    and new: "lnk_ParentHopID l = p" "lnk_Order l = order" "lnk_Fallback l \<longrightarrow> fallback_index p ls = None"
  shows "siblings_ok (outgoing_links (ls' @ [l]) p)"
proof -
  let ?P = "\<lambda>l. lnk_ParentHopID l = p"
  let ?n = "length (outgoing_links ls p)"
  have sib: "contiguous (map lnk_Order (outgoing_links ls p))"
    "m \<in> set ls \<Longrightarrow> ?P m \<Longrightarrow> lnk_Fallback m \<Longrightarrow> lnk_Order m = int ?n - 1" for m
    using ok by (auto simp: siblings_ok_def outgoing_links_def)
  have len: "length (outgoing_links (ls' @ [l]) p) = Suc ?n"
  proof -
    have "map lnk_ParentHopID ls' = map lnk_ParentHopID ls"
      by (rule unordered_keeps(1) [OF place_link_keeps(1) [OF place]])
    then have "length (outgoing_links ls' p) = ?n"
      using sibling_positions_cong unfolding length_outgoing by metis
    then show ?thesis using new(1) by (simp add: outgoing_links_def)
  qed
  show ?thesis
  proof (cases "fallback_index p ls")
    case None
    then have same: "order = int ?n" "ls' = ls" using place by (auto simp: place_link_def length_siblings)
    have "\<not> lnk_Fallback m" if "m \<in> set ls" "?P m" for m
      using None that unfolding fallback_index_def index_func_None by blast
    moreover have "contiguous (map lnk_Order (outgoing_links (ls @ [l]) p))" if "lnk_Order l = int ?n"
      by (rule contiguous_add [OF sib(1)]) (use new that in \<open>simp add: outgoing_links_def\<close>)
    ultimately show ?thesis using new len same by (auto simp: siblings_ok_def outgoing_links_def)
  next
    case (Some i)
    then have i: "i < length ls" "?P (ls ! i)" "lnk_Fallback (ls ! i)"
      using index_func_SomeD unfolding fallback_index_def by fastforce+
    obtain M where M: "mset ls = add_mset (ls ! i) M" using mset_split_at [OF i(1)] by blast
    let ?u = "(ls ! i)\<lparr>lnk_Order := lnk_Order (ls ! i) + 1\<rparr>"
    have ls': "ls' = ls[i := ?u]" and order: "order = lnk_Order (ls ! i)"
      using place Some i(1) by (auto simp: place_link_def update_at_def)
    have last: "lnk_Order (ls ! i) = int ?n - 1" using sib(2) [OF nth_mem [OF i(1)] i(2,3)] .
    have m: "mset ls = add_mset (ls ! i) M" "mset ls' = add_mset ?u M"
      using M i(1) by (simp_all add: ls' mset_update)
    have "mset (map lnk_Order (outgoing_links (ls' @ [l]) p)) =
        add_mset (int ?n) (mset (map lnk_Order (outgoing_links ls p)))"
      unfolding mset_outgoing mset_append m using i(2) new order last by simp
    then have "contiguous (map lnk_Order (outgoing_links (ls' @ [l]) p))"
      by (intro contiguous_add [OF sib(1)]) simp
    moreover have "lnk_Order m = int ?n" if "m \<in> set (ls' @ [l])" "?P m" "lnk_Fallback m" for m
    proof -
      have "m \<in># add_mset ?u M" using that(1,3) new(3) Some set_mset_mset [of ls'] unfolding m(2) by auto
      moreover have "m \<notin># M"
      proof
        assume "m \<in># M"
        have "one_fallback ls p" using siblings_ok_one_fallback [OF ok] .
        then have "size (filter_mset (\<lambda>l. ?P l \<and> lnk_Fallback l) (mset ls)) \<le> 1"
          unfolding one_fallback_def outgoing_links_def filter_filter mset_filter [symmetric] size_mset
          by (simp add: conj_commute)
        then have "filter_mset (\<lambda>l. ?P l \<and> lnk_Fallback l) M = {#}"
          unfolding m(1) using i(2,3) by simp
        moreover have "m \<in># filter_mset (\<lambda>l. ?P l \<and> lnk_Fallback l) M" using \<open>m \<in># M\<close> that(2,3) by simp
          ultimately show False by (metis empty_not_add_mset multi_member_split)
      qed
      ultimately show ?thesis using last by simp
    qed
    ultimately show ?thesis using len by (auto simp: siblings_ok_def outgoing_links_def)
  qed
qed

lemma ruleCount: "ruleCountForHop node h = int (length (rule_orders (pn_Links node) (pn_BlockBranches node) h))"
proof -
  have "length (orderedRulesForHop node h) = length (rule_places node h)"
    using orderedRules_places [of node h, THEN mset_eq_length] by simp
  then show ?thesis by (simp add: ruleCountForHop_def rule_orders_places)
qed

lemma rule_orders_shape:
  assumes "map unordered_link ls = map unordered_link ls'"
  shows "rule_orders ls bs h = rule_orders ls' bs h"
proof -
  have "map (\<lambda>l. (lnk_ParentHopID l, map rul_Order (lnk_Rules l))) ls = map (\<lambda>l. (lnk_ParentHopID l, map rul_Order (lnk_Rules l))) ls'"
    by (rule map_via [OF assms, where h = "\<lambda>l. (lnk_ParentHopID l, map rul_Order (lnk_Rules l))"])
      (simp add: unordered_link_def)
  from outgoing_cong [OF this] show ?thesis by (simp add: rule_orders_def)
qed

lemma rule_orders_snoc:
  "mset (rule_orders (ls @ [l]) bs h) = mset (rule_orders ls bs h) +
     (if lnk_ParentHopID l = h then mset (map rul_Order (lnk_Rules l)) else {#})"
  by (simp add: rule_orders_def outgoing_links_def)

text \<open>What a new branch has to satisfy on its own.\<close>

definition branch_ok :: "link \<Rightarrow> hop \<Rightarrow> rule option \<Rightarrow> proxy_node \<Rightarrow> bool" where
  "branch_ok new child rule node \<longleftrightarrow>
     hop_ok child \<and> hop_ID child \<notin> hop_ids node \<and> lnk_ChildHopID new = hop_ID child \<and>
     lnk_ID new \<notin> lnk_ID ` set (pn_Links node) \<and> lnk_Rules new = [] \<and> link_ok (unordered new) \<and>
     (case rule of None \<Rightarrow> True | Some r \<Rightarrow> \<not> lnk_Fallback new \<and> link_rule_ok (unordered_rule r)) \<and>
     length (pn_Hops node) + length (pn_Links node) + length (pn_BlockBranches node) + 2 \<le> 10000"

lemma add_link_result:
  assumes "add_link_to_node new child rule node = Inr (node', new', child', rule')"
  defines "p \<equiv> lnk_ParentHopID new"
  obtains order ls where "place_link p (pn_Links node) = (order, ls)" "p \<in> hop_ids node"
    "lnk_Fallback new \<longrightarrow> fallback_index p (pn_Links node) = None" "child' = child"
    "new' = new\<lparr>lnk_Order := order, lnk_Rules := (case rule of None \<Rightarrow> []
       | Some r \<Rightarrow> [r\<lparr>rul_Order := ruleCountForHop node p\<rparr>])\<rparr>"
    "node' = node\<lparr>pn_Hops := pn_Hops node @ [child], pn_Links := ls @ [new']\<rparr>"
    "hop_AgentID child \<notin> AncestorAgentIDs node p"
proof -
  have "list_ex (\<lambda>h. hop_ID h = p) (pn_Hops node) \<longleftrightarrow> p \<in> hop_ids node"
    by (auto simp: list_ex_iff hop_ids_def)
  then show ?thesis
    using assms that by (cases rule) (auto simp: add_link_to_node_def Let_def split: if_splits prod.splits)
qed

lemma add_link_pre:
  assumes ok: "topology_ok node" and new: "branch_ok new child rule node"
    and run: "add_link_to_node new child rule node = Inr (node', new', child', rule')"
  shows "topology_pre node'"
proof -
  let ?p = "lnk_ParentHopID new"
  obtain order ls where r: "place_link ?p (pn_Links node) = (order, ls)" "?p \<in> hop_ids node"
    "lnk_Fallback new \<longrightarrow> fallback_index ?p (pn_Links node) = None"
    "new' = new\<lparr>lnk_Order := order, lnk_Rules := (case rule of None \<Rightarrow> []
       | Some r \<Rightarrow> [r\<lparr>rul_Order := ruleCountForHop node ?p\<rparr>])\<rparr>"
    "node' = node\<lparr>pn_Hops := pn_Hops node @ [child], pn_Links := ls @ [new']\<rparr>"
    by (rule add_link_result [OF run])
  note keep = unordered_keeps [OF place_link_keeps(1) [OF r(1)]]
  have pre: "topology_pre node" using ok by (simp add: topology_ok_pre)
  have tree: "routing_tree node" using ok by (simp add: topology_ok_def)
  have same: "edges ls = edges (pn_Links node)"
    using routing_tree_cong(3) [of "node\<lparr>pn_Links := ls\<rparr>" node] keep(1,2) by simp
  have names: "lnk_ParentHopID new' = ?p" "lnk_ChildHopID new' = hop_ID child" "lnk_ID new' = lnk_ID new"
    "lnk_Fallback new' = lnk_Fallback new"
    using new r(4) by (simp_all add: branch_ok_def)
  have child: "hop_ID child \<notin> lnk_ChildHopID ` set (pn_Links node)"
    using tree new edges_memI by (fastforce simp: routing_tree_def branch_ok_def)
  have ids: "hop_ids node' = insert (hop_ID child) (hop_ids node)" by (auto simp: r(5) hop_ids_def)
  show ?thesis
  proof (rule topology_preI [OF pre])
    show "routing_tree node'"
    proof (rule leaf_tree [OF tree r(2)])
      show "edges (pn_Links node') = insert (?p, hop_ID child) (edges (pn_Links node))"
        unfolding same [symmetric] by (simp add: r(5) edges_image names)
      have "set (map lnk_ChildHopID ls) = set (map lnk_ChildHopID (pn_Links node))" by (simp only: keep(2))
      then show "distinct (map lnk_ChildHopID (pn_Links node'))"
        using child tree keep(2) names by (simp add: r(5) routing_tree_def)
    qed (use new r(5) in \<open>simp_all add: branch_ok_def\<close>)
    show "length (pn_Hops node') + length (pn_Links node') + length (pn_BlockBranches node') \<le> 10000"
      using new keep(8) by (simp add: r(5) branch_ok_def)
    show "hop_ok h" if "h \<in> set (pn_Hops node')" for h
      using that pre new by (auto simp: r(5) topology_pre_def branch_ok_def)
    have "map unordered ls = map unordered (pn_Links node)"
      by (rule map_via [OF place_link_keeps(1) [OF r(1)], where h = "\<lambda>l. l\<lparr>lnk_Rules := map unordered_rule (lnk_Rules l)\<rparr>"])
        (simp add: unordered_def unordered_link_def)
    then have "set (map unordered ls) = set (map unordered (pn_Links node))" by (simp only:)
    moreover have "\<forall>l \<in> set (map unordered (pn_Links node)). link_ok l" using pre by (simp add: topology_pre_def)
    ultimately have "link_ok (unordered l)" if "l \<in> set ls" for l using that by (metis image_eqI set_map)
    moreover have "link_ok (unordered new')"
      using new r(4) by (cases rule) (auto simp: branch_ok_def link_ok_def unordered_def unordered_rule_def)
    ultimately show "link_ok (unordered l)" if "l \<in> set (pn_Links node')" for l using that by (auto simp: r(5))
    show "block_ok (unordered_block b) \<and> blk_ParentHopID b \<in> hop_ids node'" if "b \<in> set (pn_BlockBranches node')" for b
      using that pre ids by (auto simp: r(5) topology_pre_def)
    have "set (map lnk_ID ls) = set (map lnk_ID (pn_Links node))" by (simp only: keep(3))
    then show "distinct (map lnk_ID (pn_Links node'))"
      using pre new keep(3) names by (simp add: r(5) topology_pre_def branch_ok_def)
    show "one_fallback (pn_Links node') h" if "h \<in> hop_ids node'" for h
    proof -
      have "siblings_ok (outgoing_links (pn_Links node) ?p)" using ok r(2) by (simp add: topology_ok_pre)
      from place_link_siblings [OF r(1) this names(1)] r(3,4) names(4)
      have "one_fallback (ls @ [new']) ?p" by (intro siblings_ok_one_fallback) simp
      moreover have "one_fallback (ls @ [new']) h" if "h \<noteq> ?p" "h \<in> hop_ids node"
        using that pre one_fallback_shape [OF place_link_keeps(1) [OF r(1)], of h] names(1)
        by (simp add: topology_pre_def one_fallback_def outgoing_links_def)
      moreover have "one_fallback (ls @ [new']) h" if "h \<notin> hop_ids node"
      proof -
        have "lnk_ParentHopID l \<noteq> h" if "l \<in> set ls" for l
          using tree edges_memI [OF that] same \<open>h \<notin> hop_ids node\<close> by (auto simp: routing_tree_def)
        then show ?thesis using that r(2) names(1)
          by (auto simp: one_fallback_def outgoing_links_def filter_empty_conv)
      qed
      ultimately show ?thesis by (cases "h = ?p"; cases "h \<in> hop_ids node") (auto simp: r(5))
    qed
  qed (simp_all add: r(5))
qed

lemma add_link_topology_ok:
  assumes ok: "topology_ok node" and new: "branch_ok new child rule node"
    and run: "add_link_to_node new child rule node = Inr (node', new', child', rule')"
  shows "topology_ok node'"
proof -
  let ?p = "lnk_ParentHopID new" let ?bs = "pn_BlockBranches node"
  obtain order ls where r: "place_link ?p (pn_Links node) = (order, ls)" "?p \<in> hop_ids node"
    "lnk_Fallback new \<longrightarrow> fallback_index ?p (pn_Links node) = None"
    "new' = new\<lparr>lnk_Order := order, lnk_Rules := (case rule of None \<Rightarrow> []
       | Some r \<Rightarrow> [r\<lparr>rul_Order := ruleCountForHop node ?p\<rparr>])\<rparr>"
    "node' = node\<lparr>pn_Hops := pn_Hops node @ [child], pn_Links := ls @ [new']\<rparr>"
    by (rule add_link_result [OF run])
  have pre: "topology_pre node'" by (rule add_link_pre [OF ok new run])
  then have tree: "routing_tree node'" by (simp add: topology_pre_def)
  have names: "lnk_ParentHopID new' = ?p" using r(4) by simp
  have ids: "hop_ids node' = insert (hop_ID child) (hop_ids node)" by (auto simp: r(5) hop_ids_def)
  have fresh: "hop_ID child \<notin> hop_ids node" using new by (simp add: branch_ok_def)
  have leaf: "lnk_ParentHopID l \<noteq> hop_ID child" if "l \<in> set (pn_Links node')" for l
  proof -
    have "(lnk_ParentHopID l, lnk_ChildHopID l) \<in> edges (pn_Links node)
        \<or> lnk_ParentHopID l = ?p"
      using that names routing_tree_cong(3) [of "node\<lparr>pn_Links := ls\<rparr>" node]
        unordered_keeps(1,2) [OF place_link_keeps(1) [OF r(1)]] edges_memI [of l ls]
      by (auto simp: r(5))
    moreover have "edges (pn_Links node) \<subseteq> hop_ids node \<times> hop_ids node"
      using ok by (auto simp: topology_ok_def routing_tree_def)
    ultimately show ?thesis using fresh r(2) by auto
  qed
  have orders: "mset (rule_orders (ls @ [new']) ?bs h) = mset (rule_orders (pn_Links node) ?bs h) +
      (if ?p = h then mset (map rul_Order (lnk_Rules new')) else {#})" for h
    using rule_orders_snoc [of ls new' ?bs h] rule_orders_shape [OF place_link_keeps(1) [OF r(1)]] names by simp
  have rules: "rules_ok node' h" if "h \<in> hop_ids node" for h
  proof -
    have old: "contiguous (rule_orders (pn_Links node) ?bs h)" using ok that by (simp add: topology_ok_def)
    show ?thesis
    proof (cases "?p = h \<and> rule \<noteq> None")
      case True
      then have "contiguous (rule_orders (ls @ [new']) ?bs h)"
        using orders [of h] r(4) ruleCount [of node h] by (intro contiguous_add [OF old]) auto
      then show ?thesis by (simp add: rules_ok_def r(5))
    next
      case False
      then have "mset (rule_orders (ls @ [new']) ?bs h) = mset (rule_orders (pn_Links node) ?bs h)"
        using orders [of h] r(4) by auto
      then have "contiguous (rule_orders (ls @ [new']) ?bs h)"
        using old unfolding contiguous_def by (metis mset_eq_length)
      then show ?thesis by (simp add: rules_ok_def r(5))
    qed
  qed
  have sib: "siblings_ok (outgoing_links (pn_Links node') h)" if "h \<in> hop_ids node" for h
  proof -
    have old: "siblings_ok (outgoing_links (pn_Links node) h)" using ok that by (simp add: topology_ok_def)
    show ?thesis
    proof (cases "h = ?p")
      case True
      then show ?thesis using place_link_siblings [OF r(1) _ names] old r(3,4) by (simp add: r(5))
    next
      case False
      then have "outgoing_links (pn_Links node') h = outgoing_links ls h"
        using names by (simp add: r(5) outgoing_links_def)
      then show ?thesis using siblings_ok_cong [OF place_link_keeps(2) [OF r(1) False]] old by simp
    qed
  qed
  have none: "outgoing_links (pn_Links node') (hop_ID child) = []"
    using leaf by (auto simp: outgoing_links_def filter_empty_conv)
  have "blk_ParentHopID b \<noteq> hop_ID child" if "b \<in> set ?bs" for b
    using ok fresh that by (auto simp: topology_ok_def)
  then have "filter (\<lambda>b. blk_ParentHopID b = hop_ID child) ?bs = []" by (auto simp: filter_empty_conv)
  then have "rules_ok node' (hop_ID child)" "siblings_ok (outgoing_links (pn_Links node') (hop_ID child))"
    using none by (simp_all add: rules_ok_def rule_orders_def siblings_ok_def r(5))
  then show ?thesis using pre rules sib ids by (simp add: topology_ok_pre)
qed

text \<open>A BLOCK branch comes last among the Rules of its Hop.\<close>

lemma add_block_topology_ok:
  assumes ok: "topology_ok node" and new: "block_ok (unordered_block b)"
    and size: "length (pn_Hops node) + length (pn_Links node) + length (pn_BlockBranches node) < 10000"
    and run: "add_block_to_node b node = Inr (node', b')"
  shows "topology_ok node'"
proof -
  let ?p = "blk_ParentHopID b"
  have r: "b' = b\<lparr>blk_Rule := (blk_Rule b)\<lparr>rul_Order := ruleCountForHop node ?p\<rparr>\<rparr>"
    "node' = node\<lparr>pn_BlockBranches := pn_BlockBranches node @ [b']\<rparr>"
    and "list_ex (\<lambda>h. hop_ID h = ?p) (pn_Hops node)"
    using run by (auto simp: add_block_to_node_def Let_def split: if_splits)
  then have r3: "?p \<in> hop_ids node" by (force simp: list_ex_iff hop_ids_def)
  have ids: "hop_ids node' = hop_ids node" by (simp add: r(2) hop_ids_def)
  have pre: "topology_pre node" using ok by (simp add: topology_ok_pre)
  have "block_ok (unordered_block b')" using new by (simp add: r(1) block_ok_def unordered_block_def unordered_rule_def)
  moreover have "routing_tree node'" using routing_tree_cong(1) [of node' node] pre by (simp add: r(2) topology_pre_def)
  ultimately have "topology_pre node'"
    using pre size ids r(1) r3 by (intro topology_preI [OF pre]) (auto simp: r(2) topology_pre_def)
  moreover have "rules_ok node' h" if "h \<in> hop_ids node" for h
  proof -
    have old: "contiguous (rule_orders (pn_Links node) (pn_BlockBranches node) h)" using ok that by (simp add: topology_ok_def)
    show ?thesis
    proof (cases "h = ?p")
      case True
      then have "contiguous (rule_orders (pn_Links node') (pn_BlockBranches node') h)"
        by (intro contiguous_add [OF old]) (simp add: r(1,2) rule_orders_def ruleCount)
      then show ?thesis by (simp add: rules_ok_def)
    next
      case False
      then show ?thesis using old by (simp add: rules_ok_def r(1,2) rule_orders_def)
    qed
  qed
  moreover have "siblings_ok (outgoing_links (pn_Links node') h)" if "h \<in> hop_ids node" for h
    using ok that by (simp add: r(2) topology_ok_def)
  ultimately show ?thesis by (simp add: topology_ok_pre ids)
qed

section \<open>Hops\<close>

lemma hops_topology_ok:
  assumes ok: "topology_ok node" and names: "map hop_ID hs = map hop_ID (pn_Hops node)" and hops: "\<forall>h \<in> set hs. hop_ok h"
  shows "topology_ok (node\<lparr>pn_Hops := hs\<rparr>)"
proof -
  let ?n = "node\<lparr>pn_Hops := hs\<rparr>"
  have "routing_tree ?n = routing_tree node" "hop_ids ?n = hop_ids node"
    using routing_tree_cong(1,2) [of ?n node] names by simp_all
  moreover have "length hs = length (pn_Hops node)" using names by (rule map_eq_imp_length_eq)
  ultimately show ?thesis using ok hops by (simp add: topology_ok_def)
qed

lemma move_hop_topology_ok:
  assumes ok: "topology_ok node" and agent: "validAgentID agent" "now \<noteq> 0"
    and run: "move_hop hid agent now node = Inr (node', ())"
  shows "topology_ok node'"
proof -
  obtain i where i: "index_func (\<lambda>h. hop_ID h = hid) (pn_Hops node) = Some i"
    and node': "node' = node\<lparr>pn_Hops := update_at i
      (\<lambda>h. h\<lparr>hop_Name := agent, hop_AgentID := agent, hop_UpdatedAt := now\<rparr>) (pn_Hops node)\<rparr>"
    using run by (auto simp: move_hop_def split: option.splits)
  have hops: "\<forall>h \<in> set (pn_Hops node). hop_ok h" using ok by (simp add: topology_ok_def)
  have il: "i < length (pn_Hops node)" using index_func_SomeD [OF i] by simp
  have "hop_ok ((pn_Hops node ! i)\<lparr>hop_Name := agent, hop_AgentID := agent, hop_UpdatedAt := now\<rparr>)"
    using hops nth_mem [OF il] agent by (simp add: hop_ok_def)
  then show ?thesis unfolding node'
    by (intro hops_topology_ok [OF ok] ball_update_at [OF hops]) (simp_all add: update_at_unchanged_map)
qed

end
