(* ===== verification/OrderFacts.thy ===== *)
theory OrderFacts
  imports BranchFacts
begin

text \<open>
  The operations on priorities: moving and reordering Rules, moving Links, deleting Rules and BLOCK
  branches. Each keeps the orders of a Hop contiguous, and \<open>reorder_rules\<close> installs exactly the
  requested sequence.
\<close>

section \<open>Taking entries by identifier\<close>

lemma take_by_id_Inr:
  "take_by_id e left ks = Inr (xs, left') \<longleftrightarrow>
     distinct ks \<and> list_all2 (\<lambda>k x. left k = Some x) ks xs \<and> left' = (\<lambda>k. if k \<in> set ks then None else left k)"
proof (induction ks arbitrary: left xs left')
  case Nil
  then show ?case by auto
next
  case (Cons k ks)
  have other: "list_all2 (\<lambda>j x. (left(k := None)) j = Some x) ks ys \<longleftrightarrow>
      k \<notin> set ks \<and> list_all2 (\<lambda>j x. left j = Some x) ks ys" for ys
  proof (induction ks arbitrary: ys)
    case (Cons j ks)
    then show ?case by (cases ys; cases "j = k") auto
  qed simp
  have rest: "(\<lambda>j. if j \<in> set ks then None else (left(k := None)) j) = (\<lambda>j. if j \<in> set (k # ks) then None else left j)"
    by auto
  show ?case
  proof (cases "left k")
    case None
    then show ?thesis by (simp add: list_all2_Cons1)
  next
    case (Some x)
    have "take_by_id e left (k # ks) = Inr (xs, left') \<longleftrightarrow>
        (\<exists>ys. take_by_id e (left(k := None)) ks = Inr (ys, left') \<and> xs = x # ys)"
      using Some by (auto simp: bindE_Inr_iff)
    also have "\<dots> \<longleftrightarrow> distinct (k # ks) \<and> (\<exists>ys. list_all2 (\<lambda>j x. left j = Some x) ks ys \<and> xs = x # ys)
        \<and> left' = (\<lambda>j. if j \<in> set (k # ks) then None else left j)"
      unfolding Cons.IH other rest by auto
    finally show ?thesis using Some by (auto simp: list_all2_Cons1)
  qed
qed

text \<open>Taking from the entries of a list with distinct identifiers succeeds exactly for the
  permutations of the identifiers, and leaves nothing behind.\<close>

lemma take_all:
  assumes dist: "distinct (map key xs)" and len: "length ks = length xs"
  shows "mset ks = mset (map key xs) \<Longrightarrow> \<exists>ys left. take_by_id e (fill_map key (\<lambda>x. x) Map.empty xs) ks = Inr (ys, left)"
    and "take_by_id e (fill_map key (\<lambda>x. x) Map.empty xs) ks = Inr (ys, left) \<Longrightarrow>
      mset ys = mset xs \<and> map key ys = ks \<and> \<not> remaining key left xs"
proof -
  let ?m = "fill_map key (\<lambda>x. x) Map.empty xs"
  have m: "?m k = Some x \<longleftrightarrow> x \<in> set xs \<and> key x = k" for k x
    using fill_map_SomeD [of key "\<lambda>x. x" Map.empty xs k x] fill_map_distinct [OF dist, of x "\<lambda>x. x"] by auto
  {
    assume "mset ks = mset (map key xs)"
    then have "distinct ks" "set ks = key ` set xs"
      using dist mset_eq_imp_distinct_iff [of ks "map key xs"] mset_eq_setD [of ks "map key xs"] by simp_all
    moreover have "list_all2 (\<lambda>k x. ?m k = Some x) ks (map (\<lambda>k. the (?m k)) ks)"
      unfolding list_all2_conv_all_nth
    proof (intro conjI allI impI)
      fix i
      assume i: "i < length ks"
      then have "ks ! i \<in> key ` set xs" using calculation(2) by (metis nth_mem)
      then obtain x where "x \<in> set xs" "key x = ks ! i" by (metis imageE)
      then have "?m (ks ! i) = Some x" using m by simp
      then show "?m (ks ! i) = Some (map (\<lambda>k. the (?m k)) ks ! i)" using i by simp
    qed simp
    ultimately show "\<exists>ys left. take_by_id e ?m ks = Inr (ys, left)" unfolding take_by_id_Inr by blast
  }
  assume "take_by_id e ?m ks = Inr (ys, left)"
  then have t: "distinct ks" "list_all2 (\<lambda>k x. ?m k = Some x) ks ys" "left = (\<lambda>k. if k \<in> set ks then None else ?m k)"
    by (simp_all add: take_by_id_Inr)
  from t(2) have keys: "map key ys = ks" "set ys \<subseteq> set xs"
    unfolding m by (induction rule: list_all2_induct) auto
  then have "distinct ys" using t(1) by (metis distinct_map)
  moreover have "distinct xs" using dist by (simp add: distinct_map)
  moreover have "length ys = length xs" using keys(1) len by (metis length_map)
  ultimately have "set ys = set xs" using keys(2) by (metis List.finite_set card_subset_eq distinct_card)
  then have "mset ys = mset xs" using \<open>distinct ys\<close> \<open>distinct xs\<close> by (simp add: set_eq_iff_mset_eq_distinct)
  moreover have "set ks = key ` set xs" using keys(1) \<open>set ys = set xs\<close> by (metis set_map)
  ultimately show "mset ys = mset xs \<and> map key ys = ks \<and> \<not> remaining key left xs"
    using keys(1) t(3) by (auto simp: remaining_def list_ex_iff)
qed

section \<open>The order of the Rules of a Hop\<close>

text \<open>An edit that renumbers the Rules of one Hop.\<close>

lemma applyRuleOrder_topology_ok:
  assumes ok: "topology_ok node" and perm: "mset (map or_place ordered) = mset (rule_places node h)"
  shows "topology_ok (applyRuleOrder ordered node)"
proof (rule ruleless_topology_ok [OF ok applyRuleOrder_facts(1) [OF perm]])
  have "rules_ok node q" if "q \<in> hop_ids node" for q using ok that by (simp add: topology_ok_pre)
  then show "\<forall>q \<in> hop_ids node. rules_ok (applyRuleOrder ordered node) q"
    using applyRuleOrder_facts(2,3) [OF perm] by metis
qed

lemma mset_map_or_place:
  "mset ys = mset (orderedRulesForHop node h) \<Longrightarrow> mset (map or_place ys) = mset (rule_places node h)"
  using orderedRules_places by (metis mset_map)

lemma mset_swap_at: "i < length xs \<Longrightarrow> j < length xs \<Longrightarrow> mset (swap_at i j xs) = mset xs"
  by (simp add: swap_at_def mset_swap)

lemma move_ordered_topology_ok:
  assumes "topology_ok node"
  shows "topology_ok (move_ordered rid parent delta node)"
proof (cases "index_func (\<lambda>e. rul_ID (or_rule e) = rid) (orderedRulesForHop node parent)")
  case None
  then show ?thesis using assms by (simp add: move_ordered_def)
next
  case (Some i)
  let ?L = "orderedRulesForHop node parent"
  have i: "i < length ?L" using index_func_SomeD [OF Some] by simp
  show ?thesis
  proof (cases "int i + delta < 0 \<or> int i + delta \<ge> int (length ?L)")
    case True
    then show ?thesis using assms Some by (simp add: move_ordered_def Let_def)
  next
    case False
    then have "mset (swap_at i (nat (int i + delta)) ?L) = mset ?L" using i by (intro mset_swap_at) auto
    from applyRuleOrder_topology_ok [OF assms mset_map_or_place [OF this]] show ?thesis
      using Some False by (simp add: move_ordered_def Let_def)
  qed
qed

text \<open>After \<open>applyRuleOrder\<close> the Rules of the Hop are in the given order.\<close>

lemma sorted_by_position:
  assumes "mset xs = mset ys" "\<forall>p < length ys. f (ys ! p) = int p" "sorted (map f xs)"
  shows "xs = ys"
proof -
  have len: "length xs = length ys" using assms(1) by (rule mset_eq_length)
  have "map f ys = map int [0..<length ys]" using assms(2) by (intro nth_equalityI) simp_all
  then have inj: "distinct (map f ys)" "sorted (map f ys)" by (simp_all add: distinct_map)
  have "set xs = set ys" using assms(1) by (rule mset_eq_setD)
  moreover have "map f xs = map f ys"
    using assms(1,3) inj(2) by (metis mset_map properties_for_sort)
  ultimately show ?thesis using inj(1) by (metis distinct_map inj_on_map_eq_map sup.idem)
qed

lemma ordered_at:
  "e \<in> set (orderedRulesForHop node h) \<Longrightarrow> or_rule e = rule_at node (or_place e) \<and> rule_slot node (or_place e)"
  using unordered_rules_at by (simp add: orderedRulesForHop_def)

lemma ruleless_rule_at:
  assumes "ruleless node = ruleless node'" "rule_slot node place"
  shows "unordered_rule (rule_at node place) = unordered_rule (rule_at node' place)"
proof (cases place)
  case (LinkRule i j)
  let ?f = "\<lambda>l. l\<lparr>lnk_Rules := map unordered_rule (lnk_Rules l)\<rparr>"
  have eq: "map ?f (pn_Links node) = map ?f (pn_Links node')" by (rule ruleless_keeps(3) [OF assms(1)])
  have len: "length (pn_Links node') = length (pn_Links node)" using map_eq_imp_length_eq [OF eq] by simp
  have i: "i < length (pn_Links node)" "j < length (lnk_Rules (pn_Links node ! i))" using assms(2) LinkRule by simp_all
  have "?f (pn_Links node ! i) = ?f (pn_Links node' ! i)"
    using arg_cong [OF eq, of "\<lambda>l. l ! i"] i(1) len by simp
  from arg_cong [OF this, of lnk_Rules]
  have rules: "map unordered_rule (lnk_Rules (pn_Links node ! i)) = map unordered_rule (lnk_Rules (pn_Links node' ! i))" by simp
  have "length (lnk_Rules (pn_Links node' ! i)) = length (lnk_Rules (pn_Links node ! i))"
    using map_eq_imp_length_eq [OF rules] by simp
  then show ?thesis using arg_cong [OF rules, of "\<lambda>l. l ! j"] i(2) LinkRule by simp
next
  case (BlockRule i)
  let ?g = "\<lambda>b. b\<lparr>blk_Rule := unordered_rule (blk_Rule b)\<rparr>"
  have eq: "map ?g (pn_BlockBranches node) = map ?g (pn_BlockBranches node')" by (rule ruleless_keeps(4) [OF assms(1)])
  have i: "i < length (pn_BlockBranches node)" "length (pn_BlockBranches node') = length (pn_BlockBranches node)"
    using assms(2) BlockRule map_eq_imp_length_eq [OF eq] by simp_all
  have "?g (pn_BlockBranches node ! i) = ?g (pn_BlockBranches node' ! i)"
    using arg_cong [OF eq, of "\<lambda>l. l ! i"] i by simp
  from arg_cong [OF this, of blk_Rule] show ?thesis using BlockRule by simp
qed

lemma applyRuleOrder_installs:
  assumes "mset ys = mset (orderedRulesForHop node h)"
  shows "map (\<lambda>e. rul_ID (or_rule e)) (orderedRulesForHop (applyRuleOrder ys node) h)
    = map (\<lambda>e. rul_ID (or_rule e)) ys"
proof -
  let ?n = "applyRuleOrder ys node"
  let ?R = "orderedRulesForHop ?n h" and ?ord = "\<lambda>place. rul_Order (rule_at ?n place)"
  note facts = applyRuleOrder_facts [OF mset_map_or_place [OF assms]]
  have perm: "mset (map or_place ?R) = mset (map or_place ys)"
    using orderedRules_places rule_places_mset [OF facts(1)] mset_map_or_place [OF assms] by metis
  have "map ?ord (map or_place ?R) = map (\<lambda>e. rul_Order (or_rule e)) ?R"
    using ordered_at by simp
  moreover have "sorted (map (\<lambda>e. rul_Order (or_rule e)) ?R)" unfolding orderedRulesForHop_def by simp
  ultimately have "sorted (map ?ord (map or_place ?R))" by (simp only:)
  moreover have "\<forall>p < length (map or_place ys). ?ord (map or_place ys ! p) = int p" using facts(4) by simp
  ultimately have places: "map or_place ?R = map or_place ys" by (intro sorted_by_position [OF perm])
  have "map (\<lambda>e. rul_ID (or_rule e)) ?R = map (\<lambda>place. rul_ID (rule_at ?n place)) (map or_place ?R)"
    using ordered_at by simp
  also have "\<dots> = map (\<lambda>e. rul_ID (rule_at ?n (or_place e))) ys" unfolding places by simp
  also have "\<dots> = map (\<lambda>e. rul_ID (or_rule e)) ys"
  proof (rule map_cong [OF refl])
    fix e
    assume "e \<in> set ys"
    then have e: "e \<in> set (orderedRulesForHop node h)" using assms mset_eq_setD by blast
    have "unordered_rule (rule_at ?n (or_place e)) = unordered_rule (rule_at node (or_place e))"
      using ruleless_rule_at [OF facts(1) [symmetric]] ordered_at [OF e] by simp
    from arg_cong [OF this, of rul_ID] show "rul_ID (rule_at ?n (or_place e)) = rul_ID (or_rule e)"
      using ordered_at [OF e] by (simp add: unordered_rule_def)
  qed
  finally show ?thesis .
qed

definition rule_ids_of :: "proxy_node \<Rightarrow> string \<Rightarrow> string list" where
  "rule_ids_of node h = map (\<lambda>e. rul_ID (or_rule e)) (orderedRulesForHop node h)"

lemma reorder_rules_result:
  assumes ok: "topology_ok node" and hop: "h \<in> hop_ids node" and dist: "distinct (rule_ids_of node h)"
  shows "(\<exists>node'. reorder_rules h ids node = Inr (node', ())) \<longleftrightarrow> mset ids = mset (rule_ids_of node h)"
    and "reorder_rules h ids node = Inr (node', ()) \<Longrightarrow> topology_ok node' \<and> rule_ids_of node' h = ids"
proof -
  let ?L = "orderedRulesForHop node h" and ?key = "\<lambda>e. rul_ID (or_rule e)"
  let ?e = "ErrConflict ''reordered Rule does not belong to this Hop''"
  let ?m = "fill_map ?key (\<lambda>e. e) Map.empty ?L"
  have d: "distinct (map ?key ?L)" using dist by (simp add: rule_ids_of_def)
  have "list_ex (\<lambda>x. hop_ID x = h) (pn_Hops node)" using hop by (auto simp: list_ex_iff hop_ids_def)
  then have run: "reorder_rules h ids node = Inr (n, ()) \<longleftrightarrow> length ids = length ?L \<and>
      (\<exists>ys left. take_by_id ?e ?m ids = Inr (ys, left) \<and> \<not> remaining ?key left ?L \<and> n = applyRuleOrder ys node)" for n
    by (auto simp: reorder_rules_def Let_def bindE_Inr_iff split: if_splits)
  note all = take_all [OF d]
  show "(\<exists>node'. reorder_rules h ids node = Inr (node', ())) \<longleftrightarrow> mset ids = mset (rule_ids_of node h)"
  proof
    assume "\<exists>node'. reorder_rules h ids node = Inr (node', ())"
    then obtain ys left where len: "length ids = length ?L" and ys: "take_by_id ?e ?m ids = Inr (ys, left)"
      using run by blast
    from all(2) [OF len ys] show "mset ids = mset (rule_ids_of node h)"
      unfolding rule_ids_of_def by (metis mset_map)
  next
    assume perm: "mset ids = mset (rule_ids_of node h)"
    then have len: "length ids = length ?L" using mset_eq_length by (fastforce simp: rule_ids_of_def)
    from all(1) [OF len] perm obtain ys left where ys: "take_by_id ?e ?m ids = Inr (ys, left)"
      by (metis rule_ids_of_def)
    with all(2) [OF len ys] run len show "\<exists>node'. reorder_rules h ids node = Inr (node', ())" by blast
  qed
  assume "reorder_rules h ids node = Inr (node', ())"
  then obtain ys left where len: "length ids = length ?L" and ys: "take_by_id ?e ?m ids = Inr (ys, left)"
    and n: "node' = applyRuleOrder ys node" using run by blast
  from all(2) [OF len ys] have y: "mset ys = mset ?L" "map ?key ys = ids" by simp_all
  then show "topology_ok node' \<and> rule_ids_of node' h = ids"
    using applyRuleOrder_topology_ok [OF ok mset_map_or_place] applyRuleOrder_installs
    unfolding n rule_ids_of_def by blast
qed

section \<open>Deleting Rules\<close>

lemma normalizeRuleOrders_topology_ok:
  assumes pre: "topology_pre n" and sib: "\<forall>h \<in> hop_ids n. siblings_ok (outgoing_links (pn_Links n) h)"
  shows "topology_ok (normalizeRuleOrders n)"
proof -
  note same = normalizeRuleOrders_facts(1) [of n]
  have "hop_ids (normalizeRuleOrders n) = hop_ids n" by (rule same_shape_links(5) [OF same_shape_ruleless [OF same]])
  then show ?thesis
    using pre sib normalizeRuleOrders_facts(2) [of _ n] same_shape_pre [OF same_shape_ruleless [OF same]]
      ruleless_siblings [OF same]
    by (simp add: topology_ok_pre)
qed

lemma delete_rule_topology_ok:
  assumes ok: "topology_ok node" and run: "delete_rule lid rid node = Inr (node', ())"
  shows "topology_ok node'"
proof -
  obtain i where i: "link_index lid node = Inr i" using run by (auto simp: delete_rule_def bindE_Inr_iff)
  let ?ls = "pn_Links node"
  let ?kept = "delete_func (\<lambda>r. rul_ID r = rid) (lnk_Rules (?ls ! i))"
  let ?ls' = "update_at i (\<lambda>l. l\<lparr>lnk_Rules := ?kept\<rparr>) ?ls"
  have node': "node' = normalizeRuleOrders (node\<lparr>pn_Links := ?ls'\<rparr>)"
    using run i by (auto simp: delete_rule_def Let_def split: if_splits)
  have il: "?ls ! i \<in> set ?ls" using link_index_Inr [OF i] by simp
  have pre: "topology_pre node" using ok by (simp add: topology_ok_pre)
  have links: "\<forall>l \<in> set ?ls. link_ok (unordered l)" using pre by (simp add: topology_pre_def)
  have keep: "map lnk_ID ?ls' = map lnk_ID ?ls" "map lnk_ParentHopID ?ls' = map lnk_ParentHopID ?ls"
    "map lnk_ChildHopID ?ls' = map lnk_ChildHopID ?ls"
    "map (\<lambda>l. (lnk_ParentHopID l, lnk_Order l, lnk_Fallback l)) ?ls' =
     map (\<lambda>l. (lnk_ParentHopID l, lnk_Order l, lnk_Fallback l)) ?ls"
    by (simp_all add: update_at_unchanged_map)
  then have sib: "siblings_ok (outgoing_links ?ls' h) = siblings_ok (outgoing_links ?ls h)" for h
    using siblings_ok_cong outgoing_cong [of "\<lambda>l. (lnk_Order l, lnk_Fallback l)"] by blast
  have l: "link_ok (unordered (?ls ! i))" using links il by blast
  have "length ?kept \<le> length (lnk_Rules (?ls ! i))" by (simp add: delete_func_def)
  also have "\<dots> \<le> 1" using l by (simp add: link_ok_def unordered_def)
  finally have len: "length ?kept \<le> 1" .
  have "link_ok (unordered ((?ls ! i)\<lparr>lnk_Rules := ?kept\<rparr>))"
    using l len by (auto simp: link_ok_def unordered_def set_delete_func delete_func_def)
  then have new: "\<forall>l \<in> set ?ls'. link_ok (unordered l)" by (intro ball_update_at [OF links])
  have "topology_pre (node\<lparr>pn_Links := ?ls'\<rparr>)"
  proof (rule topology_pre_links [OF pre keep(1-3)])
    show "one_fallback ?ls' h" if "h \<in> hop_ids node" for h
      using siblings_ok_one_fallback [of ?ls' h] sib ok that by (simp add: topology_ok_pre)
  qed (use new in blast)
  then show ?thesis unfolding node'
    by (rule normalizeRuleOrders_topology_ok) (use sib ok in \<open>simp add: topology_ok_pre hop_ids_def\<close>)
qed

lemma delete_block_topology_ok:
  assumes ok: "topology_ok node" and run: "delete_block rid node = Inr (node', ())"
  shows "topology_ok node'"
proof -
  let ?bs = "delete_func (\<lambda>b. rul_ID (blk_Rule b) = rid) (pn_BlockBranches node)"
  let ?n = "node\<lparr>pn_BlockBranches := ?bs\<rparr>"
  have node': "node' = normalizeRuleOrders ?n" using run by (auto simp: delete_block_def Let_def split: if_splits)
  have pre: "topology_pre node" using ok by (simp add: topology_ok_pre)
  have tree: "routing_tree ?n = routing_tree node" "hop_ids ?n = hop_ids node"
    using routing_tree_cong(1,2) [of ?n node] by simp_all
  have "length ?bs \<le> length (pn_BlockBranches node)" by (simp add: delete_func_def)
  then have "topology_pre ?n"
    using pre tree by (intro topology_preI [OF pre]) (auto simp: topology_pre_def set_delete_func)
  then show ?thesis unfolding node'
    by (rule normalizeRuleOrders_topology_ok) (use ok tree in \<open>simp add: topology_ok_pre\<close>)
qed

section \<open>Moving a Link\<close>

text \<open>In a Proxy Node that satisfies \<open>siblings_ok\<close> the position of a Link among its siblings is
  its order.\<close>

lemma sibling_at_order:
  assumes "siblings_ok (outgoing_links ls p)" "k < length (orderedSiblingLinkIndexes ls p)"
  shows "orderedSiblingLinkIndexes ls p ! k < length ls" "lnk_ParentHopID (ls ! (orderedSiblingLinkIndexes ls p ! k)) = p"
    "lnk_Order (ls ! (orderedSiblingLinkIndexes ls p ! k)) = int k"
proof -
  let ?J = "orderedSiblingLinkIndexes ls p"
  have "?J ! k \<in> set (sibling_positions ls p)" using nth_mem [OF assms(2)] by (simp add: ordered_positions)
  then show "?J ! k < length ls" "lnk_ParentHopID (ls ! (?J ! k)) = p" by (simp_all add: sibling_positions_def)
  let ?os = "map (\<lambda>i. lnk_Order (ls ! i)) ?J"
  have perm: "mset ?os = mset (map lnk_Order (outgoing_links ls p))"
    by (simp add: ordered_positions outgoing_links_positions comp_def)
  have "sorted ?os" by (simp add: ordered_positions)
  then have "?os = sort (map lnk_Order (outgoing_links ls p))" using perm by (metis properties_for_sort)
  then have "?os = map int [0..<length ?J]"
    using assms(1) by (simp add: siblings_ok_def contiguous_sort length_siblings)
  from arg_cong [OF this, of "\<lambda>l. l ! k"] show "lnk_Order (ls ! (?J ! k)) = int k" using assms(2) by simp
qed

definition swap_orders :: "nat \<Rightarrow> nat \<Rightarrow> link list \<Rightarrow> link list" where
  "swap_orders i j ls = update_at j (\<lambda>m. m\<lparr>lnk_Order := lnk_Order (ls ! i)\<rparr>)
     (update_at i (\<lambda>m. m\<lparr>lnk_Order := lnk_Order (ls ! j)\<rparr>) ls)"

lemma swap_orders_nth:
  assumes "i < length ls" "j < length ls" "i \<noteq> j"
  shows "length (swap_orders i j ls) = length ls"
    and "k < length ls \<Longrightarrow> swap_orders i j ls ! k = (ls ! k)\<lparr>lnk_Order :=
      (if k = i then lnk_Order (ls ! j) else if k = j then lnk_Order (ls ! i) else lnk_Order (ls ! k))\<rparr>"
  using assms by (auto simp: swap_orders_def nth_update_at)

lemma swap_orders_shape: "map unordered_link (swap_orders i j ls) = map unordered_link ls"
  by (simp add: swap_orders_def update_at_unchanged_map unordered_link_def)

lemma swap_orders_siblings:
  assumes ok: "siblings_ok (outgoing_links ls p)" and ij: "i < length ls" "j < length ls" "i \<noteq> j"
    and parent: "lnk_ParentHopID (ls ! i) = lnk_ParentHopID (ls ! j)"
    and plain: "\<not> lnk_Fallback (ls ! i)" "\<not> lnk_Fallback (ls ! j)"
  shows "siblings_ok (outgoing_links (swap_orders i j ls) p)"
proof -
  let ?r = "swap_orders i j ls" and ?I = "sibling_positions ls p"
  note nth = swap_orders_nth [OF ij]
  have pos: "sibling_positions ?r p = ?I"
    by (rule sibling_positions_cong) (rule unordered_keeps(1) [OF swap_orders_shape])
  define \<pi> where "\<pi> = (\<lambda>k. if k = i then j else if k = j then i else k)"
  have order: "lnk_Order (?r ! k) = lnk_Order (ls ! \<pi> k)" "lnk_Fallback (?r ! k) = lnk_Fallback (ls ! k)"
    if "k \<in> set ?I" for k
    using that nth(2) [of k] by (auto simp: \<pi>_def sibling_positions_def)
  have in_I: "\<pi> k \<in> set ?I \<longleftrightarrow> k \<in> set ?I" for k
    using ij parent by (auto simp: \<pi>_def sibling_positions_def)
  have bij: "\<pi> (\<pi> k) = k" for k using ij(3) by (simp add: \<pi>_def)
  have dist: "distinct ?I" by (simp add: sibling_positions_def)
  have "inj \<pi>" by (rule injI) (metis bij)
  then have "distinct (map \<pi> ?I)" using dist by (simp add: distinct_map inj_on_def)
  moreover have "set (map \<pi> ?I) = set ?I" using in_I bij by (auto simp: image_iff) metis
  ultimately have perm: "mset (map \<pi> ?I) = mset ?I" using dist set_eq_iff_mset_eq_distinct by blast
  have "map lnk_Order (outgoing_links ?r p) = map (\<lambda>k. lnk_Order (ls ! k)) (map \<pi> ?I)"
    using order(1) by (simp add: outgoing_links_positions pos)
  then have "mset (map lnk_Order (outgoing_links ?r p)) = mset (map (\<lambda>k. lnk_Order (ls ! k)) (map \<pi> ?I))"
    by (simp only:)
  also have "\<dots> = mset (map lnk_Order (outgoing_links ls p))"
    unfolding mset_map [of "\<lambda>k. lnk_Order (ls ! k)"] perm by (simp add: outgoing_links_positions multiset.map_comp comp_def)
  finally have "contiguous (map lnk_Order (outgoing_links ?r p))"
    using ok unfolding siblings_ok_def contiguous_def by (metis length_map mset_eq_length mset_map)
  moreover have len: "length (outgoing_links ?r p) = length (outgoing_links ls p)" by (simp add: length_outgoing pos)
  moreover have "lnk_Order (?r ! k) = int (length (outgoing_links ls p)) - 1" if "k \<in> set ?I" "lnk_Fallback (?r ! k)" for k
  proof -
    have "lnk_Fallback (ls ! k)" using order(2) that by simp
    then have "k \<noteq> i" "k \<noteq> j" using plain by auto
    moreover have "ls ! k \<in> set (outgoing_links ls p)" using that(1) by (auto simp: outgoing_links_positions)
    ultimately show ?thesis using ok \<open>lnk_Fallback (ls ! k)\<close> order(1) [OF that(1)] by (simp add: siblings_ok_def \<pi>_def)
  qed
  ultimately show ?thesis
    unfolding siblings_ok_def outgoing_links_positions [of ?r] pos by (auto simp: outgoing_links_positions)
qed

lemma swap_orders_topology_ok:
  assumes ok: "topology_ok node" and ij: "i < length (pn_Links node)" "j < length (pn_Links node)" "i \<noteq> j"
    and parent: "lnk_ParentHopID (pn_Links node ! i) = lnk_ParentHopID (pn_Links node ! j)"
    and plain: "\<not> lnk_Fallback (pn_Links node ! i)" "\<not> lnk_Fallback (pn_Links node ! j)"
  shows "topology_ok (node\<lparr>pn_Links := swap_orders i j (pn_Links node)\<rparr>)"
proof -
  let ?n = "node\<lparr>pn_Links := swap_orders i j (pn_Links node)\<rparr>"
  have "map unordered (pn_Links ?n) = map unordered (pn_Links node)"
    by (rule map_via [where f = unordered_link and h = "\<lambda>l. l\<lparr>lnk_Rules := map unordered_rule (lnk_Rules l)\<rparr>"])
      (simp_all add: swap_orders_shape, simp add: unordered_def unordered_link_def)
  then have shape: "same_shape ?n node" by (simp add: same_shape_def)
  have "rules_ok ?n h = rules_ok node h" for h
    using rule_orders_shape [OF swap_orders_shape] by (simp add: rules_ok_def)
  then show ?thesis
    using ok same_shape_pre [OF shape] same_shape_links(5) [OF shape] swap_orders_siblings [OF _ ij parent plain]
    by (simp add: topology_ok_pre)
qed

lemma move_link_cases:
  assumes ok: "topology_ok node" and i: "link_index lid node = Inr i" and delta: "delta = 1 \<or> delta = -1"
  defines "ls \<equiv> pn_Links node" and "n \<equiv> length (outgoing_links (pn_Links node) (lnk_ParentHopID (pn_Links node ! i)))"
  shows "(lnk_Order (ls ! i) + delta < 0 \<or> lnk_Order (ls ! i) + delta \<ge> int n) \<and>
       move_link lid delta node = Inr (node, ()) \<or>
     (\<exists>j < length ls. j \<noteq> i \<and> lnk_ParentHopID (ls ! j) = lnk_ParentHopID (ls ! i) \<and>
       lnk_Order (ls ! j) = lnk_Order (ls ! i) + delta \<and>
       move_link lid delta node =
         (if lnk_Fallback (ls ! i) \<or> lnk_Fallback (ls ! j)
          then Inl (ErrConflict ''fallback Link must remain last'')
          else Inr (node\<lparr>pn_Links := swap_orders i j ls\<rparr>, ())))"
proof -
  let ?p = "lnk_ParentHopID (ls ! i)" let ?J = "orderedSiblingLinkIndexes ls ?p"
  have il: "i < length ls" "ls ! i \<in> set ls" using link_index_Inr [OF i] by (simp_all add: ls_def)
  have "?p \<in> hop_ids node"
    using ok edges_memI [OF il(2)] by (auto simp: topology_ok_def routing_tree_def ls_def)
  then have sib: "siblings_ok (outgoing_links ls ?p)" using ok by (simp add: topology_ok_def ls_def)
  note at = sibling_at_order [OF sib]
  have len: "length ?J = n" by (simp add: length_siblings n_def ls_def)
  have "i \<in> set ?J" using il by (simp add: ordered_positions sibling_positions_def)
  then obtain k where k: "index_func (\<lambda>m. m = i) ?J = Some k"
    using index_func_None [of "\<lambda>m. m = i" ?J] by (cases "index_func (\<lambda>m. m = i) ?J") auto
  then have kl: "k < length ?J" "?J ! k = i" using index_func_SomeD by fastforce+
  have order_i: "lnk_Order (ls ! i) = int k" using at(3) [OF kl(1)] kl(2) by simp
  have run: "move_link lid delta node = (let target = int k + delta in
      if target < 0 \<or> target \<ge> int (length ?J) then ok (node, ())
      else let j = ?J ! nat target in
        if (lnk_Fallback (ls ! i) \<and> delta < 0) \<or> (lnk_Fallback (ls ! j) \<and> delta > 0)
        then fail (ErrConflict ''fallback Link must remain last'')
        else ok (node\<lparr>pn_Links := swap_orders i j ls\<rparr>, ()))"
    using i k by (simp add: move_link_def ls_def swap_orders_def Let_def)
  show ?thesis
  proof (cases "int k + delta < 0 \<or> int k + delta \<ge> int (length ?J)")
    case True
    then show ?thesis using run order_i len by (simp add: Let_def)
  next
    case False
    let ?t = "nat (int k + delta)" let ?j = "?J ! ?t"
    have t: "?t < length ?J" "int ?t = int k + delta" using False by auto
    note j = at(1) [OF t(1)] at(2) [OF t(1)] at(3) [OF t(1)]
    have ne: "?j \<noteq> i" using order_i j(3) t(2) delta by auto
    have last: "lnk_Order (ls ! m) = int n - 1" if "m < length ls" "lnk_ParentHopID (ls ! m) = ?p" "lnk_Fallback (ls ! m)" for m
      using that sib nth_mem [OF that(1)] by (simp add: siblings_ok_def outgoing_links_def n_def ls_def)
    have "\<not> (lnk_Fallback (ls ! i) \<and> delta > 0)"
      using last [OF il(1)] order_i t len delta by auto
    moreover have "\<not> (lnk_Fallback (ls ! ?j) \<and> delta < 0)"
      using last [OF j(1,2)] j(3) t kl(1) len delta by auto
    ultimately have guard: "(lnk_Fallback (ls ! i) \<and> delta < 0) \<or> (lnk_Fallback (ls ! ?j) \<and> delta > 0) \<longleftrightarrow>
        lnk_Fallback (ls ! i) \<or> lnk_Fallback (ls ! ?j)" using delta by auto
    have "move_link lid delta node = (if lnk_Fallback (ls ! i) \<or> lnk_Fallback (ls ! ?j)
        then Inl (ErrConflict ''fallback Link must remain last'') else Inr (node\<lparr>pn_Links := swap_orders i ?j ls\<rparr>, ()))"
      unfolding run Let_def guard using False by simp
    then show ?thesis using j ne t(2) order_i by (intro disjI2 exI [of _ ?j]) simp
  qed
qed

lemma move_link_topology_ok:
  assumes ok: "topology_ok node" and delta: "delta = 1 \<or> delta = -1"
    and run: "move_link lid delta node = Inr (node', ())"
  shows "topology_ok node'"
proof -
  obtain i where i: "link_index lid node = Inr i" using run by (auto simp: move_link_def bindE_Inr_iff)
  have il: "i < length (pn_Links node)" using link_index_Inr [OF i] by simp
  from move_link_cases [OF ok i delta] run
  have "node' = node \<or> (\<exists>j < length (pn_Links node). j \<noteq> i \<and>
      lnk_ParentHopID (pn_Links node ! j) = lnk_ParentHopID (pn_Links node ! i) \<and>
      \<not> lnk_Fallback (pn_Links node ! i) \<and> \<not> lnk_Fallback (pn_Links node ! j) \<and>
      node' = node\<lparr>pn_Links := swap_orders i j (pn_Links node)\<rparr>)"
    by (auto split: if_splits)
  then show ?thesis using ok il swap_orders_topology_ok [OF ok] by metis
qed

end
