(* ===== verification/StoreFacts.thy ===== *)
theory StoreFacts
  imports Billing LedgerFacts OrderFacts
begin

text \<open>
  The transactions of the Store. \<open>sound\<close> is the invariant that ties the state in memory to its
  indexes and to its two durable copies; \<open>transition\<close> is one step of the Store, whatever operation
  it runs. The invariant is kept by every transition, and every operation is a transition
  (\<open>Operations\<close>).

  \<open>clean\<close> describes the storage faults under which this holds: any step before a replacement or
  a commit may fail, but what has been done is not reported as failed, and an old document can be
  put back.
\<close>

section \<open>Indexes\<close>

definition indexed :: "store \<Rightarrow> bool" where
  "indexed s \<longleftrightarrow> sto_userIndex s = user_index (st_Users (sto_state s)) \<and>
     sto_subscriptionIndex s = subscription_index (st_Users (sto_state s))"

lemma indexed_adopt [simp]: "indexed (adopt next build s)"
  by (simp add: indexed_def adopt_def rebuildIndexes_def)

text \<open>A map from a key to the position where a list has it.\<close>

lemma position_map:
  assumes "distinct (map f xs)"
  shows "fill_map (\<lambda>(i, x). f x) fst Map.empty (enumerated xs) k = Some i \<longleftrightarrow> i < length xs \<and> f (xs ! i) = k"
proof -
  have keys: "map (\<lambda>(i, x). f x) (enumerated xs) = map f xs" by (rule map_enumerated)
  show ?thesis
  proof
    assume "fill_map (\<lambda>(i, x). f x) fst Map.empty (enumerated xs) k = Some i"
    then show "i < length xs \<and> f (xs ! i) = k" by (auto dest!: fill_map_SomeD simp: set_enumerated)
  next
    assume i: "i < length xs \<and> f (xs ! i) = k"
    then have "(i, xs ! i) \<in> set (enumerated xs)" by (auto simp: set_enumerated)
    from fill_map_distinct [OF _ this, of "\<lambda>(i, x). f x" fst Map.empty] i assms keys
    show "fill_map (\<lambda>(i, x). f x) fst Map.empty (enumerated xs) k = Some i" by simp
  qed
qed

lemma find_position:
  assumes "distinct (map f xs)"
  shows "find (\<lambda>x. f x = k) xs = (case fill_map (\<lambda>(i, x). f x) fst Map.empty (enumerated xs) k of
     None \<Rightarrow> None | Some i \<Rightarrow> if i < length xs then Some (xs ! i) else None)"
proof (cases "fill_map (\<lambda>(i, x). f x) fst Map.empty (enumerated xs) k")
  case None
  then have "k \<notin> f ` set xs" using position_map [OF assms, of k] by (metis in_set_conv_nth image_iff option.distinct(1))
  then show ?thesis using None by (simp add: find_absent)
next
  case (Some i)
  then have "i < length xs" "f (xs ! i) = k" using position_map [OF assms] by blast+
  then show ?thesis using Some find_distinct [OF assms nth_mem, of i] by simp
qed

section \<open>Persistence\<close>

definition clean :: "faults \<Rightarrow> bool" where
  "clean flt \<longleftrightarrow> flt_document_sync flt = ok () \<and> flt_retry_secure flt = ok () \<and> flt_restore flt = ok () \<and>
     flt_restore_sync flt = ok () \<and> flt_ledger_secure flt = ok ()"

lemma clean_no_faults [simp]: "clean no_faults"
  by (simp add: clean_def no_faults_def)

text \<open>What the document has of a state: everything but the fields whose authority is the ledger.\<close>

definition unbilled_membership :: "membership \<Rightarrow> membership" where
  "unbilled_membership m = m\<lparr>mem_UsedBytes := 0, mem_QuotaPeriodStartedOn := 0, mem_QuotaResetsAfter := 0,
     mem_DisabledReason := MembershipEnabled\<rparr>"

definition unbilled_node :: "proxy_node \<Rightarrow> proxy_node" where
  "unbilled_node n = n\<lparr>pn_Memberships := map unbilled_membership (pn_Memberships n)\<rparr>"

definition unbilled :: "state \<Rightarrow> state" where
  "unbilled st = st\<lparr>st_ProxyNodes := map unbilled_node (st_ProxyNodes st), st_UserRevision := 0,
     st_TrafficObservations := [], st_AccountingFailures := []\<rparr>"

definition documented :: "store \<Rightarrow> bool" where
  "documented s \<longleftrightarrow> unbilled (fst (sto_document s)) = unbilled (sto_state s)"

definition sound :: "environment \<Rightarrow> store \<Rightarrow> bool" where
  "sound env s \<longleftrightarrow> indexed s \<and> validateStoredState env (sto_state s) = Inr () \<and>
     settled (sto_state s) (sto_ledger s) \<and> documented s"

text \<open>With clean faults a write of both copies either happens everywhere or nowhere.\<close>

lemma persist_result:
  assumes "clean flt" "settled (sto_state s) (sto_ledger s)"
  obtains (committed) "persistStateAndAccountingLocked flt next build s =
      (ok (), adopt next build (s\<lparr>sto_document := (next, build),
         sto_ledger := prepareMembershipReconciliation next (sto_ledger s)\<rparr>))"
  | (refused) e where "persistStateAndAccountingLocked flt next build s = (Inl e, s)"
  | (undone) e where "persistStateAndAccountingLocked flt next build s =
      (Inl e, s\<lparr>sto_document := (sto_state s, sto_build s)\<rparr>)"
proof -
  note defs = persistStateAndAccountingLocked_def persistLocked_def reconcileMemberships_def Let_def
  have flt: "flt_document_sync flt = Inr ()" "flt_retry_secure flt = Inr ()" "flt_restore flt = Inr ()"
    "flt_restore_sync flt = Inr ()" using assms(1) by (simp_all add: clean_def)
  show ?thesis
  proof (cases "sto_open s \<and> flt_secure flt = Inr () \<and> flt_prepare flt = Inr () \<and> flt_document flt = Inr ()")
    case False
    then have "\<exists>e. persistStateAndAccountingLocked flt next build s = (Inl e, s)"
      by (cases "sto_open s"; cases "flt_secure flt"; cases "flt_prepare flt"; cases "flt_document flt")
        (simp_all add: defs)
    then show ?thesis using refused by blast
  next
    case True
    show ?thesis
    proof (cases "flt_commit flt")
      case (Inr u)
      then show ?thesis using True flt by (intro committed) (simp add: defs)
    next
      case (Inl e)
      show ?thesis
      proof (cases "flt_retry flt")
        case (Inr u)
        then show ?thesis using True flt Inl by (intro committed) (simp add: defs)
      next
        case (Inl e')
        have "snd (reconcileMemberships (flt_rollback flt) (flt_rollback_secure flt) (sto_state s) t) = t"
          if "sto_ledger t = sto_ledger s" for t
          using settled_prepare [OF assms(2)] that by (cases "flt_rollback flt") (simp_all add: reconcileMemberships_def)
        then show ?thesis using True flt Inl \<open>flt_commit flt = Inl e\<close>
          by (intro undone [of e]) (simp add: persistStateAndAccountingLocked_def persistLocked_def Let_def
            reconcileMemberships_def [of "Inl e'"])
      qed
    qed
  qed
qed

lemma persist_sound:
  assumes s: "sound env s" and flt: "clean flt" and valid: "validateStoredState env next = Inr ()"
  shows "sound env (snd (persistStateAndAccountingLocked flt next build s))"
proof -
  have settled: "settled (sto_state s) (sto_ledger s)" using s by (simp add: sound_def)
  have ids: "distinct (membership_ids next)" using valid by (rule valid_membership_ids)
  show ?thesis
  proof (rule persist_result [OF flt settled, of "next" build])
    assume committed: "persistStateAndAccountingLocked flt next build s =
      (ok (), adopt next build (s\<lparr>sto_document := (next, build),
         sto_ledger := prepareMembershipReconciliation next (sto_ledger s)\<rparr>))"
    have "settled next (prepareMembershipReconciliation next (sto_ledger s))"
      by (rule prepare_settled [OF ids]) (use settled in \<open>simp add: settled_def\<close>)
    then show "sound env (snd (persistStateAndAccountingLocked flt next build s))" using valid
      by (simp add: committed sound_def documented_def adopt_def rebuildIndexes_def indexed_def)
  next
    fix e
    assume "persistStateAndAccountingLocked flt next build s = (Inl e, s)"
    then show "sound env (snd (persistStateAndAccountingLocked flt next build s))" using s by simp
  next
    fix e
    assume "persistStateAndAccountingLocked flt next build s = (Inl e, s\<lparr>sto_document := (sto_state s, sto_build s)\<rparr>)"
    then show "sound env (snd (persistStateAndAccountingLocked flt next build s))" using s by (simp add: sound_def documented_def indexed_def)
  qed
qed

section \<open>Steps\<close>

inductive transition :: "environment \<Rightarrow> store \<Rightarrow> store \<Rightarrow> bool" for env :: environment where
  stay: "transition env s s"
| commit: "clean flt \<Longrightarrow> validateStoredState env next = Inr () \<Longrightarrow>
    transition env s (snd (persistStateAndAccountingLocked flt next build s))"
| charge_ledger: "validateStoredState env next = Inr () \<Longrightarrow> unbilled next = unbilled (sto_state s) \<Longrightarrow>
    transition env s (s\<lparr>sto_ledger := persistChanges (sto_state s) next daily (sto_ledger s), sto_state := next\<rparr>)"
| rewrite: "transition env s (s\<lparr>sto_document := (sto_state s, build)\<rparr>)"
| rebuild: "transition env s (s\<lparr>sto_document := (sto_state s, build), sto_build := build\<rparr>)"
| shut: "transition env s (Close s)"

inductive_cases transition_E: "transition env s s'"

lemma unbilled_users: "unbilled a = unbilled b \<Longrightarrow> st_Users a = st_Users b"
  unfolding unbilled_def by (drule arg_cong [where f = st_Users]) simp

theorem transition_sound:
  assumes "transition env s s'" "sound env s"
  shows "sound env s'"
  using assms
proof cases
  case (commit flt "next" build)
  then show ?thesis using persist_sound assms(2) by simp
next
  case (charge_ledger "next" daily)
  have ids: "distinct (membership_ids (sto_state s))" "distinct (membership_ids next)"
    using assms(2) charge_ledger valid_membership_ids by (auto simp: sound_def)
  have "settled next (persistChanges (sto_state s) next daily (sto_ledger s))"
    by (rule persistChanges_settled [OF _ ids]) (use assms(2) in \<open>simp add: sound_def\<close>)
  then show ?thesis using charge_ledger assms(2) unbilled_users [OF charge_ledger(3)]
    by (simp add: sound_def indexed_def documented_def)
qed (auto simp: sound_def indexed_def documented_def Close_def)

section \<open>Transactions are steps\<close>

named_theorems steps \<open>operations that are transitions of the Store\<close>

lemma mutate_transition [steps]:
  assumes "clean (call_faults c)"
  shows "transition env s (snd (mutate env c f s))"
  using assms transition.commit [OF assms] transition.stay
  by (auto simp: mutate_def Let_def split: sum.splits prod.splits) (metis snd_conv)+

lemma mutateUser_transition [steps]:
  assumes "clean (call_faults c)"
  shows "transition env s (snd (mutateUser env c f s))"
  using assms transition.commit [OF assms] transition.stay
  by (auto simp: mutateUser_def Let_def split: sum.splits prod.splits) (metis snd_conv)+

lemma mutateBilling_transition:
  assumes "clean (call_faults c)"
    and "\<And>next changed daily. f (sto_state s) = Inr (next, changed, daily) \<Longrightarrow> unbilled next = unbilled (sto_state s)"
  shows "transition env s (snd (mutateBillingWithDaily env c f s))"
proof (cases "f (sto_state s)")
  case (Inl e)
  then show ?thesis by (simp add: mutateBillingWithDaily_def transition.stay)
next
  case (Inr x)
  obtain n changed daily where x: "x = (n, changed, daily)" by (cases x)
  let ?next = "if changed then n\<lparr>st_UserRevision := st_UserRevision n + 1\<rparr> else n"
  have same: "unbilled ?next = unbilled (sto_state s)"
    using assms(2) [of n changed daily] Inr x by (simp add: unbilled_def)
  have sec: "flt_ledger_secure (call_faults c) = Inr ()" using assms(1) by (simp add: clean_def)
  show ?thesis
  proof (cases "validateStoredState env ?next = Inr () \<and> sto_open s \<and> flt_ledger (call_faults c) = Inr ()")
    case True
    then have "snd (mutateBillingWithDaily env c f s) =
        s\<lparr>sto_ledger := persistChanges (sto_state s) ?next daily (sto_ledger s), sto_state := ?next\<rparr>"
      using Inr x sec by (simp add: mutateBillingWithDaily_def Let_def)
    then show ?thesis using transition.charge_ledger [OF _ same] True by simp
  next
    case False
    then have "snd (mutateBillingWithDaily env c f s) = s"
      using Inr x by (auto simp: mutateBillingWithDaily_def Let_def split: sum.splits)
    then show ?thesis by (simp add: transition.stay)
  qed
qed

lemma MarkReady_transition [steps]:
  assumes "clean (call_faults c)"
  shows "transition env s (snd (MarkReady c s))"
  using assms transition.stay transition.rebuild
  by (auto simp: MarkReady_def persistLocked_def clean_def Let_def split: sum.splits)

end
