(* ===== verification/Operations.thy ===== *)
theory Operations
  imports StoreFacts
begin

text \<open>
  Every public operation of the Store is a transition (\<open>StoreFacts\<close>): an operation that fails
  leaves the Store as it was or with the old document rewritten, one that succeeds validates the
  state it installs and writes both copies, and the billing operations touch nothing but the
  fields whose authority is the ledger.

  \<open>request\<close> lists the operations with their arguments and \<open>perform\<close> runs one. \<open>reachable\<close> closes
  a Store under them.
\<close>

section \<open>The billing path leaves the document alone\<close>

lemma unbilled_membership_charge [simp]: "unbilled_membership (charge delta m) = unbilled_membership m"
  by (simp add: charge_def Let_def unbilled_membership_def)

lemma unbilled_membership_recompute [simp]: "unbilled_membership (recomputeMembershipStatus now m) = unbilled_membership m"
  by (simp add: recomputeMembershipStatus_def unbilled_membership_def)

lemma unbilled_membership_next [simp]: "unbilled_membership (next_period m) = unbilled_membership m"
  by (simp add: next_period_def unbilled_membership_def)

lemma unbilled_stI:
  assumes "map unbilled_node ns = map unbilled_node (st_ProxyNodes st)"
  shows "unbilled (st\<lparr>st_ProxyNodes := ns\<rparr>) = unbilled st"
  using assms by (simp add: unbilled_def)

lemma unbilled_others [simp]:
  "unbilled (st\<lparr>st_TrafficObservations := obs\<rparr>) = unbilled st"
  "unbilled (st\<lparr>st_AccountingFailures := fs\<rparr>) = unbilled st"
  "unbilled (st\<lparr>st_UserRevision := r\<rparr>) = unbilled st"
  by (simp_all add: unbilled_def)

lemma unbilled_update_node:
  assumes "\<And>n. unbilled_node (f n) = unbilled_node n"
  shows "unbilled (update_node i f st) = unbilled st"
  unfolding update_node_def by (rule unbilled_stI) (simp add: update_at_unchanged_map assms)

lemma unbilled_update_membership:
  assumes "\<And>m. unbilled_membership (f m) = unbilled_membership m"
  shows "unbilled (update_membership p f st) = unbilled st"
  unfolding update_membership_def
  by (cases p) (simp add: unbilled_update_node unbilled_node_def update_at_unchanged_map assms)

lemma unbilled_charge_position [simp]: "unbilled (fst (charge_position p d e acc)) = unbilled (fst acc)"
  by (cases acc) (simp add: charge_position_def Let_def unbilled_update_membership)

lemma unbilled_delta_step: "unbilled (fst (delta_step index u acc)) = unbilled (fst acc)"
  by (simp add: delta_step_def Let_def split: option.split)

lemma unbilled_report_step: "unbilled (fst (report_step env agent epoch observed index u acc)) = unbilled (fst acc)"
  by (cases acc) (simp add: report_step_def Let_def put_observation_def split: option.split prod.split)

lemma unbilled_fold:
  assumes "\<And>x acc. unbilled (fst (f x acc)) = unbilled (fst acc)"
  shows "unbilled (fst (fold f xs acc)) = unbilled (fst acc)"
  using assms by (induction xs arbitrary: acc) simp_all

lemma reset_periods_unbilled:
  "reset_periods today m flags = Some (m', flags') \<Longrightarrow> unbilled_membership m' = unbilled_membership m"
proof -
  have "unbilled_membership (fst y) = unbilled_membership m" if "reset_periods today m flags = Some y" for y
  proof (rule reset_periods.raw_induct [where P = "\<lambda>t m fl y. unbilled_membership (fst y) = unbilled_membership m",
        OF _ that], goal_cases)
    case (1 run today m flags y)
    show ?case
    proof (cases "today > mem_QuotaResetsAfter m")
      case True
      then have "run today (next_period m) (True, snd flags \<or> mem_DisabledReason m = MembershipQuotaReached) = Some y"
        using 1(2) by simp
      from 1(1) [OF this] show ?thesis by simp
    next
      case False
      then show ?thesis using 1(2) by auto
    qed
  qed
  then show "reset_periods today m flags = Some (m', flags') \<Longrightarrow> unbilled_membership m' = unbilled_membership m"
    by fastforce
qed

lemma traverse_option_map:
  assumes "traverse_option f xs s = Some (ys, s')" "\<And>x s y s'. f x s = Some (y, s') \<Longrightarrow> g y = g x"
  shows "map g ys = map g xs"
  using assms(1)
proof (induction xs arbitrary: s ys s')
  case (Cons x xs)
  then show ?case using assms(2) by (fastforce split: option.splits prod.splits)
qed simp

lemma reset_all_periods_unbilled:
  assumes "reset_all_periods today st flags = Some (st', flags')"
  shows "unbilled st' = unbilled st"
proof -
  obtain nodes where t: "traverse_option (\<lambda>n flags. map_option (\<lambda>(ms, flags). (n\<lparr>pn_Memberships := ms\<rparr>, flags))
      (traverse_option (reset_periods today) (pn_Memberships n) flags)) (st_ProxyNodes st) flags = Some (nodes, flags')"
    and st': "st' = st\<lparr>st_ProxyNodes := nodes\<rparr>"
    using assms by (auto simp: reset_all_periods_def)
  have "map unbilled_node nodes = map unbilled_node (st_ProxyNodes st)"
  proof (rule traverse_option_map [OF t])
    fix n :: proxy_node and fl and n' :: proxy_node and fl'
    assume "map_option (\<lambda>(ms, flags). (n\<lparr>pn_Memberships := ms\<rparr>, flags))
      (traverse_option (reset_periods today) (pn_Memberships n) fl) = Some (n', fl')"
    then obtain ms where ms: "traverse_option (reset_periods today) (pn_Memberships n) fl = Some (ms, fl')"
      and n': "n' = n\<lparr>pn_Memberships := ms\<rparr>" by auto
    have "map unbilled_membership ms = map unbilled_membership (pn_Memberships n)"
      by (rule traverse_option_map [OF ms]) (rule reset_periods_unbilled)
    then show "unbilled_node n' = unbilled_node n" by (simp add: n' unbilled_node_def)
  qed
  then show ?thesis unfolding st' by (rule unbilled_stI)
qed

section \<open>Every operation is a transition\<close>

lemma keep_step [steps]: "transition env s s"
  by (rule transition.stay)

text \<open>Early returns and \<open>let\<close>s in front of a transaction.\<close>

lemmas step_splits = if_split sum.split prod.split option.split

lemma mutateProxyNode_transition [steps]: "clean (call_faults c) \<Longrightarrow> transition env s (snd (mutateProxyNode env c nid f s))"
  by (simp add: mutateProxyNode_def mutate_transition)

lemma mutateUserProxyNode_transition [steps]:
  "clean (call_faults c) \<Longrightarrow> transition env s (snd (mutateUserProxyNode env c nid f s))"
  by (simp add: mutateUserProxyNode_def mutateUser_transition)

lemma updateSubscriptionPolicy_transition [steps]:
  "clean (call_faults c) \<Longrightarrow> transition env s (snd (updateSubscriptionPolicy env c f s))"
  by (simp add: updateSubscriptionPolicy_def mutateUser_transition)

lemma install_transition [steps]:
  assumes "clean (call_faults c)"
  shows "transition env s (snd (install env c next s))"
  using assms transition.commit [OF assms] by (simp add: install_def keep_step split: sum.split)

lemma addLink_transition [steps]:
  "clean (call_faults c) \<Longrightarrow> transition env s (snd (addLink env c nid input rule fallback src s))"
  by (simp add: addLink_def Let_def steps split: sum.split prod.split)

lemma AddLink_transition [steps]: "clean (call_faults c) \<Longrightarrow> transition env s (snd (AddLink env c nid input s))"
  using addLink_transition [of c env s nid input None False "call_entropy c"]
  by (auto simp: AddLink_def split: sum.split prod.split)

lemma AddBranch_transition [steps]: "clean (call_faults c) \<Longrightarrow> transition env s (snd (AddBranch env c nid input s))"
  by (simp add: AddBranch_def Let_def steps split: sum.split prod.split)

lemma SetAdministratorProxyAccess_transition [steps]:
  assumes "clean (call_faults c)"
  shows "transition env s (snd (SetAdministratorProxyAccess env c enabled s))"
proof (cases "st_AdministratorProxyAccessEnabled (sto_state s) = enabled")
  case True
  then show ?thesis by (simp add: SetAdministratorProxyAccess_def keep_step)
next
  case False
  let ?r = "if enabled then map_sum id fst (ensureSystemAdministrator (sto_state s) (call_now c) (call_entropy c))
      else ok (removeSystemAdministrator (sto_state s))"
  show ?thesis
  proof (cases ?r)
    case (Inl e)
    then show ?thesis using False unfolding SetAdministratorProxyAccess_def by (simp only: Inl if_False sum.case snd_conv keep_step)
  next
    case (Inr n)
    let ?next = "n\<lparr>st_ProxyNodes := map (\<lambda>m. m\<lparr>pn_UpdatedAt := call_now c\<rparr>) (st_ProxyNodes n),
      st_AdministratorProxyAccessEnabled := enabled, st_UserRevision := st_UserRevision n + 1\<rparr>"
    have "snd (SetAdministratorProxyAccess env c enabled s) =
        (case validateStoredState env ?next of Inl e \<Rightarrow> s
         | Inr _ \<Rightarrow> snd (persistStateAndAccountingLocked (call_faults c) ?next (normalizeBuild (sto_build s) (call_build c)) s))"
      using False unfolding SetAdministratorProxyAccess_def Inr
      by (simp add: Let_def split: sum.split prod.split)
    then show ?thesis using transition.commit [OF assms] by (simp add: keep_step split: sum.split)
  qed
qed

text \<open>The billing operations.\<close>

lemma mutateBilling_step:
  assumes "clean (call_faults c)"
    and "\<And>next changed. f (sto_state s) = Inr (next, changed) \<Longrightarrow> unbilled next = unbilled (sto_state s)"
  shows "transition env s (snd (mutateBilling env c f s))"
  unfolding mutateBilling_def
  by (rule mutateBilling_transition [OF assms(1)]) (use assms(2) in \<open>auto simp: bindE_Inr_iff\<close>)

lemma RecordAccountingFailure_transition [steps]:
  "clean (call_faults c) \<Longrightarrow> transition env s (snd (RecordAccountingFailure env c agent reason occurred s))"
  unfolding RecordAccountingFailure_def Let_def
  by (auto simp: keep_step intro!: mutateBilling_step split: if_splits)

lemma ClearAccountingFailures_transition [steps]:
  "clean (call_faults c) \<Longrightarrow> transition env s (snd (ClearAccountingFailures env c s))"
  unfolding ClearAccountingFailures_def by (auto intro!: mutateBilling_step)

lemma unbilled_set_membership:
  assumes "unbilled_membership m = unbilled_membership (pn_Memberships (st_ProxyNodes st ! i) ! j)" "i < length (st_ProxyNodes st)"
  shows "unbilled (update_node i (\<lambda>n. n\<lparr>pn_Memberships := (pn_Memberships n)[j := m]\<rparr>) st) = unbilled st"
proof -
  let ?f = "\<lambda>n. n\<lparr>pn_Memberships := (pn_Memberships n)[j := m]\<rparr>"
  have "map unbilled_node ((st_ProxyNodes st)[i := ?f (st_ProxyNodes st ! i)]) = map unbilled_node (st_ProxyNodes st)"
    using assms by (simp add: map_update unbilled_node_def list_update_same_conv)
      (metis (no_types, lifting) list_update_id map_update proxy_node.surjective proxy_node.update_convs(9) unbilled_node_def length_map nth_map)
  then show ?thesis using assms(2) unfolding update_node_def update_at_def by (intro unbilled_stI) simp
qed

lemma ResetMembershipTraffic_transition [steps]:
  "clean (call_faults c) \<Longrightarrow> transition env s (snd (ResetMembershipTraffic env c nid uid s))"
  unfolding ResetMembershipTraffic_def
proof (cases "uid = SystemAdministratorUserID", simp add: keep_step, simp only: if_False, rule mutateBilling_step)
  fix "next" changed
  let ?st = "sto_state s"
  assume "(case index_func (\<lambda>n. pn_ID n = nid) (st_ProxyNodes ?st) of None \<Rightarrow> fail ErrNotFound
     | Some i \<Rightarrow> (case membershipForUser (st_ProxyNodes ?st ! i) uid of None \<Rightarrow> fail ErrNotFound
       | Some j \<Rightarrow> let m = pn_Memberships (st_ProxyNodes ?st ! i) ! j;
           m' = recomputeMembershipStatus (call_now c) (m\<lparr>mem_UsedBytes := 0\<rparr>)
         in ok (update_node i (\<lambda>n. n\<lparr>pn_Memberships := (pn_Memberships n)[j := m']\<rparr>) ?st,
                mem_DisabledReason m \<noteq> mem_DisabledReason m'))) = ok (next, changed)"
  then obtain i j where i: "index_func (\<lambda>n. pn_ID n = nid) (st_ProxyNodes ?st) = Some i"
    and n: "next = update_node i (\<lambda>n. n\<lparr>pn_Memberships := (pn_Memberships n)[j :=
      recomputeMembershipStatus (call_now c) ((pn_Memberships (st_ProxyNodes ?st ! i) ! j)\<lparr>mem_UsedBytes := 0\<rparr>)]\<rparr>) ?st"
    by (auto simp: Let_def split: option.splits)
  have "unbilled_membership (m\<lparr>mem_UsedBytes := 0\<rparr>) = unbilled_membership m" for m
    by (simp add: unbilled_membership_def)
  then show "unbilled next = unbilled ?st" unfolding n using index_func_SomeD [OF i] by (intro unbilled_set_membership) auto
qed

text \<open>Both report operations run their loop over a state whose observations have been filtered.\<close>

lemma report_unbilled:
  assumes "\<And>x acc. unbilled (fst (step x acc)) = unbilled (fst acc)"
    and "(let st = st\<lparr>st_TrafficObservations := obs\<rparr>; (st, bytes, changed) = fold step users (st, [], False)
      in ok (st, changed, d bytes)) = ok (next, ch, daily)"
  shows "unbilled next = unbilled st"
proof -
  obtain t b c where f: "fold step users (st\<lparr>st_TrafficObservations := obs\<rparr>, [], False) = (t, b, c)"
    by (metis prod_cases3)
  have "next = t" using assms(2) f by simp
  then show ?thesis
    using unbilled_fold [of step users "(st\<lparr>st_TrafficObservations := obs\<rparr>, [], False)"] assms(1) f by simp
qed

lemma apply_deltas_unbilled:
  "apply_deltas digest agent observed users st = Inr (next, changed, daily) \<Longrightarrow> unbilled next = unbilled st"
  unfolding apply_deltas_def bindE_Inr_iff
  by (elim exE conjE) (erule report_unbilled [rotated], rule unbilled_delta_step)

lemma apply_counters_unbilled:
  "apply_counters env digest agent epoch observed users st = Inr (next, changed, daily) \<Longrightarrow> unbilled next = unbilled st"
  unfolding apply_counters_def bindE_Inr_iff Let_def [of "set (map (\<lambda>u. (ut_InboundPath u, ut_Username u)) users)"]
  by (elim exE conjE) (erule report_unbilled [rotated], rule unbilled_report_step)

lemma ApplyTrafficDeltaReport_transition [steps]:
  "clean (call_faults c) \<Longrightarrow> transition env s (snd (ApplyTrafficDeltaReport env digest c agent observed users s))"
  unfolding ApplyTrafficDeltaReport_def Let_def
  using mutateBilling_transition [where f = "apply_deltas digest (trim_space agent) observed users"] apply_deltas_unbilled
  by (simp add: keep_step)

lemma ApplyTrafficReport_transition [steps]:
  "clean (call_faults c) \<Longrightarrow> transition env s (snd (ApplyTrafficReport env digest c agent epoch observed users s))"
  unfolding ApplyTrafficReport_def Let_def
  using mutateBilling_transition [where f = "apply_counters env digest (trim_space agent) (trim_space epoch) observed users"]
    apply_counters_unbilled
  by (simp add: keep_step)

lemma advanceBilling_transition:
  assumes flt: "clean (call_faults c)" and run: "advanceBilling env c now reset_traffic expire s = Some (r, s')"
  shows "transition env s s'"
proof -
  let ?st = "sto_state s"
  let ?changed = "expire \<and> list_ex (\<lambda>n. list_ex (expired now) (pn_Memberships n)) (st_ProxyNodes ?st)"
  let ?st1 = "if expire then expire_memberships now ?st else ?st"
  let ?reset = "if reset_traffic then reset_all_periods (billingDate now) ?st1 (False, ?changed) else Some (?st1, False, ?changed)"
  obtain next0 accounting authority where reset: "?reset = Some (next0, accounting, authority)"
    using run by (auto simp: advanceBilling_def Let_def)
  define nx where "nx = (if authority then next0\<lparr>st_UserRevision := st_UserRevision next0 + 1\<rparr> else next0)"
  have eq: "(r, s') = (if \<not> ?changed \<and> \<not> accounting then (ok False, s)
      else case validateStoredState env nx of Inl e \<Rightarrow> (Inl e, s)
      | Inr _ \<Rightarrow> if ?changed then
          (case persistStateAndAccountingLocked (call_faults c) nx (normalizeBuild (sto_build s) (call_build c)) s of
             (Inl e, s') \<Rightarrow> (Inl e, s') | (Inr _, s') \<Rightarrow> (Inr authority, s'))
        else if \<not> sto_open s then (fail (ErrOther ''accounting database is unavailable''), s)
        else case flt_ledger (call_faults c) of Inl e \<Rightarrow> (Inl e, s)
          | Inr _ \<Rightarrow> (case flt_ledger_secure (call_faults c) of
                 Inl e \<Rightarrow> (Inl e, s\<lparr>sto_ledger := persistChanges ?st nx None (sto_ledger s)\<rparr>)
               | Inr _ \<Rightarrow> (Inr authority, s\<lparr>sto_ledger := persistChanges ?st nx None (sto_ledger s), sto_state := nx\<rparr>)))"
    using run reset unfolding advanceBilling_def Let_def nx_def by simp
  show ?thesis
  proof (cases "validateStoredState env nx")
    case (Inl e)
    then show ?thesis using eq by (auto simp: keep_step split: if_splits)
  next
    case (Inr u)
    then have valid: "validateStoredState env nx = Inr ()" by simp
    show ?thesis
    proof (cases ?changed)
      case True
      then have "s' = snd (persistStateAndAccountingLocked (call_faults c) nx (normalizeBuild (sto_build s) (call_build c)) s)"
        using eq valid by (simp split: sum.splits prod.splits)
      then show ?thesis using transition.commit [OF flt valid] by simp
    next
      case False
      have id: "map (\<lambda>n. n\<lparr>pn_Memberships := filter (\<lambda>m. \<not> expired now m) (pn_Memberships n)\<rparr>) ns = ns"
        if "\<not> list_ex (\<lambda>n. list_ex (expired now) (pn_Memberships n)) ns" for ns :: "proxy_node list"
        using that by (intro map_idI) (auto simp: list_ex_iff intro!: proxy_node.equality filter_True)
      then have same: "?st1 = ?st" using False by (auto simp: expire_memberships_def)
      have "unbilled next0 = unbilled ?st"
        using reset reset_all_periods_unbilled unfolding same by (auto split: if_splits)
      then have "unbilled nx = unbilled ?st" by (simp add: nx_def)
      from transition.charge_ledger [OF valid this] show ?thesis
        using eq False valid flt by (auto simp: keep_step clean_def split: if_splits sum.splits)
    qed
  qed
qed

section \<open>The other operations\<close>

text \<open>Each of these is one transaction behind some checks.\<close>

lemma user_transitions [steps]:
  assumes "clean (call_faults c)"
  shows
    "transition env s (snd (CreateUser env c a1 s))"
    "transition env s (snd (RenameUser env c a2 b2 s))"
    "transition env s (snd (DeleteUser env c a3 s))"
    "transition env s (snd (AddMembershipWithPlan env c a4 b4 c4 s))"
    "transition env s (snd (AddMembership env c a5 b5 s))"
    "transition env s (snd (RemoveMembership env c a6 b6 s))"
    "transition env s (snd (ResetMembershipCredential env c a7 b7 s))"
    "transition env s (snd (ResetUserCredentials env c a8 s))"
  using assms
  by (simp_all add: CreateUser_def RenameUser_def DeleteUser_def AddMembershipWithPlan_def AddMembership_def RemoveMembership_def ResetMembershipCredential_def ResetUserCredentials_def
    Let_def steps split: sum.split prod.split)

lemma subscription_transitions [steps]:
  assumes "clean (call_faults c)"
  shows
    "transition env s (snd (UpdateMembershipPlan env c a9 b9 c9 s))"
    "transition env s (snd (ExtendMembershipSubscription env c a10 b10 c10 d10 s))"
    "transition env s (snd (ExtendProxyNodeSubscriptions env c a11 b11 c11 d11 s))"
    "transition env s (snd (SetProxyNodeSubscriptionAddressMode env c a12 b12 s))"
    "transition env s (snd (RotateUserSubscription env c a13 s))"
    "transition env s (snd (ResetUserSubscriptionAndCredentials env c a14 s))"
    "transition env s (snd (RevokeUserSubscription env c a15 s))"
    "transition env s (snd (SetSubscriptionDefault env c a16 s))"
    "transition env s (snd (AddSubscriptionRule env c a17 s))"
    "transition env s (snd (UpdateSubscriptionRule env c a18 b18 s))"
    "transition env s (snd (DeleteSubscriptionRule env c a19 s))"
    "transition env s (snd (MoveSubscriptionRule env c a20 b20 s))"
    "transition env s (snd (ReorderSubscriptionRules env c a21 s))"
  using assms
  by (simp_all add: UpdateMembershipPlan_def ExtendMembershipSubscription_def ExtendProxyNodeSubscriptions_def SetProxyNodeSubscriptionAddressMode_def RotateUserSubscription_def ResetUserSubscriptionAndCredentials_def RevokeUserSubscription_def SetSubscriptionDefault_def AddSubscriptionRule_def UpdateSubscriptionRule_def DeleteSubscriptionRule_def MoveSubscriptionRule_def ReorderSubscriptionRules_def
    Let_def steps split: sum.split prod.split)

lemma branch_transitions [steps]:
  assumes "clean (call_faults c)"
  shows
    "transition env s (snd (CreateProxyNode env c a22 s))"
    "transition env s (snd (RenameProxyNode env c a23 b23 s))"
    "transition env s (snd (DeleteProxyNode env c a24 s))"
    "transition env s (snd (UpdateEntrance env c a25 b25 s))"
    "transition env s (snd (AddBlockBranch env c a26 b26 s))"
    "transition env s (snd (UpdateLink env c a27 b27 c27 s))"
    "transition env s (snd (MoveHop env c a28 b28 c28 s))"
    "transition env s (snd (UpdateHop env c a29 b29 c29 d29 s))"
    "transition env s (snd (ReplaceLinkDestination env c a30 b30 c30 d30 e30 s))"
  using assms
  by (simp_all add: CreateProxyNode_def RenameProxyNode_def DeleteProxyNode_def UpdateEntrance_def AddBlockBranch_def UpdateLink_def MoveHop_def UpdateHop_def ReplaceLinkDestination_def
    Let_def steps split: sum.split prod.split)

lemma rule_transitions [steps]:
  assumes "clean (call_faults c)"
  shows
    "transition env s (snd (DeleteLink env c a31 b31 s))"
    "transition env s (snd (AddRule env c a32 b32 s))"
    "transition env s (snd (UpdateRule env c a33 b33 c33 s))"
    "transition env s (snd (DeleteRule env c a34 b34 c34 s))"
    "transition env s (snd (MoveRule env c a35 b35 c35 d35 s))"
    "transition env s (snd (UpdateBlockBranch env c a36 b36 c36 s))"
    "transition env s (snd (DeleteBlockBranch env c a37 b37 s))"
    "transition env s (snd (MoveBlockBranch env c a38 b38 c38 s))"
    "transition env s (snd (ReorderRules env c a39 b39 c39 s))"
  using assms
  by (simp_all add: DeleteLink_def AddRule_def UpdateRule_def DeleteRule_def MoveRule_def UpdateBlockBranch_def DeleteBlockBranch_def MoveBlockBranch_def ReorderRules_def
    Let_def steps split: sum.split prod.split)

lemma topology_transitions [steps]:
  assumes "clean (call_faults c)"
  shows
    "transition env s (snd (MoveLink env c a40 b40 c40 s))"
    "transition env s (snd (SetLinkFallback env c a41 b41 c41 s))"
    "transition env s (snd (SetFinal env c a42 b42 c42 s))"
    "transition env s (snd (UpsertRuleSet env c a43 b43 s))"
    "transition env s (snd (DeleteRuleSet env c a44 b44 s))"
    "transition env s (snd (SetManagedAgents env c a45 s))"
    "transition env s (snd (MarkTopologyApplied env c a46 b46 s))"
    "transition env s (snd (RestoreTopology env c a47 b47 s))"
  using assms
  by (simp_all add: MoveLink_def SetLinkFallback_def SetFinal_def UpsertRuleSet_def DeleteRuleSet_def SetManagedAgents_def MarkTopologyApplied_def RestoreTopology_def
    Let_def steps split: sum.split prod.split)

section \<open>Requests\<close>

text \<open>The public operations with their arguments, by plane. \<open>None\<close> is a call that does not return.\<close>

datatype user_request =
    ReqCreateUser string
  | ReqRenameUser string string
  | ReqDeleteUser string
  | ReqAddMembershipWithPlan string string membership_plan
  | ReqAddMembership string string
  | ReqRemoveMembership string string
  | ReqResetMembershipCredential string string
  | ReqResetUserCredentials string
  | ReqUpdateMembershipPlan string string membership_plan
  | ReqExtendMembershipSubscription string string int subscription_unit
  | ReqExtendProxyNodeSubscriptions string "string list" int subscription_unit
  | ReqSetAdministratorProxyAccess bool

fun perform_user :: "environment \<Rightarrow> (listener_key \<Rightarrow> string) \<Rightarrow> call \<Rightarrow> user_request \<Rightarrow> store \<Rightarrow> store option" where
  "perform_user env digest c (ReqCreateUser a1) s = Some (snd (CreateUser env c a1 s))"
| "perform_user env digest c (ReqRenameUser a1 a2) s = Some (snd (RenameUser env c a1 a2 s))"
| "perform_user env digest c (ReqDeleteUser a1) s = Some (snd (DeleteUser env c a1 s))"
| "perform_user env digest c (ReqAddMembershipWithPlan a1 a2 a3) s = Some (snd (AddMembershipWithPlan env c a1 a2 a3 s))"
| "perform_user env digest c (ReqAddMembership a1 a2) s = Some (snd (AddMembership env c a1 a2 s))"
| "perform_user env digest c (ReqRemoveMembership a1 a2) s = Some (snd (RemoveMembership env c a1 a2 s))"
| "perform_user env digest c (ReqResetMembershipCredential a1 a2) s = Some (snd (ResetMembershipCredential env c a1 a2 s))"
| "perform_user env digest c (ReqResetUserCredentials a1) s = Some (snd (ResetUserCredentials env c a1 s))"
| "perform_user env digest c (ReqUpdateMembershipPlan a1 a2 a3) s = Some (snd (UpdateMembershipPlan env c a1 a2 a3 s))"
| "perform_user env digest c (ReqExtendMembershipSubscription a1 a2 a3 a4) s = Some (snd (ExtendMembershipSubscription env c a1 a2 a3 a4 s))"
| "perform_user env digest c (ReqExtendProxyNodeSubscriptions a1 a2 a3 a4) s = Some (snd (ExtendProxyNodeSubscriptions env c a1 a2 a3 a4 s))"
| "perform_user env digest c (ReqSetAdministratorProxyAccess a1) s = Some (snd (SetAdministratorProxyAccess env c a1 s))"

datatype subscription_request =
    ReqSetProxyNodeSubscriptionAddressMode string address_mode
  | ReqRotateUserSubscription string
  | ReqResetUserSubscriptionAndCredentials string
  | ReqRevokeUserSubscription string
  | ReqSetSubscriptionDefault subscription_action
  | ReqAddSubscriptionRule subscription_rule_input
  | ReqUpdateSubscriptionRule string subscription_rule_input
  | ReqDeleteSubscriptionRule string
  | ReqMoveSubscriptionRule string int
  | ReqReorderSubscriptionRules "string list"

fun perform_subscription :: "environment \<Rightarrow> (listener_key \<Rightarrow> string) \<Rightarrow> call \<Rightarrow> subscription_request \<Rightarrow> store \<Rightarrow> store option" where
  "perform_subscription env digest c (ReqSetProxyNodeSubscriptionAddressMode a1 a2) s = Some (snd (SetProxyNodeSubscriptionAddressMode env c a1 a2 s))"
| "perform_subscription env digest c (ReqRotateUserSubscription a1) s = Some (snd (RotateUserSubscription env c a1 s))"
| "perform_subscription env digest c (ReqResetUserSubscriptionAndCredentials a1) s = Some (snd (ResetUserSubscriptionAndCredentials env c a1 s))"
| "perform_subscription env digest c (ReqRevokeUserSubscription a1) s = Some (snd (RevokeUserSubscription env c a1 s))"
| "perform_subscription env digest c (ReqSetSubscriptionDefault a1) s = Some (snd (SetSubscriptionDefault env c a1 s))"
| "perform_subscription env digest c (ReqAddSubscriptionRule a1) s = Some (snd (AddSubscriptionRule env c a1 s))"
| "perform_subscription env digest c (ReqUpdateSubscriptionRule a1 a2) s = Some (snd (UpdateSubscriptionRule env c a1 a2 s))"
| "perform_subscription env digest c (ReqDeleteSubscriptionRule a1) s = Some (snd (DeleteSubscriptionRule env c a1 s))"
| "perform_subscription env digest c (ReqMoveSubscriptionRule a1 a2) s = Some (snd (MoveSubscriptionRule env c a1 a2 s))"
| "perform_subscription env digest c (ReqReorderSubscriptionRules a1) s = Some (snd (ReorderSubscriptionRules env c a1 s))"

datatype branch_request =
    ReqCreateProxyNode create_proxy_node_input
  | ReqRenameProxyNode string string
  | ReqDeleteProxyNode string
  | ReqUpdateEntrance string endpoint
  | ReqAddLink string add_link_input
  | ReqAddBranch string add_branch_input
  | ReqAddBlockBranch string add_block_branch_input
  | ReqUpdateLink string string endpoint
  | ReqMoveHop string string string
  | ReqUpdateHop string string string string
  | ReqReplaceLinkDestination string string string endpoint target
  | ReqDeleteLink string string

fun perform_branch :: "environment \<Rightarrow> (listener_key \<Rightarrow> string) \<Rightarrow> call \<Rightarrow> branch_request \<Rightarrow> store \<Rightarrow> store option" where
  "perform_branch env digest c (ReqCreateProxyNode a1) s = Some (snd (CreateProxyNode env c a1 s))"
| "perform_branch env digest c (ReqRenameProxyNode a1 a2) s = Some (snd (RenameProxyNode env c a1 a2 s))"
| "perform_branch env digest c (ReqDeleteProxyNode a1) s = Some (snd (DeleteProxyNode env c a1 s))"
| "perform_branch env digest c (ReqUpdateEntrance a1 a2) s = Some (snd (UpdateEntrance env c a1 a2 s))"
| "perform_branch env digest c (ReqAddLink a1 a2) s = Some (snd (AddLink env c a1 a2 s))"
| "perform_branch env digest c (ReqAddBranch a1 a2) s = Some (snd (AddBranch env c a1 a2 s))"
| "perform_branch env digest c (ReqAddBlockBranch a1 a2) s = Some (snd (AddBlockBranch env c a1 a2 s))"
| "perform_branch env digest c (ReqUpdateLink a1 a2 a3) s = Some (snd (UpdateLink env c a1 a2 a3 s))"
| "perform_branch env digest c (ReqMoveHop a1 a2 a3) s = Some (snd (MoveHop env c a1 a2 a3 s))"
| "perform_branch env digest c (ReqUpdateHop a1 a2 a3 a4) s = Some (snd (UpdateHop env c a1 a2 a3 a4 s))"
| "perform_branch env digest c (ReqReplaceLinkDestination a1 a2 a3 a4 a5) s = Some (snd (ReplaceLinkDestination env c a1 a2 a3 a4 a5 s))"
| "perform_branch env digest c (ReqDeleteLink a1 a2) s = Some (snd (DeleteLink env c a1 a2 s))"

datatype rule_request =
    ReqAddRule string add_rule_input
  | ReqUpdateRule string string update_rule_input
  | ReqDeleteRule string string string
  | ReqMoveRule string string string int
  | ReqUpdateBlockBranch string string update_rule_input
  | ReqDeleteBlockBranch string string
  | ReqMoveBlockBranch string string int
  | ReqReorderRules string string "string list"
  | ReqMoveLink string string int
  | ReqSetLinkFallback string string bool
  | ReqSetFinal string string target
  | ReqUpsertRuleSet string custom_rule_set
  | ReqDeleteRuleSet string string
  | ReqSetManagedAgents "string list"

fun perform_rule :: "environment \<Rightarrow> (listener_key \<Rightarrow> string) \<Rightarrow> call \<Rightarrow> rule_request \<Rightarrow> store \<Rightarrow> store option" where
  "perform_rule env digest c (ReqAddRule a1 a2) s = Some (snd (AddRule env c a1 a2 s))"
| "perform_rule env digest c (ReqUpdateRule a1 a2 a3) s = Some (snd (UpdateRule env c a1 a2 a3 s))"
| "perform_rule env digest c (ReqDeleteRule a1 a2 a3) s = Some (snd (DeleteRule env c a1 a2 a3 s))"
| "perform_rule env digest c (ReqMoveRule a1 a2 a3 a4) s = Some (snd (MoveRule env c a1 a2 a3 a4 s))"
| "perform_rule env digest c (ReqUpdateBlockBranch a1 a2 a3) s = Some (snd (UpdateBlockBranch env c a1 a2 a3 s))"
| "perform_rule env digest c (ReqDeleteBlockBranch a1 a2) s = Some (snd (DeleteBlockBranch env c a1 a2 s))"
| "perform_rule env digest c (ReqMoveBlockBranch a1 a2 a3) s = Some (snd (MoveBlockBranch env c a1 a2 a3 s))"
| "perform_rule env digest c (ReqReorderRules a1 a2 a3) s = Some (snd (ReorderRules env c a1 a2 a3 s))"
| "perform_rule env digest c (ReqMoveLink a1 a2 a3) s = Some (snd (MoveLink env c a1 a2 a3 s))"
| "perform_rule env digest c (ReqSetLinkFallback a1 a2 a3) s = Some (snd (SetLinkFallback env c a1 a2 a3 s))"
| "perform_rule env digest c (ReqSetFinal a1 a2 a3) s = Some (snd (SetFinal env c a1 a2 a3 s))"
| "perform_rule env digest c (ReqUpsertRuleSet a1 a2) s = Some (snd (UpsertRuleSet env c a1 a2 s))"
| "perform_rule env digest c (ReqDeleteRuleSet a1 a2) s = Some (snd (DeleteRuleSet env c a1 a2 s))"
| "perform_rule env digest c (ReqSetManagedAgents a1) s = Some (snd (SetManagedAgents env c a1 s))"

datatype fleet_request =
    ReqMarkTopologyApplied u64 "string list"
  | ReqRestoreTopology u64 state
  | ReqRecordAccountingFailure string string time
  | ReqClearAccountingFailures
  | ReqResetMembershipTraffic string string
  | ReqApplyTrafficDeltaReport string time "user_traffic list"
  | ReqApplyTrafficReport string string time "user_traffic list"
  | ReqAdvanceBilling time
  | ReqAdvanceSubscriptions time
  | ReqMarkReady
  | ReqClose

fun perform_fleet :: "environment \<Rightarrow> (listener_key \<Rightarrow> string) \<Rightarrow> call \<Rightarrow> fleet_request \<Rightarrow> store \<Rightarrow> store option" where
  "perform_fleet env digest c (ReqMarkTopologyApplied a1 a2) s = Some (snd (MarkTopologyApplied env c a1 a2 s))"
| "perform_fleet env digest c (ReqRestoreTopology a1 a2) s = Some (snd (RestoreTopology env c a1 a2 s))"
| "perform_fleet env digest c (ReqRecordAccountingFailure a1 a2 a3) s = Some (snd (RecordAccountingFailure env c a1 a2 a3 s))"
| "perform_fleet env digest c ReqClearAccountingFailures s = Some (snd (ClearAccountingFailures env c s))"
| "perform_fleet env digest c (ReqResetMembershipTraffic a1 a2) s = Some (snd (ResetMembershipTraffic env c a1 a2 s))"
| "perform_fleet env digest c (ReqApplyTrafficDeltaReport a1 a2 a3) s = Some (snd (ApplyTrafficDeltaReport env digest c a1 a2 a3 s))"
| "perform_fleet env digest c (ReqApplyTrafficReport a1 a2 a3 a4) s = Some (snd (ApplyTrafficReport env digest c a1 a2 a3 a4 s))"
| "perform_fleet env digest c (ReqAdvanceBilling a1) s = map_option snd (AdvanceBilling env c a1 s)"
| "perform_fleet env digest c (ReqAdvanceSubscriptions a1) s = map_option snd (advanceSubscriptions env c a1 s)"
| "perform_fleet env digest c ReqMarkReady s = Some (snd (MarkReady c s))"
| "perform_fleet env digest c ReqClose s = Some (Close s)"

datatype request =
    UserRequest user_request
  | SubscriptionRequest subscription_request
  | BranchRequest branch_request
  | RuleRequest rule_request
  | FleetRequest fleet_request

fun perform :: "environment \<Rightarrow> (listener_key \<Rightarrow> string) \<Rightarrow> call \<Rightarrow> request \<Rightarrow> store \<Rightarrow> store option" where
  "perform env digest c (UserRequest r) s = perform_user env digest c r s"
| "perform env digest c (SubscriptionRequest r) s = perform_subscription env digest c r s"
| "perform env digest c (BranchRequest r) s = perform_branch env digest c r s"
| "perform env digest c (RuleRequest r) s = perform_rule env digest c r s"
| "perform env digest c (FleetRequest r) s = perform_fleet env digest c r s"

lemma perform_user_transition:
  "clean (call_faults c) \<Longrightarrow> perform_user env digest c r s = Some s' \<Longrightarrow> transition env s s'"
  by (cases r) (auto simp: steps)

lemma perform_subscription_transition:
  "clean (call_faults c) \<Longrightarrow> perform_subscription env digest c r s = Some s' \<Longrightarrow> transition env s s'"
  by (cases r) (auto simp: steps)

lemma perform_branch_transition:
  "clean (call_faults c) \<Longrightarrow> perform_branch env digest c r s = Some s' \<Longrightarrow> transition env s s'"
  by (cases r) (auto simp: steps)

lemma perform_rule_transition:
  "clean (call_faults c) \<Longrightarrow> perform_rule env digest c r s = Some s' \<Longrightarrow> transition env s s'"
  by (cases r) (auto simp: steps)

lemma perform_fleet_transition:
  "clean (call_faults c) \<Longrightarrow> perform_fleet env digest c r s = Some s' \<Longrightarrow> transition env s s'"
  by (cases r)
    (auto simp: steps AdvanceBilling_def advanceSubscriptions_def transition.shut
      intro: advanceBilling_transition)

lemma perform_transition:
  "clean (call_faults c) \<Longrightarrow> perform env digest c r s = Some s' \<Longrightarrow> transition env s s'"
  by (cases r) (simp_all add: perform_user_transition perform_subscription_transition perform_branch_transition perform_rule_transition perform_fleet_transition)

inductive reachable :: "environment \<Rightarrow> (listener_key \<Rightarrow> string) \<Rightarrow> store \<Rightarrow> store \<Rightarrow> bool"
  for env :: environment and digest :: "listener_key \<Rightarrow> string" and s0 :: store where
  start: "reachable env digest s0 s0"
| step: "reachable env digest s0 s \<Longrightarrow> clean (call_faults c) \<Longrightarrow> perform env digest c r s = Some s' \<Longrightarrow>
    reachable env digest s0 s'"

inductive_cases reachable_E: "reachable env digest s0 s"

lemma reachable_sound:
  assumes "reachable env digest s0 s" "sound env s0"
  shows "sound env s"
  using assms
  by (induction rule: reachable.induct) (auto dest: perform_transition transition_sound)

end
