(* ===== verification/Samples.thy ===== *)
theory Samples
  imports Operations
begin

text \<open>
  A small valid state on which the hypotheses of the properties are discharged: one Proxy Node
  whose entrance Hop has a conditional Link, a Fallback Link and a BLOCK branch, with one more Hop
  below the conditional Link, one End User and one Membership with a quota and an end.
\<close>

section \<open>The environment\<close>

definition sample_env :: environment where
  "sample_env = \<lparr>env_nfc = (\<lambda>s. s), env_fold = map ascii_lower,
     env_letter = (\<lambda>r. 65 \<le> r \<and> r \<le> 90 \<or> 97 \<le> r \<and> r \<le> 122), env_digit = (\<lambda>r. 48 \<le> r \<and> r \<le> 57),
     env_mark = (\<lambda>_. False), env_parse_url = (\<lambda>u. Some (''https'', u)), env_float_to_uint64 = (\<lambda>_. 0)\<rparr>"

definition sample_digest :: "listener_key \<Rightarrow> string" where
  "sample_digest k = ''00ff''"

section \<open>A Proxy Node\<close>

definition sample_now :: time where
  "sample_now = bday_start 738900"

definition sample_endpoint :: "int \<Rightarrow> endpoint" where
  "sample_endpoint port =
     \<lparr>ep_Protocol = ProtocolShadowsocks, ep_Listen = ''::'', ep_ListenPort = port, ep_Family = ''auto'',
      ep_Method = ''2022-blake3-aes-128-gcm'', ep_ServerKey = ''AAAAAAAAAAAAAAAAAAAAAA=='', ep_Multiplex = None,
      ep_TLS = \<lparr>tls_Mode = TLSModeUnset, tls_ServerName = [], tls_Email = [],
        tls_CertificatePath = [], tls_KeyPath = []\<rparr>,
      ep_UpMbps = 0, ep_DownMbps = 0, ep_ObfsType = [], ep_ObfsSecret = []\<rparr>"

definition sample_secret :: "char \<Rightarrow> string" where
  "sample_secret c = replicate 21 c @ ''A==''"

definition sample_hop :: "string \<Rightarrow> string \<Rightarrow> hop" where
  "sample_hop hid agent = \<lparr>hop_ID = hid, hop_Name = agent, hop_AgentID = agent, hop_LegacyRules = [],
     hop_Final = direct_target, hop_CreatedAt = sample_now, hop_UpdatedAt = sample_now\<rparr>"

definition hop_a :: string where "hop_a = ''hop_aaaaaaaaaaaaaaaaaaaaaaaa''"
definition hop_b :: string where "hop_b = ''hop_bbbbbbbbbbbbbbbbbbbbbbbb''"
definition hop_c :: string where "hop_c = ''hop_cccccccccccccccccccccccc''"
definition hop_d :: string where "hop_d = ''hop_dddddddddddddddddddddddd''"
definition hop_e :: string where "hop_e = ''hop_eeeeeeeeeeeeeeeeeeeeeeee''"
definition lnk_b :: string where "lnk_b = ''lnk_bbbbbbbbbbbbbbbbbbbbbbbb''"
definition lnk_c :: string where "lnk_c = ''lnk_cccccccccccccccccccccccc''"
definition lnk_d :: string where "lnk_d = ''lnk_dddddddddddddddddddddddd''"
definition lnk_e :: string where "lnk_e = ''lnk_eeeeeeeeeeeeeeeeeeeeeeee''"
definition rul_b :: string where "rul_b = ''rul_bbbbbbbbbbbbbbbbbbbbbbbb''"
definition rul_d :: string where "rul_d = ''rul_dddddddddddddddddddddddd''"
definition rul_x :: string where "rul_x = ''rul_xxxxxxxxxxxxxxxxxxxxxxxx''"
definition rul_e :: string where "rul_e = ''rul_eeeeeeeeeeeeeeeeeeeeeeee''"
definition usr_a :: string where "usr_a = ''usr_aaaaaaaaaaaaaaaaaaaaaaaa''"
definition mem_a :: string where "mem_a = ''mem_aaaaaaaaaaaaaaaaaaaaaaaa''"
definition pn_a :: string where "pn_a = ''pn_aaaaaaaaaaaaaaaaaaaaaaaa''"

lemmas sample_names = hop_a_def hop_b_def hop_c_def hop_d_def hop_e_def lnk_b_def lnk_c_def lnk_d_def lnk_e_def
  rul_b_def rul_d_def rul_x_def rul_e_def usr_a_def mem_a_def pn_a_def

definition sample_rule :: "string \<Rightarrow> int \<Rightarrow> string \<Rightarrow> rule" where
  "sample_rule rid order value = \<lparr>rul_ID = rid, rul_Order = order, rul_Match = MatchDomainSuffix,
     rul_Values = [value], rul_LegacyTarget = None\<rparr>"

definition sample_link :: "string \<Rightarrow> string \<Rightarrow> string \<Rightarrow> int \<Rightarrow> rule list \<Rightarrow> bool \<Rightarrow> int \<Rightarrow> char \<Rightarrow> link" where
  "sample_link lid parent child order rules fallback port c =
     \<lparr>lnk_ID = lid, lnk_ParentHopID = parent, lnk_ChildHopID = child, lnk_Order = order, lnk_Rules = rules,
      lnk_Fallback = fallback, lnk_Endpoint = sample_endpoint port, lnk_Credential = \<lparr>cred_Secret = sample_secret c\<rparr>,
      lnk_CreatedAt = sample_now, lnk_UpdatedAt = sample_now\<rparr>"

definition link_b :: link where
  "link_b = sample_link lnk_b hop_a hop_b 0 [sample_rule rul_b 0 ''example.com''] False 8443 (CHR ''b'')"

definition link_c :: link where
  "link_c = sample_link lnk_c hop_a hop_c 1 [] True 8444 (CHR ''c'')"

definition link_d :: link where
  "link_d = sample_link lnk_d hop_b hop_d 0 [sample_rule rul_d 0 ''example.net''] False 8445 (CHR ''d'')"

definition sample_block :: block_branch where
  "sample_block = \<lparr>blk_ParentHopID = hop_a, blk_Rule = sample_rule rul_x 1 ''example.edu'',
     blk_CreatedAt = sample_now, blk_UpdatedAt = sample_now\<rparr>"

definition sample_membership :: membership where
  "sample_membership =
     \<lparr>mem_ID = mem_a, mem_UserID = usr_a, mem_Credential = \<lparr>cred_Secret = sample_secret (CHR ''m'')\<rparr>,
      mem_PendingCredential = None, mem_MonthlyQuotaBytes = 1000, mem_UsedBytes = 10, mem_QuotaAnchorDay = 5,
      mem_QuotaPeriodStartedOn = bday_start 738880, mem_QuotaResetsAfter = bday_start 738910,
      mem_SubscriptionStartedAt = bday_start 738880, mem_SubscriptionEndsAfter = bday_start 739000,
      mem_SubscriptionValue = 120, mem_SubscriptionUnit = SubscriptionDays, mem_LegacySubscriptionMonths = 0,
      mem_DisabledReason = MembershipEnabled, mem_CreatedAt = bday_start 738880\<rparr>"

definition sample_node :: proxy_node where
  "sample_node =
     \<lparr>pn_ID = pn_a, pn_Name = ''Tokyo'', pn_SubscriptionAddressMode = SubscriptionAddressIPv4,
      pn_Entrance = \<lparr>ent_HopID = hop_a, ent_Endpoint = sample_endpoint 443\<rparr>,
      pn_Hops = [sample_hop hop_a ''alpha'', sample_hop hop_b ''beta'', sample_hop hop_c ''gamma'', sample_hop hop_d ''delta''],
      pn_Links = [link_b, link_c, link_d],
      pn_BlockBranches = [sample_block], pn_Memberships = [sample_membership], pn_RuleSets = [],
      pn_CreatedAt = sample_now, pn_UpdatedAt = sample_now\<rparr>"

section \<open>A state and a Store\<close>

definition sample_user :: user where
  "sample_user = \<lparr>usr_ID = usr_a, usr_Name = ''Alice'', usr_Role = UserRoleEndUser,
     usr_Subscription = \<lparr>us_Token = ''sub_aaaaaaaaaaaaaaaaaaaaaaaa'', us_UpdatedAt = sample_now,
       us_DefaultAction = SubscriptionActionUnset, us_Rules = [], us_Providers = []\<rparr>,
     usr_CreatedAt = sample_now, usr_UpdatedAt = sample_now\<rparr>"

definition sample_state :: state where
  "sample_state = initial_state\<lparr>st_Revision := 3, st_UserRevision := 2, st_AppliedRevision := 2,
     st_Users := [sample_user], st_ProxyNodes := [sample_node],
     st_AppliedProxyNodes := topologySnapshot [sample_node]\<rparr>"

definition sample_build :: build_info where
  "sample_build = \<lparr>bi_Component = ''master'', bi_Version = ''1'', bi_Commit = ''abc'', bi_RecordedAt = sample_now\<rparr>"

definition sample_store :: store where
  "sample_store = \<lparr>sto_state = sample_state, sto_build = sample_build,
     sto_userIndex = user_index [sample_user], sto_subscriptionIndex = subscription_index [sample_user], sto_open = True,
     sto_document = (sample_state, sample_build), sto_ledger = prepareMembershipReconciliation sample_state empty_ledger\<rparr>"

definition sample_call :: "entropy \<Rightarrow> call" where
  "sample_call src = \<lparr>call_now = sample_now, call_touch = sample_now, call_build = sample_now,
     call_entropy = src, call_faults = no_faults\<rparr>"

section \<open>The samples are valid\<close>

lemma sample_result: "\<not> isl x \<Longrightarrow> \<exists>y. x = Inr y"
  by (cases x) simp_all

lemma sample_topology: "validate_topology sample_node = Inr ()"
  by code_simp

lemma sample_topology_ok: "topology_ok sample_node"
  using sample_topology by (simp only: validate_topology_iff)

lemma sample_names_valid:
  "validID usr_a ''usr_''" "validStoredDisplayName sample_env ''Alice''"
  "normalizeDisplayName sample_env ''Alice'' = ''Alice''"
  by code_simp+

lemma sample_user_accepted:
  "validate_user sample_env ({}, Map.empty, {}) sample_user
     = Inr ({usr_a}, [displayNameKey sample_env ''Alice'' \<mapsto> UserRoleEndUser], {''sub_aaaaaaaaaaaaaaaaaaaaaaaa''})"
proof -
  have "validateUserSubscription (usr_Subscription sample_user) = Inr ()"
    "usr_CreatedAt sample_user \<noteq> 0" "usr_UpdatedAt sample_user \<noteq> 0"
    by code_simp+
  with sample_names_valid show ?thesis by (simp add: validate_user_def sample_user_def)
qed

definition sample_applied_node :: proxy_node where
  "sample_applied_node = sample_node\<lparr>pn_Memberships := [], pn_SubscriptionAddressMode := SubscriptionAddressUnset\<rparr>"

lemma sample_node_names:
  "validID pn_a ''pn_''" "validStoredDisplayName sample_env ''Tokyo''"
  "normalizeDisplayName sample_env ''Tokyo'' = ''Tokyo''"
  by code_simp+

lemma sample_proxy_nodes:
  "validateProxyNode sample_env sample_node {usr_a} = Inr ()"
  "validateProxyNode sample_env sample_applied_node {usr_a} = Inr ()"
  by code_simp+

lemma accepted_node:
  assumes "pn_ID node = pn_a" "pn_Name node = ''Tokyo''" "pn_CreatedAt node \<noteq> 0" "pn_UpdatedAt node \<noteq> 0"
    and "validateProxyNode sample_env node {usr_a} = Inr ()"
    and "\<not> isl (no_repeat (ErrInvalidState ''entity ID is reused'') {pn_a, usr_a} (node_entity_ids node))"
    and "\<not> isl (no_repeat (ErrInvalidState ''generated credential is reused'') {} (node_secrets node))"
  shows "\<not> isl (validate_state_node sample_env {usr_a} ({}, {}, {usr_a}, {}) node)"
  using assms
  by (cases "no_repeat (ErrInvalidState ''entity ID is reused'') {pn_a, usr_a} (node_entity_ids node)";
      cases "no_repeat (ErrInvalidState ''generated credential is reused'') {} (node_secrets node)")
    (simp_all add: validate_state_node_def sample_node_names)

lemma sample_nodes_accepted:
  "\<not> isl (validate_state_node sample_env {usr_a} ({}, {}, {usr_a}, {}) sample_node)"
  "\<not> isl (validate_state_node sample_env {usr_a} ({}, {}, {usr_a}, {}) sample_applied_node)"
proof -
  have "pn_ID sample_node = pn_a" "pn_Name sample_node = ''Tokyo''" "pn_ID sample_applied_node = pn_a"
    "pn_Name sample_applied_node = ''Tokyo''"
    by (simp_all add: sample_node_def sample_applied_node_def)
  moreover have "pn_CreatedAt sample_node \<noteq> 0" "pn_UpdatedAt sample_node \<noteq> 0"
    "pn_CreatedAt sample_applied_node \<noteq> 0" "pn_UpdatedAt sample_applied_node \<noteq> 0"
    by code_simp+
  moreover have
    "\<not> isl (no_repeat (ErrInvalidState ''entity ID is reused'') {pn_a, usr_a} (node_entity_ids sample_node))"
    "\<not> isl (no_repeat (ErrInvalidState ''generated credential is reused'') {} (node_secrets sample_node))"
    "\<not> isl (no_repeat (ErrInvalidState ''entity ID is reused'') {pn_a, usr_a} (node_entity_ids sample_applied_node))"
    "\<not> isl (no_repeat (ErrInvalidState ''generated credential is reused'') {} (node_secrets sample_applied_node))"
    by code_simp+
  ultimately show
    "\<not> isl (validate_state_node sample_env {usr_a} ({}, {}, {usr_a}, {}) sample_node)"
    "\<not> isl (validate_state_node sample_env {usr_a} ({}, {}, {usr_a}, {}) sample_applied_node)"
    using sample_proxy_nodes by (simp_all add: accepted_node)
qed

lemma sample_state_fields:
  "st_Users sample_state = [sample_user]" "st_ProxyNodes sample_state = [sample_node]"
  "st_AppliedProxyNodes sample_state = [sample_applied_node]" "st_ManagedAgents sample_state = []"
  "st_TrafficObservations sample_state = []" "st_AccountingFailures sample_state = []"
  "st_Revision sample_state = 3" "st_UserRevision sample_state = 2" "st_AppliedRevision sample_state = 2"
  "\<not> st_AdministratorProxyAccessEnabled sample_state"
  "st_SubscriptionPolicy sample_state = empty_subscription_policy"
  by (simp_all add: sample_state_def sample_applied_node_def topologySnapshot_def initial_state_def)

lemma accepted_core:
  assumes "st_Users st = [sample_user]" "st_ProxyNodes st = [node]" "st_ManagedAgents st = []"
    and "st_TrafficObservations st = []" "st_AccountingFailures st = []"
    and "\<not> isl (validate_state_node sample_env {usr_a} ({}, {}, {usr_a}, {}) node)"
  shows "validateStateCore sample_env st = Inr ()"
proof -
  from assms(6) obtain v where
    "validate_state_node sample_env {usr_a} ({}, {}, {usr_a}, {}) node = Inr v"
    by (cases "validate_state_node sample_env {usr_a} ({}, {}, {usr_a}, {}) node") auto
  then show ?thesis using assms(1-5) by (simp add: validateStateCore_def sample_user_accepted)
qed

lemma sample_state_valid: "validateStoredState sample_env sample_state = Inr ()"
proof -
  have "validateStateCore sample_env sample_state = Inr ()"
    by (rule accepted_core [OF _ _ _ _ _ sample_nodes_accepted(1)]) (simp_all add: sample_state_fields)
  moreover have "validateStateCore sample_env (applied_projection sample_state) = Inr ()"
    by (rule accepted_core [OF _ _ _ _ _ sample_nodes_accepted(2)])
      (simp_all add: sample_state_fields applied_projection_def initial_state_def)
  moreover have "validateSubscriptionPolicy empty_subscription_policy = Inr ()"
    by code_simp
  ultimately have "validateState sample_env sample_state = Inr ()"
    by (simp add: validateState_def sample_state_fields sample_applied_node_def require_def)
  moreover have "administrator_membership sample_node = None" "\<not> IsSystemAdministrator sample_user"
    "usr_ID sample_user \<noteq> SystemAdministratorUserID" "usr_Role sample_user \<noteq> UserRoleAdministrator"
    by code_simp+
  ultimately show ?thesis by (simp add: validateStoredState_def sample_state_fields require_def)
qed

end
