(* ===== verification/TopologyClaims.thy ===== *)
theory TopologyClaims
  imports Samples
begin

text \<open>
  The properties of the topology plane: what validation decides, what the helpers of the routing
  tree compute, and that every edit of a valid Proxy Node gives a valid Proxy Node with exactly the
  intended change. Each property with a hypothesis is applied to the sample Proxy Node, in which
  Hop a leads to b by a conditional Link and to c by the Fallback Link, and b leads to d.
\<close>

section \<open>Sample facts\<close>

definition new_hop :: hop where
  "new_hop = sample_hop hop_e ''epsilon''"

definition new_link :: link where
  "new_link = sample_link lnk_e hop_a hop_e 0 [] False 8446 (CHR ''e'')"

definition new_rule :: rule where
  "new_rule = sample_rule rul_e 0 ''example.info''"

lemma sample_links [simp]:
  "link_b \<in> set (pn_Links sample_node)" "link_d \<in> set (pn_Links sample_node)"
  "lnk_ChildHopID link_b = hop_b" "lnk_ChildHopID link_d = hop_d" "lnk_ParentHopID link_b = hop_a"
  "lnk_ParentHopID link_d = hop_b" "lnk_ID link_b = lnk_b" "lnk_ID link_d = lnk_d"
  by (simp_all add: sample_node_def link_b_def link_d_def sample_link_def)

lemma sample_hops: "hop_ids sample_node = {hop_a, hop_b, hop_c, hop_d}"
  by (simp add: hop_ids_def sample_node_def sample_hop_def)

lemma edges_shape: "map unordered_link ls = map unordered_link ls' \<Longrightarrow> edges ls = edges ls'"
proof -
  assume shape: "map unordered_link ls = map unordered_link ls'"
  have "map (\<lambda>l. (lnk_ParentHopID l, lnk_ChildHopID l)) ls = map (\<lambda>l. (lnk_ParentHopID l, lnk_ChildHopID l)) ls'"
    by (rule map_via [OF shape, where h = "\<lambda>l. (lnk_ParentHopID l, lnk_ChildHopID l)"]) (simp add: unordered_link_def)
  then show ?thesis unfolding edges_image by (metis set_map)
qed

lemma redirected_graph:
  assumes ok: "topology_ok node" and l: "l \<in> set (pn_Links node)"
  shows "hop_ids (redirected l created e cred now node) =
      insert (hop_ID created) {h \<in> hop_ids node. (lnk_ChildHopID l, h) \<notin> (edges (pn_Links node))\<^sup>*}"
    and "edges (pn_Links (redirected l created e cred now node)) = insert (lnk_ParentHopID l, hop_ID created)
        {(p, c) \<in> edges (pn_Links node). (lnk_ChildHopID l, c) \<notin> (edges (pn_Links node))\<^sup>*}"
proof -
  define R where "R = descendantHops node (lnk_ChildHopID l)"
  have R: "x \<in> R \<longleftrightarrow> (lnk_ChildHopID l, x) \<in> (edges (pn_Links node))\<^sup>*" for x
    by (simp add: R_def descendants_reachable)
  show "hop_ids (redirected l created e cred now node) =
      insert (hop_ID created) {h \<in> hop_ids node. (lnk_ChildHopID l, h) \<notin> (edges (pn_Links node))\<^sup>*}"
    by (auto simp: redirected_def remove_hops_def delete_func_def hop_ids_def Let_def R_def [symmetric] R)
  have closed: "lnk_ChildHopID m \<in> R" if "m \<in> set (pn_Links node)" "lnk_ParentHopID m \<in> R" for m
    using that descendants_closed [of node "lnk_ChildHopID l"] edges_memI [OF that(1)] unfolding R_def by blast
  have kept: "m = l \<or> \<not> touches R m \<longleftrightarrow> m = l \<or> lnk_ChildHopID m \<notin> R" if "m \<in> set (pn_Links node)" for m
    using closed [OF that] by (auto simp: touches_def)
  have "lnk_ChildHopID l \<in> R" by (simp add: R)
  with kept l show "edges (pn_Links (redirected l created e cred now node)) = insert (lnk_ParentHopID l, hop_ID created)
        {(p, c) \<in> edges (pn_Links node). (lnk_ChildHopID l, c) \<notin> (edges (pn_Links node))\<^sup>*}"
    unfolding R [symmetric]
    by (auto simp: redirected_def remove_hops_def delete_func_def Let_def R_def [symmetric] edges_image redirect_def
        image_iff split: if_splits)
qed

section \<open>Validation and the routing tree\<close>

text \<open>C1: The loops, maps and the depth-first search of the topology part of \<open>validateProxyNode\<close>
  accept a Proxy Node exactly if its Hops form a tree rooted at the entrance Hop, every Hop and Link
  is well formed, sibling Links are numbered from 0 with at most one Fallback Link, which is last,
  and the Rules of a Hop are numbered from 0.\<close>

theorem topology_validation_decides:
  "validate_topology node = Inr () \<longleftrightarrow> topology_ok node"
  by (rule validate_topology_iff)

text \<open>\<open>descendantHops\<close>, a fixpoint iteration over the Link list, returns exactly the Hops
  reachable from its argument, the Hop itself included; in a valid Proxy Node the entrance reaches
  every Hop.\<close>

theorem descendants_are_reachable_hops:
  "descendantHops node h = {x. (h, x) \<in> (edges (pn_Links node))\<^sup>*}"
  by (rule descendants_reachable)

text \<open>C2: \<open>AncestorAgentIDs\<close> returns the Agents of the Hops on the path from the entrance to a Hop,
  and only those, so the test of a new destination against it decides whether an Agent would appear
  twice on a branch.\<close>

theorem ancestor_agents_are_path:
  assumes "topology_ok node" "h \<in> hop_ids node"
  shows "AncestorAgentIDs node h =
    {hop_AgentID x | x. x \<in> set (pn_Hops node) \<and> (hop_ID x, h) \<in> (edges (pn_Links node))\<^sup>*}"
  using assms by (rule AncestorAgentIDs_path)

theorem ancestor_agents_are_path_witness:
  "AncestorAgentIDs sample_node hop_d =
    {hop_AgentID x | x. x \<in> set (pn_Hops sample_node) \<and> (hop_ID x, hop_d) \<in> (edges (pn_Links sample_node))\<^sup>*}"
  by (rule ancestor_agents_are_path [OF sample_topology_ok]) (simp add: sample_hops)

text \<open>C3: \<open>normalizeLinkOrders\<close> and \<open>normalizeRuleOrders\<close> make any Proxy Node valid that satisfies
  every check except the two numberings, and change nothing but order numbers.\<close>

theorem normalization_repairs_orders:
  assumes "topology_pre node"
  shows "topology_ok (normalizeRuleOrders (normalizeLinkOrders node))
    \<and> same_shape (normalizeRuleOrders (normalizeLinkOrders node)) node"
  using assms normalize_topology_ok same_shape_normalize by blast

definition shuffled_node :: proxy_node where
  "shuffled_node = sample_node\<lparr>pn_Links := map (\<lambda>l. l\<lparr>lnk_Order := 7\<rparr>) (pn_Links sample_node)\<rparr>"

lemma shuffled_pre: "topology_pre shuffled_node"
proof -
  have "map unordered (pn_Links shuffled_node) = map unordered (pn_Links sample_node)"
    by (simp add: shuffled_node_def unordered_def)
  then have "same_shape shuffled_node sample_node"
    by (simp add: same_shape_def) (simp add: shuffled_node_def)
  then show ?thesis using same_shape_pre sample_topology_ok topology_ok_pre by blast
qed

theorem normalization_repairs_orders_witness:
  "\<not> topology_ok shuffled_node \<and> topology_ok (normalizeRuleOrders (normalizeLinkOrders shuffled_node))"
proof -
  have "validate_topology shuffled_node \<noteq> Inr ()" by code_simp
  then show ?thesis using normalization_repairs_orders [OF shuffled_pre] by (simp add: validate_topology_iff)
qed

section \<open>Edits of one Proxy Node\<close>

text \<open>C4: \<open>DeleteLink\<close> succeeds on every Link of a valid Proxy Node and gives a valid Proxy Node
  from which exactly the Hops reachable from the Link's destination are gone, together with the
  Links into them.\<close>

theorem delete_link_removes_subtree:
  assumes "topology_ok node" "l \<in> set (pn_Links node)"
  shows "\<exists>node'. delete_link (lnk_ID l) node = Inr (node', ()) \<and> topology_ok node'
    \<and> hop_ids node' = {h \<in> hop_ids node. (lnk_ChildHopID l, h) \<notin> (edges (pn_Links node))\<^sup>*}
    \<and> edges (pn_Links node') = {(p, c) \<in> edges (pn_Links node). (lnk_ChildHopID l, c) \<notin> (edges (pn_Links node))\<^sup>*}"
proof -
  obtain node' where "delete_link (lnk_ID l) node = Inr (node', ())" "topology_ok node'"
    "hop_ids node' = {h \<in> hop_ids node. (lnk_ChildHopID l, h) \<notin> (edges (pn_Links node))\<^sup>*}"
    "edges (pn_Links node') = {(p, c) \<in> edges (pn_Links node). (lnk_ChildHopID l, c) \<notin> (edges (pn_Links node))\<^sup>*}"
    by (rule delete_link_topology_ok [OF assms])
  then show ?thesis by (intro exI conjI)
qed

theorem delete_link_removes_subtree_witness:
  "\<exists>node'. delete_link lnk_b sample_node = Inr (node', ()) \<and> topology_ok node'
    \<and> hop_ids node' = {h \<in> hop_ids sample_node. (hop_b, h) \<notin> (edges (pn_Links sample_node))\<^sup>*}"
  using delete_link_removes_subtree [OF sample_topology_ok sample_links(1)] by auto

text \<open>C5: \<open>ReplaceLinkDestination\<close> with a new Hop whose Agent is not on the path to the Link's
  parent succeeds on every Link of a valid Proxy Node: the Link keeps its place, its Rules and its
  order, the old branch below it is gone, the new Hop hangs below it, and the result is valid.\<close>

theorem replace_destination_keeps_topology:
  assumes "topology_ok node" "l \<in> set (pn_Links node)" "hop_ID created \<notin> hop_ids node"
    and "hop_AgentID created \<notin> AncestorAgentIDs node (lnk_ParentHopID l)"
    and "hop_ok created" "validateEndpoint e = Inr ()" "validateCredential e cred = Inr ()" "now \<noteq> 0"
  shows "\<exists>node'. replace_destination (lnk_ID l) created e cred now node = Inr (node', created) \<and> topology_ok node'
    \<and> hop_ids node' = insert (hop_ID created) {h \<in> hop_ids node. (lnk_ChildHopID l, h) \<notin> (edges (pn_Links node))\<^sup>*}
    \<and> edges (pn_Links node') = insert (lnk_ParentHopID l, hop_ID created)
        {(p, c) \<in> edges (pn_Links node). (lnk_ChildHopID l, c) \<notin> (edges (pn_Links node))\<^sup>*}"
proof -
  let ?node' = "normalizeRuleOrders (normalizeLinkOrders (redirected l created e cred now node))"
  from replace_destination_topology_ok [OF assms] replace_destination_result [OF assms(1,2,4)]
  have "topology_ok ?node'" by (metis Inr_inject Pair_inject)
  moreover have "hop_ids ?node' = hop_ids (redirected l created e cred now node)"
    "edges (pn_Links ?node') = edges (pn_Links (redirected l created e cred now node))"
    using same_shape_links(1,5) [OF same_shape_normalize] by blast+
  ultimately show ?thesis
    using replace_destination_result [OF assms(1,2,4)] redirected_graph [OF assms(1,2)] by simp
qed

theorem replace_destination_keeps_topology_witness:
  "\<exists>node'. replace_destination lnk_b new_hop (sample_endpoint 8446) \<lparr>cred_Secret = sample_secret (CHR ''e'')\<rparr> sample_now sample_node
      = Inr (node', new_hop) \<and> topology_ok node'"
proof -
  have new: "hop_ID new_hop \<notin> hop_ids sample_node"
    "hop_AgentID new_hop \<notin> AncestorAgentIDs sample_node (lnk_ParentHopID link_b)" "hop_ok new_hop"
    "validateEndpoint (sample_endpoint 8446) = Inr ()"
    "validateCredential (sample_endpoint 8446) \<lparr>cred_Secret = sample_secret (CHR ''e'')\<rparr> = Inr ()"
    "sample_now \<noteq> 0"
    by code_simp+
  show ?thesis
    using replace_destination_keeps_topology [OF sample_topology_ok sample_links(1) new] by auto
qed

text \<open>C6: Adding a branch to a valid Proxy Node gives a valid Proxy Node: the new Link comes after
  the conditional siblings and before the Fallback Link, which moves up, and its Rule gets the next
  free priority.\<close>

theorem add_link_keeps_topology:
  assumes "topology_ok node" "branch_ok new child rule node"
    and "add_link_to_node new child rule node = Inr (node', new', child', rule')"
  shows "topology_ok node' \<and> hop_ids node' = insert (hop_ID child) (hop_ids node)
    \<and> edges (pn_Links node') = insert (lnk_ParentHopID new, lnk_ChildHopID new) (edges (pn_Links node))"
proof -
  from assms(3) obtain order ls where place: "place_link (lnk_ParentHopID new) (pn_Links node) = (order, ls)"
    and new': "new' = new\<lparr>lnk_Order := order, lnk_Rules := (case rule of None \<Rightarrow> []
       | Some r \<Rightarrow> [r\<lparr>rul_Order := ruleCountForHop node (lnk_ParentHopID new)\<rparr>])\<rparr>"
    and node': "node' = node\<lparr>pn_Hops := pn_Hops node @ [child], pn_Links := ls @ [new']\<rparr>"
    by (rule add_link_result)
  have "map unordered_link ls = map unordered_link (pn_Links node)" by (rule place_link_keeps(1) [OF place])
  then have "edges ls = edges (pn_Links node)" by (rule edges_shape)
  then show ?thesis using add_link_topology_ok [OF assms] new'
    by (simp add: node' hop_ids_def edges_image)
qed

theorem add_link_keeps_topology_witness:
  "\<exists>node'. add_link_to_node new_link new_hop (Some new_rule) sample_node = Inr node' \<and> topology_ok (fst node')"
proof -
  have "branch_ok new_link new_hop (Some new_rule) sample_node" by code_simp
  moreover have "\<not> isl (add_link_to_node new_link new_hop (Some new_rule) sample_node)" by code_simp
  ultimately show ?thesis
    using add_link_keeps_topology [OF sample_topology_ok] sample_result by (metis prod_cases4 fst_conv)
qed

lemma unordered_members:
  assumes "map unordered ls = map unordered ls'" "l \<in> set ls"
  obtains l' where "l' \<in> set ls'" "unordered l = unordered l'"
  using assms by (metis (no_types, opaque_lifting) image_iff list.set_map)

text \<open>Making a Link the Fallback Link of its parent always succeeds on a valid Proxy Node and
  gives a valid Proxy Node in which that Link is the only Fallback Link below its parent and has no
  Rules any more.\<close>

theorem set_fallback_is_unique:
  assumes "topology_ok node" "l \<in> set (pn_Links node)"
  shows "\<exists>node'. set_link_fallback (lnk_ID l) True node = Inr (node', ()) \<and> topology_ok node'
    \<and> edges (pn_Links node') = edges (pn_Links node)
    \<and> (\<forall>m \<in> set (pn_Links node'). lnk_ParentHopID m = lnk_ParentHopID l \<longrightarrow>
         (lnk_Fallback m \<longleftrightarrow> lnk_ID m = lnk_ID l) \<and> (lnk_Fallback m \<longrightarrow> lnk_Rules m = []))"
proof -
  from assms(2) obtain i where i: "link_index (lnk_ID l) node = Inr i" using link_index_found by blast
  then obtain node' where run: "set_link_fallback (lnk_ID l) True node = Inr (node', ())" and ok: "topology_ok node'"
    by (rule set_link_fallback_topology_ok [OF assms(1)])
  have dist: "distinct (map lnk_ID (pn_Links node))" using assms(1) by (simp add: topology_ok_def)
  from link_index_Inr [OF i] have at: "i < length (pn_Links node)" "pn_Links node ! i = l"
    using same_id_same_link [OF dist _ assms(2)] by auto
  define ls where "ls = update_at i (\<lambda>m. m\<lparr>lnk_Rules := [], lnk_Fallback := True\<rparr>)
      (map (\<lambda>m. if lnk_ParentHopID m = lnk_ParentHopID l then m\<lparr>lnk_Fallback := False\<rparr> else m) (pn_Links node))"
  have "node' = normalizeRuleOrders (normalizeLinkOrders (node\<lparr>pn_Links := ls\<rparr>))"
    using run i at by (simp add: set_link_fallback_def Let_def ls_def)
  then have shape: "same_shape node' (node\<lparr>pn_Links := ls\<rparr>)" by (simp only: same_shape_normalize)
  have ls_at: "k < length ls \<Longrightarrow> ls ! k = (if k = i then l\<lparr>lnk_Rules := [], lnk_Fallback := True\<rparr>
      else if lnk_ParentHopID (pn_Links node ! k) = lnk_ParentHopID l
      then (pn_Links node ! k)\<lparr>lnk_Fallback := False\<rparr> else pn_Links node ! k)"
    and len: "length ls = length (pn_Links node)" for k
    using at by (auto simp: ls_def nth_update_at)
  have "map (\<lambda>m. (lnk_ParentHopID m, lnk_ChildHopID m)) ls = map (\<lambda>m. (lnk_ParentHopID m, lnk_ChildHopID m)) (pn_Links node)"
    by (rule nth_equalityI) (auto simp: len ls_at at)
  then have "edges ls = edges (pn_Links node)" unfolding edges_image by (metis set_map)
  moreover have "edges (pn_Links node') = edges ls" using same_shape_links(1) [OF shape] by simp
  moreover have "(lnk_Fallback m \<longleftrightarrow> lnk_ID m = lnk_ID l) \<and> (lnk_Fallback m \<longrightarrow> lnk_Rules m = [])"
    if m: "m \<in> set (pn_Links node')" "lnk_ParentHopID m = lnk_ParentHopID l" for m
  proof -
    from m(1) shape obtain m' where m': "m' \<in> set ls" "unordered m = unordered m'"
      by (auto simp: same_shape_def elim: unordered_members)
    then have same: "lnk_Fallback m = lnk_Fallback m'" "lnk_ID m = lnk_ID m'" "lnk_ParentHopID m = lnk_ParentHopID m'"
      "map unordered_rule (lnk_Rules m) = map unordered_rule (lnk_Rules m')"
      by (auto simp: unordered_def dest: arg_cong [where f = lnk_Fallback] arg_cong [where f = lnk_ID]
          arg_cong [where f = lnk_ParentHopID] arg_cong [where f = lnk_Rules])
    from m'(1) obtain k where k: "k < length ls" "m' = ls ! k" by (metis in_set_conv_nth)
    show ?thesis
    proof (cases "k = i")
      case True
      with k have "m' = l\<lparr>lnk_Rules := [], lnk_Fallback := True\<rparr>" by (simp add: ls_at)
      with same show ?thesis by simp
    next
      case False
      with k same m(2) have "\<not> lnk_Fallback m'" "lnk_ID m' = lnk_ID (pn_Links node ! k)"
        by (simp_all add: ls_at split: if_splits)
      moreover have "lnk_ID (pn_Links node ! k) \<noteq> lnk_ID l"
        using dist k(1) False at len by (auto simp: distinct_conv_nth)
      ultimately show ?thesis using same by simp
    qed
  qed
  ultimately show ?thesis using run ok by auto
qed

theorem set_fallback_is_unique_witness:
  "\<exists>node'. set_link_fallback lnk_b True sample_node = Inr (node', ()) \<and> topology_ok node'"
  using set_fallback_is_unique [OF sample_topology_ok sample_links(1)] by auto

text \<open>C7: Moving a Link one place among its siblings keeps a Proxy Node valid. It does nothing at
  the ends, it is refused if the Fallback Link would move, and otherwise it exchanges the order of
  the Link with that of its neighbour and changes no other Link.\<close>

theorem move_link_exchanges_neighbours:
  assumes "topology_ok node" "link_index lid node = Inr i" "delta = 1 \<or> delta = -1"
  shows "move_link lid delta node = Inr (node, ())
    \<or> move_link lid delta node = Inl (ErrConflict ''fallback Link must remain last'')
    \<or> (\<exists>node' j. move_link lid delta node = Inr (node', ()) \<and> topology_ok node'
        \<and> j < length (pn_Links node) \<and> lnk_Order (pn_Links node ! j) = lnk_Order (pn_Links node ! i) + delta
        \<and> lnk_ParentHopID (pn_Links node ! j) = lnk_ParentHopID (pn_Links node ! i)
        \<and> pn_Links node' = (pn_Links node)
            [i := (pn_Links node ! i)\<lparr>lnk_Order := lnk_Order (pn_Links node ! j)\<rparr>,
             j := (pn_Links node ! j)\<lparr>lnk_Order := lnk_Order (pn_Links node ! i)\<rparr>])"
proof -
  consider (edge) "move_link lid delta node = Inr (node, ())"
    | (swap) j where "j < length (pn_Links node)" "j \<noteq> i" "lnk_ParentHopID (pn_Links node ! j) = lnk_ParentHopID (pn_Links node ! i)"
       "lnk_Order (pn_Links node ! j) = lnk_Order (pn_Links node ! i) + delta"
       "move_link lid delta node =
         (if lnk_Fallback (pn_Links node ! i) \<or> lnk_Fallback (pn_Links node ! j)
          then Inl (ErrConflict ''fallback Link must remain last'')
          else Inr (node\<lparr>pn_Links := swap_orders i j (pn_Links node)\<rparr>, ()))"
    using move_link_cases [OF assms] by blast
  then show ?thesis
  proof cases
    case edge
    then show ?thesis by simp
  next
    case (swap j)
    show ?thesis
    proof (cases "lnk_Fallback (pn_Links node ! i) \<or> lnk_Fallback (pn_Links node ! j)")
      case True
      with swap show ?thesis by simp
    next
      case False
      let ?node' = "node\<lparr>pn_Links := swap_orders i j (pn_Links node)\<rparr>"
      from swap False have run: "move_link lid delta node = Inr (?node', ())" by simp
      have "topology_ok ?node'" by (rule move_link_topology_ok [OF assms(1,3) run])
      moreover have "swap_orders i j (pn_Links node) = (pn_Links node)
            [i := (pn_Links node ! i)\<lparr>lnk_Order := lnk_Order (pn_Links node ! j)\<rparr>,
             j := (pn_Links node ! j)\<lparr>lnk_Order := lnk_Order (pn_Links node ! i)\<rparr>]"
        using swap_orders_nth [of i "pn_Links node" j] swap link_index_Inr [OF assms(2)]
        by (intro nth_equalityI) (auto simp: nth_list_update)
      ultimately show ?thesis using run swap by auto
    qed
  qed
qed

theorem move_link_exchanges_neighbours_witness:
  "move_link lnk_b 1 sample_node = Inl (ErrConflict ''fallback Link must remain last'')"
proof -
  have "link_index lnk_b sample_node = Inr 0" by code_simp
  from move_link_exchanges_neighbours [OF sample_topology_ok this, of 1]
  have "isl (move_link lnk_b 1 sample_node) \<longrightarrow> ?thesis" by auto
  moreover have "isl (move_link lnk_b 1 sample_node)" by code_simp
  ultimately show ?thesis by blast
qed

text \<open>C8: \<open>ReorderRules\<close> accepts exactly the permutations of the Rules of a Hop, Link Rules and
  BLOCK Rules together, and afterwards the Rules of the Hop stand in the requested order.\<close>

theorem reorder_rules_installs_permutation:
  assumes "topology_ok node" "h \<in> hop_ids node" "distinct (rule_ids_of node h)"
  shows "((\<exists>node'. reorder_rules h ids node = Inr (node', ())) \<longleftrightarrow> mset ids = mset (rule_ids_of node h))
    \<and> (\<forall>node'. reorder_rules h ids node = Inr (node', ()) \<longrightarrow> topology_ok node' \<and> rule_ids_of node' h = ids)"
  using reorder_rules_result [OF assms] by blast

theorem reorder_rules_installs_permutation_witness:
  "\<exists>node'. reorder_rules hop_a [rul_x, rul_b] sample_node = Inr (node', ()) \<and> rule_ids_of node' hop_a = [rul_x, rul_b]"
proof -
  have ids: "rule_ids_of sample_node hop_a = [rul_b, rul_x]" by code_simp
  then have "distinct (rule_ids_of sample_node hop_a)" by (simp add: rul_b_def rul_x_def)
  then show ?thesis
    using reorder_rules_installs_permutation [OF sample_topology_ok, of hop_a "[rul_x, rul_b]"] ids
    by (auto simp: sample_hops add_mset_commute)
qed

text \<open>Deleting a conditional Rule or a BLOCK branch and moving a Rule keep a Proxy Node valid;
  so does changing the match of a Rule to one that passes \<open>validateRule\<close>.\<close>

theorem rule_edits_keep_topology:
  assumes "topology_ok node"
  shows "(delete_rule lid rid node = Inr (node', ()) \<longrightarrow> topology_ok node')
    \<and> (delete_block rid node = Inr (node', ()) \<longrightarrow> topology_ok node')
    \<and> topology_ok (move_ordered rid parent delta node)
    \<and> (now \<noteq> 0 \<longrightarrow> validateRule (bare_rule (uri_Match input) vals) = Inr () \<longrightarrow>
      update_rule_in_node rid input vals now node = Inr (node', ()) \<longrightarrow> topology_ok node')"
proof (intro conjI impI)
  show "topology_ok node'" if "delete_rule lid rid node = Inr (node', ())"
    by (rule delete_rule_topology_ok [OF assms that])
  show "topology_ok node'" if "delete_block rid node = Inr (node', ())"
    by (rule delete_block_topology_ok [OF assms that])
  show "topology_ok (move_ordered rid parent delta node)" by (rule move_ordered_topology_ok [OF assms])
  show "topology_ok node'" if "now \<noteq> 0" "validateRule (bare_rule (uri_Match input) vals) = Inr ()"
    "update_rule_in_node rid input vals now node = Inr (node', ())"
    by (rule update_rule_topology_ok [OF assms that])
qed

theorem rule_edits_keep_topology_witness:
  "\<exists>node'. delete_block rul_x sample_node = Inr (node', ()) \<and> topology_ok node'"
proof -
  have "\<not> isl (delete_block rul_x sample_node)" by code_simp
  then obtain node' where "delete_block rul_x sample_node = Inr (node', ())"
    using sample_result by fastforce
  with rule_edits_keep_topology [OF sample_topology_ok] show ?thesis by blast
qed

end
