(* ===== verification/RecoveryFacts.thy ===== *)
theory RecoveryFacts
  imports Operations
begin

text \<open>
  What the invariant of the Store buys its readers: the index lookups agree with a search, every
  Membership of a valid state passed the field checks, and reading the two authorities again after
  a restart gives the Proxy Nodes that were in memory with their statuses recomputed.
\<close>

section \<open>Memberships of a valid state\<close>

lemma foldE_validate_membership:
  "foldE (validate_membership e users) acc ms = Inr x \<Longrightarrow> m \<in> set ms \<Longrightarrow>
     membership_fields m = Inr () \<and> mem_UserID m \<in> users"
proof (induction ms arbitrary: acc)
  case Nil
  then show ?case by simp
next
  case (Cons a ms)
  from Cons.prems(1) obtain acc' where step: "validate_membership e users acc a = Inr acc'"
    and rest: "foldE (validate_membership e users) acc' ms = Inr x"
    by (auto simp: bindE_Inr_iff)
  show ?case
  proof (cases "m \<in> set ms")
    case True
    then show ?thesis using Cons.IH [OF rest] by blast
  next
    case False
    then have "m = a" using Cons.prems(2) by simp
    with step show ?thesis
      by (cases acc) (auto simp: validate_membership_def bindE_Inr_iff split: if_splits)
  qed
qed

lemma valid_membership:
  assumes "validateStoredState env st = Inr ()" "m \<in> set (all_memberships st)"
  shows "membership_fields m = Inr ()" "mem_UserID m \<in> set (user_ids_of st)"
proof -
  from assms(2) obtain n where n: "n \<in> set (st_ProxyNodes st)" "m \<in> set (pn_Memberships n)"
    by (auto simp: all_memberships_def)
  with validateStoredState_ok [OF assms(1)] have "validateProxyNode env n (set (user_ids_of st)) = Inr ()"
    by (simp add: state_ok_def)
  then obtain x where "foldE (validate_membership (ent_Endpoint (pn_Entrance n)) (set (user_ids_of st))) ({}, {}, {})
      (pn_Memberships n) = Inr x"
    by (auto simp: validateProxyNode_def bindE_Inr_iff)
  from foldE_validate_membership [OF this n(2)]
  show "membership_fields m = Inr ()" "mem_UserID m \<in> set (user_ids_of st)" by blast+
qed

lemma membership_fields_dates:
  assumes "membership_fields m = Inr ()"
  shows "mem_QuotaPeriodStartedOn m = billingDate (mem_QuotaPeriodStartedOn m)"
    "mem_QuotaResetsAfter m = billingDate (mem_QuotaResetsAfter m)"
    "mem_QuotaPeriodStartedOn m < mem_QuotaResetsAfter m"
    "1 \<le> mem_QuotaAnchorDay m" "mem_QuotaAnchorDay m \<le> 31"
  using assms by (auto simp: membership_fields_def split: if_splits)

section \<open>Index lookups\<close>

lemma filter_position_map:
  assumes "distinct (filter P (map f xs))"
  shows "fill_map (\<lambda>(i, x). f x) fst Map.empty (filter (\<lambda>(i, x). P (f x)) (enumerated xs)) k = Some i
    \<longleftrightarrow> i < length xs \<and> f (xs ! i) = k \<and> P k"
proof
  assume "fill_map (\<lambda>(i, x). f x) fst Map.empty (filter (\<lambda>(i, x). P (f x)) (enumerated xs)) k = Some i"
  then show "i < length xs \<and> f (xs ! i) = k \<and> P k"
    by (auto dest!: fill_map_SomeD simp: set_enumerated)
next
  assume i: "i < length xs \<and> f (xs ! i) = k \<and> P k"
  then have at: "(i, xs ! i) \<in> set (filter (\<lambda>(i, x). P (f x)) (enumerated xs))" by (auto simp: set_enumerated)
  have tagged: "map (\<lambda>(i, x). f x) (filter (\<lambda>(i, x). P (f x)) ps) = filter P (map (\<lambda>(i, x). f x) ps)" for ps
    by (induction ps) auto
  have "map (\<lambda>(i, x). f x) (filter (\<lambda>(i, x). P (f x)) (enumerated xs)) = filter P (map f xs)"
    by (simp only: tagged map_enumerated)
  with assms fill_map_distinct [OF _ at, of "\<lambda>(i, x). f x" fst Map.empty] i
  show "fill_map (\<lambda>(i, x). f x) fst Map.empty (filter (\<lambda>(i, x). P (f x)) (enumerated xs)) k = Some i" by simp
qed

lemma user_lookup:
  assumes "sound env s"
  shows "User uid s = find (\<lambda>u. usr_ID u = uid) (st_Users (sto_state s))"
proof -
  have "distinct (map usr_ID (st_Users (sto_state s)))"
    using assms validateStoredState_ok by (auto simp: sound_def state_ok_def user_ids_of_def)
  from find_position [OF this, of uid] show ?thesis
    using assms by (simp add: User_def sound_def indexed_def user_index_def)
qed

lemma find_nth_unique:
  assumes "i < length xs" "p (xs ! i)" "\<And>j. j < length xs \<Longrightarrow> p (xs ! j) \<Longrightarrow> j = i"
  shows "find p xs = Some (xs ! i)"
proof -
  have "\<not> p (xs ! j)" if "j < i" for j
  proof
    assume "p (xs ! j)"
    with that assms(1) have "j = i" by (intro assms(3)) simp_all
    with that show False by simp
  qed
  with assms(1,2) have "i < length xs \<and> p (xs ! i) \<and> xs ! i = xs ! i \<and> (\<forall>j < i. \<not> p (xs ! j))" by simp
  then show ?thesis unfolding find_Some_iff by blast
qed

lemma token_lookup:
  assumes "sound env s"
  shows "UserBySubscriptionToken token s =
    (if validID (trim_space token) ''sub_''
     then find (\<lambda>u. us_Token (usr_Subscription u) = trim_space token) (st_Users (sto_state s)) else None)"
proof (cases "validID (trim_space token) ''sub_''")
  case False
  then show ?thesis by (simp add: UserBySubscriptionToken_def)
next
  case True
  let ?t = "trim_space token" and ?us = "st_Users (sto_state s)"
  let ?tok = "\<lambda>u. us_Token (usr_Subscription u)"
  have "?t \<noteq> []" using True by (auto simp: validID_def has_prefix_def)
  have dist: "distinct (filter (\<lambda>t. t \<noteq> []) (map ?tok ?us))"
    using assms validateStoredState_ok by (auto simp: sound_def state_ok_def user_tokens_of_def)
  have index: "sto_subscriptionIndex s ?t = Some i \<longleftrightarrow> i < length ?us \<and> ?tok (?us ! i) = ?t" for i
    using assms filter_position_map [OF dist, of ?t i] \<open>?t \<noteq> []\<close>
    by (simp add: sound_def indexed_def subscription_index_def)
  show ?thesis
  proof (cases "sto_subscriptionIndex s ?t")
    case None
    then have "?t \<notin> ?tok ` set ?us" using index by (auto simp: in_set_conv_nth) metis
    with None True show ?thesis by (simp add: UserBySubscriptionToken_def find_absent)
  next
    case (Some i)
    then have at: "i < length ?us" "?tok (?us ! i) = ?t" using index by blast+
    have "find (\<lambda>u. ?tok u = ?t) ?us = Some (?us ! i)"
    proof (rule find_nth_unique [where p = "\<lambda>u. ?tok u = ?t", OF at])
      fix j
      assume "j < length ?us" "?tok (?us ! j) = ?t"
      then have "sto_subscriptionIndex s ?t = Some j" using index by blast
      with Some show "j = i" by simp
    qed
    with Some True at show ?thesis by (simp add: UserBySubscriptionToken_def)
  qed
qed

section \<open>Restart\<close>

lemma load_unbilled:
  assumes agree: "agrees st led" and m: "m \<in> set (all_memberships st)" and fields: "membership_fields m = Inr ()"
    and same: "unbilled_membership old = unbilled_membership m"
  shows "load_membership now led old = recomputeMembershipStatus now m"
proof -
  have merged: "old\<lparr>mem_UsedBytes := mem_UsedBytes m, mem_QuotaPeriodStartedOn := mem_QuotaPeriodStartedOn m,
      mem_QuotaResetsAfter := mem_QuotaResetsAfter m\<rparr> = m\<lparr>mem_DisabledReason := mem_DisabledReason old\<rparr>"
    and keys: "mem_ID old = mem_ID m"
    using same by (cases old; cases m; simp add: unbilled_membership_def)+
  have "map_of (led_usage led) (mem_ID old) = Some (membership_row m)" using agree m keys by (simp add: agrees_def)
  moreover have "from_unix (unix_seconds (mem_QuotaPeriodStartedOn m)) = mem_QuotaPeriodStartedOn m"
    "from_unix (unix_seconds (mem_QuotaResetsAfter m)) = mem_QuotaResetsAfter m"
    using membership_fields_dates(1,2) [OF fields] by (simp_all add: unix_billingDate)
  ultimately have "load_membership now led old = recomputeMembershipStatus now
      (old\<lparr>mem_UsedBytes := mem_UsedBytes m, mem_QuotaPeriodStartedOn := mem_QuotaPeriodStartedOn m,
        mem_QuotaResetsAfter := mem_QuotaResetsAfter m\<rparr>)"
    by (simp add: load_membership_def membership_row_def)
  also have "\<dots> = recomputeMembershipStatus now m" unfolding merged by (simp add: recomputeMembershipStatus_def)
  finally show ?thesis .
qed

definition recompute_statuses :: "time \<Rightarrow> proxy_node \<Rightarrow> proxy_node" where
  "recompute_statuses now n = n\<lparr>pn_Memberships := map (recomputeMembershipStatus now) (pn_Memberships n)\<rparr>"

lemma load_node:
  assumes "agrees st led" "n \<in> set (st_ProxyNodes st)" "\<forall>m \<in> set (all_memberships st). membership_fields m = Inr ()"
    and same: "unbilled_node old = unbilled_node n"
  shows "old\<lparr>pn_Memberships := map (load_membership now led) (pn_Memberships old)\<rparr> = recompute_statuses now n"
proof -
  have rest: "old\<lparr>pn_Memberships := ms\<rparr> = n\<lparr>pn_Memberships := ms\<rparr>" for ms
    using same by (cases old; cases n) (simp add: unbilled_node_def)
  have "map unbilled_membership (pn_Memberships old) = map unbilled_membership (pn_Memberships n)"
    using same by (cases old; cases n) (simp add: unbilled_node_def)
  moreover have "set (pn_Memberships n) \<subseteq> set (all_memberships st)" using assms(2) by (auto simp: all_memberships_def)
  ultimately have "map (load_membership now led) (pn_Memberships old) = map (recomputeMembershipStatus now) (pn_Memberships n)"
  proof (intro nth_equalityI)
    assume same: "map unbilled_membership (pn_Memberships old) = map unbilled_membership (pn_Memberships n)"
      and sub: "set (pn_Memberships n) \<subseteq> set (all_memberships st)"
    then have len: "length (pn_Memberships old) = length (pn_Memberships n)" by (metis length_map)
    then show "length (map (load_membership now led) (pn_Memberships old))
        = length (map (recomputeMembershipStatus now) (pn_Memberships n))" by simp
    fix i
    assume i: "i < length (map (load_membership now led) (pn_Memberships old))"
    with same len have "unbilled_membership (pn_Memberships old ! i) = unbilled_membership (pn_Memberships n ! i)"
      by (metis length_map nth_map)
    moreover have "pn_Memberships n ! i \<in> set (all_memberships st)" using sub i len by auto
    ultimately show "map (load_membership now led) (pn_Memberships old) ! i
        = map (recomputeMembershipStatus now) (pn_Memberships n) ! i"
      using load_unbilled [OF assms(1)] assms(3) i len by simp
  qed
  then show ?thesis by (simp add: rest recompute_statuses_def)
qed

end
