(* ===== verification/BillingFacts.thy ===== *)
theory BillingFacts
  imports RecoveryFacts
begin

text \<open>
  The arithmetic of billing: quotas and saturating counters, the positions a traffic report can
  charge, the catch-up of quota periods and the deadlines of terms.
\<close>

section \<open>Charging\<close>

lemma charge_used: "mem_UsedBytes (charge d m) = saturatingAdd (mem_UsedBytes m) d"
  by (simp add: charge_def Let_def)

lemma saturatingAdd_zero [simp]: "saturatingAdd a 0 = a" "saturatingAdd 0 a = a"
  by (simp_all add: saturatingAdd_def)

lemma saturatingAdd_mono: "a \<le> saturatingAdd a b"
  by (simp only: word_le_nat_alt saturatingAdd_unat) (use unsigned_less [of a, where 'a = nat] in simp)

lemma saturate_step: "min (min (a + b) M + c) M = min (a + b + c) (M :: nat)"
  by simp

definition position_ok :: "state \<Rightarrow> position \<Rightarrow> bool" where
  "position_ok st p \<longleftrightarrow> fst p < length (st_ProxyNodes st) \<and> snd p < length (pn_Memberships (st_ProxyNodes st ! fst p))"

lemma membership_at_update:
  assumes "position_ok st p" "position_ok st q"
  shows "membership_at (update_membership p f st) q = (if q = p then f (membership_at st q) else membership_at st q)"
  using assms
  by (cases p; cases q) (auto simp: membership_at_def update_membership_def position_ok_def update_node_def nth_update_at)

lemma position_ok_update [simp]: "position_ok (update_membership p f st) q = position_ok st q"
  by (cases p; cases q) (auto simp: update_membership_def position_ok_def update_node_def nth_update_at split: if_splits)

lemma charge_position_facts:
  assumes "charge_position p d dd (st, bytes, changed) = (st', bytes', changed')" "position_ok st p" "position_ok st q"
  shows "position_ok st' r = position_ok st r"
    and "membership_at st' q = (if q = p then charge d (membership_at st q) else membership_at st q)"
  using assms by (auto simp: charge_position_def Let_def membership_at_update)

section \<open>The positions of the traffic index\<close>

definition index_ok :: "state \<Rightarrow> traffic_index \<times> traffic_index \<Rightarrow> bool" where
  "index_ok st index \<longleftrightarrow>
     ran (fst index) \<subseteq> Collect (position_ok st) \<and> ran (snd index) \<subseteq> Collect (position_ok st)"

lemma find_target_ok: "index_ok st index \<Longrightarrow> find_target index path name = Some p \<Longrightarrow> position_ok st p"
  by (cases index) (auto simp: find_target_def index_ok_def intro: ranI split: option.splits)

lemma ran_update_subset: "x \<in> ran (m(k \<mapsto> v)) \<Longrightarrow> x = v \<or> x \<in> ran m"
  by (auto simp: ran_def split: if_splits)

lemma register_membership_ok:
  assumes "register_membership st path name i index j = Inr index'" "index_ok st index" "position_ok st (i, j)"
  shows "index_ok st index'"
  using assms
  by (cases index) (auto simp: register_membership_def index_ok_def Let_def split: if_splits option.splits dest!: ran_update_subset)

lemma live_index_position: "live_index st nid = Some i \<Longrightarrow> i < length (st_ProxyNodes st)"
  by (auto simp: live_index_def set_enumerated dest!: fill_map_SomeD)

lemma foldE_register:
  assumes "i < length (st_ProxyNodes st)"
  shows "foldE (register_membership st path name i) index js = Inr index' \<Longrightarrow> index_ok st index \<Longrightarrow>
     set js \<subseteq> {..<length (pn_Memberships (st_ProxyNodes st ! i))} \<Longrightarrow> index_ok st index'"
proof (induction js arbitrary: index)
  case Nil
  then show ?case by simp
next
  case (Cons j js)
  then obtain mid where "register_membership st path name i index j = Inr mid"
    "foldE (register_membership st path name i) mid js = Inr index'" by (auto simp: bindE_Inr_iff)
  moreover from this(1) have "index_ok st mid"
    by (rule register_membership_ok) (use Cons.prems assms in \<open>auto simp: position_ok_def\<close>)
  ultimately show ?case using Cons.IH Cons.prems(3) by simp
qed

lemma trafficMemberships_ok:
  assumes "trafficMemberships digest st agent = Inr index"
  shows "index_ok st index"
proof -
  have "foldE (\<lambda>acc a.
       case live_index st (pn_ID a) of
         None \<Rightarrow> ok acc
       | Some i \<Rightarrow>
           if entrance_agent a \<noteq> Some agent then ok acc
           else foldE (register_membership st
                  (''/tp-in-'' @ digest (listenerKeys agent (ent_Endpoint (pn_Entrance a)))) (pn_Name a) i)
                  acc [0..<length (pn_Memberships (st_ProxyNodes st ! i))]) acc ns = Inr index \<Longrightarrow>
      index_ok st acc \<Longrightarrow> index_ok st index" for acc ns
  proof (induction ns arbitrary: acc)
    case Nil
    then show ?case by simp
  next
    case (Cons a ns)
    from Cons.prems(1) obtain mid where step: "(case live_index st (pn_ID a) of
         None \<Rightarrow> ok acc
       | Some i \<Rightarrow>
           if entrance_agent a \<noteq> Some agent then ok acc
           else foldE (register_membership st
                  (''/tp-in-'' @ digest (listenerKeys agent (ent_Endpoint (pn_Entrance a)))) (pn_Name a) i)
                  acc [0..<length (pn_Memberships (st_ProxyNodes st ! i))]) = Inr mid"
      and rest: "foldE (\<lambda>acc a.
       case live_index st (pn_ID a) of
         None \<Rightarrow> ok acc
       | Some i \<Rightarrow>
           if entrance_agent a \<noteq> Some agent then ok acc
           else foldE (register_membership st
                  (''/tp-in-'' @ digest (listenerKeys agent (ent_Endpoint (pn_Entrance a)))) (pn_Name a) i)
                  acc [0..<length (pn_Memberships (st_ProxyNodes st ! i))]) mid ns = Inr index"
      by (auto simp: bindE_Inr_iff)
    have "index_ok st mid"
    proof (cases "live_index st (pn_ID a)")
      case None
      with step Cons.prems(2) show ?thesis by simp
    next
      case (Some i)
      with step Cons.prems(2) live_index_position [OF Some] show ?thesis
        by (auto split: if_splits intro: foldE_register)
    qed
    from Cons.IH [OF rest this] show ?case .
  qed
  from this [of "(Map.empty, Map.empty)" "st_AppliedProxyNodes st"] assms show ?thesis
    by (simp add: trafficMemberships_def index_ok_def)
qed

section \<open>A delta report adds up\<close>

definition reported_for :: "traffic_index \<times> traffic_index \<Rightarrow> position \<Rightarrow> user_traffic list \<Rightarrow> nat" where
  "reported_for index p us =
     sum_list (map (\<lambda>u. unat (saturatingAdd (ut_UplinkBytes u) (ut_DownlinkBytes u)))
       (filter (\<lambda>u. find_target index (ut_InboundPath u) (ut_Username u) = Some p) us))"

lemma index_ok_update: "index_ok (update_membership p f st) index = index_ok st index"
proof -
  have "position_ok (update_membership p f st) = position_ok st" by (rule ext) simp
  then show ?thesis by (simp add: index_ok_def)
qed

lemma delta_fold:
  "fold (delta_step index) us (st, bytes, changed) = (st', bytes', changed') \<Longrightarrow> index_ok st index \<Longrightarrow>
     position_ok st p \<Longrightarrow>
     unat (mem_UsedBytes (membership_at st' p)) =
       min (unat (mem_UsedBytes (membership_at st p)) + reported_for index p us) (2 ^ 64 - 1)"
proof (induction us arbitrary: st bytes changed)
  case Nil
  moreover have "unat (mem_UsedBytes (membership_at st p)) \<le> 2 ^ 64 - 1"
    using unsigned_less [of "mem_UsedBytes (membership_at st p)", where 'a = nat] by simp
  ultimately show ?case by (simp add: reported_for_def)
next
  case (Cons u us)
  show ?case
  proof (cases "find_target index (ut_InboundPath u) (ut_Username u)")
    case None
    then have "delta_step index u acc = acc" for acc by (simp add: delta_step_def)
    with Cons None show ?thesis by (simp add: reported_for_def)
  next
    case (Some q)
    let ?d = "saturatingAdd (ut_UplinkBytes u) (ut_DownlinkBytes u)"
    obtain st1 b1 c1 where one: "charge_position q ?d ?d (st, bytes, changed) = (st1, b1, c1)" by (metis prod_cases3)
    have st1: "st1 = update_membership q (charge ?d) st" using one by (auto simp: charge_position_def Let_def)
    have q: "position_ok st q" by (rule find_target_ok [OF Cons.prems(2) Some])
    have "delta_step index u (st, bytes, changed) = (st1, b1, c1)" using Some one by (simp add: delta_step_def Let_def)
    with Cons.prems(1) have "fold (delta_step index) us (st1, b1, c1) = (st', bytes', changed')" by simp
    from Cons.IH [OF this] Cons.prems(2,3)
    have "unat (mem_UsedBytes (membership_at st' p)) =
       min (unat (mem_UsedBytes (membership_at st1 p)) + reported_for index p us) (2 ^ 64 - 1)"
      by (simp add: st1 index_ok_update)
    moreover have "mem_UsedBytes (membership_at st1 p) =
       (if p = q then saturatingAdd (mem_UsedBytes (membership_at st p)) ?d else mem_UsedBytes (membership_at st p))"
      using q Cons.prems(3) by (simp add: st1 membership_at_update charge_used)
    ultimately show ?thesis using Some
      by (cases "p = q") (simp_all add: reported_for_def saturatingAdd_unat)
  qed
qed

section \<open>Quota periods\<close>

lemma next_period_fields [simp]:
  "mem_QuotaAnchorDay (next_period m) = mem_QuotaAnchorDay m" "mem_UsedBytes (next_period m) = 0"
  "mem_ID (next_period m) = mem_ID m" "mem_UserID (next_period m) = mem_UserID m"
  "mem_SubscriptionEndsAfter (next_period m) = mem_SubscriptionEndsAfter m"
  "mem_MonthlyQuotaBytes (next_period m) = mem_MonthlyQuotaBytes m"
  "mem_DisabledReason (next_period m) \<noteq> MembershipQuotaReached"
  by (simp_all add: next_period_def)

lemma next_period_dates:
  assumes "1 \<le> mem_QuotaAnchorDay m"
  shows "bday (mem_QuotaResetsAfter m) < bday (mem_QuotaResetsAfter (next_period m))"
    and "billingDate (mem_QuotaResetsAfter (next_period m)) = mem_QuotaResetsAfter (next_period m)"
    and "mem_QuotaResetsAfter m = bday_start n \<Longrightarrow> mem_QuotaPeriodStartedOn (next_period m) = bday_start (n + 1)"
  using assms addCalendarMonthsAnchored_gt(1) [of "mem_QuotaAnchorDay m" 1 "mem_QuotaResetsAfter m"]
  by (simp_all add: next_period_def add_date_days)

text \<open>What the catch-up loop of one Membership establishes. \<open>period_shape\<close> is kept by every turn.\<close>

definition period_shape :: "membership \<Rightarrow> bool" where
  "period_shape m \<longleftrightarrow> 1 \<le> mem_QuotaAnchorDay m \<and>
     mem_QuotaPeriodStartedOn m = billingDate (mem_QuotaPeriodStartedOn m) \<and>
     mem_QuotaResetsAfter m = billingDate (mem_QuotaResetsAfter m) \<and>
     mem_QuotaPeriodStartedOn m \<le> mem_QuotaResetsAfter m"

lemma period_shape_next:
  assumes "period_shape m"
  shows "period_shape (next_period m)"
proof -
  obtain n where n: "mem_QuotaResetsAfter m = bday_start n" using assms by (auto simp: period_shape_def billingDate_eq)
  have one: "1 \<le> mem_QuotaAnchorDay m" using assms by (simp add: period_shape_def)
  note dates = next_period_dates [OF one]
  have start: "mem_QuotaPeriodStartedOn (next_period m) = bday_start (n + 1)" by (rule dates(3) [OF n])
  have "n < bday (mem_QuotaResetsAfter (next_period m))" using dates(1) n by simp
  moreover have "mem_QuotaResetsAfter (next_period m) = bday_start (bday (mem_QuotaResetsAfter (next_period m)))"
    using dates(2) by (simp add: billingDate_eq)
  ultimately have "mem_QuotaPeriodStartedOn (next_period m) \<le> mem_QuotaResetsAfter (next_period m)"
    unfolding start by (metis bday_start_less_iff(2) zless_imp_add1_zle)
  then show ?thesis using one dates(2) start by (simp add: period_shape_def billingDate_eq)
qed

lemma reset_periods_post:
  assumes "period_shape m" "today = billingDate today"
  shows "\<exists>m' flags'. reset_periods today m flags = Some (m', flags') \<and> period_shape m' \<and> today \<le> mem_QuotaResetsAfter m' \<and>
     mem_ID m' = mem_ID m \<and> mem_UserID m' = mem_UserID m \<and> mem_SubscriptionEndsAfter m' = mem_SubscriptionEndsAfter m \<and>
     (if today \<le> mem_QuotaResetsAfter m then m' = m \<and> flags' = flags
      else fst flags' \<and> mem_UsedBytes m' = 0 \<and> mem_QuotaPeriodStartedOn m' \<le> today \<and>
        mem_DisabledReason m' \<noteq> MembershipQuotaReached)"
  using assms
proof (induction "nat (bday today + 1 - bday (mem_QuotaResetsAfter m))" arbitrary: m flags rule: less_induct)
  case less
  show ?case
  proof (cases "today \<le> mem_QuotaResetsAfter m")
    case True
    then have "reset_periods today m flags = Some (m, flags)" by (subst reset_periods.simps) simp
    with True less.prems show ?thesis by simp
  next
    case False
    let ?flags = "(True, snd flags \<or> mem_DisabledReason m = MembershipQuotaReached)"
    have run: "reset_periods today m flags = reset_periods today (next_period m) ?flags"
      using False by (subst reset_periods.simps) simp
    have one: "1 \<le> mem_QuotaAnchorDay m" using less.prems(1) by (simp add: period_shape_def)
    have "bday (mem_QuotaResetsAfter m) \<le> bday today" using False by (intro bday_mono) simp
    with next_period_dates(1) [OF one]
    have "nat (bday today + 1 - bday (mem_QuotaResetsAfter (next_period m))) < nat (bday today + 1 - bday (mem_QuotaResetsAfter m))"
      by simp
    from less.hyps [OF this period_shape_next [OF less.prems(1)] less.prems(2), of ?flags]
    obtain m' flags' where m': "reset_periods today (next_period m) ?flags = Some (m', flags')" "period_shape m'"
      "today \<le> mem_QuotaResetsAfter m'" "mem_ID m' = mem_ID m" "mem_UserID m' = mem_UserID m"
      "mem_SubscriptionEndsAfter m' = mem_SubscriptionEndsAfter m"
      "if today \<le> mem_QuotaResetsAfter (next_period m) then m' = next_period m \<and> flags' = ?flags
       else fst flags' \<and> mem_UsedBytes m' = 0 \<and> mem_QuotaPeriodStartedOn m' \<le> today \<and>
        mem_DisabledReason m' \<noteq> MembershipQuotaReached"
      by auto
    obtain n where n: "mem_QuotaResetsAfter m = bday_start n" using less.prems(1) by (auto simp: period_shape_def billingDate_eq)
    obtain k where k: "today = bday_start k" using less.prems(2) by (auto simp: billingDate_eq)
    have "mem_QuotaPeriodStartedOn (next_period m) \<le> today"
      using False unfolding next_period_dates(3) [OF one n] n k by simp
    with m' run False show ?thesis by (auto split: if_splits)
  qed
qed

section \<open>The billing clock over a whole state\<close>

lemma persist_failed:
  "persistStateAndAccountingLocked flt next build s = (Inl e, s') \<Longrightarrow>
     sto_state s' = sto_state s \<and> sto_build s' = sto_build s"
  by (auto simp: persistStateAndAccountingLocked_def persistLocked_def reconcileMemberships_def Let_def
      split: if_splits sum.splits prod.splits)

lemma persist_succeeded:
  "persistStateAndAccountingLocked flt next build s = (Inr u, s') \<Longrightarrow>
     sto_state s' = next \<and> sto_document s' = (next, build) \<and> sto_build s' = build"
  by (auto simp: persistStateAndAccountingLocked_def persistLocked_def reconcileMemberships_def Let_def adopt_def
      rebuildIndexes_def split: if_splits sum.splits prod.splits)

lemma traverse_option_all:
  assumes "\<And>x s. x \<in> set xs \<Longrightarrow> \<exists>y s'. f x s = Some (y, s') \<and> P x y \<and> (Q s' \<longleftrightarrow> Q s \<or> R x)"
  shows "\<exists>ys s'. traverse_option f xs s = Some (ys, s') \<and> list_all2 P xs ys \<and> (Q s' \<longleftrightarrow> Q s \<or> (\<exists>x \<in> set xs. R x))"
  using assms
proof (induction xs arbitrary: s)
  case Nil
  then show ?case by simp
next
  case (Cons x xs)
  from Cons.prems [of x s] obtain y s1 where x: "f x s = Some (y, s1)" "P x y" "Q s1 \<longleftrightarrow> Q s \<or> R x" by auto
  from Cons.IH [of s1] Cons.prems obtain ys s' where
    "traverse_option f xs s1 = Some (ys, s')" "list_all2 P xs ys" "Q s' \<longleftrightarrow> Q s1 \<or> (\<exists>x \<in> set xs. R x)" by auto
  with x show ?case by auto
qed

definition current :: "time \<Rightarrow> state \<Rightarrow> bool" where
  "current today st \<longleftrightarrow> (\<forall>m \<in> set (all_memberships st). today \<le> mem_QuotaResetsAfter m)"

text \<open>How a catch-up changes one Membership, and how a whole state.\<close>

definition caught_up :: "time \<Rightarrow> membership \<Rightarrow> membership \<Rightarrow> bool" where
  "caught_up today m m' \<longleftrightarrow> today \<le> mem_QuotaResetsAfter m' \<and> mem_ID m' = mem_ID m \<and> mem_UserID m' = mem_UserID m \<and>
     mem_SubscriptionEndsAfter m' = mem_SubscriptionEndsAfter m \<and>
     (if today \<le> mem_QuotaResetsAfter m then m' = m
      else mem_UsedBytes m' = 0 \<and> mem_QuotaPeriodStartedOn m' \<le> today \<and> mem_DisabledReason m' \<noteq> MembershipQuotaReached)"

definition node_caught_up :: "time \<Rightarrow> proxy_node \<Rightarrow> proxy_node \<Rightarrow> bool" where
  "node_caught_up today n n' \<longleftrightarrow> list_all2 (caught_up today) (pn_Memberships n) (pn_Memberships n') \<and>
     n' = n\<lparr>pn_Memberships := pn_Memberships n'\<rparr>"

lemma reset_periods_step:
  assumes "period_shape m" "today = billingDate today"
  shows "\<exists>m' flags'. reset_periods today m flags = Some (m', flags') \<and> caught_up today m m' \<and>
     (fst flags' \<longleftrightarrow> fst flags \<or> mem_QuotaResetsAfter m < today)"
  using reset_periods_post [OF assms, of flags] unfolding caught_up_def by (auto split: if_splits)

lemma reset_all_periods_post:
  assumes shape: "\<forall>m \<in> set (all_memberships st). period_shape m" and today: "today = billingDate today"
  shows "\<exists>nodes flags'. reset_all_periods today st flags = Some (st\<lparr>st_ProxyNodes := nodes\<rparr>, flags') \<and>
     list_all2 (node_caught_up today) (st_ProxyNodes st) nodes \<and> (fst flags' \<longleftrightarrow> fst flags \<or> \<not> current today st)"
proof -
  let ?step = "\<lambda>n flags. map_option (\<lambda>(ms, flags). (n\<lparr>pn_Memberships := ms\<rparr>, flags))
          (traverse_option (reset_periods today) (pn_Memberships n) flags)"
  have node: "\<exists>n' flags'. ?step n flags = Some (n', flags') \<and> node_caught_up today n n' \<and>
      (fst flags' \<longleftrightarrow> fst flags \<or> (\<exists>m \<in> set (pn_Memberships n). mem_QuotaResetsAfter m < today))"
    if "n \<in> set (st_ProxyNodes st)" for n flags
  proof -
    have "\<exists>ms flags'. traverse_option (reset_periods today) (pn_Memberships n) flags = Some (ms, flags') \<and>
        list_all2 (caught_up today) (pn_Memberships n) ms \<and>
        (fst flags' \<longleftrightarrow> fst flags \<or> (\<exists>m \<in> set (pn_Memberships n). mem_QuotaResetsAfter m < today))"
    proof (rule traverse_option_all)
      fix m s
      assume "m \<in> set (pn_Memberships n)"
      with that shape have "period_shape m" by (auto simp: all_memberships_def)
      from reset_periods_step [OF this today]
      show "\<exists>m' flags'. reset_periods today m s = Some (m', flags') \<and> caught_up today m m' \<and>
         (fst flags' \<longleftrightarrow> fst s \<or> mem_QuotaResetsAfter m < today)" .
    qed
    then show ?thesis by (auto simp: node_caught_up_def)
  qed
  have "\<exists>nodes flags'. traverse_option ?step (st_ProxyNodes st) flags = Some (nodes, flags') \<and>
      list_all2 (node_caught_up today) (st_ProxyNodes st) nodes \<and>
      (fst flags' \<longleftrightarrow> fst flags \<or> (\<exists>n \<in> set (st_ProxyNodes st). \<exists>m \<in> set (pn_Memberships n). mem_QuotaResetsAfter m < today))"
    by (rule traverse_option_all) (rule node)
  then show ?thesis by (auto simp: reset_all_periods_def current_def all_memberships_def not_le)
qed

lemma caught_up_nodes:
  assumes "list_all2 (node_caught_up today) ns ns'"
  shows "\<forall>n' \<in> set ns'. \<forall>m' \<in> set (pn_Memberships n'). \<exists>n \<in> set ns. \<exists>m \<in> set (pn_Memberships n). caught_up today m m'"
  using assms
proof (induction rule: list_all2_induct)
  case Nil
  then show ?case by simp
next
  case (Cons n ns n' ns')
  have "\<exists>m \<in> set (pn_Memberships n). caught_up today m m'" if "m' \<in> set (pn_Memberships n')" for m'
    using Cons.hyps(1) that by (fastforce simp: node_caught_up_def list_all2_conv_all_nth in_set_conv_nth)
  with Cons.IH show ?case by auto
qed

lemma valid_period_shape:
  assumes "validateStoredState env st = Inr ()" "m \<in> set (all_memberships st)"
  shows "period_shape m"
  using membership_fields_dates [OF valid_membership(1) [OF assms]] by (simp add: period_shape_def)

lemma expired_caught_up: "caught_up today m m' \<Longrightarrow> expired now m' = expired now m"
  by (simp add: caught_up_def expired_def)

lemma expire_memberships_mem:
  "m \<in> set (all_memberships (expire_memberships now st)) \<longleftrightarrow> m \<in> set (all_memberships st) \<and> \<not> expired now m"
  by (auto simp: expire_memberships_def all_memberships_def)

text \<open>The state \<open>advanceBilling\<close> computes when both phases run: nobody expired is left and every
  quota period contains the day.\<close>

lemma billing_result:
  assumes valid: "validateStoredState env st = Inr ()"
  obtains edited acc auth where
    "reset_all_periods (billingDate now) (expire_memberships now st) (False, b) = Some (edited, acc, auth)"
    "\<And>m. m \<in> set (all_memberships edited) \<Longrightarrow> \<not> expired now m \<and> billingDate now \<le> mem_QuotaResetsAfter m"
    "\<not> acc \<Longrightarrow> current (billingDate now) (expire_memberships now st)"
proof -
  let ?st = "expire_memberships now st" and ?today = "billingDate now"
  have "\<forall>m \<in> set (all_memberships ?st). period_shape m"
    using valid_period_shape [OF valid] by (simp add: expire_memberships_mem)
  from reset_all_periods_post [OF this, of ?today "(False, b)"] obtain nodes flags where
    run: "reset_all_periods ?today ?st (False, b) = Some (?st\<lparr>st_ProxyNodes := nodes\<rparr>, flags)"
    and post: "list_all2 (node_caught_up ?today) (st_ProxyNodes ?st) nodes" "fst flags \<longleftrightarrow> \<not> current ?today ?st"
    by auto
  show thesis
  proof (rule that [of "?st\<lparr>st_ProxyNodes := nodes\<rparr>" "fst flags" "snd flags"])
    show "reset_all_periods ?today ?st (False, b) = Some (?st\<lparr>st_ProxyNodes := nodes\<rparr>, fst flags, snd flags)"
      using run by simp
    show "\<not> fst flags \<Longrightarrow> current ?today ?st" using post(2) by simp
    fix m'
    assume "m' \<in> set (all_memberships (?st\<lparr>st_ProxyNodes := nodes\<rparr>))"
    then obtain n' where "n' \<in> set nodes" "m' \<in> set (pn_Memberships n')" by (auto simp: all_memberships_def)
    with caught_up_nodes [OF post(1)] obtain n m where
      m: "n \<in> set (st_ProxyNodes ?st)" "m \<in> set (pn_Memberships n)" "caught_up ?today m m'" by blast
    then have "m \<in> set (all_memberships ?st)" by (auto simp: all_memberships_def)
    then have "\<not> expired now m" by (simp add: expire_memberships_mem)
    with m(3) show "\<not> expired now m' \<and> ?today \<le> mem_QuotaResetsAfter m'"
      by (simp add: expired_caught_up) (simp add: caught_up_def)
  qed
qed

lemma advance_billing_post:
  assumes valid: "validateStoredState env (sto_state s) = Inr ()"
  shows "\<exists>r s'. advanceBilling env c now True True s = Some (r, s') \<and>
     (\<forall>x m. r = Inr x \<longrightarrow> m \<in> set (all_memberships (sto_state s')) \<longrightarrow>
        \<not> expired now m \<and> billingDate now \<le> mem_QuotaResetsAfter m)"
proof -
  let ?st = "sto_state s" and ?today = "billingDate now"
  define gone where "gone = list_ex (\<lambda>n. list_ex (expired now) (pn_Memberships n)) (st_ProxyNodes ?st)"
  obtain edited acc auth where run: "reset_all_periods ?today (expire_memberships now ?st) (False, gone) = Some (edited, acc, auth)"
    and post: "\<And>m. m \<in> set (all_memberships edited) \<Longrightarrow> \<not> expired now m \<and> ?today \<le> mem_QuotaResetsAfter m"
    and idle: "\<not> acc \<Longrightarrow> current ?today (expire_memberships now ?st)"
    using billing_result [OF valid, where now = now and b = gone] by metis
  let ?next = "if auth then edited\<lparr>st_UserRevision := st_UserRevision edited + 1\<rparr> else edited"
  have next_post: "\<not> expired now m \<and> ?today \<le> mem_QuotaResetsAfter m" if "m \<in> set (all_memberships ?next)" for m
    using that post [of m] by (auto simp: all_memberships_def split: if_splits)
  consider (quiet) "\<not> gone" "\<not> acc" | (work) "gone \<or> acc" by blast
  then show ?thesis
  proof cases
    case quiet
    then have "advanceBilling env c now True True s = Some (Inr False, s)"
      using run by (simp add: advanceBilling_def Let_def gone_def)
    moreover have "\<not> expired now m \<and> ?today \<le> mem_QuotaResetsAfter m" if "m \<in> set (all_memberships ?st)" for m
    proof -
      from that quiet(1) have "\<not> expired now m" by (auto simp: gone_def list_ex_iff all_memberships_def)
      with that idle [OF quiet(2)] show ?thesis by (simp add: current_def expire_memberships_mem)
    qed
    ultimately show ?thesis by blast
  next
    case work
    have "advanceBilling env c now True True s = Some (case validateStoredState env ?next of
              Inl e \<Rightarrow> (Inl e, s)
            | Inr _ \<Rightarrow>
                if gone then
                  (case persistStateAndAccountingLocked (call_faults c) ?next
                          (normalizeBuild (sto_build s) (call_build c)) s of
                     (Inl e, s') \<Rightarrow> (Inl e, s')
                   | (Inr _, s') \<Rightarrow> (Inr auth, s'))
                else if \<not> sto_open s then (fail (ErrOther ''accounting database is unavailable''), s)
                else case flt_ledger (call_faults c) of
                  Inl e \<Rightarrow> (Inl e, s)
                | Inr _ \<Rightarrow>
                    let s1 = s\<lparr>sto_ledger := persistChanges ?st ?next None (sto_ledger s)\<rparr>
                    in case flt_ledger_secure (call_faults c) of
                         Inl e \<Rightarrow> (Inl e, s1)
                       | Inr _ \<Rightarrow> (Inr auth, s1\<lparr>sto_state := ?next\<rparr>))"
      (is "_ = Some ?out") using work run by (auto simp: advanceBilling_def Let_def gone_def [symmetric])
    moreover have "sto_state (snd ?out) = ?next" if "\<not> isl (fst ?out)"
    proof (cases "validateStoredState env ?next")
      case (Inl e)
      with that show ?thesis by simp
    next
      case (Inr u)
      show ?thesis
      proof (cases gone)
        case True
        obtain r s' where p: "persistStateAndAccountingLocked (call_faults c) ?next
            (normalizeBuild (sto_build s) (call_build c)) s = (r, s')" by fastforce
        with Inr True that obtain v where "r = Inr v" by (cases r) simp_all
        with p Inr True persist_succeeded [of "call_faults c" ?next _ s v s'] show ?thesis by simp
      next
        case False
        with Inr that show ?thesis
          by (cases "sto_open s"; cases "flt_ledger (call_faults c)"; cases "flt_ledger_secure (call_faults c)") simp_all
      qed
    qed
    ultimately show ?thesis using next_post by (cases ?out) force
  qed
qed

end
