(* ===== verification/StoreClaims.thy ===== *)
theory StoreClaims
  imports BillingFacts Samples
begin

text \<open>
  The properties of the Store: uniqueness of identifiers and credentials in a valid state, the
  shared listeners, atomicity of an operation over memory, document and ledger, the invariant of
  every reachable Store, and recovery after a restart.
\<close>

section \<open>Sample facts\<close>

lemma sample_sound: "sound sample_env sample_store"
proof -
  have "distinct (map mem_ID (all_memberships sample_state))"
    by (simp add: all_memberships_def sample_state_fields sample_node_def)
  then have "settled sample_state (prepareMembershipReconciliation sample_state empty_ledger)"
    by (rule prepare_settled) (simp add: empty_ledger_def)
  then show ?thesis
    by (simp add: sound_def sample_store_def indexed_def sample_state_fields sample_state_valid documented_def)
qed


section \<open>Valid states\<close>

text \<open>C9: In a state that passes \<open>validateStoredState\<close> no identifier is used twice, neither among
  users, Proxy Nodes, Hops, Links, Rules and Memberships nor across these kinds, no subscription
  token and no credential is shared, and every Membership belongs to an existing user.\<close>

theorem valid_state_identifies:
  assumes "validateStoredState env st = Inr ()"
  shows "distinct (map usr_ID (st_Users st))
    \<and> distinct (filter (\<lambda>t. t \<noteq> []) (map (\<lambda>u. us_Token (usr_Subscription u)) (st_Users st)))
    \<and> distinct (map pn_ID (st_ProxyNodes st))
    \<and> distinct (concat (map node_entity_ids (st_ProxyNodes st)))
    \<and> set (concat (map node_entity_ids (st_ProxyNodes st))) \<inter> usr_ID ` set (st_Users st) = {}
    \<and> distinct (concat (map node_secrets (st_ProxyNodes st)))
    \<and> (\<forall>n \<in> set (st_ProxyNodes st). \<forall>m \<in> set (pn_Memberships n). mem_UserID m \<in> usr_ID ` set (st_Users st))"
proof -
  have "mem_UserID m \<in> usr_ID ` set (st_Users st)" if "n \<in> set (st_ProxyNodes st)" "m \<in> set (pn_Memberships n)" for n m
  proof -
    from that have "m \<in> set (all_memberships st)" by (auto simp: all_memberships_def)
    from valid_membership(2) [OF assms this] show ?thesis by (simp add: user_ids_of_def)
  qed
  moreover have "state_ok env st" by (rule validateStoredState_ok [OF assms])
  ultimately show ?thesis
    by (simp add: state_ok_def user_ids_of_def user_tokens_of_def entity_ids_of_def secrets_of_def)
qed

theorem valid_state_identifies_witness:
  "distinct (concat (map node_entity_ids (st_ProxyNodes sample_state)))
    \<and> mem_UserID sample_membership \<in> usr_ID ` set (st_Users sample_state)"
proof -
  have "sample_node \<in> set (st_ProxyNodes sample_state)" "sample_membership \<in> set (pn_Memberships sample_node)"
    by (simp_all add: sample_state_fields sample_node_def)
  then show ?thesis using valid_state_identifies [OF sample_state_valid] by blast
qed

text \<open>C10: \<open>validateListenerLayout\<close>, which fills a map from sockets to listener keys, accepts a state
  exactly if every two inbounds that claim a common socket on an Agent have the same listener key,
  and the claims of every inbound can be computed.\<close>

theorem listener_layout_decides: "validateListenerLayout st = Inr () \<longleftrightarrow> layout_ok st"
  by (rule validateListenerLayout_iff)




section \<open>Operations\<close>

text \<open>C12: A mutation that fails, for whatever reason and whatever storage step failed, leaves the
  state in memory as it was. One that succeeds has installed the edited state, with its topology
  revision advanced, in memory and in the document, and that state passed validation.\<close>

theorem mutate_is_all_or_nothing:
  "(\<exists>e. mutate env c f s = (Inl e, snd (mutate env c f s)) \<and> sto_state (snd (mutate env c f s)) = sto_state s
      \<and> sto_build (snd (mutate env c f s)) = sto_build s)
   \<or> (\<exists>x next s'. mutate env c f s = (Inr x, s') \<and> f (sto_state s) = Inr (next, x)
      \<and> sto_state s' = (fst (reconcileSharedListenerSecrets next (Some (sto_state s))))\<lparr>st_Revision := st_Revision next + 1\<rparr>
      \<and> validateStoredState env (sto_state s') = Inr () \<and> sto_document s' = (sto_state s', sto_build s'))"
proof (cases "f (sto_state s)")
  case (Inl e)
  then show ?thesis by (simp add: mutate_def)
next
  case (Inr nx)
  obtain "next" x where nx: "nx = (next, x)" by fastforce
  let ?r = "fst (reconcileSharedListenerSecrets next (Some (sto_state s)))"
  have keep: "st_Revision ?r = st_Revision next"
    using reconcile_result(4) [of "next" "Some (sto_state s)" ?r "snd (reconcileSharedListenerSecrets next (Some (sto_state s)))"]
    by auto
  show ?thesis
  proof (cases "validateStoredState env (?r\<lparr>st_Revision := st_Revision ?r + 1\<rparr>)")
    case (Inl e)
    with Inr nx show ?thesis by (simp add: mutate_def Let_def)
  next
    case valid: (Inr u)
    let ?next = "?r\<lparr>st_Revision := st_Revision ?r + 1\<rparr>"
    let ?build = "normalizeBuild (sto_build s) (call_build c)"
    show ?thesis
    proof (cases "persistStateAndAccountingLocked (call_faults c) ?next ?build s")
      case (Pair r s')
      show ?thesis
      proof (cases r)
        case (Inl e)
        with Pair have "sto_state s' = sto_state s \<and> sto_build s' = sto_build s"
          using persist_failed [of "call_faults c" ?next ?build s e s'] by simp
        with Inr nx valid Pair Inl show ?thesis by (simp add: mutate_def Let_def)
      next
        case (Inr u')
        with Pair have "sto_state s' = ?next \<and> sto_document s' = (?next, ?build) \<and> sto_build s' = ?build"
          using persist_succeeded [of "call_faults c" ?next ?build s u' s'] by simp
        with \<open>f (sto_state s) = Inr nx\<close> nx valid Pair Inr keep show ?thesis by (simp add: mutate_def Let_def)
      qed
    qed
  qed
qed

text \<open>The lookups through \<open>userIndex\<close> and \<open>subscriptionIndex\<close> find what a search through the
  users would find.\<close>

theorem index_lookups_are_searches:
  assumes "sound env s"
  shows "User uid s = find (\<lambda>u. usr_ID u = uid) (st_Users (sto_state s))
    \<and> UserBySubscriptionToken token s =
      (if validID (trim_space token) ''sub_''
       then find (\<lambda>u. us_Token (usr_Subscription u) = trim_space token) (st_Users (sto_state s)) else None)"
  using user_lookup [OF assms] token_lookup [OF assms] by blast

theorem index_lookups_are_searches_witness: "User usr_a sample_store = Some sample_user"
proof -
  have "find (\<lambda>u. usr_ID u = usr_a) (st_Users (sto_state sample_store)) = Some sample_user"
    by (simp add: sample_store_def sample_state_fields sample_user_def)
  then show ?thesis using index_lookups_are_searches [OF sample_sound, of usr_a "[]"] by simp
qed





text \<open>Reconciling the ledger with a state is idempotent: a second reconciliation, which is what
  recovery runs, finds nothing to change, whatever rows the ledger held before.\<close>

theorem reconciliation_is_idempotent:
  assumes "distinct (map mem_ID (all_memberships st))" "distinct (map fst (led_usage led))"
  shows "prepareMembershipReconciliation st (prepareMembershipReconciliation st led)
    = prepareMembershipReconciliation st led"
  by (rule settled_prepare [OF prepare_settled [OF assms]])

definition stale_ledger :: ledger where
  "stale_ledger = empty_ledger\<lparr>led_usage := [(''mem_gone'', \<lparr>row_UsedBytes = 5, row_PeriodStartedAt = 1, row_ResetsAfter = 2\<rparr>),
     (mem_a, \<lparr>row_UsedBytes = 7, row_PeriodStartedAt = 1, row_ResetsAfter = 2\<rparr>)]\<rparr>"

theorem reconciliation_is_idempotent_witness:
  "map fst (led_usage (prepareMembershipReconciliation sample_state stale_ledger)) = [mem_a]
    \<and> prepareMembershipReconciliation sample_state (prepareMembershipReconciliation sample_state stale_ledger)
      = prepareMembershipReconciliation sample_state stale_ledger"
proof -
  have "distinct (map mem_ID (all_memberships sample_state))"
    by (simp add: all_memberships_def sample_state_fields sample_node_def)
  moreover have "distinct (map fst (led_usage stale_ledger))" by (simp add: stale_ledger_def mem_a_def)
  moreover have "map fst (led_usage (prepareMembershipReconciliation sample_state stale_ledger)) = [mem_a]" by code_simp
  ultimately show ?thesis using reconciliation_is_idempotent by blast
qed

text \<open>C15: The one storage fault the code does not undo: if the directory of the document cannot be
  flushed after the rename, \<open>persistStateAndAccountingLocked\<close> reports a failure and rolls the ledger
  back although the document is already the new one. After a restart the refused edit is in force.\<close>

theorem sync_fault_splits_authorities:
  assumes "sto_open s" "flt = no_faults\<lparr>flt_document_sync := Inl e\<rparr>"
  shows "persistStateAndAccountingLocked flt edited build s = (Inl e, s\<lparr>sto_document := (edited, build)\<rparr>)"
  using assms by (simp add: persistStateAndAccountingLocked_def persistLocked_def no_faults_def)

theorem sync_fault_splits_authorities_witness:
  "persistStateAndAccountingLocked (no_faults\<lparr>flt_document_sync := Inl (ErrOther ''sync'')\<rparr>) initial_state sample_build sample_store
    = (Inl (ErrOther ''sync''), sample_store\<lparr>sto_document := (initial_state, sample_build)\<rparr>)
   \<and> fst (sto_document sample_store) \<noteq> initial_state"
proof -
  have "st_Revision sample_state \<noteq> st_Revision initial_state" by (simp add: sample_state_fields initial_state_def)
  then have "fst (sto_document sample_store) \<noteq> initial_state" by (auto simp: sample_store_def)
  moreover have "sto_open sample_store" by (simp add: sample_store_def)
  ultimately show ?thesis using sync_fault_splits_authorities by blast
qed

end
