(* ===== verification/TermFacts.thy ===== *)
theory TermFacts
  imports BillingFacts
begin

text \<open>
  Subscription terms, the labels by which a reported counter finds its Membership, cumulative
  counters, and the credentials the generators produce.
\<close>

section \<open>Terms\<close>

lemma duration_exact: "- (2 ^ 63) \<le> x \<Longrightarrow> x < 2 ^ 63 \<Longrightarrow> duration x = x"
  by (simp add: duration_def)

lemma term_bounds:
  assumes "validateMembershipPlan plan = Inr ()" "plan_SubscriptionValue plan > 0"
  shows "plan_SubscriptionValue plan \<le> maxSubscriptionValue (plan_SubscriptionUnit plan)"
  using assms by (auto simp: validateMembershipPlan_def split: if_splits)

lemma truncate_bounds: "truncate_second t \<le> t" "t < truncate_second t + second"
  using pos_mod_bound [of second t] pos_mod_sign [of second t] by (simp_all add: truncate_second_def)

text \<open>The value a term adds, without the wrap-around of \<open>time.Duration\<close>.\<close>

definition term_length :: "int \<Rightarrow> subscription_unit \<Rightarrow> int" where
  "term_length value unit =
     (case unit of SubscriptionMinutes \<Rightarrow> value * minute | SubscriptionHours \<Rightarrow> value * hour
      | SubscriptionDays \<Rightarrow> value * day | _ \<Rightarrow> 0)"

lemma deadline_exact:
  assumes "0 < value" "value \<le> maxSubscriptionValue unit" "unit \<noteq> SubscriptionMonths"
  shows "subscriptionDeadline now value unit = truncate_second now + term_length value unit"
    and "minute \<le> term_length value unit"
proof -
  have units: "second = 1000000000" "minute = 60 * second" "hour = 60 * minute" "day = 24 * hour"
    by (simp_all add: second_def minute_def hour_def day_def)
  show "subscriptionDeadline now value unit = truncate_second now + term_length value unit"
    "minute \<le> term_length value unit"
    using assms by (cases unit; simp add: subscriptionDeadline_def term_length_def maxSubscriptionValue_def units
      duration_exact Let_def)+
qed

lemma bday_start_second: "bday_start n mod second = 0"
  by (simp add: bday_start_def billingLocation_def day_def hour_def minute_def)

lemma le_div_second: "second * k \<le> t \<Longrightarrow> k \<le> t div second"
  by (simp add: second_def)

lemma billing_fixed_bday: "billingDate t = t \<Longrightarrow> bday_start (bday t) = t"
  by (simp add: billingDate_eq)

lemma addCalendarMonths_bday: "1 \<le> k \<Longrightarrow> bday t < bday (addCalendarMonths t k)"
  using addCalendarMonthsAnchored_gt(1) [of "day_of (bday t)" k t] day_of_bounds(1) [of "bday t"]
  by (simp add: addCalendarMonths_eq)

lemma addCalendarMonths_billing [simp]: "billingDate (addCalendarMonths t k) = addCalendarMonths t k"
  by (simp add: addCalendarMonths_eq)

lemma months_deadline:
  assumes "0 < value"
  shows "subscriptionDeadline now value SubscriptionMonths
      = bday_start (bday (addCalendarMonths (billingDate (truncate_second now)) value) + 1)"
    and "now < subscriptionDeadline now value SubscriptionMonths"
proof -
  let ?d = "addCalendarMonths (billingDate (truncate_second now)) value"
  have "subscriptionDeadline now value SubscriptionMonths = add_date billingLocation ?d 0 0 1"
    by (simp add: subscriptionDeadline_def Let_def)
  also have "\<dots> = add_date billingLocation (bday_start (bday ?d)) 0 0 1" by (simp only: billing_fixed_bday addCalendarMonths_billing)
  also have "\<dots> = bday_start (bday ?d + 1)" by (rule add_date_days)
  finally show exact: "subscriptionDeadline now value SubscriptionMonths = bday_start (bday ?d + 1)" .
  have start: "billingDate now = bday_start (bday now)" by (simp add: billingDate_eq)
  have "truncate_second now \<ge> bday_start (bday now)"
  proof -
    have "bday_start (bday now) mod second = 0" by (simp add: bday_start_second)
    then obtain k where k: "bday_start (bday now) = second * k" by (metis mod_0_imp_dvd dvdE)
    have "second * k \<le> now" using bday_start_bounds(1) [of now] k by simp
    then have "k \<le> now div second" by (simp add: zdiv_mono1 pos_imp_zdiv_nonneg_iff le_div_second)
    then have "second * k \<le> second * (now div second)" by simp
    also have "\<dots> = truncate_second now" by (simp add: truncate_second_def minus_mod_eq_mult_div)
    finally show ?thesis using k by simp
  qed
  then have "bday now \<le> bday (truncate_second now)" using bday_mono [of "bday_start (bday now)" "truncate_second now"] by simp
  also have "\<dots> = bday (billingDate (truncate_second now))" by (simp add: billingDate_eq)
  also have "\<dots> < bday ?d" using assms by (intro addCalendarMonths_bday) simp
  finally have "bday_start (bday now + 1) \<le> bday_start (bday ?d + 1)" by simp
  then show "now < subscriptionDeadline now value SubscriptionMonths"
    using bday_start_bounds(2) [of now] unfolding exact by (rule less_le_trans [rotated])
qed

lemma deadline_after_now:
  assumes "0 < value" "value \<le> maxSubscriptionValue unit"
  shows "now < subscriptionDeadline now value unit"
proof (cases "unit = SubscriptionMonths")
  case True
  then show ?thesis using months_deadline(2) [OF assms(1)] by simp
next
  case False
  have "second < minute" by (simp add: second_def minute_def)
  with deadline_exact(1) [OF assms False, of now] deadline_exact(2) [OF assms False] truncate_bounds(2) [of now]
  show ?thesis by simp
qed

lemma extension_grows:
  assumes "0 < value" "value \<le> maxSubscriptionValue unit"
  shows "deadline < extendSubscriptionDeadline deadline value unit"
proof (cases "unit = SubscriptionMonths")
  case True
  have "bday deadline < bday (addCalendarMonths deadline value)" using assms(1) by (intro addCalendarMonths_bday) simp
  then have "bday_start (bday deadline + 1) \<le> bday_start (bday (addCalendarMonths deadline value))" by simp
  also have "\<dots> = addCalendarMonths deadline value" by (rule billing_fixed_bday) simp
  finally show ?thesis using bday_start_bounds(2) [of deadline] True by (simp add: extendSubscriptionDeadline_def)
next
  case False
  then show ?thesis using deadline_after_now [OF assms] by (simp add: extendSubscriptionDeadline_def)
qed

section \<open>Traffic labels\<close>

text \<open>No \<open>-m-\<close> starts inside the short identifier, nor at the last byte of the marker before it.\<close>

definition marker_free :: "string \<Rightarrow> bool" where
  "marker_free short \<longleftrightarrow> \<not> has_prefix ''m-'' short \<and> (\<forall>j < length short. \<not> has_prefix ''-m-'' (drop j short))"

lemma has_prefix_Cons [simp]:
  "has_prefix (x # p) (y # s) \<longleftrightarrow> x = y \<and> has_prefix p s" "has_prefix [] s" "\<not> has_prefix (x # p) []"
  by (auto simp: has_prefix_def)

lemma last_index_unique:
  assumes "has_prefix sub (drop i s)" "i \<le> length s" "\<And>j. i < j \<Longrightarrow> j \<le> length s \<Longrightarrow> \<not> has_prefix sub (drop j s)"
  shows "last_index sub s = Some i"
proof -
  have at: "rev [0..<Suc (length s)] ! k = length s - k" if "k \<le> length s" for k
    using that by (simp add: rev_nth del: upt_Suc)
  have "\<not> has_prefix sub (drop (rev [0..<Suc (length s)] ! k) s)" if "k < length s - i" for k
    using that assms(3) [of "length s - k"] by (simp add: at del: upt_Suc)
  moreover have "rev [0..<Suc (length s)] ! (length s - i) = i" using assms(2) by (simp add: at del: upt_Suc)
  ultimately show ?thesis using assms(1,2) unfolding last_index_def find_Some_iff
    by (intro exI [of _ "length s - i"]) (simp del: upt_Suc)
qed

lemma last_index_Some:
  assumes "last_index sub s = Some i"
  shows "i \<le> length s" "has_prefix sub (drop i s)"
  using assms unfolding last_index_def find_Some_iff by (auto simp: rev_nth simp del: upt_Suc)

lemma last_index_later:
  assumes "last_index sub s = Some i" "i < j" "j \<le> length s"
  shows "\<not> has_prefix sub (drop j s)"
proof
  assume later: "has_prefix sub (drop j s)"
  have at: "rev [0..<Suc (length s)] ! k = length s - k" if "k \<le> length s" for k
    using that by (simp add: rev_nth del: upt_Suc)
  from assms(1) obtain k where k: "k < Suc (length s)" "i = rev [0..<Suc (length s)] ! k"
    "\<forall>j < k. \<not> has_prefix sub (drop (rev [0..<Suc (length s)] ! j) s)"
    unfolding last_index_def find_Some_iff by auto
  then have "length s - j < k" using assms(2,3) at [of k] by (simp del: upt_Suc)
  then have "\<not> has_prefix sub (drop (rev [0..<Suc (length s)] ! (length s - j)) s)" using k(3) by blast
  moreover have "rev [0..<Suc (length s)] ! (length s - j) = j" using at [of "length s - j"] assms(3) by simp
  ultimately show False using later by simp
qed

lemma marker_positions:
  assumes "length short = 12"
  shows "marker_free short \<longleftrightarrow> (\<forall>j. 0 < j \<longrightarrow> j \<le> 15 \<longrightarrow> \<not> has_prefix ''-m-'' (drop j (''-m-'' @ short)))"
proof -
  have "(\<forall>j. 0 < j \<longrightarrow> j \<le> 15 \<longrightarrow> P j) \<longleftrightarrow> P 1 \<and> P 2 \<and> (\<forall>j < 13. P (j + 3))" for P :: "nat \<Rightarrow> bool"
  proof (intro iffI conjI allI impI)
    fix j :: nat
    assume P: "P 1 \<and> P 2 \<and> (\<forall>j < 13. P (j + 3))" and j: "0 < j" "j \<le> 15"
    consider "j = 1" | "j = 2" | k where "j = k + 3" using j by (metis add.commute le_add_diff_inverse less_Suc_eq_le not_less
          numeral_2_eq_2 numeral_3_eq_3 One_nat_def Suc_leI le_neq_implies_less)
    then show "P j" using P j by cases auto
  qed auto
  moreover have "(\<forall>j < 13. \<not> has_prefix ''-m-'' (drop j short)) \<longleftrightarrow> (\<forall>j < 12. \<not> has_prefix ''-m-'' (drop j short))"
    using assms by (auto simp: less_Suc_eq numeral_eq_Suc)
  ultimately show ?thesis using assms by (simp add: marker_free_def numeral_2_eq_2 numeral_3_eq_3 ac_simps)
qed

lemma validID_short_of:
  assumes "validID x (p @ [CHR ''_''])" "list_all is_lower p"
  shows "length (shortID x) = 12" "list_all id_tail_byte (shortID x)"
proof -
  from assms(1) obtain t where x: "x = (p @ [CHR ''_'']) @ t"
    by (metis append_take_drop_id has_prefix_def validID_def)
  have under: "\<not> is_lower (CHR ''_'')" by (simp add: is_lower_def)
  have free: "CHR ''_'' \<notin> set p" using assms(2) under by (auto simp: list_all_iff)
  have "takeWhile is_lower x = p" "dropWhile is_lower x = CHR ''_'' # t"
    using assms(2) under by (simp_all add: x list_all_iff takeWhile_append2 dropWhile_append2)
  with assms(1) have "20 \<le> length t" "list_all id_tail_byte t"
    by (simp_all add: validID_def matches_id_pattern_def Let_def)
  moreover have "dropWhile (\<lambda>c. c \<noteq> CHR ''_'') (p @ CHR ''_'' # t) = CHR ''_'' # t" using free by (induction p) auto
  then have "shortID x = take 12 t" by (simp add: shortID_def x contains_byte_def)
  ultimately show "length (shortID x) = 12" "list_all id_tail_byte (shortID x)"
    by (auto simp: list_all_iff dest: in_set_takeD)
qed

lemma validID_short:
  assumes "validID mid ''mem_''"
  shows "length (shortID mid) = 12" "list_all id_tail_byte (shortID mid)"
  using validID_short_of [of mid "''mem''"] assms by (simp_all add: is_lower_def)

lemma alias_of_label:
  assumes "length (shortID mid) = 12" "list_all id_tail_byte (shortID mid)"
  shows "trafficAliasKey path (AuthenticatedUserLabel mid) =
    (if marker_free (shortID mid) then Some (path, shortID mid) else None)"
proof -
  let ?label = "AuthenticatedUserLabel mid" and ?n = "length mid"
  have label: "?label = mid @ ''-m-'' @ shortID mid" by (simp add: AuthenticatedUserLabel_def)
  have len: "length ?label = ?n + 15" using assms(1) by (simp add: label)
  have tail: "drop (?n + j) ?label = drop j (''-m-'' @ shortID mid)" for j by (simp add: label)
  show ?thesis
  proof (cases "marker_free (shortID mid)")
    case True
    have "last_index ''-m-'' ?label = Some ?n"
    proof (rule last_index_unique)
      show "has_prefix ''-m-'' (drop ?n ?label)" using tail [of 0] by simp
      show "?n \<le> length ?label" using len by simp
      fix j
      assume "?n < j" "j \<le> length ?label"
      with True tail [of "j - ?n"] len show "\<not> has_prefix ''-m-'' (drop j ?label)"
        by (simp add: marker_positions [OF assms(1)])
    qed
    moreover have "drop (?n + 3) ?label = shortID mid" using tail [of 3] by simp
    ultimately show ?thesis using True assms by (simp add: trafficAliasKey_def Let_def)
  next
    case False
    then obtain j where j: "0 < j" "j \<le> 15" "has_prefix ''-m-'' (drop (?n + j) ?label)"
      unfolding marker_positions [OF assms(1)] tail by blast
    show ?thesis
    proof (cases "last_index ''-m-'' ?label")
      case None
      with False show ?thesis by (simp add: trafficAliasKey_def)
    next
      case (Some i)
      have "?n + j \<le> i"
      proof (rule ccontr)
        assume "\<not> ?n + j \<le> i"
        then have "\<not> has_prefix ''-m-'' (drop (?n + j) ?label)"
          using j(2) len by (intro last_index_later [OF Some]) simp_all
        with j(3) show False by contradiction
      qed
      then have "length (drop (i + 3) ?label) < 12" using j(1) len by simp
      with Some False show ?thesis by (simp add: trafficAliasKey_def Let_def)
    qed
  qed
qed

text \<open>One Membership whose label has no alias stops the traffic index of its entrance Agent.\<close>

lemma traffic_index_aliases:
  assumes run: "trafficMemberships digest st agent = Inr index" and a: "a \<in> set (st_AppliedProxyNodes st)"
    and i: "live_index st (pn_ID a) = Some i" "entrance_agent a = Some agent"
    and m: "m \<in> set (pn_Memberships (st_ProxyNodes st ! i))"
  shows "\<exists>path k. trafficAliasKey path (AuthenticatedUserLabel (mem_ID m)) = Some k"
proof -
  define path where "path = ''/tp-in-'' @ digest (listenerKeys agent (ent_Endpoint (pn_Entrance a)))"
  from foldE_each [OF run [unfolded trafficMemberships_def] a] i obtain acc b where
    fold: "foldE (register_membership st path (pn_Name a) i) acc [0..<length (pn_Memberships (st_ProxyNodes st ! i))] = Inr b"
    by (auto simp: path_def)
  from m obtain j where j: "j < length (pn_Memberships (st_ProxyNodes st ! i))" "m = pn_Memberships (st_ProxyNodes st ! i) ! j"
    by (metis in_set_conv_nth)
  then have "j \<in> set [0..<length (pn_Memberships (st_ProxyNodes st ! i))]" by simp
  from foldE_each [OF fold this] obtain c d where step: "register_membership st path (pn_Name a) i c j = Inr d"
    by blast
  have "membership_at st (i, j) = m" using j by (simp add: membership_at_def)
  with step show ?thesis
    by (cases c) (auto simp: register_membership_def Let_def split: if_splits option.splits)
qed

section \<open>Cumulative counters\<close>

lemma counterDelta_same [simp]: "counterDelta a a = 0"
  by (simp add: counterDelta_def)

lemma trafficInside_zero [simp]: "trafficInsideCurrentPeriod env 0 a b c = 0"
  by (simp add: trafficInsideCurrentPeriod_def)

lemma counterDelta_adds: "a \<le> b \<Longrightarrow> counterDelta a b + a = b"
  by (simp add: counterDelta_def)

lemma charge_settled:
  "charge 0 (charge d m) = charge d m"
  by (simp add: charge_def Let_def)

lemma index_func_first:
  assumes "i < length xs" "p (xs ! i)" "\<forall>j < i. \<not> p (xs ! j)"
  shows "index_func p xs = Some i"
proof (cases "index_func p xs")
  case None
  with assms show ?thesis by (auto simp: index_func_None)
next
  case (Some k)
  from index_func_SomeD [OF this] assms have "k = i" by (metis linorder_neqE_nat)
  with Some show ?thesis by simp
qed

text \<open>Storing an observation makes it the one that is found.\<close>

lemma put_observation_found:
  assumes "at = observationFor st agent path user"
    and "obs_AgentID ob = agent" "obs_InboundPath ob = path" "obs_Username ob = user"
  defines "st' \<equiv> put_observation at ob st"
  obtains i where "observationFor st' agent path user = Some i" "st_TrafficObservations st' ! i = ob"
    "put_observation (Some i) ob st' = st'"
proof (cases at)
  case None
  let ?obs = "st_TrafficObservations st" and ?p = "\<lambda>ob. obs_AgentID ob = agent \<and> obs_InboundPath ob = path \<and> obs_Username ob = user"
  have all: "st_TrafficObservations st' = ?obs @ [ob]" using None by (simp add: st'_def put_observation_def)
  have "index_func ?p (?obs @ [ob]) = Some (length ?obs)"
  proof (rule index_func_first)
    show "\<forall>j < length ?obs. \<not> ?p ((?obs @ [ob]) ! j)"
      using None assms(1) by (simp add: observationFor_def index_func_None nth_append)
  qed (use assms(2-4) in simp_all)
  then show thesis
    by (intro that [of "length ?obs"]) (simp_all add: observationFor_def all put_observation_def)
next
  case (Some i)
  let ?obs = "st_TrafficObservations st" and ?p = "\<lambda>ob. obs_AgentID ob = agent \<and> obs_InboundPath ob = path \<and> obs_Username ob = user"
  from Some assms(1) have i: "i < length ?obs" "\<forall>j < i. \<not> ?p (?obs ! j)"
    using index_func_SomeD [of ?p ?obs i] by (simp_all add: observationFor_def)
  have all: "st_TrafficObservations st' = ?obs[i := ob]" using Some by (simp add: st'_def put_observation_def)
  have "index_func ?p (?obs[i := ob]) = Some i"
    by (rule index_func_first) (use i assms(2-4) in simp_all)
  then show thesis using i(1)
    by (intro that [of i]) (simp_all add: observationFor_def all put_observation_def)
qed

lemma charge_position_again:
  assumes "position_ok st p"
  shows "charge_position p 0 0 (charge_position p d dd (st, bytes, changed)) = charge_position p d dd (st, bytes, changed)"
proof -
  obtain i j where p: "p = (i, j)" by fastforce
  let ?m = "membership_at st p" and ?st = "update_membership p (charge d) st"
  have at: "membership_at ?st p = charge d ?m" using assms by (simp add: membership_at_update)
  have "update_membership p (charge 0) ?st = ?st"
  proof -
    have "update_at j (charge 0) (update_at j (charge d) ms) = update_at j (charge d) ms" for ms
      by (rule nth_equalityI) (auto simp: nth_update_at charge_settled)
    then have "update_at i (\<lambda>n. n\<lparr>pn_Memberships := update_at j (charge 0) (pn_Memberships n)\<rparr>)
        (update_at i (\<lambda>n. n\<lparr>pn_Memberships := update_at j (charge d) (pn_Memberships n)\<rparr>) ns)
      = update_at i (\<lambda>n. n\<lparr>pn_Memberships := update_at j (charge d) (pn_Memberships n)\<rparr>) ns" for ns
      by (intro nth_equalityI) (auto simp: nth_update_at)
    from this [of "st_ProxyNodes st"] show ?thesis by (simp add: p update_membership_def update_node_def)
  qed
  moreover have "add_daily (mem_ID (charge d ?m)) 0 (add_daily (mem_ID ?m) dd bytes) = add_daily (mem_ID ?m) dd bytes"
  proof -
    have same: "mem_ID (charge d ?m) = mem_ID ?m" by (simp add: charge_def Let_def)
    have "map_of (add_daily (mem_ID ?m) dd bytes) (mem_ID ?m) \<noteq> None"
      by (auto simp: add_daily_def map_of_eq_None_iff image_iff split: if_splits) force+
    moreover have "map (\<lambda>(k', b). (k', if k' = k then saturatingAdd b 0 else b)) xs = xs" for k and xs :: "(string \<times> u64) list"
      by (rule map_idI) auto
    ultimately show ?thesis unfolding same by (auto simp: add_daily_def [of _ 0])
  qed
  ultimately show ?thesis using at by (simp add: charge_position_def Let_def charge_settled)
qed

lemma report_step_again:
  assumes index: "index_ok st index"
    and run: "report_step env agent epoch observed index u (st, bytes, changed) = (st1, bytes1, changed1)"
  shows "report_step env agent epoch observed index u (st1, bytes1, changed1) = (st1, bytes1, changed1)"
proof (cases "find_target index (ut_InboundPath u) (ut_Username u)")
  case None
  with run show ?thesis by (simp add: report_step_def)
next
  case (Some p)
  let ?path = "ut_InboundPath u" and ?user = "ut_Username u"
  let ?ob = "\<lparr>obs_AgentID = agent, obs_InboundPath = ?path, obs_Username = ?user, obs_Epoch = epoch,
      obs_UplinkBytes = ut_UplinkBytes u, obs_DownlinkBytes = ut_DownlinkBytes u, obs_ObservedAt = observed\<rparr>"
  let ?at = "observationFor st agent ?path ?user"
  let ?put = "put_observation ?at ?ob st"
  from run Some obtain d dd where one: "charge_position p d dd (?put, bytes, changed) = (st1, bytes1, changed1)"
    by (auto simp: report_step_def Let_def split: prod.splits)
  obtain i where i: "observationFor ?put agent ?path ?user = Some i" "st_TrafficObservations ?put ! i = ?ob"
    "put_observation (Some i) ?ob ?put = ?put"
    by (rule put_observation_found [OF refl, of ?ob agent ?path ?user st]) simp_all
  have st1: "st1 = update_membership p (charge d) ?put" using one by (auto simp: charge_position_def Let_def)
  have obs: "st_TrafficObservations st1 = st_TrafficObservations ?put"
    by (cases p) (simp add: st1 update_membership_def update_node_def)
  have "put_observation (Some i) ?ob st1 = st1"
  proof -
    from i(3) have "(st_TrafficObservations ?put)[i := ?ob] = st_TrafficObservations ?put"
      by (auto simp: put_observation_def dest: arg_cong [where f = st_TrafficObservations])
    then show ?thesis by (simp add: put_observation_def obs)
  qed
  moreover have "observationFor st1 agent ?path ?user = Some i" using i(1) by (simp add: observationFor_def obs)
  ultimately have "report_step env agent epoch observed index u (st1, bytes1, changed1)
      = charge_position p 0 0 (st1, bytes1, changed1)"
    using Some i(2) by (simp add: report_step_def obs)
  also have "\<dots> = charge_position p 0 0 (charge_position p d dd (?put, bytes, changed))" by (simp only: one)
  also have "\<dots> = (st1, bytes1, changed1)"
  proof -
    have "position_ok ?put p" using find_target_ok [OF index Some] by (simp add: position_ok_def put_observation_def)
    from charge_position_again [OF this, of d dd bytes changed] show ?thesis unfolding one .
  qed
  finally show ?thesis .
qed

section \<open>Generated credentials\<close>

lemma b64_url_clean: "\<not> contains_any [CHR 0x00, CHR 0x0D, CHR 0x0A] (b64_raw_url bs)"
  using b64_raw_url_tail [of bs]
  by (fastforce simp: contains_any_def list_all_iff list_ex_iff id_tail_byte_def is_alnum_def is_lower_def is_upper_def is_digit_def)

lemma generated_credential_valid:
  assumes "generateCredential e src = Inr (c, rest)"
  shows "validateCredential e c = Inr ()"
proof (cases "ep_Protocol e = ProtocolShadowsocks")
  case True
  with assms obtain n b where "shadowsocksKeyLength (ep_Method e) = Inr n" "length b = n" "cred_Secret c = b64_std b"
    by (auto simp: generateCredential_def randomBase64_def res_simps bindE_Inr_iff)
  with True show ?thesis by (auto simp: validateCredential_def require_def)
next
  case False
  with assms obtain b where "length b = 32" "cred_Secret c = b64_raw_url b"
    by (auto simp: generateCredential_def randomURLSecret_def res_simps bindE_Inr_iff)
  with False b64_url_clean [of b] show ?thesis by (simp add: validateCredential_def require_def length_b64_raw_url)
qed

end
