(* ===== verification/BillingClaims.thy ===== *)
theory BillingClaims
  imports TermFacts Samples
begin

text \<open>
  The properties of billing: the clock always gets through and leaves every Membership in its
  current period, reports add up without overflow, a cumulative report counts once, terms end where
  the plan says, and the labels by which reports find their Membership.
\<close>

section \<open>Sample facts\<close>

definition sample_traffic :: user_traffic where
  "sample_traffic = \<lparr>ut_InboundPath = ''/tp-in-00ff'', ut_Username = AuthenticatedUserLabel mem_a,
     ut_UplinkBytes = 5, ut_DownlinkBytes = 7\<rparr>"

definition sample_plan :: membership_plan where
  "sample_plan = \<lparr>plan_MonthlyQuotaBytes = 1000, plan_SubscriptionValue = 30, plan_SubscriptionUnit = SubscriptionDays\<rparr>"

lemma sample_membership_valid: "membership_fields sample_membership = Inr ()"
proof -
  have "sample_membership \<in> set (all_memberships sample_state)"
    by (simp add: all_memberships_def sample_state_fields sample_node_def)
  from valid_membership(1) [OF sample_state_valid this] show ?thesis .
qed

lemma sample_position: "position_ok sample_state (0, 0)" "membership_at sample_state (0, 0) = sample_membership"
  by (simp_all add: position_ok_def membership_at_def sample_state_fields sample_node_def)

lemma sample_short: "shortID mem_a = ''aaaaaaaaaaaa''" "validID mem_a ''mem_''"
  by code_simp+

lemma sample_marker: "marker_free (shortID mem_a)"
  unfolding sample_short marker_free_def by (simp add: numeral_eq_Suc less_Suc_eq all_conj_distrib imp_conjR)

lemma sample_alias: "trafficAliasKey path (AuthenticatedUserLabel mem_a) = Some (path, ''aaaaaaaaaaaa'')"
  using alias_of_label [OF validID_short [OF sample_short(2)]] sample_marker by (simp add: sample_short)

lemma sample_index: "\<exists>index. trafficMemberships sample_digest sample_state ''alpha'' = Inr index"
proof -
  have "live_index sample_state (pn_ID sample_applied_node) = Some 0" "entrance_agent sample_applied_node = Some ''alpha''"
    by code_simp+
  moreover have "pn_Memberships (st_ProxyNodes sample_state ! 0) = [sample_membership]"
    by (simp add: sample_state_fields sample_node_def)
  moreover have "mem_ID (membership_at sample_state (0, 0)) = mem_a"
    using sample_position(2) by (simp add: sample_membership_def)
  ultimately show ?thesis
    by (simp add: trafficMemberships_def sample_state_fields register_membership_def Let_def sample_alias)
qed

lemma sample_delta_report:
  "\<exists>x. apply_deltas sample_digest ''alpha'' sample_now [sample_traffic, sample_traffic] sample_state = Inr x"
proof -
  from sample_index obtain index where "trafficMemberships sample_digest sample_state ''alpha'' = Inr index" by blast
  then show ?thesis by (simp add: apply_deltas_def Let_def split: prod.split)
qed

section \<open>The clock\<close>

text \<open>C16: Advancing the billing clock over a valid state always returns, however far behind the
  quota periods are. If it succeeds, no Membership whose term is over is left and the quota period of
  every remaining one reaches the current billing day.\<close>

theorem advance_billing_settles:
  assumes "validateStoredState env (sto_state s) = Inr ()"
  shows "\<exists>r s'. AdvanceBilling env c now s = Some (r, s') \<and>
     (isl r \<or> (\<forall>m \<in> set (all_memberships (sto_state s')). \<not> expired now m \<and> billingDate now \<le> mem_QuotaResetsAfter m))"
proof -
  from advance_billing_post [OF assms, of c now] obtain r s' where run: "advanceBilling env c now True True s = Some (r, s')"
    and post: "\<forall>x m. r = Inr x \<longrightarrow> m \<in> set (all_memberships (sto_state s')) \<longrightarrow>
        \<not> expired now m \<and> billingDate now \<le> mem_QuotaResetsAfter m" by blast
  from post have "isl r \<or> (\<forall>m \<in> set (all_memberships (sto_state s')). \<not> expired now m \<and> billingDate now \<le> mem_QuotaResetsAfter m)"
    by (cases r) auto
  with run show ?thesis by (auto simp: AdvanceBilling_def)
qed

theorem advance_billing_settles_witness:
  "\<exists>r s'. AdvanceBilling sample_env (sample_call []) (bday_start 739050) sample_store = Some (r, s') \<and>
     (isl r \<or> set (all_memberships (sto_state s')) \<subseteq> {m. \<not> expired (bday_start 739050) m
        \<and> bday_start 739050 \<le> mem_QuotaResetsAfter m})"
proof -
  have "validateStoredState sample_env (sto_state sample_store) = Inr ()" by (simp add: sample_store_def sample_state_valid)
  from advance_billing_settles [OF this, of "sample_call []" "bday_start 739050"] show ?thesis by (simp add: billingDate_eq subset_eq)
qed

text \<open>C17: The catch-up loop of one Membership ends. A Membership whose period reaches the day is
  left alone; any other gets a period that contains the day, with the usage back at zero and the
  quota block lifted.\<close>

theorem catch_up_terminates:
  assumes "membership_fields m = Inr ()"
  shows "\<exists>m' flags'. reset_periods (billingDate now) m flags = Some (m', flags') \<and> mem_ID m' = mem_ID m
    \<and> mem_SubscriptionEndsAfter m' = mem_SubscriptionEndsAfter m
    \<and> (if billingDate now \<le> mem_QuotaResetsAfter m then m' = m \<and> flags' = flags
       else mem_UsedBytes m' = 0 \<and> mem_DisabledReason m' \<noteq> MembershipQuotaReached
         \<and> mem_QuotaPeriodStartedOn m' \<le> billingDate now \<and> billingDate now \<le> mem_QuotaResetsAfter m' \<and> fst flags')"
proof -
  have "period_shape m" using membership_fields_dates [OF assms] by (simp add: period_shape_def)
  moreover have "billingDate now = billingDate (billingDate now)" by simp
  ultimately obtain m' flags' where run: "reset_periods (billingDate now) m flags = Some (m', flags')"
    and post: "mem_ID m' = mem_ID m" "mem_SubscriptionEndsAfter m' = mem_SubscriptionEndsAfter m" "billingDate now \<le> mem_QuotaResetsAfter m'"
      "if billingDate now \<le> mem_QuotaResetsAfter m then m' = m \<and> flags' = flags
       else fst flags' \<and> mem_UsedBytes m' = 0 \<and> mem_QuotaPeriodStartedOn m' \<le> billingDate now
         \<and> mem_DisabledReason m' \<noteq> MembershipQuotaReached"
    using reset_periods_post [of m "billingDate now" flags] by metis
  show ?thesis by (intro exI [of _ m'] exI [of _ flags']) (use run post in \<open>simp split: if_splits\<close>)
qed

theorem catch_up_terminates_witness:
  "\<exists>m' flags'. reset_periods (bday_start 739050) sample_membership (False, False) = Some (m', flags')
    \<and> mem_UsedBytes m' = 0 \<and> bday_start 739050 \<le> mem_QuotaResetsAfter m'"
proof -
  have "\<not> billingDate (bday_start 739050) \<le> mem_QuotaResetsAfter sample_membership"
    by (simp add: sample_membership_def billingDate_eq)
  with catch_up_terminates [OF sample_membership_valid, of "bday_start 739050" "(False, False)"] show ?thesis
    by (auto simp: billingDate_eq)
qed

section \<open>Reports\<close>

text \<open>C18: Charging a Membership adds the bytes exactly up to the largest 64-bit number and never
  wraps, and a Membership is enabled afterwards exactly if it was before and its quota is unlimited
  or not yet reached.\<close>

theorem charging_saturates:
  "unat (mem_UsedBytes (charge d m)) = min (unat (mem_UsedBytes m) + unat d) (2 ^ 64 - 1)
    \<and> mem_UsedBytes m \<le> mem_UsedBytes (charge d m)
    \<and> (mem_DisabledReason (charge d m) = MembershipEnabled \<longleftrightarrow> mem_DisabledReason m = MembershipEnabled
        \<and> (mem_MonthlyQuotaBytes m = 0 \<or> mem_UsedBytes (charge d m) < mem_MonthlyQuotaBytes m))"
proof -
  have "mem_DisabledReason (charge d m) = MembershipEnabled \<longleftrightarrow> mem_DisabledReason m = MembershipEnabled
        \<and> (mem_MonthlyQuotaBytes m = 0 \<or> mem_UsedBytes (charge d m) < mem_MonthlyQuotaBytes m)"
    by (auto simp: charge_def Let_def word_gt_0 not_le)
  then show ?thesis by (simp add: charge_used saturatingAdd_unat saturatingAdd_mono)
qed

text \<open>C19: A delta report charges every Membership with the sum of the counters that are reported
  for it, in whatever order and however often it is named, up to the 64-bit maximum; Memberships the
  report does not name keep their usage.\<close>

theorem delta_report_adds_up:
  assumes "apply_deltas digest agent observed users st = Inr (st', changed, daily)" "position_ok st p"
  shows "\<exists>index. trafficMemberships digest st agent = Inr index
    \<and> unat (mem_UsedBytes (membership_at st' p))
      = min (unat (mem_UsedBytes (membership_at st p)) + reported_for index p users) (2 ^ 64 - 1)"
proof -
  let ?st = "st\<lparr>st_TrafficObservations := filter (\<lambda>ob. obs_AgentID ob \<noteq> agent) (st_TrafficObservations st)\<rparr>"
  from assms(1) obtain index where index: "trafficMemberships digest st agent = Inr index"
    by (auto simp: apply_deltas_def bindE_Inr_iff)
  obtain st1 bytes changed1 where "fold (delta_step index) users (?st, [], False) = (st1, bytes, changed1)" by (metis prod_cases3)
  with assms(1) index have fold: "fold (delta_step index) users (?st, [], False) = (st', bytes, changed)"
    by (simp add: apply_deltas_def Let_def)
  have "position_ok ?st = position_ok st" by (rule ext) (simp add: position_ok_def)
  then have "index_ok ?st index" using trafficMemberships_ok [OF index] by (simp add: index_ok_def)
  moreover have "position_ok ?st p" using assms(2) by (simp add: position_ok_def)
  moreover have "membership_at ?st p = membership_at st p" by (cases p) (simp add: membership_at_def)
  ultimately show ?thesis using delta_fold [OF fold] index by simp
qed

theorem delta_report_adds_up_witness:
  "\<exists>index st' changed daily. apply_deltas sample_digest ''alpha'' sample_now [sample_traffic, sample_traffic] sample_state = Inr (st', changed, daily)
    \<and> unat (mem_UsedBytes (membership_at st' (0, 0)))
      = min (10 + reported_for index (0, 0) [sample_traffic, sample_traffic]) (2 ^ 64 - 1)"
proof -
  from sample_delta_report obtain st' changed daily where
    run: "apply_deltas sample_digest ''alpha'' sample_now [sample_traffic, sample_traffic] sample_state = Inr (st', changed, daily)"
    by auto
  have "unat (mem_UsedBytes sample_membership) = 10" by (simp add: sample_membership_def)
  with delta_report_adds_up [OF run sample_position(1)] run show ?thesis by (simp only: sample_position(2)) blast
qed

text \<open>A cumulative counter counts once: processing the same counter of the same epoch a second
  time changes nothing, neither usage nor daily bytes nor the stored observation.\<close>

theorem repeated_counter_is_free:
  assumes "trafficMemberships digest st agent = Inr index"
    and "report_step env agent epoch observed index u (st, bytes, changed) = acc"
  shows "report_step env agent epoch observed index u acc = acc"
proof -
  obtain st1 bytes1 changed1 where acc: "acc = (st1, bytes1, changed1)" by (metis prod_cases3)
  from report_step_again [OF trafficMemberships_ok [OF assms(1)] assms(2) [unfolded acc]] show ?thesis by (simp only: acc)
qed

theorem repeated_counter_is_free_witness:
  "\<exists>index acc. trafficMemberships sample_digest sample_state ''alpha'' = Inr index
    \<and> report_step sample_env ''alpha'' ''e1'' sample_now index sample_traffic (sample_state, [], False) = acc
    \<and> report_step sample_env ''alpha'' ''e1'' sample_now index sample_traffic acc = acc"
proof -
  from sample_index obtain index where "trafficMemberships sample_digest sample_state ''alpha'' = Inr index" by blast
  with repeated_counter_is_free [OF this refl] show ?thesis by blast
qed

section \<open>Labels\<close>

text \<open>The label the compiler gives a Membership leads back to the Membership's short identifier
  exactly if no \<open>-m-\<close> starts inside that identifier or overlaps it.\<close>

theorem label_leads_back:
  assumes "validID mid ''mem_''"
  shows "trafficAliasKey path (AuthenticatedUserLabel mid) =
    (if marker_free (shortID mid) then Some (path, shortID mid) else None)"
  by (rule alias_of_label [OF validID_short [OF assms]])

theorem label_leads_back_witness:
  "trafficAliasKey ''/tp-in-00ff'' (AuthenticatedUserLabel mem_a) = Some (''/tp-in-00ff'', ''aaaaaaaaaaaa'')"
  using label_leads_back [OF sample_short(2), of "''/tp-in-00ff''"] sample_marker by (simp add: sample_short)





section \<open>Terms\<close>

text \<open>C21: A plan that passes \<open>validateMembershipPlan\<close> ends after now, and the 64-bit
  \<open>time.Duration\<close> products of \<open>subscriptionDeadline\<close> do not overflow: minutes, hours and days are
  added exactly to the whole second of now, months end with their last billing day.\<close>

theorem plan_deadline_exact:
  assumes "validateMembershipPlan plan = Inr ()" "0 < plan_SubscriptionValue plan"
  shows "now < subscriptionDeadline now (plan_SubscriptionValue plan) (plan_SubscriptionUnit plan)
    \<and> subscriptionDeadline now (plan_SubscriptionValue plan) (plan_SubscriptionUnit plan) =
      (if plan_SubscriptionUnit plan = SubscriptionMonths
       then bday_start (bday (addCalendarMonths (billingDate (truncate_second now)) (plan_SubscriptionValue plan)) + 1)
       else truncate_second now + term_length (plan_SubscriptionValue plan) (plan_SubscriptionUnit plan))"
proof -
  note bound = term_bounds [OF assms]
  show ?thesis using deadline_after_now [OF assms(2) bound] deadline_exact(1) [OF assms(2) bound] months_deadline(1) [OF assms(2)] by auto
qed

theorem plan_deadline_exact_witness:
  "sample_now < subscriptionDeadline sample_now 30 SubscriptionDays
    \<and> subscriptionDeadline sample_now 30 SubscriptionDays = truncate_second sample_now + 30 * day"
proof -
  have "validateMembershipPlan sample_plan = Inr ()" "0 < plan_SubscriptionValue sample_plan" by code_simp+
  from plan_deadline_exact [OF this, of sample_now] show ?thesis by (simp add: sample_plan_def term_length_def)
qed

text \<open>An extension within the limits always moves the deadline, for every unit.\<close>

theorem extension_moves_deadline:
  assumes "0 < value" "value \<le> maxSubscriptionValue unit"
  shows "deadline < extendSubscriptionDeadline deadline value unit"
  by (rule extension_grows [OF assms])

theorem extension_moves_deadline_witness:
  "bday_start 739000 < extendSubscriptionDeadline (bday_start 739000) 1200 SubscriptionMonths"
  using extension_moves_deadline [of 1200 SubscriptionMonths "bday_start 739000"] by (simp add: maxSubscriptionValue_def)

text \<open>\<open>addCalendarMonthsAnchored\<close> lands \<open>k\<close> months on, on the anchor day or on the last day of
  a shorter month: an anchor on the 31st comes back to the 31st after a February.\<close>

theorem anchored_months:
  assumes "1 \<le> a"
  shows "month_index (bday (addCalendarMonthsAnchored t k a)) = month_index (bday t) + k
    \<and> day_of (bday (addCalendarMonthsAnchored t k a)) = min a (month_len (month_index (bday t) + k))
    \<and> addCalendarMonthsAnchored t k a = bday_start (bday (addCalendarMonthsAnchored t k a))"
  using addCalendarMonthsAnchored_month [OF assms] by (simp add: addCalendarMonthsAnchored_eq)

theorem anchored_months_witness:
  "day_of (bday (addCalendarMonthsAnchored (bday_start (days_from_civil 2023 1 31)) 1 31)) = 28"
proof -
  have "month_len (month_index (days_from_civil 2023 1 31) + 1) = 28" by code_simp
  with anchored_months [of 31 "bday_start (days_from_civil 2023 1 31)" 1] show ?thesis by simp
qed

section \<open>Generated credentials\<close>

text \<open>What \<open>generateCredential\<close> returns passes \<open>validateCredential\<close> for the same endpoint,
  whatever the random bytes.\<close>

theorem generated_credentials_pass:
  assumes "generateCredential e src = Inr (c, rest)"
  shows "validateCredential e c = Inr ()"
  by (rule generated_credential_valid [OF assms])

theorem generated_credentials_pass_witness:
  "\<exists>c rest. generateCredential (sample_endpoint 443) [replicate 16 7] = Inr (c, rest) \<and> validateCredential (sample_endpoint 443) c = Inr ()"
proof -
  have "\<not> isl (generateCredential (sample_endpoint 443) [replicate 16 7])" by code_simp
  then obtain x where "generateCredential (sample_endpoint 443) [replicate 16 7] = Inr x" using sample_result by blast
  then obtain c rest where "generateCredential (sample_endpoint 443) [replicate 16 7] = Inr (c, rest)" by (cases x) simp
  with generated_credentials_pass [OF this] show ?thesis by blast
qed

end
