(* ===== verification/Compiler.thy ===== *)
theory Compiler
  imports Billing "HOL-Library.AList"
begin

text \<open>
  \<open>internal/proxynode/compiler.go\<close>: from a state to one sing-box configuration per Agent.

  A \<open>map[string]any\<close> is the list of its fields, and the compiler stops at the value it hands to
  \<open>json.MarshalIndent\<close>. A number is a \<open>JInt\<close> if it is written as a plain integer, any other
  literal a \<open>JNum\<close>; the compiler only writes the former. \<open>byAgent\<close> is an association list. A lookup
  of a Hop that would dereference a nil pointer is an error of its own, \<open>missing_hop\<close>; validated
  states never reach it. Parameters are the resolver of Agent addresses, the truncated digest of a
  listener key and the text of the key, by which groups are sorted. The recursion of
  \<open>topologyDepths\<close> is a loop over an explicit stack, and \<open>None\<close> means that it never ends.
\<close>

section \<open>Values\<close>

datatype json =
    JNull
  | JStr string
  | JInt int
  | JNum string
  | JBool bool
  | JArr "json list"
  | JObj "(string \<times> json) list"

type_synonym fields = "(string \<times> json) list"

definition jstrs :: "string list \<Rightarrow> json" where
  "jstrs xs = JArr (map JStr xs)"

datatype family = FamilyAuto | FamilyIPv4 | FamilyIPv6

definition ParseFamily :: "string \<Rightarrow> family res" where
  "ParseFamily value =
     (let v = trim_space value in
      if v = [] \<or> v = ''auto'' then ok FamilyAuto
      else if v = ''ipv4'' then ok FamilyIPv4
      else if v = ''ipv6'' then ok FamilyIPv6
      else fail (ErrOther ''pool: invalid address family''))"

fun family_String :: "family \<Rightarrow> string" where
  "family_String FamilyAuto = ''auto''"
| "family_String FamilyIPv4 = ''ipv4''"
| "family_String FamilyIPv6 = ''ipv6''"

type_synonym resolver = "string \<Rightarrow> family \<Rightarrow> string option"

fun protocol_name :: "protocol \<Rightarrow> string" where
  "protocol_name ProtocolShadowsocks = ''shadowsocks''"
| "protocol_name ProtocolAnyTLS = ''anytls''"
| "protocol_name ProtocolHysteria2 = ''hysteria2''"
| "protocol_name (OtherProtocol p) = p"

fun match_name :: "match_type \<Rightarrow> string" where
  "match_name MatchNone = ''none''"
| "match_name MatchProtocol = ''protocol''"
| "match_name MatchDomain = ''domain''"
| "match_name MatchDomainSuffix = ''domain_suffix''"
| "match_name MatchDomainKeyword = ''domain_keyword''"
| "match_name MatchDomainRegex = ''domain_regex''"
| "match_name MatchIPCIDR = ''ip_cidr''"
| "match_name MatchGeosite = ''geosite''"
| "match_name MatchGeoIP = ''geoip''"
| "match_name MatchRuleSet = ''rule_set''"
| "match_name MatchNetwork = ''network''"
| "match_name (OtherMatch m) = m"

definition linkUserLabel :: "string \<Rightarrow> string" where
  "linkUserLabel lid = lid @ ''-link-l-'' @ shortID lid"

definition LinkOutboundTag :: "string \<Rightarrow> string" where
  "LinkOutboundTag lid = ''tp-out-'' @ shortID lid"

definition ManagedUserAPIServiceTag :: string where
  "ManagedUserAPIServiceTag = ''tp-managed-users''"

definition ManagedUserAPIListenPort :: int where
  "ManagedUserAPIListenPort = 19090"

section \<open>The compiler's own records\<close>

record render_user =
  ru_Name :: string
  ru_Secret :: string

record ingress_candidate =
  ing_node :: proxy_node
  ing_hop :: hop
  ing_endpoint :: endpoint
  ing_users :: "render_user list"
  ing_link :: "link option"
  ing_inboundTag :: string
  ing_routeByInbound :: bool

record listener_group =
  grp_agentID :: string
  grp_key :: listener_key
  grp_endpoint :: endpoint
  grp_tag :: string
  grp_candidates :: "ingress_candidate list"

record agent_render =
  ar_groups :: "listener_group list"
  ar_outbounds :: "fields list"
  ar_rules :: "fields list"
  ar_ruleSets :: "(string \<times> fields) list"

type_synonym renders = "(string \<times> agent_render) list"

record compile_result =
  cr_Configs :: "(string \<times> fields) list"
  cr_AgentDepth :: "string \<rightharpoonup> nat"

definition missing_hop :: error where
  "missing_hop = ErrOther ''nil pointer dereference''"

definition new_render :: agent_render where
  "new_render =
     \<lparr>ar_groups = [],
      ar_outbounds = [[(''type'', JStr ''direct''), (''tag'', JStr ''tp-direct'')],
                      [(''type'', JStr ''block''), (''tag'', JStr ''tp-reject'')]],
      ar_rules = [], ar_ruleSets = []\<rparr>"

definition ensureAgentRender :: "string \<Rightarrow> renders \<Rightarrow> renders" where
  "ensureAgentRender agent byAgent =
     (if map_of byAgent agent = None then byAgent @ [(agent, new_render)] else byAgent)"

text \<open>A change through the pointer \<open>byAgent[agent]\<close>.\<close>

definition with_render :: "string \<Rightarrow> (agent_render \<Rightarrow> agent_render res) \<Rightarrow> renders \<Rightarrow> renders res" where
  "with_render agent f byAgent =
     (case map_of byAgent agent of
        None \<Rightarrow> fail missing_hop
      | Some r \<Rightarrow> bindE (f r) (\<lambda>r'. ok (AList.update agent r' byAgent)))"

section \<open>Depths\<close>

definition children_of :: "link list \<Rightarrow> string \<Rightarrow> string list" where
  "children_of links h = map lnk_ChildHopID (filter (\<lambda>l. lnk_ParentHopID l = h) links)"

partial_function (option) visit_depths ::
  "link list \<Rightarrow> (string \<times> nat) list \<Rightarrow> (string \<times> nat) list \<Rightarrow> (string \<times> nat) list option" where
  "visit_depths links pending depths =
     (case pending of
        [] \<Rightarrow> Some depths
      | (h, d) # rest \<Rightarrow>
          visit_depths links (map (\<lambda>c. (c, d + 1)) (children_of links h) @ rest) (AList.update h d depths))"

declare visit_depths.simps [code]

definition topologyDepths :: "proxy_node \<Rightarrow> (string \<times> nat) list option" where
  "topologyDepths node = visit_depths (pn_Links node) [(ent_HopID (pn_Entrance node), 0)] []"

section \<open>Grouping\<close>

definition group_step ::
  "(listener_key \<Rightarrow> string) \<Rightarrow> listener_group list \<times> (socket \<rightharpoonup> listener_key) \<Rightarrow> ingress_candidate
    \<Rightarrow> (listener_group list \<times> (socket \<rightharpoonup> listener_key)) res" where
  "group_step digest = (\<lambda>(groups, sockets) c.
     let agent = hop_AgentID (ing_hop c); key = listenerKeys agent (ing_endpoint c) in
     bindE (listenerSocketClaims agent (ing_endpoint c)) (\<lambda>claims.
     bindE (wrapE (ErrOther ''Agent has incompatible logical inbounds'') (claim_sockets key sockets claims)) (\<lambda>sockets.
     let groups =
           (if list_ex (\<lambda>g. grp_key g = key) groups then groups
            else groups @ [\<lparr>grp_agentID = agent, grp_key = key, grp_endpoint = ing_endpoint c,
                             grp_tag = ''tp-in-'' @ digest key, grp_candidates = []\<rparr>]);
         known = concat (map (\<lambda>g. if grp_key g = key then concat (map ing_users (grp_candidates g)) else []) groups)
     in if list_ex (\<lambda>u. list_ex (\<lambda>e. ru_Name e = ru_Name u \<or> ru_Secret e = ru_Secret u) known) (ing_users c)
        then fail (ErrOther ''combined listener has duplicate user identity or credential'')
        else ok (map (\<lambda>g. if grp_key g = key then g\<lparr>grp_candidates := grp_candidates g @ [c]\<rparr> else g) groups,
                 sockets))))"

text \<open>The tag and \<open>routeByInbound\<close> the candidates have after the loops.\<close>

definition place_candidate ::
  "(listener_key \<Rightarrow> string) \<Rightarrow> listener_group list \<Rightarrow> ingress_candidate \<Rightarrow> ingress_candidate" where
  "place_candidate digest groups c =
     (let key = listenerKeys (hop_AgentID (ing_hop c)) (ing_endpoint c) in
      c\<lparr>ing_inboundTag := ''tp-in-'' @ digest key,
        ing_routeByInbound :=
          list_ex (\<lambda>g. grp_key g = key \<and> length (grp_candidates g) = 1) groups\<rparr>)"

definition groupListeners ::
  "(listener_key \<Rightarrow> string) \<Rightarrow> (listener_key \<Rightarrow> string) \<Rightarrow> renders \<Rightarrow> ingress_candidate list
    \<Rightarrow> (renders \<times> ingress_candidate list) res" where
  "groupListeners digest text byAgent candidates =
     bindE (foldE (group_step digest) ([], Map.empty) candidates) (\<lambda>(groups, sockets).
       ok (map (\<lambda>(a, r). (a, r\<lparr>ar_groups := sort_key (\<lambda>g. text (grp_key g))
                  (filter (\<lambda>g. grp_agentID g = a) groups)\<rparr>)) byAgent,
           map (place_candidate digest groups) candidates))"

section \<open>Routes\<close>

definition customRuleSet :: "proxy_node \<Rightarrow> string \<Rightarrow> custom_rule_set option" where
  "customRuleSet node tag = find (\<lambda>r. rs_Tag r = tag) (pn_RuleSets node)"

definition geo_rule_set :: "string \<Rightarrow> string \<Rightarrow> fields" where
  "geo_rule_set prefix tag =
     [(''type'', JStr ''remote''), (''format'', JStr ''binary''), (''tag'', JStr tag),
      (''url'', JStr (''https://raw.githubusercontent.com/SagerNet/sing-'' @ prefix @ ''/rule-set/'' @ tag @ ''.srs'')),
      (''update_interval'', JStr ''1d'')]"

definition geo_tag :: "match_type \<Rightarrow> string \<Rightarrow> string" where
  "geo_tag m value = match_name m @ ''-'' @ value"

definition custom_rule_set_tag :: "proxy_node \<Rightarrow> string \<Rightarrow> string" where
  "custom_rule_set_tag node tag = ''tp-rs-'' @ shortID (pn_ID node) @ ''-'' @ tag"

definition renderRuleMatch ::
  "proxy_node \<Rightarrow> rule \<Rightarrow> fields \<Rightarrow> agent_render \<Rightarrow> (agent_render \<times> fields) res" where
  "renderRuleMatch node r output render =
     (case rul_Match r of
        MatchNone \<Rightarrow> ok (render, output)
      | MatchRuleSet \<Rightarrow>
          bindE (foldE (\<lambda>(tags, sets) value.
             bindE (from_option (ErrOther ''undefined custom Rule Set'') (customRuleSet node value)) (\<lambda>custom.
             let tag = custom_rule_set_tag node (rs_Tag custom) in
             ok (tags @ [tag], AList.update tag
                  [(''type'', JStr ''remote''), (''format'', JStr (rs_Format custom)), (''tag'', JStr tag),
                   (''url'', JStr (rs_URL custom)), (''update_interval'', JStr (rs_UpdateInterval custom))] sets)))
             ([], ar_ruleSets render) (rul_Values r)) (\<lambda>(tags, sets).
          ok (render\<lparr>ar_ruleSets := sets\<rparr>, AList.update ''rule_set'' (jstrs tags) output))
      | m \<Rightarrow>
          if m = MatchGeosite \<or> m = MatchGeoIP
          then
            let tags = map (geo_tag m) (rul_Values r)
            in ok (render\<lparr>ar_ruleSets := fold (\<lambda>tag. AList.update tag (geo_rule_set (match_name m) tag)) tags (ar_ruleSets render)\<rparr>,
                   AList.update ''rule_set'' (jstrs tags) output)
          else ok (render, AList.update (match_name m) (jstrs (rul_Values r)) output))"

definition applyTarget :: "fields \<Rightarrow> target \<Rightarrow> fields" where
  "applyTarget rule_fields t =
     (if tgt_Type t = TargetReject then AList.update ''action'' (JStr ''reject'') rule_fields
      else AList.update ''outbound'' (JStr (if tgt_Type t = TargetLink then LinkOutboundTag (tgt_LinkID t) else ''tp-direct''))
             (AList.update ''action'' (JStr ''route'') rule_fields))"

definition rule_base :: "ingress_candidate \<Rightarrow> fields" where
  "rule_base c =
     (''inbound'', jstrs [ing_inboundTag c])
     # (if ing_routeByInbound c then [] else [(''auth_user'', jstrs (map ru_Name (ing_users c)))])"

definition add_rule_fields :: "fields \<Rightarrow> agent_render \<Rightarrow> agent_render" where
  "add_rule_fields f render = render\<lparr>ar_rules := ar_rules render @ [f]\<rparr>"

definition routed_rules :: "proxy_node \<Rightarrow> string \<Rightarrow> (link option \<times> rule) list" where
  "routed_rules node h =
     sort_key (\<lambda>(l, r). rul_Order r)
       (concat (map (\<lambda>l. map (\<lambda>r. (Some l, r)) (lnk_Rules l)) (sort_key lnk_Order (outgoing_links (pn_Links node) h)))
        @ map (\<lambda>b. (None, blk_Rule b)) (filter (\<lambda>b. blk_ParentHopID b = h) (pn_BlockBranches node)))"

definition render_routed_rule :: "ingress_candidate \<Rightarrow> agent_render \<Rightarrow> link option \<times> rule \<Rightarrow> agent_render res" where
  "render_routed_rule c render = (\<lambda>(l, r).
     if ing_users c = [] \<and> \<not> ing_routeByInbound c then ok render
     else bindE (renderRuleMatch (ing_node c) r (rule_base c) render) (\<lambda>(render, rendered).
       ok (add_rule_fields (case l of
              None \<Rightarrow> AList.update ''action'' (JStr ''reject'') rendered
            | Some l \<Rightarrow> AList.update ''outbound'' (JStr (LinkOutboundTag (lnk_ID l)))
                (AList.update ''action'' (JStr ''route'') rendered)) render)))"

definition renderHopRules :: "agent_render \<Rightarrow> ingress_candidate \<Rightarrow> agent_render res" where
  "renderHopRules render c =
     (let node = ing_node c; h = hop_ID (ing_hop c);
          links = sort_key lnk_Order (outgoing_links (pn_Links node) h);
          routed = (ing_users c \<noteq> [] \<or> ing_routeByInbound c)
      in bindE (foldE (render_routed_rule c) render (routed_rules node h)) (\<lambda>render.
         let render = (case find lnk_Fallback links of
               Some l \<Rightarrow> if routed then add_rule_fields (rule_base c @ [(''action'', JStr ''route''),
                   (''outbound'', JStr (LinkOutboundTag (lnk_ID l)))]) render else render
             | None \<Rightarrow> render)
         in ok (if routed then add_rule_fields (applyTarget (rule_base c) (hop_Final (ing_hop c))) render else render)))"

section \<open>Route metadata\<close>

definition has_field :: "string \<Rightarrow> fields \<Rightarrow> bool" where
  "has_field k f \<longleftrightarrow> map_of f k \<noteq> None"

definition rule_set_tags :: "fields \<Rightarrow> string list" where
  "rule_set_tags f =
     (case map_of f ''rule_set'' of
        Some (JArr xs) \<Rightarrow> map (\<lambda>x. case x of JStr s \<Rightarrow> s | _ \<Rightarrow> []) xs
      | _ \<Rightarrow> [])"

definition needs_sniff :: "fields \<Rightarrow> bool" where
  "needs_sniff f \<longleftrightarrow>
     list_ex (\<lambda>k. has_field k f)
       [''protocol'', ''client'', ''domain'', ''domain_suffix'', ''domain_keyword'', ''domain_regex'']
     \<or> list_ex (\<lambda>t. \<not> has_prefix ''geoip-'' t) (rule_set_tags f)"

definition needs_resolve :: "fields \<Rightarrow> bool" where
  "needs_resolve f \<longleftrightarrow>
     list_ex (\<lambda>k. has_field k f) [''ip_version'', ''ip_is_private'', ''ip_cidr'', ''geoip'']
     \<or> list_ex (\<lambda>t. has_prefix ''geoip-'' t \<or> \<not> has_prefix ''geosite-'' t) (rule_set_tags f)"

fun insert_actions :: "bool \<Rightarrow> bool \<Rightarrow> fields list \<Rightarrow> fields list" where
  "insert_actions seen_sniff seen_resolve [] = []"
| "insert_actions seen_sniff seen_resolve (f # fs) =
     (if needs_resolve f \<and> \<not> seen_resolve then [[(''action'', JStr ''resolve'')]] else [])
     @ (if needs_sniff f \<and> \<not> seen_sniff then [[(''action'', JStr ''sniff'')]] else [])
     @ f # insert_actions (seen_sniff \<or> needs_sniff f) (seen_resolve \<or> needs_resolve f) fs"

definition insertRequiredRouteActions :: "fields list \<Rightarrow> fields list" where
  "insertRequiredRouteActions = insert_actions False False"

section \<open>Outbounds\<close>

definition renderInboundMultiplex :: "multiplex_config option \<Rightarrow> fields option" where
  "renderInboundMultiplex config =
     map_option (\<lambda>c.
       (''enabled'', JBool True)
       # (if mux_Padding c then [(''padding'', JBool True)] else [])
       @ (case mux_Brutal c of
            None \<Rightarrow> []
          | Some b \<Rightarrow> [(''brutal'', JObj [(''enabled'', JBool True), (''up_mbps'', JInt (brutal_UpMbps b)),
              (''down_mbps'', JInt (brutal_DownMbps b))])])) config"

definition renderOutboundMultiplex :: "multiplex_config option \<Rightarrow> fields option" where
  "renderOutboundMultiplex config =
     (case config of
        None \<Rightarrow> None
      | Some c \<Rightarrow>
          if \<not> mux_Enabled c then None
          else map_option (\<lambda>f. f @ [(''protocol'', JStr ''smux''), (''max_connections'', JInt 4), (''min_streams'', JInt 4)])
                 (renderInboundMultiplex config))"

definition optional_object :: "string \<Rightarrow> fields option \<Rightarrow> fields" where
  "optional_object k f = (case f of None \<Rightarrow> [] | Some f \<Rightarrow> [(k, JObj f)])"

definition hysteria2_fields :: "endpoint \<Rightarrow> fields" where
  "hysteria2_fields e =
     (if ep_UpMbps e > 0 then [(''up_mbps'', JInt (ep_UpMbps e))] else [])
     @ (if ep_DownMbps e > 0 then [(''down_mbps'', JInt (ep_DownMbps e))] else [])
     @ (if ep_ObfsType e \<noteq> [] then [(''obfs'', JObj [(''type'', JStr (ep_ObfsType e)),
          (''password'', JStr (ep_ObfsSecret e))])] else [])"

definition renderLinkOutbound :: "resolver \<Rightarrow> proxy_node \<Rightarrow> link \<Rightarrow> hop \<Rightarrow> fields res" where
  "renderLinkOutbound resolve node l child =
     (let e = lnk_Endpoint l in
      bindE (ParseFamily (ep_Family e)) (\<lambda>family.
      bindE (from_option (ErrAgentAddressUnavailable (pn_ID node) (pn_Name node) (lnk_ID l) (hop_AgentID child)
               (family_String family)) (resolve (hop_AgentID child) family)) (\<lambda>address.
      let outbound = [(''type'', JStr (protocol_name (ep_Protocol e))), (''tag'', JStr (LinkOutboundTag (lnk_ID l))),
             (''server'', JStr address), (''server_port'', JInt (ep_ListenPort e))]
      in case ep_Protocol e of
           OtherProtocol _ \<Rightarrow> fail (ErrOther ''unsupported Link protocol'')
         | ProtocolShadowsocks \<Rightarrow>
             ok (outbound @ [(''method'', JStr (ep_Method e)),
                  (''password'', JStr (ep_ServerKey e @ '':'' @ cred_Secret (lnk_Credential l)))]
                 @ optional_object ''multiplex'' (renderOutboundMultiplex (ep_Multiplex e)))
         | p \<Rightarrow>
             ok (outbound @ [(''password'', JStr (cred_Secret (lnk_Credential l))),
                  (''tls'', JObj [(''enabled'', JBool True), (''server_name'', JStr (tls_ServerName (ep_TLS e))),
                     (''insecure'', JBool (tls_Mode (ep_TLS e) \<noteq> TLSModeACME))])]
                 @ (if p = ProtocolHysteria2 then hysteria2_fields e else [])))))"

section \<open>Listeners\<close>

definition listenerMultiplex :: "listener_group \<Rightarrow> multiplex_config option" where
  "listenerMultiplex g =
     (case find (\<lambda>c. ep_Multiplex (ing_endpoint c) \<noteq> None) (grp_candidates g) of
        None \<Rightarrow> None
      | Some c \<Rightarrow> ep_Multiplex (ing_endpoint c))"

definition renderInboundTLS :: "(listener_key \<Rightarrow> string) \<Rightarrow> listener_group \<Rightarrow> fields \<times> fields option" where
  "renderInboundTLS digest g =
     (let config = ep_TLS (grp_endpoint g) in
      case tls_Mode config of
        TLSModeACME \<Rightarrow>
          let tag = ''tp-acme-'' @ digest (grp_key g) in
          ([(''enabled'', JBool True), (''certificate_provider'', JStr tag)],
           Some [(''type'', JStr ''acme''), (''tag'', JStr tag), (''domain'', jstrs [tls_ServerName config]),
             (''email'', JStr (tls_Email config)), (''provider'', JStr ''letsencrypt''),
             (''disable_tls_alpn_challenge'', JBool True)])
      | TLSModeSelfSigned \<Rightarrow>
          let base = ''certificates/theatropolis-self-signed/'' @ digest (grp_key g) in
          ([(''enabled'', JBool True), (''server_name'', JStr (tls_ServerName config)),
            (''certificate_path'', JStr (base @ ''/certificate.pem'')), (''key_path'', JStr (base @ ''/private-key.pem''))], None)
      | _ \<Rightarrow>
          ([(''enabled'', JBool True), (''certificate_path'', JStr (tls_CertificatePath config)),
            (''key_path'', JStr (tls_KeyPath config))], None))"

definition renderListener :: "(listener_key \<Rightarrow> string) \<Rightarrow> listener_group \<Rightarrow> (fields \<times> fields option) res" where
  "renderListener digest g =
     (let users = sort_key ru_Name (concat (map ing_users (grp_candidates g)));
          e = grp_endpoint g;
          inbound = [(''type'', JStr (protocol_name (ep_Protocol e))), (''tag'', JStr (grp_tag g)),
            (''listen'', JStr (ep_Listen e)), (''listen_port'', JInt (ep_ListenPort e)),
            (''users'', JArr (map (\<lambda>u. JObj [(''name'', JStr (ru_Name u)), (''password'', JStr (ru_Secret u))]) users))]
      in case ep_Protocol e of
           OtherProtocol _ \<Rightarrow> fail (ErrOther ''unsupported listener protocol'')
         | ProtocolShadowsocks \<Rightarrow>
             ok (inbound @ [(''method'', JStr (ep_Method e)), (''password'', JStr (ep_ServerKey e))]
                 @ (if users = [] then [(''managed'', JBool True)] else [])
                 @ optional_object ''multiplex'' (renderInboundMultiplex (listenerMultiplex g)), None)
         | p \<Rightarrow>
             let (tls, provider) = renderInboundTLS digest g in
             ok (inbound @ [(''tls'', JObj tls)]
                 @ (if p = ProtocolHysteria2 then (''bbr_profile'', JStr ''aggressive'') # hysteria2_fields e else []), provider))"

fun render_groups ::
  "(listener_key \<Rightarrow> string) \<Rightarrow> listener_group list \<Rightarrow> (fields list \<times> fields list) res" where
  "render_groups digest [] = ok ([], [])"
| "render_groups digest (g # gs) =
     bindE (renderListener digest g) (\<lambda>(inbound, provider).
     bindE (render_groups digest gs) (\<lambda>(inbounds, providers).
       ok (inbound # inbounds, (case provider of None \<Rightarrow> providers | Some p \<Rightarrow> p # providers))))"

definition renderAgentConfig :: "(listener_key \<Rightarrow> string) \<Rightarrow> agent_render \<Rightarrow> fields res" where
  "renderAgentConfig digest render =
     bindE (render_groups digest (ar_groups render)) (\<lambda>(inbounds, providers).
     let rules = insertRequiredRouteActions (ar_rules render);
         rule_sets = map snd (sort_key fst (ar_ruleSets render));
         route = [(''rules'', JArr (map JObj rules)), (''final'', JStr ''tp-reject''),
             (''default_domain_resolver'', JStr ''tp-local-dns'')]
           @ (if rule_sets \<noteq> [] then [(''rule_set'', JArr (map JObj rule_sets))] else [])
     in ok ([(''dns'', JObj [(''servers'', JArr [JObj [(''type'', JStr ''local''), (''tag'', JStr ''tp-local-dns'')]])]),
             (''inbounds'', JArr (map JObj inbounds)), (''outbounds'', JArr (map JObj (ar_outbounds render))),
             (''route'', JObj route)]
            @ (if ar_groups render \<noteq> []
               then [(''services'', JArr [JObj [(''type'', JStr ''ssm-api''), (''tag'', JStr ManagedUserAPIServiceTag),
                  (''listen'', JStr ''127.0.0.1''), (''listen_port'', JInt ManagedUserAPIListenPort),
                  (''servers'', JObj (fold (\<lambda>g. AList.update (CHR ''/'' # grp_tag g) (JStr (grp_tag g))) (ar_groups render) []))]])]
               else [])
            @ (if providers \<noteq> [] then [(''certificate_providers'', JArr (map JObj providers))] else [])))"

section \<open>Compile\<close>

definition hop_map :: "proxy_node \<Rightarrow> string \<rightharpoonup> hop" where
  "hop_map node = fill_map hop_ID (\<lambda>h. h) Map.empty (pn_Hops node)"

definition root_users :: "proxy_node \<Rightarrow> render_user list" where
  "root_users node =
     map (\<lambda>m. \<lparr>ru_Name = AuthenticatedUserLabel (mem_ID m), ru_Secret = cred_Secret (mem_Credential m)\<rparr>)
       (filter (\<lambda>m. mem_DisabledReason m = MembershipEnabled) (pn_Memberships node))"

definition link_candidate :: "proxy_node \<Rightarrow> link \<Rightarrow> ingress_candidate res" where
  "link_candidate node l =
     bindE (from_option missing_hop (hop_map node (lnk_ChildHopID l))) (\<lambda>child.
       ok \<lparr>ing_node = node, ing_hop = child, ing_endpoint = lnk_Endpoint l,
          ing_users = [\<lparr>ru_Name = linkUserLabel (lnk_ID l), ru_Secret = cred_Secret (lnk_Credential l)\<rparr>],
          ing_link = Some l, ing_inboundTag = [], ing_routeByInbound = False\<rparr>)"

definition root_candidate :: "proxy_node \<Rightarrow> ingress_candidate res" where
  "root_candidate node =
     bindE (from_option missing_hop (hop_map node (ent_HopID (pn_Entrance node)))) (\<lambda>root.
       ok \<lparr>ing_node = node, ing_hop = root, ing_endpoint = ent_Endpoint (pn_Entrance node),
          ing_users = root_users node, ing_link = None, ing_inboundTag = [], ing_routeByInbound = False\<rparr>)"

definition agent_depths :: "proxy_node \<Rightarrow> (string \<times> nat) list \<Rightarrow> (string \<rightharpoonup> nat) \<Rightarrow> (string \<rightharpoonup> nat) res" where
  "agent_depths node ds depths =
     foldE (\<lambda>depths (h, d).
       bindE (from_option missing_hop (hop_map node h)) (\<lambda>hop.
         ok (if d > (case depths (hop_AgentID hop) of None \<Rightarrow> 0 | Some k \<Rightarrow> k)
             then depths(hop_AgentID hop \<mapsto> d) else depths))) depths ds"

text \<open>One Proxy Node of the first loop, its depths already computed.\<close>

definition collect_node ::
  "renders \<times> (string \<rightharpoonup> nat) \<times> ingress_candidate list \<Rightarrow> proxy_node \<times> (string \<times> nat) list
    \<Rightarrow> (renders \<times> (string \<rightharpoonup> nat) \<times> ingress_candidate list) res" where
  "collect_node = (\<lambda>(byAgent, depths, candidates) (node, ds).
     bindE (agent_depths node ds depths) (\<lambda>depths.
     bindE (root_candidate node) (\<lambda>root.
     bindE (foldE (\<lambda>cs l. bindE (link_candidate node l) (\<lambda>c. ok (cs @ [c]))) (candidates @ [root]) (pn_Links node)) (\<lambda>candidates.
       ok (fold (\<lambda>h. ensureAgentRender (hop_AgentID h)) (pn_Hops node) byAgent, depths, candidates)))))"

definition add_outbound :: "resolver \<Rightarrow> proxy_node \<Rightarrow> renders \<Rightarrow> link \<Rightarrow> renders res" where
  "add_outbound resolve node byAgent l =
     bindE (from_option missing_hop (hop_map node (lnk_ParentHopID l))) (\<lambda>parent.
     bindE (from_option missing_hop (hop_map node (lnk_ChildHopID l))) (\<lambda>child.
     bindE (renderLinkOutbound resolve node l child) (\<lambda>outbound.
       with_render (hop_AgentID parent) (\<lambda>r. ok (r\<lparr>ar_outbounds := ar_outbounds r @ [outbound]\<rparr>)) byAgent)))"

definition compile_nodes ::
  "(listener_key \<Rightarrow> string) \<Rightarrow> (listener_key \<Rightarrow> string) \<Rightarrow> resolver \<Rightarrow> (proxy_node \<times> (string \<times> nat) list) list
    \<Rightarrow> compile_result res" where
  "compile_nodes digest text resolve nodes =
     bindE (foldE collect_node ([], Map.empty, []) nodes) (\<lambda>(byAgent, depths, candidates).
     bindE (groupListeners digest text byAgent candidates) (\<lambda>(byAgent, candidates).
     bindE (foldE (\<lambda>byAgent c. with_render (hop_AgentID (ing_hop c)) (\<lambda>r. renderHopRules r c) byAgent)
              byAgent candidates) (\<lambda>byAgent.
     bindE (foldE (\<lambda>byAgent (node, ds). foldE (add_outbound resolve node) byAgent (pn_Links node)) byAgent nodes) (\<lambda>byAgent.
     bindE (foldE (\<lambda>configs (a, r). bindE (renderAgentConfig digest r) (\<lambda>config. ok (configs @ [(a, config)])))
              [] (sort_key fst byAgent)) (\<lambda>configs.
       ok \<lparr>cr_Configs = configs, cr_AgentDepth = depths\<rparr>)))))"

fun traverse_depths :: "proxy_node list \<Rightarrow> (proxy_node \<times> (string \<times> nat) list) list option" where
  "traverse_depths [] = Some []"
| "traverse_depths (n # ns) =
     (case topologyDepths n of
        None \<Rightarrow> None
      | Some ds \<Rightarrow> (case traverse_depths ns of None \<Rightarrow> None | Some rest \<Rightarrow> Some ((n, ds) # rest)))"

definition Compile ::
  "environment \<Rightarrow> (listener_key \<Rightarrow> string) \<Rightarrow> (listener_key \<Rightarrow> string) \<Rightarrow> resolver option \<Rightarrow> state
    \<Rightarrow> compile_result res option" where
  "Compile env digest text resolver st =
     (case resolver of
        None \<Rightarrow> Some (fail (ErrOther ''Proxy Node compiler requires an address resolver''))
      | Some resolve \<Rightarrow>
          let st = fst (reconcileSharedListenerSecrets st None) in
          case validateState env st of
            Inl e \<Rightarrow> Some (Inl e)
          | Inr _ \<Rightarrow> map_option (compile_nodes digest text resolve) (traverse_depths (st_ProxyNodes st)))"

definition without_users :: "state \<Rightarrow> state" where
  "without_users st = st\<lparr>st_ProxyNodes := map (\<lambda>n. n\<lparr>pn_Memberships := []\<rparr>) (st_ProxyNodes st)\<rparr>"

definition CompileTopology ::
  "environment \<Rightarrow> (listener_key \<Rightarrow> string) \<Rightarrow> (listener_key \<Rightarrow> string) \<Rightarrow> resolver option \<Rightarrow> state
    \<Rightarrow> compile_result res option" where
  "CompileTopology env digest text resolver st = Compile env digest text resolver (without_users st)"

definition compileTopologyDeployment ::
  "environment \<Rightarrow> (listener_key \<Rightarrow> string) \<Rightarrow> (listener_key \<Rightarrow> string) \<Rightarrow> resolver option \<Rightarrow> state
    \<Rightarrow> compile_result res option" where
  "compileTopologyDeployment env digest text resolver st =
     Compile env digest text resolver
       (st\<lparr>st_ProxyNodes := map (\<lambda>n. n\<lparr>pn_Memberships := map activate_membership (pn_Memberships n)\<rparr>) (st_ProxyNodes st)\<rparr>)"

definition live_members :: "state \<Rightarrow> string \<Rightarrow> membership list option" where
  "live_members st nid = fill_map pn_ID pn_Memberships Map.empty (st_ProxyNodes st) nid"

definition applied_with_users :: "state \<Rightarrow> proxy_node list" where
  "applied_with_users st =
     map (\<lambda>n. case live_members st (pn_ID n) of
        None \<Rightarrow> n
      | Some ms \<Rightarrow> n\<lparr>pn_Memberships := map (\<lambda>m. m\<lparr>mem_PendingCredential := None\<rparr>) ms\<rparr>)
       (topologySnapshot (st_AppliedProxyNodes st))"

definition applied_users_state :: "state \<Rightarrow> state" where
  "applied_users_state st =
     (let applied = applied_with_users st in
      \<lparr>st_Revision = st_AppliedRevision st, st_UserRevision = max (st_UserRevision st) 1,
       st_AppliedRevision = st_AppliedRevision st, st_AdministratorProxyAccessEnabled = False,
       st_Users = st_Users st, st_SubscriptionPolicy = empty_subscription_policy,
       st_ProxyNodes = applied, st_AppliedProxyNodes = topologySnapshot applied,
       st_ManagedAgents = [], st_TrafficObservations = [], st_AccountingFailures = []\<rparr>)"

definition CompileAppliedUsers ::
  "environment \<Rightarrow> (listener_key \<Rightarrow> string) \<Rightarrow> (listener_key \<Rightarrow> string) \<Rightarrow> resolver option \<Rightarrow> state
    \<Rightarrow> compile_result res option" where
  "CompileAppliedUsers env digest text resolver st = Compile env digest text resolver (applied_users_state st)"

end
