(* ===== verification/CompilerFacts.thy ===== *)
theory CompilerFacts
  imports Compiler OrderFacts
begin

text \<open>
  What the compiler computes: the depth of every Hop, the metadata actions, and the verdict of the
  compiled rules, which is compared with the routing a Proxy Node describes.

  \<open>dispatch\<close> reads a rule list the way sing-box documents it: rules are tried in order, a rule
  applies if all its fields hold of the connection, \<open>route\<close> and \<open>reject\<close> end the search, other
  actions do not. Whether a match field such as \<open>domain_suffix\<close> holds of the connection is the
  parameter \<open>meets\<close>.
\<close>

section \<open>Depths\<close>

lemma visit_depths_Nil [simp]: "visit_depths links [] depths = Some depths"
  by (subst visit_depths.simps) simp

lemma visit_depths_Cons [simp]: "visit_depths links ((h, d) # rest) depths =
    visit_depths links (map (\<lambda>c. (c, d + 1)) (children_of links h) @ rest) (AList.update h d depths)"
  by (subst visit_depths.simps) simp

lemma children_of_edges: "c \<in> set (children_of links h) \<longleftrightarrow> (h, c) \<in> edges links"
  by (auto simp: children_of_def edges_def)

lemma finite_edges [simp]: "finite (edges links)"
proof -
  have "edges links = (\<lambda>l. (lnk_ParentHopID l, lnk_ChildHopID l)) ` set links" by (auto simp: edges_def)
  then show ?thesis by simp
qed

definition depths_agree :: "(string \<Rightarrow> nat) \<Rightarrow> (string \<times> nat) list \<Rightarrow> bool" where
  "depths_agree D ds \<longleftrightarrow> (\<forall>x k. map_of ds x = Some k \<longrightarrow> k = D x)"

lemma visit_tree:
  assumes acyclic: "acyclic (edges links)" and D: "\<And>p c. (p, c) \<in> edges links \<Longrightarrow> D c = D p + 1"
  shows "\<exists>ds'. visit_depths links ((h, d) # rest) ds = visit_depths links rest ds' \<and>
     fst ` set ds' = fst ` set ds \<union> (edges links)\<^sup>* `` {h} \<and> (d = D h \<longrightarrow> depths_agree D ds \<longrightarrow> depths_agree D ds')"
proof -
  let ?E = "edges links"
  have "wf (?E\<inverse>)" using acyclic by (simp add: finite_acyclic_wf_converse)
  then show ?thesis
  proof (induction h arbitrary: d rest ds)
    case (less h)
    have each: "\<exists>ds'. visit_depths links (map (\<lambda>c. (c, d + 1)) cs @ rest) ds = visit_depths links rest ds' \<and>
        fst ` set ds' = fst ` set ds \<union> ?E\<^sup>* `` set cs \<and> (d = D h \<longrightarrow> depths_agree D ds \<longrightarrow> depths_agree D ds')"
      if "set cs \<subseteq> ?E `` {h}" for cs ds
      using that
    proof (induction cs arbitrary: ds)
      case Nil
      then show ?case by auto
    next
      case (Cons c cs)
      then have edge: "(h, c) \<in> ?E" by auto
      then have "(c, h) \<in> ?E\<inverse>" by simp
      from less.IH [OF this, of "d + 1" "map (\<lambda>c. (c, d + 1)) cs @ rest" ds] obtain ds1 where
        one: "visit_depths links ((c, d + 1) # map (\<lambda>c. (c, d + 1)) cs @ rest) ds
            = visit_depths links (map (\<lambda>c. (c, d + 1)) cs @ rest) ds1"
          "fst ` set ds1 = fst ` set ds \<union> ?E\<^sup>* `` {c}" "d + 1 = D c \<longrightarrow> depths_agree D ds \<longrightarrow> depths_agree D ds1" by blast
      from Cons.IH [of ds1] Cons.prems obtain ds2 where
        two: "visit_depths links (map (\<lambda>c. (c, d + 1)) cs @ rest) ds1 = visit_depths links rest ds2"
          "fst ` set ds2 = fst ` set ds1 \<union> ?E\<^sup>* `` set cs" "d = D h \<longrightarrow> depths_agree D ds1 \<longrightarrow> depths_agree D ds2" by auto
      show ?case
      proof (intro exI conjI impI)
        show "visit_depths links (map (\<lambda>c. (c, d + 1)) (c # cs) @ rest) ds = visit_depths links rest ds2"
          using one(1) two(1) by (simp del: visit_depths_Cons)
        show "fst ` set ds2 = fst ` set ds \<union> ?E\<^sup>* `` set (c # cs)" using one(2) two(2) by auto
        assume "d = D h" "depths_agree D ds"
        with D [OF edge] one(3) two(3) show "depths_agree D ds2" by simp
      qed
    qed
    have "set (children_of links h) \<subseteq> ?E `` {h}" by (auto simp: children_of_edges)
    from each [OF this, of "AList.update h d ds"] obtain ds' where
      ds': "visit_depths links ((h, d) # rest) ds = visit_depths links rest ds'"
        "fst ` set ds' = fst ` set (AList.update h d ds) \<union> ?E\<^sup>* `` set (children_of links h)"
        "d = D h \<longrightarrow> depths_agree D (AList.update h d ds) \<longrightarrow> depths_agree D ds'" by auto
    have below: "?E\<^sup>* `` {h} = insert h (?E\<^sup>* `` set (children_of links h))"
    proof -
      have "(h, x) \<in> ?E\<^sup>* \<longleftrightarrow> x = h \<or> (\<exists>c. (h, c) \<in> ?E \<and> (c, x) \<in> ?E\<^sup>*)" for x
        by (metis converse_rtranclE converse_rtrancl_into_rtrancl rtrancl.rtrancl_refl)
      moreover have "set (children_of links h) = {c. (h, c) \<in> ?E}" by (simp add: set_eq_iff children_of_edges)
      ultimately show ?thesis by blast
    qed
    show ?case
    proof (intro exI conjI impI)
      show "visit_depths links ((h, d) # rest) ds = visit_depths links rest ds'" by (fact ds'(1))
      show "fst ` set ds' = fst ` set ds \<union> ?E\<^sup>* `` {h}" unfolding ds'(2) below dom_update by auto
      assume "d = D h" "depths_agree D ds"
      then have "depths_agree D (AList.update h d ds)" by (auto simp: depths_agree_def update_conv')
      with ds'(3) \<open>d = D h\<close> show "depths_agree D ds'" by blast
    qed
  qed
qed

text \<open>In a routing tree the length of the path from the root is such a function.\<close>

definition root_distance :: "proxy_node \<Rightarrow> string \<Rightarrow> nat" where
  "root_distance node h = (LEAST k. (root_hop node, h) \<in> edges (pn_Links node) ^^ k)"

lemma root_distance_step:
  assumes tree: "routing_tree node" and edge: "(p, c) \<in> edges (pn_Links node)"
  shows "root_distance node c = root_distance node p + 1"
proof -
  let ?E = "edges (pn_Links node)" and ?r = "root_hop node"
  have p: "p \<in> hop_ids node" "c \<noteq> ?r" using tree edge by (auto simp: routing_tree_def)
  then have "(?r, p) \<in> ?E\<^sup>*" using tree by (simp add: routing_tree_def)
  then obtain n where n: "(?r, p) \<in> ?E ^^ n" by (auto simp: rtrancl_power)
  have pred: "(?r, c) \<in> ?E ^^ Suc k \<longleftrightarrow> (?r, p) \<in> ?E ^^ k" for k
  proof
    assume "(?r, c) \<in> ?E ^^ Suc k"
    then obtain q where q: "(?r, q) \<in> ?E ^^ k" "(q, c) \<in> ?E" by auto
    then have "q = p" using edges_unique_parent edge tree unfolding routing_tree_def by blast
    with q show "(?r, p) \<in> ?E ^^ k" by simp
  qed (use edge in auto)
  then have c: "(?r, c) \<in> ?E ^^ Suc n" using n pred by blast
  have "(LEAST k. (?r, c) \<in> ?E ^^ k) = Suc (LEAST k. (?r, c) \<in> ?E ^^ Suc k)"
    using Least_Suc [where P = "\<lambda>k. (?r, c) \<in> ?E ^^ k", OF c] p(2) by simp
  then show ?thesis unfolding pred by (simp add: root_distance_def)
qed

lemma root_distance_root: "root_distance node (root_hop node) = 0"
  unfolding root_distance_def by (rule Least_equality) simp_all

lemma topologyDepths_tree:
  assumes "routing_tree node"
  shows "\<exists>ds. topologyDepths node = Some ds \<and> fst ` set ds = hop_ids node \<and>
     (\<forall>h \<in> hop_ids node. map_of ds h = Some (root_distance node h))"
proof -
  let ?E = "edges (pn_Links node)"
  from visit_tree [where D = "root_distance node", OF routing_tree_acyclic [OF assms] root_distance_step [OF assms], of "root_hop node" 0 "[]" "[]"]
  obtain ds where ds: "topologyDepths node = Some ds" "fst ` set ds = ?E\<^sup>* `` {root_hop node}" "depths_agree (root_distance node) ds"
    unfolding topologyDepths_def by (force simp: root_distance_root depths_agree_def simp del: visit_depths_Cons)
  have "?E\<^sup>* `` {root_hop node} = hop_ids node"
  proof -
    have "h \<in> hop_ids node" if "(root_hop node, h) \<in> ?E\<^sup>*" for h
      using that by (cases rule: rtranclE) (use assms in \<open>auto simp: routing_tree_def\<close>)
    with assms show ?thesis by (auto simp: routing_tree_def)
  qed
  moreover have "map_of ds h = Some (root_distance node h)" if "h \<in> fst ` set ds" for h
  proof -
    from that obtain k where "map_of ds h = Some k" by (metis domD domIff dom_map_of_conv_image_fst)
    with ds(3) show ?thesis by (simp add: depths_agree_def)
  qed
  ultimately show ?thesis using ds by auto
qed

section \<open>Reading a rule list\<close>

datatype verdict = RouteTo string | Rejected

record connection =
  cx_inbound :: string
  cx_user :: string

type_synonym matching = "string \<Rightarrow> json \<Rightarrow> bool"

definition listed :: "string \<Rightarrow> json \<Rightarrow> bool" where
  "listed s v \<longleftrightarrow> (case v of JArr xs \<Rightarrow> JStr s \<in> set xs | _ \<Rightarrow> False)"

definition field_holds :: "matching \<Rightarrow> connection \<Rightarrow> string \<times> json \<Rightarrow> bool" where
  "field_holds meets cx = (\<lambda>(k, v).
     if k = ''inbound'' then listed (cx_inbound cx) v
     else if k = ''auth_user'' then listed (cx_user cx) v
     else if k = ''action'' \<or> k = ''outbound'' then True
     else meets k v)"

definition rule_holds :: "matching \<Rightarrow> connection \<Rightarrow> fields \<Rightarrow> bool" where
  "rule_holds meets cx f \<longleftrightarrow> list_all (field_holds meets cx) f"

definition verdict_of :: "fields \<Rightarrow> verdict option" where
  "verdict_of f =
     (if map_of f ''action'' = Some (JStr ''reject'') then Some Rejected
      else if map_of f ''action'' = Some (JStr ''route'')
      then (case map_of f ''outbound'' of Some (JStr t) \<Rightarrow> Some (RouteTo t) | _ \<Rightarrow> None)
      else None)"

fun dispatch :: "matching \<Rightarrow> connection \<Rightarrow> fields list \<Rightarrow> verdict option" where
  "dispatch meets cx [] = None"
| "dispatch meets cx (f # fs) =
     (if rule_holds meets cx f \<and> verdict_of f \<noteq> None then verdict_of f else dispatch meets cx fs)"

lemma dispatch_append:
  "dispatch meets cx (fs @ gs) = (case dispatch meets cx fs of None \<Rightarrow> dispatch meets cx gs | Some v \<Rightarrow> Some v)"
  by (induction fs) (auto split: option.split)

lemma listed_jstrs [simp]: "listed s (jstrs xs) \<longleftrightarrow> s \<in> set xs"
  by (auto simp: listed_def jstrs_def)

text \<open>The metadata actions do not decide anything.\<close>

definition resolve_action :: fields where
  "resolve_action = [(''action'', JStr ''resolve'')]"

definition sniff_action :: fields where
  "sniff_action = [(''action'', JStr ''sniff'')]"

lemma insert_actions_Cons:
  "insert_actions s r (f # fs) =
     ((if needs_resolve f \<and> \<not> r then [resolve_action] else []) @ (if needs_sniff f \<and> \<not> s then [sniff_action] else []) @ [f])
     @ insert_actions (s \<or> needs_sniff f) (r \<or> needs_resolve f) fs"
  by (simp add: resolve_action_def sniff_action_def)

lemma no_verdict [simp]: "verdict_of resolve_action = None" "verdict_of sniff_action = None"
  by (simp_all add: verdict_of_def resolve_action_def sniff_action_def)

lemma dispatch_insert_actions: "dispatch meets cx (insert_actions s r fs) = dispatch meets cx fs"
proof (induction fs arbitrary: s r)
  case (Cons f fs)
  then show ?case unfolding insert_actions_Cons by (auto simp: dispatch_append split: option.split)
qed simp

lemma insert_actions_rules:
  "sniff_action \<notin> set fs \<Longrightarrow> resolve_action \<notin> set fs \<Longrightarrow>
     filter (\<lambda>f. f \<noteq> sniff_action \<and> f \<noteq> resolve_action) (insert_actions s r fs) = fs"
  by (induction fs arbitrary: s r) (auto simp: sniff_action_def resolve_action_def)

lemma insert_actions_count:
  assumes "sniff_action \<notin> set fs" "resolve_action \<notin> set fs"
  shows "count_list (insert_actions s r fs) sniff_action = (if s \<or> \<not> list_ex needs_sniff fs then 0 else 1)"
    and "count_list (insert_actions s r fs) resolve_action = (if r \<or> \<not> list_ex needs_resolve fs then 0 else 1)"
  using assms by (induction fs arbitrary: s r) (auto simp: sniff_action_def resolve_action_def)

lemma insert_actions_before:
  assumes "insert_actions s r fs = xs @ f # ys" "f \<noteq> sniff_action" "f \<noteq> resolve_action"
    and "sniff_action \<notin> set fs" "resolve_action \<notin> set fs"
  shows "(needs_sniff f \<longrightarrow> s \<or> sniff_action \<in> set xs) \<and> (needs_resolve f \<longrightarrow> r \<or> resolve_action \<in> set xs)"
  using assms
proof (induction fs arbitrary: s r xs)
  case Nil
  then show ?case by simp
next
  case (Cons g gs)
  let ?pre = "(if needs_resolve g \<and> \<not> r then [resolve_action] else []) @ (if needs_sniff g \<and> \<not> s then [sniff_action] else [])"
  have split: "(?pre @ [g]) @ insert_actions (s \<or> needs_sniff g) (r \<or> needs_resolve g) gs = xs @ f # ys"
    using Cons.prems(1) unfolding insert_actions_Cons by (simp only: append_assoc)
  consider (here) "xs = ?pre" "f = g"
    | (later) zs where "xs = ?pre @ g # zs" "insert_actions (s \<or> needs_sniff g) (r \<or> needs_resolve g) gs = zs @ f # ys"
    using split Cons.prems(2,3) by (auto simp: append_eq_Cons_conv Cons_eq_append_conv split: if_splits)
  then show ?case
  proof cases
    case here
    then show ?thesis by auto
  next
    case later
    from Cons.IH [OF later(2) Cons.prems(2,3)] Cons.prems(4,5)
    show ?thesis using later(1) by auto
  qed
qed

section \<open>The rules of one Hop\<close>

definition rule_met :: "matching \<Rightarrow> proxy_node \<Rightarrow> rule \<Rightarrow> bool" where
  "rule_met meets node r \<longleftrightarrow>
     (case rul_Match r of
        MatchNone \<Rightarrow> True
      | MatchRuleSet \<Rightarrow> meets ''rule_set'' (jstrs (map (custom_rule_set_tag node) (rul_Values r)))
      | MatchGeosite \<Rightarrow> meets ''rule_set'' (jstrs (map (geo_tag MatchGeosite) (rul_Values r)))
      | MatchGeoIP \<Rightarrow> meets ''rule_set'' (jstrs (map (geo_tag MatchGeoIP) (rul_Values r)))
      | m \<Rightarrow> meets (match_name m) (jstrs (rul_Values r)))"

text \<open>What the topology says about a connection that has arrived at a Hop: the first Rule or BLOCK
  branch that applies, else the Fallback Link, else the terminal exit.\<close>

definition hop_verdict :: "matching \<Rightarrow> proxy_node \<Rightarrow> hop \<Rightarrow> verdict" where
  "hop_verdict meets node h =
     (case find (\<lambda>(l, r). rule_met meets node r) (routed_rules node (hop_ID h)) of
        Some (Some l, r) \<Rightarrow> RouteTo (LinkOutboundTag (lnk_ID l))
      | Some (None, r) \<Rightarrow> Rejected
      | None \<Rightarrow>
          (case find lnk_Fallback (sort_key lnk_Order (outgoing_links (pn_Links node) (hop_ID h))) of
             Some l \<Rightarrow> RouteTo (LinkOutboundTag (lnk_ID l))
           | None \<Rightarrow> if tgt_Type (hop_Final h) = TargetReject then Rejected
               else RouteTo (if tgt_Type (hop_Final h) = TargetLink then LinkOutboundTag (tgt_LinkID (hop_Final h)) else ''tp-direct'')))"

definition arrives_at :: "connection \<Rightarrow> ingress_candidate \<Rightarrow> bool" where
  "arrives_at cx c \<longleftrightarrow> cx_inbound cx = ing_inboundTag c \<and>
     (ing_routeByInbound c \<or> cx_user cx \<in> ru_Name ` set (ing_users c))"

definition known_match :: "rule \<Rightarrow> bool" where
  "known_match r \<longleftrightarrow> (case rul_Match r of OtherMatch _ \<Rightarrow> False | _ \<Rightarrow> True)"

lemma rule_base_keys: "fst ` set (rule_base c) \<subseteq> {''inbound'', ''auth_user''}"
  by (auto simp: rule_base_def)

lemma rule_base_holds: "rule_holds meets cx (rule_base c) \<longleftrightarrow> arrives_at cx c"
  by (auto simp: rule_base_def rule_holds_def field_holds_def arrives_at_def)

lemma update_absent: "k \<notin> fst ` set al \<Longrightarrow> AList.update k v al = al @ [(k, v)]"
  by (induction al) auto

text \<open>The fields of a rendered rule.\<close>

definition match_fields :: "proxy_node \<Rightarrow> rule \<Rightarrow> fields" where
  "match_fields node r =
     (case rul_Match r of
        MatchNone \<Rightarrow> []
      | MatchRuleSet \<Rightarrow> [(''rule_set'', jstrs (map (custom_rule_set_tag node) (rul_Values r)))]
      | MatchGeosite \<Rightarrow> [(''rule_set'', jstrs (map (geo_tag MatchGeosite) (rul_Values r)))]
      | MatchGeoIP \<Rightarrow> [(''rule_set'', jstrs (map (geo_tag MatchGeoIP) (rul_Values r)))]
      | m \<Rightarrow> [(match_name m, jstrs (rul_Values r))])"

lemma custom_tags:
  "foldE (\<lambda>(tags, sets) value.
       bindE (from_option e (customRuleSet node value)) (\<lambda>custom.
       ok (tags @ [custom_rule_set_tag node (rs_Tag custom)], AList.update (custom_rule_set_tag node (rs_Tag custom)) (g custom) sets)))
     (tags, sets) vs = Inr (tags', sets') \<Longrightarrow>
   tags' = tags @ map (custom_rule_set_tag node) vs \<and> (\<forall>v \<in> set vs. customRuleSet node v \<noteq> None) \<and>
   fst ` set sets' = fst ` set sets \<union> custom_rule_set_tag node ` set vs"
proof (induction vs arbitrary: tags sets)
  case Nil
  then show ?case by simp
next
  case (Cons v vs)
  then obtain custom where c: "customRuleSet node v = Some custom"
    by (auto simp: bindE_Inr_iff from_option_Inr)
  then have "rs_Tag custom = v" using find_SomeD(2) [of "\<lambda>r. rs_Tag r = v"] by (simp add: customRuleSet_def)
  with Cons.prems c have rest: "foldE (\<lambda>(tags, sets) value.
       bindE (from_option e (customRuleSet node value)) (\<lambda>custom.
       ok (tags @ [custom_rule_set_tag node (rs_Tag custom)], AList.update (custom_rule_set_tag node (rs_Tag custom)) (g custom) sets)))
     (tags @ [custom_rule_set_tag node v], AList.update (custom_rule_set_tag node v) (g custom) sets) vs = Inr (tags', sets')"
    by (simp add: from_option_def)
  from Cons.IH [OF rest] c show ?case by (auto simp: dom_update)
qed

lemma renderRuleMatch_result:
  assumes "renderRuleMatch node r output render = Inr (render', rendered)" "known_match r"
    and "fst ` set output \<subseteq> {''inbound'', ''auth_user''}"
  shows "rendered = output @ match_fields node r" "ar_rules render' = ar_rules render" "ar_outbounds render' = ar_outbounds render"
    "ar_groups render' = ar_groups render"
proof -
  have absent: "AList.update k v output = output @ [(k, v)]" if "k \<noteq> ''inbound''" "k \<noteq> ''auth_user''" for k v
    using that assms(3) by (intro update_absent) auto
  show "rendered = output @ match_fields node r" "ar_rules render' = ar_rules render" "ar_outbounds render' = ar_outbounds render"
    "ar_groups render' = ar_groups render"
    using assms(1,2) by (auto simp: renderRuleMatch_def match_fields_def known_match_def absent Let_def bindE_Inr_iff
        split: match_type.splits dest!: custom_tags)
qed

lemma match_fields_holds:
  assumes "known_match r"
  shows "rule_holds meets cx (match_fields node r) \<longleftrightarrow> rule_met meets node r"
    "fst ` set (match_fields node r) \<inter> {''action'', ''outbound''} = {}"
  using assms by (auto simp: match_fields_def rule_met_def rule_holds_def field_holds_def known_match_def split: match_type.splits)

lemma rule_holds_append [simp]: "rule_holds meets cx (f @ g) \<longleftrightarrow> rule_holds meets cx f \<and> rule_holds meets cx g"
  by (simp add: rule_holds_def)

lemma rule_holds_actions [simp]:
  "rule_holds meets cx [(''action'', a)]" "rule_holds meets cx [(''action'', a), (''outbound'', b)]"
  by (simp_all add: rule_holds_def field_holds_def)

lemma route_fields:
  assumes "fst ` set f \<inter> {''action'', ''outbound''} = {}"
  shows "AList.update ''action'' (JStr ''reject'') f = f @ [(''action'', JStr ''reject'')]"
    and "AList.update ''outbound'' (JStr t) (AList.update ''action'' (JStr ''route'') f) = f @ [(''action'', JStr ''route''), (''outbound'', JStr t)]"
    and "verdict_of (f @ [(''action'', JStr ''reject'')]) = Some Rejected"
    and "verdict_of (f @ [(''action'', JStr ''route''), (''outbound'', JStr t)]) = Some (RouteTo t)"
proof -
  have absent: "''action'' \<notin> fst ` set f" "''outbound'' \<notin> fst ` set f" using assms by auto
  then have none: "map_of f ''action'' = None" "map_of f ''outbound'' = None" by (simp_all add: map_of_eq_None_iff)
  show "AList.update ''action'' (JStr ''reject'') f = f @ [(''action'', JStr ''reject'')]"
    "AList.update ''outbound'' (JStr t) (AList.update ''action'' (JStr ''route'') f) = f @ [(''action'', JStr ''route''), (''outbound'', JStr t)]"
    using absent by (simp_all add: update_absent)
  show "verdict_of (f @ [(''action'', JStr ''reject'')]) = Some Rejected"
    "verdict_of (f @ [(''action'', JStr ''route''), (''outbound'', JStr t)]) = Some (RouteTo t)"
    using none by (simp_all add: verdict_of_def map_add_def)
qed

definition rules_verdict :: "matching \<Rightarrow> proxy_node \<Rightarrow> (link option \<times> rule) list \<Rightarrow> verdict option" where
  "rules_verdict meets node rs =
     map_option (\<lambda>(l, r). case l of None \<Rightarrow> Rejected | Some l \<Rightarrow> RouteTo (LinkOutboundTag (lnk_ID l)))
       (find (\<lambda>(l, r). rule_met meets node r) rs)"

definition or_else :: "verdict option \<Rightarrow> verdict option \<Rightarrow> verdict option" where
  "or_else a b = (case a of None \<Rightarrow> b | Some v \<Rightarrow> Some v)"

lemma or_else_simps [simp]: "or_else None b = b" "or_else (Some v) b = Some v" "or_else a None = a"
  "or_else (or_else a b) d = or_else a (or_else b d)"
  by (cases a; simp add: or_else_def)+

lemma dispatch_app: "dispatch meets cx (fs @ gs) = or_else (dispatch meets cx fs) (dispatch meets cx gs)"
  by (simp add: dispatch_append or_else_def)

definition only_rules :: "agent_render \<Rightarrow> agent_render \<Rightarrow> bool" where
  "only_rules r r' \<longleftrightarrow> ar_outbounds r' = ar_outbounds r \<and> ar_groups r' = ar_groups r"

lemma add_rule_fields_simps [simp]:
  "ar_rules (add_rule_fields f r) = ar_rules r @ [f]" "only_rules r (add_rule_fields f r)"
  "only_rules q (add_rule_fields f r) = only_rules q r" "ar_outbounds (add_rule_fields f r) = ar_outbounds r"
  "ar_groups (add_rule_fields f r) = ar_groups r" "ar_ruleSets (add_rule_fields f r) = ar_ruleSets r"
  by (simp_all add: add_rule_fields_def only_rules_def)

lemma render_routed_rule_verdict:
  assumes "render_routed_rule c render (l, r) = Inr render'" "known_match r"
  shows "only_rules render render' \<and> dispatch meets cx (ar_rules render') =
     or_else (dispatch meets cx (ar_rules render))
       (if arrives_at cx c then rules_verdict meets (ing_node c) [(l, r)] else None)"
proof (cases "ing_users c = [] \<and> \<not> ing_routeByInbound c")
  case True
  with assms(1) show ?thesis by (auto simp: render_routed_rule_def arrives_at_def only_rules_def)
next
  case False
  let ?fields = "rule_base c @ match_fields (ing_node c) r"
  from assms(1) False obtain render1 rendered where m: "renderRuleMatch (ing_node c) r (rule_base c) render = Inr (render1, rendered)"
    and render': "render' = add_rule_fields (case l of None \<Rightarrow> AList.update ''action'' (JStr ''reject'') rendered
            | Some l \<Rightarrow> AList.update ''outbound'' (JStr (LinkOutboundTag (lnk_ID l)))
                (AList.update ''action'' (JStr ''route'') rendered)) render1"
    by (auto simp: render_routed_rule_def bindE_Inr_iff)
  note one = renderRuleMatch_result [OF m assms(2) rule_base_keys]
  have clean: "fst ` set ?fields \<inter> {''action'', ''outbound''} = {}"
    using match_fields_holds(2) [OF assms(2), of "ing_node c"] by (auto simp: rule_base_def)
  note route = route_fields [OF clean]
  have holds: "rule_holds meets cx ?fields \<longleftrightarrow> arrives_at cx c \<and> rule_met meets (ing_node c) r"
    using match_fields_holds(1) [OF assms(2)] by (simp add: rule_base_holds)
  show ?thesis
    by (cases l) (use one holds route in \<open>simp_all add: render' only_rules_def dispatch_app rules_verdict_def\<close>)
qed

lemma routed_rules_verdict:
  assumes "foldE (render_routed_rule c) render rs = Inr render'" "\<forall>(l, r) \<in> set rs. known_match r"
  shows "only_rules render render' \<and> dispatch meets cx (ar_rules render') =
     or_else (dispatch meets cx (ar_rules render)) (if arrives_at cx c then rules_verdict meets (ing_node c) rs else None)"
  using assms
proof (induction rs arbitrary: render)
  case Nil
  then show ?case by (simp add: rules_verdict_def only_rules_def)
next
  case (Cons x rs)
  obtain l r where x: "x = (l, r)" by fastforce
  from Cons.prems(1) obtain render1 where one: "render_routed_rule c render (l, r) = Inr render1"
    and rest: "foldE (render_routed_rule c) render1 rs = Inr render'" by (auto simp: x bindE_Inr_iff)
  have "known_match r" using Cons.prems(2) by (simp add: x)
  from render_routed_rule_verdict [OF one this, of meets cx] Cons.IH [OF rest] Cons.prems(2) show ?case
    by (auto simp: x only_rules_def rules_verdict_def)
qed

lemma applyTarget_fields:
  "applyTarget (rule_base c) t = rule_base c @
     (if tgt_Type t = TargetReject then [(''action'', JStr ''reject'')]
      else [(''action'', JStr ''route''),
            (''outbound'', JStr (if tgt_Type t = TargetLink then LinkOutboundTag (tgt_LinkID t) else ''tp-direct''))])"
  "verdict_of (applyTarget (rule_base c) t) = Some (if tgt_Type t = TargetReject then Rejected
      else RouteTo (if tgt_Type t = TargetLink then LinkOutboundTag (tgt_LinkID t) else ''tp-direct''))"
proof -
  have clean: "fst ` set (rule_base c) \<inter> {''action'', ''outbound''} = {}" by (auto simp: rule_base_def)
  note route = route_fields [OF clean]
  show fields: "applyTarget (rule_base c) t = rule_base c @
     (if tgt_Type t = TargetReject then [(''action'', JStr ''reject'')]
      else [(''action'', JStr ''route''),
            (''outbound'', JStr (if tgt_Type t = TargetLink then LinkOutboundTag (tgt_LinkID t) else ''tp-direct''))])"
    unfolding applyTarget_def using route(1,2) by simp
  show "verdict_of (applyTarget (rule_base c) t) = Some (if tgt_Type t = TargetReject then Rejected
      else RouteTo (if tgt_Type t = TargetLink then LinkOutboundTag (tgt_LinkID t) else ''tp-direct''))"
    unfolding fields using route(3,4) by simp
qed

lemma renderHopRules_verdict:
  assumes run: "renderHopRules render c = Inr render'"
    and known: "\<forall>(l, r) \<in> set (routed_rules (ing_node c) (hop_ID (ing_hop c))). known_match r"
  shows "only_rules render render' \<and> dispatch meets cx (ar_rules render') =
     or_else (dispatch meets cx (ar_rules render))
       (if arrives_at cx c then Some (hop_verdict meets (ing_node c) (ing_hop c)) else None)"
proof -
  let ?node = "ing_node c" and ?h = "hop_ID (ing_hop c)" and ?final = "applyTarget (rule_base c) (hop_Final (ing_hop c))"
  let ?links = "sort_key lnk_Order (outgoing_links (pn_Links ?node) ?h)"
  let ?routed = "ing_users c \<noteq> [] \<or> ing_routeByInbound c"
  obtain render1 where one: "foldE (render_routed_rule c) render (routed_rules ?node ?h) = Inr render1"
    and render': "(let render = (case find lnk_Fallback ?links of
               Some l \<Rightarrow> if ?routed then add_rule_fields (rule_base c @ [(''action'', JStr ''route''),
                   (''outbound'', JStr (LinkOutboundTag (lnk_ID l)))]) render1 else render1
             | None \<Rightarrow> render1) in if ?routed then add_rule_fields ?final render else render) = render'"
    using run unfolding renderHopRules_def Let_def bindE_Inr_iff sum.inject by blast
  note rules = routed_rules_verdict [OF one known, of meets cx]
  have clean: "fst ` set (rule_base c) \<inter> {''action'', ''outbound''} = {}" by (auto simp: rule_base_def)
  have final: "rule_holds meets cx ?final \<longleftrightarrow> arrives_at cx c" unfolding applyTarget_fields by (simp add: rule_base_holds)
  have verdict: "hop_verdict meets ?node (ing_hop c) =
      (case rules_verdict meets ?node (routed_rules ?node ?h) of Some v \<Rightarrow> v
       | None \<Rightarrow> (case find lnk_Fallback ?links of Some l \<Rightarrow> RouteTo (LinkOutboundTag (lnk_ID l))
           | None \<Rightarrow> the (verdict_of ?final)))"
    by (auto simp: hop_verdict_def rules_verdict_def applyTarget_fields(2) split: option.split)
  show ?thesis
  proof (cases ?routed)
    case False
    then have "\<not> arrives_at cx c" by (auto simp: arrives_at_def)
    moreover have "render' = render1" using False by (auto simp: render' [symmetric] split: option.split)
    ultimately show ?thesis using rules by simp
  next
    case True
    show ?thesis
    proof (cases "find lnk_Fallback ?links")
      case None
      with True rules final verdict applyTarget_fields(2) [of c "hop_Final (ing_hop c)"] show ?thesis
        by (auto simp: render' [symmetric] dispatch_app only_rules_def split: option.split)
    next
      case (Some l)
      with True rules final verdict route_fields(4) [OF clean, of "LinkOutboundTag (lnk_ID l)"]
        applyTarget_fields(2) [of c "hop_Final (ing_hop c)"] show ?thesis
        by (auto simp: render' [symmetric] dispatch_app only_rules_def rule_base_holds split: option.split)
    qed
  qed
qed

end
