(* ===== verification/CompileResult.thy ===== *)
theory CompileResult
  imports CompilerFacts
begin

text \<open>
  The result of a compilation: which candidates share a listener, what the configuration of an
  Agent decides for a connection, and that a validated state compiles.
\<close>

section \<open>Groups\<close>

abbreviation candidate_agent :: "ingress_candidate \<Rightarrow> string" where
  "candidate_agent c \<equiv> hop_AgentID (ing_hop c)"

definition candidate_key :: "ingress_candidate \<Rightarrow> listener_key" where
  "candidate_key c = listenerKeys (candidate_agent c) (ing_endpoint c)"

definition names_of :: "ingress_candidate \<Rightarrow> string set" where
  "names_of c = ru_Name ` set (ing_users c)"

definition apart :: "ingress_candidate \<Rightarrow> ingress_candidate \<Rightarrow> bool" where
  "apart c d \<longleftrightarrow> (candidate_key c = candidate_key d \<longrightarrow> names_of c \<inter> names_of d = {})"

definition groups_ok :: "(listener_key \<Rightarrow> string) \<Rightarrow> listener_group list \<Rightarrow> ingress_candidate list \<Rightarrow> bool" where
  "groups_ok digest groups cs \<longleftrightarrow>
     distinct (map grp_key groups) \<and> grp_key ` set groups = candidate_key ` set cs \<and>
     (\<forall>g \<in> set groups. grp_candidates g = filter (\<lambda>c. candidate_key c = grp_key g) cs
        \<and> grp_tag g = ''tp-in-'' @ digest (grp_key g) \<and> grp_agentID g = so_Agent (fst (grp_key g))
        \<and> grp_endpoint g \<in> ing_endpoint ` set (grp_candidates g)) \<and>
     sorted_wrt apart cs"

lemma key_agent [simp]: "so_Agent (fst (listenerKeys a e)) = a"
  by (simp add: listenerKeys_def listener_socket_def)

lemma group_step_ok:
  assumes run: "group_step digest (groups, sockets) c = Inr (groups', sockets')" and inv: "groups_ok digest groups cs"
  shows "groups_ok digest groups' (cs @ [c])"
proof -
  let ?key = "candidate_key c"
  define base where "base = (if list_ex (\<lambda>g. grp_key g = ?key) groups then groups
            else groups @ [\<lparr>grp_agentID = candidate_agent c, grp_key = ?key, grp_endpoint = ing_endpoint c,
                             grp_tag = ''tp-in-'' @ digest ?key, grp_candidates = []\<rparr>])"
  define known where "known = concat (map (\<lambda>g. if grp_key g = ?key then concat (map ing_users (grp_candidates g)) else []) base)"
  have new: "\<not> list_ex (\<lambda>u. list_ex (\<lambda>e. ru_Name e = ru_Name u \<or> ru_Secret e = ru_Secret u) known) (ing_users c)"
    and groups': "groups' = map (\<lambda>g. if grp_key g = ?key then g\<lparr>grp_candidates := grp_candidates g @ [c]\<rparr> else g) base"
    using run by (auto simp: group_step_def Let_def bindE_Inr_iff candidate_key_def base_def known_def split: if_splits)
  have absent: "filter (\<lambda>d. candidate_key d = ?key) cs = []" if "\<not> list_ex (\<lambda>g. grp_key g = ?key) groups"
  proof -
    from that have "?key \<notin> grp_key ` set groups" by (auto simp: list_ex_iff)
    with inv have "?key \<notin> candidate_key ` set cs" by (simp add: groups_ok_def)
    then show ?thesis unfolding filter_empty_conv by (metis image_eqI)
  qed
  have base: "distinct (map grp_key base)" "grp_key ` set base = insert ?key (candidate_key ` set cs)"
    "\<forall>g \<in> set base. grp_candidates g = filter (\<lambda>d. candidate_key d = grp_key g) cs
        \<and> grp_tag g = ''tp-in-'' @ digest (grp_key g) \<and> grp_agentID g = so_Agent (fst (grp_key g))"
    "\<forall>g \<in> set base. grp_endpoint g \<in> ing_endpoint ` set (grp_candidates g @ (if grp_key g = ?key then [c] else []))"
  proof -
    have inv': "distinct (map grp_key groups)" "grp_key ` set groups = candidate_key ` set cs"
      "\<forall>g \<in> set groups. grp_candidates g = filter (\<lambda>c. candidate_key c = grp_key g) cs
        \<and> grp_tag g = ''tp-in-'' @ digest (grp_key g) \<and> grp_agentID g = so_Agent (fst (grp_key g))"
      "\<forall>g \<in> set groups. grp_endpoint g \<in> ing_endpoint ` set (grp_candidates g)"
      using inv unfolding groups_ok_def by blast+
    have present: "list_ex (\<lambda>g. grp_key g = ?key) groups \<longleftrightarrow> ?key \<in> grp_key ` set groups"
      unfolding list_ex_iff by (metis image_iff)
    show "distinct (map grp_key base)" using inv'(1) present by (simp add: base_def)
    show "grp_key ` set base = insert ?key (candidate_key ` set cs)"
    proof (cases "list_ex (\<lambda>g. grp_key g = ?key) groups")
      case True
      with present inv'(2) show ?thesis by (simp add: base_def insert_absorb)
    next
      case False
      with inv'(2) show ?thesis by (simp add: base_def)
    qed
    show "\<forall>g \<in> set base. grp_candidates g = filter (\<lambda>d. candidate_key d = grp_key g) cs
        \<and> grp_tag g = ''tp-in-'' @ digest (grp_key g) \<and> grp_agentID g = so_Agent (fst (grp_key g))"
      using inv'(3) absent by (simp add: base_def candidate_key_def)
    show "\<forall>g \<in> set base. grp_endpoint g \<in> ing_endpoint ` set (grp_candidates g @ (if grp_key g = ?key then [c] else []))"
      using inv'(4) by (auto simp: base_def)
  qed
  have "names_of d \<inter> names_of c = {}" if "d \<in> set cs" "candidate_key d = ?key" for d
  proof -
    have "?key \<in> grp_key ` set base" using base(2) by simp
    then obtain g where g: "g \<in> set base" "grp_key g = ?key" by (metis imageE)
    with base(3) that have "d \<in> set (grp_candidates g)" by simp
    with g have "set (ing_users d) \<subseteq> set known" by (auto simp: known_def)
    with new show ?thesis by (force simp: list_ex_iff names_of_def)
  qed
  then have sorted: "sorted_wrt apart (cs @ [c])" using inv by (auto simp: groups_ok_def sorted_wrt_append apart_def)
  have "map grp_key groups' = map grp_key base" by (simp add: groups')
  then have keys: "distinct (map grp_key groups')" "grp_key ` set groups' = candidate_key ` set (cs @ [c])"
    using base(1,2) by simp_all (metis image_set)
  have "\<forall>g \<in> set groups'. grp_candidates g = filter (\<lambda>d. candidate_key d = grp_key g) (cs @ [c])
        \<and> grp_tag g = ''tp-in-'' @ digest (grp_key g) \<and> grp_agentID g = so_Agent (fst (grp_key g))
        \<and> grp_endpoint g \<in> ing_endpoint ` set (grp_candidates g)"
    using base(3,4) by (auto simp: groups')
  with keys sorted show ?thesis by (simp only: groups_ok_def)
qed

lemma group_fold_ok:
  "foldE (group_step digest) (groups, sockets) cs = Inr (groups', sockets') \<Longrightarrow> groups_ok digest groups ds \<Longrightarrow>
     groups_ok digest groups' (ds @ cs)"
proof (induction cs arbitrary: groups sockets ds)
  case Nil
  then show ?case by simp
next
  case (Cons c cs)
  then obtain g s where "group_step digest (groups, sockets) c = Inr (g, s)" "foldE (group_step digest) (g, s) cs = Inr (groups', sockets')"
    by (auto simp: bindE_Inr_iff)
  with Cons.IH [of g s "ds @ [c]"] group_step_ok [of digest groups sockets c g s ds] Cons.prems(2) show ?case by simp
qed

lemma place_candidate_simps [simp]:
  "ing_node (place_candidate digest groups c) = ing_node c" "ing_hop (place_candidate digest groups c) = ing_hop c"
  "ing_users (place_candidate digest groups c) = ing_users c" "ing_endpoint (place_candidate digest groups c) = ing_endpoint c"
  "ing_inboundTag (place_candidate digest groups c) = ''tp-in-'' @ digest (candidate_key c)"
  by (simp_all add: place_candidate_def Let_def candidate_key_def)

lemma route_by_inbound:
  assumes "groups_ok digest groups cs" "c \<in> set cs"
  shows "ing_routeByInbound (place_candidate digest groups c) \<longleftrightarrow> length (filter (\<lambda>d. candidate_key d = candidate_key c) cs) = 1"
proof -
  from assms have "candidate_key c \<in> grp_key ` set groups" by (simp add: groups_ok_def)
  then obtain g where g: "g \<in> set groups" "grp_key g = candidate_key c" by auto
  have "g' = g" if "g' \<in> set groups" "grp_key g' = candidate_key c" for g'
  proof -
    have "inj_on grp_key (set groups)" using assms(1) by (simp add: groups_ok_def distinct_map)
    from inj_onD [OF this, of g' g] g that show ?thesis by simp
  qed
  with g have "list_ex (\<lambda>g. grp_key g = candidate_key c \<and> length (grp_candidates g) = 1) groups \<longleftrightarrow> length (grp_candidates g) = 1"
    unfolding list_ex_iff by metis
  moreover have "grp_candidates g = filter (\<lambda>d. candidate_key d = candidate_key c) cs"
    using assms(1) g unfolding groups_ok_def by metis
  ultimately show ?thesis by (simp add: place_candidate_def Let_def candidate_key_def)
qed

text \<open>At most one candidate accepts a connection.\<close>

lemma one_arrival:
  assumes ok: "groups_ok digest groups cs" and inj: "inj_on digest (candidate_key ` set cs)"
    and ij: "i < j" "j < length cs"
    and "arrives_at cx (place_candidate digest groups (cs ! i))" "arrives_at cx (place_candidate digest groups (cs ! j))"
  shows False
proof -
  let ?c = "cs ! i" and ?d = "cs ! j" and ?P = "\<lambda>k x. candidate_key x = k"
  have mem: "?c \<in> set cs" "?d \<in> set cs" using ij by simp_all
  from assms(5,6) have "digest (candidate_key ?c) = digest (candidate_key ?d)" by (simp add: arrives_at_def)
  with inj mem have key: "candidate_key ?c = candidate_key ?d" by (auto dest: inj_onD)
  have "{i, j} \<subseteq> {k. k < length cs \<and> ?P (candidate_key ?d) (cs ! k)}" using ij key by auto
  then have "card {i, j} \<le> length (filter (?P (candidate_key ?d)) cs)" unfolding length_filter_conv_card by (intro card_mono) simp_all
  with ij have "length (filter (?P (candidate_key ?d)) cs) \<noteq> 1" by simp
  then have "\<not> ing_routeByInbound (place_candidate digest groups ?c)" "\<not> ing_routeByInbound (place_candidate digest groups ?d)"
    using route_by_inbound [OF ok mem(1)] route_by_inbound [OF ok mem(2)] key by simp_all
  with assms(5,6) have "cx_user cx \<in> names_of ?c \<inter> names_of ?d" by (auto simp: arrives_at_def names_of_def)
  moreover have "apart ?c ?d" using ok ij by (auto simp: groups_ok_def intro: sorted_wrt_nth_less)
  ultimately show False using key by (auto simp: apart_def)
qed

lemma find_unique:
  assumes "x \<in> set xs" "P x" "\<And>i j. i < j \<Longrightarrow> j < length xs \<Longrightarrow> P (xs ! i) \<Longrightarrow> P (xs ! j) \<Longrightarrow> False"
  shows "find P xs = Some x"
proof -
  from assms(1) obtain j where j: "j < length xs" "xs ! j = x" by (metis in_set_conv_nth)
  with assms(2,3) have "\<forall>i < j. \<not> P (xs ! i)" by blast
  with j assms(2) show ?thesis by (auto simp: find_Some_iff)
qed

section \<open>The renders of the Agents\<close>

lemma with_render_Inr:
  "with_render a f byAgent = Inr byAgent' \<longleftrightarrow>
     (\<exists>r r'. map_of byAgent a = Some r \<and> f r = Inr r' \<and> byAgent' = AList.update a r' byAgent)"
  by (auto simp: with_render_def bindE_Inr_iff split: option.split)

text \<open>\<open>follows R byAgent byAgent'\<close>: the same Agents, and every new render is related to the old one.\<close>

definition follows :: "(string \<Rightarrow> agent_render \<Rightarrow> agent_render \<Rightarrow> bool) \<Rightarrow> renders \<Rightarrow> renders \<Rightarrow> bool" where
  "follows R byAgent byAgent' \<longleftrightarrow> map fst byAgent' = map fst byAgent \<and>
     (\<forall>a r'. map_of byAgent' a = Some r' \<longrightarrow> (\<exists>r. map_of byAgent a = Some r \<and> R a r r'))"

lemma update_keys: "map_of al k = Some v \<Longrightarrow> map fst (AList.update k v' al) = map fst al"
  by (induction al) (auto split: if_splits)

lemma foldE_follows:
  assumes run: "foldE (\<lambda>byAgent x. with_render (ag x) (f x) byAgent) byAgent xs = Inr byAgent'"
    and refl: "\<And>a r. R [] a r r"
    and step: "\<And>ys x r r'. x \<in> set xs \<Longrightarrow> f x r = Inr r' \<Longrightarrow> R [x] (ag x) r r'"
    and other: "\<And>x a r. a \<noteq> ag x \<Longrightarrow> R [x] a r r"
    and trans: "\<And>ys zs a p q r. R ys a p q \<Longrightarrow> R zs a q r \<Longrightarrow> R (ys @ zs) a p r"
  shows "follows (R xs) byAgent byAgent'"
  using run step
proof (induction xs arbitrary: byAgent)
  case Nil
  then show ?case by (simp add: follows_def refl)
next
  case (Cons x xs)
  from Cons.prems(1) obtain mid where one: "with_render (ag x) (f x) byAgent = Inr mid"
    and rest: "foldE (\<lambda>byAgent x. with_render (ag x) (f x) byAgent) mid xs = Inr byAgent'" by (auto simp: bindE_Inr_iff)
  from one obtain r r' where r: "map_of byAgent (ag x) = Some r" "f x r = Inr r'" and mid: "mid = AList.update (ag x) r' byAgent"
    unfolding with_render_Inr by blast
  have "R [x] (ag x) r r'" using Cons.prems(2) r(2) by simp
  then have "follows (R [x]) byAgent mid" using r(1) other by (auto simp: follows_def mid update_conv' update_keys)
  moreover have "follows (R xs) mid byAgent'" using Cons.IH [OF rest] Cons.prems(2) by simp
  ultimately show ?case using trans [of "[x]" _ _ _ xs] by (fastforce simp: follows_def)
qed

definition arrival :: "matching \<Rightarrow> connection \<Rightarrow> string \<Rightarrow> ingress_candidate list \<Rightarrow> verdict option" where
  "arrival meets cx a cs =
     map_option (\<lambda>c. hop_verdict meets (ing_node c) (ing_hop c)) (find (\<lambda>c. candidate_agent c = a \<and> arrives_at cx c) cs)"

lemma arrival_append: "arrival meets cx a (cs @ ds) = or_else (arrival meets cx a cs) (arrival meets cx a ds)"
  by (induction cs) (simp_all add: arrival_def)

definition known_rules :: "proxy_node \<Rightarrow> bool" where
  "known_rules node \<longleftrightarrow> (\<forall>h. \<forall>(l, r) \<in> set (routed_rules node h). known_match r)"

lemma rules_fold:
  assumes "foldE (\<lambda>byAgent c. with_render (candidate_agent c) (\<lambda>r. renderHopRules r c) byAgent) byAgent cs = Inr byAgent'"
    and "\<forall>c \<in> set cs. known_rules (ing_node c)"
  shows "follows (\<lambda>a r r'. only_rules r r' \<and> (\<forall>meets cx. dispatch meets cx (ar_rules r') =
       or_else (dispatch meets cx (ar_rules r)) (arrival meets cx a cs))) byAgent byAgent'"
  by (rule foldE_follows [OF assms(1), where R = "\<lambda>cs a r r'. only_rules r r' \<and> (\<forall>meets cx. dispatch meets cx (ar_rules r') =
       or_else (dispatch meets cx (ar_rules r)) (arrival meets cx a cs))"])
    (use assms(2) renderHopRules_verdict in \<open>auto simp: arrival_append only_rules_def\<close>,
     auto simp: arrival_def known_rules_def only_rules_def dest!: renderHopRules_verdict)

lemma outbound_step:
  assumes "add_outbound resolve node byAgent l = Inr byAgent'"
  shows "follows (\<lambda>a r r'. ar_rules r' = ar_rules r \<and> ar_groups r' = ar_groups r) byAgent byAgent'"
  using assms by (auto simp: add_outbound_def bindE_Inr_iff with_render_Inr follows_def update_conv' update_keys split: if_splits)

lemma follows_trans:
  assumes "follows R a b" "follows R b c" "\<And>x p q r. R x p q \<Longrightarrow> R x q r \<Longrightarrow> R x p r"
  shows "follows R a c"
  using assms unfolding follows_def by metis

lemma outbounds_fold:
  assumes "foldE (\<lambda>byAgent (node, ds). foldE (add_outbound resolve node) byAgent (pn_Links node)) byAgent nodes = Inr byAgent'"
  shows "follows (\<lambda>a r r'. ar_rules r' = ar_rules r \<and> ar_groups r' = ar_groups r) byAgent byAgent'"
proof -
  let ?R = "\<lambda>a r r'. ar_rules r' = ar_rules r \<and> ar_groups r' = ar_groups r"
  show ?thesis
  proof (rule foldE_invariant [OF assms, where P = "follows ?R byAgent"])
    show "follows ?R byAgent byAgent" by (simp add: follows_def)
    fix s x s'
    assume s: "follows ?R byAgent s" and run: "(case x of (node, ds) \<Rightarrow> foldE (add_outbound resolve node) s (pn_Links node)) = Inr s'"
    obtain node ds where x: "x = (node, ds)" by fastforce
    from run have "foldE (add_outbound resolve node) s (pn_Links node) = Inr s'" by (simp add: x)
    then show "follows ?R byAgent s'"
    proof (rule foldE_invariant [where P = "follows ?R byAgent"])
      show "follows ?R byAgent s" by (fact s)
      fix t l t'
      assume "follows ?R byAgent t" "add_outbound resolve node t l = Inr t'"
      then show "follows ?R byAgent t'" by (auto intro: follows_trans dest!: outbound_step)
    qed
  qed
qed

section \<open>The candidates\<close>

definition candidate_of :: "proxy_node \<Rightarrow> ingress_candidate \<Rightarrow> bool" where
  "candidate_of node c \<longleftrightarrow> root_candidate node = Inr c \<or> (\<exists>l \<in> set (pn_Links node). link_candidate node l = Inr c)"

lemma candidate_of_node: "candidate_of node c \<Longrightarrow> ing_node c = node"
  by (auto simp: candidate_of_def root_candidate_def link_candidate_def bindE_Inr_iff)

definition fresh_renders :: "renders \<Rightarrow> bool" where
  "fresh_renders byAgent \<longleftrightarrow> distinct (map fst byAgent) \<and> (\<forall>a r. map_of byAgent a = Some r \<longrightarrow> r = new_render)"

lemma ensure_fresh: "fresh_renders byAgent \<Longrightarrow> fresh_renders (ensureAgentRender a byAgent)"
  by (auto simp: fresh_renders_def ensureAgentRender_def map_of_eq_None_iff map_add_def split: option.splits if_splits)

lemma ensure_fold_fresh: "fresh_renders byAgent \<Longrightarrow> fresh_renders (fold (\<lambda>h. ensureAgentRender (hop_AgentID h)) hs byAgent)"
  by (induction hs arbitrary: byAgent) (simp_all add: ensure_fresh)

lemma link_candidates:
  "foldE (\<lambda>cs l. bindE (link_candidate node l) (\<lambda>c. ok (cs @ [c]))) cs ls = Inr cs' \<Longrightarrow>
     (\<forall>l \<in> set ls. \<exists>c. link_candidate node l = Inr c) \<and> (\<exists>new. cs' = cs @ new \<and> set new = {c. \<exists>l \<in> set ls. link_candidate node l = Inr c})"
proof (induction ls arbitrary: cs)
  case Nil
  then show ?case by simp
next
  case (Cons l ls)
  then obtain c where c: "link_candidate node l = Inr c"
    and rest: "foldE (\<lambda>cs l. bindE (link_candidate node l) (\<lambda>c. ok (cs @ [c]))) (cs @ [c]) ls = Inr cs'"
    by (auto simp: bindE_Inr_iff)
  from Cons.IH [OF rest] c show ?case by auto
qed

lemma collect_node_step:
  assumes "collect_node (byAgent, depths, cs) (node, ds) = Inr (byAgent', depths', cs')" "fresh_renders byAgent"
  shows "fresh_renders byAgent'" "\<exists>new. cs' = cs @ new \<and> set new = {c. candidate_of node c}"
    "agent_depths node ds depths = Inr depths'"
proof -
  from assms(1) obtain root where root: "root_candidate node = Inr root"
    and links: "foldE (\<lambda>cs l. bindE (link_candidate node l) (\<lambda>c. ok (cs @ [c]))) (cs @ [root]) (pn_Links node) = Inr cs'"
    and byAgent': "byAgent' = fold (\<lambda>h. ensureAgentRender (hop_AgentID h)) (pn_Hops node) byAgent"
    and depths: "agent_depths node ds depths = Inr depths'"
    by (auto simp: collect_node_def bindE_Inr_iff)
  show "fresh_renders byAgent'" unfolding byAgent' by (rule ensure_fold_fresh [OF assms(2)])
  show "\<exists>new. cs' = cs @ new \<and> set new = {c. candidate_of node c}"
    using link_candidates [OF links] root by (auto simp: candidate_of_def)
  show "agent_depths node ds depths = Inr depths'" by (fact depths)
qed

lemma collect_fold:
  "foldE collect_node (byAgent, depths, cs) nodes = Inr (byAgent', depths', cs') \<Longrightarrow> fresh_renders byAgent \<Longrightarrow>
     fresh_renders byAgent' \<and> (\<exists>new. cs' = cs @ new \<and> set new = {c. \<exists>(node, ds) \<in> set nodes. candidate_of node c})"
proof (induction nodes arbitrary: byAgent depths cs)
  case Nil
  then show ?case by simp
next
  case (Cons x nodes)
  obtain node ds where x: "x = (node, ds)" by fastforce
  from Cons.prems(1) obtain b d c where one: "collect_node (byAgent, depths, cs) (node, ds) = Inr (b, d, c)"
    and rest: "foldE collect_node (b, d, c) nodes = Inr (byAgent', depths', cs')" by (auto simp: x bindE_Inr_iff)
  note step = collect_node_step [OF one Cons.prems(2)]
  from step(2) obtain new1 where new1: "c = cs @ new1" "set new1 = {c. candidate_of node c}" by blast
  from Cons.IH [OF rest step(1)] obtain new2 where
    "fresh_renders byAgent'" "cs' = c @ new2" "set new2 = {c. \<exists>(node, ds) \<in> set nodes. candidate_of node c}" by blast
  with new1 show ?case by (auto simp: x)
qed

section \<open>What a configuration decides\<close>

definition config_rules :: "fields \<Rightarrow> fields list" where
  "config_rules config =
     (case map_of config ''route'' of
        Some (JObj route) \<Rightarrow>
          (case map_of route ''rules'' of
             Some (JArr rules) \<Rightarrow> map (\<lambda>r. case r of JObj f \<Rightarrow> f | _ \<Rightarrow> []) rules
           | _ \<Rightarrow> [])
      | _ \<Rightarrow> [])"

lemma renderAgentConfig_rules:
  "renderAgentConfig digest r = Inr config \<Longrightarrow> config_rules config = insertRequiredRouteActions (ar_rules r)"
  by (auto simp: renderAgentConfig_def bindE_Inr_iff Let_def config_rules_def comp_def)

lemma configs_fold:
  "foldE (\<lambda>configs (a, r). bindE (renderAgentConfig digest r) (\<lambda>config. ok (configs @ [(a, config)]))) acc rs = Inr configs \<Longrightarrow>
     \<exists>new. configs = acc @ new \<and> map fst new = map fst rs \<and>
       (\<forall>a config. (a, config) \<in> set new \<longrightarrow> (\<exists>r. (a, r) \<in> set rs \<and> renderAgentConfig digest r = Inr config))"
proof (induction rs arbitrary: acc)
  case Nil
  then show ?case by simp
next
  case (Cons x rs)
  obtain a r where x: "x = (a, r)" by fastforce
  from Cons.prems obtain config where c: "renderAgentConfig digest r = Inr config"
    and rest: "foldE (\<lambda>configs (a, r). bindE (renderAgentConfig digest r) (\<lambda>config. ok (configs @ [(a, config)])))
        (acc @ [(a, config)]) rs = Inr configs"
    by (auto simp: x bindE_Inr_iff)
  from Cons.IH [OF rest] obtain new where "configs = (acc @ [(a, config)]) @ new" "map fst new = map fst rs"
    "\<forall>a config. (a, config) \<in> set new \<longrightarrow> (\<exists>r. (a, r) \<in> set rs \<and> renderAgentConfig digest r = Inr config)" by blast
  with c show ?case by (intro exI [of _ "(a, config) # new"]) (auto simp: x)
qed

lemma map_of_map_keyed: "map_of (map (\<lambda>(k, v). (k, f k v)) xs) a = map_option (f a) (map_of xs a)"
  by (induction xs) auto

definition inbound_keys :: "proxy_node list \<Rightarrow> listener_key set" where
  "inbound_keys nodes = {candidate_key c | c node. node \<in> set nodes \<and> candidate_of node c}"

lemma compiled_verdict:
  assumes run: "compile_nodes digest text resolve nodes = Inr res"
    and known: "\<forall>(node, ds) \<in> set nodes. known_rules node"
    and inj: "inj_on digest (inbound_keys (map fst nodes))"
    and c: "(node, ds) \<in> set nodes" "candidate_of node c"
  shows "\<exists>config. map_of (cr_Configs res) (candidate_agent c) = Some config \<and>
     (\<forall>meets u. cx_inbound u = ''tp-in-'' @ digest (candidate_key c) \<longrightarrow> cx_user u \<in> names_of c \<longrightarrow>
        dispatch meets u (config_rules config) = Some (hop_verdict meets node (ing_hop c)))"
proof -
  from run obtain b0 depths cs b1 ps b2 b3 configs where
    collect: "foldE collect_node ([], Map.empty, []) nodes = Inr (b0, depths, cs)"
    and group: "groupListeners digest text b0 cs = Inr (b1, ps)"
    and rules: "foldE (\<lambda>byAgent c. with_render (candidate_agent c) (\<lambda>r. renderHopRules r c) byAgent) b1 ps = Inr b2"
    and outs: "foldE (\<lambda>byAgent (node, ds). foldE (add_outbound resolve node) byAgent (pn_Links node)) b2 nodes = Inr b3"
    and configs: "foldE (\<lambda>configs (a, r). bindE (renderAgentConfig digest r) (\<lambda>config. ok (configs @ [(a, config)]))) []
        (sort_key fst b3) = Inr configs" and res: "res = \<lparr>cr_Configs = configs, cr_AgentDepth = depths\<rparr>"
    by (auto simp: compile_nodes_def bindE_Inr_iff)
  have "fresh_renders []" by (simp add: fresh_renders_def)
  from collect_fold [OF collect this] have fresh: "fresh_renders b0"
    and cs: "set cs = {c. \<exists>(node, ds) \<in> set nodes. candidate_of node c}" by auto
  from group obtain groups sockets where groups: "foldE (group_step digest) ([], Map.empty) cs = Inr (groups, sockets)"
    and b1: "b1 = map (\<lambda>(a, r). (a, r\<lparr>ar_groups := sort_key (\<lambda>g. text (grp_key g)) (filter (\<lambda>g. grp_agentID g = a) groups)\<rparr>)) b0"
    and ps: "ps = map (place_candidate digest groups) cs"
    by (auto simp: groupListeners_def bindE_Inr_iff)
  have "groups_ok digest [] []" by (simp add: groups_ok_def)
  from group_fold_ok [OF groups this] have ok: "groups_ok digest groups cs" by simp
  have "candidate_key ` set cs = inbound_keys (map fst nodes)" by (force simp: cs inbound_keys_def)
  with inj have inj': "inj_on digest (candidate_key ` set cs)" by simp
  have keys1: "map fst b1 = map fst b0" by (auto simp: b1 comp_def case_prod_beta)
  have start: "ar_rules r = []" if "map_of b1 a = Some r" for a r
  proof -
    have "map_of b1 a = map_option (\<lambda>r. r\<lparr>ar_groups := sort_key (\<lambda>g. text (grp_key g)) (filter (\<lambda>g. grp_agentID g = a) groups)\<rparr>) (map_of b0 a)"
      unfolding b1 by (rule map_of_map_keyed)
    with that obtain z where z: "map_of b0 a = Some z" "ar_rules r = ar_rules z" by auto
    then have "z = new_render" using fresh unfolding fresh_renders_def by blast
    with z show ?thesis by (simp add: new_render_def)
  qed
  have "\<forall>c \<in> set ps. known_rules (ing_node c)" using known by (fastforce simp: ps cs dest: candidate_of_node)
  note step2 = rules_fold [OF rules this]
  note step3 = outbounds_fold [OF outs]
  have keys3: "map fst b3 = map fst b0" using step2 step3 keys1 by (simp add: follows_def)
  then have dist: "distinct (map fst b3)" using fresh by (simp add: fresh_renders_def)
  from configs_fold [OF configs] have configs': "map fst configs = map fst (sort_key fst b3)"
    "\<And>a config. map_of configs a = Some config \<Longrightarrow> \<exists>r. (a, r) \<in> set b3 \<and> renderAgentConfig digest r = Inr config"
    by (auto dest: map_of_SomeD)
  let ?a = "candidate_agent c" and ?p = "place_candidate digest groups c"
  have "c \<in> set cs" using c by (auto simp: cs)
  then have p: "?p \<in> set ps" by (simp add: ps)
  have "?a \<in> fst ` set b3"
  proof -
    have "\<exists>r. map_of b1 (candidate_agent ?p) = Some r"
      using rules p by (induction ps arbitrary: b1) (fastforce simp: bindE_Inr_iff with_render_Inr update_conv' split: if_splits)+
    then show ?thesis using keys1 keys3 by (simp add: map_of_eq_None_iff [symmetric]) (metis domI dom_map_of_conv_image_fst image_set place_candidate_simps(2))
  qed
  then have "map_of configs ?a \<noteq> None" unfolding map_of_eq_None_iff by (metis configs'(1) image_set set_map set_sort)
  then obtain config where config: "map_of configs ?a = Some config" by blast
  from configs'(2) [OF this] obtain r3 where r3: "(?a, r3) \<in> set b3" "renderAgentConfig digest r3 = Inr config" by blast
  then have "map_of b3 ?a = Some r3" using dist by simp
  with step3 obtain r2 where r2: "map_of b2 ?a = Some r2" "ar_rules r3 = ar_rules r2" by (auto simp: follows_def)
  with step2 obtain r1 where r1: "map_of b1 ?a = Some r1"
    "\<And>meets cx. dispatch meets cx (ar_rules r2) = or_else (dispatch meets cx (ar_rules r1)) (arrival meets cx ?a ps)"
    unfolding follows_def by metis
  have "dispatch meets u (config_rules config) = Some (hop_verdict meets node (ing_hop c))"
    if u: "cx_inbound u = ''tp-in-'' @ digest (candidate_key c)" "cx_user u \<in> names_of c" for meets u
  proof -
    have "dispatch meets u (config_rules config) = arrival meets u ?a ps"
      unfolding renderAgentConfig_rules [OF r3(2)] insertRequiredRouteActions_def dispatch_insert_actions r2(2) r1(2)
      using start [OF r1(1)] by simp
    also have "find (\<lambda>d. candidate_agent d = ?a \<and> arrives_at u d) ps = Some ?p"
    proof (rule find_unique [OF p])
      show "candidate_agent ?p = ?a \<and> arrives_at u ?p" using u by (simp add: arrives_at_def names_of_def)
      fix i j
      assume "i < j" "j < length ps" "candidate_agent (ps ! i) = ?a \<and> arrives_at u (ps ! i)"
        "candidate_agent (ps ! j) = ?a \<and> arrives_at u (ps ! j)"
      then show False using one_arrival [OF ok inj', of i j u] by (simp add: ps)
    qed
    then have "arrival meets u ?a ps = Some (hop_verdict meets node (ing_hop c))"
      using candidate_of_node [OF c(2)] by (simp add: arrival_def)
    finally show ?thesis .
  qed
  then show ?thesis using config by (auto simp: res)
qed

end
