(* ===== verification/CompileProgress.thy ===== *)
theory CompileProgress
  imports CompileResult TermFacts
begin

text \<open>
  A validated state whose listeners agree, whose Rule Sets exist and whose Agents have addresses
  always compiles: none of the error returns of \<open>Compile\<close> is reached.
\<close>

section \<open>Lists\<close>

lemma foldE_progress:
  assumes "Inv s" "\<And>s x. Inv s \<Longrightarrow> x \<in> set xs \<Longrightarrow> \<exists>s'. f s x = Inr s' \<and> Inv s'"
  shows "\<exists>s'. foldE f s xs = Inr s' \<and> Inv s'"
  using assms
proof (induction xs arbitrary: s)
  case Nil
  then show ?case by simp
next
  case (Cons x xs)
  then obtain t where "f s x = Inr t" "Inv t" by (metis list.set_intros(1))
  moreover have "\<exists>s'. foldE f t xs = Inr s' \<and> Inv s'"
    by (rule Cons.IH) (use \<open>Inv t\<close> Cons.prems(2) in auto)
  ultimately show ?case by simp
qed

lemma distinct_submset: "mset xs \<subseteq># mset ys \<Longrightarrow> distinct ys \<Longrightarrow> distinct xs"
  unfolding distinct_count_atmost_1
  by (metis count_mset_0_iff le_zero_eq mset_subset_eq_count not_le less_one mset_subset_eqD set_mset_mset antisym_conv2 nat_le_linear)

lemma mset_concat_sub: "(\<And>x. x \<in> set xs \<Longrightarrow> mset (f x) \<subseteq># mset (g x)) \<Longrightarrow> mset (concat (map f xs)) \<subseteq># mset (concat (map g xs))"
  by (induction xs) (simp_all add: subset_mset.add_mono)

lemma distinct_concat_sorted:
  "distinct (concat (map f xs)) \<Longrightarrow> sorted_wrt (\<lambda>x y. set (f x) \<inter> set (f y) = {}) xs"
  by (induction xs) auto

lemma sorted_wrt_conj: "sorted_wrt P xs \<Longrightarrow> sorted_wrt Q xs \<Longrightarrow> sorted_wrt (\<lambda>x y. P x y \<and> Q x y) xs"
  by (induction xs) simp_all

section \<open>Address families\<close>

lemma family_names:
  "ParseFamily [] = Inr FamilyAuto" "ParseFamily ''auto'' = Inr FamilyAuto"
  "ParseFamily ''ipv4'' = Inr FamilyIPv4" "ParseFamily ''ipv6'' = Inr FamilyIPv6"
  by (simp_all add: ParseFamily_def trim_space_alnum is_alnum_def is_lower_def is_upper_def is_digit_def)

section \<open>Hops\<close>

lemma hop_map_Some:
  assumes "routing_tree node" "h \<in> hop_ids node"
  shows "\<exists>x. hop_map node h = Some x \<and> x \<in> set (pn_Hops node) \<and> hop_ID x = h"
proof -
  from assms(2) obtain x where x: "x \<in> set (pn_Hops node)" "hop_ID x = h" by (auto simp: hop_ids_def)
  have "distinct (map hop_ID (pn_Hops node))" using assms(1) by (simp add: routing_tree_def)
  from fill_map_distinct [OF this x(1)] x show ?thesis by (auto simp: hop_map_def)
qed

lemma hop_map_agent:
  assumes "hop_map node h = Some x"
  shows "hop_agent node h = hop_AgentID x" "x \<in> set (pn_Hops node)" "hop_ID x = h"
proof -
  have "(\<lambda>h. map_option hop_AgentID (m h)) = m' \<Longrightarrow>
      fill_map hop_ID hop_AgentID m' hs h = map_option hop_AgentID (fill_map hop_ID (\<lambda>h. h) m hs h)" for m m' hs
  proof (induction hs arbitrary: m m')
    case (Cons a hs)
    have "(\<lambda>h. map_option hop_AgentID ((m(hop_ID a \<mapsto> a)) h)) = m'(hop_ID a \<mapsto> hop_AgentID a)"
      using Cons.prems by (auto simp: fun_eq_iff)
    then show ?case using Cons.IH by (simp only: fill_map.simps)
  qed auto
  from this [of Map.empty Map.empty "pn_Hops node"] assms show "hop_agent node h = hop_AgentID x"
    by (simp add: hop_agent_def hop_agents_def hop_map_def)
  show "x \<in> set (pn_Hops node)" "hop_ID x = h"
    using assms by (auto simp: hop_map_def dest: fill_map_SomeD)
qed

lemma link_ends:
  assumes "routing_tree node" "l \<in> set (pn_Links node)"
  shows "\<exists>x. hop_map node (lnk_ParentHopID l) = Some x" "\<exists>x. hop_map node (lnk_ChildHopID l) = Some x"
proof -
  have "(lnk_ParentHopID l, lnk_ChildHopID l) \<in> edges (pn_Links node)" using assms(2) by (auto simp: edges_def)
  then have "lnk_ParentHopID l \<in> hop_ids node" "lnk_ChildHopID l \<in> hop_ids node" using assms(1) by (auto simp: routing_tree_def)
  then show "\<exists>x. hop_map node (lnk_ParentHopID l) = Some x" "\<exists>x. hop_map node (lnk_ChildHopID l) = Some x"
    using hop_map_Some [OF assms(1)] by blast+
qed

section \<open>Collecting\<close>

definition node_inbounds :: "proxy_node \<Rightarrow> ingress_candidate list" where
  "node_inbounds node = map projr (root_candidate node # map (link_candidate node) (pn_Links node))"

lemma inbounds_exist:
  assumes "routing_tree node"
  shows "\<exists>c. root_candidate node = Inr c" "l \<in> set (pn_Links node) \<Longrightarrow> \<exists>c. link_candidate node l = Inr c"
proof -
  have "root_hop node \<in> hop_ids node" using assms by (simp add: routing_tree_def)
  from hop_map_Some [OF assms this] show "\<exists>c. root_candidate node = Inr c"
    by (auto simp: root_candidate_def from_option_def)
  assume "l \<in> set (pn_Links node)"
  from link_ends(2) [OF assms this] show "\<exists>c. link_candidate node l = Inr c"
    by (auto simp: link_candidate_def from_option_def)
qed

lemma set_node_inbounds:
  assumes "routing_tree node"
  shows "set (node_inbounds node) = {c. candidate_of node c}"
  using inbounds_exist [OF assms] by (force simp: node_inbounds_def candidate_of_def image_iff)

lemma agent_depths_progress:
  assumes "\<forall>h \<in> fst ` set ds. \<exists>x. hop_map node h = Some x"
  shows "\<exists>depths'. agent_depths node ds depths = Inr depths'"
proof -
  have "\<exists>s'. foldE (\<lambda>depths (h, d). bindE (from_option missing_hop (hop_map node h)) (\<lambda>hop.
         ok (if d > (case depths (hop_AgentID hop) of None \<Rightarrow> 0 | Some k \<Rightarrow> k)
             then depths(hop_AgentID hop \<mapsto> d) else depths))) depths ds = Inr s' \<and> True"
    by (rule foldE_progress) (use assms in \<open>force simp: from_option_def\<close>)+
  then show ?thesis by (simp add: agent_depths_def)
qed

lemma collect_node_progress:
  assumes tree: "routing_tree node" and ds: "fst ` set ds = hop_ids node"
  shows "\<exists>depths'. collect_node (byAgent, depths, cs) (node, ds) =
     Inr (fold (\<lambda>h. ensureAgentRender (hop_AgentID h)) (pn_Hops node) byAgent, depths', cs @ node_inbounds node)"
proof -
  from inbounds_exist(1) [OF tree] obtain root where root: "root_candidate node = Inr root" by blast
  have links: "foldE (\<lambda>cs l. bindE (link_candidate node l) (\<lambda>c. ok (cs @ [c]))) acc ls
      = Inr (acc @ map (\<lambda>l. projr (link_candidate node l)) ls)" if "set ls \<subseteq> set (pn_Links node)" for acc ls
    using that
  proof (induction ls arbitrary: acc)
    case (Cons l ls)
    from Cons.prems have "l \<in> set (pn_Links node)" by simp
    from inbounds_exist(2) [OF tree this] obtain c where "link_candidate node l = Inr c" by blast
    with Cons show ?case by simp
  qed simp
  have "\<forall>h \<in> fst ` set ds. \<exists>x. hop_map node h = Some x" using hop_map_Some [OF tree] ds by blast
  from agent_depths_progress [OF this] obtain depths' where "agent_depths node ds depths = Inr depths'" by blast
  with root links [of "pn_Links node"] show ?thesis by (simp add: collect_node_def node_inbounds_def comp_def)
qed

lemma ensure_agents: "fst ` set (ensureAgentRender a byAgent) = insert a (fst ` set byAgent)"
  by (auto simp: ensureAgentRender_def map_of_eq_None_iff)

lemma ensure_fold_agents:
  "fst ` set (fold (\<lambda>h. ensureAgentRender (hop_AgentID h)) hs byAgent) = hop_AgentID ` set hs \<union> fst ` set byAgent"
  by (induction hs arbitrary: byAgent) (auto simp: ensure_agents)

lemma collect_progress:
  assumes "\<forall>(node, ds) \<in> set nodes. routing_tree node \<and> fst ` set ds = hop_ids node"
  shows "\<exists>byAgent' depths'. foldE collect_node (byAgent, depths, cs) nodes =
       Inr (byAgent', depths', cs @ concat (map (node_inbounds \<circ> fst) nodes))
     \<and> fst ` set byAgent' = fst ` set byAgent \<union> (\<Union>(node, ds) \<in> set nodes. hop_AgentID ` set (pn_Hops node))"
  using assms
proof (induction nodes arbitrary: byAgent depths cs)
  case Nil
  then show ?case by simp
next
  case (Cons x nodes)
  obtain node ds where x: "x = (node, ds)" by fastforce
  from Cons.prems have "routing_tree node" "fst ` set ds = hop_ids node" by (simp_all add: x)
  from collect_node_progress [OF this, of byAgent depths cs] obtain depths1 where
    one: "collect_node (byAgent, depths, cs) (node, ds) =
     Inr (fold (\<lambda>h. ensureAgentRender (hop_AgentID h)) (pn_Hops node) byAgent, depths1, cs @ node_inbounds node)" by blast
  from Cons.IH [of "fold (\<lambda>h. ensureAgentRender (hop_AgentID h)) (pn_Hops node) byAgent" depths1 "cs @ node_inbounds node"] Cons.prems
  show ?case by (auto simp: x one ensure_fold_agents)
qed

section \<open>Listeners\<close>

definition candidate_claims :: "ingress_candidate \<Rightarrow> socket set" where
  "candidate_claims c = socket_claims (candidate_agent c) (ing_endpoint c)"

definition secrets_used :: "ingress_candidate \<Rightarrow> string set" where
  "secrets_used c = ru_Secret ` set (ing_users c)"

definition compatible :: "ingress_candidate list \<Rightarrow> bool" where
  "compatible cs \<longleftrightarrow>
     (\<forall>c \<in> set cs. is_ok (listenerSocketClaims (candidate_agent c) (ing_endpoint c))) \<and>
     (\<forall>c \<in> set cs. \<forall>d \<in> set cs. \<forall>s \<in> candidate_claims c. s \<in> candidate_claims d \<longrightarrow> candidate_key c = candidate_key d) \<and>
     sorted_wrt (\<lambda>c d. names_of c \<inter> names_of d = {} \<and> secrets_used c \<inter> secrets_used d = {}) cs"

definition sockets_from :: "(socket \<rightharpoonup> listener_key) \<Rightarrow> ingress_candidate list \<Rightarrow> bool" where
  "sockets_from sockets cs \<longleftrightarrow>
     (\<forall>s k. sockets s = Some k \<longrightarrow> (\<exists>c \<in> set cs. s \<in> candidate_claims c \<and> k = candidate_key c))"

lemma group_step_progress:
  assumes comp: "compatible (ds @ [c])" and groups: "groups_ok digest groups ds" and sockets: "sockets_from sockets ds"
  shows "\<exists>groups' sockets'. group_step digest (groups, sockets) c = Inr (groups', sockets') \<and> sockets_from sockets' (ds @ [c])"
proof -
  let ?key = "candidate_key c"
  from comp obtain claims where claims: "listenerSocketClaims (candidate_agent c) (ing_endpoint c) = Inr claims"
    by (auto simp: compatible_def is_ok_iff)
  then have set_claims: "set claims = candidate_claims c" by (simp add: candidate_claims_def socket_claims_def)
  have free: "\<forall>s \<in> set claims. sockets s = None \<or> sockets s = Some ?key"
  proof
    fix s assume s: "s \<in> set claims"
    show "sockets s = None \<or> sockets s = Some ?key"
    proof (cases "sockets s")
      case (Some k)
      then obtain d where d: "d \<in> set ds" "s \<in> candidate_claims d" "k = candidate_key d" using sockets unfolding sockets_from_def by blast
      then have "candidate_key d = ?key" using comp s set_claims by (auto simp: compatible_def)
      with d Some show ?thesis by simp
    qed simp
  qed
  let ?sockets = "\<lambda>s. if s \<in> set claims then Some ?key else sockets s"
  from free have claim: "claim_sockets ?key sockets claims = Inr ?sockets" by (simp add: claim_sockets_Inr)
  define fresh where "fresh = \<lparr>grp_agentID = candidate_agent c, grp_key = ?key, grp_endpoint = ing_endpoint c,
                             grp_tag = ''tp-in-'' @ digest ?key, grp_candidates = []\<rparr>"
  define base where "base = (if list_ex (\<lambda>g. grp_key g = ?key) groups then groups else groups @ [fresh])"
  define known where "known = concat (map (\<lambda>g. if grp_key g = ?key then concat (map ing_users (grp_candidates g)) else []) base)"
  have in_base: "g \<in> set base \<Longrightarrow> g = fresh \<or> g \<in> set groups" for g by (auto simp: base_def split: if_split_asm)
  have known: "\<exists>d \<in> set ds. e \<in> set (ing_users d)" if e: "e \<in> set known" for e
  proof -
    from e obtain g where g: "g \<in> set base" "e \<in> set (if grp_key g = ?key then concat (map ing_users (grp_candidates g)) else [])"
      unfolding known_def set_concat set_map by blast
    from g(2) have "e \<in> set (concat (map ing_users (grp_candidates g)))" by (metis empty_iff empty_set)
    then obtain d where d: "d \<in> set (grp_candidates g)" "e \<in> set (ing_users d)" unfolding set_concat set_map by blast
    from in_base [OF g(1)] have "g \<in> set groups"
    proof
      assume "g = fresh"
      then have "grp_candidates g = []" by (simp add: fresh_def)
      with d(1) show ?thesis by simp
    qed
    then have "grp_candidates g = filter (\<lambda>c. candidate_key c = grp_key g) ds" using groups unfolding groups_ok_def by blast
    with d show ?thesis by auto
  qed
  have "names_of d \<inter> names_of c = {} \<and> secrets_used d \<inter> secrets_used c = {}" if "d \<in> set ds" for d
    using comp that by (auto simp: compatible_def sorted_wrt_append)
  then have new: "\<not> list_ex (\<lambda>u. list_ex (\<lambda>e. ru_Name e = ru_Name u \<or> ru_Secret e = ru_Secret u) known) (ing_users c)"
    unfolding list_ex_iff names_of_def secrets_used_def using known by (metis disjoint_iff image_eqI)
  have "sockets_from ?sockets (ds @ [c])"
    unfolding sockets_from_def
  proof (intro allI impI)
    fix s k assume s: "(if s \<in> set claims then Some ?key else sockets s) = Some k"
    show "\<exists>c \<in> set (ds @ [c]). s \<in> candidate_claims c \<and> k = candidate_key c"
    proof (cases "s \<in> set claims")
      case True
      with s set_claims show ?thesis by simp
    next
      case False
      with s have "sockets s = Some k" by simp
      with sockets have "\<exists>d \<in> set ds. s \<in> candidate_claims d \<and> k = candidate_key d" unfolding sockets_from_def by blast
      then show ?thesis by auto
    qed
  qed
  with new claims claim show ?thesis
    unfolding group_step_def Let_def candidate_key_def [symmetric] known_def base_def fresh_def
    by (simp only: split wrapE.simps bindE.simps if_False) blast
qed

lemma group_fold_progress:
  "compatible (ds @ cs) \<Longrightarrow> groups_ok digest groups ds \<Longrightarrow> sockets_from sockets ds \<Longrightarrow>
     \<exists>x. foldE (group_step digest) (groups, sockets) cs = Inr x"
proof (induction cs arbitrary: ds groups sockets)
  case Nil
  then show ?case by simp
next
  case (Cons c cs)
  from Cons.prems(1) have comp: "compatible (ds @ [c])" "compatible ((ds @ [c]) @ cs)"
    by (auto simp: compatible_def sorted_wrt_append)
  from group_step_progress [OF comp(1) Cons.prems(2,3)] obtain g s where
    step: "group_step digest (groups, sockets) c = Inr (g, s)" and s: "sockets_from s (ds @ [c])" by blast
  from Cons.IH [OF comp(2) group_step_ok [OF step Cons.prems(2)] s] step show ?case by simp
qed

lemma group_progress:
  assumes "compatible cs"
  shows "\<exists>x. groupListeners digest text byAgent cs = Inr x"
proof -
  have "groups_ok digest [] []" "sockets_from Map.empty []" by (simp_all add: groups_ok_def sockets_from_def)
  from group_fold_progress [OF _ this, of cs] assms obtain x where "foldE (group_step digest) ([], Map.empty) cs = Inr x" by auto
  then show ?thesis by (cases x) (simp add: groupListeners_def)
qed

section \<open>The candidates of a valid state\<close>

abbreviation all_inbounds :: "proxy_node list \<Rightarrow> ingress_candidate list" where
  "all_inbounds nodes \<equiv> concat (map node_inbounds nodes)"

definition label_of :: "string \<Rightarrow> string" where
  "label_of x = (if has_prefix ''mem_'' x then AuthenticatedUserLabel x else linkUserLabel x)"

definition labelled :: "string \<Rightarrow> bool" where
  "labelled x \<longleftrightarrow> validID x ''mem_'' \<or> validID x ''lnk_''"

lemma labelled_short: "labelled x \<Longrightarrow> length (shortID x) = 12"
  using validID_short_of(1) [of x "''mem''"] validID_short_of(1) [of x "''lnk''"] by (auto simp: labelled_def is_lower_def)

lemma label_prefix: "has_prefix ''mem_'' x \<Longrightarrow> \<not> has_prefix ''lnk_'' x"
  by (auto simp: has_prefix_def)

lemma label_injective: "inj_on label_of (Collect labelled)"
proof (rule inj_onI, unfold mem_Collect_eq)
  fix x y assume xy: "labelled x" "labelled y" "label_of x = label_of y"
  have start: "take 4 (label_of x) = take 4 x \<and> 4 \<le> length x" if "labelled x" for x
    using that by (auto simp: labelled_def label_of_def validID_def has_prefix_def AuthenticatedUserLabel_def linkUserLabel_def
        dest: arg_cong [of _ _ length])
  from start [OF xy(1)] start [OF xy(2)] xy(3) have "take 4 x = take 4 y" by simp
  then have side: "has_prefix ''mem_'' x \<longleftrightarrow> has_prefix ''mem_'' y" by (simp add: has_prefix_def numeral_eq_Suc)
  show "x = y"
    using xy(3) side labelled_short [OF xy(1)] labelled_short [OF xy(2)]
    by (auto simp: label_of_def AuthenticatedUserLabel_def linkUserLabel_def append_eq_append_conv split: if_splits)
qed

definition inbound_ids :: "proxy_node \<Rightarrow> string list" where
  "inbound_ids node = map mem_ID (filter (\<lambda>m. mem_DisabledReason m = MembershipEnabled) (pn_Memberships node)) @ map lnk_ID (pn_Links node)"

definition inbound_secrets :: "proxy_node \<Rightarrow> string list" where
  "inbound_secrets node =
     map (\<lambda>m. cred_Secret (mem_Credential m)) (filter (\<lambda>m. mem_DisabledReason m = MembershipEnabled) (pn_Memberships node))
     @ map (\<lambda>l. cred_Secret (lnk_Credential l)) (pn_Links node)"

lemma inbound_users:
  assumes "routing_tree node" "\<forall>m \<in> set (pn_Memberships node). validID (mem_ID m) ''mem_''"
    "\<forall>l \<in> set (pn_Links node). validID (lnk_ID l) ''lnk_''"
  shows "concat (map (\<lambda>c. map ru_Name (ing_users c)) (node_inbounds node)) = map label_of (inbound_ids node)"
    "concat (map (\<lambda>c. map ru_Secret (ing_users c)) (node_inbounds node)) = inbound_secrets node"
proof -
  from inbounds_exist(1) [OF assms(1)] obtain root where root: "root_candidate node = Inr root" by blast
  then have users: "ing_users root = root_users node" by (auto simp: root_candidate_def bindE_Inr_iff)
  have link: "ing_users (projr (link_candidate node l)) = [\<lparr>ru_Name = linkUserLabel (lnk_ID l), ru_Secret = cred_Secret (lnk_Credential l)\<rparr>]"
    if "l \<in> set (pn_Links node)" for l
    using inbounds_exist(2) [OF assms(1) that] by (auto simp: link_candidate_def bindE_Inr_iff)
  have "concat (map (\<lambda>c. map g (ing_users c)) (node_inbounds node))
      = map g (root_users node) @ map (\<lambda>l. g \<lparr>ru_Name = linkUserLabel (lnk_ID l), ru_Secret = cred_Secret (lnk_Credential l)\<rparr>) (pn_Links node)"
    for g :: "render_user \<Rightarrow> string"
  proof -
    have "concat (map (\<lambda>l. map g (ing_users (projr (link_candidate node l)))) ls)
        = map (\<lambda>l. g \<lparr>ru_Name = linkUserLabel (lnk_ID l), ru_Secret = cred_Secret (lnk_Credential l)\<rparr>) ls"
      if "set ls \<subseteq> set (pn_Links node)" for ls
      using that by (induction ls) (simp_all add: link)
    then show ?thesis by (simp add: node_inbounds_def root users comp_def)
  qed
  note both = this
  show "concat (map (\<lambda>c. map ru_Secret (ing_users c)) (node_inbounds node)) = inbound_secrets node"
    unfolding both by (simp add: root_users_def inbound_secrets_def comp_def)
  show "concat (map (\<lambda>c. map ru_Name (ing_users c)) (node_inbounds node)) = map label_of (inbound_ids node)"
    unfolding both using assms(2,3) label_prefix
    by (auto simp: root_users_def inbound_ids_def label_of_def comp_def validID_def)
qed

lemma membership_fields_ID: "membership_fields m = Inr () \<Longrightarrow> validID (mem_ID m) ''mem_''"
  unfolding membership_fields_def by (cases "validID (mem_ID m) ''mem_''") simp_all

lemma state_ok_node:
  assumes "state_ok env st" "node \<in> set (st_ProxyNodes st)"
  shows "topology_ok node" "routing_tree node" "\<forall>m \<in> set (pn_Memberships node). validID (mem_ID m) ''mem_''"
    "\<forall>l \<in> set (pn_Links node). validID (lnk_ID l) ''lnk_''" "\<forall>h \<in> set (pn_Hops node). hop_AgentID h \<noteq> []"
proof -
  from assms show top: "topology_ok node" by (simp add: state_ok_def)
  then show "routing_tree node" by (simp add: topology_ok_def)
  from assms have "validateProxyNode env node (set (user_ids_of st)) = Inr ()" by (simp add: state_ok_def)
  then obtain x where members: "foldE (validate_membership (ent_Endpoint (pn_Entrance node)) (set (user_ids_of st))) ({}, {}, {})
      (pn_Memberships node) = Inr x" by (auto simp: validateProxyNode_def bindE_Inr_iff)
  show "\<forall>m \<in> set (pn_Memberships node). validID (mem_ID m) ''mem_''"
    using foldE_validate_membership [OF members] membership_fields_ID by blast
  show "\<forall>l \<in> set (pn_Links node). validID (lnk_ID l) ''lnk_''" using top by (simp add: topology_ok_def link_ok_def)
  show "\<forall>h \<in> set (pn_Hops node). hop_AgentID h \<noteq> []"
    using top by (auto simp: topology_ok_def hop_ok_def validAgentID_def name_pattern_def)
qed

lemma inbound_ref:
  assumes ok: "state_ok env st" and node: "node \<in> set (st_ProxyNodes st)" and c: "candidate_of node c"
  shows "\<exists>r \<in> set (stateListenerRefs st). ref_agent r = candidate_agent c \<and> ref_endpoint st r = ing_endpoint c"
proof -
  from node obtain i where i: "i < length (st_ProxyNodes st)" "st_ProxyNodes st ! i = node" by (metis in_set_conv_nth)
  have sub: "set (node_listener_refs i node) \<subseteq> set (stateListenerRefs st)"
    using i by (force simp: stateListenerRefs_def set_enumerated)
  have agent: "hop_agent node h = hop_AgentID x \<and> hop_AgentID x \<noteq> []" if "hop_map node h = Some x" for h x
    using hop_map_agent [OF that] state_ok_node(5) [OF ok node] by simp
  from c show ?thesis
    unfolding candidate_of_def
  proof
    assume "root_candidate node = Inr c"
    then obtain x where x: "hop_map node (ent_HopID (pn_Entrance node)) = Some x" "ing_hop c = x" "ing_endpoint c = ent_Endpoint (pn_Entrance node)"
      by (auto simp: root_candidate_def bindE_Inr_iff from_option_def split: option.splits)
    let ?r = "\<lparr>ref_agent = hop_AgentID x, ref_slot = EntranceSlot i\<rparr>"
    have "?r \<in> set (node_listener_refs i node)" using agent [OF x(1)] by (simp add: node_listener_refs_def)
    then show ?thesis using sub x i by (intro bexI [of _ ?r]) auto
  next
    assume "\<exists>l \<in> set (pn_Links node). link_candidate node l = Inr c"
    then obtain j where j: "j < length (pn_Links node)" "link_candidate node (pn_Links node ! j) = Inr c" by (metis in_set_conv_nth)
    then obtain x where x: "hop_map node (lnk_ChildHopID (pn_Links node ! j)) = Some x" "ing_hop c = x" "ing_endpoint c = lnk_Endpoint (pn_Links node ! j)"
      by (auto simp: link_candidate_def bindE_Inr_iff from_option_def split: option.splits)
    let ?r = "\<lparr>ref_agent = hop_AgentID x, ref_slot = LinkSlot i j\<rparr>"
    have "?r \<in> set (node_listener_refs i node)"
      using agent [OF x(1)] j(1) by (fastforce simp: node_listener_refs_def set_enumerated Let_def)
    then show ?thesis using sub x i by (intro bexI [of _ ?r]) auto
  qed
qed

lemma inbound_lists_sub:
  "mset (inbound_ids node) \<subseteq># mset (node_entity_ids node)" "mset (inbound_secrets node) \<subseteq># mset (node_secrets node)"
proof -
  have enabled: "mset (map f (filter P ms)) \<subseteq># mset (map f ms)" for f :: "membership \<Rightarrow> string" and P ms
    by (simp add: image_mset_subseteq_mono multiset_filter_subset)
  have links: "mset (map lnk_ID ls) \<subseteq># mset (concat (map (\<lambda>l. lnk_ID l # map rul_ID (lnk_Rules l)) ls))" for ls
    by (induction ls) (simp_all add: subset_mset.add_increasing)
  have secrets: "mset (map (\<lambda>m. cred_Secret (mem_Credential m)) ms) \<subseteq># mset (concat (map membership_secrets ms))" for ms
    by (induction ms) (simp_all add: membership_secrets_def subset_mset.add_increasing)
  show "mset (inbound_ids node) \<subseteq># mset (node_entity_ids node)"
    using enabled [of mem_ID "\<lambda>m. mem_DisabledReason m = MembershipEnabled" "pn_Memberships node"] links [of "pn_Links node"]
    unfolding inbound_ids_def node_entity_ids_def mset_append
    by (metis (no_types, lifting) add.commute subset_mset.add_increasing2 subset_mset.add_mono subset_mset.zero_le)
  show "mset (inbound_secrets node) \<subseteq># mset (node_secrets node)"
    using subset_mset.order_trans [OF enabled secrets, of "\<lambda>m. mem_DisabledReason m = MembershipEnabled" "pn_Memberships node"]
    unfolding inbound_secrets_def node_secrets_def mset_append
    by (metis (no_types, lifting) add.commute subset_mset.add_left_mono)
qed

lemma concat_map_concat: "concat (map f (concat (map g xs))) = concat (map (\<lambda>x. concat (map f (g x))) xs)"
  by (induction xs) simp_all

lemma valid_compatible:
  assumes ok: "state_ok env st" and layout: "layout_ok st"
  shows "compatible (all_inbounds (st_ProxyNodes st))"
proof -
  let ?nodes = "st_ProxyNodes st"
  let ?cs = "all_inbounds ?nodes"
  have tree: "\<forall>n \<in> set ?nodes. routing_tree n" using state_ok_node(2) [OF ok] by blast
  have ref: "\<exists>r \<in> set (stateListenerRefs st). ref_agent r = candidate_agent c \<and> ref_endpoint st r = ing_endpoint c" if "c \<in> set ?cs" for c
  proof -
    from that obtain n where "n \<in> set ?nodes" "c \<in> set (node_inbounds n)" by auto
    with set_node_inbounds tree have "n \<in> set ?nodes" "candidate_of n c" by blast+
    then show ?thesis by (rule inbound_ref [OF ok])
  qed
  have "is_ok (listenerSocketClaims (candidate_agent c) (ing_endpoint c))" if "c \<in> set ?cs" for c
    using ref [OF that] layout unfolding layout_ok_def by metis
  moreover have "candidate_key c = candidate_key d"
    if "c \<in> set ?cs" "d \<in> set ?cs" "s \<in> candidate_claims c" "s \<in> candidate_claims d" for c d s
    using ref [OF that(1)] ref [OF that(2)] layout that(3,4) unfolding layout_ok_def candidate_claims_def candidate_key_def by metis
  moreover have "sorted_wrt (\<lambda>c d. names_of c \<inter> names_of d = {}) ?cs"
  proof -
    have ids: "\<forall>x \<in> set (concat (map inbound_ids ?nodes)). labelled x"
      using state_ok_node(3,4) [OF ok] by (auto simp: inbound_ids_def labelled_def)
    have "distinct (concat (map inbound_ids ?nodes))"
      using ok inbound_lists_sub(1) by (auto simp: state_ok_def entity_ids_of_def intro: distinct_submset mset_concat_sub)
    then have "distinct (map label_of (concat (map inbound_ids ?nodes)))"
      unfolding distinct_map using ids inj_on_subset [OF label_injective] by blast
    moreover have "concat (map (\<lambda>c. map ru_Name (ing_users c)) ?cs) = map label_of (concat (map inbound_ids ?nodes))"
    proof -
      have "map label_of (concat (map inbound_ids ?nodes)) = concat (map (\<lambda>n. map label_of (inbound_ids n)) ?nodes)"
        by (simp add: map_concat comp_def)
      then show ?thesis using inbound_users(1) state_ok_node(2-4) [OF ok] by (simp add: concat_map_concat cong: map_cong)
    qed
    ultimately show ?thesis using distinct_concat_sorted [of "\<lambda>c. map ru_Name (ing_users c)" ?cs] by (simp add: names_of_def)
  qed
  moreover have "sorted_wrt (\<lambda>c d. secrets_used c \<inter> secrets_used d = {}) ?cs"
  proof -
    have "distinct (concat (map inbound_secrets ?nodes))"
      using ok inbound_lists_sub(2) by (auto simp: state_ok_def secrets_of_def intro: distinct_submset mset_concat_sub)
    moreover have "concat (map (\<lambda>c. map ru_Secret (ing_users c)) ?cs) = concat (map inbound_secrets ?nodes)"
      using inbound_users(2) state_ok_node(2-4) [OF ok] by (simp add: concat_map_concat cong: map_cong)
    ultimately show ?thesis using distinct_concat_sorted [of "\<lambda>c. map ru_Secret (ing_users c)" ?cs] by (simp add: secrets_used_def)
  qed
  ultimately show ?thesis unfolding compatible_def by (intro conjI sorted_wrt_conj) blast+
qed

section \<open>Rules, outbounds and configurations\<close>

definition rule_sets_defined :: "proxy_node \<Rightarrow> bool" where
  "rule_sets_defined node \<longleftrightarrow>
     (\<forall>h. \<forall>(l, r) \<in> set (routed_rules node h). rul_Match r = MatchRuleSet \<longrightarrow>
        (\<forall>v \<in> set (rul_Values r). customRuleSet node v \<noteq> None))"

lemma custom_tags_progress:
  assumes "\<forall>v \<in> set vs. customRuleSet node v \<noteq> None"
  shows "\<exists>x. foldE (\<lambda>(tags, sets) value. bindE (from_option e (customRuleSet node value)) (\<lambda>custom. ok (f tags custom, g sets custom))) s vs = Inr x"
  using assms by (induction vs arbitrary: s) (auto simp: from_option_def)

lemma renderRuleMatch_progress:
  assumes "rul_Match r = MatchRuleSet \<longrightarrow> (\<forall>v \<in> set (rul_Values r). customRuleSet node v \<noteq> None)"
  shows "\<exists>x. renderRuleMatch node r output render = Inr x"
proof (cases "rul_Match r")
  case MatchRuleSet
  with assms custom_tags_progress [of "rul_Values r" node] have
    "\<exists>x. foldE (\<lambda>(tags, sets) value.
             bindE (from_option (ErrOther ''undefined custom Rule Set'') (customRuleSet node value)) (\<lambda>custom.
             ok (tags @ [custom_rule_set_tag node (rs_Tag custom)], AList.update (custom_rule_set_tag node (rs_Tag custom))
                  [(''type'', JStr ''remote''), (''format'', JStr (rs_Format custom)), (''tag'', JStr (custom_rule_set_tag node (rs_Tag custom))),
                   (''url'', JStr (rs_URL custom)), (''update_interval'', JStr (rs_UpdateInterval custom))] sets)))
             ([], ar_ruleSets render) (rul_Values r) = Inr x"
    by simp
  then obtain tags sets where "foldE (\<lambda>(tags, sets) value.
             bindE (from_option (ErrOther ''undefined custom Rule Set'') (customRuleSet node value)) (\<lambda>custom.
             ok (tags @ [custom_rule_set_tag node (rs_Tag custom)], AList.update (custom_rule_set_tag node (rs_Tag custom))
                  [(''type'', JStr ''remote''), (''format'', JStr (rs_Format custom)), (''tag'', JStr (custom_rule_set_tag node (rs_Tag custom))),
                   (''url'', JStr (rs_URL custom)), (''update_interval'', JStr (rs_UpdateInterval custom))] sets)))
             ([], ar_ruleSets render) (rul_Values r) = Inr (tags, sets)" by auto
  with MatchRuleSet show ?thesis by (simp add: renderRuleMatch_def Let_def)
qed (simp_all add: renderRuleMatch_def Let_def)

lemma renderHopRules_progress:
  assumes "\<forall>(l, r) \<in> set (routed_rules (ing_node c) (hop_ID (ing_hop c))). rul_Match r = MatchRuleSet \<longrightarrow>
        (\<forall>v \<in> set (rul_Values r). customRuleSet (ing_node c) v \<noteq> None)"
  shows "\<exists>render'. renderHopRules render c = Inr render'"
proof -
  have "\<exists>render'. foldE (render_routed_rule c) render (routed_rules (ing_node c) (hop_ID (ing_hop c))) = Inr render' \<and> True"
  proof (rule foldE_progress)
    fix s x assume x: "x \<in> set (routed_rules (ing_node c) (hop_ID (ing_hop c)))"
    obtain l r where lr: "x = (l, r)" by fastforce
    with assms x have "rul_Match r = MatchRuleSet \<longrightarrow> (\<forall>v \<in> set (rul_Values r). customRuleSet (ing_node c) v \<noteq> None)" by blast
    from renderRuleMatch_progress [OF this, of "rule_base c" s] obtain y where
      y: "renderRuleMatch (ing_node c) r (rule_base c) s = Inr y" by blast
    obtain render rendered where pair: "y = (render, rendered)" by fastforce
    show "\<exists>s'. render_routed_rule c s x = Inr s' \<and> True" by (simp add: render_routed_rule_def lr y pair)
  qed simp
  then show ?thesis by (auto simp: renderHopRules_def Let_def)
qed

lemma with_render_fold_progress:
  assumes "\<And>x byAgent. x \<in> set xs \<Longrightarrow> fst ` set byAgent = A \<Longrightarrow> \<exists>byAgent'. f byAgent x = Inr byAgent' \<and> fst ` set byAgent' = A"
    and "fst ` set byAgent = A"
  shows "\<exists>byAgent'. foldE f byAgent xs = Inr byAgent' \<and> fst ` set byAgent' = A"
  by (rule foldE_progress [where Inv = "\<lambda>byAgent. fst ` set byAgent = A"]) (use assms in auto)

lemma with_render_progress:
  assumes "a \<in> A" "fst ` set byAgent = A" "\<And>r. \<exists>r'. f r = Inr r'"
  shows "\<exists>byAgent'. with_render a f byAgent = Inr byAgent' \<and> fst ` set byAgent' = A"
proof -
  from assms(1,2) obtain r where r: "map_of byAgent a = Some r" by (metis map_of_eq_None_iff not_Some_eq)
  from assms(3) obtain r' where "f r = Inr r'" by blast
  moreover have "fst ` set (AList.update a r' byAgent) = A" using update_keys [OF r, of r'] assms(2) by (metis list.set_map)
  ultimately show ?thesis using r by (auto simp: with_render_Inr)
qed

lemma valid_endpoint:
  assumes "validateEndpoint e = Inr ()"
  shows "\<exists>f. ParseFamily (ep_Family e) = Inr f" "\<And>p. ep_Protocol e \<noteq> OtherProtocol p"
proof -
  have family: "ep_Family e \<in> {[], ''auto'', ''ipv4'', ''ipv6''}"
    using assms by (simp add: validateEndpoint_def split: if_split_asm)
  with family_names family show "\<exists>f. ParseFamily (ep_Family e) = Inr f" by fastforce
  show "ep_Protocol e \<noteq> OtherProtocol p" for p
  proof
    assume "ep_Protocol e = OtherProtocol p"
    with assms show False by (simp add: validateEndpoint_def split: if_split_asm)
  qed
qed

definition resolves :: "resolver \<Rightarrow> proxy_node \<Rightarrow> bool" where
  "resolves resolve node \<longleftrightarrow>
     (\<forall>l \<in> set (pn_Links node). \<forall>f. ParseFamily (ep_Family (lnk_Endpoint l)) = Inr f \<longrightarrow>
        resolve (hop_agent node (lnk_ChildHopID l)) f \<noteq> None)"

lemma add_outbound_progress:
  assumes top: "topology_ok node" and l: "l \<in> set (pn_Links node)" and resolve: "resolves resolve node"
    and agents: "hop_AgentID ` set (pn_Hops node) \<subseteq> A" "fst ` set byAgent = A"
  shows "\<exists>byAgent'. add_outbound resolve node byAgent l = Inr byAgent' \<and> fst ` set byAgent' = A"
proof -
  have tree: "routing_tree node" using top by (simp add: topology_ok_def)
  from link_ends [OF tree l] obtain parent child where
    ends: "hop_map node (lnk_ParentHopID l) = Some parent" "hop_map node (lnk_ChildHopID l) = Some child" by blast
  have "validateEndpoint (lnk_Endpoint l) = Inr ()" using top l by (simp add: topology_ok_def link_ok_def)
  note e = valid_endpoint [OF this]
  from e(1) obtain f where f: "ParseFamily (ep_Family (lnk_Endpoint l)) = Inr f" by blast
  from resolve l f obtain address where "resolve (hop_agent node (lnk_ChildHopID l)) f = Some address"
    by (auto simp: resolves_def)
  then have address: "resolve (hop_AgentID child) f = Some address" using hop_map_agent(1) [OF ends(2)] by simp
  obtain outbound where out: "renderLinkOutbound resolve node l child = Inr outbound"
    using e(2) by (cases "ep_Protocol (lnk_Endpoint l)") (auto simp: renderLinkOutbound_def f address from_option_def Let_def)
  have "hop_AgentID parent \<in> A" using hop_map_agent(2) [OF ends(1)] agents(1) by blast
  from with_render_progress [OF this agents(2), of "\<lambda>r. ok (r\<lparr>ar_outbounds := ar_outbounds r @ [outbound]\<rparr>)"]
  show ?thesis by (simp add: add_outbound_def ends from_option_def out)
qed

lemma render_groups_progress:
  "(\<forall>g \<in> set gs. \<forall>p. ep_Protocol (grp_endpoint g) \<noteq> OtherProtocol p) \<Longrightarrow> \<exists>x. render_groups digest gs = Inr x"
proof (induction gs)
  case Nil
  then show ?case by simp
next
  case (Cons g gs)
  then obtain x where x: "render_groups digest gs = Inr x" by auto
  from Cons.prems have "\<forall>p. ep_Protocol (grp_endpoint g) \<noteq> OtherProtocol p" by simp
  then obtain y where y: "renderListener digest g = Inr y"
    by (cases "ep_Protocol (grp_endpoint g)"; cases "renderInboundTLS digest g") (auto simp: renderListener_def Let_def)
  show ?case by (cases x; cases y) (simp add: x y)
qed

lemma configs_progress:
  assumes "\<forall>(a, r) \<in> set rs. \<forall>g \<in> set (ar_groups r). \<forall>p. ep_Protocol (grp_endpoint g) \<noteq> OtherProtocol p"
  shows "\<exists>x. foldE (\<lambda>configs (a, r). bindE (renderAgentConfig digest r) (\<lambda>config. ok (configs @ [(a, config)]))) acc rs = Inr x"
proof -
  have "\<exists>x. foldE (\<lambda>configs (a, r). bindE (renderAgentConfig digest r) (\<lambda>config. ok (configs @ [(a, config)]))) acc rs = Inr x \<and> True"
  proof (rule foldE_progress)
    fix s y assume y: "y \<in> set rs"
    obtain a r where ar: "y = (a, r)" by fastforce
    with assms y have "\<forall>g \<in> set (ar_groups r). \<forall>p. ep_Protocol (grp_endpoint g) \<noteq> OtherProtocol p" by blast
    from render_groups_progress [OF this] obtain ins provs where "render_groups digest (ar_groups r) = Inr (ins, provs)" by force
    then show "\<exists>s'. (case y of (a, r) \<Rightarrow> bindE (renderAgentConfig digest r) (\<lambda>config. ok (s @ [(a, config)]))) = Inr s' \<and> True"
      by (simp add: ar renderAgentConfig_def Let_def)
  qed simp
  then show ?thesis by simp
qed

section \<open>The whole compilation\<close>

lemma routed_rules_origin:
  assumes "(l, r) \<in> set (routed_rules node h)"
  shows "(\<exists>l' \<in> set (pn_Links node). r \<in> set (lnk_Rules l')) \<or> (\<exists>b \<in> set (pn_BlockBranches node). r = blk_Rule b)"
  using assms by (auto simp: routed_rules_def outgoing_links_def)

lemma known_topology:
  assumes "topology_ok node"
  shows "known_rules node"
proof -
  have "known_match r" if "link_rule_ok r" for r
    using that by (cases "rul_Match r") (auto simp: link_rule_ok_def validateRule_def known_match_def)
  moreover have "link_rule_ok r" if "(l, r) \<in> set (routed_rules node h)" for l r h
    using routed_rules_origin [OF that] assms by (auto simp: topology_ok_def link_ok_def block_ok_def)
  ultimately show ?thesis unfolding known_rules_def by blast
qed

lemma candidate_hop: "candidate_of node c \<Longrightarrow> ing_hop c \<in> set (pn_Hops node)"
  using hop_map_agent(2) by (fastforce simp: candidate_of_def root_candidate_def link_candidate_def bindE_Inr_iff from_option_def split: option.splits)

lemma candidate_protocol:
  assumes "topology_ok node" "candidate_of node c"
  shows "ep_Protocol (ing_endpoint c) \<noteq> OtherProtocol p"
proof -
  have "ing_endpoint c = ent_Endpoint (pn_Entrance node) \<or> ing_endpoint c \<in> lnk_Endpoint ` set (pn_Links node)"
    using assms(2) by (auto simp: candidate_of_def root_candidate_def link_candidate_def bindE_Inr_iff)
  with assms(1) have "validateEndpoint (ing_endpoint c) = Inr ()" by (auto simp: topology_ok_def link_ok_def)
  from valid_endpoint(2) [OF this] show ?thesis .
qed

lemma compile_nodes_progress:
  assumes ok: "state_ok env st" and layout: "layout_ok st"
    and sets: "\<forall>n \<in> set (st_ProxyNodes st). rule_sets_defined n" and resolve: "\<forall>n \<in> set (st_ProxyNodes st). resolves resolve n"
    and nodes: "map fst nodes = st_ProxyNodes st" "\<forall>(n, ds) \<in> set nodes. fst ` set ds = hop_ids n"
  shows "\<exists>res. compile_nodes digest text resolve nodes = Inr res"
proof -
  let ?A = "\<Union>n \<in> set (st_ProxyNodes st). hop_AgentID ` set (pn_Hops n)"
  have mem: "n \<in> set (st_ProxyNodes st)" if "(n, ds) \<in> set nodes" for n ds using that nodes(1) by (metis image_eqI list.set_map fst_conv)
  have "\<forall>(node, ds) \<in> set nodes. routing_tree node \<and> fst ` set ds = hop_ids node"
    using mem nodes(2) state_ok_node(2) [OF ok] by blast
  from collect_progress [OF this, of "[]" Map.empty "[]"] obtain b0 depths where
    collect: "foldE collect_node ([], Map.empty, []) nodes = Inr (b0, depths, concat (map (node_inbounds \<circ> fst) nodes))"
    and agents: "fst ` set b0 = (\<Union>(node, ds) \<in> set nodes. hop_AgentID ` set (pn_Hops node))" by auto
  have cs: "concat (map (node_inbounds \<circ> fst) nodes) = all_inbounds (st_ProxyNodes st)" using nodes(1) by (metis map_map)
  have A: "fst ` set b0 = ?A" unfolding agents nodes(1) [symmetric] by auto
  from group_progress [OF valid_compatible [OF ok layout], of digest "text" b0] obtain b1 ps where
    group: "groupListeners digest text b0 (all_inbounds (st_ProxyNodes st)) = Inr (b1, ps)" by force
  then obtain groups sockets where groups: "foldE (group_step digest) ([], Map.empty) (all_inbounds (st_ProxyNodes st)) = Inr (groups, sockets)"
    and b1: "b1 = map (\<lambda>(a, r). (a, r\<lparr>ar_groups := sort_key (\<lambda>g. text (grp_key g)) (filter (\<lambda>g. grp_agentID g = a) groups)\<rparr>)) b0"
    and ps: "ps = map (place_candidate digest groups) (all_inbounds (st_ProxyNodes st))"
    by (auto simp: groupListeners_def bindE_Inr_iff)
  have groups_ok: "groups_ok digest groups (all_inbounds (st_ProxyNodes st))"
  proof -
    have "groups_ok digest [] []" by (simp add: groups_ok_def)
    from group_fold_ok [OF groups this] show ?thesis by simp
  qed
  have inbound: "\<exists>n \<in> set (st_ProxyNodes st). candidate_of n c" if "c \<in> set (all_inbounds (st_ProxyNodes st))" for c
    using that set_node_inbounds state_ok_node(2) [OF ok] by auto
  have b1_agents: "fst ` set b1 = ?A" using A by (auto simp: b1 case_prod_beta image_image)
  have ps_rules: "\<exists>n \<in> set (st_ProxyNodes st). ing_node c = n \<and> ing_hop c \<in> set (pn_Hops n)" if "c \<in> set ps" for c
  proof -
    from that obtain d where d: "d \<in> set (all_inbounds (st_ProxyNodes st))" "c = place_candidate digest groups d" by (auto simp: ps)
    from inbound [OF d(1)] obtain n where n: "n \<in> set (st_ProxyNodes st)" "candidate_of n d" by blast
    with candidate_of_node candidate_hop d(2) show ?thesis by auto
  qed
  have "\<exists>b2. foldE (\<lambda>byAgent c. with_render (candidate_agent c) (\<lambda>r. renderHopRules r c) byAgent) b1 ps = Inr b2 \<and> fst ` set b2 = ?A"
  proof (rule with_render_fold_progress [OF _ b1_agents])
    fix c and byAgent :: renders assume c: "c \<in> set ps" and b: "fst ` set byAgent = ?A"
    from ps_rules [OF c] obtain n where n: "n \<in> set (st_ProxyNodes st)" "ing_node c = n" "ing_hop c \<in> set (pn_Hops n)" by blast
    have "\<exists>r'. renderHopRules r c = Inr r'" for r
      by (rule renderHopRules_progress) (use sets n(1,2) in \<open>auto simp: rule_sets_defined_def\<close>)
    then show "\<exists>byAgent'. with_render (candidate_agent c) (\<lambda>r. renderHopRules r c) byAgent = Inr byAgent' \<and> fst ` set byAgent' = ?A"
      by (intro with_render_progress [OF _ b]) (use n in auto)
  qed
  then obtain b2 where b2: "foldE (\<lambda>byAgent c. with_render (candidate_agent c) (\<lambda>r. renderHopRules r c) byAgent) b1 ps = Inr b2" "fst ` set b2 = ?A" by blast
  have "\<exists>b3. foldE (\<lambda>byAgent (node, ds). foldE (add_outbound resolve node) byAgent (pn_Links node)) b2 nodes = Inr b3 \<and> fst ` set b3 = ?A"
  proof (rule with_render_fold_progress [OF _ b2(2)])
    fix x and byAgent :: renders assume x: "x \<in> set nodes" and b: "fst ` set byAgent = ?A"
    obtain n ds where nd: "x = (n, ds)" by fastforce
    with x mem have n: "n \<in> set (st_ProxyNodes st)" by blast
    have "\<exists>b3. foldE (add_outbound resolve n) byAgent (pn_Links n) = Inr b3 \<and> fst ` set b3 = ?A"
      by (rule with_render_fold_progress [OF _ b], rule add_outbound_progress)
        (use state_ok_node(1) [OF ok n] resolve n in auto)
    then show "\<exists>b3. (case x of (node, ds) \<Rightarrow> foldE (add_outbound resolve node) byAgent (pn_Links node)) = Inr b3 \<and> fst ` set b3 = ?A"
      by (simp add: nd)
  qed
  then obtain b3 where b3: "foldE (\<lambda>byAgent (node, ds). foldE (add_outbound resolve node) byAgent (pn_Links node)) b2 nodes = Inr b3" by blast
  have "fresh_renders b0" using collect_fold [OF collect] by (simp add: fresh_renders_def)
  moreover have "map fst b1 = map fst b0" by (auto simp: b1 comp_def case_prod_beta)
  ultimately have distinct: "distinct (map fst b1)" by (simp add: fresh_renders_def)
  have "\<forall>c \<in> set ps. known_rules (ing_node c)" using ps_rules known_topology state_ok_node(1) [OF ok] by blast
  note follow = rules_fold [OF b2(1) this] outbounds_fold [OF b3]
  have groups_of: "grp_endpoint g \<in> ing_endpoint ` set (all_inbounds (st_ProxyNodes st))" if "(a, r) \<in> set b3" "g \<in> set (ar_groups r)" for a r g
  proof -
    have "map fst b3 = map fst b1" using follow by (simp add: follows_def)
    with distinct that(1) have "map_of b3 a = Some r" by simp
    with follow(2) obtain r2 where r2: "map_of b2 a = Some r2" "ar_groups r = ar_groups r2" unfolding follows_def by blast
    with follow(1) obtain r1 where r1: "map_of b1 a = Some r1" "ar_groups r = ar_groups r1" unfolding follows_def only_rules_def by metis
    from map_of_SomeD [OF r1(1)] obtain z where "ar_groups r1 = sort_key (\<lambda>g. text (grp_key g)) (filter (\<lambda>g. grp_agentID g = a) groups)"
      by (auto simp: b1)
    with r1(2) that(2) have "g \<in> set groups" by auto
    with groups_ok have "grp_endpoint g \<in> ing_endpoint ` set (grp_candidates g)"
      "grp_candidates g = filter (\<lambda>c. candidate_key c = grp_key g) (all_inbounds (st_ProxyNodes st))" unfolding groups_ok_def by blast+
    then show ?thesis by (metis filter_is_subset image_mono subsetD)
  qed
  have "\<forall>(a, r) \<in> set (sort_key fst b3). \<forall>g \<in> set (ar_groups r). \<forall>p. ep_Protocol (grp_endpoint g) \<noteq> OtherProtocol p"
  proof (intro ballI, unfold split_paired_all split, intro ballI allI)
    fix a r g p assume "(a, r) \<in> set (sort_key fst b3)" and g: "g \<in> set (ar_groups r)"
    then have "(a, r) \<in> set b3" by simp
    from groups_of [OF this g] obtain c where c: "c \<in> set (all_inbounds (st_ProxyNodes st))" "grp_endpoint g = ing_endpoint c" by (metis imageE)
    with inbound [OF c(1)] candidate_protocol state_ok_node(1) [OF ok] show "ep_Protocol (grp_endpoint g) \<noteq> OtherProtocol p" by metis
  qed
  from configs_progress [OF this, of digest "[]"] obtain configs where
    "foldE (\<lambda>configs (a, r). bindE (renderAgentConfig digest r) (\<lambda>config. ok (configs @ [(a, config)]))) [] (sort_key fst b3) = Inr configs" by blast
  then show ?thesis by (simp add: compile_nodes_def collect cs group b2(1) b3)
qed

end
