(* ===== verification/CompileWhole.thy ===== *)
theory CompileWhole
  imports CompileProgress
begin

text \<open>
  \<open>Compile\<close> as a whole: what the reconciliation at its start leaves alone, when it returns, the
  depths it reports, and when a missing custom Rule Set stops it.
\<close>

section \<open>The reconciled state\<close>

abbreviation reconciled :: "state \<Rightarrow> state" where
  "reconciled st \<equiv> fst (reconcileSharedListenerSecrets st None)"

lemma reconciled_bare: "map bare_node (st_ProxyNodes (reconciled st)) = map bare_node (st_ProxyNodes st)"
  by (rule reconcile_result(3) [of st None _ "snd (reconcileSharedListenerSecrets st None)"]) simp

lemma reconciled_node:
  assumes "n \<in> set (st_ProxyNodes st)"
  shows "\<exists>n' \<in> set (st_ProxyNodes (reconciled st)). bare_node n' = bare_node n"
proof -
  from assms have "bare_node n \<in> set (map bare_node (st_ProxyNodes (reconciled st)))" unfolding reconciled_bare by simp
  then show ?thesis by auto
qed

lemma reconciled_origin:
  assumes "n' \<in> set (st_ProxyNodes (reconciled st))"
  shows "\<exists>n \<in> set (st_ProxyNodes st). bare_node n' = bare_node n"
proof -
  from assms have "bare_node n' \<in> set (map bare_node (st_ProxyNodes (reconciled st)))" by simp
  then show ?thesis unfolding reconciled_bare by auto
qed

text \<open>What a Proxy Node and its bare form have in common.\<close>

definition node_rules :: "proxy_node \<Rightarrow> rule list" where
  "node_rules node = concat (map lnk_Rules (pn_Links node)) @ map blk_Rule (pn_BlockBranches node)"

definition rule_sets_known :: "proxy_node \<Rightarrow> bool" where
  "rule_sets_known node \<longleftrightarrow>
     (\<forall>r \<in> set (node_rules node). rul_Match r = MatchRuleSet \<longrightarrow> set (rul_Values r) \<subseteq> rs_Tag ` set (pn_RuleSets node))"

definition resolvable :: "resolver \<Rightarrow> proxy_node \<Rightarrow> bool" where
  "resolvable resolve node \<longleftrightarrow>
     (\<forall>l \<in> set (pn_Links node). \<forall>f \<in> {FamilyAuto, FamilyIPv4, FamilyIPv6}.
        ParseFamily (ep_Family (lnk_Endpoint l)) = Inr f \<longrightarrow> resolve (hop_agent node (lnk_ChildHopID l)) f \<noteq> None)"

lemma bare_link_keeps [simp]:
  "lnk_Rules (bare_link l) = lnk_Rules l" "lnk_ChildHopID (bare_link l) = lnk_ChildHopID l"
  "lnk_ParentHopID (bare_link l) = lnk_ParentHopID l" "lnk_Order (bare_link l) = lnk_Order l"
  "ep_Family (lnk_Endpoint (bare_link l)) = ep_Family (lnk_Endpoint l)"
  by (simp_all add: bare_link_def bare_endpoint_def)

lemma bare_node_keeps:
  "node_rules (bare_node n) = node_rules n" "pn_RuleSets (bare_node n) = pn_RuleSets n"
  "pn_BlockBranches (bare_node n) = pn_BlockBranches n" "pn_Hops (bare_node n) = pn_Hops n"
  "hop_agent (bare_node n) h = hop_agent n h" "pn_Memberships (bare_node n) = pn_Memberships n"
  "root_hop (bare_node n) = root_hop n"
  by (simp_all add: bare_node_def node_rules_def comp_def hop_agent_def hop_agents_def)

lemma bare_edges: "edges (pn_Links (bare_node n)) = edges (pn_Links n)"
proof -
  have "edges ls = (\<lambda>l. (lnk_ParentHopID l, lnk_ChildHopID l)) ` set ls" for ls by (auto simp: edges_def)
  then show ?thesis by (simp add: bare_node_def image_image)
qed

lemma bare_same:
  assumes "bare_node n' = bare_node n"
  shows "node_rules n' = node_rules n" "pn_RuleSets n' = pn_RuleSets n" "pn_BlockBranches n' = pn_BlockBranches n"
    "pn_Hops n' = pn_Hops n" "hop_agent n' h = hop_agent n h" "edges (pn_Links n') = edges (pn_Links n)" "root_hop n' = root_hop n"
  using assms by (metis bare_node_keeps bare_edges)+

lemma resolvable_bare: "resolvable resolve (bare_node n) = resolvable resolve n"
  by (auto simp: resolvable_def bare_node_keeps) (auto simp: bare_node_def)

lemma resolvable_resolves: "resolvable resolve n \<Longrightarrow> resolves resolve n"
  unfolding resolvable_def resolves_def by (metis (full_types) family.exhaust insertCI)

lemma customRuleSet_tag: "customRuleSet node v \<noteq> None \<longleftrightarrow> v \<in> rs_Tag ` set (pn_RuleSets node)"
  by (force simp: customRuleSet_def find_None_iff)

lemma rule_sets_known_defined: "rule_sets_known n \<Longrightarrow> rule_sets_defined n"
  unfolding rule_sets_defined_def rule_sets_known_def customRuleSet_tag node_rules_def
  using routed_rules_origin by fastforce

lemma key_bare: "listenerKeys a (bare_endpoint e) = listenerKeys a e"
  by (simp add: listenerKeys_def listener_socket_def bare_endpoint_def Let_def)

lemma claims_bare: "listenerSocketClaims a (bare_endpoint e) = listenerSocketClaims a e"
  by (cases "ep_Protocol e") (simp_all add: listenerSocketClaims_def listener_socket_def bare_endpoint_def)

lemma layout_reconciled: "layout_ok (reconciled st) = layout_ok st"
proof -
  note result = reconcile_result [of st None "reconciled st" "snd (reconcileSharedListenerSecrets st None)", simplified]
  have same: "bare_endpoint (ref_endpoint (reconciled st) r) = bare_endpoint (ref_endpoint st r)" if "r \<in> set (stateListenerRefs st)" for r
    using result(2) [OF that] by simp
  have "listenerSocketClaims (ref_agent r) (ref_endpoint (reconciled st) r) = listenerSocketClaims (ref_agent r) (ref_endpoint st r)"
    "ref_key (reconciled st) r = ref_key st r" if "r \<in> set (stateListenerRefs st)" for r
    using same [OF that] by (metis claims_bare, metis key_bare)
  then show ?thesis by (simp add: layout_ok_def socket_claims_def result(1))
qed

section \<open>A state whose secrets agree is already reconciled\<close>

lemma set_slot_same: "slot_ok st s \<Longrightarrow> set_slot s (slot_endpoint st s) st = st"
  by (cases s) (auto simp: update_node_def update_at_def)

lemma apply_own_secrets: "applyListenerSecrets e (endpointListenerSecrets e) = e"
  by (simp add: applyListenerSecrets_def endpointListenerSecrets_def split: protocol.split)

lemma reconcile_refs_same:
  assumes "\<forall>r \<in> set rs. slot_ok st (ref_slot r) \<and> endpointListenerSecrets (ref_endpoint st r) = f (ref_key st r)"
    and "\<forall>k s. selected k = Some s \<longrightarrow> s = f k"
  shows "reconcile_refs Map.empty selected changed st rs = (st, changed)"
  using assms
proof (induction rs arbitrary: selected)
  case Nil
  then show ?case by simp
next
  case (Cons r rs)
  let ?k = "ref_key st r" and ?e = "ref_endpoint st r"
  have f: "f ?k = endpointListenerSecrets ?e" using Cons.prems(1) by simp
  have same: "set_slot (ref_slot r) ?e st = st" using Cons.prems(1) by (simp add: set_slot_same)
  have IH: "reconcile_refs Map.empty sel changed st rs = (st, changed)" if "\<forall>k s. sel k = Some s \<longrightarrow> s = f k" for sel
    using Cons.IH [OF _ that] Cons.prems(1) by simp
  show ?case
  proof (cases "selected ?k")
    case None
    have "\<forall>k s. (selected(?k \<mapsto> endpointListenerSecrets ?e)) k = Some s \<longrightarrow> s = f k"
      using Cons.prems(2) f by (metis fun_upd_apply option.inject)
    note step = IH [OF this]
    show ?thesis
      unfolding reconcile_refs.simps Let_def None option.case split apply_own_secrets same
      by (simp only: step simp_thms prod.case)
  next
    case (Some s)
    then have "s = endpointListenerSecrets ?e" using Cons.prems(2) f by metis
    with Some IH [OF Cons.prems(2)] show ?thesis by (simp add: Let_def apply_own_secrets same)
  qed
qed

lemma reconciled_same:
  assumes "\<forall>r \<in> set (stateListenerRefs st). endpointListenerSecrets (ref_endpoint st r) = f (ref_key st r)"
  shows "reconciled st = st"
proof -
  have "reconcile_refs Map.empty Map.empty False st (stateListenerRefs st) = (st, False)"
    by (rule reconcile_refs_same [where f = f]) (use assms refs_slot_ok in auto)
  then show ?thesis by (simp add: reconcileSharedListenerSecrets_def)
qed

section \<open>Compile\<close>

lemma traverse_trees:
  assumes "\<forall>n \<in> set ns. routing_tree n"
  shows "\<exists>nodes. traverse_depths ns = Some nodes \<and> map fst nodes = ns \<and> (\<forall>(n, ds) \<in> set nodes. topologyDepths n = Some ds)"
  using assms
proof (induction ns)
  case Nil
  then show ?case by simp
next
  case (Cons n ns)
  then obtain nodes where rest: "traverse_depths ns = Some nodes" "map fst nodes = ns" "\<forall>(n, ds) \<in> set nodes. topologyDepths n = Some ds"
    by auto
  from Cons.prems topologyDepths_tree [of n] obtain ds where "topologyDepths n = Some ds" by auto
  with rest show ?case by simp
qed

lemma validateState_ok:
  assumes "validateState env st = Inr ()"
  shows "state_ok env st"
  using assms by (intro validateStateCore_ok) (simp add: validateState_def bindE_Inr_iff split: if_splits)

lemma Compile_cases:
  assumes "validateState env (reconciled st) = Inr ()"
  shows "\<exists>nodes. Compile env digest tx (Some resolve) st = Some (compile_nodes digest tx resolve nodes)
     \<and> map fst nodes = st_ProxyNodes (reconciled st) \<and> (\<forall>(n, ds) \<in> set nodes. topologyDepths n = Some ds)"
proof -
  have "\<forall>n \<in> set (st_ProxyNodes (reconciled st)). routing_tree n" using state_ok_node(2) [OF validateState_ok [OF assms]] by blast
  from traverse_trees [OF this] show ?thesis by (auto simp: Compile_def assms Let_def)
qed

lemma Compile_returns: "Compile env digest tx resolver st \<noteq> None"
proof (cases resolver)
  case (Some resolve)
  show ?thesis
  proof (cases "validateState env (reconciled st)")
    case (Inr u)
    then have "validateState env (reconciled st) = Inr ()" by simp
    from Compile_cases [OF this, of digest tx resolve] Some show ?thesis by auto
  qed (simp add: Compile_def Some Let_def)
qed (simp add: Compile_def)

lemma Compile_valid:
  assumes "Compile env digest tx resolver st = Some (Inr res)"
  shows "\<exists>resolve nodes. resolver = Some resolve \<and> compile_nodes digest tx resolve nodes = Inr res
     \<and> state_ok env (reconciled st)
     \<and> map fst nodes = st_ProxyNodes (reconciled st) \<and> (\<forall>(n, ds) \<in> set nodes. topologyDepths n = Some ds)"
proof -
  from assms obtain resolve where r: "resolver = Some resolve" by (auto simp: Compile_def split: option.splits)
  with assms have valid: "validateState env (reconciled st) = Inr ()"
    by (cases "validateState env (reconciled st)") (auto simp: Compile_def Let_def)
  from Compile_cases [OF valid, of digest tx resolve] assms r validateState_ok [OF valid] show ?thesis by fastforce
qed

lemma Compile_progress:
  assumes valid: "validateState env (reconciled st) = Inr ()" and layout: "layout_ok st"
    and sets: "\<forall>n \<in> set (st_ProxyNodes st). rule_sets_known n" and resolve: "\<forall>n \<in> set (st_ProxyNodes st). resolvable resolve n"
  shows "\<exists>res. Compile env digest tx (Some resolve) st = Some (Inr res)"
proof -
  let ?st = "reconciled st"
  from Compile_cases [OF valid] obtain nodes where
    run: "Compile env digest tx (Some resolve) st = Some (compile_nodes digest tx resolve nodes)"
    and nodes: "map fst nodes = st_ProxyNodes ?st" and depths: "\<forall>(n, ds) \<in> set nodes. topologyDepths n = Some ds" by blast
  note ok = validateState_ok [OF valid]
  have "rule_sets_defined n \<and> resolves resolve n" if "n \<in> set (st_ProxyNodes ?st)" for n
  proof -
    from reconciled_origin [OF that] obtain m where m: "m \<in> set (st_ProxyNodes st)" "bare_node n = bare_node m" by blast
    have "rule_sets_known n" using sets m(1) unfolding rule_sets_known_def bare_same(1,2) [OF m(2)] by blast
    moreover have "resolvable resolve n" using resolve m by (metis resolvable_bare)
    ultimately show ?thesis by (simp add: rule_sets_known_defined resolvable_resolves)
  qed
  then have each: "\<forall>n \<in> set (st_ProxyNodes ?st). rule_sets_defined n" "\<forall>n \<in> set (st_ProxyNodes ?st). resolves resolve n" by blast+
  have "fst ` set ds = hop_ids n" if "(n, ds) \<in> set nodes" for n ds
  proof -
    from that have "n \<in> set (map fst nodes)" by force
    then have "n \<in> set (st_ProxyNodes ?st)" unfolding nodes .
    then have "routing_tree n" by (rule state_ok_node(2) [OF ok])
    from topologyDepths_tree [OF this] obtain ds' where "topologyDepths n = Some ds'" "fst ` set ds' = hop_ids n" by blast
    moreover have "topologyDepths n = Some ds" using depths that by blast
    ultimately show ?thesis by simp
  qed
  then have "\<forall>(n, ds) \<in> set nodes. fst ` set ds = hop_ids n" by blast
  moreover have "layout_ok ?st" using layout by (simp only: layout_reconciled)
  ultimately show ?thesis using compile_nodes_progress [OF ok _ each nodes] run by metis
qed

section \<open>Depths\<close>

lemma visit_depths_distinct:
  assumes "visit_depths links pending ds = Some ds'" "distinct (map fst ds)"
  shows "distinct (map fst ds')"
proof -
  have "distinct (map fst ds) \<longrightarrow> distinct (map fst ds')"
  proof (rule visit_depths.raw_induct [where P = "\<lambda>links pending ds ds'. distinct (map fst ds) \<longrightarrow> distinct (map fst ds')", OF _ assms(1)])
    fix visit :: "link list \<Rightarrow> (string \<times> nat) list \<Rightarrow> (string \<times> nat) list \<Rightarrow> (string \<times> nat) list option" and links pending ds ds'
    assume IH: "\<And>l p d r. visit l p d = Some r \<Longrightarrow> distinct (map fst d) \<longrightarrow> distinct (map fst r)"
      and run: "(case pending of [] \<Rightarrow> Some ds
        | (h, d) # rest \<Rightarrow> visit links (map (\<lambda>c. (c, d + 1)) (children_of links h) @ rest) (AList.update h d ds)) = Some ds'"
    show "distinct (map fst ds) \<longrightarrow> distinct (map fst ds')"
    proof (cases pending)
      case (Cons p rest)
      obtain h d where p: "p = (h, d)" by fastforce
      from run have "visit links (map (\<lambda>c. (c, d + 1)) (children_of links h) @ rest) (AList.update h d ds) = Some ds'"
        by (simp add: Cons p)
      from IH [OF this] show ?thesis by (metis AList.distinct_update)
    qed (use run in simp)
  qed
  with assms(2) show ?thesis by simp
qed

definition depth_at :: "(string \<rightharpoonup> nat) \<Rightarrow> string \<Rightarrow> nat" where
  "depth_at depths a = (case depths a of None \<Rightarrow> 0 | Some k \<Rightarrow> k)"

definition hop_depths :: "proxy_node \<Rightarrow> (string \<times> nat) list \<Rightarrow> string \<Rightarrow> nat set" where
  "hop_depths node ds a = {d. \<exists>h x. (h, d) \<in> set ds \<and> hop_map node h = Some x \<and> hop_AgentID x = a}"

lemma finite_hop_depths [simp]: "finite (hop_depths node ds a)"
  by (rule finite_subset [of _ "snd ` set ds"]) (force simp: hop_depths_def)+

lemma hop_depths_simps:
  "hop_depths node [] a = {}"
  "hop_map node h = Some x \<Longrightarrow> hop_depths node ((h, d) # ds) a = (if hop_AgentID x = a then {d} else {}) \<union> hop_depths node ds a"
  by (auto simp: hop_depths_def)

lemma Max_insert_again: "finite S \<Longrightarrow> finite T \<Longrightarrow> Max (insert (Max (insert x S)) T) = Max (insert (x :: nat) (S \<union> T))"
  by (metis (no_types, lifting) Max_Un Max_insert Un_insert_left finite.insertI insert_not_empty sup.right_idem max.commute finite_UnI Un_empty_left Max_singleton sup_bot.right_neutral)

lemma agent_depths_max:
  "agent_depths node ds D = Inr D' \<Longrightarrow> depth_at D' a = Max (insert (depth_at D a) (hop_depths node ds a))"
proof (induction ds arbitrary: D)
  case Nil
  then show ?case by (simp add: agent_depths_def hop_depths_simps)
next
  case (Cons y ds)
  obtain h d where y: "y = (h, d)" by fastforce
  from Cons.prems obtain x where x: "hop_map node h = Some x"
    by (auto simp: agent_depths_def y from_option_def bindE_Inr_iff split: option.splits)
  let ?D = "if d > depth_at D (hop_AgentID x) then D(hop_AgentID x \<mapsto> d) else D"
  have "agent_depths node ds ?D = Inr D'"
    using Cons.prems by (simp add: agent_depths_def y x from_option_def depth_at_def)
  from Cons.IH [OF this] have IH: "depth_at D' a = Max (insert (depth_at ?D a) (hop_depths node ds a))" .
  have "depth_at ?D a = Max (insert (depth_at D a) (if hop_AgentID x = a then {d} else {}))"
    by (auto simp: depth_at_def)
  moreover have "Max (insert (Max (insert (depth_at D a) (if hop_AgentID x = a then {d} else {}))) (hop_depths node ds a))
      = Max (insert (depth_at D a) ((if hop_AgentID x = a then {d} else {}) \<union> hop_depths node ds a))"
    by (rule Max_insert_again) simp_all
  ultimately show ?case by (simp only: IH y hop_depths_simps(2) [OF x])
qed

definition agent_distances :: "proxy_node list \<Rightarrow> string \<Rightarrow> nat set" where
  "agent_distances nodes a = {root_distance n (hop_ID h) | n h. n \<in> set nodes \<and> h \<in> set (pn_Hops n) \<and> hop_AgentID h = a}"

lemma hop_depths_distances:
  assumes tree: "routing_tree n" and ds: "topologyDepths n = Some ds"
  shows "hop_depths n ds a = agent_distances [n] a"
proof -
  from topologyDepths_tree [OF tree] ds have keys: "fst ` set ds = hop_ids n" and at: "\<forall>h \<in> hop_ids n. map_of ds h = Some (root_distance n h)" by auto
  have "distinct (map fst ds)" by (rule visit_depths_distinct [OF ds [unfolded topologyDepths_def]]) simp
  then have mem: "(h, d) \<in> set ds \<longleftrightarrow> h \<in> hop_ids n \<and> d = root_distance n h" for h d
    using at keys by (metis fst_conv image_eqI map_of_eq_Some_iff option.inject)
  have "(\<exists>h x. (h, d) \<in> set ds \<and> hop_map n h = Some x \<and> hop_AgentID x = a) \<longleftrightarrow>
      (\<exists>x \<in> set (pn_Hops n). d = root_distance n (hop_ID x) \<and> hop_AgentID x = a)" for d
  proof
    assume "\<exists>h x. (h, d) \<in> set ds \<and> hop_map n h = Some x \<and> hop_AgentID x = a"
    then show "\<exists>x \<in> set (pn_Hops n). d = root_distance n (hop_ID x) \<and> hop_AgentID x = a"
      using mem hop_map_agent(2,3) by metis
  next
    assume "\<exists>x \<in> set (pn_Hops n). d = root_distance n (hop_ID x) \<and> hop_AgentID x = a"
    then obtain x where x: "x \<in> set (pn_Hops n)" "d = root_distance n (hop_ID x)" "hop_AgentID x = a" by blast
    have "distinct (map hop_ID (pn_Hops n))" using tree by (simp add: routing_tree_def)
    from fill_map_distinct [OF this x(1), of "\<lambda>h. h"] have "hop_map n (hop_ID x) = Some x" by (simp add: hop_map_def)
    with x mem show "\<exists>h x. (h, d) \<in> set ds \<and> hop_map n h = Some x \<and> hop_AgentID x = a" by (auto simp: hop_ids_def)
  qed
  then show ?thesis by (auto simp: hop_depths_def agent_distances_def)
qed

lemma finite_agent_distances [simp]: "finite (agent_distances nodes a)"
proof -
  have "agent_distances nodes a \<subseteq> (\<Union>n \<in> set nodes. (\<lambda>h. root_distance n (hop_ID h)) ` set (pn_Hops n))"
    by (auto simp: agent_distances_def)
  then show ?thesis by (rule finite_subset) simp
qed

lemma collect_depths:
  "foldE collect_node (byAgent, D, cs) nodes = Inr (byAgent', D', cs') \<Longrightarrow>
     \<forall>(n, ds) \<in> set nodes. routing_tree n \<and> topologyDepths n = Some ds \<Longrightarrow>
     depth_at D' a = Max (insert (depth_at D a) (agent_distances (map fst nodes) a))"
proof (induction nodes arbitrary: byAgent D cs)
  case Nil
  then show ?case by (simp add: agent_distances_def)
next
  case (Cons x nodes)
  obtain n ds where x: "x = (n, ds)" by fastforce
  from Cons.prems(1) obtain b D1 c where one: "collect_node (byAgent, D, cs) (n, ds) = Inr (b, D1, c)"
    and rest: "foldE collect_node (b, D1, c) nodes = Inr (byAgent', D', cs')" by (auto simp: x bindE_Inr_iff)
  have tree: "routing_tree n" "topologyDepths n = Some ds" using Cons.prems(2) by (simp_all add: x)
  have "agent_depths n ds D = Inr D1" using one by (auto simp: collect_node_def bindE_Inr_iff)
  from agent_depths_max [OF this, of a] have first: "depth_at D1 a = Max (insert (depth_at D a) (agent_distances [n] a))"
    by (simp only: hop_depths_distances [OF tree])
  have IH: "depth_at D' a = Max (insert (depth_at D1 a) (agent_distances (map fst nodes) a))"
    by (rule Cons.IH [OF rest]) (use Cons.prems(2) in simp)
  have "agent_distances (map fst (x # nodes)) a = agent_distances [n] a \<union> agent_distances (map fst nodes) a"
    by (auto simp: agent_distances_def x)
  then show ?case unfolding IH first by (simp only: Max_insert_again finite_agent_distances)
qed

lemma compile_depths:
  assumes "compile_nodes digest tx resolve nodes = Inr res"
    and "\<forall>(n, ds) \<in> set nodes. routing_tree n \<and> topologyDepths n = Some ds"
  shows "depth_at (cr_AgentDepth res) a = Max (insert 0 (agent_distances (map fst nodes) a))"
proof -
  from assms(1) obtain b D cs where collect: "foldE collect_node ([], Map.empty, []) nodes = Inr (b, D, cs)" and "cr_AgentDepth res = D"
    by (auto simp: compile_nodes_def bindE_Inr_iff)
  with collect_depths [OF collect assms(2), of a] show ?thesis by (simp add: depth_at_def)
qed

lemma root_distance_bare: "bare_node n' = bare_node n \<Longrightarrow> root_distance n' h = root_distance n h"
  unfolding root_distance_def using bare_same(6,7) by metis

lemma agent_distances_bare:
  assumes "map bare_node ns' = map bare_node ns"
  shows "agent_distances ns' a = agent_distances ns a"
proof -
  have half: "agent_distances ms a \<subseteq> agent_distances ks a" if "map bare_node ms = map bare_node ks" for ms ks
  proof
    fix d assume "d \<in> agent_distances ms a"
    then obtain n h where n: "n \<in> set ms" "h \<in> set (pn_Hops n)" "hop_AgentID h = a" "d = root_distance n (hop_ID h)"
      by (auto simp: agent_distances_def)
    from n(1) have "bare_node n \<in> set (map bare_node ks)" unfolding that [symmetric] by simp
    then obtain m where m: "m \<in> set ks" "bare_node n = bare_node m" by auto
    with n bare_same(4) root_distance_bare have "h \<in> set (pn_Hops m)" "d = root_distance m (hop_ID h)" by metis+
    with m(1) n(3) show "d \<in> agent_distances ks a" by (auto simp: agent_distances_def)
  qed
  from half [OF assms] half [OF assms [symmetric]] show ?thesis by blast
qed

lemma Compile_depths:
  assumes "Compile env digest tx resolver st = Some (Inr res)"
  shows "depth_at (cr_AgentDepth res) a = Max (insert 0 (agent_distances (st_ProxyNodes st) a))"
proof -
  from Compile_valid [OF assms] obtain resolve nodes where run: "compile_nodes digest tx resolve nodes = Inr res"
    and ok: "state_ok env (reconciled st)" and nodes: "map fst nodes = st_ProxyNodes (reconciled st)"
    and depths: "\<forall>(n, ds) \<in> set nodes. topologyDepths n = Some ds" by blast
  have "routing_tree n" if "(n, ds) \<in> set nodes" for n ds
  proof -
    from that have "n \<in> set (map fst nodes)" by force
    then show ?thesis unfolding nodes by (rule state_ok_node(2) [OF ok])
  qed
  with depths have "\<forall>(n, ds) \<in> set nodes. routing_tree n \<and> topologyDepths n = Some ds" by blast
  from compile_depths [OF run this, of a] show ?thesis by (simp only: nodes agent_distances_bare [OF reconciled_bare])
qed

section \<open>Missing Rule Sets\<close>

lemma renderHopRules_defined:
  assumes run: "renderHopRules render c = Inr render'" and users: "ing_users c \<noteq> []"
    and r: "(l, r) \<in> set (routed_rules (ing_node c) (hop_ID (ing_hop c)))" "rul_Match r = MatchRuleSet" "v \<in> set (rul_Values r)"
  shows "customRuleSet (ing_node c) v \<noteq> None"
proof -
  from run obtain t where "foldE (render_routed_rule c) render (routed_rules (ing_node c) (hop_ID (ing_hop c))) = Inr t"
    by (auto simp: renderHopRules_def Let_def bindE_Inr_iff)
  from foldE_each [OF this r(1)] obtain s s' where "render_routed_rule c s (l, r) = Inr s'" by blast
  then obtain x where "renderRuleMatch (ing_node c) r (rule_base c) s = Inr x"
    using users by (auto simp: render_routed_rule_def bindE_Inr_iff)
  then obtain tags sets where "foldE (\<lambda>(tags, sets) value.
       bindE (from_option (ErrOther ''undefined custom Rule Set'') (customRuleSet (ing_node c) value)) (\<lambda>custom.
       ok (tags @ [custom_rule_set_tag (ing_node c) (rs_Tag custom)], AList.update (custom_rule_set_tag (ing_node c) (rs_Tag custom))
         [(''type'', JStr ''remote''), (''format'', JStr (rs_Format custom)), (''tag'', JStr (custom_rule_set_tag (ing_node c) (rs_Tag custom))),
                   (''url'', JStr (rs_URL custom)), (''update_interval'', JStr (rs_UpdateInterval custom))] sets)))
     ([], ar_ruleSets s) (rul_Values r) = Inr (tags, sets)"
    using r(2) by (auto simp: renderRuleMatch_def Let_def bindE_Inr_iff)
  from custom_tags [OF this] r(3) show ?thesis by blast
qed

lemma compile_defined:
  assumes run: "compile_nodes digest tx resolve nodes = Inr res"
    and c: "(node, ds) \<in> set nodes" "candidate_of node c" "ing_users c \<noteq> []"
    and r: "(l, r) \<in> set (routed_rules node (hop_ID (ing_hop c)))" "rul_Match r = MatchRuleSet" "v \<in> set (rul_Values r)"
  shows "customRuleSet node v \<noteq> None"
proof -
  from run obtain b0 depths cs b1 ps b2 where
    collect: "foldE collect_node ([], Map.empty, []) nodes = Inr (b0, depths, cs)"
    and group: "groupListeners digest tx b0 cs = Inr (b1, ps)"
    and rules: "foldE (\<lambda>byAgent c. with_render (candidate_agent c) (\<lambda>r. renderHopRules r c) byAgent) b1 ps = Inr b2"
    by (auto simp: compile_nodes_def bindE_Inr_iff)
  have "fresh_renders []" by (simp add: fresh_renders_def)
  from collect_fold [OF collect this] c have "c \<in> set cs" by auto
  moreover from group obtain groups where "ps = map (place_candidate digest groups) cs"
    by (auto simp: groupListeners_def bindE_Inr_iff)
  ultimately have "place_candidate digest groups c \<in> set ps" by simp
  from foldE_each [OF rules this] obtain render render' where
    "renderHopRules render (place_candidate digest groups c) = Inr render'" by (auto simp: with_render_Inr)
  from renderHopRules_defined [OF this, of l r v] c r candidate_of_node [OF c(2)] show ?thesis by simp
qed

lemma block_rule_routed:
  assumes "b \<in> set (pn_BlockBranches node)"
  shows "(None, blk_Rule b) \<in> set (routed_rules node (blk_ParentHopID b))"
  using assms by (auto simp: routed_rules_def)

lemma Compile_block_defined:
  assumes run: "Compile env digest tx resolver st = Some (Inr res)"
    and node: "node \<in> set (st_ProxyNodes st)" and b: "b \<in> set (pn_BlockBranches node)" and l: "l \<in> set (pn_Links node)" "lnk_ChildHopID l = blk_ParentHopID b"
    and v: "rul_Match (blk_Rule b) = MatchRuleSet" "v \<in> set (rul_Values (blk_Rule b))"
  shows "v \<in> rs_Tag ` set (pn_RuleSets node)"
proof -
  from Compile_valid [OF run] obtain resolve nodes where comp: "compile_nodes digest tx resolve nodes = Inr res"
    and ok: "state_ok env (reconciled st)" and nodes: "map fst nodes = st_ProxyNodes (reconciled st)" by metis
  from reconciled_node [OF node] obtain n where n: "n \<in> set (st_ProxyNodes (reconciled st))" "bare_node n = bare_node node" by blast
  have "n \<in> set (map fst nodes)" using n(1) by (simp only: nodes)
  then obtain ds where ds: "(n, ds) \<in> set nodes" by auto
  note tree = state_ok_node(2) [OF ok n(1)]
  have "bare_link l \<in> set (pn_Links (bare_node node))" using l(1) by (simp add: bare_node_def)
  then have "bare_link l \<in> set (pn_Links (bare_node n))" by (simp only: n(2))
  then obtain k where k: "k \<in> set (pn_Links n)" "bare_link k = bare_link l" by (auto simp: bare_node_def)
  then have child: "lnk_ChildHopID k = blk_ParentHopID b" using l(2) by (metis bare_link_keeps(2))
  from inbounds_exist(2) [OF tree k(1)] obtain c where c: "link_candidate n k = Inr c" by blast
  then have hop: "hop_map n (lnk_ChildHopID k) = Some (ing_hop c)" "ing_users c \<noteq> []"
    by (auto simp: link_candidate_def bindE_Inr_iff from_option_def split: option.splits)
  have "hop_ID (ing_hop c) = blk_ParentHopID b" using hop_map_agent(3) [OF hop(1)] child by simp
  moreover have "b \<in> set (pn_BlockBranches n)" using b bare_same(3) [OF n(2)] by simp
  ultimately have "(None, blk_Rule b) \<in> set (routed_rules n (hop_ID (ing_hop c)))" using block_rule_routed by simp
  from compile_defined [OF comp ds _ hop(2) this v] c k(1) have "customRuleSet n v \<noteq> None" by (auto simp: candidate_of_def)
  then show ?thesis unfolding customRuleSet_tag bare_same(2) [OF n(2)] .
qed

end
