(* ===== verification/CompileAdmission.thy ===== *)
theory CompileAdmission
  imports CompileWhole
begin

text \<open>
  Who may connect: the users of an inbound of a compiled configuration are the users of the
  entrances and Links that share its listener, and nobody else.
\<close>

section \<open>The inbounds of a configuration\<close>

definition objects_at :: "string \<Rightarrow> fields \<Rightarrow> fields list" where
  "objects_at k f = (case map_of f k of Some (JArr xs) \<Rightarrow> map (\<lambda>x. case x of JObj g \<Rightarrow> g | _ \<Rightarrow> []) xs | _ \<Rightarrow> [])"

definition admits :: "fields \<Rightarrow> string \<Rightarrow> string \<Rightarrow> string \<Rightarrow> bool" where
  "admits config tag name secret \<longleftrightarrow>
     list_ex (\<lambda>inbound. map_of inbound ''tag'' = Some (JStr tag) \<and>
       list_ex (\<lambda>u. u = [(''name'', JStr name), (''password'', JStr secret)]) (objects_at ''users'' inbound))
     (objects_at ''inbounds'' config)"

definition user_fields :: "render_user \<Rightarrow> fields" where
  "user_fields u = [(''name'', JStr (ru_Name u)), (''password'', JStr (ru_Secret u))]"

lemma renderListener_users:
  assumes "renderListener digest g = Inr (inbound, provider)"
  shows "map_of inbound ''tag'' = Some (JStr (grp_tag g))"
    "set (objects_at ''users'' inbound) = user_fields ` (\<Union>c \<in> set (grp_candidates g). set (ing_users c))"
proof -
  let ?users = "sort_key ru_Name (concat (map ing_users (grp_candidates g)))"
  from assms obtain rest where inbound: "inbound = [(''type'', JStr (protocol_name (ep_Protocol (grp_endpoint g)))), (''tag'', JStr (grp_tag g)),
      (''listen'', JStr (ep_Listen (grp_endpoint g))), (''listen_port'', JInt (ep_ListenPort (grp_endpoint g))),
      (''users'', JArr (map (\<lambda>u. JObj [(''name'', JStr (ru_Name u)), (''password'', JStr (ru_Secret u))]) ?users))] @ rest"
    by (cases "ep_Protocol (grp_endpoint g)"; cases "renderInboundTLS digest g") (auto simp: renderListener_def Let_def)
  show "map_of inbound ''tag'' = Some (JStr (grp_tag g))" by (simp add: inbound)
  have "objects_at ''users'' inbound = map user_fields ?users" by (simp add: inbound objects_at_def comp_def user_fields_def)
  then show "set (objects_at ''users'' inbound) = user_fields ` (\<Union>c \<in> set (grp_candidates g). set (ing_users c))" by simp
qed

lemma render_groups_inbounds:
  "render_groups digest gs = Inr (inbounds, providers) \<Longrightarrow>
     list_all2 (\<lambda>g inbound. \<exists>p. renderListener digest g = Inr (inbound, p)) gs inbounds"
  by (induction gs arbitrary: inbounds providers) (auto simp: bindE_Inr_iff)

lemma renderAgentConfig_inbounds:
  assumes "renderAgentConfig digest r = Inr config"
  shows "\<exists>inbounds. objects_at ''inbounds'' config = inbounds \<and>
     list_all2 (\<lambda>g inbound. \<exists>p. renderListener digest g = Inr (inbound, p)) (ar_groups r) inbounds"
  using assms render_groups_inbounds by (fastforce simp: renderAgentConfig_def bindE_Inr_iff Let_def objects_at_def comp_def)

lemma config_admits:
  assumes "renderAgentConfig digest r = Inr config"
  shows "admits config tag name secret \<longleftrightarrow>
     (\<exists>g \<in> set (ar_groups r). grp_tag g = tag \<and> (\<exists>c \<in> set (grp_candidates g). \<lparr>ru_Name = name, ru_Secret = secret\<rparr> \<in> set (ing_users c)))"
proof -
  from renderAgentConfig_inbounds [OF assms] obtain inbounds where ins: "objects_at ''inbounds'' config = inbounds"
    and each: "list_all2 (\<lambda>g inbound. \<exists>p. renderListener digest g = Inr (inbound, p)) (ar_groups r) inbounds" by blast
  have user: "[(''name'', JStr name), (''password'', JStr secret)] = user_fields \<lparr>ru_Name = name, ru_Secret = secret\<rparr>"
    by (simp add: user_fields_def)
  have inj: "user_fields u = user_fields v \<Longrightarrow> u = v" for u v :: render_user by (cases u; cases v) (simp add: user_fields_def)
  have one: "(map_of inbound ''tag'' = Some (JStr tag) \<and>
       list_ex (\<lambda>u. u = [(''name'', JStr name), (''password'', JStr secret)]) (objects_at ''users'' inbound)) \<longleftrightarrow>
      grp_tag g = tag \<and> (\<exists>c \<in> set (grp_candidates g). \<lparr>ru_Name = name, ru_Secret = secret\<rparr> \<in> set (ing_users c))"
    if "renderListener digest g = Inr (inbound, p)" for g inbound p
    using renderListener_users [OF that] unfolding list_ex_iff user by (auto dest: inj)
  show ?thesis
    unfolding admits_def ins list_ex_iff
    using each one by (induction rule: list_all2_induct) (auto simp: list_ex_iff)
qed

section \<open>The groups of an Agent\<close>

lemma compile_config_groups:
  assumes run: "compile_nodes digest tx resolve nodes = Inr res" and known: "\<forall>(node, ds) \<in> set nodes. known_rules node"
    and config: "map_of (cr_Configs res) a = Some config"
  shows "\<exists>groups cs r. groups_ok digest groups cs \<and> set cs = {c. \<exists>(node, ds) \<in> set nodes. candidate_of node c}
     \<and> set (ar_groups r) = {g \<in> set groups. grp_agentID g = a} \<and> renderAgentConfig digest r = Inr config"
proof -
  from run obtain b0 depths cs b1 ps b2 b3 configs where
    collect: "foldE collect_node ([], Map.empty, []) nodes = Inr (b0, depths, cs)"
    and group: "groupListeners digest tx b0 cs = Inr (b1, ps)"
    and rules: "foldE (\<lambda>byAgent c. with_render (candidate_agent c) (\<lambda>r. renderHopRules r c) byAgent) b1 ps = Inr b2"
    and outs: "foldE (\<lambda>byAgent (node, ds). foldE (add_outbound resolve node) byAgent (pn_Links node)) b2 nodes = Inr b3"
    and configs: "foldE (\<lambda>configs (a, r). bindE (renderAgentConfig digest r) (\<lambda>config. ok (configs @ [(a, config)]))) []
        (sort_key fst b3) = Inr configs" and res: "res = \<lparr>cr_Configs = configs, cr_AgentDepth = depths\<rparr>"
    by (auto simp: compile_nodes_def bindE_Inr_iff)
  have "fresh_renders []" by (simp add: fresh_renders_def)
  from collect_fold [OF collect this] have fresh: "fresh_renders b0"
    and cs: "set cs = {c. \<exists>(node, ds) \<in> set nodes. candidate_of node c}" by auto
  from group obtain groups sockets where groups: "foldE (group_step digest) ([], Map.empty) cs = Inr (groups, sockets)"
    and b1: "b1 = map (\<lambda>(a, r). (a, r\<lparr>ar_groups := sort_key (\<lambda>g. tx (grp_key g)) (filter (\<lambda>g. grp_agentID g = a) groups)\<rparr>)) b0"
    and ps: "ps = map (place_candidate digest groups) cs"
    by (auto simp: groupListeners_def bindE_Inr_iff)
  have "groups_ok digest [] []" by (simp add: groups_ok_def)
  from group_fold_ok [OF groups this] have ok: "groups_ok digest groups cs" by simp
  have "\<forall>c \<in> set ps. known_rules (ing_node c)" using known by (fastforce simp: ps cs dest: candidate_of_node)
  note follow = rules_fold [OF rules this] outbounds_fold [OF outs]
  have "map fst b1 = map fst b0" by (auto simp: b1 comp_def case_prod_beta)
  with follow fresh have distinct: "distinct (map fst b3)" by (simp add: follows_def fresh_renders_def)
  from config have "(a, config) \<in> set configs" by (auto simp: res dest: map_of_SomeD)
  with configs_fold [OF configs] obtain r where r: "(a, r) \<in> set b3" "renderAgentConfig digest r = Inr config" by auto
  with distinct have "map_of b3 a = Some r" by simp
  with follow(2) obtain r2 where r2: "map_of b2 a = Some r2" "ar_groups r = ar_groups r2" unfolding follows_def by blast
  with follow(1) obtain r1 where r1: "map_of b1 a = Some r1" "ar_groups r = ar_groups r1" unfolding follows_def only_rules_def by metis
  from map_of_SomeD [OF r1(1)] have "ar_groups r1 = sort_key (\<lambda>g. tx (grp_key g)) (filter (\<lambda>g. grp_agentID g = a) groups)" by (auto simp: b1)
  with r1(2) have "set (ar_groups r) = {g \<in> set groups. grp_agentID g = a}" by auto
  with ok cs r(2) show ?thesis by blast
qed

lemma compiled_users:
  assumes run: "compile_nodes digest tx resolve nodes = Inr res" and known: "\<forall>(node, ds) \<in> set nodes. known_rules node"
    and config: "map_of (cr_Configs res) a = Some config"
  shows "admits config tag name secret \<longleftrightarrow>
     (\<exists>node \<in> fst ` set nodes. \<exists>c. candidate_of node c \<and> candidate_agent c = a \<and> tag = ''tp-in-'' @ digest (candidate_key c)
        \<and> \<lparr>ru_Name = name, ru_Secret = secret\<rparr> \<in> set (ing_users c))"
proof -
  from compile_config_groups [OF assms] obtain groups cs r where ok: "groups_ok digest groups cs"
    and cs: "set cs = {c. \<exists>(node, ds) \<in> set nodes. candidate_of node c}"
    and groups: "set (ar_groups r) = {g \<in> set groups. grp_agentID g = a}" and config': "renderAgentConfig digest r = Inr config" by blast
  have agent: "so_Agent (fst (candidate_key c)) = candidate_agent c" for c by (simp add: candidate_key_def)
  let ?u = "\<lparr>ru_Name = name, ru_Secret = secret\<rparr>"
  have "(\<exists>g \<in> set (ar_groups r). grp_tag g = tag \<and> (\<exists>c \<in> set (grp_candidates g). ?u \<in> set (ing_users c))) \<longleftrightarrow>
      (\<exists>c \<in> set cs. candidate_agent c = a \<and> tag = ''tp-in-'' @ digest (candidate_key c) \<and> ?u \<in> set (ing_users c))"
  proof
    assume "\<exists>g \<in> set (ar_groups r). grp_tag g = tag \<and> (\<exists>c \<in> set (grp_candidates g). ?u \<in> set (ing_users c))"
    then obtain g c where g: "g \<in> set groups" "grp_agentID g = a" "grp_tag g = tag" "c \<in> set (grp_candidates g)" "?u \<in> set (ing_users c)"
      using groups by blast
    from ok g(1) have "grp_candidates g = filter (\<lambda>c. candidate_key c = grp_key g) cs" "grp_tag g = ''tp-in-'' @ digest (grp_key g)"
      "grp_agentID g = so_Agent (fst (grp_key g))" unfolding groups_ok_def by blast+
    with g agent [of c] have "c \<in> set cs" "candidate_agent c = a" "tag = ''tp-in-'' @ digest (candidate_key c)" by auto
    with g(5) show "\<exists>c \<in> set cs. candidate_agent c = a \<and> tag = ''tp-in-'' @ digest (candidate_key c) \<and> ?u \<in> set (ing_users c)" by blast
  next
    assume "\<exists>c \<in> set cs. candidate_agent c = a \<and> tag = ''tp-in-'' @ digest (candidate_key c) \<and> ?u \<in> set (ing_users c)"
    then obtain c where c: "c \<in> set cs" "candidate_agent c = a" "tag = ''tp-in-'' @ digest (candidate_key c)" "?u \<in> set (ing_users c)" by blast
    from ok c(1) have "candidate_key c \<in> grp_key ` set groups" unfolding groups_ok_def by (metis image_eqI)
    then obtain g where g: "g \<in> set groups" "candidate_key c = grp_key g" by (rule imageE)
    from ok g(1) have "grp_candidates g = filter (\<lambda>c. candidate_key c = grp_key g) cs" "grp_tag g = ''tp-in-'' @ digest (grp_key g)"
      "grp_agentID g = so_Agent (fst (grp_key g))" unfolding groups_ok_def by blast+
    with g c agent [of c] have "g \<in> set (ar_groups r)" "grp_tag g = tag" "c \<in> set (grp_candidates g)" by (auto simp: groups)
    with c(4) show "\<exists>g \<in> set (ar_groups r). grp_tag g = tag \<and> (\<exists>c \<in> set (grp_candidates g). ?u \<in> set (ing_users c))" by blast
  qed
  then show ?thesis unfolding config_admits [OF config'] cs by force
qed

lemma Compile_known:
  assumes "Compile env digest tx resolver st = Some (Inr res)"
  shows "\<exists>resolve nodes. compile_nodes digest tx resolve nodes = Inr res \<and> map fst nodes = st_ProxyNodes (reconciled st)
     \<and> (\<forall>(node, ds) \<in> set nodes. known_rules node)"
proof -
  from Compile_valid [OF assms] obtain resolve nodes where run: "compile_nodes digest tx resolve nodes = Inr res"
    and ok: "state_ok env (reconciled st)" and nodes: "map fst nodes = st_ProxyNodes (reconciled st)" by metis
  have "known_rules node" if "(node, ds) \<in> set nodes" for node ds
  proof -
    from that have "node \<in> set (map fst nodes)" by force
    then show ?thesis unfolding nodes by (intro known_topology state_ok_node(1) [OF ok])
  qed
  with run nodes show ?thesis by blast
qed

section \<open>In terms of the state\<close>

text \<open>Who may use the inbound with this tag on an Agent, read off a Proxy Node.\<close>

definition entrance_admits :: "(listener_key \<Rightarrow> string) \<Rightarrow> string \<Rightarrow> string \<Rightarrow> string \<Rightarrow> string \<Rightarrow> proxy_node \<Rightarrow> bool" where
  "entrance_admits digest a tag name secret n \<longleftrightarrow>
     hop_agent n (root_hop n) = a \<and> tag = ''tp-in-'' @ digest (listenerKeys a (ent_Endpoint (pn_Entrance n))) \<and>
     list_ex (\<lambda>m. mem_DisabledReason m = MembershipEnabled \<and> name = AuthenticatedUserLabel (mem_ID m)
        \<and> secret = cred_Secret (mem_Credential m)) (pn_Memberships n)"

definition link_admits :: "(listener_key \<Rightarrow> string) \<Rightarrow> string \<Rightarrow> string \<Rightarrow> string \<Rightarrow> string \<Rightarrow> proxy_node \<Rightarrow> bool" where
  "link_admits digest a tag name secret n \<longleftrightarrow>
     list_ex (\<lambda>l. hop_agent n (lnk_ChildHopID l) = a \<and> tag = ''tp-in-'' @ digest (listenerKeys a (lnk_Endpoint l))
        \<and> name = linkUserLabel (lnk_ID l) \<and> secret = cred_Secret (lnk_Credential l)) (pn_Links n)"

lemma bare_link_more [simp]:
  "lnk_ID (bare_link l) = lnk_ID l" "lnk_Credential (bare_link l) = lnk_Credential l"
  "listenerKeys a (lnk_Endpoint (bare_link l)) = listenerKeys a (lnk_Endpoint l)"
  using key_bare by (simp_all add: bare_link_def)

lemma admits_bare:
  "entrance_admits digest a tag name secret (bare_node n) = entrance_admits digest a tag name secret n"
  "link_admits digest a tag name secret (bare_node n) = link_admits digest a tag name secret n"
proof -
  have entrance: "ent_Endpoint (pn_Entrance (bare_node n)) = bare_endpoint (ent_Endpoint (pn_Entrance n))"
    and links: "pn_Links (bare_node n) = map bare_link (pn_Links n)" by (simp_all add: bare_node_def)
  show "entrance_admits digest a tag name secret (bare_node n) = entrance_admits digest a tag name secret n"
    unfolding entrance_admits_def bare_node_keeps entrance key_bare ..
  show "link_admits digest a tag name secret (bare_node n) = link_admits digest a tag name secret n"
    unfolding link_admits_def bare_node_keeps links list_ex_iff by simp
qed

lemma candidate_admits:
  assumes "routing_tree n"
  shows "(\<exists>c. candidate_of n c \<and> candidate_agent c = a \<and> tag = ''tp-in-'' @ digest (candidate_key c)
        \<and> \<lparr>ru_Name = name, ru_Secret = secret\<rparr> \<in> set (ing_users c)) \<longleftrightarrow>
     entrance_admits digest a tag name secret n \<or> link_admits digest a tag name secret n"
proof -
  let ?u = "\<lparr>ru_Name = name, ru_Secret = secret\<rparr>"
  let ?P = "\<lambda>c. candidate_agent c = a \<and> tag = ''tp-in-'' @ digest (candidate_key c) \<and> ?u \<in> set (ing_users c)"
  from inbounds_exist(1) [OF assms] obtain root where root: "root_candidate n = Inr root" by blast
  then have "hop_map n (root_hop n) = Some (ing_hop root)" and fields: "ing_users root = root_users n"
    "ing_endpoint root = ent_Endpoint (pn_Entrance n)"
    by (auto simp: root_candidate_def bindE_Inr_iff from_option_def split: option.splits)
  from hop_map_agent(1) [OF this(1)] have "hop_agent n (root_hop n) = candidate_agent root" .
  then have r: "?P root \<longleftrightarrow> entrance_admits digest a tag name secret n"
    by (auto simp: entrance_admits_def list_ex_iff candidate_key_def fields root_users_def)
  have l: "(\<exists>c. link_candidate n l = Inr c \<and> ?P c) \<longleftrightarrow> hop_agent n (lnk_ChildHopID l) = a
      \<and> tag = ''tp-in-'' @ digest (listenerKeys a (lnk_Endpoint l)) \<and> name = linkUserLabel (lnk_ID l) \<and> secret = cred_Secret (lnk_Credential l)"
    if "l \<in> set (pn_Links n)" for l
  proof -
    from inbounds_exist(2) [OF assms that] obtain c where c: "link_candidate n l = Inr c" by blast
    then have "hop_map n (lnk_ChildHopID l) = Some (ing_hop c)" and fields:
      "ing_users c = [\<lparr>ru_Name = linkUserLabel (lnk_ID l), ru_Secret = cred_Secret (lnk_Credential l)\<rparr>]" "ing_endpoint c = lnk_Endpoint l"
      by (auto simp: link_candidate_def bindE_Inr_iff from_option_def split: option.splits)
    from hop_map_agent(1) [OF this(1)] have "hop_agent n (lnk_ChildHopID l) = candidate_agent c" .
    then show ?thesis by (auto simp: c candidate_key_def fields)
  qed
  have "(\<exists>c. candidate_of n c \<and> ?P c) \<longleftrightarrow> ?P root \<or> (\<exists>l \<in> set (pn_Links n). \<exists>c. link_candidate n l = Inr c \<and> ?P c)"
    unfolding candidate_of_def root by blast
  also have "\<dots> \<longleftrightarrow> entrance_admits digest a tag name secret n \<or> link_admits digest a tag name secret n"
    unfolding r link_admits_def list_ex_iff using l by blast
  finally show ?thesis .
qed

lemma Compile_users:
  assumes run: "Compile env digest tx resolver st = Some (Inr res)" and config: "map_of (cr_Configs res) a = Some config"
  shows "admits config tag name secret \<longleftrightarrow>
     (\<exists>n \<in> set (st_ProxyNodes st). entrance_admits digest a tag name secret n \<or> link_admits digest a tag name secret n)"
proof -
  from Compile_known [OF run] obtain resolve nodes where comp: "compile_nodes digest tx resolve nodes = Inr res"
    and nodes: "map fst nodes = st_ProxyNodes (reconciled st)" and known: "\<forall>(node, ds) \<in> set nodes. known_rules node" by blast
  from Compile_valid [OF run] have ok: "state_ok env (reconciled st)" by blast
  have fst_nodes: "fst ` set nodes = set (st_ProxyNodes (reconciled st))" using nodes by (metis list.set_map)
  let ?A = "\<lambda>n. entrance_admits digest a tag name secret n \<or> link_admits digest a tag name secret n"
  have "admits config tag name secret \<longleftrightarrow> (\<exists>n \<in> set (st_ProxyNodes (reconciled st)). ?A n)"
    unfolding compiled_users [OF comp known config] fst_nodes using candidate_admits state_ok_node(2) [OF ok] by blast
  also have "\<dots> \<longleftrightarrow> (\<exists>b \<in> set (map bare_node (st_ProxyNodes (reconciled st))). ?A b)" by (simp add: admits_bare)
  also have "\<dots> \<longleftrightarrow> (\<exists>n \<in> set (st_ProxyNodes st). ?A n)" unfolding reconciled_bare by (simp add: admits_bare)
  finally show ?thesis .
qed

end
