(* ===== verification/CompilerClaims.thy ===== *)
theory CompilerClaims
  imports CompileAdmission Samples
begin

text \<open>
  The properties of the compiler: it returns, it succeeds on the states an operator can apply, the
  configurations route as the topology says and admit exactly the enabled users, and what stops it.
\<close>

section \<open>Sample facts\<close>

definition sample_resolve :: resolver where
  "sample_resolve = (\<lambda>agent family. Some ''10.0.0.1'')"

definition port_digest :: "listener_key \<Rightarrow> string" where
  "port_digest k = replicate (nat (so_Port (fst k))) (CHR ''p'')"

lemma sample_refs: "stateListenerRefs sample_state = [\<lparr>ref_agent = ''alpha'', ref_slot = EntranceSlot 0\<rparr>, \<lparr>ref_agent = ''beta'', ref_slot = LinkSlot 0 0\<rparr>,
   \<lparr>ref_agent = ''gamma'', ref_slot = LinkSlot 0 1\<rparr>, \<lparr>ref_agent = ''delta'', ref_slot = LinkSlot 0 2\<rparr>]"
  by code_simp

lemma sample_endpoints: "slot_endpoint sample_state (EntranceSlot 0) = sample_endpoint 443" "slot_endpoint sample_state (LinkSlot 0 0) = sample_endpoint 8443"
  "slot_endpoint sample_state (LinkSlot 0 (Suc 0)) = sample_endpoint 8444" "slot_endpoint sample_state (LinkSlot 0 2) = sample_endpoint 8445"
  by (simp_all add: sample_state_fields sample_node_def link_b_def link_c_def link_d_def sample_link_def)

lemma sample_layout: "layout_ok sample_state"
  by (simp add: layout_ok_def sample_refs sample_endpoints socket_claims_def listenerSocketClaims_def listener_socket_def del: slot_endpoint.simps)
     (simp add: sample_endpoint_def sample_endpoints listener_socket_def del: slot_endpoint.simps)

lemma sample_reconciled: "reconciled sample_state = sample_state"
  by (rule reconciled_same [where f = "\<lambda>_. (''AAAAAAAAAAAAAAAAAAAAAA=='', [])"])
    (simp add: sample_refs sample_endpoints del: slot_endpoint.simps, simp add: sample_endpoint_def endpointListenerSecrets_def)

lemma sample_validState: "validateState sample_env (reconciled sample_state) = Inr ()"
  using sample_state_valid by (simp add: sample_reconciled validateStoredState_def bindE_Inr_iff)

lemma sample_rule_sets: "\<forall>n \<in> set (st_ProxyNodes sample_state). rule_sets_known n"
  by (simp add: sample_state_fields rule_sets_known_def node_rules_def sample_node_def link_b_def link_c_def link_d_def
      sample_link_def sample_block_def sample_rule_def)

lemma sample_resolvable: "\<forall>n \<in> set (st_ProxyNodes sample_state). resolvable sample_resolve n"
  by (simp add: resolvable_def sample_resolve_def)

lemma sample_state_ok: "state_ok sample_env sample_state"
  using validateState_ok [OF sample_validState] by (simp only: sample_reconciled)

lemma sample_keys: "inj_on port_digest (inbound_keys (st_ProxyNodes (reconciled sample_state)))"
proof -
  have "inbound_keys (st_ProxyNodes sample_state) \<subseteq> (\<lambda>r. ref_key sample_state r) ` set (stateListenerRefs sample_state)"
  proof
    fix k assume "k \<in> inbound_keys (st_ProxyNodes sample_state)"
    then obtain c n where c: "n \<in> set (st_ProxyNodes sample_state)" "candidate_of n c" "k = candidate_key c"
      unfolding inbound_keys_def by blast
    from inbound_ref [OF sample_state_ok c(1,2)] obtain r where r: "r \<in> set (stateListenerRefs sample_state)"
      "ref_agent r = candidate_agent c" "ref_endpoint sample_state r = ing_endpoint c" by blast
    show "k \<in> (\<lambda>r. ref_key sample_state r) ` set (stateListenerRefs sample_state)"
      by (rule image_eqI [OF _ r(1)]) (simp only: c(3) candidate_key_def r(2,3))
  qed
  also have "\<dots> = {listenerKeys ''alpha'' (sample_endpoint 443), listenerKeys ''beta'' (sample_endpoint 8443),
      listenerKeys ''gamma'' (sample_endpoint 8444), listenerKeys ''delta'' (sample_endpoint 8445)}"
    by (simp only: sample_refs list.set image_insert image_empty listener_ref.simps One_nat_def sample_endpoints)
  finally have sub: "inbound_keys (st_ProxyNodes sample_state) \<subseteq> \<dots>" .
  have "so_Port (fst (listenerKeys a (sample_endpoint p))) = p" for a p
    by (simp add: listenerKeys_def listener_socket_def sample_endpoint_def)
  then have "inj_on port_digest {listenerKeys ''alpha'' (sample_endpoint 443), listenerKeys ''beta'' (sample_endpoint 8443),
      listenerKeys ''gamma'' (sample_endpoint 8444), listenerKeys ''delta'' (sample_endpoint 8445)}"
    by (simp add: port_digest_def inj_on_def)
  from inj_on_subset [OF this sub] show ?thesis by (simp only: sample_reconciled)
qed

lemma sample_compiles:
  "\<exists>res. Compile sample_env port_digest port_digest (Some sample_resolve) sample_state = Some (Inr res)"
  by (rule Compile_progress [OF sample_validState sample_layout sample_rule_sets sample_resolvable])

section \<open>Termination and success\<close>

text \<open>C22: \<open>Compile\<close> returns on every input, also where the recursion of \<open>topologyDepths\<close> would
  run forever on a cyclic graph: validation comes first, and it only lets trees through.\<close>

theorem compile_terminates: "Compile env digest tx resolver st \<noteq> None"
  by (rule Compile_returns)

text \<open>C23: \<open>Compile\<close> succeeds on a state that is valid after its listener secrets are reconciled,
  whose listeners do not claim each other's sockets, whose Rules name defined custom Rule Sets and
  whose Agents have an address in the family each Link asks for: labels and credentials never
  collide on a shared listener, and no lookup of the compiler fails.\<close>

theorem compile_succeeds:
  assumes "validateState env (fst (reconcileSharedListenerSecrets st None)) = Inr ()" and "layout_ok st"
    and "\<forall>n \<in> set (st_ProxyNodes st). rule_sets_known n" and "\<forall>n \<in> set (st_ProxyNodes st). resolvable resolve n"
  shows "\<exists>res. Compile env digest tx (Some resolve) st = Some (Inr res)"
  using Compile_progress [OF assms] .

theorem compile_succeeds_witness:
  "\<exists>res. Compile sample_env port_digest port_digest (Some sample_resolve) sample_state = Some (Inr res)"
  by (rule compile_succeeds [OF sample_validState sample_layout sample_rule_sets sample_resolvable])

section \<open>Routing and admission\<close>

text \<open>C24: The rules of a compiled configuration, tried in order as sing-box does, send a connection
  that arrives at an entrance or a Link where the topology says: to the Link of the first Rule in
  Rule order that matches, or nowhere for a BLOCK branch, then to the Fallback Link, then to the
  final target of the Hop. Inbounds that share one listener do not see each other's rules.\<close>

theorem compiled_rules_route:
  assumes "Compile env digest tx resolver st = Some (Inr res)"
    and "n \<in> set (st_ProxyNodes (fst (reconcileSharedListenerSecrets st None)))" "candidate_of n c"
    and "inj_on digest (inbound_keys (st_ProxyNodes (fst (reconcileSharedListenerSecrets st None))))"
    and "cx_inbound cx = ''tp-in-'' @ digest (candidate_key c)" "cx_user cx \<in> names_of c"
  shows "\<exists>config. map_of (cr_Configs res) (hop_AgentID (ing_hop c)) = Some config
    \<and> dispatch meets cx (config_rules config) = Some (hop_verdict meets n (ing_hop c))"
proof -
  from Compile_known [OF assms(1)] obtain resolve nodes where comp: "compile_nodes digest tx resolve nodes = Inr res"
    and nodes: "map fst nodes = st_ProxyNodes (reconciled st)" and known: "\<forall>(node, ds) \<in> set nodes. known_rules node" by blast
  have "n \<in> set (map fst nodes)" using assms(2) by (simp only: nodes)
  then obtain ds where ds: "(n, ds) \<in> set nodes" by auto
  have "inj_on digest (inbound_keys (map fst nodes))" using assms(4) by (simp only: nodes)
  from compiled_verdict [OF comp known this ds assms(3)] assms(5,6) show ?thesis by blast
qed

lemma sample_link_candidate:
  "\<exists>c. link_candidate sample_node link_b = Inr c \<and> ing_hop c = sample_hop hop_b ''beta'' \<and> ing_endpoint c = sample_endpoint 8443
     \<and> names_of c = {linkUserLabel lnk_b}"
  by (simp add: link_candidate_def hop_map_def sample_node_def link_b_def sample_link_def sample_hop_def sample_names from_option_def names_of_def)

theorem compiled_rules_route_witness:
  "\<exists>res config. Compile sample_env port_digest port_digest (Some sample_resolve) sample_state = Some (Inr res)
     \<and> map_of (cr_Configs res) ''beta'' = Some config
     \<and> dispatch (\<lambda>k v. True) \<lparr>cx_inbound = ''tp-in-'' @ replicate 8443 (CHR ''p''), cx_user = linkUserLabel lnk_b\<rparr> (config_rules config)
       = Some (RouteTo (LinkOutboundTag lnk_d))"
proof -
  from sample_compiles obtain res where run: "Compile sample_env port_digest port_digest (Some sample_resolve) sample_state = Some (Inr res)" by blast
  from sample_link_candidate obtain c where c: "link_candidate sample_node link_b = Inr c" "ing_hop c = sample_hop hop_b ''beta''"
    "ing_endpoint c = sample_endpoint 8443" "names_of c = {linkUserLabel lnk_b}" by blast
  have node: "sample_node \<in> set (st_ProxyNodes (reconciled sample_state))" by (simp add: sample_reconciled sample_state_fields)
  have cand: "candidate_of sample_node c" using c(1) by (auto simp: candidate_of_def sample_node_def)
  have key: "port_digest (candidate_key c) = replicate 8443 (CHR ''p'')"
    by (simp add: candidate_key_def c port_digest_def listenerKeys_def listener_socket_def sample_endpoint_def)
  have verdict: "hop_verdict (\<lambda>k v. True) sample_node (sample_hop hop_b ''beta'') = RouteTo (LinkOutboundTag lnk_d)"
    by code_simp
  from compiled_rules_route [OF run node cand sample_keys, of "\<lparr>cx_inbound = ''tp-in-'' @ replicate 8443 (CHR ''p''), cx_user = linkUserLabel lnk_b\<rparr>"
      "\<lambda>k v. True"] run verdict show ?thesis by (simp add: c key sample_hop_def)
qed

text \<open>C25: The inbounds of an Agent's configuration admit a user name with a password exactly when an
  enabled Membership of an entrance there, or a Link that ends there, has that label and that
  credential: a disabled Membership gets no access, and a shared listener loses nobody.\<close>

theorem compiled_admission:
  assumes "Compile env digest tx resolver st = Some (Inr res)" "map_of (cr_Configs res) a = Some config"
  shows "admits config tag name secret \<longleftrightarrow>
     (\<exists>n \<in> set (st_ProxyNodes st). entrance_admits digest a tag name secret n \<or> link_admits digest a tag name secret n)"
  using Compile_users [OF assms] .

lemma sample_beta_config:
  assumes "Compile sample_env port_digest port_digest (Some sample_resolve) sample_state = Some (Inr res)"
  shows "\<exists>config. map_of (cr_Configs res) ''beta'' = Some config"
proof -
  from Compile_known [OF assms] obtain resolve nodes where comp: "compile_nodes port_digest port_digest resolve nodes = Inr res"
    and nodes: "map fst nodes = st_ProxyNodes (reconciled sample_state)" and known: "\<forall>(node, ds) \<in> set nodes. known_rules node" by blast
  have inj: "inj_on port_digest (inbound_keys (map fst nodes))" using sample_keys by (simp only: nodes)
  have "sample_node \<in> set (map fst nodes)" by (simp add: nodes sample_reconciled sample_state_fields)
  then obtain ds where ds: "(sample_node, ds) \<in> set nodes" by auto
  from sample_link_candidate obtain c where c: "link_candidate sample_node link_b = Inr c" "ing_hop c = sample_hop hop_b ''beta''" by blast
  have "candidate_of sample_node c" using c(1) by (auto simp: candidate_of_def sample_node_def)
  from compiled_verdict [OF comp known inj ds this] show ?thesis by (auto simp: c(2) sample_hop_def)
qed

theorem compiled_admission_witness:
  "\<exists>res config. Compile sample_env port_digest port_digest (Some sample_resolve) sample_state = Some (Inr res)
     \<and> map_of (cr_Configs res) ''beta'' = Some config
     \<and> admits config (''tp-in-'' @ replicate 8443 (CHR ''p'')) (linkUserLabel lnk_b) (sample_secret (CHR ''b''))
     \<and> \<not> admits config (''tp-in-'' @ replicate 8443 (CHR ''p'')) (AuthenticatedUserLabel mem_a) (sample_secret (CHR ''m''))"
proof -
  from sample_compiles obtain res where run: "Compile sample_env port_digest port_digest (Some sample_resolve) sample_state = Some (Inr res)" by blast
  from sample_beta_config [OF run] obtain config where config: "map_of (cr_Configs res) ''beta'' = Some config" by blast
  have agents: "hop_agent sample_node hop_a = ''alpha''" "hop_agent sample_node hop_b = ''beta''" "hop_agent sample_node hop_c = ''gamma''"
    "hop_agent sample_node hop_d = ''delta''" by code_simp+
  have key: "port_digest (listenerKeys ''beta'' (sample_endpoint 8443)) = replicate 8443 (CHR ''p'')"
    by (simp add: port_digest_def listenerKeys_def listener_socket_def sample_endpoint_def)
  have fields: "root_hop sample_node = hop_a" "pn_Links sample_node = [link_b, link_c, link_d]" by (simp_all add: sample_node_def)
  have links: "lnk_ChildHopID link_b = hop_b" "lnk_Endpoint link_b = sample_endpoint 8443" "lnk_ID link_b = lnk_b"
    "cred_Secret (lnk_Credential link_b) = sample_secret (CHR ''b'')" "lnk_ChildHopID link_c = hop_c" "lnk_ChildHopID link_d = hop_d"
    by (simp_all add: link_b_def link_c_def link_d_def sample_link_def)
  have labels: "AuthenticatedUserLabel mem_a \<noteq> linkUserLabel lnk_b"
    by (simp add: AuthenticatedUserLabel_def linkUserLabel_def mem_a_def lnk_b_def)
  have "admits config (''tp-in-'' @ replicate 8443 (CHR ''p'')) (linkUserLabel lnk_b) (sample_secret (CHR ''b''))"
    unfolding compiled_admission [OF run config] by (simp add: sample_state_fields link_admits_def fields links agents key)
  moreover have "\<not> admits config (''tp-in-'' @ replicate 8443 (CHR ''p'')) (AuthenticatedUserLabel mem_a) (sample_secret (CHR ''m''))"
    unfolding compiled_admission [OF run config]
    by (simp add: sample_state_fields link_admits_def entrance_admits_def fields links agents labels)
  ultimately show ?thesis using run config by blast
qed

section \<open>Depths and metadata actions\<close>

text \<open>The depth \<open>Compile\<close> reports for an Agent, by which deployments are ordered, is the greatest
  distance from the entrance over all of its Hops in all Proxy Nodes, and 0 when it has none.\<close>

theorem compiled_agent_depth:
  assumes "Compile env digest tx resolver st = Some (Inr res)"
  shows "(case cr_AgentDepth res a of None \<Rightarrow> 0 | Some k \<Rightarrow> k)
    = Max (insert 0 {root_distance n (hop_ID h) | n h. n \<in> set (st_ProxyNodes st) \<and> h \<in> set (pn_Hops n) \<and> hop_AgentID h = a})"
  using Compile_depths [OF assms, of a] by (simp only: depth_at_def agent_distances_def)

theorem compiled_agent_depth_witness:
  "\<exists>res. Compile sample_env port_digest port_digest (Some sample_resolve) sample_state = Some (Inr res)
     \<and> (case cr_AgentDepth res ''delta'' of None \<Rightarrow> 0 | Some k \<Rightarrow> k) = (2 :: nat)"
proof -
  from sample_compiles obtain res where run: "Compile sample_env port_digest port_digest (Some sample_resolve) sample_state = Some (Inr res)" by blast
  have tree: "routing_tree sample_node" using sample_topology_ok by (simp add: topology_ok_def)
  have "(lnk_ParentHopID link_b, lnk_ChildHopID link_b) \<in> edges (pn_Links sample_node)"
    "(lnk_ParentHopID link_d, lnk_ChildHopID link_d) \<in> edges (pn_Links sample_node)"
    by (auto simp: edges_def sample_node_def)
  then have "(hop_a, hop_b) \<in> edges (pn_Links sample_node)" "(hop_b, hop_d) \<in> edges (pn_Links sample_node)"
    by (simp_all add: link_b_def link_d_def sample_link_def)
  moreover have "root_distance sample_node hop_a = 0" using root_distance_root [of sample_node] by (simp add: sample_node_def)
  ultimately have dist: "root_distance sample_node hop_d = 2" using root_distance_step [OF tree] by force
  have "{root_distance n (hop_ID h) | n h. n \<in> set (st_ProxyNodes sample_state) \<and> h \<in> set (pn_Hops n) \<and> hop_AgentID h = ''delta''} = {2}"
  proof -
    have "h \<in> set (pn_Hops sample_node) \<and> hop_AgentID h = ''delta'' \<longleftrightarrow> h = sample_hop hop_d ''delta''" for h
      by (auto simp: sample_node_def sample_hop_def)
    then have "{root_distance n (hop_ID h) | n h. n \<in> set (st_ProxyNodes sample_state) \<and> h \<in> set (pn_Hops n) \<and> hop_AgentID h = ''delta''}
        = {root_distance sample_node (hop_ID (sample_hop hop_d ''delta''))}" by (auto simp: sample_state_fields)
    then show ?thesis using dist by (simp add: sample_hop_def)
  qed
  with compiled_agent_depth [OF run, of "''delta''"] run show ?thesis by simp
qed

text \<open>\<open>insertRequiredRouteActions\<close> keeps the rules and their order, adds one sniff action when some
  rule needs sniffed metadata and one resolve action when some rule needs an address, and puts each
  in front of the first rule that needs it.\<close>

theorem required_route_actions:
  assumes "sniff_action \<notin> set fs" "resolve_action \<notin> set fs"
  shows "filter (\<lambda>f. f \<noteq> sniff_action \<and> f \<noteq> resolve_action) (insertRequiredRouteActions fs) = fs
    \<and> count_list (insertRequiredRouteActions fs) sniff_action = (if list_ex needs_sniff fs then 1 else 0)
    \<and> count_list (insertRequiredRouteActions fs) resolve_action = (if list_ex needs_resolve fs then 1 else 0)
    \<and> (\<forall>xs f ys. insertRequiredRouteActions fs = xs @ f # ys \<longrightarrow> f \<noteq> sniff_action \<longrightarrow> f \<noteq> resolve_action \<longrightarrow>
          (needs_sniff f \<longrightarrow> sniff_action \<in> set xs) \<and> (needs_resolve f \<longrightarrow> resolve_action \<in> set xs))"
  unfolding insertRequiredRouteActions_def
proof (intro conjI allI impI)
  fix xs f ys
  assume "insert_actions False False fs = xs @ f # ys" "f \<noteq> sniff_action" "f \<noteq> resolve_action"
  note split = insert_actions_before [OF this assms]
  show "needs_sniff f \<Longrightarrow> sniff_action \<in> set xs" "needs_resolve f \<Longrightarrow> resolve_action \<in> set xs" using split by blast+
qed (use insert_actions_rules [OF assms] insert_actions_count [OF assms] in simp_all)

theorem required_route_actions_witness:
  "count_list (insertRequiredRouteActions [[(''domain'', jstrs [''example.com'']), (''action'', JStr ''reject'')], [(''action'', JStr ''reject'')]])
     sniff_action = 1"
proof -
  let ?f = "[(''domain'', jstrs [''example.com'']), (''action'', JStr ''reject'')]" and ?g = "[(''action'', JStr ''reject'')]"
  have "sniff_action \<notin> set [?f, ?g]" "resolve_action \<notin> set [?f, ?g]" by (simp_all add: sniff_action_def resolve_action_def)
  note claim = required_route_actions [OF this]
  have "list_ex needs_sniff [?f, ?g]" by (simp add: needs_sniff_def has_field_def)
  with claim show ?thesis by simp
qed

section \<open>What stops the compiler\<close>

text \<open>C31: \<open>DeleteRuleSet\<close> looks for references in the Rules of Links only. Once it removes a custom Rule
  Set that a BLOCK branch below the entrance still names, no state with that Proxy Node compiles.\<close>

theorem deleted_rule_set_blocks_compile:
  assumes "delete_rule_set tag node = Inr (node', u)"
    and "b \<in> set (pn_BlockBranches node)" "rul_Match (blk_Rule b) = MatchRuleSet" "tag \<in> set (rul_Values (blk_Rule b))"
    and "l \<in> set (pn_Links node)" "lnk_ChildHopID l = blk_ParentHopID b"
    and "node' \<in> set (st_ProxyNodes st)"
  shows "\<not> (\<exists>res. Compile env digest tx resolver st = Some (Inr res))"
proof
  assume "\<exists>res. Compile env digest tx resolver st = Some (Inr res)"
  then obtain res where run: "Compile env digest tx resolver st = Some (Inr res)" ..
  from assms(1) have node': "node' = node\<lparr>pn_RuleSets := delete_func (\<lambda>r. rs_Tag r = tag) (pn_RuleSets node)\<rparr>"
    by (auto simp: delete_rule_set_def Let_def split: if_splits)
  have "tag \<in> rs_Tag ` set (pn_RuleSets node')"
    by (rule Compile_block_defined [OF run assms(7), of b l]) (use assms in \<open>simp_all add: node'\<close>)
  then show False by (auto simp: node' delete_func_def)
qed

definition ads_set :: custom_rule_set where
  "ads_set = \<lparr>rs_Tag = ''ads'', rs_URL = ''https://example.com/ads.srs'', rs_Format = ''binary'', rs_UpdateInterval = ''1d''\<rparr>"

definition ads_block :: block_branch where
  "ads_block = sample_block\<lparr>blk_ParentHopID := hop_b,
     blk_Rule := (sample_rule rul_x 1 ''ads'')\<lparr>rul_Match := MatchRuleSet\<rparr>\<rparr>"

definition ads_node :: proxy_node where
  "ads_node = sample_node\<lparr>pn_BlockBranches := [ads_block], pn_RuleSets := [ads_set]\<rparr>"

theorem deleted_rule_set_blocks_compile_witness:
  "delete_rule_set ''ads'' ads_node = Inr (ads_node\<lparr>pn_RuleSets := []\<rparr>, ())
     \<and> \<not> (\<exists>res. Compile sample_env port_digest port_digest (Some sample_resolve)
            (sample_state\<lparr>st_ProxyNodes := [ads_node\<lparr>pn_RuleSets := []\<rparr>]\<rparr>) = Some (Inr res))"
proof -
  have deleted: "delete_rule_set ''ads'' ads_node = Inr (ads_node\<lparr>pn_RuleSets := []\<rparr>, ())"
    by (simp add: delete_rule_set_def ads_node_def ads_set_def delete_func_def sample_node_def link_b_def link_c_def link_d_def
        sample_link_def sample_rule_def)
  show ?thesis
    using deleted deleted_rule_set_blocks_compile [OF deleted, of ads_block link_b
        "sample_state\<lparr>st_ProxyNodes := [ads_node\<lparr>pn_RuleSets := []\<rparr>]\<rparr>"]
    by (simp add: ads_node_def ads_block_def sample_rule_def sample_node_def link_b_def sample_link_def)
qed

section \<open>The user plane\<close>

text \<open>\<open>CompileAppliedUsers\<close>, which pushes users between deployments, does not see the draft: two
  states with the same applied topology, End Users and revisions, whose Proxy Nodes have the same
  identifiers and Memberships, compile alike, whatever their Hops, Links, Rules and policies.\<close>

theorem applied_users_ignore_draft:
  assumes "st_AppliedProxyNodes st = st_AppliedProxyNodes st'" "st_Users st = st_Users st'"
    and "st_AppliedRevision st = st_AppliedRevision st'" "st_UserRevision st = st_UserRevision st'"
    and "map (\<lambda>n. (pn_ID n, pn_Memberships n)) (st_ProxyNodes st) = map (\<lambda>n. (pn_ID n, pn_Memberships n)) (st_ProxyNodes st')"
  shows "CompileAppliedUsers env digest tx resolver st = CompileAppliedUsers env digest tx resolver st'"
proof -
  have "live_members st = live_members st'"
    by (rule ext) (simp add: live_members_def fill_map_cong [OF assms(5)])
  then have "applied_with_users st = applied_with_users st'" by (simp add: applied_with_users_def assms(1))
  then show ?thesis by (simp add: CompileAppliedUsers_def applied_users_state_def assms(2-4))
qed

theorem applied_users_ignore_draft_witness:
  "CompileAppliedUsers sample_env port_digest port_digest (Some sample_resolve) sample_state
     = CompileAppliedUsers sample_env port_digest port_digest (Some sample_resolve)
         (sample_state\<lparr>st_Revision := 9, st_ProxyNodes := [sample_node\<lparr>pn_Links := [], pn_BlockBranches := []\<rparr>]\<rparr>)"
  by (rule applied_users_ignore_draft) (simp_all add: sample_state_fields)

end
