(* ===== verification/Deployment.thy ===== *)
theory Deployment
  imports Calendar Text
begin

text \<open>
  The deployment records of \<open>internal/deployment\<close>: one record per Agent for the configuration that
  was last sent to it, with the configuration it last confirmed kept beside it. This theory holds
  \<open>deployment.go\<close>, the data, its validation and the store in memory; \<open>DeploymentDisk\<close> holds
  \<open>disk_store.go\<close>.

  A digest, \<open>[32]byte\<close>, is a 256-bit word; its zero value is 0. The cryptographic and encoding
  functions of Go's library are the fields of \<open>deploy_env\<close>: SHA-256, \<open>json.Valid\<close>, and the JSON
  document of a stored record with the strict decoder that reads it back.
\<close>

section \<open>Data\<close>

type_synonym digest = "256 word"

datatype status =
    StatusQueued | StatusValidating | StatusValidated | StatusValidationFailed
  | StatusDeploying | StatusApplied | StatusRuntimeFailed | StatusActivationFailed
  | StatusInternalError | StatusDeliveryFailed | OtherStatus string

record deployment =
  dep_ID :: string
  dep_AgentID :: string
  dep_RevisionID :: string
  dep_ConfigJSON :: string
  dep_ConfigSHA256 :: digest
  dep_RenderedSHA256 :: digest
  dep_Status :: status
  dep_Diagnostic :: string
  dep_CreatedAt :: time
  dep_UpdatedAt :: time
  dep_LastAppliedConfigJSON :: string
  dep_LastAppliedRenderedSHA256 :: digest
  dep_LastAppliedRevisionID :: string
  dep_LastAppliedAt :: time

text \<open>\<open>Record{}\<close>, which a lookup of an absent key of \<open>map[string]Record\<close> yields.\<close>

definition zero_deployment :: deployment where
  "zero_deployment =
     \<lparr>dep_ID = [], dep_AgentID = [], dep_RevisionID = [], dep_ConfigJSON = [], dep_ConfigSHA256 = 0,
      dep_RenderedSHA256 = 0, dep_Status = OtherStatus [], dep_Diagnostic = [], dep_CreatedAt = 0,
      dep_UpdatedAt = 0, dep_LastAppliedConfigJSON = [], dep_LastAppliedRenderedSHA256 = 0,
      dep_LastAppliedRevisionID = [], dep_LastAppliedAt = 0\<rparr>"

record disk_record =
  drc_Version :: int
  drc_ID :: string
  drc_AgentID :: string
  drc_RevisionID :: string
  drc_ConfigJSON :: string
  drc_ConfigSHA256 :: string
  drc_RenderedSHA256 :: string
  drc_Status :: status
  drc_Diagnostic :: string
  drc_CreatedAt :: time
  drc_UpdatedAt :: time
  drc_LastAppliedConfigJSON :: string
  drc_LastAppliedRenderedSHA256 :: string
  drc_LastAppliedRevisionID :: string
  drc_LastAppliedAt :: time

record deploy_env =
  denv_sha256 :: "string \<Rightarrow> digest"
  denv_json_valid :: "string \<Rightarrow> bool"
  denv_marshal :: "disk_record \<Rightarrow> string option"
  denv_decode :: "string \<Rightarrow> disk_record option"

definition MaxConfigBytes :: nat where
  "MaxConfigBytes = 4 * 2 ^ 20"

definition ErrAlreadyExists :: error where
  "ErrAlreadyExists = ErrOther ''deployment already exists''"

definition ErrInvalidTransition :: error where
  "ErrInvalidTransition = ErrOther ''invalid deployment state transition''"

definition ErrInvalidConfig :: error where
  "ErrInvalidConfig = ErrOther ''deployment configuration must be valid JSON''"

definition ErrConfigTooLarge :: error where
  "ErrConfigTooLarge = ErrOther ''deployment configuration exceeds the size limit''"

definition ErrInvalidRecord :: error where
  "ErrInvalidRecord = ErrOther ''invalid deployment record''"

definition ErrUnsafeStorage :: error where
  "ErrUnsafeStorage = ErrOther ''unsafe deployment storage''"

definition ErrInvalidStoredData :: error where
  "ErrInvalidStoredData = ErrOther ''invalid stored deployment data''"

definition ErrDeploymentInProgress :: error where
  "ErrDeploymentInProgress = ErrOther ''deployment already in progress''"

lemmas deployment_errors = ErrAlreadyExists_def ErrInvalidTransition_def ErrInvalidConfig_def
  ErrConfigTooLarge_def ErrInvalidRecord_def ErrUnsafeStorage_def ErrInvalidStoredData_def
  ErrDeploymentInProgress_def

section \<open>Revisions\<close>

datatype revision_plane =
  RevisionPlaneGeneric | RevisionPlaneProxyNodeTopology | RevisionPlaneProxyNodeUsers

definition ProxyNodeTopologyRevisionPrefix :: string where
  "ProxyNodeTopologyRevisionPrefix = ''proxy-node-topology/''"

definition ProxyNodeUsersRevisionPrefix :: string where
  "ProxyNodeUsersRevisionPrefix = ''proxy-node-users/''"

definition ClassifyRevision :: "string \<Rightarrow> revision_plane" where
  "ClassifyRevision revision =
     (if has_prefix ProxyNodeTopologyRevisionPrefix revision then RevisionPlaneProxyNodeTopology
      else if has_prefix ProxyNodeUsersRevisionPrefix revision then RevisionPlaneProxyNodeUsers
      else RevisionPlaneGeneric)"

definition RevisionWithSamePlane :: "string \<Rightarrow> string \<Rightarrow> string" where
  "RevisionWithSamePlane previous opaque =
     (case ClassifyRevision previous of
        RevisionPlaneProxyNodeTopology \<Rightarrow> ProxyNodeTopologyRevisionPrefix @ opaque
      | RevisionPlaneProxyNodeUsers \<Rightarrow> ProxyNodeUsersRevisionPrefix @ opaque
      | RevisionPlaneGeneric \<Rightarrow> opaque)"

section \<open>Records\<close>

definition RenderedDigest :: "deployment \<Rightarrow> digest" where
  "RenderedDigest r =
     (if dep_RenderedSHA256 r = 0 then dep_ConfigSHA256 r else dep_RenderedSHA256 r)"

definition is_confirmed :: "status \<Rightarrow> bool" where
  "is_confirmed st \<longleftrightarrow> st = StatusApplied \<or> st = StatusRuntimeFailed"

definition AppliedConfiguration :: "deploy_env \<Rightarrow> deployment \<Rightarrow> (string \<times> digest) option" where
  "AppliedConfiguration env r =
     (if is_confirmed (dep_Status r) then Some (dep_ConfigJSON r, RenderedDigest r)
      else if dep_LastAppliedConfigJSON r = [] then None
      else Some (dep_LastAppliedConfigJSON r,
             if dep_LastAppliedRenderedSHA256 r = 0
             then denv_sha256 env (dep_LastAppliedConfigJSON r)
             else dep_LastAppliedRenderedSHA256 r))"

definition AppliedRevisionID :: "deployment \<Rightarrow> string" where
  "AppliedRevisionID r =
     (if is_confirmed (dep_Status r) then dep_RevisionID r else dep_LastAppliedRevisionID r)"

definition validateConfig :: "deploy_env \<Rightarrow> string \<Rightarrow> unit res" where
  "validateConfig env config =
     bindE (require (length config \<le> MaxConfigBytes) ErrConfigTooLarge) (\<lambda>_.
     require (config \<noteq> [] \<and> denv_json_valid env config) ErrInvalidConfig)"

definition new_deployment ::
  "deploy_env \<Rightarrow> string \<Rightarrow> string \<Rightarrow> string \<Rightarrow> string \<Rightarrow> time \<Rightarrow> deployment res" where
  "new_deployment env i agent revision config now =
     (let i = trim_space i; agent = trim_space agent; revision = trim_space revision in
      bindE (require (i \<noteq> [] \<and> agent \<noteq> [] \<and> revision \<noteq> [])
               (ErrOther ''deployment, agent, and revision IDs are required'')) (\<lambda>_.
      bindE (require (now \<noteq> 0) (ErrOther ''creation time is required'')) (\<lambda>_.
      bindE (validateConfig env config) (\<lambda>_.
      ok (zero_deployment
            \<lparr>dep_ID := i, dep_AgentID := agent, dep_RevisionID := revision,
             dep_ConfigJSON := config, dep_ConfigSHA256 := denv_sha256 env config,
             dep_Status := StatusQueued, dep_CreatedAt := now, dep_UpdatedAt := now\<rparr>)))))"

fun canTransition :: "status \<Rightarrow> status \<Rightarrow> bool" where
  "canTransition StatusQueued st \<longleftrightarrow>
     st = StatusValidating \<or> st = StatusDeploying \<or> st = StatusDeliveryFailed"
| "canTransition StatusValidating st \<longleftrightarrow>
     st = StatusValidated \<or> st = StatusValidationFailed \<or> st = StatusInternalError \<or>
     st = StatusDeliveryFailed"
| "canTransition StatusValidated st \<longleftrightarrow> st = StatusDeploying \<or> st = StatusDeliveryFailed"
| "canTransition StatusDeploying st \<longleftrightarrow>
     st = StatusApplied \<or> st = StatusValidationFailed \<or> st = StatusActivationFailed \<or>
     st = StatusInternalError \<or> st = StatusDeliveryFailed"
| "canTransition StatusApplied st \<longleftrightarrow> st = StatusRuntimeFailed"
| "canTransition StatusRuntimeFailed st \<longleftrightarrow> st = StatusApplied"
| "canTransition _ st \<longleftrightarrow> False"

fun knownStatus :: "status \<Rightarrow> bool" where
  "knownStatus (OtherStatus _) = False"
| "knownStatus _ = True"

fun deploymentInProgress :: "status \<Rightarrow> bool" where
  "deploymentInProgress StatusQueued = True"
| "deploymentInProgress StatusValidating = True"
| "deploymentInProgress StatusDeploying = True"
| "deploymentInProgress _ = False"

definition validate_last_applied :: "deploy_env \<Rightarrow> deployment \<Rightarrow> unit res" where
  "validate_last_applied env r =
     (if dep_LastAppliedConfigJSON r \<noteq> [] then
        require (is_ok (validateConfig env (dep_LastAppliedConfigJSON r)) \<and>
                 trim_space (dep_LastAppliedRevisionID r) \<noteq> [] \<and> dep_LastAppliedAt r \<noteq> 0)
          ErrInvalidRecord
      else
        require (dep_LastAppliedRevisionID r = [] \<and> dep_LastAppliedAt r = 0 \<and>
                 dep_LastAppliedRenderedSHA256 r = 0) ErrInvalidRecord)"

definition validateRecord :: "deploy_env \<Rightarrow> deployment \<Rightarrow> unit res" where
  "validateRecord env r =
     bindE (require (dep_ID r \<noteq> [] \<and> dep_ID r = trim_space (dep_ID r) \<and>
                     dep_AgentID r \<noteq> [] \<and> dep_AgentID r = trim_space (dep_AgentID r) \<and>
                     dep_RevisionID r \<noteq> [] \<and> dep_RevisionID r = trim_space (dep_RevisionID r) \<and>
                     dep_CreatedAt r \<noteq> 0 \<and> dep_UpdatedAt r \<noteq> 0 \<and>
                     \<not> dep_UpdatedAt r < dep_CreatedAt r \<and> knownStatus (dep_Status r))
              ErrInvalidRecord) (\<lambda>_.
     bindE (validateConfig env (dep_ConfigJSON r)) (\<lambda>_.
     bindE (require (denv_sha256 env (dep_ConfigJSON r) = dep_ConfigSHA256 r) ErrInvalidRecord) (\<lambda>_.
     validate_last_applied env r)))"

definition inheritLastApplied :: "deployment \<Rightarrow> deployment \<Rightarrow> deployment" where
  "inheritLastApplied candidate previous =
     (if is_confirmed (dep_Status previous) then
        candidate
          \<lparr>dep_LastAppliedConfigJSON := dep_ConfigJSON previous,
           dep_LastAppliedRenderedSHA256 := RenderedDigest previous,
           dep_LastAppliedRevisionID := dep_RevisionID previous,
           dep_LastAppliedAt := dep_UpdatedAt previous\<rparr>
      else
        candidate
          \<lparr>dep_LastAppliedConfigJSON := dep_LastAppliedConfigJSON previous,
           dep_LastAppliedRenderedSHA256 := dep_LastAppliedRenderedSHA256 previous,
           dep_LastAppliedRevisionID := dep_LastAppliedRevisionID previous,
           dep_LastAppliedAt := dep_LastAppliedAt previous\<rparr>)"

definition setLastApplied :: "deployment \<Rightarrow> deployment" where
  "setLastApplied r =
     r\<lparr>dep_LastAppliedConfigJSON := dep_ConfigJSON r,
       dep_LastAppliedRenderedSHA256 := RenderedDigest r,
       dep_LastAppliedRevisionID := dep_RevisionID r,
       dep_LastAppliedAt := dep_UpdatedAt r\<rparr>"

text \<open>The part of both \<open>Transition\<close> methods that rewrites the record.\<close>

definition moved :: "status \<Rightarrow> string \<Rightarrow> time \<Rightarrow> deployment \<Rightarrow> deployment" where
  "moved target diagnostic now r =
     (let r = r\<lparr>dep_Status := target, dep_Diagnostic := diagnostic, dep_UpdatedAt := now\<rparr>
      in if target = StatusApplied then setLastApplied r else r)"

section \<open>The store in memory\<close>

type_synonym records = "string \<rightharpoonup> deployment"

definition record_at :: "records \<Rightarrow> string \<Rightarrow> deployment" where
  "record_at m i = (case m i of None \<Rightarrow> zero_deployment | Some r \<Rightarrow> r)"

record memory_store =
  mms_records :: records
  mms_latest :: "string \<rightharpoonup> string"

definition NewMemoryStore :: memory_store where
  "NewMemoryStore = \<lparr>mms_records = Map.empty, mms_latest = Map.empty\<rparr>"

definition memory_Create :: "deploy_env \<Rightarrow> deployment \<Rightarrow> memory_store \<Rightarrow> unit res \<times> memory_store" where
  "memory_Create env r s =
     (case validateRecord env r of
        Inl e \<Rightarrow> (Inl e, s)
      | Inr _ \<Rightarrow>
          if mms_records s (dep_ID r) \<noteq> None then (Inl ErrAlreadyExists, s)
          else
            case mms_latest s (dep_AgentID r) of
              Some previous \<Rightarrow>
                let p = record_at (mms_records s) previous in
                if deploymentInProgress (dep_Status p) then (Inl ErrDeploymentInProgress, s)
                else
                  (Inr (), s\<lparr>mms_records := ((mms_records s)(previous := None))
                                              (dep_ID r \<mapsto> inheritLastApplied r p),
                             mms_latest := (mms_latest s)(dep_AgentID r \<mapsto> dep_ID r)\<rparr>)
            | None \<Rightarrow>
                (Inr (), s\<lparr>mms_records := (mms_records s)(dep_ID r \<mapsto> r),
                           mms_latest := (mms_latest s)(dep_AgentID r \<mapsto> dep_ID r)\<rparr>))"

definition memory_Get :: "memory_store \<Rightarrow> string \<Rightarrow> deployment res" where
  "memory_Get s i = from_option ErrNotFound (mms_records s i)"

definition memory_LatestForAgent :: "memory_store \<Rightarrow> string \<Rightarrow> deployment res" where
  "memory_LatestForAgent s agent =
     bindE (from_option ErrNotFound (mms_latest s agent)) (\<lambda>i. ok (record_at (mms_records s) i))"

definition sorted_by_agent :: "records \<Rightarrow> deployment list" where
  "sorted_by_agent m = sort_key dep_AgentID (map (record_at m) (sorted_list_of_set (dom m)))"

definition memory_List :: "memory_store \<Rightarrow> deployment list" where
  "memory_List s = sorted_by_agent (mms_records s)"

definition memory_SetRenderedDigest ::
  "string \<Rightarrow> digest \<Rightarrow> memory_store \<Rightarrow> deployment res \<times> memory_store" where
  "memory_SetRenderedDigest i digest s =
     (case mms_records s i of
        None \<Rightarrow> (Inl ErrNotFound, s)
      | Some r \<Rightarrow>
          if dep_Status r \<noteq> StatusDeploying \<or> digest = 0 then (Inl ErrInvalidRecord, s)
          else
            let r = r\<lparr>dep_RenderedSHA256 := digest\<rparr>
            in (Inr r, s\<lparr>mms_records := (mms_records s)(i \<mapsto> r)\<rparr>))"

definition memory_Transition ::
  "string \<Rightarrow> status \<Rightarrow> string \<Rightarrow> time \<Rightarrow> memory_store \<Rightarrow> deployment res \<times> memory_store" where
  "memory_Transition i target diagnostic now s =
     (case mms_records s i of
        None \<Rightarrow> (Inl ErrNotFound, s)
      | Some r \<Rightarrow>
          if \<not> canTransition (dep_Status r) target then (Inl ErrInvalidTransition, s)
          else if now = 0 then (Inl (ErrOther ''transition time is required''), s)
          else
            let r = moved target diagnostic now r
            in (Inr r, s\<lparr>mms_records := (mms_records s)(i \<mapsto> r)\<rparr>))"

definition memory_RemoveAgent :: "string \<Rightarrow> memory_store \<Rightarrow> unit res \<times> memory_store" where
  "memory_RemoveAgent agent s =
     (case mms_latest s agent of
        None \<Rightarrow> (Inl ErrNotFound, s)
      | Some i \<Rightarrow>
          (Inr (), s\<lparr>mms_latest := (mms_latest s)(agent := None),
                     mms_records := (mms_records s)(i := None)\<rparr>))"

end
