(* ===== verification/DeploymentDisk.thy ===== *)
theory DeploymentDisk
  imports Deployment
begin

text \<open>
  The durable store of deployments, \<open>disk_store.go\<close>: one file per Agent, replaced atomically, beside
  the same two maps as the store in memory.

  A directory is an association list from names to entries; \<open>os.ReadDir\<close> returns it sorted by name.
  Every system call whose outcome the code tests has its outcome in \<open>disk_faults\<close>, and a call that
  writes yields the list of directories the disk holds one after the other, so that an interruption
  at any point can be spoken of. \<open>runtime.GOOS\<close> is not windows.
\<close>

section \<open>Hexadecimal digests\<close>

definition hex_digit :: "nat \<Rightarrow> char" where
  "hex_digit n = (if n < 10 then char_of (48 + n) else char_of (87 + n))"

definition hex_value :: "char \<Rightarrow> nat option" where
  "hex_value c =
     (if is_digit c then Some (of_char c - 48)
      else if CHR ''a'' \<le> c \<and> c \<le> CHR ''f'' then Some (of_char c - 87)
      else if CHR ''A'' \<le> c \<and> c \<le> CHR ''F'' then Some (of_char c - 55)
      else None)"

fun fixed_hex :: "nat \<Rightarrow> nat \<Rightarrow> string" where
  "fixed_hex 0 n = []"
| "fixed_hex (Suc k) n = fixed_hex k (n div 16) @ [hex_digit (n mod 16)]"

fun hex_number :: "nat \<Rightarrow> string \<Rightarrow> nat option" where
  "hex_number acc [] = Some acc"
| "hex_number acc (c # s) =
     (case hex_value c of None \<Rightarrow> None | Some v \<Rightarrow> hex_number (16 * acc + v) s)"

text \<open>\<open>hex.EncodeToString\<close> of an array of 32 bytes, and \<open>hex.DecodeString\<close> followed by the check
  that 32 bytes came out.\<close>

definition encode_digest :: "digest \<Rightarrow> string" where
  "encode_digest d = fixed_hex 64 (unat d)"

definition decode_digest :: "string \<Rightarrow> digest option" where
  "decode_digest s = (if length s = 64 then map_option of_nat (hex_number 0 s) else None)"

section \<open>The directory\<close>

record entry =
  ent_regular :: bool
  ent_perm :: nat
  ent_bytes :: string

type_synonym directory = "(string \<times> entry) list"

definition private_mode :: nat where
  "private_mode = 6 * 64"

definition private_file :: "string \<Rightarrow> entry" where
  "private_file bytes = \<lparr>ent_regular = True, ent_perm = private_mode, ent_bytes = bytes\<rparr>"

definition put_entry :: "string \<Rightarrow> entry \<Rightarrow> directory \<Rightarrow> directory" where
  "put_entry name e d = (name, e) # filter (\<lambda>(n, _). n \<noteq> name) d"

definition remove_entry :: "string \<Rightarrow> directory \<Rightarrow> directory" where
  "remove_entry name d = filter (\<lambda>(n, _). n \<noteq> name) d"

text \<open>\<open>os.Rename\<close> onto an existing name replaces it in one step.\<close>

definition rename_entry :: "string \<Rightarrow> string \<Rightarrow> directory \<Rightarrow> directory" where
  "rename_entry source destination d =
     (case map_of d source of
        None \<Rightarrow> d
      | Some e \<Rightarrow> put_entry destination e (remove_entry source d))"

definition append_bytes :: "string \<Rightarrow> string \<Rightarrow> directory \<Rightarrow> directory" where
  "append_bytes name bytes d =
     (case map_of d name of
        None \<Rightarrow> d
      | Some e \<Rightarrow> put_entry name (e\<lparr>ent_bytes := ent_bytes e @ bytes\<rparr>) d)"

text \<open>
  The outcomes of one operation: \<open>dfl_random\<close> are the numbers \<open>os.CreateTemp\<close> tries, \<open>dfl_writes\<close>
  the results of successive \<open>Write\<close> calls (a call past the end of the list writes everything).
\<close>

record disk_faults =
  dfl_inspect :: "unit res"
  dfl_random :: "nat list"
  dfl_create :: "unit res"
  dfl_chmod :: "unit res"
  dfl_writes :: "nat res list"
  dfl_sync :: "unit res"
  dfl_close :: "unit res"
  dfl_reinspect :: "unit res"
  dfl_replace :: "unit res"
  dfl_remove :: "unit res"
  dfl_cleanup :: "unit res"
  dfl_dirsync :: "unit res"

definition working_disk :: disk_faults where
  "working_disk =
     \<lparr>dfl_inspect = ok (), dfl_random = [0], dfl_create = ok (), dfl_chmod = ok (), dfl_writes = [],
      dfl_sync = ok (), dfl_close = ok (), dfl_reinspect = ok (), dfl_replace = ok (),
      dfl_remove = ok (), dfl_cleanup = ok (), dfl_dirsync = ok ()\<rparr>"

section \<open>File names\<close>

definition deploymentFilenameSuffix :: string where
  "deploymentFilenameSuffix = ''.json''"

definition has_suffix :: "string \<Rightarrow> string \<Rightarrow> bool" where
  "has_suffix p s \<longleftrightarrow> has_prefix (rev p) (rev s)"

definition deploymentFilename :: "deploy_env \<Rightarrow> string \<Rightarrow> string" where
  "deploymentFilename env agent =
     encode_digest (denv_sha256 env agent) @ deploymentFilenameSuffix"

definition validDeploymentFilename :: "string \<Rightarrow> bool" where
  "validDeploymentFilename name \<longleftrightarrow>
     length name = 64 + length deploymentFilenameSuffix \<and>
     has_suffix deploymentFilenameSuffix name \<and>
     list_all (\<lambda>c. \<not> ((c < CHR ''0'' \<or> CHR ''9'' < c) \<and> (c < CHR ''a'' \<or> CHR ''f'' < c)))
       (take 64 name)"

definition isDeploymentTemporaryFile :: "string \<Rightarrow> bool" where
  "isDeploymentTemporaryFile name \<longleftrightarrow>
     has_prefix ''.deployment-'' name \<and> has_suffix ''.tmp'' name"

text \<open>\<open>os.CreateTemp\<close> with the pattern \<open>.deployment-*.tmp\<close>: the first name that is free.\<close>

definition temporary_name :: "nat \<Rightarrow> string" where
  "temporary_name n = ''.deployment-'' @ show_nat n @ ''.tmp''"

definition free_temporary :: "nat list \<Rightarrow> directory \<Rightarrow> string option" where
  "free_temporary ns d = find (\<lambda>name. map_of d name = None) (map temporary_name ns)"

section \<open>Stored documents\<close>

definition diskRecordVersion :: int where
  "diskRecordVersion = 1"

definition maxPersistedDeploymentBytes :: nat where
  "maxPersistedDeploymentBytes = 2 * ((MaxConfigBytes + 2) div 3 * 4) + 256 * 2 ^ 10"

definition stored_record :: "deployment \<Rightarrow> disk_record" where
  "stored_record r =
     \<lparr>drc_Version = diskRecordVersion,
      drc_ID = dep_ID r,
      drc_AgentID = dep_AgentID r,
      drc_RevisionID = dep_RevisionID r,
      drc_ConfigJSON = dep_ConfigJSON r,
      drc_ConfigSHA256 = encode_digest (dep_ConfigSHA256 r),
      drc_RenderedSHA256 =
        (if dep_RenderedSHA256 r \<noteq> 0 then encode_digest (dep_RenderedSHA256 r) else []),
      drc_Status = dep_Status r,
      drc_Diagnostic = dep_Diagnostic r,
      drc_CreatedAt = dep_CreatedAt r,
      drc_UpdatedAt = dep_UpdatedAt r,
      drc_LastAppliedConfigJSON = dep_LastAppliedConfigJSON r,
      drc_LastAppliedRenderedSHA256 =
        (if dep_LastAppliedRenderedSHA256 r \<noteq> 0
         then encode_digest (dep_LastAppliedRenderedSHA256 r) else []),
      drc_LastAppliedRevisionID = dep_LastAppliedRevisionID r,
      drc_LastAppliedAt = dep_LastAppliedAt r\<rparr>"

definition encodeDiskRecord :: "deploy_env \<Rightarrow> deployment \<Rightarrow> string res" where
  "encodeDiskRecord env r =
     bindE (validateRecord env r) (\<lambda>_.
     bindE (from_option (ErrOther ''encode deployment record'') (denv_marshal env (stored_record r)))
       (\<lambda>encoded.
     let encoded = encoded @ [CHR 0x0A] in
     bindE (require (length encoded \<le> maxPersistedDeploymentBytes) ErrInvalidRecord) (\<lambda>_.
     ok encoded)))"

definition optional_digest :: "string \<Rightarrow> digest res" where
  "optional_digest s = (if s \<noteq> [] then from_option ErrInvalidStoredData (decode_digest s) else ok 0)"

definition decodeDiskRecord :: "deploy_env \<Rightarrow> string \<Rightarrow> deployment res" where
  "decodeDiskRecord env contents =
     bindE (from_option ErrInvalidStoredData (denv_decode env contents)) (\<lambda>d.
     bindE (require (drc_Version d = diskRecordVersion) ErrInvalidStoredData) (\<lambda>_.
     bindE (from_option ErrInvalidStoredData (decode_digest (drc_ConfigSHA256 d))) (\<lambda>config_digest.
     bindE (optional_digest (drc_RenderedSHA256 d)) (\<lambda>rendered.
     bindE (optional_digest (drc_LastAppliedRenderedSHA256 d)) (\<lambda>last_rendered.
     let r =
       \<lparr>dep_ID = drc_ID d, dep_AgentID = drc_AgentID d, dep_RevisionID = drc_RevisionID d,
        dep_ConfigJSON = drc_ConfigJSON d, dep_ConfigSHA256 = config_digest,
        dep_RenderedSHA256 = rendered, dep_Status = drc_Status d,
        dep_Diagnostic = drc_Diagnostic d, dep_CreatedAt = drc_CreatedAt d,
        dep_UpdatedAt = drc_UpdatedAt d, dep_LastAppliedConfigJSON = drc_LastAppliedConfigJSON d,
        dep_LastAppliedRenderedSHA256 = last_rendered,
        dep_LastAppliedRevisionID = drc_LastAppliedRevisionID d,
        dep_LastAppliedAt = drc_LastAppliedAt d\<rparr>
     in bindE (wrapE ErrInvalidStoredData (validateRecord env r)) (\<lambda>_. ok r))))))"

section \<open>System calls\<close>

type_synonym disk_step = "directory \<Rightarrow> unit res \<times> directory"

definition inspectDeploymentTarget :: "unit res \<Rightarrow> string \<Rightarrow> bool \<Rightarrow> directory \<Rightarrow> unit res" where
  "inspectDeploymentTarget lstat name must_exist d =
     (case map_of d name of
        None \<Rightarrow> if must_exist then Inl (ErrOther ''inspect deployment file'') else Inr ()
      | Some e \<Rightarrow>
          bindE (wrapE (ErrOther ''inspect deployment file'') lstat) (\<lambda>_.
          bindE (require (ent_regular e) ErrUnsafeStorage) (\<lambda>_.
          require (ent_perm e = private_mode) ErrUnsafeStorage)))"

definition syncDeploymentDirectory :: "unit res \<Rightarrow> unit res" where
  "syncDeploymentDirectory outcome = wrapE (ErrOther ''sync deployment storage directory'') outcome"

definition checks :: "(directory \<Rightarrow> unit res) \<Rightarrow> disk_step" where
  "checks f d = (f d, d)"

definition changes :: "unit res \<Rightarrow> (directory \<Rightarrow> directory) \<Rightarrow> disk_step" where
  "changes outcome f d = (case outcome of Inl e \<Rightarrow> (Inl e, d) | Inr _ \<Rightarrow> (Inr (), f d))"

text \<open>\<open>writeAll\<close>: successive \<open>Write\<close> calls until nothing is left.\<close>

fun writeAll :: "string \<Rightarrow> nat res list \<Rightarrow> string \<Rightarrow> disk_step list" where
  "writeAll name [] contents =
     (if contents = [] then [] else [changes (ok ()) (append_bytes name contents)])"
| "writeAll name (w # ws) contents =
     (if contents = [] then []
      else case w of
             Inl e \<Rightarrow> [changes (Inl e) (\<lambda>d. d)]
           | Inr n \<Rightarrow>
               if n = 0 then [changes (Inl (ErrOther ''short write'')) (\<lambda>d. d)]
               else changes (ok ()) (append_bytes name (take n contents)) #
                    writeAll name ws (drop n contents))"

text \<open>Runs calls up to the first that fails; yields the directories they leave behind.\<close>

fun run_steps :: "disk_step list \<Rightarrow> directory \<Rightarrow> unit res \<times> directory list" where
  "run_steps [] d = (Inr (), [d])"
| "run_steps (f # fs) d =
     (case f d of
        (Inl e, d') \<Rightarrow> (Inl e, [d, d'])
      | (Inr _, d') \<Rightarrow> (case run_steps fs d' of (r, ds) \<Rightarrow> (r, d # ds)))"

definition install_steps :: "disk_faults \<Rightarrow> string \<Rightarrow> string \<Rightarrow> string \<Rightarrow> disk_step list" where
  "install_steps flt temp name encoded =
     [changes (dfl_create flt) (put_entry temp (private_file [])),
      changes (dfl_chmod flt) (\<lambda>d. d)] @
     writeAll temp (dfl_writes flt) encoded @
     [changes (dfl_sync flt) (\<lambda>d. d),
      changes (dfl_close flt) (\<lambda>d. d),
      checks (inspectDeploymentTarget (dfl_reinspect flt) name False),
      changes (dfl_replace flt) (rename_entry temp name)]"

text \<open>
  \<open>persist\<close>: the result, and the directories from the one it finds to the one it leaves. The
  deferred function removes the temporary file unless it was installed.
\<close>

definition persist ::
  "deploy_env \<Rightarrow> disk_faults \<Rightarrow> deployment \<Rightarrow> directory \<Rightarrow> unit res \<times> directory list" where
  "persist env flt r d =
     (case encodeDiskRecord env r of
        Inl e \<Rightarrow> (Inl e, [d])
      | Inr encoded \<Rightarrow>
          let name = deploymentFilename env (dep_AgentID r) in
          case inspectDeploymentTarget (dfl_inspect flt) name False d of
            Inl e \<Rightarrow> (Inl e, [d])
          | Inr _ \<Rightarrow>
              (case free_temporary (dfl_random flt) d of
                 None \<Rightarrow> (Inl (ErrOther ''create temporary deployment file''), [d])
               | Some temp \<Rightarrow>
                   (case run_steps (install_steps flt temp name encoded) d of
                      (Inl e, ds) \<Rightarrow>
                        (Inl e, ds @ [if is_ok (dfl_cleanup flt) then remove_entry temp (last ds)
                                      else last ds])
                    | (Inr _, ds) \<Rightarrow> (syncDeploymentDirectory (dfl_dirsync flt), ds))))"

section \<open>The store\<close>

record disk_store =
  dks_files :: directory
  dks_records :: records
  dks_latest :: "string \<rightharpoonup> string"

definition saved :: "directory list \<Rightarrow> disk_store \<Rightarrow> disk_store" where
  "saved ds s = s\<lparr>dks_files := last ds\<rparr>"

definition disk_Create ::
  "deploy_env \<Rightarrow> disk_faults \<Rightarrow> deployment \<Rightarrow> disk_store \<Rightarrow> unit res \<times> disk_store" where
  "disk_Create env flt r s =
     (case validateRecord env r of
        Inl e \<Rightarrow> (Inl e, s)
      | Inr _ \<Rightarrow>
          if dks_records s (dep_ID r) \<noteq> None then (Inl ErrAlreadyExists, s)
          else
            let previous = dks_latest s (dep_AgentID r) in
            if case previous of None \<Rightarrow> False
               | Some p \<Rightarrow> deploymentInProgress (dep_Status (record_at (dks_records s) p))
            then (Inl ErrDeploymentInProgress, s)
            else
              let r = (case previous of None \<Rightarrow> r
                       | Some p \<Rightarrow> inheritLastApplied r (record_at (dks_records s) p))
              in case persist env flt r (dks_files s) of
                   (Inl e, ds) \<Rightarrow> (Inl e, saved ds s)
                 | (Inr _, ds) \<Rightarrow>
                     let m = (case previous of None \<Rightarrow> dks_records s
                              | Some p \<Rightarrow> (dks_records s)(p := None))
                     in (Inr (), (saved ds s)
                           \<lparr>dks_records := m(dep_ID r \<mapsto> r),
                            dks_latest := (dks_latest s)(dep_AgentID r \<mapsto> dep_ID r)\<rparr>))"

definition disk_Get :: "disk_store \<Rightarrow> string \<Rightarrow> deployment res" where
  "disk_Get s i = from_option ErrNotFound (dks_records s i)"

definition disk_LatestForAgent :: "disk_store \<Rightarrow> string \<Rightarrow> deployment res" where
  "disk_LatestForAgent s agent =
     bindE (from_option ErrNotFound (dks_latest s agent)) (\<lambda>i. ok (record_at (dks_records s) i))"

definition disk_List :: "disk_store \<Rightarrow> deployment list" where
  "disk_List s = sorted_by_agent (dks_records s)"

text \<open>\<open>read name\<close> is the outcome of reading the file; a map is ranged over in the order of its keys.\<close>

definition MigrationSnapshot ::
  "deploy_env \<Rightarrow> (string \<Rightarrow> unit res) \<Rightarrow> disk_store \<Rightarrow> (string \<rightharpoonup> string) res" where
  "MigrationSnapshot env read s =
     foldE (\<lambda>m agent.
         let name = deploymentFilename env agent in
         bindE (from_option (ErrOther ''read deployment migration snapshot'')
                  (map_of (dks_files s) name)) (\<lambda>e.
         bindE (read name) (\<lambda>_. ok (m(name \<mapsto> ent_bytes e)))))
       Map.empty (sorted_list_of_set (dom (dks_latest s)))"

text \<open>The common end of \<open>SetRenderedDigest\<close> and \<open>Transition\<close>.\<close>

definition disk_replace ::
  "deploy_env \<Rightarrow> disk_faults \<Rightarrow> string \<Rightarrow> deployment \<Rightarrow> disk_store \<Rightarrow> deployment res \<times> disk_store" where
  "disk_replace env flt i r s =
     (case validateRecord env r of
        Inl e \<Rightarrow> (Inl e, s)
      | Inr _ \<Rightarrow>
          (case persist env flt r (dks_files s) of
             (Inl e, ds) \<Rightarrow> (Inl e, saved ds s)
           | (Inr _, ds) \<Rightarrow>
               (Inr r, (saved ds s)\<lparr>dks_records := (dks_records s)(i \<mapsto> r)\<rparr>)))"

definition disk_SetRenderedDigest ::
  "deploy_env \<Rightarrow> disk_faults \<Rightarrow> string \<Rightarrow> digest \<Rightarrow> disk_store \<Rightarrow> deployment res \<times> disk_store" where
  "disk_SetRenderedDigest env flt i digest s =
     (case dks_records s i of
        None \<Rightarrow> (Inl ErrNotFound, s)
      | Some r \<Rightarrow>
          if dep_Status r \<noteq> StatusDeploying \<or> digest = 0 then (Inl ErrInvalidRecord, s)
          else disk_replace env flt i (r\<lparr>dep_RenderedSHA256 := digest\<rparr>) s)"

definition disk_Transition ::
  "deploy_env \<Rightarrow> disk_faults \<Rightarrow> string \<Rightarrow> status \<Rightarrow> string \<Rightarrow> time \<Rightarrow> disk_store \<Rightarrow>
     deployment res \<times> disk_store" where
  "disk_Transition env flt i target diagnostic now s =
     (case dks_records s i of
        None \<Rightarrow> (Inl ErrNotFound, s)
      | Some r \<Rightarrow>
          if \<not> canTransition (dep_Status r) target then (Inl ErrInvalidTransition, s)
          else if now = 0 then (Inl (ErrOther ''transition time is required''), s)
          else disk_replace env flt i (moved target diagnostic now r) s)"

definition disk_RemoveAgent ::
  "deploy_env \<Rightarrow> disk_faults \<Rightarrow> string \<Rightarrow> disk_store \<Rightarrow> unit res \<times> disk_store" where
  "disk_RemoveAgent env flt agent s =
     (case dks_latest s agent of
        None \<Rightarrow> (Inl ErrNotFound, s)
      | Some i \<Rightarrow>
          let name = deploymentFilename env agent in
          case inspectDeploymentTarget (dfl_inspect flt) name True (dks_files s) of
            Inl e \<Rightarrow> (Inl e, s)
          | Inr _ \<Rightarrow>
              (case wrapE (ErrOther ''remove deployment file'') (dfl_remove flt) of
                 Inl e \<Rightarrow> (Inl e, s)
               | Inr _ \<Rightarrow>
                   (syncDeploymentDirectory (dfl_dirsync flt),
                    s\<lparr>dks_files := remove_entry name (dks_files s),
                      dks_latest := (dks_latest s)(agent := None),
                      dks_records := (dks_records s)(i := None)\<rparr>)))"

section \<open>Opening a directory\<close>

text \<open>\<open>opf_read name\<close> is the outcome of the calls that inspect, open and read an entry.\<close>

record open_faults =
  opf_prepare :: "unit res"
  opf_is_directory :: bool
  opf_secure :: "unit res"
  opf_readdir :: "unit res"
  opf_lstat :: "string \<Rightarrow> unit res"
  opf_read :: "string \<Rightarrow> unit res"
  opf_remove :: "string \<Rightarrow> unit res"
  opf_dirsync :: "unit res"

definition readable_disk :: open_faults where
  "readable_disk =
     \<lparr>opf_prepare = ok (), opf_is_directory = True, opf_secure = ok (), opf_readdir = ok (),
      opf_lstat = (\<lambda>_. ok ()), opf_read = (\<lambda>_. ok ()), opf_remove = (\<lambda>_. ok ()), opf_dirsync = ok ()\<rparr>"

definition readDiskRecord :: "deploy_env \<Rightarrow> open_faults \<Rightarrow> string \<Rightarrow> entry \<Rightarrow> deployment res" where
  "readDiskRecord env flt name e =
     bindE (require (0 < length (ent_bytes e) \<and> length (ent_bytes e) \<le> maxPersistedDeploymentBytes)
              ErrInvalidStoredData) (\<lambda>_.
     bindE (require (ent_perm e = private_mode) ErrUnsafeStorage) (\<lambda>_.
     bindE (opf_read flt name) (\<lambda>_.
     bindE (wrapE ErrInvalidStoredData (decodeDiskRecord env (ent_bytes e))) (\<lambda>r.
     bindE (require (deploymentFilename env (dep_AgentID r) = name) ErrInvalidStoredData) (\<lambda>_.
     ok r)))))"

text \<open>One entry of the loop; the second component tells whether a temporary file was removed.\<close>

definition load_entry ::
  "deploy_env \<Rightarrow> open_faults \<Rightarrow> disk_store \<times> bool \<Rightarrow> string \<times> entry \<Rightarrow> (disk_store \<times> bool) res" where
  "load_entry env flt = (\<lambda>(s, cleaned) (name, e).
     bindE (opf_lstat flt name) (\<lambda>_.
     bindE (require (ent_regular e) ErrUnsafeStorage) (\<lambda>_.
     bindE (require (ent_perm e = private_mode) ErrUnsafeStorage) (\<lambda>_.
     if isDeploymentTemporaryFile name then
       bindE (opf_remove flt name) (\<lambda>_.
       ok (s\<lparr>dks_files := remove_entry name (dks_files s)\<rparr>, True))
     else
       bindE (require (validDeploymentFilename name) ErrInvalidStoredData) (\<lambda>_.
       bindE (readDiskRecord env flt name e) (\<lambda>r.
       bindE (require (dks_records s (dep_ID r) = None) ErrInvalidStoredData) (\<lambda>_.
       bindE (require (dks_latest s (dep_AgentID r) = None) ErrInvalidStoredData) (\<lambda>_.
       ok (s\<lparr>dks_records := (dks_records s)(dep_ID r \<mapsto> r),
             dks_latest := (dks_latest s)(dep_AgentID r \<mapsto> dep_ID r)\<rparr>, cleaned)))))))))"

definition load :: "deploy_env \<Rightarrow> open_faults \<Rightarrow> disk_store \<Rightarrow> disk_store res" where
  "load env flt s =
     bindE (opf_readdir flt) (\<lambda>_.
     bindE (foldE (load_entry env flt) (s, False) (sort_key fst (dks_files s))) (\<lambda>(s, cleaned).
     bindE (if cleaned then syncDeploymentDirectory (opf_dirsync flt) else ok ()) (\<lambda>_. ok s)))"

definition NewDiskStore ::
  "deploy_env \<Rightarrow> open_faults \<Rightarrow> string \<Rightarrow> directory \<Rightarrow> disk_store res" where
  "NewDiskStore env flt path d =
     bindE (require (trim_space path \<noteq> []) (ErrOther ''deployment storage directory is required''))
       (\<lambda>_.
     bindE (opf_prepare flt) (\<lambda>_.
     bindE (require (opf_is_directory flt) ErrUnsafeStorage) (\<lambda>_.
     bindE (opf_secure flt) (\<lambda>_.
     load env flt \<lparr>dks_files = d, dks_records = Map.empty, dks_latest = Map.empty\<rparr>))))"

end
