(* ===== verification/DeploymentFacts.thy ===== *)
theory DeploymentFacts
  imports DeploymentDisk
begin

text \<open>
  What both deployment stores promise their callers, stated once. The abstract view of a store gives
  for every Agent its latest record; \<open>store_step\<close> says how a request may change it. The locale
  \<open>deployment_store\<close> holds the consequences and is interpreted on the store in memory and on the
  store on disk.
\<close>

section \<open>Requests and views\<close>

datatype deploy_request =
    CreateRequest deployment
  | DigestRequest string digest
  | TransitionRequest string status string time
  | RemoveRequest string

type_synonym deploy_reply = "deployment option res"

type_synonym deploy_view = "string \<rightharpoonup> deployment"

definition no_record :: "unit res \<times> 's \<Rightarrow> deploy_reply \<times> 's" where
  "no_record = (\<lambda>(r, s). (bindE r (\<lambda>_. ok None), s))"

definition with_record :: "deployment res \<times> 's \<Rightarrow> deploy_reply \<times> 's" where
  "with_record = (\<lambda>(r, s). (bindE r (\<lambda>x. ok (Some x)), s))"

fun memory_perform :: "deploy_env \<Rightarrow> deploy_request \<Rightarrow> memory_store \<Rightarrow> deploy_reply \<times> memory_store" where
  "memory_perform env (CreateRequest r) s = no_record (memory_Create env r s)"
| "memory_perform env (DigestRequest i d) s = with_record (memory_SetRenderedDigest i d s)"
| "memory_perform env (TransitionRequest i st dg now) s = with_record (memory_Transition i st dg now s)"
| "memory_perform env (RemoveRequest a) s = no_record (memory_RemoveAgent a s)"

fun disk_perform ::
  "deploy_env \<Rightarrow> disk_faults \<times> deploy_request \<Rightarrow> disk_store \<Rightarrow> deploy_reply \<times> disk_store" where
  "disk_perform env (flt, CreateRequest r) s = no_record (disk_Create env flt r s)"
| "disk_perform env (flt, DigestRequest i d) s = with_record (disk_SetRenderedDigest env flt i d s)"
| "disk_perform env (flt, TransitionRequest i st dg now) s =
     with_record (disk_Transition env flt i st dg now s)"
| "disk_perform env (flt, RemoveRequest a) s = no_record (disk_RemoveAgent env flt a s)"

definition view_of :: "records \<Rightarrow> (string \<rightharpoonup> string) \<Rightarrow> deploy_view" where
  "view_of m latest = (\<lambda>a. map_option (record_at m) (latest a))"

text \<open>The two maps of a store describe each other: a record is the latest one of its Agent.\<close>

definition cross_indexed :: "records \<Rightarrow> (string \<rightharpoonup> string) \<Rightarrow> bool" where
  "cross_indexed m latest \<longleftrightarrow>
     (\<forall>i r. m i = Some r \<longrightarrow> dep_ID r = i \<and> latest (dep_AgentID r) = Some i) \<and>
     (\<forall>a i. latest a = Some i \<longrightarrow> (\<exists>r. m i = Some r \<and> dep_AgentID r = a))"

definition memory_view :: "memory_store \<Rightarrow> deploy_view" where
  "memory_view s = view_of (mms_records s) (mms_latest s)"

definition disk_view :: "disk_store \<Rightarrow> deploy_view" where
  "disk_view s = view_of (dks_records s) (dks_latest s)"

definition memory_ready :: "memory_store \<Rightarrow> bool" where
  "memory_ready s \<longleftrightarrow> cross_indexed (mms_records s) (mms_latest s)"

definition disk_ready :: "disk_store \<Rightarrow> bool" where
  "disk_ready s \<longleftrightarrow> cross_indexed (dks_records s) (dks_latest s)"

definition sync_error :: error where
  "sync_error = ErrOther ''sync deployment storage directory''"

text \<open>
  The abstract specification. A request either fails and changes nothing, or changes the record of
  one Agent. Removing an Agent may report that the directory could not be flushed although the
  Agent is gone.
\<close>

inductive store_step ::
  "deploy_env \<Rightarrow> deploy_request \<Rightarrow> deploy_reply \<Rightarrow> deploy_view \<Rightarrow> deploy_view \<Rightarrow> bool"
  for env :: deploy_env where
  refused: "(\<And>a. q = RemoveRequest a \<Longrightarrow> e \<noteq> sync_error) \<Longrightarrow> store_step env q (Inl e) v v"
| created:
    "validateRecord env r = Inr () \<Longrightarrow> v (dep_AgentID r) = None \<Longrightarrow>
     (\<And>a p. v a = Some p \<Longrightarrow> dep_ID p \<noteq> dep_ID r) \<Longrightarrow>
     store_step env (CreateRequest r) (Inr None) v (v(dep_AgentID r \<mapsto> r))"
| replaced:
    "validateRecord env r = Inr () \<Longrightarrow> v (dep_AgentID r) = Some p \<Longrightarrow>
     \<not> deploymentInProgress (dep_Status p) \<Longrightarrow> (\<And>a p. v a = Some p \<Longrightarrow> dep_ID p \<noteq> dep_ID r) \<Longrightarrow>
     store_step env (CreateRequest r) (Inr None) v (v(dep_AgentID r \<mapsto> inheritLastApplied r p))"
| digested:
    "v a = Some r \<Longrightarrow> dep_ID r = i \<Longrightarrow> dep_Status r = StatusDeploying \<Longrightarrow> d \<noteq> 0 \<Longrightarrow>
     r' = r\<lparr>dep_RenderedSHA256 := d\<rparr> \<Longrightarrow>
     store_step env (DigestRequest i d) (Inr (Some r')) v (v(a \<mapsto> r'))"
| transitioned:
    "v a = Some r \<Longrightarrow> dep_ID r = i \<Longrightarrow> canTransition (dep_Status r) st \<Longrightarrow> now \<noteq> 0 \<Longrightarrow>
     r' = moved st dg now r \<Longrightarrow>
     store_step env (TransitionRequest i st dg now) (Inr (Some r')) v (v(a \<mapsto> r'))"
| removed:
    "v a = Some r \<Longrightarrow> reply = Inr None \<or> reply = Inl sync_error \<Longrightarrow>
     store_step env (RemoveRequest a) reply v (v(a := None))"

inductive_cases store_step_cases: "store_step env q reply v v'"

subsection \<open>The two maps\<close>

lemma record_at_Some [simp]: "m i = Some r \<Longrightarrow> record_at m i = r"
  by (simp add: record_at_def)

lemma moved_fields [simp]:
  "dep_ID (moved st dg now r) = dep_ID r" "dep_AgentID (moved st dg now r) = dep_AgentID r"
  "dep_ConfigJSON (moved st dg now r) = dep_ConfigJSON r" "dep_Status (moved st dg now r) = st"
  "dep_RevisionID (moved st dg now r) = dep_RevisionID r"
  "dep_ConfigSHA256 (moved st dg now r) = dep_ConfigSHA256 r"
  "RenderedDigest (moved st dg now r) = RenderedDigest r"
  by (simp_all add: moved_def setLastApplied_def RenderedDigest_def Let_def)

lemma inherit_fields [simp]:
  "dep_ID (inheritLastApplied r p) = dep_ID r" "dep_AgentID (inheritLastApplied r p) = dep_AgentID r"
  "dep_ConfigJSON (inheritLastApplied r p) = dep_ConfigJSON r"
  "dep_ConfigSHA256 (inheritLastApplied r p) = dep_ConfigSHA256 r"
  "dep_Status (inheritLastApplied r p) = dep_Status r"
  by (simp_all add: inheritLastApplied_def)

lemma indexed_recordD:
  "cross_indexed m latest \<Longrightarrow> m i = Some r \<Longrightarrow> dep_ID r = i \<and> latest (dep_AgentID r) = Some i"
  by (simp add: cross_indexed_def)

lemma indexed_latestE:
  assumes "cross_indexed m latest" and "latest a = Some i"
  obtains r where "m i = Some r" "dep_AgentID r = a" "dep_ID r = i"
  using assms unfolding cross_indexed_def by blast

lemma indexed_viewD:
  assumes ix: "cross_indexed m latest" and v: "view_of m latest a = Some r"
  shows "dep_AgentID r = a" "latest a = Some (dep_ID r)" "m (dep_ID r) = Some r"
proof -
  obtain i where i: "latest a = Some i" "r = record_at m i" using v by (auto simp: view_of_def)
  obtain x where x: "m i = Some x" "dep_AgentID x = a" "dep_ID x = i"
    using indexed_latestE [OF ix i(1)] .
  then have "r = x" using i(2) by simp
  then show "dep_AgentID r = a" "latest a = Some (dep_ID r)" "m (dep_ID r) = Some r"
    using i(1) x by simp_all
qed

lemma indexed_view_at:
  assumes "cross_indexed m latest" and "m i = Some r"
  shows "view_of m latest (dep_AgentID r) = Some r" "dep_ID r = i" "latest (dep_AgentID r) = Some i"
  using assms by (auto simp: cross_indexed_def view_of_def)

lemma indexed_fresh_ID:
  assumes "cross_indexed m latest" and "m i = None" and "view_of m latest a = Some p"
  shows "dep_ID p \<noteq> i"
  using indexed_viewD(3) [OF assms(1,3)] assms(2) by auto

lemma indexed_edit:
  assumes ix: "cross_indexed m latest" and at: "m i = Some r"
    and same: "dep_ID r' = dep_ID r" "dep_AgentID r' = dep_AgentID r"
  shows "cross_indexed (m(i \<mapsto> r')) latest"
    "view_of (m(i \<mapsto> r')) latest = (view_of m latest)(dep_AgentID r \<mapsto> r')"
proof -
  note r = indexed_view_at [OF ix at]
  show "cross_indexed (m(i \<mapsto> r')) latest"
    unfolding cross_indexed_def
  proof (intro conjI allI impI)
    fix j x assume "(m(i \<mapsto> r')) j = Some x"
    then show "dep_ID x = j" "latest (dep_AgentID x) = Some j"
      using ix r same by (auto simp: cross_indexed_def split: if_splits)
  next
    fix a j assume "latest a = Some j"
    then show "\<exists>x. (m(i \<mapsto> r')) j = Some x \<and> dep_AgentID x = a"
      using ix at same unfolding cross_indexed_def by (cases "j = i") fastforce+
  qed
  show "view_of (m(i \<mapsto> r')) latest = (view_of m latest)(dep_AgentID r \<mapsto> r')"
  proof
    fix a
    show "view_of (m(i \<mapsto> r')) latest a = ((view_of m latest)(dep_AgentID r \<mapsto> r')) a"
    proof (cases "latest a")
      case None
      then show ?thesis using r(3) by (auto simp: view_of_def)
    next
      case (Some j)
      then obtain x where x: "m j = Some x" "dep_AgentID x = a"
        using indexed_latestE [OF ix] by blast
      then have "a = dep_AgentID r \<longleftrightarrow> j = i" using r Some at by auto
      then show ?thesis using Some x by (auto simp: view_of_def record_at_def)
    qed
  qed
qed

text \<open>Installing a record under an identifier that is not in use; the previous record goes.\<close>

lemma indexed_install:
  assumes ix: "cross_indexed m latest" and fresh: "m (dep_ID r) = None"
    and m': "m' = (case latest (dep_AgentID r) of None \<Rightarrow> m | Some p \<Rightarrow> m(p := None))"
  shows "cross_indexed (m'(dep_ID r \<mapsto> r)) (latest(dep_AgentID r \<mapsto> dep_ID r))"
    "view_of (m'(dep_ID r \<mapsto> r)) (latest(dep_AgentID r \<mapsto> dep_ID r)) =
       (view_of m latest)(dep_AgentID r \<mapsto> r)"
proof -
  have keeps: "m' i = (if latest (dep_AgentID r) = Some i then None else m i)" for i
    by (simp add: m' split: option.splits)
  have other: "j \<noteq> dep_ID r \<and> m' j = m j \<and> (\<exists>x. m j = Some x \<and> dep_AgentID x = a)"
    if "latest a = Some j" "a \<noteq> dep_AgentID r" for a j
  proof -
    obtain x where x: "m j = Some x" "dep_AgentID x = a"
      using indexed_latestE [OF ix \<open>latest a = Some j\<close>] by blast
    moreover have "latest (dep_AgentID r) \<noteq> Some j" using x that(2) ix unfolding cross_indexed_def
      by (metis option.inject)
    ultimately show ?thesis using fresh by (auto simp: keeps)
  qed
  show "cross_indexed (m'(dep_ID r \<mapsto> r)) (latest(dep_AgentID r \<mapsto> dep_ID r))"
    unfolding cross_indexed_def
  proof (intro conjI allI impI)
    fix j x assume j: "(m'(dep_ID r \<mapsto> r)) j = Some x"
    show "dep_ID x = j" using j ix keeps by (auto simp: cross_indexed_def split: if_splits)
    show "(latest(dep_AgentID r \<mapsto> dep_ID r)) (dep_AgentID x) = Some j"
    proof (cases "j = dep_ID r")
      case True
      then show ?thesis using j by simp
    next
      case False
      then have "m j = Some x" "latest (dep_AgentID r) \<noteq> Some j" using j keeps by (auto split: if_splits)
      then show ?thesis using indexed_recordD [OF ix, of j x] by auto
    qed
  next
    fix a j assume "(latest(dep_AgentID r \<mapsto> dep_ID r)) a = Some j"
    then show "\<exists>x. (m'(dep_ID r \<mapsto> r)) j = Some x \<and> dep_AgentID x = a"
      using other by (auto split: if_splits)
  qed
  show "view_of (m'(dep_ID r \<mapsto> r)) (latest(dep_AgentID r \<mapsto> dep_ID r)) =
       (view_of m latest)(dep_AgentID r \<mapsto> r)"
  proof
    fix a
    show "view_of (m'(dep_ID r \<mapsto> r)) (latest(dep_AgentID r \<mapsto> dep_ID r)) a =
        ((view_of m latest)(dep_AgentID r \<mapsto> r)) a"
      using other by (cases "a = dep_AgentID r"; cases "latest a")
        (auto simp: view_of_def record_at_def)
  qed
qed

lemma indexed_remove:
  assumes ix: "cross_indexed m latest" and at: "latest a = Some i"
  shows "cross_indexed (m(i := None)) (latest(a := None))"
    "view_of (m(i := None)) (latest(a := None)) = (view_of m latest)(a := None)"
proof -
  have other: "j \<noteq> i" if "latest b = Some j" "b \<noteq> a" for b j
    using ix at that unfolding cross_indexed_def by (metis option.inject)
  show "cross_indexed (m(i := None)) (latest(a := None))"
    unfolding cross_indexed_def
  proof (intro conjI allI impI)
    fix j x assume "(m(i := None)) j = Some x"
    then have j: "j \<noteq> i" "m j = Some x" by (auto split: if_splits)
    then show "dep_ID x = j" using ix by (auto simp: cross_indexed_def)
    have "latest (dep_AgentID x) = Some j" using j ix by (auto simp: cross_indexed_def)
    then show "(latest(a := None)) (dep_AgentID x) = Some j" using j(1) at by auto
  next
    fix b j assume "(latest(a := None)) b = Some j"
    then have "latest b = Some j" "b \<noteq> a" by (auto split: if_splits)
    then show "\<exists>x. (m(i := None)) j = Some x \<and> dep_AgentID x = b"
      using ix other by (fastforce simp: cross_indexed_def)
  qed
  show "view_of (m(i := None)) (latest(a := None)) = (view_of m latest)(a := None)"
  proof
    fix b
    show "view_of (m(i := None)) (latest(a := None)) b = ((view_of m latest)(a := None)) b"
      using other by (cases "b = a"; cases "latest b") (auto simp: view_of_def record_at_def)
  qed
qed

section \<open>The last confirmed configuration\<close>

text \<open>
  The history of an Agent, as the callers of a store see it: the configuration, digest and revision
  of the last request that moved one of its deployments to \<open>applied\<close> since the Agent was added.
\<close>

type_synonym confirmation = "string \<times> digest \<times> string"

fun confirm ::
  "deploy_request \<times> deploy_reply \<Rightarrow> (string \<rightharpoonup> confirmation) \<Rightarrow> (string \<rightharpoonup> confirmation)" where
  "confirm (TransitionRequest i st dg now, Inr (Some r)) m =
     (if st = StatusApplied
      then m(dep_AgentID r \<mapsto> (dep_ConfigJSON r, RenderedDigest r, dep_RevisionID r)) else m)"
| "confirm (RemoveRequest a, Inr x) m = m(a := None)"
| "confirm (RemoveRequest a, Inl e) m = (if e = sync_error then m(a := None) else m)"
| "confirm _ m = m"

definition confirmed_by :: "(deploy_request \<times> deploy_reply) list \<Rightarrow> (string \<rightharpoonup> confirmation)" where
  "confirmed_by trace = fold confirm trace Map.empty"

text \<open>What a record reports as applied.\<close>

definition reported :: "deploy_env \<Rightarrow> deployment \<Rightarrow> confirmation option" where
  "reported env r =
     map_option (\<lambda>(config, digest). (config, digest, AppliedRevisionID r)) (AppliedConfiguration env r)"

fun run_calls ::
  "('c \<Rightarrow> 's \<Rightarrow> deploy_reply \<times> 's) \<Rightarrow> ('c \<Rightarrow> deploy_request) \<Rightarrow> 'c list \<Rightarrow> 's \<Rightarrow>
     (deploy_request \<times> deploy_reply) list \<times> 's" where
  "run_calls perform request [] s = ([], s)"
| "run_calls perform request (c # cs) s =
     (case perform c s of
        (reply, s') \<Rightarrow>
          (case run_calls perform request cs s' of
             (trace, s'') \<Rightarrow> ((request c, reply) # trace, s'')))"

text \<open>The records callers create come from \<open>New\<close>: queued, with nothing applied.\<close>

fun fresh_request :: "deploy_request \<Rightarrow> bool" where
  "fresh_request (CreateRequest r) \<longleftrightarrow>
     dep_Status r = StatusQueued \<and> dep_LastAppliedConfigJSON r = []"
| "fresh_request _ \<longleftrightarrow> True"

lemma new_deployment_is_fresh:
  "new_deployment env i agent revision config now = Inr r \<Longrightarrow>
     fresh_request (CreateRequest (r\<lparr>dep_RenderedSHA256 := d\<rparr>))"
  by (auto simp: new_deployment_def zero_deployment_def Let_def res_simps)

definition consistent :: "deploy_env \<Rightarrow> deployment \<Rightarrow> bool" where
  "consistent env r \<longleftrightarrow>
     dep_ConfigJSON r \<noteq> [] \<and> dep_ConfigSHA256 r = denv_sha256 env (dep_ConfigJSON r)"

definition remembers :: "deploy_env \<Rightarrow> deploy_view \<Rightarrow> (string \<rightharpoonup> confirmation) \<Rightarrow> bool" where
  "remembers env v m \<longleftrightarrow>
     (\<forall>a. m a = Option.bind (v a) (reported env)) \<and>
     (\<forall>a r. v a = Some r \<longrightarrow> consistent env r \<and> dep_AgentID r = a)"

lemma consistent_validated: "validateRecord env r = Inr () \<Longrightarrow> consistent env r"
  by (auto simp: validateRecord_def validateConfig_def consistent_def res_simps)

lemma consistent_changed [simp]:
  "consistent env (moved st dg now r) = consistent env r"
  "consistent env (inheritLastApplied r p) = consistent env r"
  "consistent env (r\<lparr>dep_RenderedSHA256 := d\<rparr>) = consistent env r"
  by (simp_all add: consistent_def)

lemma reported_fresh: "fresh_request (CreateRequest r) \<Longrightarrow> reported env r = None"
  by (simp add: reported_def AppliedConfiguration_def is_confirmed_def)

lemma reported_inherit:
  assumes "fresh_request (CreateRequest r)" and "consistent env p"
  shows "reported env (inheritLastApplied r p) = reported env p"
  using assms
  by (auto simp: reported_def AppliedConfiguration_def AppliedRevisionID_def inheritLastApplied_def
      consistent_def RenderedDigest_def is_confirmed_def)

lemma reported_digest:
  "dep_Status r = StatusDeploying \<Longrightarrow> reported env (r\<lparr>dep_RenderedSHA256 := d\<rparr>) = reported env r"
  by (simp add: reported_def AppliedConfiguration_def AppliedRevisionID_def is_confirmed_def)

lemma reported_applied:
  "reported env (moved StatusApplied dg now r) =
     Some (dep_ConfigJSON r, RenderedDigest r, dep_RevisionID r)"
  by (simp add: reported_def AppliedConfiguration_def AppliedRevisionID_def is_confirmed_def)

lemma confirmed_only_apart:
  "canTransition st st' \<Longrightarrow> st' \<noteq> StatusApplied \<Longrightarrow>
     (is_confirmed st' \<longleftrightarrow> is_confirmed st)"
  by (cases st) (auto simp: is_confirmed_def)

lemma reported_moved:
  assumes "canTransition (dep_Status r) st" and "st \<noteq> StatusApplied"
  shows "reported env (moved st dg now r) = reported env r"
proof (cases "is_confirmed st")
  case True
  then show ?thesis using confirmed_only_apart [OF assms]
    by (simp add: reported_def AppliedConfiguration_def AppliedRevisionID_def)
next
  case False
  then show ?thesis using confirmed_only_apart [OF assms] assms(2)
    by (simp add: reported_def AppliedConfiguration_def AppliedRevisionID_def)
      (simp add: moved_def Let_def)
qed

lemma remembers_update:
  assumes "remembers env v m" and "consistent env r'" "dep_AgentID r' = a"
    and "m' a = reported env r'" and "\<And>b. b \<noteq> a \<Longrightarrow> m' b = m b"
  shows "remembers env (v(a \<mapsto> r')) m'"
  using assms unfolding remembers_def by simp

lemma remembers_step:
  assumes "store_step env q reply v v'" and "fresh_request q" and sim: "remembers env v m"
  shows "remembers env v' (confirm (q, reply) m)"
  using assms(1)
proof (cases rule: store_step.cases)
  case (refused e)
  then show ?thesis using sim by (cases q) auto
next
  case (created r)
  show ?thesis using created sim assms(2) consistent_validated [OF created(4)]
    by (auto simp: remembers_def reported_fresh)
next
  case (replaced r p)
  then have p: "consistent env p" "m (dep_AgentID r) = reported env p"
    using sim unfolding remembers_def by auto
  show ?thesis unfolding replaced(1,2,3)
    using sim consistent_validated [OF replaced(4)] p reported_inherit [of r env p] assms(2) replaced(1)
    by (auto intro!: remembers_update)
next
  case (digested a r i d r')
  then have r: "consistent env r" "m a = reported env r" "dep_AgentID r = a"
    using sim unfolding remembers_def by auto
  show ?thesis unfolding digested(1,2,3)
    using sim r digested(6,8) by (auto intro!: remembers_update simp: reported_digest)
next
  case (transitioned a r i st now r' dg)
  then have r: "consistent env r" "m a = reported env r" "dep_AgentID r = a"
    using sim unfolding remembers_def by auto
  show ?thesis
  proof (cases "st = StatusApplied")
    case True
    then show ?thesis unfolding transitioned(1,2,3)
      using sim r transitioned(8) by (auto intro!: remembers_update simp: reported_applied)
  next
    case False
    then show ?thesis unfolding transitioned(1,2,3)
      using sim r transitioned(6,8) by (auto intro!: remembers_update simp: reported_moved)
  qed
next
  case (removed a r)
  then have "confirm (q, reply) m = m(a := None)" by (auto simp: sync_error_def)
  then show ?thesis using sim removed by (auto simp: remembers_def)
qed

section \<open>The contract of a store\<close>

locale deployment_store =
  fixes env :: deploy_env
    and ready :: "'s \<Rightarrow> bool"
    and view :: "'s \<Rightarrow> deploy_view"
    and perform :: "'c \<Rightarrow> 's \<Rightarrow> deploy_reply \<times> 's"
    and request :: "'c \<Rightarrow> deploy_request"
  assumes ready_step: "ready s \<Longrightarrow> perform c s = (reply, s') \<Longrightarrow> ready s'"
    and view_step: "ready s \<Longrightarrow> perform c s = (reply, s') \<Longrightarrow> store_step env (request c) reply (view s) (view s')"
begin

lemma ready_run: "run_calls perform request cs s = (trace, s') \<Longrightarrow> ready s \<Longrightarrow> ready s'"
  by (induction cs arbitrary: s trace) (auto split: prod.splits intro: ready_step)

lemma remembers_run:
  assumes "run_calls perform request cs s = (trace, s')" and "ready s"
    and "\<forall>c \<in> set cs. fresh_request (request c)" and "remembers env (view s) m"
  shows "remembers env (view s') (fold confirm trace m)"
  using assms
proof (induction cs arbitrary: s trace m)
  case Nil
  then show ?case by simp
next
  case (Cons c cs)
  obtain reply t where t: "perform c s = (reply, t)" by (cases "perform c s")
  obtain tr where tr: "run_calls perform request cs t = (tr, s')" "trace = (request c, reply) # tr"
    using Cons.prems(1) t by (auto split: prod.splits)
  have "remembers env (view t) (confirm (request c, reply) m)"
    using remembers_step [OF view_step [OF Cons.prems(2) t]] Cons.prems(3,4) by simp
  then show ?case
    using Cons.IH [OF tr(1) ready_step [OF Cons.prems(2) t]] Cons.prems(3) tr(2) by simp
qed

lemma reports_last_confirmed:
  assumes "run_calls perform request cs s = (trace, s')" and "ready s"
    and "\<forall>c \<in> set cs. fresh_request (request c)" and "view s = Map.empty"
  shows "Option.bind (view s' a) (reported env) = confirmed_by trace a"
proof -
  have "remembers env (view s) Map.empty" using assms(4) by (simp add: remembers_def)
  from remembers_run [OF assms(1-3) this] show ?thesis
    by (simp add: remembers_def confirmed_by_def)
qed

end

end
