(* ===== verification/DeploymentStores.thy ===== *)
theory DeploymentStores
  imports DeploymentFacts
begin

text \<open>
  Both stores keep the contract \<open>deployment_store\<close>: their operations refine \<open>store_step\<close> under the
  view that looks the latest record of an Agent up in the two maps.
\<close>

section \<open>The store in memory\<close>

lemma memory_ready_new [simp]: "memory_ready NewMemoryStore" "memory_view NewMemoryStore = Map.empty"
  by (auto simp: memory_ready_def NewMemoryStore_def cross_indexed_def memory_view_def view_of_def)

definition stepped :: "deploy_env \<Rightarrow> deploy_request \<Rightarrow> deploy_reply \<Rightarrow> records \<times> (string \<rightharpoonup> string) \<Rightarrow>
    records \<times> (string \<rightharpoonup> string) \<Rightarrow> bool" where
  "stepped env q reply = (\<lambda>(m, l) (m', l').
     cross_indexed m' l' \<and> store_step env q reply (view_of m l) (view_of m' l'))"

lemma stepped_refused:
  "cross_indexed m l \<Longrightarrow> (\<And>a. q = RemoveRequest a \<Longrightarrow> e \<noteq> sync_error) \<Longrightarrow>
     stepped env q (Inl e) (m, l) (m, l)"
  by (simp add: stepped_def store_step.refused)

lemma stepped_created:
  assumes ix: "cross_indexed m l" and ok: "validateRecord env r = Inr ()" and fresh: "m (dep_ID r) = None"
    and none: "l (dep_AgentID r) = None"
  shows "stepped env (CreateRequest r) (Inr None) (m, l)
    (m(dep_ID r \<mapsto> r), l(dep_AgentID r \<mapsto> dep_ID r))"
proof -
  have "m = (case l (dep_AgentID r) of None \<Rightarrow> m | Some p \<Rightarrow> m(p := None))" using none by simp
  note installed = indexed_install [OF ix fresh this]
  have "store_step env (CreateRequest r) (Inr None) (view_of m l)
      ((view_of m l)(dep_AgentID r \<mapsto> r))"
    using ok none indexed_fresh_ID [OF ix fresh]
    by (intro store_step.created) (auto simp: view_of_def)
  then show ?thesis using installed by (simp add: stepped_def)
qed

lemma stepped_replaced:
  assumes ix: "cross_indexed m l" and ok: "validateRecord env r = Inr ()" and fresh: "m (dep_ID r) = None"
    and prev: "l (dep_AgentID r) = Some p" and idle: "\<not> deploymentInProgress (dep_Status (record_at m p))"
    and r': "r' = inheritLastApplied r (record_at m p)"
  shows "stepped env (CreateRequest r) (Inr None) (m, l)
    ((m(p := None))(dep_ID r \<mapsto> r'), l(dep_AgentID r \<mapsto> dep_ID r))"
proof -
  obtain x where x: "m p = Some x" "dep_AgentID x = dep_AgentID r" "dep_ID x = p"
    using indexed_latestE [OF ix prev] .
  have same: "dep_ID r' = dep_ID r" "dep_AgentID r' = dep_AgentID r" by (simp_all add: r')
  have "m(p := None) = (case l (dep_AgentID r') of None \<Rightarrow> m | Some q \<Rightarrow> m(q := None))"
    using prev same by simp
  note installed = indexed_install [OF ix _ this, unfolded same, OF fresh]
  have "view_of m l (dep_AgentID r) = Some x" using prev x by (simp add: view_of_def)
  then have "store_step env (CreateRequest r) (Inr None) (view_of m l)
      ((view_of m l)(dep_AgentID r \<mapsto> r'))"
    using ok idle x indexed_fresh_ID [OF ix fresh] store_step.replaced r' by auto
  then show ?thesis unfolding stepped_def prod.case installed(2) using installed(1) by (rule conjI [rotated])
qed

lemma stepped_digested:
  assumes ix: "cross_indexed m l" and at: "m i = Some r" and ok: "dep_Status r = StatusDeploying" "d \<noteq> 0"
  shows "stepped env (DigestRequest i d) (Inr (Some (r\<lparr>dep_RenderedSHA256 := d\<rparr>))) (m, l)
    (m(i \<mapsto> r\<lparr>dep_RenderedSHA256 := d\<rparr>), l)"
  using indexed_edit [OF ix at, of "r\<lparr>dep_RenderedSHA256 := d\<rparr>"] indexed_view_at [OF ix at] ok
  by (auto simp: stepped_def intro: store_step.digested)

lemma stepped_moved:
  assumes ix: "cross_indexed m l" and at: "m i = Some r" and ok: "canTransition (dep_Status r) st" "now \<noteq> 0"
  shows "stepped env (TransitionRequest i st dg now) (Inr (Some (moved st dg now r))) (m, l)
    (m(i \<mapsto> moved st dg now r), l)"
  using indexed_edit [OF ix at, of "moved st dg now r"] indexed_view_at [OF ix at] ok
  by (auto simp: stepped_def intro: store_step.transitioned)

lemma stepped_removed:
  assumes ix: "cross_indexed m l" and at: "l a = Some i" and reply: "reply = Inr None \<or> reply = Inl sync_error"
  shows "stepped env (RemoveRequest a) reply (m, l) (m(i := None), l(a := None))"
proof -
  obtain x where "m i = Some x" "dep_AgentID x = a" "dep_ID x = i" using indexed_latestE [OF ix at] .
  then have "view_of m l a = Some x" using at by (simp add: view_of_def)
  then show ?thesis using indexed_remove [OF ix at] reply
    by (auto simp: stepped_def intro: store_step.removed)
qed

lemmas stepped_rules = stepped_refused stepped_created stepped_replaced stepped_digested stepped_moved
  stepped_removed

lemma memory_stepped:
  assumes "memory_ready s" and "memory_perform env q s = (reply, s')"
  shows "stepped env q reply (mms_records s, mms_latest s) (mms_records s', mms_latest s')"
proof (cases q)
  case (CreateRequest r)
  with assms show ?thesis
    by (cases "mms_latest s (dep_AgentID r)")
      (auto simp: memory_ready_def no_record_def memory_Create_def Let_def
        intro!: stepped_rules split: sum.splits if_splits)
next
  case (DigestRequest i d)
  with assms show ?thesis
    by (auto simp: memory_ready_def with_record_def memory_SetRenderedDigest_def Let_def
        intro!: stepped_rules split: option.splits if_splits)
next
  case (TransitionRequest i st dg now)
  with assms show ?thesis
    by (auto simp: memory_ready_def with_record_def memory_Transition_def Let_def
        intro!: stepped_rules split: option.splits if_splits)
next
  case (RemoveRequest a)
  with assms show ?thesis
    by (auto simp: memory_ready_def no_record_def memory_RemoveAgent_def sync_error_def
        intro!: stepped_rules split: option.splits)
qed

interpretation memory: deployment_store env memory_ready memory_view "memory_perform env" "\<lambda>q. q"
  for env
proof (unfold_locales)
  fix s q reply s'
  assume "memory_ready s" "memory_perform env q s = (reply, s')"
  from memory_stepped [OF this]
  show "memory_ready s'" "store_step env q reply (memory_view s) (memory_view s')"
    by (simp_all add: stepped_def memory_ready_def memory_view_def)
qed

section \<open>The store on disk\<close>

lemma saved_maps [simp]:
  "dks_records (saved ds s) = dks_records s" "dks_latest (saved ds s) = dks_latest s"
  by (simp_all add: saved_def)

lemma disk_replace_cases:
  assumes "disk_replace env flt i r s = (reply, s')"
  obtains (refusal) e where "reply = Inl e" "dks_records s' = dks_records s" "dks_latest s' = dks_latest s"
  | (stored) "reply = Inr r" "dks_records s' = (dks_records s)(i \<mapsto> r)" "dks_latest s' = dks_latest s"
  using assms by (auto simp: disk_replace_def split: sum.splits prod.splits)

lemma not_sync_error [simp]:
  "inspectDeploymentTarget lstat n b d \<noteq> Inl sync_error"
  "wrapE (ErrOther ''remove deployment file'') r \<noteq> Inl sync_error"
  by (cases lstat; auto simp: inspectDeploymentTarget_def require_def sync_error_def
      ErrUnsafeStorage_def split: option.splits)
    (cases r; simp add: sync_error_def)

lemma sync_reply:
  "syncDeploymentDirectory x = (if is_ok x then Inr () else Inl sync_error)"
  by (cases x) (simp_all add: syncDeploymentDirectory_def sync_error_def)

lemma disk_stepped:
  assumes ready: "disk_ready s" and run: "disk_perform env (flt, q) s = (reply, s')"
  shows "stepped env q reply (dks_records s, dks_latest s) (dks_records s', dks_latest s')"
proof (cases q)
  case (CreateRequest r)
  with assms show ?thesis
    by (cases "dks_latest s (dep_AgentID r)")
      (auto simp: disk_ready_def no_record_def disk_Create_def Let_def
        intro!: stepped_rules split: sum.splits if_splits prod.splits)
next
  case (DigestRequest i d)
  show ?thesis
  proof (cases "dks_records s i")
    case None
    with assms DigestRequest show ?thesis
      by (auto simp: disk_ready_def with_record_def disk_SetRenderedDigest_def intro!: stepped_rules)
  next
    case (Some r)
    show ?thesis
    proof (cases "dep_Status r \<noteq> StatusDeploying \<or> d = 0")
      case True
      with Some assms DigestRequest show ?thesis
        by (auto simp: disk_ready_def with_record_def disk_SetRenderedDigest_def intro!: stepped_rules)
    next
      case False
      obtain x where x: "disk_replace env flt i (r\<lparr>dep_RenderedSHA256 := d\<rparr>) s = (x, s')"
          "reply = bindE x (\<lambda>y. ok (Some y))"
        using run False Some DigestRequest
        by (auto simp: with_record_def disk_SetRenderedDigest_def split: prod.splits)
      from x(1) show ?thesis
        by (cases rule: disk_replace_cases)
          (use x False Some DigestRequest ready in \<open>auto simp: disk_ready_def intro!: stepped_rules\<close>)
    qed
  qed
next
  case (TransitionRequest i st dg now)
  show ?thesis
  proof (cases "dks_records s i")
    case None
    with assms TransitionRequest show ?thesis
      by (auto simp: disk_ready_def with_record_def disk_Transition_def intro!: stepped_rules)
  next
    case (Some r)
    show ?thesis
    proof (cases "\<not> canTransition (dep_Status r) st \<or> now = 0")
      case True
      with Some assms TransitionRequest show ?thesis
        by (auto simp: disk_ready_def with_record_def disk_Transition_def intro!: stepped_rules
            split: if_splits)
    next
      case False
      obtain x where x: "disk_replace env flt i (moved st dg now r) s = (x, s')"
          "reply = bindE x (\<lambda>y. ok (Some y))"
        using run False Some TransitionRequest
        by (auto simp: with_record_def disk_Transition_def split: prod.splits)
      from x(1) show ?thesis
        by (cases rule: disk_replace_cases)
          (use x False Some TransitionRequest ready in \<open>auto simp: disk_ready_def intro!: stepped_rules\<close>)
    qed
  qed
next
  case (RemoveRequest a)
  show ?thesis
  proof (cases "dks_latest s a")
    case None
    with assms RemoveRequest show ?thesis
      by (auto simp: disk_ready_def no_record_def disk_RemoveAgent_def sync_error_def intro!: stepped_rules)
  next
    case (Some i)
    from assms Some RemoveRequest show ?thesis
      by (auto simp: not_sync_error sync_reply disk_ready_def no_record_def disk_RemoveAgent_def Let_def intro!: stepped_rules
          split: sum.splits)
  qed
qed

interpretation disk: deployment_store env disk_ready disk_view "disk_perform env" snd
  for env
proof (unfold_locales)
  fix s c reply s'
  assume a: "disk_ready s" "disk_perform env c s = (reply, s')"
  obtain flt q where c: "c = (flt, q)" by (cases c)
  from disk_stepped [OF a(1) a(2) [unfolded c]]
  show "disk_ready s'" "store_step env (snd c) reply (disk_view s) (disk_view s')"
    by (simp_all add: stepped_def disk_ready_def disk_view_def c)
qed

end
