(* ===== verification/DeploymentRecovery.thy ===== *)
theory DeploymentRecovery
  imports DeploymentStores
begin

text \<open>
  Reading back what the store on disk has written: hexadecimal digests, stored documents, the loop
  that opens a directory, and the directories an interrupted write can leave behind.
\<close>

section \<open>Digests and documents\<close>

lemma hex_value_digit: "n < 16 \<Longrightarrow> hex_value (hex_digit n) = Some n"
proof -
  have "\<forall>n \<in> set [0..<16]. hex_value (hex_digit n) = Some n" by code_simp
  then show "n < 16 \<Longrightarrow> ?thesis" by simp
qed

lemma length_fixed_hex [simp]: "length (fixed_hex k n) = k"
  by (induction k arbitrary: n) simp_all

lemma hex_number_append:
  "hex_number acc (s @ t) = (case hex_number acc s of None \<Rightarrow> None | Some a \<Rightarrow> hex_number a t)"
  by (induction s arbitrary: acc) (auto split: option.splits)

lemma hex_number_fixed: "hex_number acc (fixed_hex k n) = Some (acc * 16 ^ k + n mod 16 ^ k)"
proof (induction k arbitrary: n)
  case 0
  then show ?case by simp
next
  case (Suc k)
  have "n mod 16 ^ Suc k = 16 * (n div 16 mod 16 ^ k) + n mod 16"
    by (simp add: mod_mult2_eq)
  then show ?case
    by (simp add: hex_number_append Suc.IH hex_value_digit algebra_simps)
qed

lemma decode_encode_digest [simp]: "decode_digest (encode_digest d) = Some d"
proof -
  have "unat d < 16 ^ 64" using unsigned_less [of d, where ?'a = nat] by simp
  then show ?thesis by (simp add: decode_digest_def encode_digest_def hex_number_fixed)
qed

lemma encode_digest_not_Nil [simp]: "encode_digest d \<noteq> []"
  by (metis encode_digest_def length_fixed_hex list.size(3) zero_neq_numeral)

lemma encode_digest_inj: "encode_digest d = encode_digest d' \<longleftrightarrow> d = d'"
  by (metis decode_encode_digest option.inject)

lemma optional_digest_encoded: "optional_digest (if d \<noteq> 0 then encode_digest d else []) = Inr d"
  by (simp add: optional_digest_def from_option_def)

text \<open>
  The documented behaviour of \<open>encoding/json\<close> the store relies on: a document it has written for a
  record whose strings are UTF-8 is read back unchanged.
\<close>

definition clean_text :: "string \<Rightarrow> bool" where
  "clean_text s \<longleftrightarrow> runes s \<noteq> None"

definition utf8_record :: "deployment \<Rightarrow> bool" where
  "utf8_record r \<longleftrightarrow> clean_text (dep_ID r) \<and> clean_text (dep_AgentID r) \<and> clean_text (dep_RevisionID r) \<and>
     clean_text (dep_Diagnostic r) \<and> clean_text (dep_LastAppliedRevisionID r)"

definition json_round_trip :: "deploy_env \<Rightarrow> bool" where
  "json_round_trip env \<longleftrightarrow>
     (\<forall>r bytes. utf8_record r \<longrightarrow> denv_marshal env (stored_record r) = Some bytes \<longrightarrow>
        denv_decode env (bytes @ [CHR 0x0A]) = Some (stored_record r))"

lemma deployment_rebuilt:
  "\<lparr>dep_ID = dep_ID r, dep_AgentID = dep_AgentID r, dep_RevisionID = dep_RevisionID r,
    dep_ConfigJSON = dep_ConfigJSON r, dep_ConfigSHA256 = dep_ConfigSHA256 r,
    dep_RenderedSHA256 = dep_RenderedSHA256 r, dep_Status = dep_Status r,
    dep_Diagnostic = dep_Diagnostic r, dep_CreatedAt = dep_CreatedAt r,
    dep_UpdatedAt = dep_UpdatedAt r, dep_LastAppliedConfigJSON = dep_LastAppliedConfigJSON r,
    dep_LastAppliedRenderedSHA256 = dep_LastAppliedRenderedSHA256 r,
    dep_LastAppliedRevisionID = dep_LastAppliedRevisionID r,
    dep_LastAppliedAt = dep_LastAppliedAt r\<rparr> = r"
  by (cases r) simp

lemma decode_encoded:
  assumes "json_round_trip env" and "utf8_record r" and enc: "encodeDiskRecord env r = Inr bytes"
  shows "decodeDiskRecord env bytes = Inr r" "0 < length bytes"
    "length bytes \<le> maxPersistedDeploymentBytes"
proof -
  obtain raw where raw: "validateRecord env r = Inr ()" "denv_marshal env (stored_record r) = Some raw"
      "bytes = raw @ [CHR 0x0A]" "length bytes \<le> maxPersistedDeploymentBytes"
    using enc by (auto simp: encodeDiskRecord_def res_simps Let_def)
  then have "denv_decode env bytes = Some (stored_record r)"
    using assms(1,2) by (simp add: json_round_trip_def)
  then show "decodeDiskRecord env bytes = Inr r"
    using raw(1)
    by (simp add: decodeDiskRecord_def deployment_rebuilt from_option_def require_def Let_def stored_record_def
        optional_digest_encoded)
  show "0 < length bytes" "length bytes \<le> maxPersistedDeploymentBytes" using raw by simp_all
qed

section \<open>File names\<close>

lemma hex_digit_range:
  assumes "n < 16"
  shows "\<not> ((hex_digit n < CHR ''0'' \<or> CHR ''9'' < hex_digit n) \<and>
            (hex_digit n < CHR ''a'' \<or> CHR ''f'' < hex_digit n))"
proof -
  have "\<forall>n \<in> set [0..<16]. \<not> ((hex_digit n < CHR ''0'' \<or> CHR ''9'' < hex_digit n) \<and>
            (hex_digit n < CHR ''a'' \<or> CHR ''f'' < hex_digit n))" by code_simp
  then show ?thesis using assms by simp
qed

lemma fixed_hex_digits: "c \<in> set (fixed_hex k n) \<Longrightarrow> \<exists>m < 16. c = hex_digit m"
proof (induction k arbitrary: n)
  case (Suc k)
  have "n mod 16 < 16" by simp
  with Suc show ?case by (auto simp del: mod_less_divisor)
qed simp

lemma filename_valid: "validDeploymentFilename (deploymentFilename env a)"
proof -
  have "list_all (\<lambda>c. \<not> ((c < CHR ''0'' \<or> CHR ''9'' < c) \<and> (c < CHR ''a'' \<or> CHR ''f'' < c)))
      (encode_digest (denv_sha256 env a))"
    unfolding list_all_iff encode_digest_def using fixed_hex_digits hex_digit_range by blast
  then show ?thesis
    by (simp add: validDeploymentFilename_def deploymentFilename_def deploymentFilenameSuffix_def
        has_suffix_def has_prefix_def) (simp add: encode_digest_def)
qed

lemma filename_inj:
  "deploymentFilename env a = deploymentFilename env b \<longleftrightarrow> denv_sha256 env a = denv_sha256 env b"
  by (simp add: deploymentFilename_def encode_digest_inj)

lemma filename_not_temporary: "\<not> isDeploymentTemporaryFile (deploymentFilename env a)"
proof -
  obtain c s where cs: "encode_digest (denv_sha256 env a) = c # s"
    by (metis encode_digest_not_Nil list.exhaust)
  then have "c \<in> set (fixed_hex 64 (unat (denv_sha256 env a)))" by (simp add: encode_digest_def)
  then obtain m where "m < 16" "c = hex_digit m" using fixed_hex_digits by blast
  moreover have "\<forall>n \<in> set [0..<16]. hex_digit n \<noteq> CHR ''.''" by code_simp
  ultimately have "c \<noteq> CHR ''.''" by simp
  then show ?thesis
    by (simp add: isDeploymentTemporaryFile_def deploymentFilename_def cs has_prefix_def)
qed

lemma temporary_is_temporary: "isDeploymentTemporaryFile (temporary_name n)"
  by (simp add: isDeploymentTemporaryFile_def temporary_name_def has_prefix_def has_suffix_def)

section \<open>Directories\<close>

lemma map_of_filter_name:
  "map_of (filter (\<lambda>(n, _). n \<noteq> name) d) = (map_of d)(name := None)"
  by (induction d) (auto split: prod.splits)

lemma map_of_put [simp]: "map_of (put_entry name e d) = (map_of d)(name \<mapsto> e)"
  by (simp add: put_entry_def map_of_filter_name)

lemma map_of_remove [simp]: "map_of (remove_entry name d) = (map_of d)(name := None)"
  by (simp add: remove_entry_def map_of_filter_name)

lemma names_filtered: "distinct (map fst d) \<Longrightarrow> distinct (map fst (filter P d))"
  by (induction d) auto

lemma distinct_put [simp]: "distinct (map fst d) \<Longrightarrow> distinct (map fst (put_entry name e d))"
  by (auto simp: put_entry_def names_filtered)

lemma distinct_remove [simp]: "distinct (map fst d) \<Longrightarrow> distinct (map fst (remove_entry name d))"
  by (simp add: remove_entry_def names_filtered)

definition is_private :: "entry \<Rightarrow> bool" where
  "is_private e \<longleftrightarrow> ent_regular e \<and> ent_perm e = private_mode"

lemma is_private_file [simp]: "is_private (private_file bytes)"
  by (simp add: is_private_def private_file_def)

text \<open>
  A directory holds a view: beside temporary files it has exactly one file per Agent, with the
  document of the Agent's record.
\<close>

definition mirrors :: "deploy_env \<Rightarrow> directory \<Rightarrow> deploy_view \<Rightarrow> bool" where
  "mirrors env d v \<longleftrightarrow>
     distinct (map fst d) \<and>
     (\<forall>name e. map_of d name = Some e \<longrightarrow>
        isDeploymentTemporaryFile name \<and> is_private e \<or> (\<exists>a \<in> dom v. name = deploymentFilename env a)) \<and>
     (\<forall>a r. v a = Some r \<longrightarrow> dep_AgentID r = a \<and>
        (\<exists>bytes. encodeDiskRecord env r = Inr bytes \<and>
           map_of d (deploymentFilename env a) = Some (private_file bytes)))"

text \<open>The views the properties below speak of.\<close>

definition restorable :: "deploy_env \<Rightarrow> deploy_view \<Rightarrow> bool" where
  "restorable env v \<longleftrightarrow>
     inj_on (denv_sha256 env) (dom v) \<and>
     (\<forall>a r. v a = Some r \<longrightarrow> utf8_record r) \<and>
     (\<forall>a b r p. v a = Some r \<longrightarrow> v b = Some p \<longrightarrow> dep_ID r = dep_ID p \<longrightarrow> a = b)"

lemma mirrors_empty: "mirrors env [] Map.empty"
  by (simp add: mirrors_def)

lemma restorable_filename:
  "restorable env v \<Longrightarrow> a \<in> dom v \<Longrightarrow> b \<in> dom v \<Longrightarrow>
     deploymentFilename env a = deploymentFilename env b \<Longrightarrow> a = b"
  unfolding restorable_def filename_inj by (meson inj_onD)

lemma mirrors_put_temporary:
  assumes "mirrors env d v" and "isDeploymentTemporaryFile temp" and "is_private e"
  shows "mirrors env (put_entry temp e d) v"
  using assms filename_not_temporary unfolding mirrors_def by auto

lemma mirrors_remove_temporary:
  assumes "mirrors env d v" and "isDeploymentTemporaryFile temp"
  shows "mirrors env (remove_entry temp d) v"
  using assms filename_not_temporary unfolding mirrors_def by auto

section \<open>Opening a directory\<close>

lemma readDiskRecord_written:
  assumes "json_round_trip env" and "utf8_record r" and enc: "encodeDiskRecord env r = Inr bytes"
  shows "readDiskRecord env readable_disk (deploymentFilename env (dep_AgentID r)) (private_file bytes) =
    Inr r"
  using decode_encoded [OF assms]
  by (simp add: readDiskRecord_def require_def private_file_def readable_disk_def)

lemma load_temporary:
  assumes "isDeploymentTemporaryFile name" and "is_private e"
  shows "load_entry env readable_disk (s, c) (name, e) =
    Inr (s\<lparr>dks_files := remove_entry name (dks_files s)\<rparr>, True)"
  using assms by (simp add: load_entry_def require_def is_private_def readable_disk_def)

lemma load_written:
  assumes "json_round_trip env" and "utf8_record r" and enc: "encodeDiskRecord env r = Inr bytes"
    and fresh: "dks_records s (dep_ID r) = None" "dks_latest s (dep_AgentID r) = None"
  shows "load_entry env readable_disk (s, c) (deploymentFilename env (dep_AgentID r), private_file bytes) =
    Inr (s\<lparr>dks_records := (dks_records s)(dep_ID r \<mapsto> r),
           dks_latest := (dks_latest s)(dep_AgentID r \<mapsto> dep_ID r)\<rparr>, c)"
  using readDiskRecord_written [OF assms(1-3)] fresh filename_not_temporary filename_valid
  by (simp add: load_entry_def require_def readable_disk_def private_file_def)

lemma disk_view_files [simp]: "disk_view (s\<lparr>dks_files := d\<rparr>) = disk_view s"
  by (simp add: disk_view_def)

definition entry_of :: "deploy_env \<Rightarrow> deploy_view \<Rightarrow> string \<times> entry \<Rightarrow> bool" where
  "entry_of env v = (\<lambda>(name, e).
     isDeploymentTemporaryFile name \<and> is_private e \<or>
     (\<exists>a r bytes. v a = Some r \<and> dep_AgentID r = a \<and> name = deploymentFilename env a \<and>
        encodeDiskRecord env r = Inr bytes \<and> e = private_file bytes))"

lemma load_entries:
  assumes rt: "json_round_trip env" and rest: "restorable env v"
    and "distinct (map fst xs)" and "\<forall>x \<in> set xs. entry_of env v x"
    and "disk_ready s" and "\<And>a r. disk_view s a = Some r \<Longrightarrow> v a = Some r"
    and "\<And>a. a \<in> dom v \<Longrightarrow> deploymentFilename env a \<in> fst ` set xs \<Longrightarrow> disk_view s a = None"
    and "mirrors env (dks_files s) v"
  shows "\<exists>s' c'. foldE (load_entry env readable_disk) (s, c) xs = Inr (s', c') \<and> disk_ready s' \<and>
    mirrors env (dks_files s') v \<and>
    disk_view s' = (\<lambda>a. if a \<in> dom v \<and> deploymentFilename env a \<in> fst ` set xs then v a
                       else disk_view s a)"
  using assms(3-)
proof (induction xs arbitrary: s c)
  case Nil
  then show ?case by simp
next
  case (Cons x xs)
  obtain name e where x: "x = (name, e)" by (cases x)
  show ?case
  proof (cases "isDeploymentTemporaryFile name")
    case True
    then have e: "is_private e"
      using Cons.prems(2) filename_not_temporary unfolding x entry_of_def by auto
    let ?s = "s\<lparr>dks_files := remove_entry name (dks_files s)\<rparr>"
    have not_name: "deploymentFilename env a \<noteq> name" for a using True filename_not_temporary by blast
    have "\<exists>s' c'. foldE (load_entry env readable_disk) (?s, True) xs = Inr (s', c') \<and> disk_ready s' \<and>
        mirrors env (dks_files s') v \<and>
        disk_view s' = (\<lambda>a. if a \<in> dom v \<and> deploymentFilename env a \<in> fst ` set xs then v a
                           else disk_view ?s a)"
      by (rule Cons.IH) (use Cons.prems True mirrors_remove_temporary in
          \<open>auto simp: disk_ready_def\<close>)
    then obtain s' c' where s': "foldE (load_entry env readable_disk) (?s, True) xs = Inr (s', c')"
        "disk_ready s'" "mirrors env (dks_files s') v"
        "disk_view s' = (\<lambda>a. if a \<in> dom v \<and> deploymentFilename env a \<in> fst ` set xs then v a
                           else disk_view s a)"
      unfolding disk_view_files by blast
    then show ?thesis using load_temporary [OF True e] not_name by (auto simp: x)
  next
    case False
    then obtain a r bytes where a: "v a = Some r" "dep_AgentID r = a" "name = deploymentFilename env a"
        "encodeDiskRecord env r = Inr bytes" "e = private_file bytes"
      using Cons.prems(2) unfolding x entry_of_def by auto
    have none: "disk_view s a = None" using Cons.prems(5) [of a] a x by auto
    then have latest: "dks_latest s (dep_AgentID r) = None"
      using a by (auto simp: disk_view_def view_of_def)
    have ids: "dks_records s (dep_ID r) = None"
    proof (rule ccontr)
      assume "dks_records s (dep_ID r) \<noteq> None"
      then obtain p where p: "dks_records s (dep_ID r) = Some p" by blast
      with Cons.prems(3) have "disk_view s (dep_AgentID p) = Some p" "dep_ID p = dep_ID r"
        using indexed_view_at by (auto simp: disk_ready_def disk_view_def)
      moreover from this have "v (dep_AgentID p) = Some p" using Cons.prems(4) by blast
      ultimately have "dep_AgentID p = a" using rest a unfolding restorable_def by metis
      then show False using none \<open>disk_view s (dep_AgentID p) = Some p\<close> by simp
    qed
    let ?s = "s\<lparr>dks_records := (dks_records s)(dep_ID r \<mapsto> r),
               dks_latest := (dks_latest s)(dep_AgentID r \<mapsto> dep_ID r)\<rparr>"
    have step: "load_entry env readable_disk (s, c) x = Inr (?s, c)"
      unfolding x a using load_written [OF rt _ a(4) ids latest] rest a unfolding restorable_def by auto
    have m: "dks_records s =
        (case dks_latest s (dep_AgentID r) of None \<Rightarrow> dks_records s | Some p \<Rightarrow> (dks_records s)(p := None))"
      using latest by simp
    note installed = indexed_install [OF Cons.prems(3) [unfolded disk_ready_def] ids m]
    have view: "disk_view ?s = (disk_view s)(a \<mapsto> r)" "disk_ready ?s"
      using installed a by (simp_all add: disk_view_def disk_ready_def)
    have later: "b \<noteq> a" if "deploymentFilename env b \<in> fst ` set xs" for b
      using Cons.prems(1) that a x by auto
    have "\<exists>s' c'. foldE (load_entry env readable_disk) (?s, c) xs = Inr (s', c') \<and> disk_ready s' \<and>
        mirrors env (dks_files s') v \<and>
        disk_view s' = (\<lambda>a. if a \<in> dom v \<and> deploymentFilename env a \<in> fst ` set xs then v a
                           else disk_view ?s a)"
    proof (rule Cons.IH)
      show "distinct (map fst xs)" "\<forall>y \<in> set xs. entry_of env v y" using Cons.prems(1,2) by auto
      show "disk_ready ?s" by (rule view)
      show "v b = Some p" if "disk_view ?s b = Some p" for b p
        using that view Cons.prems(4) a by (auto split: if_splits)
      show "disk_view ?s b = None" if "b \<in> dom v" "deploymentFilename env b \<in> fst ` set xs" for b
        using that view later Cons.prems(5) by auto
      show "mirrors env (dks_files ?s) v" using Cons.prems(6) by simp
    qed
    then obtain s' c' where s': "foldE (load_entry env readable_disk) (?s, c) xs = Inr (s', c')"
        "disk_ready s'" "mirrors env (dks_files s') v"
        "disk_view s' = (\<lambda>b. if b \<in> dom v \<and> deploymentFilename env b \<in> fst ` set xs then v b
                           else ((disk_view s)(a \<mapsto> r)) b)"
      unfolding view by blast
    have "disk_view s' = (\<lambda>b. if b \<in> dom v \<and> deploymentFilename env b \<in> fst ` set (x # xs) then v b
                           else disk_view s b)"
    proof
      fix b
      show "disk_view s' b = (if b \<in> dom v \<and> deploymentFilename env b \<in> fst ` set (x # xs) then v b
                           else disk_view s b)"
        unfolding s'(4) using a x restorable_filename [OF rest, of a b] by (auto simp: domI)
    qed
    then show ?thesis using s' step by auto
  qed
qed

lemma mirrors_entries:
  assumes mir: "mirrors env d v" and x: "x \<in> set d"
  shows "entry_of env v x"
proof -
  obtain name e where ne: "x = (name, e)" by (cases x)
  then have at: "map_of d name = Some e" using mir x by (auto simp: mirrors_def)
  show ?thesis
  proof (cases "isDeploymentTemporaryFile name")
    case True
    then have "is_private e" using mir at filename_not_temporary unfolding mirrors_def by metis
    then show ?thesis using True by (simp add: entry_of_def ne)
  next
    case False
    then obtain a r where a: "v a = Some r" "name = deploymentFilename env a"
      using mir at unfolding mirrors_def by blast
    from mir a(1) obtain bytes where "dep_AgentID r = a" "encodeDiskRecord env r = Inr bytes"
        "map_of d (deploymentFilename env a) = Some (private_file bytes)"
      unfolding mirrors_def by blast
    then show ?thesis using at a unfolding entry_of_def ne by auto
  qed
qed

lemma mirrored_directory_opens:
  assumes mir: "mirrors env d v" and rest: "restorable env v" and rt: "json_round_trip env"
    and path: "trim_space path \<noteq> []"
  shows "\<exists>s. NewDiskStore env readable_disk path d = Inr s \<and> disk_ready s \<and>
    mirrors env (dks_files s) v \<and> disk_view s = v"
proof -
  let ?s = "\<lparr>dks_files = d, dks_records = Map.empty, dks_latest = Map.empty\<rparr>"
  have "distinct (map fst (sort_key fst d))"
    using mir distinct_map [of fst "sort_key fst d"] distinct_map [of fst d] by (auto simp: mirrors_def)
  moreover have "\<forall>x \<in> set (sort_key fst d). entry_of env v x" using mirrors_entries [OF mir] by simp
  moreover have none: "disk_view ?s a = None" for a by (simp add: disk_view_def view_of_def)
  moreover have "disk_ready ?s" by (simp add: disk_ready_def cross_indexed_def)
  moreover have "mirrors env (dks_files ?s) v" using mir by simp
  ultimately have "\<exists>s' c'. foldE (load_entry env readable_disk) (?s, False) (sort_key fst d) = Inr (s', c') \<and>
      disk_ready s' \<and> mirrors env (dks_files s') v \<and>
      disk_view s' = (\<lambda>a. if a \<in> dom v \<and> deploymentFilename env a \<in> fst ` set (sort_key fst d)
                         then v a else disk_view ?s a)"
    by (intro load_entries [OF rt rest]) simp_all
  then obtain s' c' where s': "foldE (load_entry env readable_disk) (?s, False) (sort_key fst d) = Inr (s', c')"
      "disk_ready s'" "mirrors env (dks_files s') v"
      "disk_view s' = (\<lambda>a. if a \<in> dom v \<and> deploymentFilename env a \<in> fst ` set (sort_key fst d)
                         then v a else disk_view ?s a)"
    by blast
  have "fst ` set d = dom (map_of d)" by (simp add: dom_map_of_conv_image_fst)
  then have names: "a \<in> dom v \<Longrightarrow> deploymentFilename env a \<in> fst ` set d" for a
    using mir unfolding mirrors_def by (metis domD domI)
  have "disk_view s' = v"
  proof
    fix a show "disk_view s' a = v a"
      unfolding s'(4) none using names [of a] by (cases "v a") auto
  qed
  then show ?thesis using s' path
    by (simp add: NewDiskStore_def load_def readable_disk_def require_def syncDeploymentDirectory_def)
qed

end
