(* ===== verification/DeploymentCrash.thy ===== *)
theory DeploymentCrash
  imports DeploymentRecovery
begin

text \<open>
  The directories an operation of the store on disk passes through. \<open>persist\<close> only ever shows the
  old or the new record of an Agent, and as long as the directory can be flushed the files and the
  maps of the store agree.
\<close>

section \<open>One write\<close>

definition outcome_mirrors ::
  "deploy_env \<Rightarrow> deploy_view \<Rightarrow> deploy_view \<Rightarrow> unit res \<times> directory list \<Rightarrow> bool" where
  "outcome_mirrors env v v' = (\<lambda>(r, ds).
     ds \<noteq> [] \<and> (\<forall>d \<in> set (butlast ds). mirrors env d v) \<and>
     mirrors env (last ds) (if is_ok r then v' else v))"

lemma outcome_step:
  assumes "mirrors env d v"
    and "case f d of (Inl e, d') \<Rightarrow> mirrors env d' v
         | (Inr _, d') \<Rightarrow> outcome_mirrors env v v' (run_steps fs d')"
  shows "outcome_mirrors env v v' (run_steps (f # fs) d)"
  using assms by (auto simp: outcome_mirrors_def split: sum.splits prod.splits)

lemma outcome_changes:
  assumes "mirrors env d v"
    and "outcome = Inr () \<Longrightarrow> outcome_mirrors env v v' (run_steps fs (f d))"
  shows "outcome_mirrors env v v' (run_steps (changes outcome f # fs) d)"
  using assms by (intro outcome_step) (auto simp: changes_def split: sum.splits)

lemma outcome_checks:
  assumes "mirrors env d v"
    and "f d = Inr () \<Longrightarrow> outcome_mirrors env v v' (run_steps fs d)"
  shows "outcome_mirrors env v v' (run_steps (checks f # fs) d)"
  using assms by (intro outcome_step) (auto simp: checks_def split: sum.splits)

text \<open>The temporary file holds the bytes written so far.\<close>

definition staged :: "deploy_env \<Rightarrow> deploy_view \<Rightarrow> string \<Rightarrow> string \<Rightarrow> directory \<Rightarrow> bool" where
  "staged env v temp bytes d \<longleftrightarrow> mirrors env d v \<and> map_of d temp = Some (private_file bytes)"

lemma staged_append:
  assumes "staged env v temp bytes d" and "isDeploymentTemporaryFile temp"
  shows "staged env v temp (bytes @ extra) (append_bytes temp extra d)"
  using assms mirrors_put_temporary [of env d v temp "private_file (bytes @ extra)"]
  by (simp add: staged_def append_bytes_def private_file_def is_private_def)

lemma outcome_append:
  assumes temp: "isDeploymentTemporaryFile temp" and st: "staged env v temp bytes d"
    and then_do: "\<And>d'. staged env v temp (bytes @ chunk) d' \<Longrightarrow> outcome_mirrors env v v' (run_steps fs d')"
  shows "outcome_mirrors env v v' (run_steps (changes (ok ()) (append_bytes temp chunk) # fs) d)"
  by (rule outcome_changes)
    (use st staged_append [OF st temp] then_do in \<open>auto simp: staged_def\<close>)

lemma outcome_failing:
  "staged env v temp bytes d \<Longrightarrow>
     outcome_mirrors env v v' (run_steps (changes (Inl e) f # fs) d)"
  by (rule outcome_changes) (auto simp: staged_def)

lemma outcome_writeAll:
  assumes "isDeploymentTemporaryFile temp" and "staged env v temp bytes d"
    and "\<And>d'. staged env v temp (bytes @ contents) d' \<Longrightarrow> outcome_mirrors env v v' (run_steps fs d')"
  shows "outcome_mirrors env v v' (run_steps (writeAll temp ws contents @ fs) d)"
  using assms
proof (induction temp ws contents arbitrary: bytes d rule: writeAll.induct)
  case (1 temp contents)
  show ?case
  proof (cases "contents = []")
    case True
    then show ?thesis using 1 by simp
  next
    case False
    then show ?thesis using outcome_append [OF 1(1,2)] 1(3) by simp
  qed
next
  case (2 temp w ws contents)
  show ?case
  proof (cases "contents = []")
    case True
    then show ?thesis using 2 by simp
  next
    case ne: False
    show ?thesis
    proof (cases w)
      case (Inl e)
      then show ?thesis using ne outcome_failing [OF 2(3)] by simp
    next
      case (Inr n)
      show ?thesis
      proof (cases "n = 0")
        case True
        then show ?thesis using ne Inr outcome_failing [OF 2(3)] by simp
      next
        case False
        have "outcome_mirrors env v v' (run_steps (writeAll temp ws (drop n contents) @ fs) d')"
          if "staged env v temp (bytes @ take n contents) d'" for d'
          by (rule 2(1) [OF ne Inr False]) (use that 2 in auto)
        then show ?thesis using ne Inr False outcome_append [OF 2(2,3)] by simp
      qed
    qed
  qed
qed

lemma mirrors_put_record:
  assumes mir: "mirrors env d v" and rest: "restorable env (v(dep_AgentID r \<mapsto> r))"
    and enc: "encodeDiskRecord env r = Inr bytes"
  shows "mirrors env (put_entry (deploymentFilename env (dep_AgentID r)) (private_file bytes) d)
    (v(dep_AgentID r \<mapsto> r))"
proof -
  have other: "deploymentFilename env a \<noteq> deploymentFilename env (dep_AgentID r)"
    if "a \<in> dom v" "a \<noteq> dep_AgentID r" for a
    using restorable_filename [OF rest, of a "dep_AgentID r"] that by auto
  show ?thesis
    unfolding mirrors_def
  proof (intro conjI allI impI)
    show "distinct (map fst (put_entry (deploymentFilename env (dep_AgentID r)) (private_file bytes) d))"
      using mir by (simp add: mirrors_def)
  next
    fix name e
    assume "map_of (put_entry (deploymentFilename env (dep_AgentID r)) (private_file bytes) d) name = Some e"
    then show "isDeploymentTemporaryFile name \<and> is_private e \<or>
        (\<exists>a \<in> dom (v(dep_AgentID r \<mapsto> r)). name = deploymentFilename env a)"
      using mir unfolding mirrors_def by (auto split: if_splits)
  next
    fix a x assume "(v(dep_AgentID r \<mapsto> r)) a = Some x"
    then have x: "a = dep_AgentID r \<and> x = r \<or> a \<noteq> dep_AgentID r \<and> v a = Some x"
      by (auto split: if_splits)
    then show "dep_AgentID x = a" using mir unfolding mirrors_def by auto
    show "\<exists>bytes'. encodeDiskRecord env x = Inr bytes' \<and>
        map_of (put_entry (deploymentFilename env (dep_AgentID r)) (private_file bytes) d)
          (deploymentFilename env a) = Some (private_file bytes')"
      using x enc other [of a] mir unfolding mirrors_def by auto
  qed
qed

lemma outcome_install:
  assumes temp: "isDeploymentTemporaryFile temp"
    and mir: "mirrors env d v" and rest: "restorable env (v(dep_AgentID r \<mapsto> r))"
    and enc: "encodeDiskRecord env r = Inr bytes"
  shows "outcome_mirrors env v (v(dep_AgentID r \<mapsto> r))
    (run_steps (install_steps flt temp (deploymentFilename env (dep_AgentID r)) bytes) d)"
proof -
  let ?name = "deploymentFilename env (dep_AgentID r)" and ?v = "v(dep_AgentID r \<mapsto> r)"
  let ?last = "[changes (dfl_sync flt) (\<lambda>d. d), changes (dfl_close flt) (\<lambda>d. d),
      checks (inspectDeploymentTarget (dfl_reinspect flt) ?name False),
      changes (dfl_replace flt) (rename_entry temp ?name)]"
  have replace: "outcome_mirrors env v ?v (run_steps ?last d')" if st: "staged env v temp bytes d'" for d'
  proof -
    have "temp \<noteq> ?name" using temp filename_not_temporary by auto
    then have "mirrors env (rename_entry temp ?name d') ?v"
      using st mirrors_put_record [OF mirrors_remove_temporary [OF _ temp] rest enc]
      by (simp add: staged_def rename_entry_def)
    then have finished: "outcome_mirrors env v ?v (run_steps [] (rename_entry temp ?name d'))"
      by (simp add: outcome_mirrors_def)
    have m: "mirrors env d' v" using st by (simp add: staged_def)
    show ?thesis by (intro outcome_changes outcome_checks m finished)
  qed
  have start: "staged env v temp [] (put_entry temp (private_file []) d)"
    using mirrors_put_temporary [OF mir temp] by (simp add: staged_def)
  have "outcome_mirrors env v ?v (run_steps (writeAll temp (dfl_writes flt) bytes @ ?last)
      (put_entry temp (private_file []) d))"
    by (rule outcome_writeAll [OF temp start]) (use replace in simp)
  then show ?thesis
    unfolding install_steps_def append.simps
    using mir start by (intro outcome_changes) (auto simp: staged_def)
qed

text \<open>Every directory the disk holds while a record is being written shows the old or the new one.\<close>

lemma persist_mirrors:
  assumes mir: "mirrors env d v" and rest: "restorable env (v(dep_AgentID r \<mapsto> r))"
    and run: "persist env flt r d = (res, ds)"
  shows "ds \<noteq> []" "\<forall>x \<in> set ds. mirrors env x v \<or> mirrors env x (v(dep_AgentID r \<mapsto> r))"
    "res = Inr () \<Longrightarrow> mirrors env (last ds) (v(dep_AgentID r \<mapsto> r))"
    "res \<noteq> Inr () \<Longrightarrow> is_ok (dfl_dirsync flt) \<Longrightarrow> mirrors env (last ds) v"
proof -
  have "ds \<noteq> [] \<and> (\<forall>x \<in> set ds. mirrors env x v \<or> mirrors env x (v(dep_AgentID r \<mapsto> r))) \<and>
    (res = Inr () \<longrightarrow> mirrors env (last ds) (v(dep_AgentID r \<mapsto> r))) \<and>
    (res \<noteq> Inr () \<and> is_ok (dfl_dirsync flt) \<longrightarrow> mirrors env (last ds) v)"
  proof (cases "encodeDiskRecord env r")
    case (Inl e)
    then show ?thesis using run mir by (auto simp: persist_def)
  next
    case enc: (Inr bytes)
    let ?name = "deploymentFilename env (dep_AgentID r)"
    show ?thesis
    proof (cases "inspectDeploymentTarget (dfl_inspect flt) ?name False d")
      case (Inl e)
      then show ?thesis using run mir enc by (auto simp: persist_def)
    next
      case inspected: (Inr u)
      show ?thesis
      proof (cases "free_temporary (dfl_random flt) d")
        case None
        then show ?thesis using run mir enc inspected by (auto simp: persist_def)
      next
        case (Some temp)
        then have temp: "isDeploymentTemporaryFile temp"
          using temporary_is_temporary by (auto simp: free_temporary_def find_Some_iff)
        obtain r' es where es: "run_steps (install_steps flt temp ?name bytes) d = (r', es)" by fastforce
        have out: "es \<noteq> []" "\<forall>x \<in> set (butlast es). mirrors env x v"
          "mirrors env (last es) (if is_ok r' then v(dep_AgentID r \<mapsto> r) else v)"
          using outcome_install [OF temp mir rest enc, of flt] es by (auto simp: outcome_mirrors_def)
        have all: "\<forall>x \<in> set es. mirrors env x v \<or> x = last es"
          using out(1,2) by (metis append_butlast_last_id rotate1.simps(2) set_ConsD set_rotate1)
        show ?thesis
        proof (cases r')
          case (Inl e)
          then have "mirrors env (last es) v" using out(3) by simp
          then show ?thesis
            using run enc inspected Some es Inl all mirrors_remove_temporary [OF _ temp]
            by (auto simp: persist_def)
        next
          case (Inr u)
          then have "mirrors env (last es) (v(dep_AgentID r \<mapsto> r))" using out(3) by simp
          then show ?thesis
            using run enc inspected Some es Inr all out(1)
            by (auto simp: persist_def sync_reply split: if_splits)
        qed
      qed
    qed
  qed
  then show "ds \<noteq> []" "\<forall>x \<in> set ds. mirrors env x v \<or> mirrors env x (v(dep_AgentID r \<mapsto> r))"
    "res = Inr () \<Longrightarrow> mirrors env (last ds) (v(dep_AgentID r \<mapsto> r))"
    "res \<noteq> Inr () \<Longrightarrow> is_ok (dfl_dirsync flt) \<Longrightarrow> mirrors env (last ds) v"
    by auto
qed

section \<open>Whole operations\<close>

fun safe_request :: "string set \<Rightarrow> deploy_request \<Rightarrow> bool" where
  "safe_request A (CreateRequest r) \<longleftrightarrow> dep_AgentID r \<in> A \<and> utf8_record r"
| "safe_request A (TransitionRequest i st dg now) \<longleftrightarrow> clean_text dg"
| "safe_request A _ \<longleftrightarrow> True"

text \<open>The files and the maps of the store agree, for Agents of which no two share a digest.\<close>

definition durable :: "deploy_env \<Rightarrow> string set \<Rightarrow> disk_store \<Rightarrow> bool" where
  "durable env A s \<longleftrightarrow>
     disk_ready s \<and> mirrors env (dks_files s) (disk_view s) \<and> dom (disk_view s) \<subseteq> A \<and>
     (\<forall>a r. disk_view s a = Some r \<longrightarrow> utf8_record r)"

lemma clean_inherit: "utf8_record r \<Longrightarrow> utf8_record p \<Longrightarrow> utf8_record (inheritLastApplied r p)"
  by (simp add: utf8_record_def inheritLastApplied_def)

lemma clean_moved: "utf8_record r \<Longrightarrow> clean_text dg \<Longrightarrow> utf8_record (moved st dg now r)"
  by (simp add: utf8_record_def moved_def setLastApplied_def Let_def)

lemma restorable_put:
  assumes "disk_ready s" and "\<forall>a x. disk_view s a = Some x \<longrightarrow> utf8_record x" and "dom (disk_view s) \<subseteq> A"
    and "inj_on (denv_sha256 env) A" and "dep_AgentID r \<in> A" and "utf8_record r"
    and fresh: "\<And>a x. disk_view s a = Some x \<Longrightarrow> a \<noteq> dep_AgentID r \<Longrightarrow> dep_ID x \<noteq> dep_ID r"
  shows "restorable env ((disk_view s)(dep_AgentID r \<mapsto> r))"
  unfolding restorable_def
proof (intro conjI allI impI)
  show "inj_on (denv_sha256 env) (dom ((disk_view s)(dep_AgentID r \<mapsto> r)))"
    by (rule inj_on_subset [OF assms(4)]) (use assms(3,5) in auto)
  show "utf8_record x" if "((disk_view s)(dep_AgentID r \<mapsto> r)) a = Some x" for a x
    using that assms(2,6) by (auto split: if_splits)
  show "a = b" if "((disk_view s)(dep_AgentID r \<mapsto> r)) a = Some x"
      "((disk_view s)(dep_AgentID r \<mapsto> r)) b = Some y" "dep_ID x = dep_ID y" for a b x y
  proof (rule ccontr)
    assume "a \<noteq> b"
    moreover have "a = b" if "disk_view s a = Some x" "disk_view s b = Some y"
      using indexed_viewD [OF assms(1) [unfolded disk_ready_def]] that \<open>dep_ID x = dep_ID y\<close>
      unfolding disk_view_def by metis
    ultimately show False using that fresh by (auto split: if_splits)
  qed
qed

lemma durable_clean: "durable env A s \<Longrightarrow> dks_records s i = Some r \<Longrightarrow> utf8_record r"
  unfolding durable_def disk_ready_def disk_view_def using indexed_view_at(1) by blast

lemma durable_restorable:
  assumes "durable env A s" and "inj_on (denv_sha256 env) A"
  shows "restorable env (disk_view s)"
proof (cases "disk_view s = Map.empty")
  case True
  then show ?thesis by (simp add: restorable_def)
next
  case False
  then obtain a r where a: "disk_view s a = Some r" by (meson not_Some_eq ext)
  then have r: "dep_AgentID r = a"
    using indexed_viewD(1) assms(1) unfolding durable_def disk_ready_def disk_view_def by metis
  have ids: "dep_ID x \<noteq> dep_ID r" if "disk_view s b = Some x" "b \<noteq> a" for b x
    using that a indexed_viewD assms(1) unfolding durable_def disk_ready_def disk_view_def
    by (metis option.inject)
  have "restorable env ((disk_view s)(dep_AgentID r \<mapsto> r))"
    by (rule restorable_put [where A = A]) (use assms a r ids in \<open>auto simp: durable_def\<close>)
  moreover have "(disk_view s)(dep_AgentID r \<mapsto> r) = disk_view s" using a r by auto
  ultimately show ?thesis by simp
qed

text \<open>One successful or failed write, seen from the store.\<close>

lemma durable_write:
  assumes dur: "durable env A s" and inj: "inj_on (denv_sha256 env) A"
    and r: "dep_AgentID r \<in> A" "utf8_record r"
    and fresh: "\<And>a x. disk_view s a = Some x \<Longrightarrow> a \<noteq> dep_AgentID r \<Longrightarrow> dep_ID x \<noteq> dep_ID r"
    and run: "persist env flt r (dks_files s) = (res, ds)"
    and s': "dks_files s' = last ds" "disk_ready s'"
      "disk_view s' = (if is_ok res then (disk_view s)(dep_AgentID r \<mapsto> r) else disk_view s)"
    and sync: "is_ok (dfl_dirsync flt)"
  shows "durable env A s'"
proof -
  have "restorable env ((disk_view s)(dep_AgentID r \<mapsto> r))"
    by (rule restorable_put [where A = A]) (use dur inj r fresh in \<open>auto simp: durable_def\<close>)
  moreover have "mirrors env (dks_files s) (disk_view s)" using dur by (simp add: durable_def)
  ultimately have "mirrors env (last ds) (disk_view s')"
    using persist_mirrors(3,4) [OF _ _ run] s'(3) sync by (cases res) auto
  then show ?thesis using dur r s' by (auto simp: durable_def split: if_splits)
qed

lemma durable_Create:
  assumes dur: "durable env A s" and inj: "inj_on (denv_sha256 env) A"
    and r: "dep_AgentID r \<in> A" "utf8_record r" and sync: "is_ok (dfl_dirsync flt)"
    and run: "disk_Create env flt r s = (res, s')" and ready: "disk_ready s'"
  shows "durable env A s'"
proof (cases "s' = s")
  case True
  then show ?thesis using dur by simp
next
  case False
  have ix: "cross_indexed (dks_records s) (dks_latest s)" using dur by (simp add: durable_def disk_ready_def)
  define x where "x = (case dks_latest s (dep_AgentID r) of None \<Rightarrow> r
                       | Some p \<Rightarrow> inheritLastApplied r (record_at (dks_records s) p))"
  have same: "dep_ID x = dep_ID r" "dep_AgentID x = dep_AgentID r"
    by (simp_all add: x_def split: option.splits)
  have "utf8_record x"
  proof (cases "dks_latest s (dep_AgentID r)")
    case None
    then show ?thesis using r by (simp add: x_def)
  next
    case (Some p)
    then have "utf8_record (record_at (dks_records s) p)"
      using dur unfolding durable_def disk_view_def view_of_def by (metis option.simps(9))
    then show ?thesis using r Some by (simp add: x_def clean_inherit)
  qed
  obtain res' ds where p: "persist env flt x (dks_files s) = (res', ds)" by fastforce
  have new: "dks_records s (dep_ID r) = None"
    using run False by (auto simp: disk_Create_def split: sum.splits if_splits)
  define m where "m = (case dks_latest s (dep_AgentID x) of None \<Rightarrow> dks_records s
                       | Some q \<Rightarrow> (dks_records s)(q := None))"
  have s': "s' = (if is_ok res' then (saved ds s)\<lparr>dks_records := m(dep_ID x \<mapsto> x),
                     dks_latest := (dks_latest s)(dep_AgentID x \<mapsto> dep_ID x)\<rparr> else saved ds s)"
    using run False p new unfolding disk_Create_def Let_def x_def [symmetric] m_def same
    by (cases res') (auto split: sum.splits if_splits)
  have "disk_view s' = (if is_ok res' then (disk_view s)(dep_AgentID x \<mapsto> x) else disk_view s)"
    using indexed_install(2) [OF ix _ m_def] new same by (simp add: s' disk_view_def)
  moreover have "dks_files s' = last ds" by (simp add: s' saved_def)
  moreover have "dep_ID y \<noteq> dep_ID x" if "disk_view s a = Some y" for a y
    using indexed_fresh_ID [OF ix new] that same by (simp add: disk_view_def)
  ultimately show ?thesis
    using durable_write [OF dur inj _ \<open>utf8_record x\<close> _ p _ ready _ sync] r same by auto
qed

lemma durable_replace:
  assumes dur: "durable env A s" and inj: "inj_on (denv_sha256 env) A"
    and at: "dks_records s i = Some r" and r': "dep_ID r' = dep_ID r" "dep_AgentID r' = dep_AgentID r" "utf8_record r'"
    and sync: "is_ok (dfl_dirsync flt)" and run: "disk_replace env flt i r' s = (res, s')"
  shows "durable env A s'"
proof (cases "validateRecord env r'")
  case (Inl e)
  then show ?thesis using dur run by (auto simp: disk_replace_def)
next
  case (Inr u)
  have ix: "cross_indexed (dks_records s) (dks_latest s)" using dur by (simp add: durable_def disk_ready_def)
  obtain res' ds where p: "persist env flt r' (dks_files s) = (res', ds)" by fastforce
  have s': "s' = (if is_ok res' then (saved ds s)\<lparr>dks_records := (dks_records s)(i \<mapsto> r')\<rparr> else saved ds s)"
    using run p Inr by (auto simp: disk_replace_def split: sum.splits)
  note edit = indexed_edit [OF ix at r'(1,2)]
  have view: "disk_view s' = (if is_ok res' then (disk_view s)(dep_AgentID r' \<mapsto> r') else disk_view s)"
    using edit(2) r' by (simp add: s' disk_view_def)
  have ready: "disk_ready s'" using edit(1) ix by (simp add: s' disk_ready_def)
  have here: "disk_view s (dep_AgentID r) = Some r" "dep_ID r = i"
    using indexed_view_at [OF ix at] by (simp_all add: disk_view_def)
  then have agent: "dep_AgentID r' \<in> A" using dur r' by (auto simp: durable_def)
  have "dep_ID y \<noteq> dep_ID r'" if "disk_view s a = Some y" "a \<noteq> dep_AgentID r'" for a y
    using indexed_viewD [OF ix] indexed_view_at [OF ix at] that r' unfolding disk_view_def
    by (metis option.inject)
  moreover have "dks_files s' = last ds" by (simp add: s' saved_def)
  ultimately show ?thesis
    using durable_write [OF dur inj agent r'(3) _ p _ ready view sync] by blast
qed

lemma durable_Remove:
  assumes dur: "durable env A s" and inj: "inj_on (denv_sha256 env) A"
    and run: "disk_RemoveAgent env flt a s = (res, s')"
  shows "durable env A s'"
proof (cases "s' = s")
  case True
  then show ?thesis using dur by simp
next
  case False
  have ix: "cross_indexed (dks_records s) (dks_latest s)" using dur by (simp add: durable_def disk_ready_def)
  obtain i where i: "dks_latest s a = Some i"
    "s' = s\<lparr>dks_files := remove_entry (deploymentFilename env a) (dks_files s),
           dks_latest := (dks_latest s)(a := None), dks_records := (dks_records s)(i := None)\<rparr>"
    using run False by (auto simp: disk_RemoveAgent_def Let_def split: option.splits sum.splits)
  note gone = indexed_remove [OF ix i(1)]
  have view: "disk_view s' = (disk_view s)(a := None)" "disk_ready s'"
    using gone by (simp_all add: i(2) disk_view_def disk_ready_def)
  have a: "a \<in> dom (disk_view s)" using i(1) by (auto simp: disk_view_def view_of_def)
  have other: "deploymentFilename env b \<noteq> deploymentFilename env a"
    if "b \<in> dom (disk_view s)" "b \<noteq> a" for b
    using restorable_filename [OF durable_restorable [OF dur inj]] that a by blast
  have mir: "mirrors env (dks_files s) (disk_view s)" using dur by (simp add: durable_def)
  have "mirrors env (dks_files s') (disk_view s')"
    unfolding mirrors_def
  proof (intro conjI allI impI)
    show "distinct (map fst (dks_files s'))" using mir by (simp add: i(2) mirrors_def)
  next
    fix name e assume "map_of (dks_files s') name = Some e"
    then have "name \<noteq> deploymentFilename env a" "map_of (dks_files s) name = Some e"
      by (auto simp: i(2) split: if_splits)
    then show "isDeploymentTemporaryFile name \<and> is_private e \<or>
        (\<exists>b \<in> dom (disk_view s'). name = deploymentFilename env b)"
      using mir unfolding mirrors_def view by (metis DiffI dom_fun_upd singletonD)
  next
    fix b x assume "disk_view s' b = Some x"
    then have b: "b \<noteq> a" "disk_view s b = Some x" by (auto simp: view split: if_splits)
    then show "dep_AgentID x = b" using mir unfolding mirrors_def by auto
    show "\<exists>bytes. encodeDiskRecord env x = Inr bytes \<and>
        map_of (dks_files s') (deploymentFilename env b) = Some (private_file bytes)"
      using b other [of b] mir by (auto simp: i(2) mirrors_def)
  qed
  then show ?thesis using dur view by (auto simp: durable_def split: if_splits)
qed

lemma durable_perform:
  assumes dur: "durable env A s" and inj: "inj_on (denv_sha256 env) A" and safe: "safe_request A q"
    and sync: "is_ok (dfl_dirsync flt)" and run: "disk_perform env (flt, q) s = (reply, s')"
  shows "durable env A s'"
proof (cases q)
  case (CreateRequest r)
  have "disk_ready s" using dur by (simp add: durable_def)
  from disk.ready_step [OF this run] have ready: "disk_ready s'" .
  obtain res where "disk_Create env flt r s = (res, s')"
    using run CreateRequest by (auto simp: no_record_def split: prod.splits)
  from durable_Create [OF dur inj _ _ sync this ready] safe CreateRequest show ?thesis by simp
next
  case (RemoveRequest a)
  obtain res where "disk_RemoveAgent env flt a s = (res, s')"
    using run RemoveRequest by (auto simp: no_record_def split: prod.splits)
  from durable_Remove [OF dur inj this] show ?thesis .
next
  case (DigestRequest i d)
  show ?thesis
  proof (cases "s' = s")
    case True
    then show ?thesis using dur by simp
  next
    case False
    obtain r res where r: "dks_records s i = Some r" "disk_replace env flt i (r\<lparr>dep_RenderedSHA256 := d\<rparr>) s = (res, s')"
      using run DigestRequest False
      by (auto simp: with_record_def disk_SetRenderedDigest_def split: prod.splits option.splits if_splits)
    from durable_clean [OF dur r(1)] show ?thesis using durable_replace [OF dur inj r(1) _ _ _ sync r(2)] by (simp add: utf8_record_def)
  qed
next
  case (TransitionRequest i st dg now)
  show ?thesis
  proof (cases "s' = s")
    case True
    then show ?thesis using dur by simp
  next
    case False
    obtain r res where r: "dks_records s i = Some r" "disk_replace env flt i (moved st dg now r) s = (res, s')"
      using run TransitionRequest False
      by (auto simp: with_record_def disk_Transition_def split: prod.splits option.splits if_splits)
    from durable_clean [OF dur r(1)] show ?thesis
      using durable_replace [OF dur inj r(1) _ _ _ sync r(2)] safe TransitionRequest by (simp add: clean_moved)
  qed
qed

lemma durable_run:
  assumes "run_calls (disk_perform env) snd cs s = (trace, s')" and "durable env A s"
    and inj: "inj_on (denv_sha256 env) A"
    and "\<forall>(flt, q) \<in> set cs. safe_request A q \<and> is_ok (dfl_dirsync flt)"
  shows "durable env A s'"
  using assms(1,2,4)
proof (induction cs arbitrary: s trace)
  case Nil
  then show ?case by simp
next
  case (Cons c cs)
  obtain flt q where c: "c = (flt, q)" by (cases c)
  obtain reply t where t: "disk_perform env (flt, q) s = (reply, t)" by fastforce
  obtain tr where tr: "run_calls (disk_perform env) snd cs t = (tr, s')"
    using Cons.prems(1) t c by (auto split: prod.splits)
  have "durable env A t"
    using durable_perform [OF Cons.prems(2) inj _ _ t] Cons.prems(3) c by simp
  then show ?case using Cons.IH [OF tr] Cons.prems(3) by simp
qed

definition empty_disk :: "disk_store" where
  "empty_disk = \<lparr>dks_files = [], dks_records = Map.empty, dks_latest = Map.empty\<rparr>"

lemma empty_disk_facts [simp]:
  "disk_ready empty_disk" "disk_view empty_disk = Map.empty" "durable env A empty_disk"
  by (simp_all add: empty_disk_def disk_ready_def disk_view_def view_of_def cross_indexed_def durable_def
      mirrors_def)

lemma new_disk_store_empty:
  "trim_space path \<noteq> [] \<Longrightarrow> NewDiskStore env readable_disk path [] = Inr empty_disk"
  by (simp add: NewDiskStore_def load_def readable_disk_def require_def empty_disk_def)

end
