(* ===== verification/DeploymentAgreement.thy ===== *)
theory DeploymentAgreement
  imports DeploymentCrash
begin

text \<open>
  The store on disk against the store in memory: while the disk works and every record has a stored
  form, the two answer every request alike.
\<close>

section \<open>Writing to a working disk\<close>

definition tidy :: "directory \<Rightarrow> bool" where
  "tidy d \<longleftrightarrow> (\<forall>name. isDeploymentTemporaryFile name \<longrightarrow> map_of d name = None)"

lemma run_steps_changes:
  "run_steps (changes (Inr u) f # fs) d = (case run_steps fs (f d) of (r, ds) \<Rightarrow> (r, d # ds))"
  by (simp add: changes_def)

lemma run_steps_checks:
  "f d = Inr u \<Longrightarrow> run_steps (checks f # fs) d = (case run_steps fs d of (r, ds) \<Rightarrow> (r, d # ds))"
  by (simp add: checks_def)

lemma inspect_private:
  "map_of d name = None \<or> map_of d name = Some (private_file bytes) \<Longrightarrow>
     inspectDeploymentTarget (ok ()) name False d = Inr ()"
  by (auto simp: inspectDeploymentTarget_def require_def private_file_def)

lemma tidy_installed:
  assumes "tidy d" and "map_of d' = (map_of d)(temp \<mapsto> e)" and "isDeploymentTemporaryFile temp"
    and "\<not> isDeploymentTemporaryFile name"
  shows "tidy (rename_entry temp name d')"
  using assms by (auto simp: tidy_def rename_entry_def)

lemma persist_working:
  assumes enc: "encodeDiskRecord env r = Inr bytes" and tidy: "tidy d"
    and target: "\<And>e. map_of d (deploymentFilename env (dep_AgentID r)) = Some e \<Longrightarrow>
                   \<exists>old. e = private_file old"
  shows "\<exists>ds. persist env working_disk r d = (Inr (), ds) \<and> tidy (last ds) \<and>
    put_entry (temporary_name 0) (private_file []) d \<in> set ds"
proof -
  let ?name = "deploymentFilename env (dep_AgentID r)" and ?temp = "temporary_name 0"
  note temp = temporary_is_temporary [of 0] and name = filename_not_temporary [of env "dep_AgentID r"]
  have differ: "?temp \<noteq> ?name" using temp name by metis
  let ?d1 = "put_entry ?temp (private_file []) d"
  obtain bs where bs: "bytes = bs" "bs \<noteq> []"
    using enc by (auto simp: encodeDiskRecord_def res_simps Let_def)
  let ?d2 = "append_bytes ?temp bs ?d1"
  have d2: "map_of ?d2 = (map_of d)(?temp \<mapsto> private_file bs)"
    by (simp add: append_bytes_def private_file_def)
  have old: "map_of d ?name = None \<or> map_of d ?name = Some (private_file old)"
    if "map_of d ?name \<noteq> None \<longrightarrow> map_of d ?name = Some (private_file old)" for old
    using that by auto
  obtain old where inspect: "map_of d ?name = None \<or> map_of d ?name = Some (private_file old)"
    using target by (cases "map_of d ?name") blast+
  have "inspectDeploymentTarget (ok ()) ?name False d = Inr ()"
    "inspectDeploymentTarget (ok ()) ?name False ?d2 = Inr ()"
    using inspect d2 differ by (auto intro: inspect_private)
  moreover have "free_temporary [0] d = Some ?temp"
    using tidy temp by (simp add: free_temporary_def tidy_def)
  ultimately have "persist env working_disk r d = (Inr (), [d, ?d1, ?d1, ?d2, ?d2, ?d2, ?d2, rename_entry ?temp ?name ?d2])"
    using enc bs
    by (simp add: persist_def working_disk_def install_steps_def run_steps_changes run_steps_checks
        syncDeploymentDirectory_def del: run_steps.simps(2))
  moreover have "tidy (rename_entry ?temp ?name ?d2)"
    by (rule tidy_installed [OF tidy d2 temp name])
  ultimately show ?thesis by simp
qed

section \<open>Agreement\<close>

definition encodable :: "deploy_env \<Rightarrow> records \<Rightarrow> bool" where
  "encodable env m \<longleftrightarrow> (\<forall>i r. m i = Some r \<longrightarrow> is_ok (encodeDiskRecord env r))"

definition agree :: "deploy_env \<Rightarrow> string set \<Rightarrow> memory_store \<Rightarrow> disk_store \<Rightarrow> bool" where
  "agree env A ms s \<longleftrightarrow>
     dks_records s = mms_records ms \<and> dks_latest s = mms_latest ms \<and> durable env A s \<and>
     tidy (dks_files s)"

lemma agree_target:
  assumes dur: "durable env A s" and inj: "inj_on (denv_sha256 env) A" and a: "a \<in> A"
    and at: "map_of (dks_files s) (deploymentFilename env a) = Some e"
  shows "\<exists>old. e = private_file old"
proof -
  obtain b where b: "b \<in> dom (disk_view s)" "deploymentFilename env a = deploymentFilename env b"
    using dur at filename_not_temporary unfolding durable_def mirrors_def by blast
  then have "b \<in> A" using dur by (auto simp: durable_def)
  then have "a = b" using inj a b(2) unfolding filename_inj by (meson inj_onD)
  then obtain r where "disk_view s a = Some r" using b(1) by blast
  then obtain bytes where "map_of (dks_files s) (deploymentFilename env a) = Some (private_file bytes)"
    using dur unfolding durable_def mirrors_def by blast
  with at have "e = private_file bytes" by simp
  then show ?thesis by blast
qed

lemma encodable_at: "encodable env m \<Longrightarrow> m i = Some r \<Longrightarrow> \<exists>bytes. encodeDiskRecord env r = Inr bytes"
  by (auto simp: encodable_def is_ok_iff)

lemma encoded_valid: "encodeDiskRecord env r = Inr bytes \<Longrightarrow> validateRecord env r = Inr ()"
  by (auto simp: encodeDiskRecord_def res_simps)

lemma agree_replace:
  assumes ag: "agree env A ms s" and inj: "inj_on (denv_sha256 env) A"
    and at: "dks_records s i = Some r" and same: "dep_AgentID r' = dep_AgentID r"
    and enc: "encodeDiskRecord env r' = Inr bytes"
  shows "\<exists>ds. disk_replace env working_disk i r' s =
    (Inr r', (saved ds s)\<lparr>dks_records := (dks_records s)(i \<mapsto> r')\<rparr>) \<and> tidy (last ds)"
proof -
  have dur: "durable env A s" using ag by (simp add: agree_def)
  then have ix: "cross_indexed (dks_records s) (dks_latest s)" by (simp add: durable_def disk_ready_def)
  have agent: "dep_AgentID r' \<in> A"
    using indexed_view_at(1) [OF ix at] dur same by (auto simp: durable_def disk_view_def)
  obtain ds where "persist env working_disk r' (dks_files s) = (Inr (), ds)" "tidy (last ds)"
    using persist_working [OF enc] agree_target [OF dur inj agent] ag by (auto simp: agree_def)
  then show ?thesis using encoded_valid [OF enc] by (auto simp: disk_replace_def)
qed

lemma agree_Create:
  assumes ag: "agree env A ms s" and inj: "inj_on (denv_sha256 env) A" and agent: "dep_AgentID r \<in> A"
    and run: "memory_Create env r ms = (res, ms')" and enc: "encodable env (mms_records ms')"
  shows "\<exists>s'. disk_Create env working_disk r s = (res, s') \<and> dks_records s' = mms_records ms' \<and>
    dks_latest s' = mms_latest ms' \<and> tidy (dks_files s')"
proof (cases "validateRecord env r")
  case (Inl e)
  then have "res = Inl e" "ms' = ms" using run by (simp_all add: memory_Create_def)
  then show ?thesis using Inl ag by (simp add: disk_Create_def agree_def)
next
  case valid: (Inr u)
  have maps: "dks_records s = mms_records ms" "dks_latest s = mms_latest ms" "durable env A s"
    "tidy (dks_files s)"
    using ag by (simp_all add: agree_def)
  show ?thesis
  proof (cases "mms_records ms (dep_ID r)")
    case (Some x)
    then show ?thesis using run valid maps by (auto simp: memory_Create_def disk_Create_def)
  next
    case new: None
    define previous where "previous = mms_latest ms (dep_AgentID r)"
    define x where "x = (case previous of None \<Rightarrow> r
                         | Some p \<Rightarrow> inheritLastApplied r (record_at (mms_records ms) p))"
    have same: "dep_AgentID x = dep_AgentID r" "dep_ID x = dep_ID r"
      by (simp_all add: x_def split: option.splits)
    show ?thesis
    proof (cases "case previous of None \<Rightarrow> False
        | Some p \<Rightarrow> deploymentInProgress (dep_Status (record_at (mms_records ms) p))")
      case True
      then show ?thesis using run valid maps new previous_def
        by (auto simp: memory_Create_def disk_Create_def Let_def split: option.splits)
    next
      case idle: False
      define m where "m = (case previous of None \<Rightarrow> mms_records ms | Some p \<Rightarrow> (mms_records ms)(p := None))"
      have ms': "res = Inr ()" "ms' = \<lparr>mms_records = m(dep_ID r \<mapsto> x),
          mms_latest = (mms_latest ms)(dep_AgentID r \<mapsto> dep_ID r)\<rparr>"
        using run valid new idle previous_def x_def m_def
        by (auto simp: memory_Create_def Let_def split: option.splits)
      obtain bytes where bytes: "encodeDiskRecord env x = Inr bytes"
        using encodable_at [OF enc, of "dep_ID r" x] ms' by auto
      obtain ds where ds: "persist env working_disk x (dks_files s) = (Inr (), ds)" "tidy (last ds)"
        using persist_working [OF bytes maps(4)] agree_target [OF maps(3) inj agent] same by auto
      show ?thesis
        unfolding disk_Create_def maps(1,2) Let_def previous_def [symmetric] x_def [symmetric]
          m_def [symmetric]
        using valid new idle ds ms' same by (simp add: saved_def)
    qed
  qed
qed

lemma agree_step:
  assumes ag: "agree env A ms s" and inj: "inj_on (denv_sha256 env) A" and safe: "safe_request A q"
    and run: "memory_perform env q ms = (reply, ms')" and enc: "encodable env (mms_records ms')"
  shows "\<exists>s'. disk_perform env (working_disk, q) s = (reply, s') \<and> agree env A ms' s'"
proof -
  have maps: "dks_records s = mms_records ms" "dks_latest s = mms_latest ms" "tidy (dks_files s)"
    and dur: "durable env A s"
    using ag by (simp_all add: agree_def)
  have "\<exists>s'. disk_perform env (working_disk, q) s = (reply, s') \<and> dks_records s' = mms_records ms' \<and>
    dks_latest s' = mms_latest ms' \<and> tidy (dks_files s')"
  proof (cases q)
    case (CreateRequest r)
    obtain res where res: "memory_Create env r ms = (res, ms')" "reply = bindE res (\<lambda>_. ok None)"
      using run CreateRequest by (auto simp: no_record_def split: prod.splits)
    from agree_Create [OF ag inj _ res(1) enc] safe CreateRequest
    obtain s' where "disk_Create env working_disk r s = (res, s')" "dks_records s' = mms_records ms'"
        "dks_latest s' = mms_latest ms'" "tidy (dks_files s')"
      by auto
    then show ?thesis using CreateRequest res(2) by (auto simp: no_record_def)
  next
    case (DigestRequest i d)
    show ?thesis
    proof (cases "mms_records ms i")
      case None
      then show ?thesis using run DigestRequest maps
        by (auto simp: with_record_def memory_SetRenderedDigest_def disk_SetRenderedDigest_def)
    next
      case at: (Some r)
      show ?thesis
      proof (cases "dep_Status r \<noteq> StatusDeploying \<or> d = 0")
        case True
        then show ?thesis using run DigestRequest maps at
          by (auto simp: with_record_def memory_SetRenderedDigest_def disk_SetRenderedDigest_def
              split: if_splits)
      next
        case False
        let ?r = "r\<lparr>dep_RenderedSHA256 := d\<rparr>"
        have out: "reply = Inr (Some ?r)" "ms' = ms\<lparr>mms_records := (mms_records ms)(i \<mapsto> ?r)\<rparr>"
          using run DigestRequest at False
          by (auto simp: with_record_def memory_SetRenderedDigest_def Let_def)
        obtain bytes where "encodeDiskRecord env ?r = Inr bytes"
          using encodable_at [OF enc, of i ?r] out by auto
        from agree_replace [OF ag inj _ _ this, of i r] at maps show ?thesis
          using DigestRequest False out
          by (auto simp: with_record_def disk_SetRenderedDigest_def saved_def)
      qed
    qed
  next
    case (TransitionRequest i st dg now)
    show ?thesis
    proof (cases "mms_records ms i")
      case None
      then show ?thesis using run TransitionRequest maps
        by (auto simp: with_record_def memory_Transition_def disk_Transition_def)
    next
      case at: (Some r)
      show ?thesis
      proof (cases "\<not> canTransition (dep_Status r) st \<or> now = 0")
        case True
        then show ?thesis using run TransitionRequest maps at
          by (auto simp: with_record_def memory_Transition_def disk_Transition_def split: if_splits)
      next
        case False
        let ?r = "moved st dg now r"
        have out: "reply = Inr (Some ?r)" "ms' = ms\<lparr>mms_records := (mms_records ms)(i \<mapsto> ?r)\<rparr>"
          using run TransitionRequest at False
          by (auto simp: with_record_def memory_Transition_def Let_def)
        obtain bytes where "encodeDiskRecord env ?r = Inr bytes"
          using encodable_at [OF enc, of i ?r] out by auto
        from agree_replace [OF ag inj _ _ this, of i r] at maps show ?thesis
          using TransitionRequest False out
          by (auto simp: with_record_def disk_Transition_def saved_def)
      qed
    qed
  next
    case (RemoveRequest a)
    show ?thesis
    proof (cases "mms_latest ms a")
      case None
      then show ?thesis using run RemoveRequest maps
        by (auto simp: no_record_def memory_RemoveAgent_def disk_RemoveAgent_def)
    next
      case (Some i)
      then obtain r where r: "disk_view s a = Some r" using maps by (auto simp: disk_view_def view_of_def)
      then obtain bytes where
        "map_of (dks_files s) (deploymentFilename env a) = Some (private_file bytes)"
        using dur unfolding durable_def mirrors_def by blast
      then have "inspectDeploymentTarget (dfl_inspect working_disk) (deploymentFilename env a) True (dks_files s) = Inr ()"
        by (simp add: inspectDeploymentTarget_def working_disk_def require_def private_file_def)
      then show ?thesis using run RemoveRequest maps Some
        by (auto simp: no_record_def memory_RemoveAgent_def disk_RemoveAgent_def Let_def
            working_disk_def syncDeploymentDirectory_def tidy_def)
    qed
  qed
  then obtain s' where s': "disk_perform env (working_disk, q) s = (reply, s')"
      "dks_records s' = mms_records ms'" "dks_latest s' = mms_latest ms'" "tidy (dks_files s')"
    by blast
  moreover have "durable env A s'"
    by (rule durable_perform [OF dur inj safe _ s'(1)]) (simp add: working_disk_def)
  ultimately show ?thesis by (auto simp: agree_def)
qed

text \<open>Every store the requests pass through has records that can be written.\<close>

fun all_encodable :: "deploy_env \<Rightarrow> deploy_request list \<Rightarrow> memory_store \<Rightarrow> bool" where
  "all_encodable env [] ms \<longleftrightarrow> True"
| "all_encodable env (q # qs) ms \<longleftrightarrow>
     encodable env (mms_records (snd (memory_perform env q ms))) \<and>
     all_encodable env qs (snd (memory_perform env q ms))"

lemma agree_run:
  assumes "run_calls (memory_perform env) (\<lambda>q. q) qs ms = (trace, ms')"
    and "agree env A ms s" and inj: "inj_on (denv_sha256 env) A"
    and "\<forall>q \<in> set qs. safe_request A q" and "all_encodable env qs ms"
  shows "\<exists>s'. run_calls (disk_perform env) snd (map (Pair working_disk) qs) s = (trace, s') \<and>
    agree env A ms' s'"
  using assms(1,2,4,5)
proof (induction qs arbitrary: ms s trace)
  case Nil
  then show ?case by simp
next
  case (Cons q qs)
  obtain reply mt where mt: "memory_perform env q ms = (reply, mt)" by fastforce
  obtain tr where tr: "run_calls (memory_perform env) (\<lambda>q. q) qs mt = (tr, ms')" "trace = (q, reply) # tr"
    using Cons.prems(1) mt by (auto split: prod.splits)
  have "encodable env (mms_records mt)" "all_encodable env qs mt" using Cons.prems(4) mt by simp_all
  moreover obtain t where t: "disk_perform env (working_disk, q) s = (reply, t)" "agree env A mt t"
    using agree_step [OF Cons.prems(2) inj _ mt calculation(1)] Cons.prems(3) by auto
  ultimately show ?case using Cons.IH [OF tr(1) t(2)] Cons.prems(3) tr(2) t(1) by auto
qed

lemma agree_empty: "agree env A NewMemoryStore empty_disk"
  by (simp add: agree_def) (simp add: empty_disk_def NewMemoryStore_def tidy_def)

lemma indexed_unique:
  assumes "cross_indexed m l" and "cross_indexed m' l'" and v: "view_of m l = view_of m' l'"
  shows "m = m' \<and> l = l'"
proof
  have within: "a i = Some r \<Longrightarrow> b i = Some r"
    if "cross_indexed a k" "cross_indexed b k'" "view_of a k = view_of b k'" for a b k k' i r
    using indexed_view_at [OF that(1)] indexed_viewD [OF that(2)] that(3) by metis
  show "m = m'"
  proof
    fix i show "m i = m' i"
      using within [OF assms(1,2) v, of i] within [OF assms(2,1) v [symmetric], of i]
      by (cases "m i"; cases "m' i") auto
  qed
  show "l = l'"
  proof
    fix a
    have "l a = map_option dep_ID (view_of m l a)" if "cross_indexed m l" for m l
      using that by (cases "l a") (auto simp: view_of_def elim: indexed_latestE)
    then show "l a = l' a" using assms by metis
  qed
qed

end
