(* ===== verification/DeploymentClaims.thy ===== *)
theory DeploymentClaims
  imports DeploymentAgreement
begin

text \<open>
  The properties of the deployment stores, with the small history on which they are applied: two
  deployments of one Agent, the first of which is confirmed and the second fails.
\<close>

section \<open>A sample history\<close>

text \<open>An environment whose JSON codec knows a fixed list of documents.\<close>

definition table_env :: "disk_record list \<Rightarrow> deploy_env" where
  "table_env docs =
     \<lparr>denv_sha256 = (\<lambda>s. of_nat (Suc (length s))), denv_json_valid = (\<lambda>_. True),
      denv_marshal =
        (\<lambda>d. map_option (\<lambda>i. replicate (Suc i) CHR ''x'') (index_func (\<lambda>x. x = d) docs)),
      denv_decode =
        (\<lambda>s. if 2 \<le> length s \<and> length s < length docs + 2 then Some (docs ! (length s - 2)) else None)\<rparr>"

lemma table_env_round_trip: "json_round_trip (table_env docs)"
  by (auto simp: json_round_trip_def table_env_def dest: index_func_SomeD)

definition draft :: "string \<Rightarrow> string \<Rightarrow> deployment" where
  "draft i config =
     zero_deployment\<lparr>dep_ID := i, dep_AgentID := ''a'', dep_RevisionID := i, dep_ConfigJSON := config,
       dep_ConfigSHA256 := of_nat (Suc (length config)), dep_Status := StatusQueued,
       dep_CreatedAt := 10, dep_UpdatedAt := 10\<rparr>"

definition sample_requests :: "deploy_request list" where
  "sample_requests =
     [CreateRequest (draft ''d1'' ''1''), TransitionRequest ''d1'' StatusDeploying [] 11,
      DigestRequest ''d1'' 7, TransitionRequest ''d1'' StatusApplied [] 12,
      CreateRequest (draft ''d2'' ''22''), TransitionRequest ''d2'' StatusDeploying [] 13,
      TransitionRequest ''d2'' StatusActivationFailed ''x'' 14]"

definition sample_documents :: "disk_record list" where
  "sample_documents =
     (let r1 = draft ''d1'' ''1''; r2 = moved StatusDeploying [] 11 r1;
          r3 = r2\<lparr>dep_RenderedSHA256 := 7\<rparr>; r4 = moved StatusApplied [] 12 r3;
          r5 = inheritLastApplied (draft ''d2'' ''22'') r4; r6 = moved StatusDeploying [] 13 r5;
          r7 = moved StatusActivationFailed ''x'' 14 r6
      in map stored_record [r1, r2, r3, r4, r5, r6, r7])"

definition sample_deploy_env :: deploy_env where
  "sample_deploy_env = table_env sample_documents"

definition sample_calls :: "(disk_faults \<times> deploy_request) list" where
  "sample_calls = map (Pair working_disk) sample_requests"

lemma small_trims:
  "trim_space ''d1'' = ''d1''" "trim_space ''d2'' = ''d2''" "trim_space ''a'' = ''a''"
  by (simp_all add: trim_space_alnum is_alnum_def is_lower_def is_digit_def)

lemmas sample_record_simps = sample_requests_def draft_def zero_deployment_def
  no_record_def with_record_def memory_Create_def memory_Transition_def memory_SetRenderedDigest_def
  validateRecord_def validateConfig_def validate_last_applied_def require_def table_env_def small_trims
  MaxConfigBytes_def NewMemoryStore_def moved_def setLastApplied_def RenderedDigest_def
  inheritLastApplied_def is_confirmed_def

lemma sample_memory_history:
  "confirmed_by (fst (run_calls (memory_perform sample_deploy_env) (\<lambda>q. q) sample_requests NewMemoryStore)) ''a'' =
     Some (''1'', 7, ''d1'')"
  by (simp add: sample_record_simps confirmed_by_def Let_def sample_deploy_env_def)

lemma sample_encodable: "all_encodable sample_deploy_env sample_requests NewMemoryStore"
  unfolding sample_deploy_env_def
  by (simp add: sample_record_simps Let_def encodable_def encodeDiskRecord_def from_option_def
      maxPersistedDeploymentBytes_def sample_documents_def stored_record_def encode_digest_inj)

lemma sample_inj: "inj_on (denv_sha256 sample_deploy_env) {''a''}"
  by simp

lemma sample_safe: "\<forall>q \<in> set sample_requests. safe_request {''a''} q"
  by (simp add: sample_requests_def draft_def utf8_record_def zero_deployment_def)
    (simp add: clean_text_def runes_def)

lemma sample_calls_safe:
  "\<forall>(flt, q) \<in> set sample_calls. safe_request {''a''} q \<and> is_ok (dfl_dirsync flt)"
  using sample_safe by (auto simp: sample_calls_def working_disk_def)

lemma sample_calls_fresh: "\<forall>c \<in> set sample_calls. fresh_request (snd c)"
  by (simp add: sample_calls_def sample_requests_def draft_def zero_deployment_def)

lemma sample_disk_history:
  "confirmed_by (fst (run_calls (disk_perform sample_deploy_env) snd sample_calls empty_disk)) ''a'' =
     Some (''1'', 7, ''d1'')"
proof -
  obtain trace ms where run: "run_calls (memory_perform sample_deploy_env) (\<lambda>q. q) sample_requests NewMemoryStore = (trace, ms)"
    by fastforce
  have "fst (run_calls (disk_perform sample_deploy_env) snd sample_calls empty_disk) = trace"
    using agree_run [OF run agree_empty sample_inj sample_safe sample_encodable]
    by (auto simp: sample_calls_def)
  then show ?thesis using sample_memory_history run by simp
qed

section \<open>Properties\<close>

lemma disk_LatestForAgent_view: "disk_LatestForAgent s a = from_option ErrNotFound (disk_view s a)"
  by (cases "dks_latest s a") (simp_all add: disk_LatestForAgent_def disk_view_def view_of_def from_option_def)

lemma memory_LatestForAgent_view: "memory_LatestForAgent s a = from_option ErrNotFound (memory_view s a)"
  by (cases "mms_latest s a") (simp_all add: memory_LatestForAgent_def memory_view_def view_of_def from_option_def)

lemma memory_store_reports_confirmed:
  assumes "run_calls (memory_perform env) (\<lambda>q. q) qs NewMemoryStore = (trace, s)"
    and "\<forall>q \<in> set qs. fresh_request q"
  shows "case memory_LatestForAgent s a of
           Inl _ \<Rightarrow> confirmed_by trace a = None
         | Inr r \<Rightarrow> reported env r = confirmed_by trace a"
  using memory.reports_last_confirmed [OF assms(1), of a] assms(2)
  by (cases "memory_view s a") (auto simp: memory_LatestForAgent_view from_option_def)

text \<open>C26: Whatever requests the store on disk has served and however its system calls failed,
  \<open>AppliedConfiguration\<close> and \<open>AppliedRevisionID\<close> of the record it returns for an Agent give the
  configuration, digest and revision the Agent confirmed last: a candidate that was queued, refused
  or failed never takes its place, and nothing is reported before the first confirmation or after
  the Agent was removed.
\<close>

theorem disk_store_reports_confirmed:
  assumes "run_calls (disk_perform env) snd cs empty_disk = (trace, s)"
    and "\<forall>c \<in> set cs. fresh_request (snd c)"
  shows "case disk_LatestForAgent s a of
           Inl _ \<Rightarrow> confirmed_by trace a = None
         | Inr r \<Rightarrow> reported env r = confirmed_by trace a"
  using disk.reports_last_confirmed [OF assms(1), of a] assms(2)
  by (cases "disk_view s a") (auto simp: disk_LatestForAgent_view from_option_def)

lemma disk_store_reports_confirmed_witness:
  "(case disk_LatestForAgent (snd (run_calls (disk_perform sample_deploy_env) snd sample_calls empty_disk)) ''a'' of
      Inl _ \<Rightarrow> False
    | Inr r \<Rightarrow> reported sample_deploy_env r = Some (''1'', 7, ''d1''))"
  using disk_store_reports_confirmed [OF prod.collapse [symmetric] sample_calls_fresh, of sample_deploy_env "''a''"]
    sample_disk_history
  by (simp split: sum.splits)

text \<open>C29: While the disk works and every record can be written, the store on disk answers every request
  exactly as the store in memory does and ends with the same records.
\<close>

theorem working_disk_answers_as_memory:
  assumes "run_calls (memory_perform env) (\<lambda>q. q) qs NewMemoryStore = (trace, ms)"
    and "inj_on (denv_sha256 env) A" and "\<forall>q \<in> set qs. safe_request A q"
    and "all_encodable env qs NewMemoryStore"
  shows "\<exists>s. run_calls (disk_perform env) snd (map (Pair working_disk) qs) empty_disk = (trace, s) \<and>
    (\<forall>i. disk_Get s i = memory_Get ms i) \<and>
    (\<forall>a. disk_LatestForAgent s a = memory_LatestForAgent ms a) \<and> disk_List s = memory_List ms"
  using agree_run [OF assms(1) agree_empty assms(2-4)]
  by (auto simp: agree_def disk_Get_def memory_Get_def disk_LatestForAgent_def memory_LatestForAgent_def
      disk_List_def memory_List_def)

lemma working_disk_answers_as_memory_witness:
  "\<exists>s. run_calls (disk_perform sample_deploy_env) snd (map (Pair working_disk) sample_requests) empty_disk =
      (fst (run_calls (memory_perform sample_deploy_env) (\<lambda>q. q) sample_requests NewMemoryStore), s) \<and>
    disk_List s = memory_List (snd (run_calls (memory_perform sample_deploy_env) (\<lambda>q. q) sample_requests NewMemoryStore))"
  using working_disk_answers_as_memory [OF prod.collapse [symmetric] sample_inj sample_safe sample_encodable]
  by blast

text \<open>C28: Opening the directory of a store again gives back exactly its records, after any requests and
  any failures of system calls other than flushing the directory, provided SHA-256 has no collision
  among the Agents and the strings are UTF-8.
\<close>

theorem reopened_store_is_unchanged:
  assumes run: "run_calls (disk_perform env) snd cs empty_disk = (trace, s)"
    and inj: "inj_on (denv_sha256 env) A" and json: "json_round_trip env"
    and safe: "\<forall>(flt, q) \<in> set cs. safe_request A q \<and> is_ok (dfl_dirsync flt)"
    and path: "trim_space path \<noteq> []"
  shows "\<exists>s'. NewDiskStore env readable_disk path (dks_files s) = Inr s' \<and>
    dks_records s' = dks_records s \<and> dks_latest s' = dks_latest s"
proof -
  have dur: "durable env A s" by (rule durable_run [OF run _ inj safe]) simp
  then have mir: "mirrors env (dks_files s) (disk_view s)" "disk_ready s" by (simp_all add: durable_def)
  obtain s' where s': "NewDiskStore env readable_disk path (dks_files s) = Inr s'" "disk_ready s'"
      "disk_view s' = disk_view s"
    using mirrored_directory_opens [OF mir(1) durable_restorable [OF dur inj] json path] by blast
  have "dks_records s' = dks_records s \<and> dks_latest s' = dks_latest s"
    using indexed_unique s'(2,3) mir(2) by (simp add: disk_ready_def disk_view_def)
  then show ?thesis using s'(1) by blast
qed

lemma sample_path: "trim_space ''a'' \<noteq> []"
  by (simp add: small_trims)

lemma reopened_store_is_unchanged_witness:
  "\<exists>s'. NewDiskStore sample_deploy_env readable_disk ''a''
      (dks_files (snd (run_calls (disk_perform sample_deploy_env) snd sample_calls empty_disk))) = Inr s' \<and>
    dks_records s' = dks_records (snd (run_calls (disk_perform sample_deploy_env) snd sample_calls empty_disk)) \<and>
    dks_latest s' = dks_latest (snd (run_calls (disk_perform sample_deploy_env) snd sample_calls empty_disk))"
  by (rule reopened_store_is_unchanged [OF prod.collapse [symmetric] sample_inj _ sample_calls_safe sample_path])
    (simp add: sample_deploy_env_def table_env_round_trip)

text \<open>C27: Writing a record is atomic. Whichever system call of \<open>persist\<close> is the last one that takes effect,
  a store opened on what the disk then holds shows every other Agent unchanged and for the Agent
  of the record either the old or the new one.
\<close>

theorem interrupted_write_is_atomic:
  assumes run: "run_calls (disk_perform env) snd cs empty_disk = (trace, s)"
    and inj: "inj_on (denv_sha256 env) A" and json: "json_round_trip env"
    and safe: "\<forall>(flt, q) \<in> set cs. safe_request A q \<and> is_ok (dfl_dirsync flt)"
    and path: "trim_space path \<noteq> []" and r: "dep_AgentID r \<in> A" "utf8_record r"
    and fresh: "\<And>a x. disk_view s a = Some x \<Longrightarrow> a \<noteq> dep_AgentID r \<Longrightarrow> dep_ID x \<noteq> dep_ID r"
    and d: "d \<in> set (snd (persist env flt r (dks_files s)))"
  shows "\<exists>s'. NewDiskStore env readable_disk path d = Inr s' \<and> disk_ready s' \<and>
    (disk_view s' = disk_view s \<or> disk_view s' = (disk_view s)(dep_AgentID r \<mapsto> r))"
proof -
  have dur: "durable env A s" by (rule durable_run [OF run _ inj safe]) simp
  have new: "restorable env ((disk_view s)(dep_AgentID r \<mapsto> r))"
    by (rule restorable_put [OF _ _ _ inj r fresh]) (use dur in \<open>auto simp: durable_def\<close>)
  have "mirrors env (dks_files s) (disk_view s)" using dur by (simp add: durable_def)
  from persist_mirrors(2) [OF this new prod.collapse [symmetric], of flt] d
  have "mirrors env d (disk_view s) \<or> mirrors env d ((disk_view s)(dep_AgentID r \<mapsto> r))" by blast
  then show ?thesis
    using mirrored_directory_opens [OF _ durable_restorable [OF dur inj] json path]
      mirrored_directory_opens [OF _ new json path] by blast
qed

lemma interrupted_write_is_atomic_witness:
  "\<exists>s'. NewDiskStore sample_deploy_env readable_disk ''a''
      (put_entry (temporary_name 0) (private_file []) []) = Inr s' \<and> disk_ready s' \<and>
    (disk_view s' = Map.empty \<or> disk_view s' = [''a'' \<mapsto> draft ''d1'' ''1''])"
proof -
  let ?d = "put_entry (temporary_name 0) (private_file []) []"
  have run: "run_calls (disk_perform sample_deploy_env) snd [] empty_disk = ([], empty_disk)" by simp
  have r: "dep_AgentID (draft ''d1'' ''1'') = ''a''" "utf8_record (draft ''d1'' ''1'')"
    using sample_safe by (simp_all add: sample_requests_def draft_def)
  have "encodable sample_deploy_env [''d1'' \<mapsto> draft ''d1'' ''1'']"
    using sample_encodable r by (simp add: sample_record_simps Let_def sample_deploy_env_def)
  then obtain bytes where "encodeDiskRecord sample_deploy_env (draft ''d1'' ''1'') = Inr bytes"
    using encodable_at by fastforce
  then have "?d \<in> set (snd (persist sample_deploy_env working_disk (draft ''d1'' ''1'') (dks_files empty_disk)))"
    using persist_working [of sample_deploy_env "draft ''d1'' ''1''" bytes "[]"]
    by (auto simp: empty_disk_def tidy_def)
  then have "\<exists>s'. NewDiskStore sample_deploy_env readable_disk ''a'' ?d = Inr s' \<and> disk_ready s' \<and>
      (disk_view s' = disk_view empty_disk \<or>
       disk_view s' = (disk_view empty_disk)(dep_AgentID (draft ''d1'' ''1'') \<mapsto> draft ''d1'' ''1''))"
    by (intro interrupted_write_is_atomic [OF run sample_inj])
      (use r sample_path in \<open>simp_all add: sample_deploy_env_def table_env_round_trip\<close>)
  then show ?thesis using r by simp
qed

text \<open>C30: The store on disk refuses to record anything while the clock reads a time before the creation of
  the deployment: a deployment in progress then stays in progress whatever its Agent reports, and
  no other deployment of that Agent is accepted.
\<close>

theorem clock_behind_creation_blocks:
  assumes "dks_records s i = Some r" and "now < dep_CreatedAt r"
    and "deploymentInProgress (dep_Status r)" and "dks_latest s (dep_AgentID r) = Some i"
    and "dep_AgentID r' = dep_AgentID r"
  shows "disk_Transition env flt i st dg now s =
      (Inl (if \<not> canTransition (dep_Status r) st then ErrInvalidTransition
            else if now = 0 then ErrOther ''transition time is required'' else ErrInvalidRecord), s) \<and>
    (\<exists>e. disk_Create env flt' r' s = (Inl e, s))"
proof
  have "dep_UpdatedAt (moved st dg now r) < dep_CreatedAt (moved st dg now r)"
    using assms(2) by (simp add: moved_def setLastApplied_def Let_def)
  then have "validateRecord env (moved st dg now r) = Inl ErrInvalidRecord"
    by (simp add: validateRecord_def require_def)
  then show "disk_Transition env flt i st dg now s =
      (Inl (if \<not> canTransition (dep_Status r) st then ErrInvalidTransition
            else if now = 0 then ErrOther ''transition time is required'' else ErrInvalidRecord), s)"
    using assms(1) by (simp add: disk_Transition_def disk_replace_def)
  show "\<exists>e. disk_Create env flt' r' s = (Inl e, s)"
    using assms by (cases "validateRecord env r'") (simp_all add: disk_Create_def)
qed

definition early_store :: disk_store where
  "early_store = \<lparr>dks_files = [], dks_records = [''d1'' \<mapsto> draft ''d1'' ''1''], dks_latest = [''a'' \<mapsto> ''d1'']\<rparr>"

lemma clock_behind_creation_blocks_witness:
  "disk_Transition sample_deploy_env working_disk ''d1'' StatusDeliveryFailed [] 9 early_store =
     (Inl ErrInvalidRecord, early_store)"
  using clock_behind_creation_blocks [of early_store "''d1''" "draft ''d1'' ''1''" 9 "draft ''d2'' ''1''"
      sample_deploy_env working_disk StatusDeliveryFailed "[]" working_disk]
  by (simp add: early_store_def draft_def)

end
