(* ===== verification/Netip.thy ===== *)
theory Netip
  imports Text
begin

text \<open>
  The part of Go's \<open>net/netip\<close> the node pool relies on: parsing an address with its value, the
  canonical text of an address, its classification, and prefixes. \<open>Text\<close> has the same parsers where
  only their success matters.

  An IPv6 address keeps its zone; an IPv4-mapped IPv6 address is an IPv6 address. As in the library
  of Go 1.26 the predicates on addresses look through the mapping while \<open>Prefix.Contains\<close> does not.
\<close>

section \<open>Addresses\<close>

datatype addr = AddrV4 "32 word" | AddrV6 "nat list" string

text \<open>An IPv6 address is its eight groups of sixteen bits; the zone is empty when there is none.\<close>

definition valid_addr :: "addr \<Rightarrow> bool" where
  "valid_addr a =
     (case a of AddrV4 _ \<Rightarrow> True
      | AddrV6 gs zone \<Rightarrow> length gs = 8 \<and> list_all (\<lambda>g. g < 65536) gs)"

fun addr_Is4 :: "addr \<Rightarrow> bool" where
  "addr_Is4 (AddrV4 _) = True"
| "addr_Is4 (AddrV6 _ _) = False"

fun addr_Is4In6 :: "addr \<Rightarrow> bool" where
  "addr_Is4In6 (AddrV4 _) = False"
| "addr_Is4In6 (AddrV6 gs _) = (take 6 gs = [0, 0, 0, 0, 0, 0xFFFF])"

definition low_word :: "nat list \<Rightarrow> 32 word" where
  "low_word gs = of_nat (gs ! 6 * 65536 + gs ! 7)"

fun addr_Unmap :: "addr \<Rightarrow> addr" where
  "addr_Unmap (AddrV4 w) = AddrV4 w"
| "addr_Unmap (AddrV6 gs zone) =
     (if addr_Is4In6 (AddrV6 gs zone) then AddrV4 (low_word gs) else AddrV6 gs zone)"

section \<open>Parsing\<close>

definition ipv4_value :: "string \<Rightarrow> nat option" where
  "ipv4_value s =
     (if parse_ipv4 s
      then Some (foldl (\<lambda>acc f. acc * 256 + the (digits_value 0 f)) 0 (split_on (CHR ''.'') s))
      else None)"

definition hex_char_value :: "char \<Rightarrow> nat" where
  "hex_char_value c =
     (if is_digit c then of_char c - 48
      else if CHR ''a'' \<le> c \<and> c \<le> CHR ''f'' then of_char c - 87 else of_char c - 55)"

definition group_value :: "string \<Rightarrow> nat" where
  "group_value h = foldl (\<lambda>acc c. acc * 16 + hex_char_value c) 0 h"

text \<open>
  The group loop of \<open>parseIPv6\<close>: the groups read so far, the position of the ellipsis and the rest
  of the text; the result is the groups and the position.
\<close>

function v6_loop :: "nat list \<Rightarrow> nat option \<Rightarrow> string \<Rightarrow> (nat list \<times> nat option) option" where
  "v6_loop acc ell s =
     (if 8 \<le> length acc then (if s = [] then Some (acc, ell) else None)
      else
        let h = takeWhile is_hex s; r = dropWhile is_hex s in
        if h = [] \<or> length h > 4 then None
        else if r \<noteq> [] \<and> hd r = CHR ''.'' then
          (if (ell = None \<and> length acc \<noteq> 6) \<or> length acc > 6 then None
           else case ipv4_value s of
                  None \<Rightarrow> None
                | Some v \<Rightarrow> Some (acc @ [v div 65536, v mod 65536], ell))
        else
          let acc = acc @ [group_value h] in
          if r = [] then Some (acc, ell)
          else if hd r \<noteq> CHR '':'' \<or> length r = 1 then None
          else if hd (tl r) = CHR '':'' then
            (if ell \<noteq> None then None
             else if tl (tl r) = [] then Some (acc, Some (length acc))
             else v6_loop acc (Some (length acc)) (tl (tl r)))
          else v6_loop acc ell (tl r))"
  by pat_completeness auto
termination
  by (relation "measure (\<lambda>(acc, ell, s). 8 - length acc)") auto

declare v6_loop.simps [simp del]

text \<open>The end of \<open>parseIPv6\<close>: an ellipsis stands for at least one group.\<close>

fun expand_groups :: "(nat list \<times> nat option) option \<Rightarrow> nat list option" where
  "expand_groups None = None"
| "expand_groups (Some (acc, ell)) =
     (if length acc < 8 then
        (case ell of
           None \<Rightarrow> None
         | Some i \<Rightarrow> Some (take i acc @ replicate (8 - length acc) 0 @ drop i acc))
      else if ell = None then Some acc else None)"

definition parseIPv6 :: "string \<Rightarrow> addr option" where
  "parseIPv6 s =
     (let body = takeWhile (\<lambda>c. c \<noteq> CHR ''%'') s;
          rest = dropWhile (\<lambda>c. c \<noteq> CHR ''%'') s;
          zone = tl rest in
      if rest \<noteq> [] \<and> zone = [] then None
      else if has_prefix ''::'' body then
        (if drop 2 body = [] then Some (AddrV6 (replicate 8 0) zone)
         else map_option (\<lambda>gs. AddrV6 gs zone) (expand_groups (v6_loop [] (Some 0) (drop 2 body))))
      else map_option (\<lambda>gs. AddrV6 gs zone) (expand_groups (v6_loop [] None body)))"

definition ParseAddr :: "string \<Rightarrow> addr option" where
  "ParseAddr s =
     (case find (\<lambda>c. c \<in> set ''.:%'') s of
        None \<Rightarrow> None
      | Some c \<Rightarrow>
          if c = CHR ''.'' then map_option (\<lambda>v. AddrV4 (of_nat v)) (ipv4_value s)
          else if c = CHR '':'' then parseIPv6 s
          else None)"

section \<open>Canonical text\<close>

definition hex_text :: "nat \<Rightarrow> char" where
  "hex_text d = (if d < 10 then char_of (48 + d) else char_of (87 + d))"

fun show_hex :: "nat \<Rightarrow> string" where
  "show_hex n = (if n < 16 then [hex_text n] else show_hex (n div 16) @ [hex_text (n mod 16)])"

declare show_hex.simps [simp del]

fun joined :: "string \<Rightarrow> string list \<Rightarrow> string" where
  "joined sep [] = []"
| "joined sep [x] = x"
| "joined sep (x # y # xs) = x @ sep @ joined sep (y # xs)"

definition string4 :: "32 word \<Rightarrow> string" where
  "string4 w =
     (let n = unat w in
      joined ''.'' (map show_nat [n div 16777216, n div 65536 mod 256, n div 256 mod 256, n mod 256]))"

text \<open>The longest run of at least two zero groups, the first of several: start and length.\<close>

definition zero_run :: "nat list \<Rightarrow> nat \<Rightarrow> nat" where
  "zero_run gs i = length (takeWhile (\<lambda>g. g = 0) (drop i gs))"

definition zero_span :: "nat list \<Rightarrow> (nat \<times> nat) option" where
  "zero_span gs =
     foldl (\<lambda>best i.
         let l = zero_run gs i in
         if 2 \<le> l \<and> l > (case best of None \<Rightarrow> 0 | Some (_, m) \<Rightarrow> m) then Some (i, l) else best)
       None [0..<length gs]"

definition groups_text :: "nat list \<Rightarrow> string" where
  "groups_text gs = joined '':'' (map show_hex gs)"

definition string6 :: "nat list \<Rightarrow> string" where
  "string6 gs =
     (case zero_span gs of
        None \<Rightarrow> groups_text gs
      | Some (i, l) \<Rightarrow> groups_text (take i gs) @ ''::'' @ groups_text (drop (i + l) gs))"

definition zone_text :: "string \<Rightarrow> string" where
  "zone_text zone = (if zone = [] then [] else CHR ''%'' # zone)"

fun addr_String :: "addr \<Rightarrow> string" where
  "addr_String (AddrV4 w) = string4 w"
| "addr_String (AddrV6 gs zone) =
     (if addr_Is4In6 (AddrV6 gs zone) then ''::ffff:'' @ string4 (low_word gs) else string6 gs) @
     zone_text zone"

section \<open>Classification\<close>

text \<open>\<open>Prefix.Contains\<close> for an IPv4 prefix: no IPv6 address is in it, not even a mapped one.\<close>

fun prefix4_contains :: "32 word \<Rightarrow> nat \<Rightarrow> addr \<Rightarrow> bool" where
  "prefix4_contains p bits (AddrV4 w) \<longleftrightarrow> drop_bit (32 - bits) w = drop_bit (32 - bits) p"
| "prefix4_contains p bits (AddrV6 _ _) \<longleftrightarrow> False"

definition v4 :: "nat \<Rightarrow> nat \<Rightarrow> nat \<Rightarrow> nat \<Rightarrow> 32 word" where
  "v4 a b c d = of_nat (((a * 256 + b) * 256 + c) * 256 + d)"

definition addr_IsLoopback :: "addr \<Rightarrow> bool" where
  "addr_IsLoopback a =
     (case addr_Unmap a of
        AddrV4 w \<Rightarrow> drop_bit 24 w = 127
      | AddrV6 gs _ \<Rightarrow> gs = [0, 0, 0, 0, 0, 0, 0, 1])"

definition addr_IsMulticast :: "addr \<Rightarrow> bool" where
  "addr_IsMulticast a =
     (case addr_Unmap a of
        AddrV4 w \<Rightarrow> drop_bit 28 w = 14
      | AddrV6 gs _ \<Rightarrow> hd gs div 256 = 0xFF)"

definition addr_IsLinkLocalUnicast :: "addr \<Rightarrow> bool" where
  "addr_IsLinkLocalUnicast a =
     (case addr_Unmap a of
        AddrV4 w \<Rightarrow> drop_bit 16 w = 169 * 256 + 254
      | AddrV6 gs _ \<Rightarrow> hd gs div 64 = 0xFE80 div 64)"

definition addr_IsPrivate :: "addr \<Rightarrow> bool" where
  "addr_IsPrivate a =
     (case addr_Unmap a of
        AddrV4 w \<Rightarrow> drop_bit 24 w = 10 \<or> drop_bit 20 w = 172 * 16 + 1 \<or> drop_bit 16 w = 192 * 256 + 168
      | AddrV6 gs _ \<Rightarrow> hd gs div 512 = 0xFC00 div 512)"

text \<open>\<open>ip != IPv6Unspecified()\<close> compares the zone too.\<close>

definition addr_IsGlobalUnicast :: "addr \<Rightarrow> bool" where
  "addr_IsGlobalUnicast a \<longleftrightarrow>
     (case addr_Unmap a of
        AddrV4 w \<Rightarrow> w \<noteq> 0 \<and> w \<noteq> - 1
      | AddrV6 gs zone \<Rightarrow> \<not> (gs = replicate 8 0 \<and> zone = [])) \<and>
     \<not> addr_IsLoopback a \<and> \<not> addr_IsMulticast a \<and> \<not> addr_IsLinkLocalUnicast a"

end
