(* ===== verification/Pool.thy ===== *)
theory Pool
  imports Compiler Netip DeploymentDisk
begin

text \<open>
  The registry of \<open>internal/pool/registry.go\<close>: manual outbounds, the addresses under which each
  Agent can be reached, and the render marks. Every mutation persists the whole registry and takes
  its change back when that fails.

  The JSON document of the registry and the type of a manual outbound are parameters (\<open>pool_env\<close>),
  as is \<open>strings.ToLower\<close> beyond ASCII. The file is its bytes and whether it is a regular file; the
  lock makes operations sequential.
\<close>

section \<open>Data\<close>

record disk_manual =
  dmn_Name :: string
  dmn_Remark :: string
  dmn_Outbound :: string
  dmn_CreatedAt :: time
  dmn_UpdatedAt :: time

record disk_agent =
  dag_ReportedV4 :: "string list"
  dag_ReportedV6 :: "string list"
  dag_ObservedAddress :: string
  dag_ProbedV4 :: "string list"
  dag_ProbedV6 :: "string list"
  dag_AddressOverride :: string
  dag_AddressOverrideV4 :: string
  dag_AddressOverrideV6 :: string
  dag_DefaultTLSAddress :: string
  dag_SubscriptionDomainV4 :: string
  dag_SubscriptionDomainV6 :: string
  dag_UpdatedAt :: time

record disk_render =
  drn_PoolVersion :: u64
  drn_ConfigSHA256 :: string

record disk_registry =
  drg_Version :: int
  drg_PoolVersion :: u64
  drg_Manual :: "disk_manual list"
  drg_Agents :: "string \<rightharpoonup> disk_agent"
  drg_Rendered :: "string \<rightharpoonup> disk_render"

record pool_env =
  penv_outbound_type :: "string \<Rightarrow> string option"
  penv_to_lower :: "string \<Rightarrow> string"
  penv_marshal :: "disk_registry \<Rightarrow> string option"
  penv_decode :: "string \<Rightarrow> disk_registry option"

record manual_record =
  man_remark :: string
  man_outbound :: string
  man_createdAt :: time
  man_updatedAt :: time

record agent_record =
  agt_reportedV4 :: "string list"
  agt_reportedV6 :: "string list"
  agt_observed :: string
  agt_probedV4 :: "string list"
  agt_probedV6 :: "string list"
  agt_overrideV4 :: string
  agt_overrideV6 :: string
  agt_subscriptionDomainV4 :: string
  agt_subscriptionDomainV6 :: string
  agt_updatedAt :: time

record rendered_record =
  ren_poolVersion :: u64
  ren_configSHA :: digest

record pool_file =
  pfi_regular :: bool
  pfi_bytes :: string

record registry =
  reg_poolVersion :: u64
  reg_manual :: "string \<rightharpoonup> manual_record"
  reg_agents :: "string \<rightharpoonup> agent_record"
  reg_rendered :: "string \<rightharpoonup> rendered_record"
  reg_file :: "pool_file option"

definition zero_agent :: agent_record where
  "zero_agent =
     \<lparr>agt_reportedV4 = [], agt_reportedV6 = [], agt_observed = [], agt_probedV4 = [],
      agt_probedV6 = [], agt_overrideV4 = [], agt_overrideV6 = [], agt_subscriptionDomainV4 = [],
      agt_subscriptionDomainV6 = [], agt_updatedAt = 0\<rparr>"

definition agent_at :: "registry \<Rightarrow> string \<Rightarrow> agent_record" where
  "agent_at r i = (case reg_agents r i of None \<Rightarrow> zero_agent | Some a \<Rightarrow> a)"

definition empty_registry :: "pool_file option \<Rightarrow> registry" where
  "empty_registry file =
     \<lparr>reg_poolVersion = 0, reg_manual = Map.empty, reg_agents = Map.empty, reg_rendered = Map.empty,
      reg_file = file\<rparr>"

datatype address_source = SourceOverride | SourceObserved | SourceProbed | SourceReported

definition MaxRegistryFileBytes :: nat where
  "MaxRegistryFileBytes = 4 * 2 ^ 20"

definition MaxManualOutboundBytes :: nat where
  "MaxManualOutboundBytes = 64 * 2 ^ 10"

definition MaxAddressesPerFamily :: nat where
  "MaxAddressesPerFamily = 8"

definition diskRegistryVersion :: int where
  "diskRegistryVersion = 1"

definition ErrInvalidName :: error where
  "ErrInvalidName = ErrOther ''pool: invalid name''"

definition ErrInvalidOutbound :: error where
  "ErrInvalidOutbound = ErrOther ''pool: invalid manual outbound''"

definition ErrInvalidRemark :: error where
  "ErrInvalidRemark = ErrOther ''pool: invalid manual remark''"

definition ErrManualNotFound :: error where
  "ErrManualNotFound = ErrOther ''pool: manual outbound not found''"

definition ErrInvalidAddress :: error where
  "ErrInvalidAddress = ErrOther ''pool: invalid address''"

definition ErrInvalidDomain :: error where
  "ErrInvalidDomain = ErrOther ''pool: invalid subscription domain''"

section \<open>Addresses and names\<close>

definition validComponent :: "string \<Rightarrow> bool" where
  "validComponent = name_pattern ''._-'' 127"

definition cgnatPrefix :: "addr \<Rightarrow> bool" where
  "cgnatPrefix = prefix4_contains (v4 100 64 0 0) 10"

definition reserved240Prefix :: "addr \<Rightarrow> bool" where
  "reserved240Prefix = prefix4_contains (v4 240 0 0 0) 4"

definition globallyRoutable :: "addr \<Rightarrow> bool" where
  "globallyRoutable a \<longleftrightarrow>
     addr_IsGlobalUnicast a \<and> \<not> addr_IsPrivate a \<and> \<not> cgnatPrefix a \<and> \<not> reserved240Prefix a"

text \<open>A failed parse, unreachable for stored addresses, yields \<open>FamilyAuto\<close>.\<close>

definition addressFamily :: "string \<Rightarrow> family" where
  "addressFamily s =
     (case ParseAddr s of
        None \<Rightarrow> FamilyAuto
      | Some a \<Rightarrow> if addr_Is4 a then FamilyIPv4 else FamilyIPv6)"

definition normalize_address :: "bool \<Rightarrow> string list \<Rightarrow> string \<Rightarrow> string list res" where
  "normalize_address want4 acc s =
     (case ParseAddr (trim_space s) of
        None \<Rightarrow> fail ErrInvalidAddress
      | Some a \<Rightarrow>
          if addr_Is4 a \<noteq> want4 then fail ErrInvalidAddress
          else if \<not> globallyRoutable a then ok acc
          else ok (acc @ [addr_String a]))"

definition normalizeAddresses :: "string list \<Rightarrow> bool \<Rightarrow> string list res" where
  "normalizeAddresses addresses want4 =
     bindE (require (length addresses \<le> MaxAddressesPerFamily) ErrInvalidAddress) (\<lambda>_.
     foldE (normalize_address want4) [] addresses)"

definition normalizeOverride :: "string \<Rightarrow> family \<Rightarrow> string res" where
  "normalizeOverride s fam =
     (let s = trim_space s in
      if s = [] then ok []
      else case ParseAddr s of
             None \<Rightarrow> fail ErrInvalidAddress
           | Some a \<Rightarrow>
               if \<not> globallyRoutable a \<or> addressFamily (addr_String a) \<noteq> fam
               then fail ErrInvalidAddress else ok (addr_String a))"

definition normalizeDiskOverride :: "string \<Rightarrow> family \<Rightarrow> string res" where
  "normalizeDiskOverride s fam =
     (let s = trim_space s in
      if s = [] then ok []
      else case ParseAddr s of
             None \<Rightarrow> fail (ErrOther ''pool: registry contains an invalid address override'')
           | Some a \<Rightarrow>
               if addressFamily (addr_String a) \<noteq> fam
               then fail (ErrOther ''pool: registry contains an invalid address override'')
               else if \<not> globallyRoutable a then ok [] else ok (addr_String a))"

definition to_lower :: "pool_env \<Rightarrow> string \<Rightarrow> string" where
  "to_lower env s =
     (if list_all (\<lambda>c. of_char c < (128 :: nat)) s then map ascii_lower s else penv_to_lower env s)"

definition domain_byte :: "char \<Rightarrow> bool" where
  "domain_byte c \<longleftrightarrow> is_lower c \<or> is_digit c \<or> c = CHR ''-''"

definition domain_label :: "string \<Rightarrow> bool" where
  "domain_label l \<longleftrightarrow>
     l \<noteq> [] \<and> length l \<le> 63 \<and> hd l \<noteq> CHR ''-'' \<and> last l \<noteq> CHR ''-'' \<and> list_all domain_byte l"

definition NormalizeSubscriptionDomain :: "pool_env \<Rightarrow> string \<Rightarrow> string res" where
  "NormalizeSubscriptionDomain env value =
     (let v = to_lower env (trim_space value);
          v = (if v \<noteq> [] \<and> last v = CHR ''.'' then butlast v else v)
      in if v = [] then ok []
         else if length v > 253 \<or> contains_any (CHR 0x5C # '':/[]*@'') v then fail ErrInvalidDomain
         else if ParseAddr v \<noteq> None then fail ErrInvalidDomain
         else if length (split_on (CHR ''.'') v) < 2 then fail ErrInvalidDomain
         else if list_all domain_label (split_on (CHR ''.'') v) then ok v
         else fail ErrInvalidDomain)"

definition NormalizeTLSAddress :: "pool_env \<Rightarrow> string \<Rightarrow> string res" where
  "NormalizeTLSAddress env value =
     wrapE (ErrOther ''pool: invalid TLS address'') (NormalizeSubscriptionDomain env value)"

definition validateManualOutbound :: "pool_env \<Rightarrow> string \<Rightarrow> string res" where
  "validateManualOutbound env outbound =
     (if outbound = [] \<or> length outbound > MaxManualOutboundBytes then fail ErrInvalidOutbound
      else case penv_outbound_type env outbound of
             None \<Rightarrow> fail ErrInvalidOutbound
           | Some t \<Rightarrow> if t = [] then fail ErrInvalidOutbound else ok outbound)"

section \<open>Resolution\<close>

definition resolve_family :: "agent_record \<Rightarrow> family \<Rightarrow> (string \<times> address_source) option" where
  "resolve_family r fam =
     (let override = (if fam = FamilyIPv6 then agt_overrideV6 r else agt_overrideV4 r);
          probed = (if fam = FamilyIPv6 then agt_probedV6 r else agt_probedV4 r);
          reported = (if fam = FamilyIPv6 then agt_reportedV6 r else agt_reportedV4 r)
      in if override \<noteq> [] then Some (override, SourceOverride)
         else if agt_observed r \<noteq> [] \<and> addressFamily (agt_observed r) = fam
         then Some (agt_observed r, SourceObserved)
         else if probed \<noteq> [] then Some (hd probed, SourceProbed)
         else if reported \<noteq> [] then Some (hd reported, SourceReported)
         else None)"

definition resolveForFamily :: "agent_record \<Rightarrow> family \<Rightarrow> (string \<times> address_source) option" where
  "resolveForFamily r fam =
     (if fam = FamilyAuto then
        (case resolve_family r FamilyIPv4 of
           Some x \<Rightarrow> Some x
         | None \<Rightarrow> resolve_family r FamilyIPv6)
      else resolve_family r fam)"

definition AddressSourceForFamily :: "registry \<Rightarrow> string \<Rightarrow> family \<Rightarrow> (string \<times> address_source) option" where
  "AddressSourceForFamily r i fam =
     (case reg_agents r i of None \<Rightarrow> None | Some a \<Rightarrow> resolveForFamily a fam)"

definition AgentAddressForFamily :: "registry \<Rightarrow> resolver" where
  "AgentAddressForFamily r i fam = map_option fst (AddressSourceForFamily r i fam)"

definition AgentAddress :: "registry \<Rightarrow> string \<Rightarrow> string option" where
  "AgentAddress r i = AgentAddressForFamily r i FamilyAuto"

section \<open>Persistence\<close>

definition store_manual :: "string \<Rightarrow> manual_record \<Rightarrow> disk_manual" where
  "store_manual name m =
     \<lparr>dmn_Name = name, dmn_Remark = man_remark m, dmn_Outbound = man_outbound m,
      dmn_CreatedAt = man_createdAt m, dmn_UpdatedAt = man_updatedAt m\<rparr>"

definition store_agent :: "agent_record \<Rightarrow> disk_agent" where
  "store_agent a =
     \<lparr>dag_ReportedV4 = agt_reportedV4 a, dag_ReportedV6 = agt_reportedV6 a,
      dag_ObservedAddress = agt_observed a, dag_ProbedV4 = agt_probedV4 a,
      dag_ProbedV6 = agt_probedV6 a, dag_AddressOverride = [],
      dag_AddressOverrideV4 = agt_overrideV4 a, dag_AddressOverrideV6 = agt_overrideV6 a,
      dag_DefaultTLSAddress = [], dag_SubscriptionDomainV4 = agt_subscriptionDomainV4 a,
      dag_SubscriptionDomainV6 = agt_subscriptionDomainV6 a, dag_UpdatedAt = agt_updatedAt a\<rparr>"

definition store_rendered :: "rendered_record \<Rightarrow> disk_render" where
  "store_rendered x =
     \<lparr>drn_PoolVersion = ren_poolVersion x, drn_ConfigSHA256 = encode_digest (ren_configSHA x)\<rparr>"

definition manual_names :: "registry \<Rightarrow> string list" where
  "manual_names r = sorted_list_of_set (dom (reg_manual r))"

definition stored_registry :: "registry \<Rightarrow> disk_registry" where
  "stored_registry r =
     \<lparr>drg_Version = diskRegistryVersion, drg_PoolVersion = reg_poolVersion r,
      drg_Manual = map (\<lambda>name. store_manual name (the (reg_manual r name))) (manual_names r),
      drg_Agents = map_option store_agent \<circ> reg_agents r,
      drg_Rendered = map_option store_rendered \<circ> reg_rendered r\<rparr>"

definition marshalLocked :: "pool_env \<Rightarrow> registry \<Rightarrow> string res" where
  "marshalLocked env r =
     bindE (from_option (ErrOther ''pool: encode registry'') (penv_marshal env (stored_registry r)))
       (\<lambda>encoded. ok (encoded @ [CHR 0x0A]))"

text \<open>
  The outcomes of the system calls of \<open>persistLocked\<close>: everything up to the rename, the rename, and
  the flush of the directory, which \<open>replaceFile\<close> does after the rename.
\<close>

record pool_faults =
  pfl_write :: "unit res"
  pfl_rename :: "unit res"
  pfl_dirsync :: "unit res"

definition pool_persistLocked :: "pool_env \<Rightarrow> pool_faults \<Rightarrow> registry \<Rightarrow> unit res \<times> pool_file option" where
  "pool_persistLocked env flt r =
     (case marshalLocked env r of
        Inl e \<Rightarrow> (Inl e, reg_file r)
      | Inr encoded \<Rightarrow>
          (case bindE (pfl_write flt) (\<lambda>_. pfl_rename flt) of
             Inl e \<Rightarrow> (Inl e, reg_file r)
           | Inr _ \<Rightarrow> (pfl_dirsync flt, Some \<lparr>pfi_regular = True, pfi_bytes = encoded\<rparr>)))"

definition pool_MigrationSnapshot :: "pool_env \<Rightarrow> registry \<Rightarrow> string res" where
  "pool_MigrationSnapshot env r = marshalLocked env r"

text \<open>The end of every mutation: the changed registry, or the previous one when it was not persisted.\<close>

definition commit :: "pool_env \<Rightarrow> pool_faults \<Rightarrow> registry \<Rightarrow> registry \<Rightarrow> unit res \<times> registry" where
  "commit env flt old new =
     (case pool_persistLocked env flt new of
        (Inl e, file) \<Rightarrow> (Inl e, old\<lparr>reg_file := file\<rparr>)
      | (Inr _, file) \<Rightarrow> (Inr (), new\<lparr>reg_file := file\<rparr>))"

definition bumped :: "registry \<Rightarrow> registry" where
  "bumped r = r\<lparr>reg_poolVersion := reg_poolVersion r + 1\<rparr>"

text \<open>The readings of the clock of one operation; only a new manual entry reads it twice.\<close>

record pool_call =
  pcl_now :: time
  pcl_later :: time
  pcl_faults :: pool_faults

section \<open>Manual outbounds\<close>

definition UpsertManualWithRemark ::
  "pool_env \<Rightarrow> pool_call \<Rightarrow> string \<Rightarrow> string \<Rightarrow> string \<Rightarrow> registry \<Rightarrow> unit res \<times> registry" where
  "UpsertManualWithRemark env c name remark outbound r =
     (let remark = trim_space remark in
      if \<not> validComponent name then (Inl ErrInvalidName, r)
      else if length remark > 256 then (Inl ErrInvalidRemark, r)
      else case validateManualOutbound env outbound of
             Inl e \<Rightarrow> (Inl e, r)
           | Inr outbound \<Rightarrow>
               let created = (case reg_manual r name of None \<Rightarrow> pcl_now c | Some m \<Rightarrow> man_createdAt m);
                   m = \<lparr>man_remark = remark, man_outbound = outbound, man_createdAt = created,
                        man_updatedAt = pcl_later c\<rparr>
               in commit env (pcl_faults c) r (bumped (r\<lparr>reg_manual := (reg_manual r)(name \<mapsto> m)\<rparr>)))"

definition UpsertManual ::
  "pool_env \<Rightarrow> pool_call \<Rightarrow> string \<Rightarrow> string \<Rightarrow> registry \<Rightarrow> unit res \<times> registry" where
  "UpsertManual env c name outbound r = UpsertManualWithRemark env c name [] outbound r"

definition RemoveManual :: "pool_env \<Rightarrow> pool_call \<Rightarrow> string \<Rightarrow> registry \<Rightarrow> unit res \<times> registry" where
  "RemoveManual env c name r =
     (case reg_manual r name of
        None \<Rightarrow> (Inl ErrManualNotFound, r)
      | Some _ \<Rightarrow> commit env (pcl_faults c) r (bumped (r\<lparr>reg_manual := (reg_manual r)(name := None)\<rparr>)))"

definition ManualByName :: "registry \<Rightarrow> string \<Rightarrow> (string \<times> manual_record) option" where
  "ManualByName r name = map_option (Pair name) (reg_manual r name)"

definition Manual :: "registry \<Rightarrow> (string \<times> manual_record) list" where
  "Manual r = map (\<lambda>name. (name, the (reg_manual r name))) (manual_names r)"

text \<open>An empty map is one without entries.\<close>

definition DiscardLegacyConfiguration :: "pool_env \<Rightarrow> pool_call \<Rightarrow> registry \<Rightarrow> unit res \<times> registry" where
  "DiscardLegacyConfiguration env c r =
     (if dom (reg_manual r) = {} \<and> dom (reg_rendered r) = {} then (Inr (), r)
      else commit env (pcl_faults c) r
             (bumped (r\<lparr>reg_manual := Map.empty, reg_rendered := Map.empty\<rparr>)))"

section \<open>Addresses of an Agent\<close>

definition put_agent :: "string \<Rightarrow> agent_record \<Rightarrow> registry \<Rightarrow> registry" where
  "put_agent i a r = r\<lparr>reg_agents := (reg_agents r)(i \<mapsto> a)\<rparr>"

definition changed_reply :: "unit res \<times> registry \<Rightarrow> bool res \<times> registry" where
  "changed_reply = (\<lambda>(res, r). (bindE res (\<lambda>_. ok True), r))"

definition SetReported ::
  "pool_env \<Rightarrow> pool_call \<Rightarrow> string \<Rightarrow> string list \<Rightarrow> string list \<Rightarrow> registry \<Rightarrow> bool res \<times> registry" where
  "SetReported env c i addresses4 addresses6 r =
     (if \<not> validComponent i then (Inl ErrInvalidName, r)
      else case bindE (normalizeAddresses addresses4 True) (\<lambda>n4.
                bindE (normalizeAddresses addresses6 False) (\<lambda>n6. ok (n4, n6))) of
             Inl e \<Rightarrow> (Inl e, r)
           | Inr (n4, n6) \<Rightarrow>
               let a = agent_at r i;
                   existed = (reg_agents r i \<noteq> None);
                   probed4 = (if n4 \<noteq> [] then [] else agt_probedV4 a);
                   probed6 = (if n6 \<noteq> [] then [] else agt_probedV6 a)
               in if existed \<and> agt_reportedV4 a = n4 \<and> agt_reportedV6 a = n6 \<and>
                     agt_probedV4 a = probed4 \<and> agt_probedV6 a = probed6
                  then (Inr False, r)
                  else if \<not> existed \<and> n4 = [] \<and> n6 = [] then (Inr False, r)
                  else changed_reply (commit env (pcl_faults c) r (bumped (put_agent i
                         (a\<lparr>agt_reportedV4 := n4, agt_reportedV6 := n6, agt_probedV4 := probed4,
                            agt_probedV6 := probed6, agt_updatedAt := pcl_now c\<rparr>) r))))"

definition SetProbed ::
  "pool_env \<Rightarrow> pool_call \<Rightarrow> string \<Rightarrow> string list \<Rightarrow> string list \<Rightarrow> registry \<Rightarrow> bool res \<times> registry" where
  "SetProbed env c i addresses4 addresses6 r =
     (if \<not> validComponent i then (Inl ErrInvalidName, r)
      else case bindE (normalizeAddresses addresses4 True) (\<lambda>n4.
                bindE (normalizeAddresses addresses6 False) (\<lambda>n6. ok (n4, n6))) of
             Inl e \<Rightarrow> (Inl e, r)
           | Inr (n4, n6) \<Rightarrow>
               let a = agent_at r i;
                   existed = (reg_agents r i \<noteq> None);
                   n4 = (if agt_reportedV4 a \<noteq> [] then [] else n4);
                   n6 = (if agt_reportedV6 a \<noteq> [] then [] else n6)
               in if existed \<and> agt_probedV4 a = n4 \<and> agt_probedV6 a = n6 then (Inr False, r)
                  else if \<not> existed \<and> n4 = [] \<and> n6 = [] then (Inr False, r)
                  else changed_reply (commit env (pcl_faults c) r (bumped (put_agent i
                         (a\<lparr>agt_probedV4 := n4, agt_probedV6 := n6, agt_updatedAt := pcl_now c\<rparr>) r))))"

text \<open>The outcome \<open>Inr None\<close> of the first step is an address that is ignored.\<close>

definition observed_address :: "string \<Rightarrow> string option res" where
  "observed_address s =
     (let s = trim_space s in
      if s = [] then ok (Some [])
      else case ParseAddr s of
             None \<Rightarrow> fail ErrInvalidAddress
           | Some a \<Rightarrow> if \<not> globallyRoutable a then ok None else ok (Some (addr_String a)))"

definition SetObserved ::
  "pool_env \<Rightarrow> pool_call \<Rightarrow> string \<Rightarrow> string \<Rightarrow> registry \<Rightarrow> bool res \<times> registry" where
  "SetObserved env c i address r =
     (if \<not> validComponent i then (Inl ErrInvalidName, r)
      else case observed_address address of
             Inl e \<Rightarrow> (Inl e, r)
           | Inr None \<Rightarrow> (Inr False, r)
           | Inr (Some address) \<Rightarrow>
               let a = agent_at r i; existed = (reg_agents r i \<noteq> None)
               in if existed \<and> agt_observed a = address then (Inr False, r)
                  else if \<not> existed \<and> address = [] then (Inr False, r)
                  else changed_reply (commit env (pcl_faults c) r (bumped (put_agent i
                         (a\<lparr>agt_observed := address, agt_updatedAt := pcl_now c\<rparr>) r))))"

definition SetOverrides ::
  "pool_env \<Rightarrow> pool_call \<Rightarrow> string \<Rightarrow> string \<Rightarrow> string \<Rightarrow> registry \<Rightarrow> unit res \<times> registry" where
  "SetOverrides env c i address4 address6 r =
     (if \<not> validComponent i then (Inl ErrInvalidName, r)
      else case bindE (normalizeOverride address4 FamilyIPv4) (\<lambda>n4.
                bindE (normalizeOverride address6 FamilyIPv6) (\<lambda>n6. ok (n4, n6))) of
             Inl e \<Rightarrow> (Inl e, r)
           | Inr (n4, n6) \<Rightarrow>
               let a = agent_at r i; existed = (reg_agents r i \<noteq> None)
               in if existed \<and> agt_overrideV4 a = n4 \<and> agt_overrideV6 a = n6 then (Inr (), r)
                  else if \<not> existed \<and> n4 = [] \<and> n6 = [] then (Inr (), r)
                  else commit env (pcl_faults c) r (bumped (put_agent i
                         (a\<lparr>agt_overrideV4 := n4, agt_overrideV6 := n6, agt_updatedAt := pcl_now c\<rparr>) r)))"

definition SetOverride ::
  "pool_env \<Rightarrow> pool_call \<Rightarrow> string \<Rightarrow> string \<Rightarrow> registry \<Rightarrow> unit res \<times> registry" where
  "SetOverride env c i address r =
     (let address = trim_space address in
      if address = [] then SetOverrides env c i [] [] r
      else case ParseAddr address of
             None \<Rightarrow> (Inl ErrInvalidAddress, r)
           | Some a \<Rightarrow>
               if \<not> globallyRoutable a then (Inl ErrInvalidAddress, r)
               else if addr_Is4 a then SetOverrides env c i (addr_String a) [] r
               else SetOverrides env c i [] (addr_String a) r)"

definition Overrides :: "registry \<Rightarrow> string \<Rightarrow> string \<times> string" where
  "Overrides r i = (agt_overrideV4 (agent_at r i), agt_overrideV6 (agent_at r i))"

definition no_address :: "agent_record \<Rightarrow> bool" where
  "no_address a \<longleftrightarrow>
     agt_reportedV4 a = [] \<and> agt_reportedV6 a = [] \<and> agt_observed a = [] \<and> agt_probedV4 a = [] \<and>
     agt_probedV6 a = [] \<and> agt_overrideV4 a = [] \<and> agt_overrideV6 a = []"

definition SetSubscriptionDomains ::
  "pool_env \<Rightarrow> pool_call \<Rightarrow> string \<Rightarrow> string \<Rightarrow> string \<Rightarrow> registry \<Rightarrow> unit res \<times> registry" where
  "SetSubscriptionDomains env c i domain4 domain6 r =
     (if \<not> validComponent i then (Inl ErrInvalidName, r)
      else case bindE (NormalizeSubscriptionDomain env domain4) (\<lambda>n4.
                bindE (NormalizeSubscriptionDomain env domain6) (\<lambda>n6. ok (n4, n6))) of
             Inl e \<Rightarrow> (Inl e, r)
           | Inr (n4, n6) \<Rightarrow>
               let a = agent_at r i; existed = (reg_agents r i \<noteq> None)
               in if existed \<and> agt_subscriptionDomainV4 a = n4 \<and> agt_subscriptionDomainV6 a = n6
                  then (Inr (), r)
                  else if \<not> existed \<and> n4 = [] \<and> n6 = [] then (Inr (), r)
                  else
                    let a = a\<lparr>agt_subscriptionDomainV4 := n4, agt_subscriptionDomainV6 := n6,
                              agt_updatedAt := pcl_now c\<rparr>
                    in commit env (pcl_faults c) r
                         (if n4 = [] \<and> n6 = [] \<and> no_address a
                          then r\<lparr>reg_agents := (reg_agents r)(i := None)\<rparr> else put_agent i a r))"

definition SubscriptionDomains :: "registry \<Rightarrow> string \<Rightarrow> string \<times> string" where
  "SubscriptionDomains r i =
     (agt_subscriptionDomainV4 (agent_at r i), agt_subscriptionDomainV6 (agent_at r i))"

fun SubscriptionDomainForFamily :: "registry \<Rightarrow> string \<Rightarrow> family \<Rightarrow> string" where
  "SubscriptionDomainForFamily r i FamilyIPv4 = fst (SubscriptionDomains r i)"
| "SubscriptionDomainForFamily r i FamilyIPv6 = snd (SubscriptionDomains r i)"
| "SubscriptionDomainForFamily r i FamilyAuto = []"

section \<open>Render marks and removal\<close>

definition MarkRendered ::
  "pool_env \<Rightarrow> pool_call \<Rightarrow> string \<Rightarrow> u64 \<Rightarrow> digest \<Rightarrow> registry \<Rightarrow> unit res \<times> registry" where
  "MarkRendered env c i version sha r =
     (if \<not> validComponent i then (Inl ErrInvalidName, r)
      else commit env (pcl_faults c) r
             (r\<lparr>reg_rendered := (reg_rendered r)(i \<mapsto> \<lparr>ren_poolVersion = version, ren_configSHA = sha\<rparr>)\<rparr>))"

definition RenderedVersion :: "registry \<Rightarrow> string \<Rightarrow> (u64 \<times> digest) option" where
  "RenderedVersion r i = map_option (\<lambda>x. (ren_poolVersion x, ren_configSHA x)) (reg_rendered r i)"

definition pool_RemoveAgent :: "pool_env \<Rightarrow> pool_call \<Rightarrow> string \<Rightarrow> registry \<Rightarrow> unit res \<times> registry" where
  "pool_RemoveAgent env c i r =
     (if reg_agents r i = None \<and> reg_rendered r i = None then (Inr (), r)
      else commit env (pcl_faults c) r
             (bumped (r\<lparr>reg_agents := (reg_agents r)(i := None),
                        reg_rendered := (reg_rendered r)(i := None)\<rparr>)))"

section \<open>Raw outbounds in the document\<close>

text \<open>
  A manual outbound is a \<open>json.RawMessage\<close>: \<open>json.MarshalIndent\<close> first writes it compactly, escaping
  the bytes HTML gives a meaning to, and then indents it at its depth in the document, three. This is
  the text \<open>Open\<close> finds.
\<close>

fun compact_json :: "bool \<Rightarrow> bool \<Rightarrow> string \<Rightarrow> string" where
  "compact_json quoted escaped [] = []"
| "compact_json quoted escaped (c # s) =
     (if c = CHR ''<'' then CHR 0x5C # ''u003c'' @ compact_json quoted False s
      else if c = CHR ''>'' then CHR 0x5C # ''u003e'' @ compact_json quoted False s
      else if c = CHR ''&'' then CHR 0x5C # ''u0026'' @ compact_json quoted False s
      else if c = CHR 0xE2 \<and> 2 \<le> length s \<and> s ! 0 = CHR 0x80 \<and> s ! 1 \<in> {CHR 0xA8, CHR 0xA9}
      then CHR 0x5C # ''u202'' @ [if s ! 1 = CHR 0xA8 then CHR ''8'' else CHR ''9''] @
             compact_json quoted False (drop 2 s)
      else if quoted then
        c # compact_json (escaped \<or> c \<noteq> CHR 0x22) (\<not> escaped \<and> c = CHR 0x5C) s
      else if c \<in> {CHR 0x20, CHR 0x09, CHR 0x0A, CHR 0x0D} then compact_json False False s
      else c # compact_json (c = CHR 0x22) False s)"

definition indent_line :: "nat \<Rightarrow> string" where
  "indent_line depth = CHR 0x0A # replicate (2 * depth) (CHR 0x20)"

text \<open>\<open>need\<close>: an object or array was opened and nothing has been written into it yet.\<close>

fun indent_json :: "nat \<Rightarrow> bool \<Rightarrow> bool \<Rightarrow> bool \<Rightarrow> string \<Rightarrow> string" where
  "indent_json depth need quoted escaped [] = []"
| "indent_json depth need quoted escaped (c # s) =
     (if quoted then
        c # indent_json depth need (escaped \<or> c \<noteq> CHR 0x22) (\<not> escaped \<and> c = CHR 0x5C) s
      else if c = CHR ''}'' \<or> c = CHR '']'' then
        (if need then c # indent_json depth False False False s
         else indent_line (depth - 1) @ c # indent_json (depth - 1) False False False s)
      else
        (let depth' = (if need then depth + 1 else depth);
             lead = (if need then indent_line depth' else [])
         in if c = CHR ''{'' \<or> c = CHR ''['' then lead @ c # indent_json depth' True False False s
            else if c = CHR '','' then lead @ c # indent_line depth' @ indent_json depth' False False False s
            else if c = CHR '':'' then lead @ c # CHR 0x20 # indent_json depth' False False False s
            else lead @ c # indent_json depth' False (c = CHR 0x22) False s))"

definition reformat :: "string \<Rightarrow> string" where
  "reformat s = indent_json 3 False False False (compact_json False False s)"

definition reformatted :: "disk_registry \<Rightarrow> disk_registry" where
  "reformatted d =
     d\<lparr>drg_Manual := map (\<lambda>m. m\<lparr>dmn_Outbound := reformat (dmn_Outbound m)\<rparr>) (drg_Manual d)\<rparr>"

section \<open>Opening the registry\<close>

definition loaded_observed :: "string \<Rightarrow> string res" where
  "loaded_observed s =
     (let s = trim_space s in
      if s = [] then ok []
      else case ParseAddr s of
             None \<Rightarrow> fail (ErrOther ''pool: registry contains an invalid observed address'')
           | Some a \<Rightarrow> if \<not> globallyRoutable a then ok [] else ok (addr_String a))"

text \<open>The single override of older documents goes to its family unless that is set.\<close>

definition migrate_override :: "string \<Rightarrow> string \<times> string \<Rightarrow> (string \<times> string) res" where
  "migrate_override legacy = (\<lambda>(o4, o6).
     let s = trim_space legacy in
     if s = [] then ok (o4, o6)
     else case ParseAddr s of
            None \<Rightarrow> fail (ErrOther ''pool: registry contains an invalid address override'')
          | Some a \<Rightarrow>
              if \<not> globallyRoutable a then ok (o4, o6)
              else ok (if addr_Is4 a \<and> o4 = [] then addr_String a else o4,
                       if \<not> addr_Is4 a \<and> o6 = [] then addr_String a else o6))"

definition validateDiskAgent :: "pool_env \<Rightarrow> disk_agent \<Rightarrow> agent_record res" where
  "validateDiskAgent env d =
     (let bad_reported = ErrOther ''pool: registry contains an invalid reported address'';
          bad_probed = ErrOther ''pool: registry contains an invalid probed address''
      in
      bindE (wrapE bad_reported (normalizeAddresses (dag_ReportedV4 d) True)) (\<lambda>r4.
      bindE (wrapE bad_reported (normalizeAddresses (dag_ReportedV6 d) False)) (\<lambda>r6.
      bindE (wrapE bad_probed (normalizeAddresses (dag_ProbedV4 d) True)) (\<lambda>p4.
      bindE (wrapE bad_probed (normalizeAddresses (dag_ProbedV6 d) False)) (\<lambda>p6.
      bindE (loaded_observed (dag_ObservedAddress d)) (\<lambda>observed.
      bindE (normalizeDiskOverride (dag_AddressOverrideV4 d) FamilyIPv4) (\<lambda>o4.
      bindE (normalizeDiskOverride (dag_AddressOverrideV6 d) FamilyIPv6) (\<lambda>o6.
      bindE (wrapE (ErrOther ''pool: registry contains an invalid IPv4 subscription domain'')
               (NormalizeSubscriptionDomain env (dag_SubscriptionDomainV4 d))) (\<lambda>s4.
      bindE (wrapE (ErrOther ''pool: registry contains an invalid IPv6 subscription domain'')
               (NormalizeSubscriptionDomain env (dag_SubscriptionDomainV6 d))) (\<lambda>s6.
      bindE (migrate_override (dag_AddressOverride d) (o4, o6)) (\<lambda>(o4, o6).
      ok \<lparr>agt_reportedV4 = r4, agt_reportedV6 = r6, agt_observed = observed, agt_probedV4 = p4,
          agt_probedV6 = p6, agt_overrideV4 = o4, agt_overrideV6 = o6,
          agt_subscriptionDomainV4 = s4, agt_subscriptionDomainV6 = s6,
          agt_updatedAt = dag_UpdatedAt d\<rparr>)))))))))))"

definition load_manual ::
  "pool_env \<Rightarrow> (string \<rightharpoonup> manual_record) \<Rightarrow> disk_manual \<Rightarrow> (string \<rightharpoonup> manual_record) res" where
  "load_manual env acc d =
     bindE (require (validComponent (dmn_Name d)) (ErrOther ''pool: registry contains an invalid manual name''))
       (\<lambda>_.
     bindE (require (acc (dmn_Name d) = None) (ErrOther ''pool: registry contains a duplicate manual name''))
       (\<lambda>_.
     bindE (validateManualOutbound env (dmn_Outbound d)) (\<lambda>outbound.
     bindE (require (length (dmn_Remark d) \<le> 256) (ErrOther ''pool: registry contains an invalid manual remark''))
       (\<lambda>_.
     ok (acc(dmn_Name d \<mapsto>
       \<lparr>man_remark = dmn_Remark d, man_outbound = outbound, man_createdAt = dmn_CreatedAt d,
        man_updatedAt = dmn_UpdatedAt d\<rparr>))))))"

definition load_agent ::
  "pool_env \<Rightarrow> (string \<rightharpoonup> disk_agent) \<Rightarrow> (string \<rightharpoonup> agent_record) \<Rightarrow> string \<Rightarrow>
     (string \<rightharpoonup> agent_record) res" where
  "load_agent env stored acc i =
     bindE (require (validComponent i) (ErrOther ''pool: registry contains an invalid agent ID'')) (\<lambda>_.
     bindE (validateDiskAgent env (the (stored i))) (\<lambda>a. ok (acc(i \<mapsto> a))))"

definition load_rendered ::
  "(string \<rightharpoonup> disk_render) \<Rightarrow> (string \<rightharpoonup> rendered_record) \<Rightarrow> string \<Rightarrow>
     (string \<rightharpoonup> rendered_record) res" where
  "load_rendered stored acc i =
     bindE (require (validComponent i) (ErrOther ''pool: registry contains an invalid agent ID'')) (\<lambda>_.
     bindE (from_option (ErrOther ''pool: registry contains an invalid rendered digest'')
              (decode_digest (drn_ConfigSHA256 (the (stored i))))) (\<lambda>sha.
     ok (acc(i \<mapsto> \<lparr>ren_poolVersion = drn_PoolVersion (the (stored i)), ren_configSHA = sha\<rparr>))))"

text \<open>The part of \<open>Open\<close> behind the decoder; a map is ranged over in the order of its keys.\<close>

definition load_registry :: "pool_env \<Rightarrow> disk_registry \<Rightarrow> pool_file option \<Rightarrow> registry res" where
  "load_registry env d file =
     bindE (require (drg_Version d = diskRegistryVersion) (ErrOther ''pool: unsupported registry version''))
       (\<lambda>_.
     bindE (foldE (load_manual env) Map.empty (drg_Manual d)) (\<lambda>manual.
     bindE (foldE (load_agent env (drg_Agents d)) Map.empty (sorted_list_of_set (dom (drg_Agents d))))
       (\<lambda>agents.
     bindE (foldE (load_rendered (drg_Rendered d)) Map.empty (sorted_list_of_set (dom (drg_Rendered d))))
       (\<lambda>rendered.
     ok \<lparr>reg_poolVersion = drg_PoolVersion d, reg_manual = manual, reg_agents = agents,
         reg_rendered = rendered, reg_file = file\<rparr>))))"

record pool_open_faults =
  pof_inspect :: "unit res"
  pof_secure :: "unit res"
  pof_open :: "unit res"
  pof_persist :: pool_faults

definition Open ::
  "pool_env \<Rightarrow> pool_open_faults \<Rightarrow> string \<Rightarrow> pool_file option \<Rightarrow> registry res" where
  "Open env flt path file =
     bindE (require (trim_space path \<noteq> []) (ErrOther ''pool: registry path is required'')) (\<lambda>_.
     case file of
       None \<Rightarrow> ok (empty_registry None)
     | Some f \<Rightarrow>
         bindE (pof_inspect flt) (\<lambda>_.
         bindE (require (pfi_regular f) (ErrOther ''pool: registry is not a regular file'')) (\<lambda>_.
         bindE (require (length (pfi_bytes f) \<le> MaxRegistryFileBytes)
                  (ErrOther ''pool: registry exceeds the size limit'')) (\<lambda>_.
         bindE (pof_secure flt) (\<lambda>_.
         bindE (pof_open flt) (\<lambda>_.
         bindE (from_option (ErrOther ''pool: decode registry'') (penv_decode env (pfi_bytes f))) (\<lambda>d.
         bindE (load_registry env d (Some f)) (\<lambda>r.
         if list_ex (\<lambda>i. dag_DefaultTLSAddress (the (drg_Agents d i)) \<noteq> [])
              (sorted_list_of_set (dom (drg_Agents d)))
         then (case pool_persistLocked env (pof_persist flt) r of
                 (Inl _, _) \<Rightarrow> fail (ErrOther ''pool: discard removed default TLS address'')
               | (Inr _, file') \<Rightarrow> ok (r\<lparr>reg_file := file'\<rparr>))
         else ok r))))))))"

end
