(* ===== verification/NetipFacts.thy ===== *)
theory NetipFacts
  imports Netip
begin

text \<open>
  The canonical text of an address is read back as the same address: first the decimal and
  hexadecimal numerals, then the group loop, then whole addresses with their zones.
\<close>

section \<open>Numerals\<close>

lemma digit_byte:
  fixes d :: nat
  shows "d < 10 \<Longrightarrow> is_digit (char_of (48 + d)) \<and> is_hex (char_of (48 + d)) \<and>
     char_of (48 + d) \<noteq> CHR ''.'' \<and> of_char (char_of (48 + d) :: char) - 48 = d"
proof -
  have "\<forall>d \<in> set [0..<10]. is_digit (char_of (48 + d)) \<and> is_hex (char_of (48 + d)) \<and>
      char_of (48 + d) \<noteq> CHR ''.'' \<and> of_char (char_of (48 + d) :: char) - 48 = d"
    by code_simp
  then show "d < 10 \<Longrightarrow> ?thesis" by simp
qed

lemma show_nat_digits: "\<forall>c \<in> set (show_nat n). is_digit c \<and> is_hex c \<and> c \<noteq> CHR ''.''"
proof (induction n rule: show_nat.induct)
  case (1 n)
  show ?case
    using 1 digit_byte [of n] digit_byte [of "n mod 10"] by (subst show_nat.simps) auto
qed

lemma show_nat_not_Nil [simp]: "show_nat n \<noteq> []"
  by (subst show_nat.simps) simp

lemma digits_value_append:
  "digits_value acc (s @ t) = (case digits_value acc s of None \<Rightarrow> None | Some v \<Rightarrow> digits_value v t)"
  by (induction s arbitrary: acc) auto

lemma digits_value_show_nat: "digits_value acc (show_nat n) = Some (acc * 10 ^ length (show_nat n) + n)"
proof (induction n rule: show_nat.induct)
  case (1 n)
  show ?case
  proof (cases "n < 10")
    case True
    then show ?thesis using digit_byte [of n] by (simp add: show_nat.simps [of n])
  next
    case False
    have "digits_value acc (show_nat (n div 10) @ [char_of (48 + n mod 10)]) =
        Some ((acc * 10 ^ length (show_nat (n div 10)) + n div 10) * 10 + n mod 10)"
      using 1 [OF False] digit_byte [of "n mod 10"] by (simp add: digits_value_append)
    then show ?thesis using False by (simp add: show_nat.simps [of n] algebra_simps)
  qed
qed

lemma show_nat_small: "n < 1000 \<Longrightarrow> length (show_nat n) \<le> 3"
  by (simp add: show_nat.simps [of n] show_nat.simps [of "n div 10"] show_nat.simps [of "n div 100"]
      div_mult2_eq [symmetric])

lemma show_nat_head: "0 < n \<Longrightarrow> hd (show_nat n) \<noteq> CHR ''0''"
proof (induction n rule: show_nat.induct)
  case (1 n)
  show ?case
  proof (cases "n < 10")
    case True
    have "\<forall>d \<in> set [1..<10]. char_of (48 + d) \<noteq> CHR ''0''" by code_simp
    then show ?thesis using True 1(2) by (simp add: show_nat.simps [of n])
  next
    case False
    then show ?thesis using 1 by (simp add: show_nat.simps [of n])
  qed
qed

lemma ipv4_field_show_nat: "n < 256 \<Longrightarrow> ipv4_field (show_nat n)"
proof (cases "n = 0")
  case True
  then show ?thesis using show_nat_digits [of 0] by (simp add: ipv4_field_def show_nat.simps [of 0] list_all_iff)
next
  case False
  assume "n < 256"
  then show ?thesis using False show_nat_head [of n] show_nat_digits [of n] digits_value_show_nat [of 0 n]
    by (simp add: ipv4_field_def list_all_iff)
qed

lemma split_on_single: "c \<notin> set x \<Longrightarrow> split_on c x = [x]"
  by (induction x) auto

lemma split_on_Cons: "c \<notin> set x \<Longrightarrow> split_on c (x @ c # s) = x # split_on c s"
  by (induction x) auto

lemma split_on_joined:
  "xs \<noteq> [] \<Longrightarrow> \<forall>x \<in> set xs. c \<notin> set x \<Longrightarrow> split_on c (joined [c] xs) = xs"
  by (induction "[c]" xs rule: joined.induct) (auto simp: split_on_single split_on_Cons)

lemma split_string4:
  "split_on (CHR ''.'') (string4 w) =
     map show_nat [unat w div 16777216, unat w div 65536 mod 256, unat w div 256 mod 256, unat w mod 256]"
  unfolding string4_def Let_def using show_nat_digits by (intro split_on_joined) auto

lemma ipv4_value_string4: "ipv4_value (string4 w) = Some (unat w)"
proof -
  let ?n = "unat w"
  have lt: "?n < 2 ^ 32" using unsigned_less [of w, where ?'a = nat] by simp
  then have "?n div 16777216 < 256" by (simp add: less_mult_imp_div_less)
  then have "parse_ipv4 (string4 w)"
    by (simp add: parse_ipv4_def split_string4 ipv4_field_show_nat)
  moreover have "((?n div 16777216 * 256 + ?n div 65536 mod 256) * 256 + ?n div 256 mod 256) * 256 + ?n mod 256 = ?n"
  proof -
    have "?n div 256 = ?n div 65536 * 256 + ?n div 256 mod 256"
      using div_mult_mod_eq [of "?n div 256" 256] by (simp add: div_mult2_eq [symmetric])
    moreover have "?n div 65536 = ?n div 16777216 * 256 + ?n div 65536 mod 256"
      using div_mult_mod_eq [of "?n div 65536" 256] by (simp add: div_mult2_eq [symmetric])
    ultimately show ?thesis by (metis div_mult_mod_eq)
  qed
  ultimately show ?thesis by (simp add: ipv4_value_def split_string4 digits_value_show_nat)
qed

subsection \<open>Hexadecimal\<close>

lemma hex_text_value: "d < 16 \<Longrightarrow> is_hex (hex_text d) \<and> hex_char_value (hex_text d) = d"
proof -
  have "\<forall>d \<in> set [0..<16]. is_hex (hex_text d) \<and> hex_char_value (hex_text d) = d" by code_simp
  then show "d < 16 \<Longrightarrow> ?thesis" by simp
qed

lemma show_hex_facts:
  "show_hex n \<noteq> [] \<and> list_all is_hex (show_hex n) \<and> group_value (show_hex n) = n"
proof (induction n rule: show_hex.induct)
  case (1 n)
  show ?case
  proof (cases "n < 16")
    case True
    then show ?thesis using hex_text_value [of n] by (simp add: show_hex.simps [of n] group_value_def)
  next
    case False
    then show ?thesis using 1 hex_text_value [of "n mod 16"]
      by (simp add: show_hex.simps [of n] group_value_def)
  qed
qed

lemma show_hex_bound: "0 < k \<Longrightarrow> n < 16 ^ k \<Longrightarrow> length (show_hex n) \<le> k"
proof (induction k arbitrary: n)
  case (Suc k)
  show ?case
  proof (cases "n < 16")
    case True
    then show ?thesis by (simp add: show_hex.simps [of n])
  next
    case False
    then have "0 < k" using Suc.prems by (cases k) auto
    moreover have "n div 16 < 16 ^ k" using Suc.prems by (simp add: less_mult_imp_div_less mult.commute)
    ultimately show ?thesis using Suc.IH [of "n div 16"] False by (simp add: show_hex.simps [of n])
  qed
qed simp

lemma show_hex_small: "n < 65536 \<Longrightarrow> length (show_hex n) \<le> 4"
  using show_hex_bound [of 4 n] by simp

lemma is_hex_not: "\<not> is_hex CHR '':''" "\<not> is_hex CHR ''.''" "\<not> is_hex CHR ''%''"
  by (simp_all add: is_hex_def is_digit_def)

lemma span_show_hex:
  "takeWhile is_hex (show_hex n) = show_hex n" "dropWhile is_hex (show_hex n) = []"
  "takeWhile is_hex (show_hex n @ CHR '':'' # s) = show_hex n"
  "dropWhile is_hex (show_hex n @ CHR '':'' # s) = CHR '':'' # s"
  using show_hex_facts [of n] by (simp_all add: list_all_iff takeWhile_append dropWhile_append is_hex_not)

section \<open>The group loop\<close>

lemma v6_loop_last:
  "length acc < 8 \<Longrightarrow> g < 65536 \<Longrightarrow> v6_loop acc ell (show_hex g) = Some (acc @ [g], ell)"
  using show_hex_facts [of g] show_hex_small [of g]
  by (subst v6_loop.simps) (simp add: span_show_hex Let_def)

lemma v6_loop_colon:
  assumes "length acc < 8" "g < 65536" "s \<noteq> []" "hd s \<noteq> CHR '':''"
  shows "v6_loop acc ell (show_hex g @ CHR '':'' # s) = v6_loop (acc @ [g]) ell s"
  using assms show_hex_facts [of g] show_hex_small [of g]
  by (subst v6_loop.simps) (simp add: span_show_hex Let_def)

lemma v6_loop_ellipsis:
  assumes "length acc < 8" "g < 65536"
  shows "v6_loop acc None (show_hex g @ CHR '':'' # CHR '':'' # s) =
    (if s = [] then Some (acc @ [g], Some (Suc (length acc)))
     else v6_loop (acc @ [g]) (Some (Suc (length acc))) s)"
  using assms show_hex_facts [of g] show_hex_small [of g]
  by (subst v6_loop.simps) (simp add: span_show_hex Let_def)

lemma groups_text_Cons:
  "groups_text (g # gs) = (if gs = [] then show_hex g else show_hex g @ CHR '':'' # groups_text gs)"
  by (cases gs) (simp_all add: groups_text_def)

lemma groups_text_head: "gs \<noteq> [] \<Longrightarrow> groups_text gs \<noteq> [] \<and> is_hex (hd (groups_text gs))"
  using show_hex_facts [of "hd gs"] by (cases gs) (auto simp: groups_text_Cons list_all_iff hd_append)

lemma groups_text_no_colon: "gs \<noteq> [] \<Longrightarrow> groups_text gs \<noteq> [] \<and> hd (groups_text gs) \<noteq> CHR '':''"
  using groups_text_head is_hex_not by metis

lemma v6_loop_groups:
  "gs \<noteq> [] \<Longrightarrow> length acc + length gs \<le> 8 \<Longrightarrow> list_all (\<lambda>g. g < 65536) gs \<Longrightarrow>
     v6_loop acc ell (groups_text gs) = Some (acc @ gs, ell)"
proof (induction gs arbitrary: acc)
  case Nil
  then show ?case by simp
next
  case (Cons g gs)
  then show ?case
    using v6_loop_last [of acc g] v6_loop_colon [of acc g "groups_text gs"] groups_text_no_colon [of gs]
    by (cases "gs = []") (auto simp: groups_text_Cons)
qed

lemma v6_loop_compressed:
  "gs \<noteq> [] \<Longrightarrow> length acc + length gs < 8 \<Longrightarrow> list_all (\<lambda>g. g < 65536) gs \<Longrightarrow>
     v6_loop acc None (groups_text gs @ ''::'' @ s) =
       (if s = [] then Some (acc @ gs, Some (length acc + length gs))
        else v6_loop (acc @ gs) (Some (length acc + length gs)) s)"
proof (induction gs arbitrary: acc)
  case Nil
  then show ?case by simp
next
  case (Cons g gs)
  show ?case
  proof (cases "gs = []")
    case True
    then show ?thesis using Cons.prems v6_loop_ellipsis [of acc g s] by (simp add: groups_text_Cons)
  next
    case False
    then have "hd (groups_text gs @ ''::'' @ s) \<noteq> CHR '':''"
      using groups_text_no_colon [OF False] by simp
    then have "v6_loop acc None (groups_text (g # gs) @ ''::'' @ s) =
        v6_loop (acc @ [g]) None (groups_text gs @ ''::'' @ s)"
      using False Cons.prems v6_loop_colon [of acc g "groups_text gs @ ''::'' @ s" None]
      by (simp add: groups_text_Cons)
    then show ?thesis using Cons.IH [OF False, of "acc @ [g]"] Cons.prems by simp
  qed
qed

section \<open>Compression\<close>

lemma zero_run_replicate: "take (zero_run gs i) (drop i gs) = replicate (zero_run gs i) 0"
proof -
  have "takeWhile (\<lambda>g. g = 0) xs = replicate (length (takeWhile (\<lambda>g. g = 0) xs)) 0" for xs :: "nat list"
    by (induction xs) auto
  then show ?thesis unfolding zero_run_def by (metis takeWhile_eq_take)
qed

definition good_span :: "nat list \<Rightarrow> (nat \<times> nat) option \<Rightarrow> bool" where
  "good_span gs best = (case best of None \<Rightarrow> True | Some (i, l) \<Rightarrow> 2 \<le> l \<and> i < length gs \<and> l = zero_run gs i)"

lemma good_span_step:
  "good_span gs b \<Longrightarrow> i < length gs \<Longrightarrow>
     good_span gs (let l = zero_run gs i in
       if 2 \<le> l \<and> l > (case b of None \<Rightarrow> 0 | Some (_, m) \<Rightarrow> m) then Some (i, l) else b)"
  unfolding Let_def by (simp add: good_span_def)

lemma good_span_fold:
  "good_span gs b \<Longrightarrow> \<forall>i \<in> set js. i < length gs \<Longrightarrow>
     good_span gs (foldl (\<lambda>best i. let l = zero_run gs i in
       if 2 \<le> l \<and> l > (case best of None \<Rightarrow> 0 | Some (_, m) \<Rightarrow> m) then Some (i, l) else best) b js)"
proof (induction js arbitrary: b)
  case Nil
  then show ?case by simp
next
  case (Cons i js)
  have "i < length gs" "\<forall>i \<in> set js. i < length gs" using Cons.prems(2) by simp_all
  from Cons.IH [OF good_span_step [OF Cons.prems(1) this(1)] this(2)] show ?case by simp
qed

lemma zero_span_good: "good_span gs (zero_span gs)"
  unfolding zero_span_def by (rule good_span_fold) (simp_all add: good_span_def)

lemma zero_span_splits:
  assumes "zero_span gs = Some (i, l)"
  shows "2 \<le> l" "i + l \<le> length gs" "gs = take i gs @ replicate l 0 @ drop (i + l) gs"
proof -
  have l: "2 \<le> l" "i < length gs" "l = zero_run gs i"
    using zero_span_good [of gs] assms by (auto simp: good_span_def)
  then show "2 \<le> l" by simp
  have "l \<le> length (drop i gs)" unfolding l(3) zero_run_def by (rule length_takeWhile_le)
  then show "i + l \<le> length gs" using l(2) by simp
  have "drop i gs = replicate l 0 @ drop (i + l) gs"
    using zero_run_replicate [of gs i] l(3) append_take_drop_id [of l "drop i gs"] by (simp add: add.commute)
  then show "gs = take i gs @ replicate l 0 @ drop (i + l) gs" by (metis append_take_drop_id)
qed

section \<open>Whole addresses\<close>

lemma of_nat_split: "of_nat (n div 65536 * 65536 + n mod 65536) = of_nat n"
  by (simp only: div_mult_mod_eq)

lemma parse_string6:
  assumes gs: "length gs = 8" "list_all (\<lambda>g. g < 65536) gs"
  shows "if has_prefix ''::'' (string6 gs)
    then (drop 2 (string6 gs) = [] \<and> gs = replicate 8 0) \<or>
      (drop 2 (string6 gs) \<noteq> [] \<and> expand_groups (v6_loop [] (Some 0) (drop 2 (string6 gs))) = Some gs)
    else expand_groups (v6_loop [] None (string6 gs)) = Some gs"
proof (cases "zero_span gs")
  case None
  have "gs \<noteq> []" using gs by auto
  then have "\<not> has_prefix ''::'' (groups_text gs)"
    using groups_text_no_colon [of gs] by (cases "groups_text gs") (auto simp: has_prefix_def)
  then show ?thesis using None gs v6_loop_groups [OF \<open>gs \<noteq> []\<close>, of "[]" None]
    by (simp add: string6_def)
next
  case (Some p)
  then obtain i l where il: "zero_span gs = Some (i, l)" by (cases p) auto
  note parts = zero_span_splits [OF il]
  have written: "string6 gs = groups_text (take i gs) @ ''::'' @ groups_text (drop (i + l) gs)"
    by (simp add: string6_def il)
  have small: "list_all (\<lambda>g. g < 65536) (take i gs)" "list_all (\<lambda>g. g < 65536) (drop (i + l) gs)"
    using gs(2) by (auto simp: list_all_iff dest: in_set_takeD in_set_dropD)
  have whole: "take i gs @ replicate l 0 @ drop (i + l) gs = gs" using parts(3) by simp
  show ?thesis
  proof (cases "i = 0")
    case True
    then have t: "string6 gs = ''::'' @ groups_text (drop l gs)" using written by (simp add: groups_text_def)
    show ?thesis
    proof (cases "drop l gs = []")
      case empty: True
      then have "l = 8" using gs parts(2) True by simp
      then have "gs = replicate 8 0" using whole True empty by simp
      then show ?thesis using t empty by (simp add: has_prefix_def groups_text_def)
    next
      case False
      have "v6_loop [] (Some 0) (groups_text (drop l gs)) = Some (drop l gs, Some 0)"
        using v6_loop_groups [OF False, of "[]" "Some 0"] gs small True by simp
      moreover have "length (drop l gs) < 8" "8 - length (drop l gs) = l" using gs parts(1,2) True by auto
      ultimately have "expand_groups (v6_loop [] (Some 0) (groups_text (drop l gs))) = Some gs"
        using whole True by simp
      then show ?thesis using t groups_text_no_colon [OF False] by (simp add: has_prefix_def)
    qed
  next
    case False
    then have ne: "take i gs \<noteq> []" and i: "length (take i gs) = i" "i < 8" using gs parts(1,2) by auto
    have no: "\<not> has_prefix ''::'' (string6 gs)"
      using groups_text_no_colon [OF ne] unfolding written
      by (cases "groups_text (take i gs)") (auto simp: has_prefix_def)
    have loop: "v6_loop [] None (string6 gs) =
        (if groups_text (drop (i + l) gs) = [] then Some (take i gs, Some i)
         else v6_loop (take i gs) (Some i) (groups_text (drop (i + l) gs)))"
      unfolding written using v6_loop_compressed [OF ne, of "[]"] small i by simp
    have "v6_loop [] None (string6 gs) = Some (take i gs @ drop (i + l) gs, Some i)"
    proof (cases "drop (i + l) gs = []")
      case True
      then show ?thesis unfolding loop by (simp add: groups_text_def)
    next
      case later: False
      then show ?thesis unfolding loop
        using v6_loop_groups [OF later, of "take i gs" "Some i"] groups_text_no_colon [OF later] small gs parts(1,2) i
        by simp
    qed
    moreover have "length (take i gs @ drop (i + l) gs) = 8 - l" using gs parts(2) i by simp
    ultimately have "expand_groups (v6_loop [] None (string6 gs)) = Some gs"
      using parts(1,2) gs whole i by simp
    then show ?thesis using no by simp
  qed
qed

text \<open>A mapped address is written with a dotted quad.\<close>

lemma v6_loop_quad:
  assumes "length acc \<le> 6" "ell \<noteq> None \<or> length acc = 6"
  shows "v6_loop acc ell (string4 w) = Some (acc @ [unat w div 65536, unat w mod 65536], ell)"
proof -
  let ?n = "unat w"
  obtain t where t: "string4 w = show_nat (?n div 16777216) @ CHR ''.'' # t"
    by (simp add: string4_def Let_def)
  have "?n div 16777216 < 256"
    using unsigned_less [of w, where ?'a = nat] by (simp add: less_mult_imp_div_less)
  then have "length (show_nat (?n div 16777216)) \<le> 3" by (simp add: show_nat_small)
  moreover have "takeWhile is_hex (string4 w) = show_nat (?n div 16777216)"
    "dropWhile is_hex (string4 w) = CHR ''.'' # t"
    using show_nat_digits [of "?n div 16777216"] by (simp_all add: t takeWhile_append dropWhile_append is_hex_not)
  ultimately show ?thesis
    using assms ipv4_value_string4 [of w] by (subst v6_loop.simps) (auto simp: Let_def)
qed

lemma string4_head: "string4 w \<noteq> [] \<and> is_hex (hd (string4 w))"
  using show_nat_digits [of "unat w div 16777216"]
  by (auto simp: string4_def Let_def hd_append)

lemma low_word_unat:
  assumes "length gs = 8" "list_all (\<lambda>g. g < 65536) gs"
  shows "unat (low_word gs) = gs ! 6 * 65536 + gs ! 7"
proof -
  have "gs ! 6 < 65536" "gs ! 7 < 65536" using assms by (simp_all add: list_all_length)
  then have "gs ! 6 * 65536 + gs ! 7 < 2 ^ 32" by simp
  then show ?thesis unfolding low_word_def by (intro of_nat_inverse [OF refl]) simp
qed

lemma parse_mapped:
  assumes gs: "length gs = 8" "list_all (\<lambda>g. g < 65536) gs" and mapped: "take 6 gs = [0, 0, 0, 0, 0, 0xFFFF]"
  shows "expand_groups (v6_loop [] (Some 0) (''ffff:'' @ string4 (low_word gs))) = Some gs"
proof -
  have "char_of (102 :: nat) = CHR ''f''" by code_simp
  then have "show_hex 65535 = ''ffff''"
    by (simp add: show_hex.simps [of 65535] show_hex.simps [of 4095] show_hex.simps [of 255]
        show_hex.simps [of 15] hex_text_def)
  then have eq: "''ffff:'' @ string4 (low_word gs) = show_hex 65535 @ CHR '':'' # string4 (low_word gs)" by simp
  have "hd (string4 (low_word gs)) \<noteq> CHR '':''" "string4 (low_word gs) \<noteq> []"
    using string4_head is_hex_not by metis+
  then have "v6_loop [] (Some 0) (''ffff:'' @ string4 (low_word gs)) =
      v6_loop [65535] (Some 0) (string4 (low_word gs))"
    unfolding eq using v6_loop_colon [of "[]" 65535 "string4 (low_word gs)" "Some 0"] by simp
  moreover have "unat (low_word gs) div 65536 = gs ! 6" "unat (low_word gs) mod 65536 = gs ! 7"
    using low_word_unat [OF gs] gs by (simp_all add: list_all_length)
  ultimately have loop: "v6_loop [] (Some 0) (''ffff:'' @ string4 (low_word gs)) =
      Some ([65535, gs ! 6, gs ! 7], Some 0)"
    using v6_loop_quad [of "[65535]" "Some 0" "low_word gs"] by simp
  have "drop 6 gs = gs ! 6 # drop 7 gs" "drop 7 gs = gs ! 7 # drop 8 gs"
    using gs(1) Cons_nth_drop_Suc [of 6 gs] Cons_nth_drop_Suc [of 7 gs] by simp_all
  then have "drop 6 gs = [gs ! 6, gs ! 7]" using gs(1) by simp
  then have whole: "[0, 0, 0, 0, 0, 65535, gs ! 6, gs ! 7] = gs"
    using append_take_drop_id [of 6 gs] mapped by simp
  have "replicate 5 0 = [0, 0, 0, 0, 0 :: nat]" by (simp add: numeral_eq_Suc)
  then have "expand_groups (Some ([65535, gs ! 6, gs ! 7], Some 0)) =
      Some [0, 0, 0, 0, 0, 65535, gs ! 6, gs ! 7]"
    by simp
  then show ?thesis unfolding loop whole .
qed

lemma joined_chars: "set (joined sep xs) \<subseteq> set sep \<union> \<Union> (set ` set xs)"
  by (induction sep xs rule: joined.induct) auto

lemma string4_chars: "c \<in> set (string4 w) \<Longrightarrow> is_digit c \<or> c = CHR ''.''"
  using joined_chars show_nat_digits unfolding string4_def Let_def by fastforce

lemma groups_text_chars: "c \<in> set (groups_text gs) \<Longrightarrow> is_hex c \<or> c = CHR '':''"
  using joined_chars [of "'':''" "map show_hex gs"] show_hex_facts
  unfolding groups_text_def by (fastforce simp: list_all_iff)

lemma string6_chars: "c \<in> set (string6 gs) \<Longrightarrow> is_hex c \<or> c = CHR '':''"
  using groups_text_chars by (auto simp: string6_def split: option.splits)

definition v6_body :: "nat list \<Rightarrow> string" where
  "v6_body gs = (if addr_Is4In6 (AddrV6 gs []) then ''::ffff:'' @ string4 (low_word gs) else string6 gs)"

lemma addr_String_v6: "addr_String (AddrV6 gs zone) = v6_body gs @ zone_text zone"
  by (simp add: v6_body_def)

lemma v6_body_chars: "c \<in> set (v6_body gs) \<Longrightarrow> is_hex c \<or> c = CHR '':'' \<or> c = CHR ''.''"
  using string6_chars string4_chars unfolding v6_body_def
  by (auto simp: is_hex_def split: if_splits)

lemma parse_v6_body:
  assumes gs: "length gs = 8" "list_all (\<lambda>g. g < 65536) gs"
  shows "parseIPv6 (v6_body gs @ zone_text zone) = Some (AddrV6 gs zone)"
proof -
  have no: "\<forall>c \<in> set (v6_body gs). c \<noteq> CHR ''%''"
    using v6_body_chars is_hex_not by fastforce
  have body: "takeWhile (\<lambda>c. c \<noteq> CHR ''%'') (v6_body gs @ zone_text zone) = v6_body gs"
    "dropWhile (\<lambda>c. c \<noteq> CHR ''%'') (v6_body gs @ zone_text zone) = zone_text zone"
    using no by (simp_all add: takeWhile_append dropWhile_append zone_text_def)
  have zone: "\<not> (zone_text zone \<noteq> [] \<and> tl (zone_text zone) = [])" "tl (zone_text zone) = zone"
    by (auto simp: zone_text_def)
  show ?thesis
  proof (cases "addr_Is4In6 (AddrV6 gs [])")
    case True
    then have "v6_body gs = CHR '':'' # CHR '':'' # ''ffff:'' @ string4 (low_word gs)" by (simp add: v6_body_def)
    then show ?thesis using parse_mapped [OF gs] True body zone
      by (simp add: parseIPv6_def Let_def has_prefix_def)
  next
    case False
    then have "v6_body gs = string6 gs" by (simp add: v6_body_def)
    then show ?thesis using parse_string6 [OF gs] body zone
      by (auto simp: parseIPv6_def Let_def split: if_splits)
  qed
qed

lemma find_first: "\<forall>c \<in> set h. \<not> P c \<Longrightarrow> P c \<Longrightarrow> find P (h @ c # s) = Some c"
  by (induction h) auto

lemma hex_no_separator: "is_hex c \<Longrightarrow> c \<notin> set ''.:%''"
  using is_hex_not by auto

lemma v6_body_colon: "gs \<noteq> [] \<Longrightarrow> length gs = 8 \<Longrightarrow> \<exists>h s. v6_body gs = h @ CHR '':'' # s \<and> list_all is_hex h"
proof -
  assume gs: "length gs = 8"
  show ?thesis
  proof (cases "addr_Is4In6 (AddrV6 gs [])")
    case True
    then have "v6_body gs = [] @ CHR '':'' # '':ffff:'' @ string4 (low_word gs)" by (simp add: v6_body_def)
    then show ?thesis
      by (intro exI [of _ "[]"] exI [of _ "'':ffff:'' @ string4 (low_word gs)"]) simp
  next
    case False
    then have body: "v6_body gs = string6 gs" unfolding v6_body_def by (simp only: if_False)
    have groups: "\<exists>h s. groups_text ks @ CHR '':'' # t = h @ CHR '':'' # s \<and> list_all is_hex h" for ks t
    proof (cases ks)
      case Nil
      then show ?thesis by (intro exI [of _ "[]"] exI [of _ t]) (simp add: groups_text_def)
    next
      case (Cons g js)
      then have "groups_text ks @ CHR '':'' # t =
          show_hex g @ CHR '':'' # (if js = [] then t else groups_text js @ CHR '':'' # t)"
        by (simp add: groups_text_Cons)
      then show ?thesis using show_hex_facts [of g] by blast
    qed
    show ?thesis
    proof (cases "zero_span gs")
      case None
      obtain g js where g: "gs = g # js" "js \<noteq> []" using gs by (cases gs) fastforce+
      then have "v6_body gs = show_hex g @ CHR '':'' # groups_text js"
        unfolding body using None g(2) by (simp add: g(1) string6_def groups_text_Cons)
      then show ?thesis using show_hex_facts by blast
    next
      case (Some p)
      obtain i l where "zero_span gs = Some (i, l)" using Some by (cases p) auto
      then have "v6_body gs = groups_text (take i gs) @ CHR '':'' # '':'' @ groups_text (drop (i + l) gs)"
        unfolding body by (simp add: string6_def)
      then show ?thesis using groups by metis
    qed
  qed
qed

theorem ParseAddr_String:
  assumes "valid_addr a"
  shows "ParseAddr (addr_String a) = Some a"
proof (cases a)
  case (AddrV4 w)
  obtain t where t: "string4 w = show_nat (unat w div 16777216) @ CHR ''.'' # t"
    by (simp add: string4_def Let_def)
  have "\<forall>c \<in> set (show_nat (unat w div 16777216)). \<not> c \<in> set ''.:%''"
    using show_nat_digits hex_no_separator by blast
  then have "find (\<lambda>c. c \<in> set ''.:%'') (string4 w) = Some (CHR ''.'')"
    unfolding t by (rule find_first) simp
  then show ?thesis using AddrV4 by (simp add: ParseAddr_def ipv4_value_string4)
next
  case (AddrV6 gs zone)
  then have gs: "length gs = 8" "list_all (\<lambda>g. g < 65536) gs" using assms by (simp_all add: valid_addr_def)
  obtain h s where h: "v6_body gs = h @ CHR '':'' # s" "list_all is_hex h"
    using v6_body_colon [of gs] gs by force
  have "\<forall>c \<in> set h. \<not> c \<in> set ''.:%''" using h(2) hex_no_separator by (metis list_all_iff)
  then have "find (\<lambda>c. c \<in> set ''.:%'') (v6_body gs @ zone_text zone) = Some (CHR '':'')"
    unfolding h(1) append_assoc append_Cons by (rule find_first) simp
  then show ?thesis using AddrV6 parse_v6_body [OF gs] by (simp add: ParseAddr_def addr_String_v6 del: addr_String.simps)
qed

section \<open>Parsed addresses are valid\<close>

lemma hex_char_bound: "is_hex c \<Longrightarrow> hex_char_value c < 16"
  by (auto simp: is_hex_def hex_char_value_def is_digit_def less_eq_char_def)

lemma group_value_bound:
  assumes "list_all is_hex h" "length h \<le> 4"
  shows "group_value h < 65536"
proof -
  have "list_all is_hex h \<Longrightarrow> foldl (\<lambda>acc c. acc * 16 + hex_char_value c) a h < (a + 1) * 16 ^ length h" for a
  proof (induction h arbitrary: a)
    case Nil
    then show ?case by simp
  next
    case (Cons c h)
    have "foldl (\<lambda>acc c. acc * 16 + hex_char_value c) (a * 16 + hex_char_value c) h <
        (a * 16 + hex_char_value c + 1) * 16 ^ length h"
      using Cons by simp
    also have "\<dots> \<le> (a * 16 + 16) * 16 ^ length h"
      using hex_char_bound [of c] Cons.prems by (intro mult_le_mono1) simp
    finally show ?case by (simp add: algebra_simps)
  qed
  from this [of 0] assms(1) have "group_value h < 16 ^ length h" by (simp add: group_value_def)
  also have "\<dots> \<le> 16 ^ 4" using assms(2) by (intro power_increasing) simp_all
  finally show ?thesis by simp
qed

lemma quad_bound:
  fixes a b c d v :: nat
  shows "a \<le> 255 \<Longrightarrow> b \<le> 255 \<Longrightarrow> c \<le> 255 \<Longrightarrow> d \<le> 255 \<Longrightarrow>
    v = ((a * 256 + b) * 256 + c) * 256 + d \<Longrightarrow> v < 4294967296"
  by simp

lemma ipv4_value_bound: "ipv4_value s = Some v \<Longrightarrow> v < 4294967296"
proof -
  assume v: "ipv4_value s = Some v"
  let ?val = "\<lambda>f. the (digits_value 0 f)"
  have p: "length (split_on (CHR ''.'') s) = 4" "list_all ipv4_field (split_on (CHR ''.'') s)"
    using v by (auto simp: ipv4_value_def parse_ipv4_def split: if_splits)
  then obtain a b c d where fs: "split_on (CHR ''.'') s = [a, b, c, d]"
    by (auto simp: numeral_eq_Suc length_Suc_conv)
  have "?val f \<le> 255" if "ipv4_field f" for f
    using that by (auto simp: ipv4_field_def split: option.splits)
  then have "?val a \<le> 255" "?val b \<le> 255" "?val c \<le> 255" "?val d \<le> 255" using p(2) fs by auto
  moreover have "v = ((?val a * 256 + ?val b) * 256 + ?val c) * 256 + ?val d"
    using v fs by (auto simp: ipv4_value_def split: if_splits)
  ultimately show "v < 4294967296" using quad_bound by blast
qed

definition groups16 :: "nat list \<times> nat option \<Rightarrow> bool" where
  "groups16 = (\<lambda>(acc, ell). length acc \<le> 8 \<and> list_all (\<lambda>g. g < 65536) acc \<and>
     (case ell of None \<Rightarrow> True | Some i \<Rightarrow> i \<le> length acc))"

lemma v6_loop_ok: "v6_loop acc ell s = Some r \<Longrightarrow> groups16 (acc, ell) \<Longrightarrow> groups16 r"
proof (induction acc ell s rule: v6_loop.induct)
  case (1 acc ell s)
  define h where "h = takeWhile is_hex s"
  define t where "t = dropWhile is_hex s"
  show ?case
  proof (cases "8 \<le> length acc")
    case True
    then show ?thesis using 1(3,4) by (subst (asm) v6_loop.simps) (auto split: if_splits)
  next
    case False
    note run = 1(3) [unfolded v6_loop.simps [of acc ell s] Let_def, folded h_def t_def]
    have h: "h \<noteq> []" "length h \<le> 4" using run False by (auto split: if_splits)
    have "list_all is_hex h" unfolding h_def list_all_iff by (auto dest: set_takeWhileD)
    then have g: "group_value h < 65536" using h(2) by (rule group_value_bound)
    have more: "groups16 (acc @ [group_value h], ell)" "groups16 (acc @ [group_value h], Some (length (acc @ [group_value h])))"
      using 1(4) g False by (auto simp: groups16_def split: option.splits)
    show ?thesis
    proof (cases "t \<noteq> [] \<and> hd t = CHR ''.''")
      case True
      then obtain v where "length acc \<le> 6" "ipv4_value s = Some v" "r = (acc @ [v div 65536, v mod 65536], ell)"
        using run False h by (auto split: if_splits option.splits)
      then show ?thesis using 1(4) ipv4_value_bound [of s v]
        by (auto simp: groups16_def less_mult_imp_div_less split: option.splits)
    next
      case quad: False
      show ?thesis
      proof (cases "t = []")
        case True
        then show ?thesis using run False h more(1) by simp
      next
        case ne: False
        then have t: "hd t = CHR '':''" "length t \<noteq> 1" using run False h quad by (auto split: if_splits)
        show ?thesis
        proof (cases "hd (tl t) = CHR '':''")
          case True
          then have ell: "ell = None" using run False h quad ne t by (auto split: if_splits)
          show ?thesis
          proof (cases "tl (tl t) = []")
            case True
            then show ?thesis using run False h quad ne t \<open>hd (tl t) = CHR '':''\<close> ell more(2) by simp
          next
            case rest: False
            then have "v6_loop (acc @ [group_value h]) (Some (length (acc @ [group_value h]))) (tl (tl t)) = Some r"
              using run False h quad ne t True ell by simp
            with 1(1) [OF False h_def t_def] show ?thesis
              using h quad ne t True ell rest more(2) by simp
          qed
        next
          case other: False
          then have "v6_loop (acc @ [group_value h]) ell (tl t) = Some r"
            using run False h quad ne t by simp
          with 1(2) [OF False h_def t_def] show ?thesis
            using h quad ne t other more(1) by simp
        qed
      qed
    qed
  qed
qed

lemma expand_groups_ok:
  assumes "expand_groups r = Some gs" and "\<And>p. r = Some p \<Longrightarrow> groups16 p"
  shows "length gs = 8 \<and> list_all (\<lambda>g. g < 65536) gs"
proof (cases r)
  case None
  then show ?thesis using assms(1) by simp
next
  case (Some p)
  obtain acc ell where p: "p = (acc, ell)" by (cases p)
  have ok: "length acc \<le> 8" "list_all (\<lambda>g. g < 65536) acc" "\<And>i. ell = Some i \<Longrightarrow> i \<le> length acc"
    using assms(2) [OF Some] by (auto simp: groups16_def p)
  show ?thesis
  proof (cases ell)
    case None
    then show ?thesis using assms(1) Some p ok by (auto split: if_splits)
  next
    case (Some i)
    then have "gs = take i acc @ replicate (8 - length acc) 0 @ drop i acc"
      using assms(1) \<open>r = Some p\<close> p by (auto split: if_splits)
    then show ?thesis using ok Some by (auto simp: list_all_iff dest: in_set_takeD in_set_dropD)
  qed
qed

lemma ParseAddr_valid: "ParseAddr s = Some a \<Longrightarrow> valid_addr a"
proof -
  assume "ParseAddr s = Some a"
  then consider v where "a = AddrV4 (of_nat v)" | "parseIPv6 s = Some a"
    by (auto simp: ParseAddr_def split: option.splits if_splits)
  then show ?thesis
  proof cases
    case 1
    then show ?thesis by (simp add: valid_addr_def)
  next
    case 2
    have ok: "groups16 ([], None)" "groups16 ([], Some 0)" by (simp_all add: groups16_def)
    have loop: "length gs = 8 \<and> list_all (\<lambda>g. g < 65536) gs"
      if "expand_groups (v6_loop [] ell t) = Some gs" "groups16 ([], ell)" for ell t gs
      using that by (intro expand_groups_ok [OF that(1)]) (auto intro: v6_loop_ok)
    from 2 obtain gs zone where a: "a = AddrV6 gs zone" "gs = replicate 8 0 \<or>
        (\<exists>ell t. expand_groups (v6_loop [] ell t) = Some gs \<and> groups16 ([], ell))"
      using ok by (auto simp: parseIPv6_def Let_def split: if_splits)
    then have "length gs = 8 \<and> list_all (\<lambda>g. g < 65536) gs"
      using loop by (auto simp: list_all_iff)
    then show ?thesis using a by (simp add: valid_addr_def)
  qed
qed

section \<open>Surrounding space\<close>

definition plain :: "char \<Rightarrow> bool" where
  "plain c \<longleftrightarrow> (33 :: nat) \<le> of_char c \<and> of_char c \<le> (126 :: nat)"

lemma spaces_not_plain:
  "list_all (\<lambda>w. w \<noteq> [] \<and> \<not> plain (hd w) \<and> \<not> plain (last w) \<and> CHR ''%'' \<notin> set w) utf8_spaces"
  by code_simp

lemma hex_plain: "is_hex c \<Longrightarrow> plain c"
  by (auto simp: is_hex_def is_digit_def plain_def less_eq_char_def)

lemma v6_body_plain: "c \<in> set (v6_body gs) \<Longrightarrow> plain c"
  using v6_body_chars [of c gs] hex_plain by (auto simp: plain_def)

lemma string4_plain: "c \<in> set (string4 w) \<Longrightarrow> plain c"
  using string4_chars [of c w] by (auto simp: plain_def is_digit_def less_eq_char_def)

lemma strip_front_plain:
  assumes "s = [] \<or> plain (hd s)" "\<forall>w \<in> set ws. w \<noteq> [] \<and> \<not> plain (hd w)"
  shows "strip_front ws s = s"
proof (rule strip_front_id)
  fix w assume w: "w \<in> set ws" "w \<noteq> []"
  show "\<not> has_prefix w s"
  proof
    assume "has_prefix w s"
    then obtain t where "s = w @ t" by (auto simp: has_prefix_iff)
    with assms w show False by auto
  qed
qed

lemma trim_space_plain:
  assumes "s = [] \<or> plain (hd s) \<and> plain (last s)"
  shows "trim_space s = s"
proof -
  have "strip_front utf8_spaces s = s"
    using assms spaces_not_plain by (intro strip_front_plain) (auto simp: list_all_iff)
  moreover have "strip_front (map rev utf8_spaces) (rev s) = rev s"
    using assms spaces_not_plain by (intro strip_front_plain) (auto simp: list_all_iff hd_rev)
  ultimately show ?thesis by (simp add: trim_space_def)
qed

text \<open>A zone at the end of a trimmed text stays trimmed behind another address.\<close>

lemma trim_space_zone:
  assumes t: "trim_space s = p @ CHR ''%'' # zone" and q: "q \<noteq> []" "plain (hd q)"
  shows "trim_space (q @ CHR ''%'' # zone) = q @ CHR ''%'' # zone"
proof -
  let ?x = "q @ CHR ''%'' # zone" and ?ws = "map rev utf8_spaces"
  have front: "strip_front utf8_spaces ?x = ?x"
    using q spaces_not_plain by (intro strip_front_plain) (auto simp: list_all_iff)
  have "strip_front ?ws (rev ?x) = rev ?x"
  proof (rule strip_front_id)
    fix w assume w: "w \<in> set ?ws" "w \<noteq> []"
    show "\<not> has_prefix w (rev ?x)"
    proof
      assume pre: "has_prefix w (rev ?x)"
      have "CHR ''%'' \<notin> set w" using w spaces_not_plain by (auto simp: list_all_iff)
      moreover from pre obtain u where u: "rev zone @ CHR ''%'' # rev q = w @ u"
        by (auto simp: has_prefix_iff)
      ultimately have "\<exists>k. rev zone = w @ k"
        by (auto simp: append_eq_append_conv2 Cons_eq_append_conv)
      then have "has_prefix w (rev (trim_space s))" unfolding t by (auto simp: has_prefix_iff)
      moreover have "\<not> has_prefix w (rev (trim_space s))"
        using w strip_front_no_prefix [of w ?ws "rev (strip_front utf8_spaces s)"] by (simp add: trim_space_def)
      ultimately show False by simp
    qed
  qed
  then show ?thesis using front by (simp add: trim_space_def)
qed

lemma v6_body_head: "length gs = 8 \<Longrightarrow> v6_body gs \<noteq> [] \<and> plain (hd (v6_body gs))"
proof -
  assume "length gs = 8"
  then have "v6_body gs \<noteq> []" using v6_body_colon [of gs] by force
  then show ?thesis using v6_body_plain hd_in_set by blast
qed

lemma trim_space_String:
  assumes "ParseAddr (trim_space s) = Some a"
  shows "trim_space (addr_String a) = addr_String a"
proof (cases a)
  case (AddrV4 w)
  have "string4 w \<noteq> []" using string4_head by blast
  then have "plain (hd (string4 w))" "plain (last (string4 w))"
    using string4_plain hd_in_set last_in_set by blast+
  then show ?thesis using AddrV4 by (simp add: trim_space_plain)
next
  case (AddrV6 gs zone)
  have gs: "length gs = 8" using ParseAddr_valid [OF assms] AddrV6 by (simp add: valid_addr_def)
  note body = v6_body_head [OF gs]
  show ?thesis
  proof (cases "zone = []")
    case True
    then have "addr_String a = v6_body gs" by (simp add: AddrV6 v6_body_def zone_text_def)
    moreover have "plain (last (v6_body gs))" using body v6_body_plain last_in_set by blast
    ultimately show ?thesis using body by (simp add: trim_space_plain)
  next
    case False
    then have "addr_String a = v6_body gs @ CHR ''%'' # zone" by (simp add: AddrV6 v6_body_def zone_text_def)
    moreover have "parseIPv6 (trim_space s) = Some (AddrV6 gs zone)"
      using assms AddrV6 by (auto simp: ParseAddr_def split: option.splits if_splits)
    then have "tl (dropWhile (\<lambda>c. c \<noteq> CHR ''%'') (trim_space s)) = zone"
      by (auto simp: parseIPv6_def Let_def split: if_splits)
    then have "\<exists>p. trim_space s = p @ CHR ''%'' # zone"
      using False takeWhile_dropWhile_id [of "\<lambda>c. c \<noteq> CHR ''%''" "trim_space s"]
        hd_dropWhile [of "\<lambda>c. c \<noteq> CHR ''%''" "trim_space s"]
      by (metis list.collapse list.sel(2))
    ultimately show ?thesis using trim_space_zone body by metis
  qed
qed

end
