(* ===== verification/PoolFacts.thy ===== *)
theory PoolFacts
  imports Pool NetipFacts DeploymentRecovery
begin

text \<open>
  What the registry of the pool keeps: every stored address is the canonical text of a routable
  address of its family, every stored name and domain is normalised. With it, what every mutation
  does to the registry and to its document.
\<close>

section \<open>Addresses\<close>

definition routable_text :: "string \<Rightarrow> addr \<Rightarrow> bool" where
  "routable_text s a \<longleftrightarrow> valid_addr a \<and> globallyRoutable a \<and> s = addr_String a \<and> trim_space s = s"

definition routable_as :: "family \<Rightarrow> string \<Rightarrow> bool" where
  "routable_as fam s \<longleftrightarrow> (\<exists>a. routable_text s a \<and>
     (case fam of FamilyAuto \<Rightarrow> True | FamilyIPv4 \<Rightarrow> addr_Is4 a | FamilyIPv6 \<Rightarrow> \<not> addr_Is4 a))"

lemma routable_parses: "routable_text s a \<Longrightarrow> ParseAddr (trim_space s) = Some a"
  using ParseAddr_String by (auto simp: routable_text_def)

lemma parsed_routable:
  "ParseAddr (trim_space s) = Some a \<Longrightarrow> globallyRoutable a \<Longrightarrow> routable_text (addr_String a) a"
  by (simp add: routable_text_def ParseAddr_valid trim_space_String)

lemma addr_String_not_Nil: "valid_addr a \<Longrightarrow> addr_String a \<noteq> []"
  using ParseAddr_String [of a] by (auto simp: ParseAddr_def)

lemma routable_not_Nil: "routable_text s a \<Longrightarrow> s \<noteq> []"
  using addr_String_not_Nil by (auto simp: routable_text_def)

lemma addressFamily_text:
  "valid_addr a \<Longrightarrow> addressFamily (addr_String a) = (if addr_Is4 a then FamilyIPv4 else FamilyIPv6)"
  by (simp add: addressFamily_def ParseAddr_String)

lemma normalizeAddresses_routable:
  assumes "normalizeAddresses ss want4 = Inr ns"
  shows "\<forall>s \<in> set ns. routable_as (if want4 then FamilyIPv4 else FamilyIPv6) s" "length ns \<le> 8"
proof -
  let ?P = "\<lambda>ns. \<forall>s \<in> set ns. routable_as (if want4 then FamilyIPv4 else FamilyIPv6) s"
  have run: "length ss \<le> 8" "foldE (normalize_address want4) [] ss = Inr ns"
    using assms by (auto simp: normalizeAddresses_def MaxAddressesPerFamily_def res_simps)
  have step: "?P ys" if "?P xs" "normalize_address want4 xs s = Inr ys" for xs ys s
    using that parsed_routable
    by (fastforce simp: normalize_address_def routable_as_def split: option.splits if_splits)
  show "?P ns" by (rule foldE_invariant [OF run(2), of ?P]) (use step in auto)
  have "length ys \<le> length xs + length ss" if "foldE (normalize_address want4) xs ss = Inr ys" for xs ys
    using that
  proof (induction ss arbitrary: xs)
    case (Cons s ss)
    then obtain zs where zs: "normalize_address want4 xs s = Inr zs" "foldE (normalize_address want4) zs ss = Inr ys"
      by (auto simp: bindE_Inr_iff)
    have "length zs \<le> length xs + 1"
      using zs(1) by (auto simp: normalize_address_def split: option.splits if_splits)
    then show ?case using Cons.IH [OF zs(2)] by simp
  qed simp
  from this [OF run(2)] run(1) show "length ns \<le> 8" by simp
qed

lemma normalize_normalized:
  assumes "\<forall>s \<in> set ns. routable_as (if want4 then FamilyIPv4 else FamilyIPv6) s" and "length ns \<le> 8"
  shows "normalizeAddresses ns want4 = Inr ns"
proof -
  have "foldE (normalize_address want4) acc ns = Inr (acc @ ns)" for acc
    using assms(1)
  proof (induction ns arbitrary: acc)
    case (Cons s ns)
    then obtain a where a: "routable_text s a" "addr_Is4 a \<longleftrightarrow> want4"
      by (auto simp: routable_as_def split: if_splits)
    then have "normalize_address want4 acc s = Inr (acc @ [s])"
      using routable_parses [OF a(1)] by (auto simp: normalize_address_def routable_text_def)
    then show ?case using Cons by simp
  qed simp
  then show ?thesis using assms(2)
    by (simp add: normalizeAddresses_def MaxAddressesPerFamily_def require_def)
qed

definition optional_as :: "family \<Rightarrow> string \<Rightarrow> bool" where
  "optional_as fam s \<longleftrightarrow> s = [] \<or> routable_as fam s"

lemma normalizeOverride_routable:
  "normalizeOverride s fam = Inr t \<Longrightarrow> fam \<noteq> FamilyAuto \<Longrightarrow> optional_as fam t"
  using parsed_routable [of s]
  by (cases fam) (auto simp: normalizeOverride_def Let_def optional_as_def routable_as_def
      addressFamily_text ParseAddr_valid split: if_splits option.splits intro!: exI)

lemma normalizeDiskOverride_routable:
  "normalizeDiskOverride s fam = Inr t \<Longrightarrow> fam \<noteq> FamilyAuto \<Longrightarrow> optional_as fam t"
  using parsed_routable [of s]
  by (cases fam) (auto simp: normalizeDiskOverride_def Let_def optional_as_def routable_as_def
      addressFamily_text ParseAddr_valid split: if_splits option.splits intro!: exI)

lemma normalizeDiskOverride_normalized:
  assumes "optional_as fam s" "fam \<noteq> FamilyAuto"
  shows "normalizeDiskOverride s fam = Inr s"
proof (cases "s = []")
  case True
  then show ?thesis by (simp add: normalizeDiskOverride_def trim_space_plain)
next
  case False
  then obtain a where a: "routable_text s a" "addressFamily s = fam"
    using assms by (cases fam) (auto simp: optional_as_def routable_as_def routable_text_def addressFamily_text)
  then show ?thesis using False routable_parses [OF a(1)]
    by (auto simp: normalizeDiskOverride_def Let_def routable_text_def)
qed

lemma observed_routable: "observed_address s = Inr (Some t) \<Longrightarrow> optional_as FamilyAuto t"
  using parsed_routable [of s]
  by (auto simp: observed_address_def Let_def optional_as_def routable_as_def split: if_splits option.splits)

lemma loaded_observed_routable: "loaded_observed s = Inr t \<Longrightarrow> optional_as FamilyAuto t"
  using parsed_routable [of s]
  by (auto simp: loaded_observed_def Let_def optional_as_def routable_as_def split: if_splits option.splits)

lemma loaded_observed_normalized: "optional_as FamilyAuto s \<Longrightarrow> loaded_observed s = Inr s"
proof (cases "s = []")
  case True
  then show ?thesis by (simp add: loaded_observed_def trim_space_plain)
next
  case False
  assume "optional_as FamilyAuto s"
  then obtain a where a: "routable_text s a" using False by (auto simp: optional_as_def routable_as_def)
  then show ?thesis using False routable_parses [OF a(1)]
    by (auto simp: loaded_observed_def Let_def routable_text_def)
qed

lemma migrate_override_routable:
  "migrate_override s (o4, o6) = Inr (p4, p6) \<Longrightarrow> optional_as FamilyIPv4 o4 \<Longrightarrow> optional_as FamilyIPv6 o6 \<Longrightarrow>
     optional_as FamilyIPv4 p4 \<and> optional_as FamilyIPv6 p6"
  using parsed_routable [of s]
  by (auto simp: migrate_override_def Let_def optional_as_def routable_as_def
      split: if_splits option.splits intro!: exI)

section \<open>Domains\<close>

lemma split_on_members: "c \<in> set s \<Longrightarrow> c = d \<or> (\<exists>l \<in> set (split_on d s). c \<in> set l)"
  by (induction s) (auto split: list.splits if_splits)

lemma split_on_not_Nil: "split_on d s \<noteq> []"
  by (induction s) (auto split: list.splits)

lemma split_on_one: "split_on d s = [y] \<Longrightarrow> y = s"
  by (induction s arbitrary: y) (auto split: list.splits if_splits simp: split_on_not_Nil)

lemma split_on_last: "s \<noteq> [] \<Longrightarrow> last s = d \<Longrightarrow> last (split_on d s) = []"
proof (induction s)
  case (Cons x xs)
  show ?case
  proof (cases "xs = []")
    case True
    then show ?thesis using Cons by simp
  next
    case False
    then have l: "last (split_on d xs) = []" using Cons by simp
    obtain y ys where y: "split_on d xs = y # ys" using split_on_not_Nil by (metis list.exhaust)
    have "ys \<noteq> []" using l y split_on_one [of d xs y] False by auto
    then show ?thesis using l y by auto
  qed
qed simp

lemma domain_byte_plain: "domain_byte c \<Longrightarrow> plain c \<and> ascii_lower c = c \<and> of_char c < (128 :: nat)"
  by (auto simp: domain_byte_def plain_def ascii_lower_def is_lower_def is_digit_def is_upper_def less_eq_char_def)

lemma normalized_domain_again:
  assumes "NormalizeSubscriptionDomain env s = Inr d"
  shows "NormalizeSubscriptionDomain env d = Inr d"
proof (cases "d = []")
  case True
  then show ?thesis by (simp add: NormalizeSubscriptionDomain_def trim_space_plain to_lower_def)
next
  case False
  then have d: "length d \<le> 253" "\<not> contains_any (CHR 0x5C # '':/[]*@'') d" "ParseAddr d = None"
    "\<not> length (split_on (CHR ''.'') d) < 2" "list_all domain_label (split_on (CHR ''.'') d)"
    using assms by (auto simp: NormalizeSubscriptionDomain_def Let_def split: if_splits)
  have bytes: "domain_byte c \<or> c = CHR ''.''" if "c \<in> set d" for c
    using split_on_members [OF that, of "CHR ''.''"] d(5) by (auto simp: list_all_iff domain_label_def)
  have "plain (CHR ''.'')" "ascii_lower (CHR ''.'') = CHR ''.''" "of_char (CHR ''.'') < (128 :: nat)"
    by (simp_all add: plain_def ascii_lower_def is_upper_def less_eq_char_def)
  then have chars: "plain c \<and> ascii_lower c = c \<and> of_char c < (128 :: nat)" if "c \<in> set d" for c
    using bytes [OF that] domain_byte_plain by metis
  have "trim_space d = d" using chars False by (intro trim_space_plain) simp
  moreover have "to_lower env d = d"
    using chars by (auto simp: to_lower_def list_all_iff intro: map_idI)
  moreover have "last d \<noteq> CHR ''.''"
  proof
    assume "last d = CHR ''.''"
    then have "last (split_on (CHR ''.'') d) = []" using split_on_last False by blast
    moreover have "last (split_on (CHR ''.'') d) \<in> set (split_on (CHR ''.'') d)"
      using split_on_not_Nil last_in_set by blast
    ultimately show False using d(5) by (auto simp: list_all_iff domain_label_def)
  qed
  ultimately show ?thesis using False d by (simp add: NormalizeSubscriptionDomain_def Let_def)
qed

section \<open>The invariant of the registry\<close>

definition sound_agent :: "pool_env \<Rightarrow> agent_record \<Rightarrow> bool" where
  "sound_agent env a \<longleftrightarrow>
     (\<forall>s \<in> set (agt_reportedV4 a). routable_as FamilyIPv4 s) \<and> length (agt_reportedV4 a) \<le> 8 \<and>
     (\<forall>s \<in> set (agt_reportedV6 a). routable_as FamilyIPv6 s) \<and> length (agt_reportedV6 a) \<le> 8 \<and>
     (\<forall>s \<in> set (agt_probedV4 a). routable_as FamilyIPv4 s) \<and> length (agt_probedV4 a) \<le> 8 \<and>
     (\<forall>s \<in> set (agt_probedV6 a). routable_as FamilyIPv6 s) \<and> length (agt_probedV6 a) \<le> 8 \<and>
     optional_as FamilyAuto (agt_observed a) \<and> optional_as FamilyIPv4 (agt_overrideV4 a) \<and>
     optional_as FamilyIPv6 (agt_overrideV6 a) \<and>
     NormalizeSubscriptionDomain env (agt_subscriptionDomainV4 a) = Inr (agt_subscriptionDomainV4 a) \<and>
     NormalizeSubscriptionDomain env (agt_subscriptionDomainV6 a) = Inr (agt_subscriptionDomainV6 a)"

definition sound_manual :: "pool_env \<Rightarrow> manual_record \<Rightarrow> bool" where
  "sound_manual env m \<longleftrightarrow>
     validateManualOutbound env (man_outbound m) = Inr (man_outbound m) \<and> length (man_remark m) \<le> 256"

definition sound_registry :: "pool_env \<Rightarrow> registry \<Rightarrow> bool" where
  "sound_registry env r \<longleftrightarrow>
     finite (dom (reg_manual r)) \<and> finite (dom (reg_agents r)) \<and> finite (dom (reg_rendered r)) \<and>
     (\<forall>n m. reg_manual r n = Some m \<longrightarrow> validComponent n \<and> sound_manual env m) \<and>
     (\<forall>i a. reg_agents r i = Some a \<longrightarrow> validComponent i \<and> sound_agent env a) \<and>
     (\<forall>i x. reg_rendered r i = Some x \<longrightarrow> validComponent i)"

lemma no_domain: "NormalizeSubscriptionDomain env [] = Inr []"
  by (simp add: NormalizeSubscriptionDomain_def trim_space_plain to_lower_def)

lemma sound_zero: "sound_agent env zero_agent"
  by (simp add: sound_agent_def zero_agent_def optional_as_def no_domain)

lemma sound_agent_at: "sound_registry env r \<Longrightarrow> sound_agent env (agent_at r i)"
  by (auto simp: agent_at_def sound_registry_def sound_zero split: option.splits)

lemma sound_file [simp]: "sound_registry env (r\<lparr>reg_file := f\<rparr>) = sound_registry env r"
  by (simp add: sound_registry_def)

lemma sound_bumped [simp]: "sound_registry env (bumped r) = sound_registry env r"
  by (simp add: sound_registry_def bumped_def)

lemma sound_put_agent:
  "sound_registry env r \<Longrightarrow> validComponent i \<Longrightarrow> sound_agent env a \<Longrightarrow> sound_registry env (put_agent i a r)"
  by (auto simp: sound_registry_def put_agent_def)

lemma commit_cases:
  assumes "commit env flt old new = (res, r)"
  obtains (acknowledged) bytes where "res = Inr ()" "marshalLocked env new = Inr bytes"
      "r = new\<lparr>reg_file := Some \<lparr>pfi_regular = True, pfi_bytes = bytes\<rparr>\<rparr>"
  | (refused) e doc where "res = Inl e" "r = old\<lparr>reg_file := doc\<rparr>"
      "is_ok (pfl_dirsync flt) \<longrightarrow> doc = reg_file new"
proof (cases "marshalLocked env new")
  case (Inl e)
  show ?thesis
    by (rule refused [of e "reg_file new"]) (use assms Inl in \<open>auto simp: commit_def pool_persistLocked_def\<close>)
next
  case (Inr bytes)
  show ?thesis
  proof (cases "bindE (pfl_write flt) (\<lambda>_. pfl_rename flt)")
    case (Inl e)
    show ?thesis
      by (rule refused [of e "reg_file new"]) (use assms Inl Inr in \<open>auto simp: commit_def pool_persistLocked_def\<close>)
  next
    case written: (Inr u)
    show ?thesis
    proof (cases "pfl_dirsync flt")
      case (Inl e)
      show ?thesis
      proof (rule refused [of e "Some \<lparr>pfi_regular = True, pfi_bytes = bytes\<rparr>"])
        show "res = Inl e" "r = old\<lparr>reg_file := Some \<lparr>pfi_regular = True, pfi_bytes = bytes\<rparr>\<rparr>"
          using assms Inl Inr written by (auto simp: commit_def pool_persistLocked_def)
        show "is_ok (pfl_dirsync flt) \<longrightarrow> Some \<lparr>pfi_regular = True, pfi_bytes = bytes\<rparr> = reg_file new"
          by (simp add: Inl)
      qed
    next
      case synced: (Inr v)
      show ?thesis
        by (rule acknowledged [of bytes])
          (use assms synced Inr written in \<open>auto simp: commit_def pool_persistLocked_def\<close>)
    qed
  qed
qed

lemma commit_sound:
  "commit env flt old new = (res, r) \<Longrightarrow> sound_registry env old \<Longrightarrow> sound_registry env new \<Longrightarrow>
     sound_registry env r"
  by (erule commit_cases) auto

section \<open>Requests\<close>

datatype pool_request =
    UpsertRequest string string string
  | RemoveManualRequest string
  | DiscardRequest
  | ReportedRequest string "string list" "string list"
  | ProbedRequest string "string list" "string list"
  | ObservedRequest string string
  | OverridesRequest string string string
  | OverrideRequest string string
  | DomainsRequest string string string
  | MarkRequest string u64 digest
  | RemoveAgentRequest string

definition acknowledged :: "bool res \<times> registry \<Rightarrow> unit res \<times> registry" where
  "acknowledged = (\<lambda>(res, r). (bindE res (\<lambda>_. ok ()), r))"

fun pool_perform :: "pool_env \<Rightarrow> pool_call \<Rightarrow> pool_request \<Rightarrow> registry \<Rightarrow> unit res \<times> registry" where
  "pool_perform env c (UpsertRequest n m out) r = UpsertManualWithRemark env c n m out r"
| "pool_perform env c (RemoveManualRequest n) r = RemoveManual env c n r"
| "pool_perform env c DiscardRequest r = DiscardLegacyConfiguration env c r"
| "pool_perform env c (ReportedRequest i a4 a6) r = acknowledged (SetReported env c i a4 a6 r)"
| "pool_perform env c (ProbedRequest i a4 a6) r = acknowledged (SetProbed env c i a4 a6 r)"
| "pool_perform env c (ObservedRequest i a) r = acknowledged (SetObserved env c i a r)"
| "pool_perform env c (OverridesRequest i a4 a6) r = SetOverrides env c i a4 a6 r"
| "pool_perform env c (OverrideRequest i a) r = SetOverride env c i a r"
| "pool_perform env c (DomainsRequest i d4 d6) r = SetSubscriptionDomains env c i d4 d6 r"
| "pool_perform env c (MarkRequest i v sha) r = MarkRendered env c i v sha r"
| "pool_perform env c (RemoveAgentRequest i) r = pool_RemoveAgent env c i r"

text \<open>
  What a mutation may do: refuse or ignore the request, or commit a sound registry, with a new pool
  version or with the same manual outbounds and the same addresses.
\<close>

definition content :: "registry \<Rightarrow> (string \<rightharpoonup> manual_record) \<times> (string \<Rightarrow> family \<Rightarrow> (string \<times> address_source) option)" where
  "content r = (reg_manual r, AddressSourceForFamily r)"

definition proposes :: "pool_env \<Rightarrow> registry \<Rightarrow> registry \<Rightarrow> bool" where
  "proposes env r new \<longleftrightarrow>
     (sound_registry env r \<longrightarrow> sound_registry env new) \<and> reg_file new = reg_file r \<and>
     (reg_poolVersion new = reg_poolVersion r + 1 \<or>
      reg_poolVersion new = reg_poolVersion r \<and> content new = content r)"

inductive pool_step ::
  "pool_env \<Rightarrow> pool_faults \<Rightarrow> registry \<Rightarrow> unit res \<times> registry \<Rightarrow> bool" for env flt r where
  idle: "pool_step env flt r (res, r)"
| commits: "proposes env r new \<Longrightarrow> pool_step env flt r (commit env flt r new)"

lemma bumped_proposes: "(sound_registry env r \<Longrightarrow> sound_registry env new) \<Longrightarrow>
    reg_poolVersion new = reg_poolVersion r \<Longrightarrow> reg_file new = reg_file r \<Longrightarrow> proposes env r (bumped new)"
  by (simp add: proposes_def) (simp add: bumped_def)

lemma acknowledged_idle: "pool_step env flt r (acknowledged (x, r))"
  by (simp add: acknowledged_def pool_step.idle)

lemma acknowledged_commit: "acknowledged (changed_reply (commit env flt r new)) = commit env flt r new"
  by (simp add: acknowledged_def changed_reply_def commit_def split: sum.splits prod.splits)

lemma put_agent_keeps [simp]:
  "reg_poolVersion (put_agent i a r) = reg_poolVersion r" "reg_file (put_agent i a r) = reg_file r"
  by (simp_all add: put_agent_def)

lemma agent_step:
  assumes "validComponent i" and "sound_registry env r \<Longrightarrow> sound_agent env a"
  shows "pool_step env flt r (commit env flt r (bumped (put_agent i a r)))"
  using assms by (intro pool_step.commits bumped_proposes sound_put_agent) auto

lemma agent_step_acknowledged:
  assumes "validComponent i" and "sound_registry env r \<Longrightarrow> sound_agent env a"
  shows "pool_step env flt r (acknowledged (changed_reply (commit env flt r (bumped (put_agent i a r)))))"
  unfolding acknowledged_commit using assms by (rule agent_step)

lemma upsert_step: "pool_step env (pcl_faults c) r (UpsertManualWithRemark env c n m out r)"
proof -
  have "pool_step env flt r (commit env flt r (bumped (r\<lparr>reg_manual := (reg_manual r)(n \<mapsto> x)\<rparr>)))"
    if "validComponent n" "sound_manual env x" for x flt
    using that by (intro pool_step.commits bumped_proposes) (auto simp: sound_registry_def)
  moreover have "validateManualOutbound env out = Inr y \<Longrightarrow> y = out" for y
    by (auto simp: validateManualOutbound_def split: if_splits option.splits)
  ultimately show ?thesis
    by (auto simp: UpsertManualWithRemark_def Let_def sound_manual_def intro!: pool_step.idle split: sum.splits)
qed

lemma reported_step: "pool_step env (pcl_faults c) r (acknowledged (SetReported env c i a4 a6 r))"
proof (cases "normalizeAddresses a4 True"; cases "normalizeAddresses a6 False")
  fix n4 n6 assume n: "normalizeAddresses a4 True = Inr n4" "normalizeAddresses a6 False = Inr n6"
  note n4 = normalizeAddresses_routable [OF n(1), simplified] and n6 = normalizeAddresses_routable [OF n(2), simplified]
  have "sound_agent env (agent_at r i)" if "sound_registry env r" using that by (rule sound_agent_at)
  with n4 n6 show ?thesis
    by (auto simp: SetReported_def Let_def n sound_agent_def intro!: acknowledged_idle agent_step_acknowledged)
qed (auto simp: SetReported_def intro: acknowledged_idle)

lemma probed_step: "pool_step env (pcl_faults c) r (acknowledged (SetProbed env c i a4 a6 r))"
proof -
  have "pool_step env flt r (acknowledged (changed_reply (commit env flt r (bumped (put_agent i
      (agent_at r i\<lparr>agt_probedV4 := p4, agt_probedV6 := p6, agt_updatedAt := t\<rparr>) r)))))"
    if "validComponent i" "normalizeAddresses a4 True = Inr n4" "normalizeAddresses a6 False = Inr n6"
      "p4 = [] \<or> p4 = n4" "p6 = [] \<or> p6 = n6"
    for n4 n6 p4 p6 t flt
    using that normalizeAddresses_routable [OF that(2)] normalizeAddresses_routable [OF that(3)] sound_agent_at
    by (intro agent_step_acknowledged) (auto simp: sound_agent_def)
  then show ?thesis
    by (auto simp: SetProbed_def Let_def res_simps intro!: acknowledged_idle split: sum.splits)
qed

lemma observed_step: "pool_step env (pcl_faults c) r (acknowledged (SetObserved env c i a r))"
proof -
  have "pool_step env flt r (acknowledged (changed_reply (commit env flt r (bumped (put_agent i
      (agent_at r i\<lparr>agt_observed := x, agt_updatedAt := t\<rparr>) r)))))"
    if "validComponent i" "observed_address a = Inr (Some x)" for x t flt
    using that observed_routable [OF that(2)] sound_agent_at
    by (intro agent_step_acknowledged) (auto simp: sound_agent_def)
  then show ?thesis
    by (auto simp: SetObserved_def Let_def intro!: acknowledged_idle split: sum.splits option.splits)
qed

lemma overrides_step: "pool_step env (pcl_faults c) r (SetOverrides env c i a4 a6 r)"
proof -
  have "pool_step env flt r (commit env flt r (bumped (put_agent i
      (agent_at r i\<lparr>agt_overrideV4 := n4, agt_overrideV6 := n6, agt_updatedAt := t\<rparr>) r)))"
    if "validComponent i" "normalizeOverride a4 FamilyIPv4 = Inr n4" "normalizeOverride a6 FamilyIPv6 = Inr n6"
    for n4 n6 t flt
    using that normalizeOverride_routable sound_agent_at
    by (intro agent_step) (auto simp: sound_agent_def)
  then show ?thesis
    by (auto simp: SetOverrides_def Let_def res_simps intro!: pool_step.idle split: sum.splits)
qed

lemma override_step: "pool_step env (pcl_faults c) r (SetOverride env c i a r)"
  by (auto simp: SetOverride_def Let_def intro!: pool_step.idle overrides_step split: option.splits)

lemma resolve_cong:
  "agt_overrideV4 a = agt_overrideV4 b \<Longrightarrow> agt_overrideV6 a = agt_overrideV6 b \<Longrightarrow>
   agt_observed a = agt_observed b \<Longrightarrow> agt_probedV4 a = agt_probedV4 b \<Longrightarrow> agt_probedV6 a = agt_probedV6 b \<Longrightarrow>
   agt_reportedV4 a = agt_reportedV4 b \<Longrightarrow> agt_reportedV6 a = agt_reportedV6 b \<Longrightarrow>
   resolveForFamily a fam = resolveForFamily b fam"
  unfolding resolveForFamily_def resolve_family_def Let_def by (simp only:)

lemma no_address_resolves: "no_address a \<Longrightarrow> resolveForFamily a fam = None"
  by (simp add: no_address_def resolveForFamily_def resolve_family_def)

lemma domains_step: "pool_step env (pcl_faults c) r (SetSubscriptionDomains env c i d4 d6 r)"
proof -
  let ?a = "\<lambda>n4 n6. agent_at r i\<lparr>agt_subscriptionDomainV4 := n4, agt_subscriptionDomainV6 := n6, agt_updatedAt := pcl_now c\<rparr>"
  let ?new = "\<lambda>n4 n6. if n4 = [] \<and> n6 = [] \<and> no_address (?a n4 n6)
      then r\<lparr>reg_agents := (reg_agents r)(i := None)\<rparr> else put_agent i (?a n4 n6) r"
  have same: "resolveForFamily (?a n4 n6) fam = resolveForFamily (agent_at r i) fam" for n4 n6 fam
    by (rule resolve_cong) simp_all
  have zero: "resolveForFamily zero_agent fam = None" for fam
    by (rule no_address_resolves) (simp add: no_address_def zero_agent_def)
  have content: "AddressSourceForFamily (?new n4 n6) = AddressSourceForFamily r" for n4 n6
  proof (intro ext)
    fix j fam
    show "AddressSourceForFamily (?new n4 n6) j fam = AddressSourceForFamily r j fam"
      using same [of n6 n4 fam] zero [of fam] no_address_resolves [of "?a n4 n6" fam]
      by (cases "reg_agents r i") (auto simp: AddressSourceForFamily_def put_agent_def agent_at_def)
  qed
  have "pool_step env (pcl_faults c) r (commit env (pcl_faults c) r (?new n4 n6))"
    if "validComponent i" "NormalizeSubscriptionDomain env d4 = Inr n4" "NormalizeSubscriptionDomain env d6 = Inr n6"
    for n4 n6
  proof (rule pool_step.commits)
    have "sound_agent env (?a n4 n6)" if "sound_registry env r"
      using sound_agent_at [OF that, of i] normalized_domain_again
        \<open>NormalizeSubscriptionDomain env d4 = Inr n4\<close> \<open>NormalizeSubscriptionDomain env d6 = Inr n6\<close>
      by (auto simp: sound_agent_def)
    then have "sound_registry env (?new n4 n6)" if "sound_registry env r"
      using that sound_put_agent [OF that \<open>validComponent i\<close>] by (auto simp: sound_registry_def)
    then show "proposes env r (?new n4 n6)"
      using content [of n4 n6] by (simp add: proposes_def content_def put_agent_def)
  qed
  then show ?thesis
    by (auto simp: SetSubscriptionDomains_def Let_def res_simps intro!: pool_step.idle split: sum.splits)
qed

lemma perform_step: "pool_step env (pcl_faults c) r (pool_perform env c q r)"
proof (cases q)
  case (RemoveManualRequest n)
  have "pool_step env flt r (commit env flt r (bumped (r\<lparr>reg_manual := (reg_manual r)(n := None)\<rparr>)))" for flt
    by (intro pool_step.commits bumped_proposes) (auto simp: sound_registry_def)
  then show ?thesis using RemoveManualRequest
    by (auto simp: RemoveManual_def intro!: pool_step.idle split: option.splits)
next
  case DiscardRequest
  have "pool_step env flt r (commit env flt r (bumped (r\<lparr>reg_manual := Map.empty, reg_rendered := Map.empty\<rparr>)))" for flt
    by (intro pool_step.commits bumped_proposes) (auto simp: sound_registry_def)
  then show ?thesis using DiscardRequest
    by (auto simp: DiscardLegacyConfiguration_def intro!: pool_step.idle)
next
  case (MarkRequest i v sha)
  have "pool_step env flt r (commit env flt r (r\<lparr>reg_rendered := (reg_rendered r)(i \<mapsto> x)\<rparr>))"
    if "validComponent i" for flt x
    using that by (intro pool_step.commits)
      (auto simp: proposes_def sound_registry_def content_def AddressSourceForFamily_def fun_eq_iff)
  then show ?thesis using MarkRequest
    by (auto simp: MarkRendered_def intro!: pool_step.idle)
next
  case (RemoveAgentRequest i)
  have "pool_step env flt r (commit env flt r (bumped (r\<lparr>reg_agents := (reg_agents r)(i := None),
      reg_rendered := (reg_rendered r)(i := None)\<rparr>)))" for flt
    by (intro pool_step.commits bumped_proposes) (auto simp: sound_registry_def)
  then show ?thesis using RemoveAgentRequest
    by (auto simp: pool_RemoveAgent_def intro!: pool_step.idle)
qed (simp_all add: upsert_step reported_step probed_step observed_step overrides_step override_step domains_step)

end
