(* ===== verification/PoolRecovery.thy ===== *)
theory PoolRecovery
  imports PoolFacts
begin

text \<open>
  Opening a registry: what \<open>Open\<close> makes of the document \<open>marshalLocked\<close> has written, and that
  whatever it accepts satisfies the invariant.
\<close>

section \<open>Filling a map in a loop\<close>

lemma foldE_fill:
  assumes "\<And>acc x. x \<in> set xs \<Longrightarrow> acc (key x) = None \<Longrightarrow> step acc x = Inr (acc(key x \<mapsto> val x))"
    and "distinct (map key xs)" and "\<forall>x \<in> set xs. acc (key x) = None"
  shows "foldE step acc xs = Inr (acc ++ map_of (map (\<lambda>x. (key x, val x)) xs))"
  using assms
proof (induction xs arbitrary: acc)
  case (Cons x xs)
  have "foldE step (acc(key x \<mapsto> val x)) xs =
      Inr (acc(key x \<mapsto> val x) ++ map_of (map (\<lambda>x. (key x, val x)) xs))"
    by (rule Cons.IH) (use Cons.prems in \<open>auto simp: image_iff\<close>)
  moreover have "key x \<notin> dom (map_of (map (\<lambda>x. (key x, val x)) xs))"
    using Cons.prems(2) by (auto simp: dom_map_of_conv_image_fst image_iff)
  moreover have "foldE step acc (x # xs) = foldE step (acc(key x \<mapsto> val x)) xs"
    using Cons.prems(1) [of x acc] Cons.prems(3) by (simp only: foldE.simps bindE.simps list.set_intros)
  ultimately show ?case
    by (simp only: map_add_upd_left list.simps map_of.simps fst_conv snd_conv map_add_upd
        not_False_eq_True simp_thms)
qed simp

lemma map_of_tabulated:
  "finite (dom m) \<Longrightarrow> map_of (map (\<lambda>i. (i, the (m i))) (sorted_list_of_set (dom m))) = m"
  by (rule ext) (auto simp: map_of_map_restrict restrict_map_def domIff split: if_splits)

section \<open>Reading back one record\<close>

lemma agent_read_back: "sound_agent env a \<Longrightarrow> validateDiskAgent env (store_agent a) = Inr a"
  by (simp add: sound_agent_def validateDiskAgent_def store_agent_def normalize_normalized
      normalizeDiskOverride_normalized loaded_observed_normalized migrate_override_def trim_space_plain)

definition reopened_manual :: "manual_record \<Rightarrow> manual_record" where
  "reopened_manual m = m\<lparr>man_outbound := reformat (man_outbound m)\<rparr>"

lemma manual_rebuilt:
  "\<lparr>man_remark = man_remark m, man_outbound = reformat (man_outbound m),
    man_createdAt = man_createdAt m, man_updatedAt = man_updatedAt m\<rparr> = reopened_manual m"
  by (cases m) (simp add: reopened_manual_def)

definition reopened :: "registry \<Rightarrow> registry" where
  "reopened r = r\<lparr>reg_manual := map_option reopened_manual \<circ> reg_manual r\<rparr>"

lemma reopened_reads [simp]:
  "AddressSourceForFamily (reopened r) = AddressSourceForFamily r"
  "RenderedVersion (reopened r) = RenderedVersion r"
  "SubscriptionDomains (reopened r) = SubscriptionDomains r"
  by (auto simp: fun_eq_iff reopened_def AddressSourceForFamily_def RenderedVersion_def
      SubscriptionDomains_def agent_at_def)

definition reopens_outbounds :: "pool_env \<Rightarrow> registry \<Rightarrow> bool" where
  "reopens_outbounds env r \<longleftrightarrow>
     (\<forall>n m. reg_manual r n = Some m \<longrightarrow> is_ok (validateManualOutbound env (reformat (man_outbound m))))"

lemma validateManualOutbound_same: "validateManualOutbound env s = Inr t \<Longrightarrow> t = s"
  by (auto simp: validateManualOutbound_def split: if_splits option.splits)

lemma manuals_read_back:
  assumes "sound_registry env r" and "reopens_outbounds env r"
  shows "foldE (load_manual env) Map.empty (drg_Manual (reformatted (stored_registry r))) =
    Inr (reg_manual (reopened r))"
proof -
  let ?m = "reg_manual r"
  let ?d = "\<lambda>n. (store_manual n (the (?m n)))\<lparr>dmn_Outbound := reformat (man_outbound (the (?m n)))\<rparr>"
  have fin: "finite (dom ?m)" using assms(1) by (simp add: sound_registry_def)
  have docs: "drg_Manual (reformatted (stored_registry r)) = map ?d (manual_names r)"
    by (simp add: reformatted_def stored_registry_def store_manual_def)
  have step: "load_manual env acc (?d n) = Inr (acc(n \<mapsto> the (map_option reopened_manual (?m n))))"
    if n: "n \<in> set (manual_names r)" "acc n = None" for acc n
  proof -
    obtain m where m: "?m n = Some m" using n(1) fin by (auto simp: manual_names_def)
    then have "validComponent n" "length (man_remark m) \<le> 256"
      using assms(1) by (auto simp: sound_registry_def sound_manual_def)
    moreover have "validateManualOutbound env (reformat (man_outbound m)) = Inr (reformat (man_outbound m))"
      using assms(2) m validateManualOutbound_same by (fastforce simp: reopens_outbounds_def is_ok_iff)
    ultimately show ?thesis using n(2) m
      by (simp add: load_manual_def store_manual_def manual_rebuilt require_def)
  qed
  have "foldE (load_manual env) Map.empty (map ?d (manual_names r)) =
      foldE (\<lambda>acc n. load_manual env acc (?d n)) Map.empty (manual_names r)"
    by (simp add: foldE_map)
  also have "\<dots> = Inr (Map.empty ++ map_of (map (\<lambda>n. (n, the (map_option reopened_manual (?m n)))) (manual_names r)))"
    by (rule foldE_fill) (auto intro: step simp: manual_names_def)
  also have "map_of (map (\<lambda>n. (n, the (map_option reopened_manual (?m n)))) (manual_names r)) =
      map_option reopened_manual \<circ> ?m"
    using map_of_tabulated [of "map_option reopened_manual \<circ> ?m"] fin by (simp add: manual_names_def dom_map_option_comp)
  finally show ?thesis by (simp add: docs reopened_def comp_def)
qed

lemma agents_read_back:
  assumes "sound_registry env r"
  shows "foldE (load_agent env (map_option store_agent \<circ> reg_agents r)) Map.empty
    (sorted_list_of_set (dom (reg_agents r))) = Inr (reg_agents r)"
proof -
  have fin: "finite (dom (reg_agents r))" using assms by (simp add: sound_registry_def)
  have "load_agent env (map_option store_agent \<circ> reg_agents r) acc i = Inr (acc(i \<mapsto> the (reg_agents r i)))"
    if "i \<in> dom (reg_agents r)" for acc i
    using that assms agent_read_back by (auto simp: load_agent_def sound_registry_def require_def)
  then have "foldE (load_agent env (map_option store_agent \<circ> reg_agents r)) Map.empty
      (sorted_list_of_set (dom (reg_agents r))) =
      Inr (Map.empty ++ map_of (map (\<lambda>i. (i, the (reg_agents r i))) (sorted_list_of_set (dom (reg_agents r)))))"
    by (intro foldE_fill) (use fin in auto)
  then show ?thesis using fin by (simp add: map_of_tabulated)
qed

lemma renders_read_back:
  assumes "sound_registry env r"
  shows "foldE (load_rendered (map_option store_rendered \<circ> reg_rendered r)) Map.empty
    (sorted_list_of_set (dom (reg_rendered r))) = Inr (reg_rendered r)"
proof -
  have fin: "finite (dom (reg_rendered r))" using assms by (simp add: sound_registry_def)
  have same: "\<lparr>ren_poolVersion = ren_poolVersion x, ren_configSHA = ren_configSHA x\<rparr> = x" for x
    by (cases x) simp
  have "load_rendered (map_option store_rendered \<circ> reg_rendered r) acc i = Inr (acc(i \<mapsto> the (reg_rendered r i)))"
    if "i \<in> dom (reg_rendered r)" for acc i
    using that assms
    by (auto simp: load_rendered_def store_rendered_def sound_registry_def require_def from_option_def same)
  then have "foldE (load_rendered (map_option store_rendered \<circ> reg_rendered r)) Map.empty
      (sorted_list_of_set (dom (reg_rendered r))) =
      Inr (Map.empty ++ map_of (map (\<lambda>i. (i, the (reg_rendered r i))) (sorted_list_of_set (dom (reg_rendered r)))))"
    by (intro foldE_fill) (use fin in auto)
  then show ?thesis using fin by (simp add: map_of_tabulated)
qed

lemma registry_read_back:
  assumes "sound_registry env r" and "reopens_outbounds env r"
  shows "load_registry env (reformatted (stored_registry r)) (reg_file r) = Inr (reopened r)"
proof -
  have "drg_Version (reformatted (stored_registry r)) = diskRegistryVersion"
    "drg_PoolVersion (reformatted (stored_registry r)) = reg_poolVersion r"
    "drg_Agents (reformatted (stored_registry r)) = map_option store_agent \<circ> reg_agents r"
    "drg_Rendered (reformatted (stored_registry r)) = map_option store_rendered \<circ> reg_rendered r"
    by (simp_all add: reformatted_def stored_registry_def)
  moreover have "\<lparr>reg_poolVersion = reg_poolVersion r, reg_manual = m, reg_agents = reg_agents r,
      reg_rendered = reg_rendered r, reg_file = reg_file r\<rparr> = r\<lparr>reg_manual := m\<rparr>" for m
    by (cases r) simp
  ultimately show ?thesis
    using assms by (simp add: load_registry_def manuals_read_back agents_read_back renders_read_back
        require_def reopened_def)
qed

section \<open>What opening accepts\<close>

lemma validated_agent_sound:
  assumes "validateDiskAgent env d = Inr a"
  shows "sound_agent env a"
proof -
  obtain r4 r6 p4 p6 ob o4 o6 s4 s6 q4 q6 where parts:
    "normalizeAddresses (dag_ReportedV4 d) True = Inr r4" "normalizeAddresses (dag_ReportedV6 d) False = Inr r6"
    "normalizeAddresses (dag_ProbedV4 d) True = Inr p4" "normalizeAddresses (dag_ProbedV6 d) False = Inr p6"
    "loaded_observed (dag_ObservedAddress d) = Inr ob"
    "normalizeDiskOverride (dag_AddressOverrideV4 d) FamilyIPv4 = Inr o4"
    "normalizeDiskOverride (dag_AddressOverrideV6 d) FamilyIPv6 = Inr o6"
    "NormalizeSubscriptionDomain env (dag_SubscriptionDomainV4 d) = Inr s4"
    "NormalizeSubscriptionDomain env (dag_SubscriptionDomainV6 d) = Inr s6"
    "migrate_override (dag_AddressOverride d) (o4, o6) = Inr (q4, q6)"
    and a: "a = \<lparr>agt_reportedV4 = r4, agt_reportedV6 = r6, agt_observed = ob, agt_probedV4 = p4,
      agt_probedV6 = p6, agt_overrideV4 = q4, agt_overrideV6 = q6, agt_subscriptionDomainV4 = s4,
      agt_subscriptionDomainV6 = s6, agt_updatedAt = dag_UpdatedAt d\<rparr>"
    using assms by (auto simp: validateDiskAgent_def Let_def res_simps)
  have "optional_as FamilyIPv4 q4 \<and> optional_as FamilyIPv6 q6"
    using parts(10) normalizeDiskOverride_routable [OF parts(6)] normalizeDiskOverride_routable [OF parts(7)]
    by (intro migrate_override_routable [of "dag_AddressOverride d" o4 o6]) auto
  then show ?thesis
    using normalizeAddresses_routable [OF parts(1)] normalizeAddresses_routable [OF parts(2)]
      normalizeAddresses_routable [OF parts(3)] normalizeAddresses_routable [OF parts(4)]
      loaded_observed_routable [OF parts(5)] normalized_domain_again [OF parts(8)]
      normalized_domain_again [OF parts(9)]
    by (simp add: a sound_agent_def)
qed

lemma foldE_invariant_at:
  "foldE f s xs = Inr s' \<Longrightarrow> P s \<Longrightarrow> (\<And>s x s'. P s \<Longrightarrow> f s x = Inr s' \<Longrightarrow> P s') \<Longrightarrow> P s'"
  by (rule foldE_invariant [of f s xs s' P])

lemma loaded_manual_sound:
  assumes "foldE (load_manual env) Map.empty ds = Inr m"
  shows "finite (dom m) \<and> (\<forall>n x. m n = Some x \<longrightarrow> validComponent n \<and> sound_manual env x)"
  using assms
proof (rule foldE_invariant_at)
  fix acc d acc'
  assume acc: "finite (dom acc) \<and> (\<forall>n x. acc n = Some x \<longrightarrow> validComponent n \<and> sound_manual env x)"
    and "load_manual env acc d = Inr acc'"
  then obtain out where "validComponent (dmn_Name d)" "length (dmn_Remark d) \<le> 256"
    "validateManualOutbound env (dmn_Outbound d) = Inr out"
    "acc' = acc(dmn_Name d \<mapsto> \<lparr>man_remark = dmn_Remark d, man_outbound = out,
       man_createdAt = dmn_CreatedAt d, man_updatedAt = dmn_UpdatedAt d\<rparr>)"
    by (auto simp: load_manual_def res_simps)
  moreover from this(3) have "out = dmn_Outbound d" by (rule validateManualOutbound_same)
  ultimately show "finite (dom acc') \<and> (\<forall>n x. acc' n = Some x \<longrightarrow> validComponent n \<and> sound_manual env x)"
    using acc by (simp add: sound_manual_def)
qed simp

lemma loaded_agents_sound:
  assumes "foldE (load_agent env stored) Map.empty keys = Inr m"
  shows "finite (dom m) \<and> (\<forall>i a. m i = Some a \<longrightarrow> validComponent i \<and> sound_agent env a)"
  using assms
proof (rule foldE_invariant_at)
  fix acc i acc'
  assume acc: "finite (dom acc) \<and> (\<forall>i a. acc i = Some a \<longrightarrow> validComponent i \<and> sound_agent env a)"
    and "load_agent env stored acc i = Inr acc'"
  then obtain a where "validComponent i" "validateDiskAgent env (the (stored i)) = Inr a" "acc' = acc(i \<mapsto> a)"
    by (auto simp: load_agent_def res_simps)
  then show "finite (dom acc') \<and> (\<forall>i a. acc' i = Some a \<longrightarrow> validComponent i \<and> sound_agent env a)"
    using acc validated_agent_sound by auto
qed simp

lemma loaded_rendered_sound:
  assumes "foldE (load_rendered stored) Map.empty keys = Inr m"
  shows "finite (dom m) \<and> (\<forall>i a. m i = Some a \<longrightarrow> validComponent i)"
  using assms
proof (rule foldE_invariant_at)
  fix acc i acc'
  assume acc: "finite (dom acc) \<and> (\<forall>i a. acc i = Some a \<longrightarrow> validComponent i)"
    and "load_rendered stored acc i = Inr acc'"
  then obtain x where "validComponent i" "acc' = acc(i \<mapsto> x)"
    by (auto simp: load_rendered_def res_simps)
  then show "finite (dom acc') \<and> (\<forall>i a. acc' i = Some a \<longrightarrow> validComponent i)"
    using acc by auto
qed simp

lemma loaded_registry_sound:
  assumes "load_registry env d f = Inr r"
  shows "sound_registry env r"
proof -
  obtain m a x where "foldE (load_manual env) Map.empty (drg_Manual d) = Inr m"
    "foldE (load_agent env (drg_Agents d)) Map.empty (sorted_list_of_set (dom (drg_Agents d))) = Inr a"
    "foldE (load_rendered (drg_Rendered d)) Map.empty (sorted_list_of_set (dom (drg_Rendered d))) = Inr x"
    and r: "r = \<lparr>reg_poolVersion = drg_PoolVersion d, reg_manual = m, reg_agents = a, reg_rendered = x, reg_file = f\<rparr>"
    using assms by (auto simp: load_registry_def res_simps)
  from this(1-3) show ?thesis
    using loaded_manual_sound [of env] loaded_agents_sound [of env] loaded_rendered_sound
    by (simp add: r sound_registry_def)
qed

lemma sound_empty: "sound_registry env (empty_registry f)"
  by (simp add: sound_registry_def empty_registry_def)

lemma opened_sound: "Open env flt path file = Inr r \<Longrightarrow> sound_registry env r"
  by (auto simp: Open_def res_simps sound_empty loaded_registry_sound
      split: option.splits if_splits sum.splits prod.splits)

section \<open>Reachable registries\<close>

inductive reachable_registry :: "pool_env \<Rightarrow> registry \<Rightarrow> bool" for env where
  opened: "Open env flt path file = Inr r \<Longrightarrow> reachable_registry env r"
| performed: "reachable_registry env r \<Longrightarrow> reachable_registry env (snd (pool_perform env c q r))"

lemma step_sound: "pool_step env flt r (res, r') \<Longrightarrow> sound_registry env r \<Longrightarrow> sound_registry env r'"
  by (erule pool_step.cases) (auto simp: proposes_def dest: sym commit_sound)

lemma reachable_registry_sound: "reachable_registry env r \<Longrightarrow> sound_registry env r"
proof (induction rule: reachable_registry.induct)
  case (opened flt path document r)
  then show ?case by (rule opened_sound)
next
  case (performed r c q)
  then show ?case using step_sound [of env "pcl_faults c" r "fst (pool_perform env c q r)"] perform_step [of env c r q] by simp
qed

section \<open>The codec of the document\<close>

text \<open>
  The documented behaviour of \<open>encoding/json\<close> the registry relies on: a document it has written for
  texts in UTF-8 is read back with every raw outbound as \<open>MarshalIndent\<close> has laid it out, and that
  layout does not change the type of an outbound.
\<close>

definition utf8_texts :: "registry \<Rightarrow> bool" where
  "utf8_texts r \<longleftrightarrow>
     (\<forall>n m. reg_manual r n = Some m \<longrightarrow> clean_text (man_remark m)) \<and>
     (\<forall>i a. reg_agents r i = Some a \<longrightarrow> (\<forall>s \<in> set (agt_reportedV4 a @ agt_reportedV6 a @ agt_probedV4 a @
        agt_probedV6 a @ [agt_observed a, agt_overrideV4 a, agt_overrideV6 a]). clean_text s))"

definition pool_json_round_trip :: "pool_env \<Rightarrow> bool" where
  "pool_json_round_trip env \<longleftrightarrow>
     (\<forall>r bytes. sound_registry env r \<longrightarrow> utf8_texts r \<longrightarrow> penv_marshal env (stored_registry r) = Some bytes \<longrightarrow>
        penv_decode env (bytes @ [CHR 0x0A]) = Some (reformatted (stored_registry r)))"

definition json_outbounds :: "pool_env \<Rightarrow> bool" where
  "json_outbounds env \<longleftrightarrow> penv_outbound_type env [] = None \<and>
     (\<forall>s t. penv_outbound_type env s = Some t \<longrightarrow> penv_outbound_type env (reformat s) = Some t)"

definition layouts_fit :: "registry \<Rightarrow> bool" where
  "layouts_fit r \<longleftrightarrow>
     (\<forall>n m. reg_manual r n = Some m \<longrightarrow> length (reformat (man_outbound m)) \<le> MaxManualOutboundBytes)"

definition document_fits :: "registry \<Rightarrow> bool" where
  "document_fits r \<longleftrightarrow> (\<forall>f. reg_file r = Some f \<longrightarrow> length (pfi_bytes f) \<le> MaxRegistryFileBytes)"

lemma outbounds_reopen:
  assumes "json_outbounds env" "layouts_fit r" "sound_registry env r"
  shows "reopens_outbounds env r"
proof -
  have "is_ok (validateManualOutbound env (reformat (man_outbound m)))" if m: "reg_manual r n = Some m" for n m
  proof -
    have "validateManualOutbound env (man_outbound m) = Inr (man_outbound m)"
      using assms(3) m by (auto simp: sound_registry_def sound_manual_def)
    then obtain t where "penv_outbound_type env (man_outbound m) = Some t" "t \<noteq> []"
      by (auto simp: validateManualOutbound_def split: if_splits option.splits)
    then have typed: "penv_outbound_type env (reformat (man_outbound m)) = Some t"
      using assms(1) by (simp add: json_outbounds_def)
    then have "reformat (man_outbound m) \<noteq> []" using assms(1) by (metis json_outbounds_def option.distinct(1))
    moreover have "length (reformat (man_outbound m)) \<le> MaxManualOutboundBytes"
      using assms(2) m by (auto simp: layouts_fit_def)
    ultimately show ?thesis using \<open>t \<noteq> []\<close> typed by (simp add: validateManualOutbound_def)
  qed
  then show ?thesis by (simp add: reopens_outbounds_def)
qed

definition undisturbed :: "pool_open_faults \<Rightarrow> bool" where
  "undisturbed flt \<longleftrightarrow> pof_inspect flt = Inr () \<and> pof_secure flt = Inr () \<and> pof_open flt = Inr ()"

lemma document_read_back:
  assumes "reg_file r = Some \<lparr>pfi_regular = True, pfi_bytes = bytes\<rparr>" "marshalLocked env r = Inr bytes"
    and "sound_registry env r" "utf8_texts r" "pool_json_round_trip env" "json_outbounds env"
    and "layouts_fit r" "document_fits r" "undisturbed flt" "trim_space path \<noteq> []"
  shows "Open env flt path (reg_file r) = Inr (reopened r)"
proof -
  obtain doc where "penv_marshal env (stored_registry r) = Some doc" "bytes = doc @ [CHR 0x0A]"
    using assms(2) by (auto simp: marshalLocked_def res_simps)
  then have decoded: "penv_decode env bytes = Some (reformatted (stored_registry r))"
    using assms(3-5) by (auto simp: pool_json_round_trip_def)
  have "length bytes \<le> MaxRegistryFileBytes" using assms(1,8) by (simp add: document_fits_def)
  moreover have "\<not> list_ex (\<lambda>i. dag_DefaultTLSAddress (the (drg_Agents (reformatted (stored_registry r)) i)) \<noteq> [])
      (sorted_list_of_set (dom (drg_Agents (reformatted (stored_registry r)))))"
  proof -
    have "finite (dom (reg_agents r))" using assms(3) by (simp add: sound_registry_def)
    then show ?thesis
      by (auto simp: list_ex_iff reformatted_def stored_registry_def store_agent_def)
  qed
  moreover have "load_registry env (reformatted (stored_registry r)) (Some \<lparr>pfi_regular = True, pfi_bytes = bytes\<rparr>) =
      Inr (reopened r)"
    using registry_read_back [OF assms(3) outbounds_reopen [OF assms(6,7,3)]] assms(1) by simp
  ultimately show ?thesis
    using assms(1,9,10) decoded by (simp add: Open_def undisturbed_def require_def from_option_def)
qed

end
