(* ===== verification/PoolCompile.thy ===== *)
theory PoolCompile
  imports PoolRecovery CompileWhole
begin

text \<open>
  The compiler over the registry of the pool: every Link of a compiled topology becomes an outbound of
  the Agent of its parent Hop which dials the address the registry resolves for the child Agent.
\<close>

section \<open>The outbounds of a configuration\<close>

definition config_outbounds :: "fields \<Rightarrow> fields list" where
  "config_outbounds config =
     (case map_of config ''outbounds'' of
        Some (JArr outbounds) \<Rightarrow> map (\<lambda>x. case x of JObj f \<Rightarrow> f | _ \<Rightarrow> []) outbounds
      | _ \<Rightarrow> [])"

lemma renderAgentConfig_outbounds:
  "renderAgentConfig digest r = Inr config \<Longrightarrow> config_outbounds config = ar_outbounds r"
  by (auto simp: renderAgentConfig_def bindE_Inr_iff Let_def config_outbounds_def comp_def)

definition dials :: "resolver \<Rightarrow> link \<Rightarrow> string \<Rightarrow> fields \<Rightarrow> bool" where
  "dials resolve l agent outbound \<longleftrightarrow>
     map_of outbound ''tag'' = Some (JStr (LinkOutboundTag (lnk_ID l))) \<and>
     (\<exists>family address. ParseFamily (ep_Family (lnk_Endpoint l)) = Inr family \<and>
        resolve agent family = Some address \<and> map_of outbound ''server'' = Some (JStr address))"

lemma renderLinkOutbound_dials:
  "renderLinkOutbound resolve node l child = Inr outbound \<Longrightarrow> dials resolve l (hop_AgentID child) outbound"
  by (cases "ep_Protocol (lnk_Endpoint l)")
    (auto simp: renderLinkOutbound_def Let_def bindE_Inr_iff from_option_Inr dials_def)

section \<open>Outbounds accumulate\<close>

definition holds_outbound :: "fields \<Rightarrow> string \<Rightarrow> renders \<Rightarrow> bool" where
  "holds_outbound outbound a byAgent \<longleftrightarrow> (\<exists>r. map_of byAgent a = Some r \<and> outbound \<in> set (ar_outbounds r))"

definition grows :: "renders \<Rightarrow> renders \<Rightarrow> bool" where
  "grows = follows (\<lambda>a r r'. set (ar_outbounds r) \<subseteq> set (ar_outbounds r'))"

lemma grows_refl: "grows b b"
  by (simp add: grows_def follows_def)

lemma grows_trans: "grows a b \<Longrightarrow> grows b c \<Longrightarrow> grows a c"
  unfolding grows_def by (rule follows_trans) auto

lemma grows_keys: "grows b b' \<Longrightarrow> map fst b' = map fst b"
  by (simp add: grows_def follows_def)

lemma grows_holds: "grows b b' \<Longrightarrow> holds_outbound outbound a b \<Longrightarrow> holds_outbound outbound a b'"
proof -
  assume grows: "grows b b'" and "holds_outbound outbound a b"
  then obtain r where r: "map_of b a = Some r" "outbound \<in> set (ar_outbounds r)" by (auto simp: holds_outbound_def)
  have "a \<in> set (map fst b)" using r(1) map_of_SomeD by force
  then have "a \<in> set (map fst b')" by (simp only: grows_keys [OF grows])
  then have "map_of b' a \<noteq> None" by (simp add: map_of_eq_None_iff)
  with grows r show ?thesis by (fastforce simp: holds_outbound_def grows_def follows_def)
qed

lemma add_outbound_grows: "add_outbound resolve node b l = Inr b' \<Longrightarrow> grows b b'"
  by (auto simp: add_outbound_def bindE_Inr_iff with_render_Inr grows_def follows_def update_conv' update_keys
      split: if_splits)

lemma fold_grows:
  assumes "foldE f b xs = Inr b'" and "\<And>b x b'. f b x = Inr b' \<Longrightarrow> grows b b'"
  shows "grows b b'"
  using assms(1) grows_refl by (rule foldE_invariant) (rule grows_trans, assumption, rule assms(2))

lemma node_outbounds_grow: "foldE (add_outbound resolve node) b ls = Inr b' \<Longrightarrow> grows b b'"
  by (erule fold_grows) (rule add_outbound_grows)

lemma outbounds_grow:
  "foldE (\<lambda>b (node, ds). foldE (add_outbound resolve node) b (pn_Links node)) b nodes = Inr b' \<Longrightarrow> grows b b'"
  by (erule fold_grows) (auto dest: node_outbounds_grow split: prod.splits)

lemma foldE_reaches:
  assumes "foldE f s xs = Inr t" and "x \<in> set xs"
  shows "\<exists>a b ys. f a x = Inr b \<and> foldE f b ys = Inr t"
proof -
  obtain us vs where "xs = us @ x # vs" using assms(2) by (meson split_list)
  then show ?thesis using assms(1) by (auto simp: foldE_append bindE_Inr_iff)
qed

lemma link_outbound_held:
  fixes nodes :: "(proxy_node \<times> (string \<times> nat) list) list"
  assumes "foldE (\<lambda>b (node, ds). foldE (add_outbound resolve node) b (pn_Links node)) b nodes = Inr b'"
    and "(node, ds) \<in> set nodes" and "l \<in> set (pn_Links node)"
  shows "\<exists>parent child outbound. hop_map node (lnk_ParentHopID l) = Some parent \<and>
    hop_map node (lnk_ChildHopID l) = Some child \<and> dials resolve l (hop_AgentID child) outbound \<and>
    holds_outbound outbound (hop_AgentID parent) b'"
proof -
  from foldE_reaches [OF assms(1,2)] obtain s t and ms :: "(proxy_node \<times> (string \<times> nat) list) list" where
    inner: "foldE (add_outbound resolve node) s (pn_Links node) = Inr t"
    and outer: "foldE (\<lambda>b (node, ds). foldE (add_outbound resolve node) b (pn_Links node)) t ms = Inr b'"
    by auto
  from foldE_reaches [OF inner assms(3)] obtain u v ls where
    one: "add_outbound resolve node u l = Inr v" and rest: "foldE (add_outbound resolve node) v ls = Inr t"
    by auto
  from one obtain parent child outbound where "hop_map node (lnk_ParentHopID l) = Some parent"
    "hop_map node (lnk_ChildHopID l) = Some child" "renderLinkOutbound resolve node l child = Inr outbound"
    "holds_outbound outbound (hop_AgentID parent) v"
    by (auto simp: add_outbound_def bindE_Inr_iff with_render_Inr from_option_Inr holds_outbound_def update_conv')
  moreover have "grows v b'"
    using node_outbounds_grow [OF rest] outbounds_grow [OF outer] by (rule grows_trans)
  ultimately show ?thesis using renderLinkOutbound_dials grows_holds by blast
qed

section \<open>Whole configurations\<close>

lemma with_render_keys: "with_render a f b = Inr b' \<Longrightarrow> map fst b' = map fst b"
  by (auto simp: with_render_Inr update_keys)

lemma compiled_outbound:
  assumes run: "compile_nodes digest tx resolve nodes = Inr res"
    and link: "(node, ds) \<in> set nodes" "l \<in> set (pn_Links node)"
  shows "\<exists>parent child config outbound. hop_map node (lnk_ParentHopID l) = Some parent \<and>
    hop_map node (lnk_ChildHopID l) = Some child \<and> map_of (cr_Configs res) (hop_AgentID parent) = Some config \<and>
    outbound \<in> set (config_outbounds config) \<and> dials resolve l (hop_AgentID child) outbound"
proof -
  from run obtain b0 depths cs b1 ps b2 b3 configs where
    collect: "foldE collect_node ([], Map.empty, []) nodes = Inr (b0, depths, cs)"
    and group: "groupListeners digest tx b0 cs = Inr (b1, ps)"
    and rules: "foldE (\<lambda>b c. with_render (candidate_agent c) (\<lambda>r. renderHopRules r c) b) b1 ps = Inr b2"
    and outs: "foldE (\<lambda>b (node, ds). foldE (add_outbound resolve node) b (pn_Links node)) b2 nodes = Inr b3"
    and configs: "foldE (\<lambda>configs (a, r). bindE (renderAgentConfig digest r) (\<lambda>config. ok (configs @ [(a, config)]))) []
        (sort_key fst b3) = Inr configs" and res: "res = \<lparr>cr_Configs = configs, cr_AgentDepth = depths\<rparr>"
    by (auto simp: compile_nodes_def bindE_Inr_iff)
  have "fresh_renders b0"
    using collect_fold [OF collect] by (simp add: fresh_renders_def)
  moreover have "map fst b1 = map fst b0"
    using group by (auto simp: groupListeners_def bindE_Inr_iff comp_def case_prod_beta)
  moreover have "map fst b2 = map fst b1"
    by (rule foldE_invariant [OF rules, of "\<lambda>b. map fst b = map fst b1"]) (auto dest: with_render_keys)
  ultimately have dist: "distinct (map fst b3)"
    using grows_keys [OF outbounds_grow [OF outs]] by (simp add: fresh_renders_def)
  from link_outbound_held [OF outs link] obtain parent child outbound r where
    hops: "hop_map node (lnk_ParentHopID l) = Some parent" "hop_map node (lnk_ChildHopID l) = Some child"
    and dial: "dials resolve l (hop_AgentID child) outbound"
    and r: "map_of b3 (hop_AgentID parent) = Some r" "outbound \<in> set (ar_outbounds r)"
    by (auto simp: holds_outbound_def)
  from configs_fold [OF configs] have keys: "map fst configs = map fst (sort_key fst b3)"
    and origin: "\<And>a config. map_of configs a = Some config \<Longrightarrow> \<exists>r. (a, r) \<in> set b3 \<and> renderAgentConfig digest r = Inr config"
    by (auto dest: map_of_SomeD)
  have "hop_AgentID parent \<in> fst ` set b3" using r(1) by (metis domI dom_map_of_conv_image_fst)
  then have "map_of configs (hop_AgentID parent) \<noteq> None"
    unfolding map_of_eq_None_iff by (metis keys image_set set_map set_sort)
  then obtain config where config: "map_of configs (hop_AgentID parent) = Some config" by blast
  from origin [OF this] obtain r' where r': "(hop_AgentID parent, r') \<in> set b3" "renderAgentConfig digest r' = Inr config"
    by blast
  then have "r' = r" using dist r(1) by simp
  then have "outbound \<in> set (config_outbounds config)"
    using renderAgentConfig_outbounds [OF r'(2)] r(2) by simp
  with hops dial config show ?thesis by (auto simp: res)
qed

lemma bare_link_ID: "lnk_ID (bare_link l) = lnk_ID l"
  by (simp add: bare_link_def)

lemma Compile_dials:
  assumes run: "Compile env digest tx (Some resolve) st = Some (Inr res)"
    and node: "node \<in> set (st_ProxyNodes st)" and l: "l \<in> set (pn_Links node)"
  shows "\<exists>config outbound. map_of (cr_Configs res) (hop_agent node (lnk_ParentHopID l)) = Some config \<and>
    outbound \<in> set (config_outbounds config) \<and> dials resolve l (hop_agent node (lnk_ChildHopID l)) outbound"
proof -
  from Compile_valid [OF run] obtain nodes where comp: "compile_nodes digest tx resolve nodes = Inr res"
    and nodes: "map fst nodes = st_ProxyNodes (reconciled st)" by auto
  from reconciled_node [OF node] obtain n where n: "n \<in> set (st_ProxyNodes (reconciled st))" "bare_node n = bare_node node" by blast
  then have "n \<in> set (map fst nodes)" by (simp only: nodes)
  then obtain ds where ds: "(n, ds) \<in> set nodes" by auto
  have "bare_link l \<in> set (pn_Links (bare_node node))" using l by (simp add: bare_node_def)
  then have "bare_link l \<in> set (pn_Links (bare_node n))" by (simp only: n(2))
  then obtain k where k: "k \<in> set (pn_Links n)" "bare_link k = bare_link l" by (auto simp: bare_node_def)
  then have same: "lnk_ChildHopID k = lnk_ChildHopID l" "lnk_ParentHopID k = lnk_ParentHopID l" "lnk_ID k = lnk_ID l"
    "ep_Family (lnk_Endpoint k) = ep_Family (lnk_Endpoint l)"
    by (metis bare_link_keeps bare_link_ID)+
  have "hop_agent n h = hop_agent node h" for h using bare_node_keeps(5) n(2) by metis
  then show ?thesis
    using compiled_outbound [OF comp ds k(1)] same
    by (auto simp: dials_def dest!: hop_map_agent(1) [symmetric])
qed

end
