(* ===== verification/PoolClaims.thy ===== *)
theory PoolClaims
  imports PoolCompile CompilerClaims
begin

text \<open>
  The properties of the registry of the pool, with the small history on which they are applied: an
  Agent reports its addresses and the operator stores one outbound.
\<close>

section \<open>A sample history\<close>

definition sample_reporter :: agent_record where
  "sample_reporter =
     zero_agent\<lparr>agt_reportedV4 := [''8.8.8.8''], agt_reportedV6 := [''2001:4860::8888''], agt_updatedAt := 1\<rparr>"

definition sample_document :: disk_registry where
  "sample_document = stored_registry
     \<lparr>reg_poolVersion = 1, reg_manual = Map.empty, reg_agents = [''a'' \<mapsto> sample_reporter],
      reg_rendered = Map.empty, reg_file = None\<rparr>"

text \<open>An environment whose codec knows one document.\<close>

definition sample_pool_env :: pool_env where
  "sample_pool_env =
     \<lparr>penv_outbound_type = (\<lambda>s. if s \<noteq> [] \<and> hd s = CHR ''{'' then Some ''direct'' else None),
      penv_to_lower = (\<lambda>s. s),
      penv_marshal = (\<lambda>d. if d = sample_document then Some ''x'' else None),
      penv_decode = (\<lambda>s. if s = ''x'' @ [CHR 0x0A] then Some (reformatted sample_document) else None)\<rparr>"

lemma sample_pool_laws: "pool_json_round_trip sample_pool_env" "json_outbounds sample_pool_env"
proof -
  show "pool_json_round_trip sample_pool_env"
    by (simp add: pool_json_round_trip_def sample_pool_env_def)
  have "reformat (CHR ''{'' # s) \<noteq> [] \<and> hd (reformat (CHR ''{'' # s)) = CHR ''{''" for s
    by (simp add: reformat_def)
  then show "json_outbounds sample_pool_env"
    by (auto simp: json_outbounds_def sample_pool_env_def neq_Nil_conv)
qed

definition working_pool :: pool_faults where
  "working_pool = \<lparr>pfl_write = Inr (), pfl_rename = Inr (), pfl_dirsync = Inr ()\<rparr>"

definition failing_pool :: pool_faults where
  "failing_pool = \<lparr>pfl_write = Inl ErrInvalidRecord, pfl_rename = Inr (), pfl_dirsync = Inr ()\<rparr>"

definition pool_call_at :: "time \<Rightarrow> pool_call" where
  "pool_call_at t = \<lparr>pcl_now = t, pcl_later = t, pcl_faults = working_pool\<rparr>"

definition sample_report :: pool_request where
  "sample_report = ReportedRequest ''a'' [''8.8.8.8'', ''10.0.0.1''] [''2001:4860::8888'']"

definition sample_registry :: registry where
  "sample_registry = snd (pool_perform sample_pool_env (pool_call_at 1) sample_report (empty_registry None))"

lemma sample_registry_reachable: "reachable_registry sample_pool_env sample_registry"
proof -
  have "Open sample_pool_env \<lparr>pof_inspect = Inr (), pof_secure = Inr (), pof_open = Inr (), pof_persist = working_pool\<rparr>
      ''p'' None = Inr (empty_registry None)"
    by (simp add: Open_def require_def trim_space_plain plain_def)
  then show ?thesis unfolding sample_registry_def
    by (intro reachable_registry.performed reachable_registry.opened)
qed

lemma digit_chars:
  "char_of (48 :: nat) = CHR ''0''" "char_of (49 :: nat) = CHR ''1''" "char_of (50 :: nat) = CHR ''2''"
  "char_of (51 :: nat) = CHR ''3''" "char_of (52 :: nat) = CHR ''4''" "char_of (53 :: nat) = CHR ''5''"
  "char_of (54 :: nat) = CHR ''6''" "char_of (55 :: nat) = CHR ''7''" "char_of (56 :: nat) = CHR ''8''"
  "char_of (57 :: nat) = CHR ''9''"
  by (simp_all add: char_of_def bit_numeral_rec bit_Suc_0_iff)

lemma eight_zeros: "replicate 8 (0 :: nat) = [0, 0, 0, 0, 0, 0, 0, 0]"
  by (simp add: numeral_eq_Suc)

lemmas text_simps = string4_def string6_def show_nat.simps digit_chars zone_text_def groups_text_def
  zero_span_def zero_run_def show_hex.simps hex_text_def upt_rec

lemmas class_simps = globallyRoutable_def addr_IsGlobalUnicast_def addr_IsPrivate_def cgnatPrefix_def
  reserved240Prefix_def addr_IsLoopback_def addr_IsMulticast_def addr_IsLinkLocalUnicast_def v4_def eight_zeros

lemma sample_texts:
  "addr_String (AddrV4 0x08080808) = ''8.8.8.8''"
  "addr_String (AddrV4 0x0A000001) = ''10.0.0.1''"
  "addr_String (AddrV6 [0x2001, 0x4860, 0, 0, 0, 0, 0, 0x8888] []) = ''2001:4860::8888''"
  by (simp_all add: text_simps)

lemma sample_addresses:
  "ParseAddr ''8.8.8.8'' = Some (AddrV4 0x08080808)"
  "ParseAddr ''10.0.0.1'' = Some (AddrV4 0x0A000001)"
  "ParseAddr ''2001:4860::8888'' = Some (AddrV6 [0x2001, 0x4860, 0, 0, 0, 0, 0, 0x8888] [])"
  using ParseAddr_String [of "AddrV4 0x08080808"] ParseAddr_String [of "AddrV4 0x0A000001"]
    ParseAddr_String [of "AddrV6 [0x2001, 0x4860, 0, 0, 0, 0, 0, 0x8888] []"]
  by (simp_all only: sample_texts) (simp_all add: valid_addr_def)

lemma sample_routable:
  "globallyRoutable (AddrV4 0x08080808)" "\<not> globallyRoutable (AddrV4 0x0A000001)"
  "globallyRoutable (AddrV6 [0x2001, 0x4860, 0, 0, 0, 0, 0, 0x8888] [])"
  by (simp_all add: class_simps)

lemma sample_trims:
  "trim_space ''8.8.8.8'' = ''8.8.8.8''" "trim_space ''10.0.0.1'' = ''10.0.0.1''"
  "trim_space ''2001:4860::8888'' = ''2001:4860::8888''"
  by (simp_all add: trim_space_plain plain_def)

lemma sample_component: "validComponent ''a''" by code_simp

lemma sample_normalized:
  "normalizeAddresses [''8.8.8.8'', ''10.0.0.1''] True = Inr [''8.8.8.8'']"
  "normalizeAddresses [''2001:4860::8888''] False = Inr [''2001:4860::8888'']"
  by (simp_all add: normalizeAddresses_def MaxAddressesPerFamily_def require_def normalize_address_def
      sample_trims sample_addresses sample_routable sample_texts del: addr_String.simps)

lemma sample_run:
  "pool_perform sample_pool_env (pool_call_at 1) sample_report (empty_registry None) =
     (Inr (), \<lparr>reg_poolVersion = 1, reg_manual = Map.empty, reg_agents = [''a'' \<mapsto> sample_reporter],
       reg_rendered = Map.empty, reg_file = Some \<lparr>pfi_regular = True, pfi_bytes = ''x'' @ [CHR 0x0A]\<rparr>\<rparr>)"
proof -
  let ?new = "\<lparr>reg_poolVersion = 1, reg_manual = Map.empty, reg_agents = [''a'' \<mapsto> sample_reporter],
    reg_rendered = Map.empty, reg_file = None\<rparr>"
  have "commit sample_pool_env working_pool (empty_registry None) ?new =
      (Inr (), ?new\<lparr>reg_file := Some \<lparr>pfi_regular = True, pfi_bytes = ''x'' @ [CHR 0x0A]\<rparr>\<rparr>)"
    by (simp add: commit_def pool_persistLocked_def marshalLocked_def from_option_def sample_pool_env_def
        working_pool_def sample_document_def)
  moreover have "bumped (put_agent ''a'' (agent_at (empty_registry None) ''a''\<lparr>agt_reportedV4 := [''8.8.8.8''],
      agt_reportedV6 := [''2001:4860::8888''], agt_probedV4 := [], agt_probedV6 := [], agt_updatedAt := 1\<rparr>)
      (empty_registry None)) = ?new"
    by (simp add: agent_at_def empty_registry_def zero_agent_def put_agent_def bumped_def sample_reporter_def)
  moreover note sample_normalized
  moreover have "reg_agents (empty_registry None) = Map.empty" by (simp add: empty_registry_def)
  ultimately show ?thesis
    by (simp add: sample_report_def SetReported_def sample_component pool_call_at_def changed_reply_def
        acknowledged_def Let_def)
qed

lemma sample_registry_value:
  "sample_registry = \<lparr>reg_poolVersion = 1, reg_manual = Map.empty, reg_agents = [''a'' \<mapsto> sample_reporter],
     reg_rendered = Map.empty, reg_file = Some \<lparr>pfi_regular = True, pfi_bytes = ''x'' @ [CHR 0x0A]\<rparr>\<rparr>"
  unfolding sample_registry_def sample_run by (rule snd_conv)

section \<open>Addresses\<close>

lemma routable_auto: "routable_as fam s \<Longrightarrow> routable_as FamilyAuto s"
  by (auto simp: routable_as_def)

lemma routable_observed: "routable_as FamilyAuto s \<Longrightarrow> routable_as (addressFamily s) s"
  by (auto simp: routable_as_def routable_text_def addressFamily_text)

lemma first_choice:
  "(if ov \<noteq> [] then Some (ov, A) else if ob \<noteq> [] \<and> c then Some (ob, B)
    else if ps \<noteq> [] then Some (hd ps, C) else if qs \<noteq> [] then Some (hd qs, D) else None) = Some (s, src) \<Longrightarrow>
   s = ov \<and> s \<noteq> [] \<or> s = ob \<and> s \<noteq> [] \<and> c \<or> s \<in> set ps \<or> s \<in> set qs"
  by (cases ps; cases qs) (auto split: if_splits)

lemma resolve_cases:
  assumes "resolve_family a fam = Some (s, src)"
  obtains "s = (if fam = FamilyIPv6 then agt_overrideV6 a else agt_overrideV4 a)" "s \<noteq> []"
  | "s = agt_observed a" "s \<noteq> []" "addressFamily s = fam"
  | "s \<in> set (if fam = FamilyIPv6 then agt_probedV6 a else agt_probedV4 a)"
  | "s \<in> set (if fam = FamilyIPv6 then agt_reportedV6 a else agt_reportedV4 a)"
  using first_choice [OF assms [unfolded resolve_family_def Let_def]] by blast

lemma resolved_routable:
  assumes "sound_agent env a" and "fam \<noteq> FamilyAuto" and "resolve_family a fam = Some (s, src)"
  shows "routable_as fam s"
  using assms(3)
proof (cases rule: resolve_cases)
  case 1
  then show ?thesis using assms(1,2) by (cases fam) (simp_all add: sound_agent_def optional_as_def)
next
  case 2
  then show ?thesis using assms(1) routable_observed by (auto simp: sound_agent_def optional_as_def)
next
  case 3
  then show ?thesis using assms(1,2) by (cases fam) (simp_all add: sound_agent_def)
next
  case 4
  then show ?thesis using assms(1,2) by (cases fam) (simp_all add: sound_agent_def)
qed

lemma sound_resolution:
  assumes "sound_registry env r" and "AddressSourceForFamily r i fam = Some (s, src)"
  shows "routable_as fam s"
proof -
  obtain a where a: "reg_agents r i = Some a" "resolveForFamily a fam = Some (s, src)"
    using assms(2) by (auto simp: AddressSourceForFamily_def split: option.splits)
  then have "sound_agent env a" using assms(1) by (auto simp: sound_registry_def)
  from resolved_routable [OF this] a(2) show ?thesis
    by (cases "fam = FamilyAuto") (auto simp: resolveForFamily_def split: option.splits intro: routable_auto)
qed

text \<open>C32: whatever addresses Agents report, probe or are observed at and operators configure, the
  registry only ever hands out the canonical text of a globally routable address of the family asked
  for.\<close>

theorem resolved_addresses_routable:
  assumes "reachable_registry env r" and "AddressSourceForFamily r i fam = Some (s, src)"
  shows "\<exists>a. ParseAddr s = Some a \<and> s = addr_String a \<and> globallyRoutable a \<and> addr_IsGlobalUnicast a \<and> \<not> addr_IsPrivate a \<and>
    (case fam of FamilyAuto \<Rightarrow> True | FamilyIPv4 \<Rightarrow> addr_Is4 a | FamilyIPv6 \<Rightarrow> \<not> addr_Is4 a)"
  using sound_resolution [OF reachable_registry_sound [OF assms(1)] assms(2)]
  by (auto simp: routable_as_def routable_text_def ParseAddr_String globallyRoutable_def)

lemma resolved_addresses_routable_witness:
  "\<exists>a. ParseAddr ''2001:4860::8888'' = Some a \<and> ''2001:4860::8888'' = addr_String a \<and> globallyRoutable a \<and>
    addr_IsGlobalUnicast a \<and> \<not> addr_IsPrivate a \<and>
    (case FamilyIPv6 of FamilyAuto \<Rightarrow> True | FamilyIPv4 \<Rightarrow> addr_Is4 a | FamilyIPv6 \<Rightarrow> \<not> addr_Is4 a)"
  by (rule resolved_addresses_routable [OF sample_registry_reachable, of "''a''" FamilyIPv6 _ SourceReported])
    (simp add: sample_registry_value AddressSourceForFamily_def resolveForFamily_def resolve_family_def sample_reporter_def zero_agent_def)

section \<open>The version of the pool\<close>

fun run_pool :: "pool_env \<Rightarrow> (pool_call \<times> pool_request) list \<Rightarrow> registry \<Rightarrow> registry" where
  "run_pool env [] r = r"
| "run_pool env ((c, q) # qs) r = run_pool env qs (snd (pool_perform env c q r))"

lemma step_version:
  assumes "pool_step env flt r (res, r')"
  shows "reg_poolVersion r' = reg_poolVersion r + 1 \<or>
    reg_poolVersion r' = reg_poolVersion r \<and> content r' = content r"
  using assms
proof (cases rule: pool_step.cases)
  case (commits new)
  have same: "content (x\<lparr>reg_file := d\<rparr>) = content x" for x :: registry and d
    by (simp add: content_def AddressSourceForFamily_def fun_eq_iff)
  show ?thesis
    using commits(1) [symmetric] by (rule commit_cases) (use commits(2) same in \<open>auto simp: proposes_def\<close>)
qed simp

lemma run_version:
  "\<exists>k \<le> length qs. reg_poolVersion (run_pool env qs r) = reg_poolVersion r + of_nat k \<and>
     (k = 0 \<longrightarrow> content (run_pool env qs r) = content r)"
proof (induction qs arbitrary: r)
  case Nil
  then show ?case by simp
next
  case (Cons x qs)
  obtain c q where x: "x = (c, q)" by fastforce
  let ?r = "snd (pool_perform env c q r)"
  obtain k where k: "k \<le> length qs" "reg_poolVersion (run_pool env qs ?r) = reg_poolVersion ?r + of_nat k"
    "k = 0 \<longrightarrow> content (run_pool env qs ?r) = content ?r"
    using Cons.IH by blast
  have "pool_step env (pcl_faults c) r (fst (pool_perform env c q r), ?r)" using perform_step [of env c r q] by simp
  from step_version [OF this] show ?case
  proof
    assume "reg_poolVersion ?r = reg_poolVersion r + 1"
    then show ?thesis using k by (intro exI [of _ "Suc k"]) (simp add: x)
  next
    assume "reg_poolVersion ?r = reg_poolVersion r \<and> content ?r = content r"
    then show ?thesis using k by (intro exI [of _ k]) (simp add: x)
  qed
qed

text \<open>C34: two moments with the same pool version, with fewer than \<open>2 ^ 64\<close> operations between them,
  have the same manual outbounds and resolve every Agent to the same address, whatever failed in
  between.\<close>

theorem equal_versions_equal_content:
  assumes "length qs < 2 ^ 64" and "reg_poolVersion (run_pool env qs r) = reg_poolVersion r"
  shows "reg_manual (run_pool env qs r) = reg_manual r \<and>
    AddressSourceForFamily (run_pool env qs r) = AddressSourceForFamily r"
proof -
  obtain k where k: "k \<le> length qs" "reg_poolVersion (run_pool env qs r) = reg_poolVersion r + of_nat k"
    "k = 0 \<longrightarrow> content (run_pool env qs r) = content r"
    using run_version by blast
  have "(of_nat k :: u64) = 0" using k(2) assms(2) by simp
  then have "2 ^ 64 dvd k" by (simp add: word_of_nat_eq_0_iff)
  then have "k = 0" using k(1) assms(1) by (meson dvd_imp_le le_trans not_less neq0_conv)
  then show ?thesis using k(3) by (simp add: content_def)
qed

text \<open>A failed write keeps the version; marking a render keeps it as well.\<close>

definition later_calls :: "(pool_call \<times> pool_request) list" where
  "later_calls =
     [((pool_call_at 2)\<lparr>pcl_faults := failing_pool\<rparr>, RemoveAgentRequest ''a''),
      (pool_call_at 3, RemoveManualRequest ''m''), (pool_call_at 4, sample_report)]"

lemma failing_commit: "reg_file new = reg_file old \<Longrightarrow> snd (commit env failing_pool old new) = old"
  by (cases "marshalLocked env new") (simp_all add: commit_def pool_persistLocked_def failing_pool_def)

lemma later_calls_idle: "run_pool sample_pool_env later_calls sample_registry = sample_registry"
proof -
  have "snd (pool_RemoveAgent sample_pool_env ((pool_call_at 2)\<lparr>pcl_faults := failing_pool\<rparr>) ''a'' sample_registry) =
      sample_registry"
    by (simp add: pool_RemoveAgent_def failing_commit bumped_def)
  moreover have "snd (RemoveManual sample_pool_env (pool_call_at 3) ''m'' sample_registry) = sample_registry"
    by (simp add: RemoveManual_def sample_registry_value)
  moreover have "snd (pool_perform sample_pool_env (pool_call_at 4) sample_report sample_registry) = sample_registry"
    using sample_normalized
    by (simp add: sample_report_def SetReported_def sample_component acknowledged_def agent_at_def
        sample_registry_value sample_reporter_def zero_agent_def)
  ultimately show ?thesis by (simp add: later_calls_def)
qed

lemma equal_versions_equal_content_witness:
  "reg_manual (run_pool sample_pool_env later_calls sample_registry) = reg_manual sample_registry \<and>
    AddressSourceForFamily (run_pool sample_pool_env later_calls sample_registry) =
    AddressSourceForFamily sample_registry"
  by (rule equal_versions_equal_content) (simp_all add: later_calls_idle, simp add: later_calls_def)

section \<open>Refused operations\<close>





section \<open>Restarts\<close>

lemma acknowledged_step:
  assumes "pool_step env flt r (Inr (), r')" and "r' \<noteq> r"
  shows "\<exists>bytes. reg_file r' = Some \<lparr>pfi_regular = True, pfi_bytes = bytes\<rparr> \<and> marshalLocked env r' = Inr bytes"
  using assms(1)
proof (cases rule: pool_step.cases)
  case (commits new)
  have "marshalLocked env (new\<lparr>reg_file := d\<rparr>) = marshalLocked env new" for d
    by (simp add: marshalLocked_def stored_registry_def manual_names_def)
  with commits(1) [symmetric] show ?thesis
    by (elim commit_cases) auto
qed (use assms(2) in simp)

text \<open>C36: an acknowledged change of the registry is what a later \<open>Open\<close> finds: the same version,
  addresses and render marks, and the same manual outbounds in the layout of the document, provided
  the layout of every outbound and the document stay within the limits \<open>Open\<close> enforces.\<close>

theorem acknowledged_pool_change_survives_restart:
  assumes "reachable_registry env r" and "pool_perform env c q r = (Inr (), r')" and "r' \<noteq> r"
    and "pool_json_round_trip env" and "json_outbounds env" and "utf8_texts r'"
    and "layouts_fit r'" and "document_fits r'" and "undisturbed flt" and "trim_space path \<noteq> []"
  shows "Open env flt path (reg_file r') = Inr (reopened r')"
proof -
  note step = perform_step [of env c r q, unfolded assms(2)]
  obtain bytes where "reg_file r' = Some \<lparr>pfi_regular = True, pfi_bytes = bytes\<rparr>" "marshalLocked env r' = Inr bytes"
    using acknowledged_step [OF step assms(3)] by blast
  moreover have "sound_registry env r'" using step_sound [OF step reachable_registry_sound [OF assms(1)]] .
  ultimately show ?thesis using assms(4-10) by (intro document_read_back)
qed

definition calm_open :: pool_open_faults where
  "calm_open = \<lparr>pof_inspect = Inr (), pof_secure = Inr (), pof_open = Inr (), pof_persist = working_pool\<rparr>"

lemma acknowledged_pool_change_survives_restart_witness:
  "Open sample_pool_env calm_open ''p'' (reg_file sample_registry) = Inr (reopened sample_registry)"
proof (rule acknowledged_pool_change_survives_restart)
  show "pool_perform sample_pool_env (pool_call_at 1) sample_report (empty_registry None) = (Inr (), sample_registry)"
    unfolding sample_run by (simp add: sample_registry_value)
  show "reachable_registry sample_pool_env (empty_registry None)"
    by (rule reachable_registry.opened [of _ calm_open "''p''" None])
      (simp add: Open_def require_def trim_space_plain plain_def)
  show "sample_registry \<noteq> empty_registry None" by (simp add: sample_registry_value empty_registry_def)
  show "utf8_texts sample_registry" "layouts_fit sample_registry" "document_fits sample_registry"
    by (simp_all add: utf8_texts_def layouts_fit_def document_fits_def sample_registry_value sample_reporter_def
        zero_agent_def clean_text_def runes_def MaxRegistryFileBytes_def)
  show "undisturbed calm_open" by (simp add: undisturbed_def calm_open_def)
  show "trim_space ''p'' \<noteq> []" by (simp add: trim_space_plain plain_def)
qed (fact sample_pool_laws)+

section \<open>Compiling over the pool\<close>

text \<open>C33: in a topology compiled with the registry as its resolver every Link is an outbound in the
  configuration of the Agent of its parent Hop, and the server this outbound dials is the canonical
  text of a globally routable address of the child Agent in the family of the Link.\<close>

theorem compiled_links_dial_the_pool:
  assumes "reachable_registry penv r"
    and "Compile env digest tx (Some (AgentAddressForFamily r)) st = Some (Inr res)"
    and "node \<in> set (st_ProxyNodes st)" and "l \<in> set (pn_Links node)"
  shows "\<exists>config outbound family a src.
    map_of (cr_Configs res) (hop_agent node (lnk_ParentHopID l)) = Some config \<and>
    outbound \<in> set (config_outbounds config) \<and>
    map_of outbound ''tag'' = Some (JStr (LinkOutboundTag (lnk_ID l))) \<and>
    map_of outbound ''server'' = Some (JStr (addr_String a)) \<and> globallyRoutable a \<and>
    ParseFamily (ep_Family (lnk_Endpoint l)) = Inr family \<and>
    AddressSourceForFamily r (hop_agent node (lnk_ChildHopID l)) family = Some (addr_String a, src) \<and>
    (case family of FamilyAuto \<Rightarrow> True | FamilyIPv4 \<Rightarrow> addr_Is4 a | FamilyIPv6 \<Rightarrow> \<not> addr_Is4 a)"
proof -
  from Compile_dials [OF assms(2-4)] obtain config outbound family address where out:
    "map_of (cr_Configs res) (hop_agent node (lnk_ParentHopID l)) = Some config"
    "outbound \<in> set (config_outbounds config)"
    "map_of outbound ''tag'' = Some (JStr (LinkOutboundTag (lnk_ID l)))"
    "map_of outbound ''server'' = Some (JStr address)"
    "ParseFamily (ep_Family (lnk_Endpoint l)) = Inr family"
    "AgentAddressForFamily r (hop_agent node (lnk_ChildHopID l)) family = Some address"
    unfolding dials_def by metis
  then obtain src where src: "AddressSourceForFamily r (hop_agent node (lnk_ChildHopID l)) family = Some (address, src)"
    by (auto simp: AgentAddressForFamily_def)
  obtain a where "routable_text address a"
    "case family of FamilyAuto \<Rightarrow> True | FamilyIPv4 \<Rightarrow> addr_Is4 a | FamilyIPv6 \<Rightarrow> \<not> addr_Is4 a"
    using sound_resolution [OF reachable_registry_sound [OF assms(1)] src] by (auto simp: routable_as_def)
  moreover from this(1) have same: "address = addr_String a" and "globallyRoutable a"
    by (simp_all add: routable_text_def)
  ultimately show ?thesis using out(1-3,5) out(4) [unfolded same] src [unfolded same] by blast
qed

text \<open>The sample topology over a pool in which every Agent has reported an address.\<close>

definition open_handed_env :: pool_env where
  "open_handed_env = sample_pool_env\<lparr>penv_marshal := (\<lambda>d. Some ''x'')\<rparr>"

definition report_of :: "string \<Rightarrow> pool_call \<times> pool_request" where
  "report_of i = (pool_call_at 1, ReportedRequest i [''8.8.8.8''] [''2001:4860::8888''])"

definition sample_pool :: registry where
  "sample_pool = run_pool open_handed_env (map report_of [''alpha'', ''beta'', ''gamma'', ''delta'']) (empty_registry None)"

lemma run_reachable: "reachable_registry env r \<Longrightarrow> reachable_registry env (run_pool env qs r)"
proof (induction qs arbitrary: r)
  case (Cons x qs)
  obtain c q where "x = (c, q)" by fastforce
  then show ?case using Cons.IH [OF reachable_registry.performed [OF Cons.prems]] by simp
qed simp

lemma sample_pool_reachable: "reachable_registry open_handed_env sample_pool"
  unfolding sample_pool_def
  by (intro run_reachable reachable_registry.opened [of _ calm_open "''p''" None])
    (simp add: Open_def require_def trim_space_plain plain_def)

lemma reported_resolves:
  assumes "validComponent i" and "reg_agents r i = None"
  shows "snd (case report_of i of (c, q) \<Rightarrow> pool_perform open_handed_env c q r) =
    bumped (put_agent i sample_reporter r)\<lparr>reg_file := Some \<lparr>pfi_regular = True, pfi_bytes = ''x'' @ [CHR 0x0A]\<rparr>\<rparr>"
proof -
  have "agent_at r i = zero_agent" using assms(2) by (simp add: agent_at_def)
  moreover have "normalizeAddresses [''8.8.8.8''] True = Inr [''8.8.8.8'']"
    by (simp add: normalizeAddresses_def MaxAddressesPerFamily_def require_def normalize_address_def
      sample_trims sample_addresses sample_routable sample_texts del: addr_String.simps)
  ultimately show ?thesis
    using assms sample_normalized(2)
    by (simp add: report_of_def SetReported_def Let_def changed_reply_def acknowledged_def commit_def pool_persistLocked_def
        marshalLocked_def from_option_def open_handed_env_def pool_call_at_def working_pool_def sample_reporter_def
        zero_agent_def)
qed

lemma sample_pool_agents: "reg_agents sample_pool =
    [''alpha'' \<mapsto> sample_reporter, ''beta'' \<mapsto> sample_reporter, ''gamma'' \<mapsto> sample_reporter, ''delta'' \<mapsto> sample_reporter]"
proof -
  have names: "validComponent ''alpha''" "validComponent ''beta''" "validComponent ''gamma''" "validComponent ''delta''"
    by code_simp+
  have run: "run_pool open_handed_env (map report_of (i # js)) r = run_pool open_handed_env (map report_of js)
      (bumped (put_agent i sample_reporter r)\<lparr>reg_file := Some \<lparr>pfi_regular = True, pfi_bytes = ''x'' @ [CHR 0x0A]\<rparr>\<rparr>)"
    if "validComponent i" "reg_agents r i = None" for i js r
    using reported_resolves [OF that] by (simp add: report_of_def)
  have all: "reg_agents (run_pool open_handed_env (map report_of ks) r) = reg_agents r ++ map_of (map (\<lambda>i. (i, sample_reporter)) ks)"
    if "distinct ks" "\<forall>i \<in> set ks. validComponent i \<and> reg_agents r i = None" for ks r
    using that
  proof (induction ks arbitrary: r)
    case (Cons i js)
    let ?r = "bumped (put_agent i sample_reporter r)\<lparr>reg_file := Some \<lparr>pfi_regular = True, pfi_bytes = ''x'' @ [CHR 0x0A]\<rparr>\<rparr>"
    have agents: "reg_agents ?r = (reg_agents r)(i \<mapsto> sample_reporter)" by (simp add: put_agent_def bumped_def)
    have "reg_agents (run_pool open_handed_env (map report_of js) ?r) =
        reg_agents ?r ++ map_of (map (\<lambda>i. (i, sample_reporter)) js)"
      by (rule Cons.IH) (use Cons.prems in \<open>auto simp: put_agent_def bumped_def\<close>)
    moreover have "i \<notin> dom (map_of (map (\<lambda>i. (i, sample_reporter)) js))"
      using Cons.prems(1) by (auto simp: dom_map_of_conv_image_fst image_iff)
    moreover have "run_pool open_handed_env (map report_of (i # js)) r = run_pool open_handed_env (map report_of js) ?r"
      by (rule run) (use Cons.prems in simp_all)
    ultimately show ?case
      by (simp only: agents map_add_upd_left list.simps map_of.simps fst_conv snd_conv map_add_upd list.set_intros
          not_False_eq_True simp_thms)
  qed simp
  show ?thesis unfolding sample_pool_def using names
    by (subst all) (simp_all add: empty_registry_def fun_eq_iff)
qed

lemma sample_pool_resolves:
  "i \<in> {''alpha'', ''beta'', ''gamma'', ''delta''} \<Longrightarrow>
     AddressSourceForFamily sample_pool i FamilyAuto = Some (''8.8.8.8'', SourceReported)"
proof -
  assume "i \<in> {''alpha'', ''beta'', ''gamma'', ''delta''}"
  then have "reg_agents sample_pool i = Some sample_reporter"
    unfolding sample_pool_agents by (elim insertE emptyE; hypsubst) simp_all
  then show ?thesis
    by (simp add: AddressSourceForFamily_def resolveForFamily_def resolve_family_def sample_reporter_def zero_agent_def)
qed

lemma auto_family: "ParseFamily ''auto'' = Inr FamilyAuto"
  by (simp add: ParseFamily_def trim_space_plain plain_def)

lemma sample_pool_compiles:
  "\<exists>res. Compile sample_env port_digest port_digest (Some (AgentAddressForFamily sample_pool)) sample_state = Some (Inr res)"
proof (rule Compile_progress [OF sample_validState sample_layout sample_rule_sets])
  have agents: "hop_agent sample_node hop_b = ''beta''" "hop_agent sample_node hop_c = ''gamma''"
    "hop_agent sample_node hop_d = ''delta''" by code_simp+
  have links: "lnk_ChildHopID link_b = hop_b" "lnk_ChildHopID link_c = hop_c" "lnk_ChildHopID link_d = hop_d"
    "ep_Family (lnk_Endpoint link_b) = ''auto''" "ep_Family (lnk_Endpoint link_c) = ''auto''"
    "ep_Family (lnk_Endpoint link_d) = ''auto''"
    by (simp_all add: link_b_def link_c_def link_d_def sample_link_def sample_endpoint_def)
  have all: "pn_Links sample_node = [link_b, link_c, link_d]" by (simp add: sample_node_def)
  have "AgentAddressForFamily sample_pool (hop_agent sample_node (lnk_ChildHopID l)) f \<noteq> None"
    if l: "l \<in> set (pn_Links sample_node)" and f: "ParseFamily (ep_Family (lnk_Endpoint l)) = Inr f" for l f
  proof -
    have "l = link_b \<or> l = link_c \<or> l = link_d" using l unfolding all by simp
    then have "ep_Family (lnk_Endpoint l) = ''auto''"
      and "hop_agent sample_node (lnk_ChildHopID l) \<in> {''alpha'', ''beta'', ''gamma'', ''delta''}"
      by (elim disjE; simp only: links agents insert_iff simp_thms)+
    moreover from this(1) f have "f = FamilyAuto" by (simp add: auto_family)
    ultimately show ?thesis using sample_pool_resolves by (simp only: AgentAddressForFamily_def) simp
  qed
  then have "resolvable (AgentAddressForFamily sample_pool) sample_node" by (simp add: resolvable_def)
  then show "\<forall>n \<in> set (st_ProxyNodes sample_state). resolvable (AgentAddressForFamily sample_pool) n"
    by (simp add: sample_state_fields)
qed

theorem compiled_links_dial_the_pool_witness:
  "\<exists>res config outbound. Compile sample_env port_digest port_digest (Some (AgentAddressForFamily sample_pool)) sample_state = Some (Inr res) \<and>
     map_of (cr_Configs res) ''alpha'' = Some config \<and> outbound \<in> set (config_outbounds config) \<and>
     map_of outbound ''tag'' = Some (JStr (LinkOutboundTag lnk_b)) \<and> map_of outbound ''server'' = Some (JStr ''8.8.8.8'')"
proof -
  from sample_pool_compiles obtain res where
    run: "Compile sample_env port_digest port_digest (Some (AgentAddressForFamily sample_pool)) sample_state = Some (Inr res)" by blast
  have node: "sample_node \<in> set (st_ProxyNodes sample_state)" "link_b \<in> set (pn_Links sample_node)"
    by (simp_all add: sample_state_fields sample_node_def)
  have agents: "hop_agent sample_node hop_a = ''alpha''" "hop_agent sample_node hop_b = ''beta''" by code_simp+
  have link: "lnk_ParentHopID link_b = hop_a" "lnk_ChildHopID link_b = hop_b" "lnk_ID link_b = lnk_b"
    "ep_Family (lnk_Endpoint link_b) = ''auto''"
    by (simp_all add: link_b_def sample_link_def sample_endpoint_def)
  have resolved: "AddressSourceForFamily sample_pool ''beta'' FamilyAuto = Some (''8.8.8.8'', SourceReported)"
    by (rule sample_pool_resolves) simp
  from compiled_links_dial_the_pool [OF sample_pool_reachable run node, unfolded agents link]
  obtain config outbound family a src where out: "map_of (cr_Configs res) ''alpha'' = Some config"
    "outbound \<in> set (config_outbounds config)"
    "map_of outbound ''tag'' = Some (JStr (LinkOutboundTag lnk_b))"
    "map_of outbound ''server'' = Some (JStr (addr_String a))" "ParseFamily ''auto'' = Inr family"
    "AddressSourceForFamily sample_pool ''beta'' family = Some (addr_String a, src)"
    by (elim exE conjE)
  then have "addr_String a = ''8.8.8.8''" using resolved by (simp add: auto_family)
  with out(1-4) run show ?thesis by (intro exI conjI) simp_all
qed

section \<open>What the registry lets through\<close>

text \<open>
  A shared address (RFC 6598) is refused as an IPv4 address and accepted in its IPv4-mapped form:
  the prefixes of \<open>globallyRoutable\<close> contain no mapped address.
\<close>

lemma mapped_shared_address_accepted:
  "\<not> globallyRoutable (AddrV4 0x64400001) \<and>
   normalizeOverride ''::ffff:100.64.0.1'' FamilyIPv6 = Inr ''::ffff:100.64.0.1''"
proof -
  let ?a = "AddrV6 [0, 0, 0, 0, 0, 0xFFFF, 0x6440, 1] []"
  have shown: "addr_String ?a = ''::ffff:100.64.0.1''"
    by (simp add: text_simps low_word_def)
  have parse: "ParseAddr ''::ffff:100.64.0.1'' = Some ?a"
    using ParseAddr_String [of ?a] by (simp only: shown) (simp add: valid_addr_def)
  have "globallyRoutable ?a" "\<not> globallyRoutable (AddrV4 0x64400001)"
    by (simp_all add: class_simps low_word_def)
  then show ?thesis
    using shown parse
    by (simp add: normalizeOverride_def trim_space_plain plain_def addressFamily_def del: addr_String.simps)
qed

text \<open>
  An outbound within the limit whose layout in the document is beyond it: it is accepted and
  acknowledged, and the registry cannot be opened any more.
\<close>

definition wide_outbound :: "nat \<Rightarrow> string" where
  "wide_outbound n =
     CHR ''{'' # CHR 0x22 # ''type'' @ CHR 0x22 # '':'' @ CHR 0x22 # ''x'' @ CHR 0x22 # '','' @ CHR 0x22 #
     ''a'' @ CHR 0x22 # '':['' @ concat (replicate n ''1,'') @ ''1]}''"

lemma compact_elements:
  "compact_json False False (concat (replicate n ''1,'') @ s) = concat (replicate n ''1,'') @ compact_json False False s"
  by (induction n) simp_all

lemma indented_elements:
  "length (indent_json 5 False False False (concat (replicate n ''1,'') @ s)) =
     13 * n + length (indent_json 5 False False False s)"
  by (induction n) (simp_all add: indent_line_def)

lemma length_wide: "length (wide_outbound n) = 2 * n + 20"
proof -
  have "length (concat (replicate n ''1,'')) = 2 * n" by (induction n) simp_all
  then show ?thesis by (simp add: wide_outbound_def)
qed

lemma layout_wide: "13 * n \<le> length (reformat (wide_outbound (Suc n)))"
  by (simp add: reformat_def wide_outbound_def compact_elements indented_elements indent_line_def)

lemma document_unreadable:
  assumes "reg_file r = Some \<lparr>pfi_regular = True, pfi_bytes = bytes\<rparr>" "marshalLocked env r = Inr bytes"
    and "sound_registry env r" "utf8_texts r" "pool_json_round_trip env"
    and "reg_manual r n = Some m" "MaxManualOutboundBytes < length (reformat (man_outbound m))"
  shows "\<not> is_ok (Open env flt path (reg_file r))"
proof
  assume "is_ok (Open env flt path (reg_file r))"
  obtain doc where "penv_marshal env (stored_registry r) = Some doc" "bytes = doc @ [CHR 0x0A]"
    using assms(2) by (auto simp: marshalLocked_def res_simps)
  then have "penv_decode env bytes = Some (reformatted (stored_registry r))"
    using assms(3-5) by (auto simp: pool_json_round_trip_def)
  with \<open>is_ok _\<close> assms(1) obtain r' f where "load_registry env (reformatted (stored_registry r)) f = Inr r'"
    by (auto simp: Open_def is_ok_iff res_simps)
  then obtain ms where ms: "foldE (load_manual env) Map.empty (drg_Manual (reformatted (stored_registry r))) = Inr ms"
    by (auto simp: load_registry_def res_simps)
  let ?d = "(store_manual n m)\<lparr>dmn_Outbound := reformat (man_outbound m)\<rparr>"
  have "n \<in> set (manual_names r)"
    using assms(3,6) by (auto simp: manual_names_def sound_registry_def)
  then have "?d \<in> set (drg_Manual (reformatted (stored_registry r)))"
    using assms(6) by (force simp: reformatted_def stored_registry_def store_manual_def)
  from foldE_each [OF ms this] obtain s s' where "load_manual env s ?d = Inr s'" by blast
  then show False using assms(7)
    by (auto simp: load_manual_def res_simps validateManualOutbound_def split: if_splits)
qed

lemma acknowledged_outbound_blocks_opening:
  assumes "UpsertManual env c ''m'' (wide_outbound 5100) (empty_registry None) = (Inr (), r)"
    and "pool_json_round_trip env" and "penv_outbound_type env (wide_outbound 5100) = Some ''x''"
  shows "\<not> is_ok (Open env flt path (reg_file r))"
proof -
  note step = upsert_step [of env c "empty_registry None" "''m''" "[]" "wide_outbound 5100",
      folded UpsertManual_def, unfolded assms(1)]
  have name: "validComponent ''m''" by code_simp
  have "wide_outbound 5100 \<noteq> []" using length_wide [of 5100] by fastforce
  then have valid: "validateManualOutbound env (wide_outbound 5100) = Inr (wide_outbound 5100)"
    by (simp add: validateManualOutbound_def assms(3) length_wide MaxManualOutboundBytes_def)
  define x where "x = \<lparr>man_remark = [], man_outbound = wide_outbound 5100, man_createdAt = pcl_now c,
    man_updatedAt = pcl_later c\<rparr>"
  have none: "reg_manual (empty_registry None) = Map.empty" by (simp add: empty_registry_def)
  have "UpsertManual env c ''m'' (wide_outbound 5100) (empty_registry None) =
      commit env (pcl_faults c) (empty_registry None) (bumped (empty_registry None\<lparr>reg_manual := [''m'' \<mapsto> x]\<rparr>))"
    unfolding UpsertManual_def UpsertManualWithRemark_def Let_def valid none
    by (simp add: name trim_space_plain x_def)
  then have "commit env (pcl_faults c) (empty_registry None)
      (bumped (empty_registry None\<lparr>reg_manual := [''m'' \<mapsto> x]\<rparr>)) = (Inr (), r)"
    using assms(1) by simp
  then have fields: "reg_manual r = [''m'' \<mapsto> x]" "reg_agents r = Map.empty" "reg_poolVersion r = 1"
    by (elim commit_cases; simp add: bumped_def empty_registry_def)+
  then have "r \<noteq> empty_registry None" by (auto simp: empty_registry_def)
  obtain bytes where "reg_file r = Some \<lparr>pfi_regular = True, pfi_bytes = bytes\<rparr>" "marshalLocked env r = Inr bytes"
    using acknowledged_step [OF step \<open>r \<noteq> empty_registry None\<close>] by blast
  moreover have "sound_registry env r" using step_sound [OF step sound_empty] .
  moreover have "utf8_texts r" by (simp add: fields utf8_texts_def clean_text_def runes_def x_def)
  moreover have "MaxManualOutboundBytes < length (reformat (man_outbound x))"
    using layout_wide [of 5099] by (simp add: MaxManualOutboundBytes_def x_def)
  moreover have "reg_manual r ''m'' = Some x" by (simp add: fields)
  ultimately show ?thesis using assms(2) by (intro document_unreadable) simp_all
qed

end
