(* ===== verification/Managed.thy ===== *)
theory Managed
  imports Compiler Deployment
begin

text \<open>
  The managed users of \<open>internal/singbox\<close>: the safety policy (\<open>policy.go\<close>), the identities in user
  labels (\<open>managed_membership_identity.go\<close>), the users of a configuration and their reconciliation
  over the loopback interface (\<open>managed_users.go\<close>), and user authorities
  (\<open>managed_user_authority.go\<close>).

  A configuration is its text; the JSON reader and writer, SHA-256 and the reading of a number
  literal are the fields of \<open>json_env\<close>. Reading gives a tree with the fields of an object in the
  order of the text. \<open>as_any\<close> is the step from there to Go's \<open>any\<close>: an object becomes a map, in
  which the last of several equal names counts, and a map is the list of its entries by ascending
  keys, the order \<open>json.Marshal\<close> writes them in.
\<close>

section \<open>JSON\<close>

record json_env =
  jen_read :: "string \<Rightarrow> (json \<times> bool) option"
  jen_compact :: "json \<Rightarrow> string option"
  jen_indent :: "json \<Rightarrow> string option"
  jen_isNumber :: "string \<Rightarrow> bool"
  jen_float :: "string \<Rightarrow> int option"
  jen_sha256 :: "string \<Rightarrow> digest"

text \<open>
  \<open>jen_read\<close> gives the first value of a text and whether only white space follows; \<open>jen_compact\<close> and
  \<open>jen_indent\<close> are \<open>json.Marshal\<close> and \<open>json.MarshalIndent\<close> with two spaces, \<open>None\<close> an error of theirs;
  \<open>jen_float\<close> gives the integer a literal stands for after rounding to a \<open>float64\<close>, if any.
\<close>

definition to_map :: "fields \<Rightarrow> fields" where
  "to_map fs = sort_key fst (AList.clearjunk (rev fs))"

fun as_any :: "json \<Rightarrow> json" where
  "as_any (JObj fs) = JObj (to_map (map (\<lambda>(k, v). (k, as_any v)) fs))"
| "as_any (JArr xs) = JArr (map as_any xs)"
| "as_any j = j"

definition delete_key :: "string \<Rightarrow> fields \<Rightarrow> fields" where
  "delete_key k m = filter (\<lambda>(k', _). k' \<noteq> k) m"

definition set_key :: "string \<Rightarrow> json \<Rightarrow> fields \<Rightarrow> fields" where
  "set_key k v m = insort_key fst (k, v) (delete_key k m)"

definition as_object :: "json \<Rightarrow> fields option" where
  "as_object j = (case j of JObj m \<Rightarrow> Some m | _ \<Rightarrow> None)"

definition as_string :: "json option \<Rightarrow> string option" where
  "as_string j = (case j of Some (JStr s) \<Rightarrow> Some s | _ \<Rightarrow> None)"

definition array_at :: "string \<Rightarrow> fields \<Rightarrow> json list option" where
  "array_at k m = (case map_of m k of Some (JArr xs) \<Rightarrow> Some xs | _ \<Rightarrow> None)"

definition string_at :: "string \<Rightarrow> fields \<Rightarrow> string option" where
  "string_at k m = as_string (map_of m k)"

text \<open>\<open>value, _ := x.(string)\<close>\<close>

definition text_or_empty :: "string option \<Rightarrow> string" where
  "text_or_empty s = (case s of None \<Rightarrow> [] | Some t \<Rightarrow> t)"

text \<open>The first value of a text, which must be an object or \<open>null\<close>, with nothing after it.\<close>

definition decodeManagedDocument :: "json_env \<Rightarrow> string \<Rightarrow> fields res" where
  "decodeManagedDocument env encoded =
     (case jen_read env encoded of
        None \<Rightarrow> fail (ErrOther ''json'')
      | Some (j, only) \<Rightarrow>
          (case as_any j of
             JObj m \<Rightarrow> bindE (require only (ErrOther ''configuration contains trailing data'')) (\<lambda>_. ok m)
           | JNull \<Rightarrow> bindE (require only (ErrOther ''configuration contains trailing data'')) (\<lambda>_. ok [])
           | _ \<Rightarrow> fail (ErrOther ''json'')))"

section \<open>The safety policy\<close>

definition HTTP01ListenPort :: int where
  "HTTP01ListenPort = 80"

definition ErrReservedListenPort :: error where
  "ErrReservedListenPort = ErrOther ''an inbound uses port 80, which is reserved for ACME HTTP-01''"

definition ErrManagedUserAPIListenPort :: error where
  "ErrManagedUserAPIListenPort =
     ErrOther ''an inbound uses the port reserved for the loopback managed-user API''"

definition ErrUnsafeManagedUserAPI :: error where
  "ErrUnsafeManagedUserAPI = ErrOther ''the managed-user API must use its reserved loopback endpoint''"

definition quoted :: "string \<Rightarrow> string" where
  "quoted s = CHR 0x22 # s @ [CHR 0x22]"

definition disabledManagedConfig :: string where
  "disabledManagedConfig =
     ''{'' @ [CHR 0x0A] @
     ''  '' @ quoted ''inbounds'' @ '': [],'' @ [CHR 0x0A] @
     ''  '' @ quoted ''outbounds'' @ '': [{'' @ quoted ''type'' @ '': '' @ quoted ''direct'' @ '', '' @
       quoted ''tag'' @ '': '' @ quoted ''tp-direct'' @ ''}, {'' @ quoted ''type'' @ '': '' @ quoted ''block'' @
       '', '' @ quoted ''tag'' @ '': '' @ quoted ''tp-reject'' @ ''}],'' @ [CHR 0x0A] @
     ''  '' @ quoted ''route'' @ '': {'' @ quoted ''rules'' @ '': [], '' @ quoted ''final'' @ '': '' @
       quoted ''tp-reject'' @ ''}'' @ [CHR 0x0A] @ ''}'' @ [CHR 0x0A]"

definition DisabledManagedConfig :: string where
  "DisabledManagedConfig = disabledManagedConfig"

text \<open>
  A field of a structure takes every name of the object that equals its own up to case, as
  \<open>encoding/json\<close> folds it: ASCII letters, the long s and the Kelvin sign.
\<close>

fun fold_name :: "string \<Rightarrow> string" where
  "fold_name [] = []"
| "fold_name (a # s) =
     (case s of
        b # t \<Rightarrow>
          if a = CHR 0xC5 \<and> b = CHR 0xBF then CHR ''s'' # fold_name t
          else (case t of
                  c # u \<Rightarrow> if a = CHR 0xE2 \<and> b = CHR 0x84 \<and> c = CHR 0xAA then CHR ''k'' # fold_name u
                           else ascii_lower a # fold_name s
                | [] \<Rightarrow> ascii_lower a # fold_name s)
      | [] \<Rightarrow> [ascii_lower a])"

text \<open>A field of type \<open>[]json.RawMessage\<close>, and of a structure decoded from an object or \<open>null\<close>.\<close>

definition raw_list :: "string \<Rightarrow> fields \<Rightarrow> json list res" where
  "raw_list name fs =
     foldE (\<lambda>acc (k, v).
       if fold_name k = name
       then (case v of JArr xs \<Rightarrow> ok xs | JNull \<Rightarrow> ok [] | _ \<Rightarrow> fail (ErrOther ''json''))
       else ok acc) [] fs"

definition struct_fields :: "json \<Rightarrow> fields res" where
  "struct_fields j = (case j of JObj fs \<Rightarrow> ok fs | JNull \<Rightarrow> ok [] | _ \<Rightarrow> fail (ErrOther ''json''))"

text \<open>An entry of a \<open>map[string]json.RawMessage\<close>, and what decodes into a \<open>json.Number\<close>.\<close>

definition raw_entry :: "string \<Rightarrow> fields \<Rightarrow> json option" where
  "raw_entry k fs = map_of (rev fs) k"

definition number_text :: "json_env \<Rightarrow> json \<Rightarrow> string option" where
  "number_text env j =
     (case j of
        JInt i \<Rightarrow> Some (show_int i)
      | JNum s \<Rightarrow> Some s
      | JStr s \<Rightarrow> if jen_isNumber env s then Some s else None
      | _ \<Rightarrow> None)"

definition check_inbound :: "json_env \<Rightarrow> json \<Rightarrow> unit res" where
  "check_inbound env j =
     bindE (wrapE (ErrOther ''configuration contains an invalid inbound'') (struct_fields j)) (\<lambda>inbound.
     case Option.bind (raw_entry ''listen_port'' inbound) (number_text env) of
       None \<Rightarrow> ok ()
     | Some port \<Rightarrow>
         if jen_float env port = Some HTTP01ListenPort then fail ErrReservedListenPort
         else if jen_float env port = Some ManagedUserAPIListenPort then fail ErrManagedUserAPIListenPort
         else ok ())"

definition check_service :: "json_env \<Rightarrow> json \<Rightarrow> unit res" where
  "check_service env j =
     bindE (wrapE (ErrOther ''configuration contains an invalid service'') (struct_fields j)) (\<lambda>service.
     if as_string (raw_entry ''type'' service) \<noteq> Some ''ssm-api'' then ok ()
     else require (as_string (raw_entry ''tag'' service) = Some ManagedUserAPIServiceTag \<and>
             as_string (raw_entry ''listen'' service) = Some ''127.0.0.1'' \<and>
             Option.bind (raw_entry ''listen_port'' service) (number_text env)
               = Some (show_int ManagedUserAPIListenPort)) ErrUnsafeManagedUserAPI)"

definition ValidateManagedConfig :: "json_env \<Rightarrow> string \<Rightarrow> unit res" where
  "ValidateManagedConfig env config =
     (let invalid = ErrOther ''configuration is not valid JSON'' in
      bindE (from_option invalid (jen_read env config)) (\<lambda>(j, only).
      bindE (wrapE invalid (struct_fields j)) (\<lambda>document.
      bindE (wrapE invalid (raw_list ''inbounds'' document)) (\<lambda>inbounds.
      bindE (wrapE invalid (raw_list ''services'' document)) (\<lambda>services.
      bindE (require only (ErrOther ''configuration contains trailing JSON data'')) (\<lambda>_.
      bindE (eachE (check_inbound env) inbounds) (\<lambda>_.
      eachE (check_service env) services)))))))"

section \<open>Identities in labels\<close>

definition maxManagedUsernameBytes :: nat where
  "maxManagedUsernameBytes = 128"

record identity =
  idn_FullID :: string
  idn_LegacyKey :: string

definition errInvalidManagedMembershipIdentity :: error where
  "errInvalidManagedMembershipIdentity = ErrOther ''managed-user identity is malformed''"

definition errAmbiguousManagedMembershipIdentity :: error where
  "errAmbiguousManagedMembershipIdentity = ErrOther ''managed-user identity is ambiguous''"

definition validManagedMembershipIDPayload :: "string \<Rightarrow> bool" where
  "validManagedMembershipIDPayload payload \<longleftrightarrow>
     20 \<le> length payload \<and> length payload \<le> 32 \<and> list_all id_tail_byte payload"

definition validManagedMembershipFullID :: "string \<Rightarrow> bool" where
  "validManagedMembershipFullID value \<longleftrightarrow>
     has_prefix ''mem_'' value \<and> validManagedMembershipIDPayload (drop 4 value)"

definition validManagedMembershipKey :: "string \<Rightarrow> bool" where
  "validManagedMembershipKey key \<longleftrightarrow> length key = 12 \<and> list_all id_tail_byte key"

definition rolling_shape :: "string \<Rightarrow> bool" where
  "rolling_shape label_prefix \<longleftrightarrow>
     has_prefix ''mem_'' label_prefix \<and> 24 \<le> length label_prefix \<and> length label_prefix \<le> 36"

text \<open>\<open>ok None\<close> is a label of the topology.\<close>

definition parseManagedMembershipIdentity :: "string \<Rightarrow> identity option res" where
  "parseManagedMembershipIdentity name =
     (case last_index ''-m-'' name of
        None \<Rightarrow>
          if validManagedMembershipFullID name then fail errInvalidManagedMembershipIdentity else ok None
      | Some marker \<Rightarrow>
          let before = take marker name; legacy = drop (marker + 3) name in
          if length legacy \<noteq> 12 then
            (if rolling_shape before then fail errInvalidManagedMembershipIdentity else ok None)
          else if length name > maxManagedUsernameBytes \<or> runes name = None \<or> contains_byte (CHR 0x00) name then
            fail errInvalidManagedMembershipIdentity
          else if \<not> validManagedMembershipKey legacy then fail errInvalidManagedMembershipIdentity
          else if \<not> rolling_shape before then ok (Some \<lparr>idn_FullID = [], idn_LegacyKey = legacy\<rparr>)
          else if \<not> validManagedMembershipIDPayload (drop 4 before) \<or> legacy \<noteq> take 12 (drop 4 before) then
            fail errInvalidManagedMembershipIdentity
          else ok (Some \<lparr>idn_FullID = before, idn_LegacyKey = legacy\<rparr>))"

definition managedMembershipKey :: "string \<Rightarrow> string option" where
  "managedMembershipKey name =
     (case parseManagedMembershipIdentity name of
        Inr (Some i) \<Rightarrow> Some (if idn_FullID i \<noteq> [] then idn_FullID i else idn_LegacyKey i)
      | _ \<Rightarrow> None)"

record identity_index =
  idx_byFull :: "string \<rightharpoonup> identity"
  idx_byLegacy :: "string \<rightharpoonup> identity"

definition newManagedMembershipIdentityIndex :: identity_index where
  "newManagedMembershipIdentityIndex = \<lparr>idx_byFull = Map.empty, idx_byLegacy = Map.empty\<rparr>"

definition add_identity :: "identity_index \<Rightarrow> identity \<Rightarrow> identity_index res" where
  "add_identity index i =
     (if idx_byLegacy index (idn_LegacyKey i) \<noteq> None then fail errAmbiguousManagedMembershipIdentity
      else if idn_FullID i \<noteq> [] \<and> idx_byFull index (idn_FullID i) \<noteq> None
        then fail errAmbiguousManagedMembershipIdentity
      else ok \<lparr>idx_byFull = (if idn_FullID i \<noteq> [] then (idx_byFull index)(idn_FullID i \<mapsto> i) else idx_byFull index),
               idx_byLegacy = (idx_byLegacy index)(idn_LegacyKey i \<mapsto> i)\<rparr>)"

definition authorizes :: "identity_index \<Rightarrow> identity \<Rightarrow> bool res" where
  "authorizes index candidate =
     (if idn_FullID candidate \<noteq> [] \<and> idx_byFull index (idn_FullID candidate) \<noteq> None then ok True
      else case idx_byLegacy index (idn_LegacyKey candidate) of
        None \<Rightarrow> ok False
      | Some active \<Rightarrow>
          if idn_FullID active \<noteq> [] \<and> idn_FullID candidate \<noteq> []
          then fail errAmbiguousManagedMembershipIdentity else ok True)"

definition managedMembershipIdentityIndexForNames :: "string list \<Rightarrow> (identity_index \<times> nat) res" where
  "managedMembershipIdentityIndexForNames names =
     foldE (\<lambda>(index, count) name.
       bindE (parseManagedMembershipIdentity name) (\<lambda>parsed.
       case parsed of
         None \<Rightarrow> ok (index, count)
       | Some i \<Rightarrow> bindE (add_identity index i) (\<lambda>index. ok (index, Suc count))))
       (newManagedMembershipIdentityIndex, 0) names"

section \<open>The users of a configuration\<close>

record managed_user =
  mus_Username :: string
  mus_Password :: string

record managed_endpoint =
  med_Path :: string
  med_Users :: "managed_user list"

record managed_config =
  mcf_Document :: fields
  mcf_Endpoints :: "managed_endpoint list"

definition server_tags :: "fields \<Rightarrow> (string \<times> string) list res" where
  "server_tags servers =
     foldE (\<lambda>acc (path, v).
       case v of
         JStr t \<Rightarrow>
           if t = [] then fail (ErrOther ''managed-user service has an invalid inbound tag'') else ok (acc @ [(path, t)])
       | _ \<Rightarrow> fail (ErrOther ''managed-user service has an invalid inbound tag'')) [] servers"

definition is_user_service :: "json \<Rightarrow> bool" where
  "is_user_service j =
     (case j of JObj m \<Rightarrow> map_of m ''type'' = Some (JStr ''ssm-api'') \<and>
        map_of m ''tag'' = Some (JStr ManagedUserAPIServiceTag) | _ \<Rightarrow> False)"

definition managedUserServers :: "fields \<Rightarrow> (string \<times> string) list res" where
  "managedUserServers document =
     bindE (from_option (ErrOther ''configuration has no managed-user service'') (array_at ''services'' document)) (\<lambda>services.
     bindE (from_option (ErrOther ''configuration has no managed-user service'')
              (Option.bind (find is_user_service services) as_object)) (\<lambda>service.
     bindE (require (map_of service ''listen_port'' = Some (JInt ManagedUserAPIListenPort) \<and>
              map_of service ''listen'' = Some (JStr ''127.0.0.1''))
              (ErrOther ''managed-user service is not restricted to its reserved loopback endpoint'')) (\<lambda>_.
     bindE (from_option (ErrOther ''managed-user service has invalid servers'')
              (Option.bind (map_of service ''servers'') as_object)) server_tags)))"

definition managedInboundType :: "json option \<Rightarrow> bool" where
  "managedInboundType raw \<longleftrightarrow>
     text_or_empty (as_string raw) \<in> {''shadowsocks'', ''anytls'', ''hysteria2''}"

definition validManagedUserPath :: "string \<Rightarrow> bool" where
  "validManagedUserPath path \<longleftrightarrow>
     has_prefix ''/tp-in-'' path \<and> length path \<le> 80 \<and>
     list_all (\<lambda>c. is_lower c \<or> is_digit c \<or> c = CHR ''-'') (drop 1 path)"

definition read_user :: "json \<Rightarrow> managed_user res" where
  "read_user j =
     (case j of
        JObj m \<Rightarrow>
          (case (string_at ''name'' m, string_at ''password'' m) of
             (Some name, Some password) \<Rightarrow>
               if name = [] \<or> password = [] then fail (ErrOther ''managed inbound has an incomplete user'')
               else ok \<lparr>mus_Username = name, mus_Password = password\<rparr>
           | _ \<Rightarrow> fail (ErrOther ''managed inbound has an incomplete user''))
      | _ \<Rightarrow> fail (ErrOther ''managed inbound has an invalid user''))"

definition extractManagedUsers :: "json option \<Rightarrow> managed_user list res" where
  "extractManagedUsers raw =
     (case raw of
        Some (JArr raw_users) \<Rightarrow>
          bindE (foldE (\<lambda>users j.
            bindE (read_user j) (\<lambda>u.
            bindE (require (mus_Username u \<notin> mus_Username ` set users)
                     (ErrOther ''managed inbound has duplicate users'')) (\<lambda>_.
            ok (users @ [u])))) [] raw_users) (\<lambda>users. ok (sort_key mus_Username users))
      | _ \<Rightarrow> fail (ErrOther ''managed inbound has invalid users''))"

text \<open>\<open>byTag\<close>: of several inbounds with one tag the last, as its position.\<close>

definition tag_positions :: "json list \<Rightarrow> string \<rightharpoonup> nat" where
  "tag_positions inbounds =
     fill_map (\<lambda>(i, j). text_or_empty (Option.bind (as_object j) (string_at ''tag''))) fst Map.empty
       (enumerated inbounds)"

definition object_at :: "json list \<Rightarrow> nat \<Rightarrow> fields" where
  "object_at inbounds i = (case inbounds ! i of JObj m \<Rightarrow> m | _ \<Rightarrow> [])"

definition take_users ::
  "(string \<rightharpoonup> nat) \<Rightarrow> json list \<times> managed_endpoint list \<Rightarrow> string \<times> string
    \<Rightarrow> (json list \<times> managed_endpoint list) res" where
  "take_users byTag = (\<lambda>(inbounds, endpoints) (path, tag).
     bindE (require (validManagedUserPath path) (ErrOther ''configuration has an invalid managed-user path'')) (\<lambda>_.
     let unsupported = ErrOther ''managed-user service references an unsupported inbound'' in
     bindE (from_option unsupported (byTag tag)) (\<lambda>i.
     let inbound = object_at inbounds i in
     bindE (require (managedInboundType (map_of inbound ''type'')) unsupported) (\<lambda>_.
     bindE (extractManagedUsers (map_of inbound ''users'')) (\<lambda>users.
       ok (inbounds[i := JObj (delete_key ''users'' inbound)], endpoints @ [\<lparr>med_Path = path, med_Users = users\<rparr>]))))))"

definition managed_users_of :: "fields \<Rightarrow> managed_config res" where
  "managed_users_of document =
     bindE (managedUserServers document) (\<lambda>servers.
     bindE (from_option (ErrOther ''configuration has no inbounds'') (array_at ''inbounds'' document)) (\<lambda>inbounds.
     bindE (require (list_all (\<lambda>j. as_object j \<noteq> None) inbounds)
              (ErrOther ''configuration has an invalid inbound'')) (\<lambda>_.
     bindE (foldE (take_users (tag_positions inbounds)) (inbounds, []) servers) (\<lambda>(inbounds, endpoints).
       ok \<lparr>mcf_Document = set_key ''inbounds'' (JArr inbounds) document, mcf_Endpoints = endpoints\<rparr>))))"

definition parseManagedUserConfig :: "json_env \<Rightarrow> string \<Rightarrow> managed_config res" where
  "parseManagedUserConfig env encoded = bindE (decodeManagedDocument env encoded) managed_users_of"

definition user_names_of :: "json \<Rightarrow> string list" where
  "user_names_of inbound =
     (case Option.bind (as_object inbound) (array_at ''users'') of
        None \<Rightarrow> []
      | Some users \<Rightarrow> concat (map (\<lambda>u. case Option.bind (as_object u) (string_at ''name'') of
                                       None \<Rightarrow> [] | Some name \<Rightarrow> [name]) users))"

definition managedDocumentUserNames :: "fields \<Rightarrow> string list" where
  "managedDocumentUserNames document =
     (case array_at ''inbounds'' document of None \<Rightarrow> [] | Some inbounds \<Rightarrow> concat (map user_names_of inbounds))"

definition managedConfigHasMemberships :: "json_env \<Rightarrow> string \<Rightarrow> bool res" where
  "managedConfigHasMemberships env encoded =
     bindE (decodeManagedDocument env encoded) (\<lambda>document.
     bindE (managedMembershipIdentityIndexForNames (managedDocumentUserNames document)) (\<lambda>(_, count).
     ok (count > 0)))"

section \<open>Collecting traffic\<close>

record managed_traffic =
  utr_InboundPath :: string
  utr_Username :: string
  utr_UplinkBytes :: u64
  utr_DownlinkBytes :: u64

record traffic_snapshot =
  tsn_Users :: "managed_traffic list"
  tsn_SuccessfulEndpoints :: nat
  tsn_FailedEndpoints :: nat

text \<open>
  \<open>reply path\<close> is what the interface of sing-box answers for an endpoint: the users with their
  counters, or \<open>None\<close> when the request, the status, the body or its decoding fails.
\<close>

definition membership_names :: "managed_user list \<Rightarrow> string list res" where
  "membership_names us =
     foldE (\<lambda>names u. bindE (parseManagedMembershipIdentity (mus_Username u)) (\<lambda>i.
       ok (if i = None then names else names @ [mus_Username u]))) [] us"

definition sound_traffic_name :: "string \<Rightarrow> bool" where
  "sound_traffic_name name \<longleftrightarrow> trim_space name \<noteq> [] \<and> length name \<le> 128 \<and> CHR 0x00 \<notin> set name"

definition endpoint_traffic :: "string \<Rightarrow> string list \<Rightarrow> (string \<times> u64 \<times> u64) list \<Rightarrow> managed_traffic list option" where
  "endpoint_traffic path names us =
     (let members = filter (\<lambda>(name, _). name \<in> set names) us in
      if list_all (\<lambda>(name, _). sound_traffic_name name) members
      then Some (map (\<lambda>(name, up, down).
             \<lparr>utr_InboundPath = path, utr_Username = name, utr_UplinkBytes = up, utr_DownlinkBytes = down\<rparr>) members)
      else None)"

fun collect_endpoints ::
  "(string \<Rightarrow> (string \<times> u64 \<times> u64) list option) \<Rightarrow> traffic_snapshot \<Rightarrow> managed_endpoint list
    \<Rightarrow> traffic_snapshot \<times> error option" where
  "collect_endpoints reply result [] =
     (result, if tsn_FailedEndpoints result > 0 then Some (ErrOther ''one or more entrance traffic endpoints failed'') else None)"
| "collect_endpoints reply result (e # es) =
     (case membership_names (med_Users e) of
        Inl err \<Rightarrow> (result, Some err)
      | Inr [] \<Rightarrow> collect_endpoints reply result es
      | Inr names \<Rightarrow>
          (case Option.bind (reply (med_Path e)) (endpoint_traffic (med_Path e) names) of
             None \<Rightarrow> collect_endpoints reply (result\<lparr>tsn_FailedEndpoints := tsn_FailedEndpoints result + 1\<rparr>) es
           | Some us \<Rightarrow> collect_endpoints reply
               (result\<lparr>tsn_Users := tsn_Users result @ us, tsn_SuccessfulEndpoints := tsn_SuccessfulEndpoints result + 1\<rparr>) es))"

definition no_traffic :: traffic_snapshot where
  "no_traffic = \<lparr>tsn_Users = [], tsn_SuccessfulEndpoints = 0, tsn_FailedEndpoints = 0\<rparr>"

definition collectManagedUserTrafficWithClient ::
  "json_env \<Rightarrow> (string \<Rightarrow> (string \<times> u64 \<times> u64) list option) \<Rightarrow> string \<Rightarrow> traffic_snapshot \<times> error option" where
  "collectManagedUserTrafficWithClient env reply config =
     (case managedConfigHasMemberships env config of
        Inl err \<Rightarrow> (no_traffic, Some err)
      | Inr False \<Rightarrow> (no_traffic, None)
      | Inr True \<Rightarrow>
          (case parseManagedUserConfig env config of
             Inl err \<Rightarrow> (no_traffic, Some err)
           | Inr parsed \<Rightarrow> collect_endpoints reply no_traffic (mcf_Endpoints parsed)))"

end
