(* ===== verification/Authority.thy ===== *)
theory Authority
  imports Managed DeploymentDisk
begin

text \<open>
  User authorities (\<open>managed_user_authority.go\<close>, \<open>retainAuthorizedMemberships\<close> and the reconciliation
  of \<open>managed_users.go\<close>): the users of one topology shape, apart from the shape itself. The master
  projects a configuration to an authority, an Agent lays an authority over the configuration it runs.
\<close>

section \<open>Variants\<close>

record authority_endpoint =
  aep_Path :: string
  aep_Users :: "managed_user list"

record authority_variant =
  auv_TopologySHA256 :: digest
  auv_Endpoints :: "authority_endpoint list"

record authority_state =
  aus_Version :: int
  aus_Revision :: u64
  aus_Variants :: "authority_variant list"

definition ACMEHTTP01RelayPort :: int where
  "ACMEHTTP01RelayPort = 19091"

text \<open>\<open>port.Float64()\<close> of an entry that is a number.\<close>

definition float_at :: "json_env \<Rightarrow> string \<Rightarrow> fields \<Rightarrow> int option" where
  "float_at env k m =
     (case map_of m k of
        Some (JInt i) \<Rightarrow> jen_float env (show_int i)
      | Some (JNum s) \<Rightarrow> jen_float env s
      | _ \<Rightarrow> None)"

definition normal_provider :: "json_env \<Rightarrow> json \<Rightarrow> json" where
  "normal_provider env j =
     (case j of
        JObj m \<Rightarrow>
          if map_of m ''type'' = Some (JStr ''acme'') \<and>
             float_at env ''alternative_http_port'' m = Some ACMEHTTP01RelayPort
          then JObj (delete_key ''alternative_http_port'' m) else j
      | _ \<Rightarrow> j)"

definition without_marker :: "json \<Rightarrow> json" where
  "without_marker j = (case j of JObj m \<Rightarrow> JObj (delete_key ''managed'' m) | _ \<Rightarrow> j)"

text \<open>
  The markers are deleted in the inbounds of the document itself, the providers replaced in a copy.
\<close>

definition strip_markers :: "fields \<Rightarrow> fields" where
  "strip_markers document =
     (case array_at ''inbounds'' document of
        None \<Rightarrow> document
      | Some inbounds \<Rightarrow> set_key ''inbounds'' (JArr (map without_marker inbounds)) document)"

definition canonical_document :: "json_env \<Rightarrow> fields \<Rightarrow> fields" where
  "canonical_document env document =
     (case array_at ''certificate_providers'' document of
        None \<Rightarrow> strip_markers document
      | Some providers \<Rightarrow>
          set_key ''certificate_providers'' (JArr (map (normal_provider env) providers)) (strip_markers document))"

definition managedTopologyDigest :: "json_env \<Rightarrow> fields \<Rightarrow> (digest \<times> fields) res" where
  "managedTopologyDigest env document =
     bindE (from_option (ErrOther ''json'') (jen_compact env (JObj (canonical_document env document)))) (\<lambda>encoded.
       ok (jen_sha256 env encoded, strip_markers document))"

definition valid_authority_user :: "managed_user \<Rightarrow> bool" where
  "valid_authority_user u \<longleftrightarrow>
     (case parseManagedMembershipIdentity (mus_Username u) of Inr (Some _) \<Rightarrow> True | _ \<Rightarrow> False) \<and>
     trim_space (mus_Password u) \<noteq> [] \<and> length (mus_Username u) \<le> maxManagedUsernameBytes \<and>
     \<not> contains_byte (CHR 0x00) (mus_Username u) \<and> length (mus_Password u) \<le> 256 \<and>
     \<not> contains_any [CHR 0x00, CHR 0x0D, CHR 0x0A] (mus_Password u)"

definition add_label :: "identity_index \<Rightarrow> string \<Rightarrow> identity_index res" where
  "add_label index name =
     bindE (parseManagedMembershipIdentity name) (\<lambda>parsed.
       case parsed of None \<Rightarrow> ok index | Some i \<Rightarrow> add_identity index i)"

definition check_endpoint ::
  "string list \<times> identity_index \<Rightarrow> authority_endpoint \<Rightarrow> (string list \<times> identity_index) res" where
  "check_endpoint = (\<lambda>(paths, index) endpoint.
     bindE (require (validManagedUserPath (aep_Path endpoint))
              (ErrOther ''managed-user authority contains an invalid endpoint'')) (\<lambda>_.
     bindE (require (aep_Path endpoint \<notin> set paths)
              (ErrOther ''managed-user authority contains a duplicate endpoint'')) (\<lambda>_.
     bindE (foldE (\<lambda>index u.
        bindE (require (valid_authority_user u)
                 (ErrOther ''managed-user authority contains an invalid user'')) (\<lambda>_.
        wrapE (ErrOther ''managed-user authority contains a duplicate membership'') (add_label index (mus_Username u))))
        index (aep_Users endpoint)) (\<lambda>index.
     ok (aep_Path endpoint # paths, index)))))"

definition validateManagedUserAuthorityVariant :: "authority_variant \<Rightarrow> unit res" where
  "validateManagedUserAuthorityVariant v =
     bindE (require (auv_TopologySHA256 v \<noteq> 0)
              (ErrOther ''managed-user authority topology digest is required'')) (\<lambda>_.
     bindE (foldE check_endpoint ([], newManagedMembershipIdentityIndex) (auv_Endpoints v)) (\<lambda>_. ok ()))"

definition maxManagedAuthorityVariants :: nat where
  "maxManagedAuthorityVariants = 8"

definition validateManagedUserAuthorityState :: "authority_state \<Rightarrow> unit res" where
  "validateManagedUserAuthorityState st =
     bindE (require (aus_Version st = 1 \<and> aus_Revision st \<noteq> 0 \<and> aus_Variants st \<noteq> [] \<and>
              length (aus_Variants st) \<le> maxManagedAuthorityVariants)
              (ErrOther ''managed-user authority state is invalid'')) (\<lambda>_.
     bindE (foldE (\<lambda>seen v.
        bindE (validateManagedUserAuthorityVariant v) (\<lambda>_.
        bindE (require (auv_TopologySHA256 v \<notin> set seen)
                 (ErrOther ''managed-user authority state contains duplicate topology variants'')) (\<lambda>_.
        ok (auv_TopologySHA256 v # seen)))) [] (aus_Variants st)) (\<lambda>_. ok ()))"

text \<open>The Membership users of a list, in order; an unreadable label is an error.\<close>

fun membership_users :: "managed_user list \<Rightarrow> managed_user list res" where
  "membership_users [] = ok []"
| "membership_users (u # us) =
     bindE (parseManagedMembershipIdentity (mus_Username u)) (\<lambda>parsed.
     bindE (membership_users us) (\<lambda>rest.
     ok (if parsed = None then rest else u # rest)))"

fun topology_users :: "managed_user list \<Rightarrow> managed_user list res" where
  "topology_users [] = ok []"
| "topology_users (u # us) =
     bindE (parseManagedMembershipIdentity (mus_Username u)) (\<lambda>parsed.
     bindE (topology_users us) (\<lambda>rest.
     ok (if parsed = None then u # rest else rest)))"

fun project_endpoints :: "managed_endpoint list \<Rightarrow> authority_endpoint list res" where
  "project_endpoints [] = ok []"
| "project_endpoints (e # es) =
     bindE (membership_users (med_Users e)) (\<lambda>users.
     bindE (project_endpoints es) (\<lambda>rest.
     ok (\<lparr>aep_Path = med_Path e, aep_Users = users\<rparr> # rest)))"

definition BuildManagedUserAuthorityVariant :: "json_env \<Rightarrow> string \<Rightarrow> authority_variant res" where
  "BuildManagedUserAuthorityVariant env config =
     (case parseManagedUserConfig env config of
        Inl e \<Rightarrow>
          if trim_space config = trim_space DisabledManagedConfig
          then ok \<lparr>auv_TopologySHA256 = jen_sha256 env config, auv_Endpoints = []\<rparr>
          else Inl e
      | Inr parsed \<Rightarrow>
          bindE (managedTopologyDigest env (mcf_Document parsed)) (\<lambda>(digest, _).
          bindE (project_endpoints (mcf_Endpoints parsed)) (\<lambda>endpoints.
          let variant = \<lparr>auv_TopologySHA256 = digest, auv_Endpoints = endpoints\<rparr>
          in bindE (validateManagedUserAuthorityVariant variant) (\<lambda>_. ok variant))))"

section \<open>Laying an authority over a configuration\<close>

definition adjacent_repeat :: "managed_user list \<Rightarrow> bool" where
  "adjacent_repeat users \<longleftrightarrow>
     list_ex (\<lambda>(l, r). mus_Username l = mus_Username r \<or> mus_Password l = mus_Password r) (zip users (tl users))"

definition user_object :: "managed_user \<Rightarrow> json" where
  "user_object u = JObj [(''name'', JStr (mus_Username u)), (''password'', JStr (mus_Password u))]"

text \<open>\<open>authority\<close> and \<open>byPath\<close>: of several endpoints with one path the last.\<close>

definition merge_endpoint ::
  "(string \<rightharpoonup> managed_user list) \<times> managed_endpoint list \<Rightarrow> managed_endpoint
    \<Rightarrow> ((string \<rightharpoonup> managed_user list) \<times> managed_endpoint list) res" where
  "merge_endpoint = (\<lambda>(authority, endpoints) e.
     bindE (from_option (ErrOther ''managed-user authority omits a topology endpoint'') (authority (med_Path e))) (\<lambda>authorized.
     bindE (topology_users (med_Users e)) (\<lambda>links.
     let users = sort_key mus_Username (links @ authorized) in
     bindE (require (\<not> adjacent_repeat users)
              (ErrOther ''managed-user authority contains a duplicate identity'')) (\<lambda>_.
     ok (authority(med_Path e := None), endpoints @ [\<lparr>med_Path = med_Path e, med_Users = users\<rparr>])))))"

definition put_users :: "managed_user list \<Rightarrow> fields \<Rightarrow> fields" where
  "put_users users inbound =
     (let inbound = set_key ''users'' (JArr (map user_object users)) inbound in
      if map_of inbound ''type'' = Some (JStr ''shadowsocks'') \<and> users = []
      then set_key ''managed'' (JBool True) inbound else delete_key ''managed'' inbound)"

definition installManagedEndpointUsers :: "managed_endpoint list \<Rightarrow> fields \<Rightarrow> fields res" where
  "installManagedEndpointUsers endpoints document =
     bindE (managedUserServers document) (\<lambda>servers.
     let inbounds = (case array_at ''inbounds'' document of None \<Rightarrow> [] | Some xs \<Rightarrow> xs);
         byPath = fill_map med_Path med_Users Map.empty endpoints
     in bindE (foldE (\<lambda>xs (path, tag).
          bindE (from_option (ErrOther ''managed-user authority references a missing inbound'')
                   (Option.bind (tag_positions inbounds tag)
                      (\<lambda>i. if as_object (inbounds ! i) = None then None else Some i))) (\<lambda>i.
          ok (xs[i := JObj (put_users (case byPath path of None \<Rightarrow> [] | Some us \<Rightarrow> us) (object_at xs i))])))
          inbounds servers) (\<lambda>inbounds.
        ok (if array_at ''inbounds'' document = None then document
            else set_key ''inbounds'' (JArr inbounds) document)))"

definition applyManagedUserAuthority ::
  "json_env \<Rightarrow> string \<Rightarrow> authority_variant list \<Rightarrow> (string \<times> bool) res" where
  "applyManagedUserAuthority env config variants =
     (if trim_space config = trim_space DisabledManagedConfig then ok (config, True)
      else
        bindE (parseManagedUserConfig env config) (\<lambda>parsed.
        bindE (managedTopologyDigest env (mcf_Document parsed)) (\<lambda>(digest, document).
        case find (\<lambda>v. auv_TopologySHA256 v = digest) variants of
           None \<Rightarrow> ok (config, False)
         | Some selected \<Rightarrow>
             bindE (foldE merge_endpoint
                      (fill_map aep_Path aep_Users Map.empty (auv_Endpoints selected), []) (mcf_Endpoints parsed)) (\<lambda>(authority, endpoints).
             bindE (require (list_all (\<lambda>e. authority (aep_Path e) = None) (auv_Endpoints selected))
                      (ErrOther ''managed-user authority references an endpoint outside its topology'')) (\<lambda>_.
             bindE (installManagedEndpointUsers endpoints document) (\<lambda>document.
             bindE (from_option (ErrOther ''json'') (jen_indent env (JObj document))) (\<lambda>encoded.
             ok (encoded @ [CHR 0x0A], True))))))))"

section \<open>Retaining authorized Memberships\<close>

text \<open>
  The keys of a Go map are visited in no particular order; \<open>pick\<close> chooses the first of those that fit.
\<close>

definition authorize_active ::
  "(string list \<Rightarrow> string) \<Rightarrow> string list \<Rightarrow> identity_index \<Rightarrow> string \<Rightarrow> identity_index res" where
  "authorize_active pick keys index name =
     bindE (parseManagedMembershipIdentity name) (\<lambda>parsed.
     case parsed of
       Some i \<Rightarrow> add_identity index i
     | None \<Rightarrow>
         (let fitting = filter (\<lambda>k. has_suffix (CHR ''-'' # k) name) keys in
          if fitting = [] then ok index
          else add_identity index \<lparr>idn_FullID = [], idn_LegacyKey = pick fitting\<rparr>))"

definition retain_users :: "identity_index \<Rightarrow> json list \<Rightarrow> json list res" where
  "retain_users authorized users =
     foldE (\<lambda>acc u.
       bindE (parseManagedMembershipIdentity (text_or_empty (Option.bind (as_object u) (string_at ''name'')))) (\<lambda>parsed.
       bindE (case parsed of None \<Rightarrow> ok True | Some i \<Rightarrow> authorizes authorized i) (\<lambda>allowed.
       ok (if allowed then acc @ [u] else acc)))) [] users"

text \<open>An assignment to an entry of a nil map panics.\<close>

definition retain_inbound :: "identity_index \<Rightarrow> json \<Rightarrow> json res" where
  "retain_inbound authorized j =
     (case j of
        JObj inbound \<Rightarrow>
          bindE (retain_users authorized (case array_at ''users'' inbound of None \<Rightarrow> [] | Some us \<Rightarrow> us)) (\<lambda>filtered.
          let inbound = set_key ''users'' (JArr filtered) inbound in
          ok (JObj (if map_of inbound ''type'' = Some (JStr ''shadowsocks'') \<and> filtered = []
                    then set_key ''managed'' (JBool True) inbound else delete_key ''managed'' inbound)))
      | _ \<Rightarrow> fail (ErrOther ''assignment to entry in nil map''))"

definition retainAuthorizedMemberships ::
  "json_env \<Rightarrow> (string list \<Rightarrow> string) \<Rightarrow> string \<Rightarrow> string \<Rightarrow> string res" where
  "retainAuthorizedMemberships env pick activeConfig candidateConfig =
     bindE (decodeManagedDocument env candidateConfig) (\<lambda>candidate.
     let names = managedDocumentUserNames candidate in
     bindE (managedMembershipIdentityIndexForNames names) (\<lambda>(identities, count).
     if count = 0 then ok candidateConfig
     else
       bindE (case decodeManagedDocument env activeConfig of
                Inl _ \<Rightarrow> ok newManagedMembershipIdentityIndex
              | Inr active \<Rightarrow>
                  if trim_space activeConfig = [] then ok newManagedMembershipIdentityIndex
                  else foldE (authorize_active pick
                         (filter (\<lambda>k. idx_byLegacy identities k \<noteq> None)
                           (concat (map (\<lambda>n. case parseManagedMembershipIdentity n of
                               Inr (Some i) \<Rightarrow> [idn_LegacyKey i] | _ \<Rightarrow> []) names))))
                       newManagedMembershipIdentityIndex (managedDocumentUserNames active)) (\<lambda>authorized.
       bindE (foldE (\<lambda>acc j. bindE (retain_inbound authorized j) (\<lambda>j. ok (acc @ [j]))) []
                (case array_at ''inbounds'' candidate of None \<Rightarrow> [] | Some xs \<Rightarrow> xs)) (\<lambda>inbounds.
       bindE (from_option (ErrOther ''json'') (jen_indent env (JObj
                (if array_at ''inbounds'' candidate = None then candidate
                 else set_key ''inbounds'' (JArr inbounds) candidate)))) (\<lambda>encoded.
       ok (encoded @ [CHR 0x0A]))))))"

section \<open>Reconciliation over the loopback interface\<close>

text \<open>
  A request is the path of an endpoint with the users it is to have; \<open>accepts\<close> tells whether the
  \<open>n\<close>-th request is answered with \<open>204 No Content\<close>. The result is whether only users differ, the
  error, and the requests sent.
\<close>

fun replace_users ::
  "(nat \<Rightarrow> bool) \<Rightarrow> nat \<Rightarrow> managed_endpoint list \<Rightarrow> error option \<times> managed_endpoint list" where
  "replace_users accepts n [] = (None, [])"
| "replace_users accepts n (e # es) =
     (if accepts n then (case replace_users accepts (Suc n) es of (err, sent) \<Rightarrow> (err, e # sent))
      else (Some (ErrOther ''managed-user API rejected the replacement''), [e]))"

definition sameManagedUserEndpoints :: "managed_endpoint list \<Rightarrow> managed_endpoint list \<Rightarrow> bool" where
  "sameManagedUserEndpoints left right \<longleftrightarrow> map med_Path left = map med_Path right"

definition reconcileManagedUsersWithClient ::
  "json_env \<Rightarrow> (nat \<Rightarrow> bool) \<Rightarrow> string \<Rightarrow> string \<Rightarrow> bool \<times> error option \<times> managed_endpoint list" where
  "reconcileManagedUsersWithClient env accepts previousConfig candidateConfig =
     (case (parseManagedUserConfig env previousConfig, parseManagedUserConfig env candidateConfig) of
        (Inr previous, Inr candidate) \<Rightarrow>
          if mcf_Endpoints candidate = [] \<or> mcf_Document previous \<noteq> mcf_Document candidate \<or>
             \<not> sameManagedUserEndpoints (mcf_Endpoints previous) (mcf_Endpoints candidate)
          then (False, None, [])
          else (True, replace_users accepts 0 (mcf_Endpoints candidate))
      | _ \<Rightarrow> (False, None, []))"

end
