(* ===== verification/ManagedFacts.thy ===== *)
theory ManagedFacts
  imports Authority DeploymentRecovery TermFacts
begin

text \<open>
  Maps as ascending lists of entries, what reading back a written document gives, identities, and the
  users a configuration lists for its endpoints.
\<close>

section \<open>Maps\<close>

definition is_map :: "('k::linorder \<times> 'v) list \<Rightarrow> bool" where
  "is_map m \<longleftrightarrow> sorted (map fst m) \<and> distinct (map fst m)"

lemma is_map_eqI:
  assumes "is_map m" "is_map m'" "map_of m = map_of m'"
  shows "m = m'"
proof (rule map_sorted_distinct_set_unique [where f = fst])
  show same: "set m = set m'" using assms by (metis is_map_def map_of_inject_set)
  show "inj_on fst (set m \<union> set m')" using assms(1) unfolding same [symmetric] by (simp add: is_map_def distinct_map)
qed (use assms in \<open>simp_all add: is_map_def\<close>)

lemma distinct_sort_fst: "distinct (map fst (sort_key f m)) \<longleftrightarrow> distinct (map fst m)"
  by (metis mset_eq_imp_distinct_iff mset_map mset_sort)

lemma is_map_delete [simp]: "is_map m \<Longrightarrow> is_map (delete_key k m)"
  by (auto simp: is_map_def delete_key_def sorted_wrt_filter sorted_map distinct_map_filter
      intro: sorted_filter)

lemma map_of_delete_key: "map_of (delete_key k m) = (map_of m)(k := None)"
  by (induction m) (auto simp: delete_key_def fun_eq_iff)

lemma delete_key_fresh: "k \<notin> fst ` set (delete_key k m)"
  by (auto simp: delete_key_def)

lemma map_of_insort_fresh: "k \<notin> fst ` set m \<Longrightarrow> map_of (insort_key fst (k, v) m) = (map_of m)(k \<mapsto> v)"
  by (induction m) (auto simp: fun_eq_iff)

lemma map_of_set_key: "map_of (set_key k v m) = (map_of m)(k \<mapsto> v)"
  using map_of_insort_fresh [OF delete_key_fresh [of k m], of v] by (simp add: set_key_def map_of_delete_key)

lemma is_map_set [simp]:
  assumes "is_map m"
  shows "is_map (set_key k v m)"
proof -
  have "sorted (map fst (delete_key k m))" "distinct (map fst (delete_key k m))"
    using is_map_delete [OF assms] by (auto simp: is_map_def)
  then show ?thesis unfolding is_map_def set_key_def
    using delete_key_fresh [of k m]
    by (auto simp: sorted_insort_key distinct_insort_key distinct_insort)
qed

lemma is_map_to_map [simp]: "is_map (to_map fs)"
  by (simp add: is_map_def to_map_def distinct_sort_fst distinct_clearjunk)

lemma map_of_sort:
  assumes "distinct (map fst m)"
  shows "map_of (sort_key fst m) = map_of m"
  using assms by (subst map_of_inject_set) (simp_all add: distinct_sort_fst)

lemma map_of_rev: "distinct (map fst m) \<Longrightarrow> map_of (rev m) = map_of m"
  by (subst map_of_inject_set) (simp_all add: rev_map [symmetric])

lemma map_of_to_map [simp]: "map_of (to_map fs) = map_of (rev fs)"
  by (simp add: to_map_def map_of_sort distinct_clearjunk map_of_clearjunk)

lemma to_map_id [simp]: "is_map m \<Longrightarrow> to_map m = m"
  by (intro is_map_eqI) (simp, simp, simp add: is_map_def map_of_rev)

lemma in_to_map: "(k, v) \<in> set (to_map fs) \<Longrightarrow> (k, v) \<in> set fs"
  using is_map_to_map [of fs] unfolding is_map_def
  by (metis map_of_SomeD map_of_eq_Some_iff map_of_to_map set_rev)

lemma in_to_map_values:
  assumes "(k, v) \<in> set (to_map (map (\<lambda>(k, v). (k, f v)) fs))"
  obtains w where "(k, w) \<in> set fs" "v = f w"
  using in_to_map [OF assms] by auto

lemma set_delete_key: "set (delete_key k m) = {(k', v) \<in> set m. k' \<noteq> k}"
  by (auto simp: delete_key_def)

lemma set_set_key: "set (set_key k v m) = insert (k, v) {(k', v) \<in> set m. k' \<noteq> k}"
  by (auto simp: set_key_def set_insort_key set_delete_key)

lemma set_key_same [simp]: "is_map m \<Longrightarrow> map_of m k = Some v \<Longrightarrow> set_key k v m = m"
  by (rule is_map_eqI) (auto simp: map_of_set_key fun_eq_iff)

lemma delete_key_absent [simp]: "map_of m k = None \<Longrightarrow> delete_key k m = m"
  unfolding delete_key_def by (rule filter_True) (auto simp: map_of_eq_None_iff image_iff)

section \<open>Trees of maps\<close>

lemma as_any_idem [simp]: "as_any (as_any j) = as_any j"
proof (induction j)
  case (JObj fs)
  let ?m = "to_map (map (\<lambda>(k, v). (k, as_any v)) fs)"
  have "as_any v = v" if "(k, v) \<in> set ?m" for k v
    using JObj by (rule_tac in_to_map_values [OF that]) force
  then have "\<And>p. p \<in> set ?m \<Longrightarrow> (\<lambda>(k, v). (k, as_any v)) p = p" by (metis (mono_tags, lifting) case_prod_conv surj_pair)
  then have "map (\<lambda>(k, v). (k, as_any v)) ?m = ?m" by (rule map_idI)
  then show ?case by (simp only: as_any.simps to_map_id is_map_to_map)
qed auto

lemma canonical_obj:
  "as_any (JObj m) = JObj m \<longleftrightarrow> is_map m \<and> (\<forall>(k, v) \<in> set m. as_any v = v)"
proof
  assume same: "as_any (JObj m) = JObj m"
  then have m: "to_map (map (\<lambda>(k, v). (k, as_any v)) m) = m" by simp
  then have "is_map m" by (metis is_map_to_map)
  moreover have "as_any v = v" if "(k, v) \<in> set m" for k v
    using that by (subst (asm) m [symmetric]) (auto elim: in_to_map_values)
  ultimately show "is_map m \<and> (\<forall>(k, v) \<in> set m. as_any v = v)" by auto
next
  assume r: "is_map m \<and> (\<forall>(k, v) \<in> set m. as_any v = v)"
  then have "map (\<lambda>(k, v). (k, as_any v)) m = m" by (intro map_idI) auto
  with r show "as_any (JObj m) = JObj m" by simp
qed

lemma canonical_arr: "as_any (JArr xs) = JArr xs \<longleftrightarrow> (\<forall>x \<in> set xs. as_any x = x)"
  by (auto simp: map_idI intro: map_idI) (metis in_set_conv_nth nth_map)

fun clean_tree :: "json_env \<Rightarrow> json \<Rightarrow> bool" where
  "clean_tree env (JStr s) \<longleftrightarrow> clean_text s"
| "clean_tree env (JNum s) \<longleftrightarrow> jen_isNumber env s"
| "clean_tree env (JArr xs) \<longleftrightarrow> (\<forall>x \<in> set xs. clean_tree env x)"
| "clean_tree env (JObj fs) \<longleftrightarrow> (\<forall>(k, v) \<in> set fs. clean_text k \<and> clean_tree env v)"
| "clean_tree env j \<longleftrightarrow> True"

text \<open>
  The documented behaviour of \<open>encoding/json\<close>: strings read are valid UTF-8 and numbers valid
  literals, since others are replaced or refused; what \<open>MarshalIndent\<close> writes for such a value reads
  back as the value, objects as maps.
\<close>

definition json_reads_back :: "json_env \<Rightarrow> bool" where
  "json_reads_back env \<longleftrightarrow>
     (\<forall>s j only. jen_read env s = Some (j, only) \<longrightarrow> clean_tree env j) \<and>
     (\<forall>j s. clean_tree env j \<longrightarrow> jen_indent env j = Some s \<longrightarrow>
        jen_read env (s @ [CHR 0x0A]) = Some (as_any j, True))"

lemma clean_as_any: "clean_tree env j \<Longrightarrow> clean_tree env (as_any j)"
proof (induction j)
  case (JObj fs)
  have "clean_text k \<and> clean_tree env v" if "(k, v) \<in> set (to_map (map (\<lambda>(k, v). (k, as_any v)) fs))" for k v
    using JObj by (rule_tac in_to_map_values [OF that]) fastforce
  then show ?case by auto
qed auto

lemma decoded_document:
  assumes "decodeManagedDocument env s = Inr m"
  shows "as_any (JObj m) = JObj m" "json_reads_back env \<Longrightarrow> clean_tree env (JObj m)"
proof -
  from assms obtain j only where j: "jen_read env s = Some (j, only)" "as_any j = JObj m \<or> as_any j = JNull \<and> m = []"
    by (auto simp: decodeManagedDocument_def bindE_Inr_iff split: option.splits json.splits)
  show "as_any (JObj m) = JObj m" using j(2) as_any_idem [of j] by (elim disjE) (simp_all add: to_map_def)
  show "clean_tree env (JObj m)" if "json_reads_back env"
    using that j clean_as_any [of env j] unfolding json_reads_back_def by fastforce
qed

lemma decode_written:
  assumes "json_reads_back env" "clean_tree env (JObj m)" "as_any (JObj m) = JObj m" "jen_indent env (JObj m) = Some s"
  shows "decodeManagedDocument env (s @ [CHR 0x0A]) = Inr m"
proof -
  have "jen_read env (s @ [CHR 0x0A]) = Some (as_any (JObj m), True)" using assms unfolding json_reads_back_def by blast
  then show ?thesis using assms(3) by (simp add: decodeManagedDocument_def require_def del: as_any.simps)
qed

end
