(* ===== verification/IdentityFacts.thy ===== *)
theory IdentityFacts
  imports ManagedFacts
begin

text \<open>Which labels are identities, and the index that refuses ambiguous ones.\<close>

section \<open>Labels\<close>

lemma ascii_runes:
  assumes "\<forall>c \<in> set s. (of_char c :: nat) < 0x80"
  shows "runes s = Some (map of_char s)"
  using assms by (induction s) (simp_all add: runes_def)

lemma not_id_tail:
  "\<not> id_tail_byte (CHR 0x00)" "\<not> id_tail_byte (CHR 0x0D)" "\<not> id_tail_byte (CHR 0x0A)" "\<not> id_tail_byte (CHR 0x20)"
  by (simp_all add: id_tail_byte_def is_alnum_def is_lower_def is_upper_def is_digit_def less_eq_char_def)

lemma id_tail_ascii: "id_tail_byte c \<Longrightarrow> (of_char c :: nat) < 0x80"
  unfolding id_tail_byte_def is_alnum_def is_lower_def is_upper_def is_digit_def less_eq_char_def by auto

lemma validID_parts:
  assumes "validID x (p @ [CHR ''_''])" "list_all is_lower p"
  obtains t where "x = p @ CHR ''_'' # t" "20 \<le> length t" "length t \<le> 32" "list_all id_tail_byte t" "shortID x = take 12 t"
proof -
  from assms(1) obtain t where x: "x = (p @ [CHR ''_'']) @ t"
    by (metis append_take_drop_id has_prefix_def validID_def)
  have under: "\<not> is_lower (CHR ''_'')" by (simp add: is_lower_def)
  have free: "CHR ''_'' \<notin> set p" using assms(2) under by (auto simp: list_all_iff)
  have "takeWhile is_lower x = p" "dropWhile is_lower x = CHR ''_'' # t"
    using assms(2) under by (simp_all add: x list_all_iff takeWhile_append2 dropWhile_append2)
  with assms(1) have "20 \<le> length t" "length t \<le> 32" "list_all id_tail_byte t"
    by (simp_all add: validID_def matches_id_pattern_def Let_def)
  moreover have "dropWhile (\<lambda>c. c \<noteq> CHR ''_'') (p @ CHR ''_'' # t) = CHR ''_'' # t" using free by (induction p) auto
  then have "shortID x = take 12 t" by (simp add: shortID_def x contains_byte_def)
  ultimately show thesis using that [of t] x by simp
qed

lemma membership_id_parts:
  assumes "validID mid ''mem_''"
  obtains t where "mid = ''mem_'' @ t" "20 \<le> length t" "length t \<le> 32" "list_all id_tail_byte t" "shortID mid = take 12 t"
  using validID_parts [of mid "''mem''"] assms by (auto simp: is_lower_def)

definition membership_identity :: "string \<Rightarrow> identity" where
  "membership_identity mid = \<lparr>idn_FullID = mid, idn_LegacyKey = shortID mid\<rparr>"

lemma label_marker:
  assumes "length (shortID mid) = 12" "marker_free (shortID mid)"
  shows "last_index ''-m-'' (AuthenticatedUserLabel mid) = Some (length mid)"
proof (rule last_index_unique)
  have label: "AuthenticatedUserLabel mid = mid @ ''-m-'' @ shortID mid" by (simp add: AuthenticatedUserLabel_def)
  show "has_prefix ''-m-'' (drop (length mid) (AuthenticatedUserLabel mid))" by (simp add: label)
  show "length mid \<le> length (AuthenticatedUserLabel mid)" by (simp add: label)
  fix j
  assume j: "length mid < j" "j \<le> length (AuthenticatedUserLabel mid)"
  then obtain k where k: "j = length mid + k" "0 < k" "k \<le> 15"
    using assms(1) by (auto simp: label intro: that [of "j - length mid"])
  have "drop j (AuthenticatedUserLabel mid) = drop k (''-m-'' @ shortID mid)" by (simp add: label k(1))
  with k(2,3) assms show "\<not> has_prefix ''-m-'' (drop j (AuthenticatedUserLabel mid))"
    by (simp add: marker_positions [OF assms(1)])
qed

lemma membership_label_parses:
  assumes "validID mid ''mem_''" "marker_free (shortID mid)"
  shows "parseManagedMembershipIdentity (AuthenticatedUserLabel mid) = Inr (Some (membership_identity mid))"
proof -
  from membership_id_parts [OF assms(1)] obtain t where
    t: "mid = ''mem_'' @ t" "20 \<le> length t" "length t \<le> 32" "list_all id_tail_byte t" "shortID mid = take 12 t" by blast
  have short: "length (shortID mid) = 12" "list_all id_tail_byte (shortID mid)" by (rule validID_short [OF assms(1)])+
  let ?label = "AuthenticatedUserLabel mid"
  have label: "?label = mid @ ''-m-'' @ shortID mid" by (simp add: AuthenticatedUserLabel_def)
  have "id_tail_byte (CHR ''m'')" "id_tail_byte (CHR ''e'')" "id_tail_byte (CHR ''_'')" "id_tail_byte (CHR ''-'')"
    by (simp_all add: id_tail_byte_def is_alnum_def is_lower_def)
  moreover from this have "\<forall>c \<in> set mid. id_tail_byte c" using t(1,4) by (simp add: list_all_iff)
  ultimately have bytes: "\<forall>c \<in> set ?label. id_tail_byte c"
    using short(2) unfolding label by (simp add: list_all_iff ball_Un)
  then have "runes ?label \<noteq> None" using ascii_runes [of ?label] id_tail_ascii by simp
  moreover have "\<not> contains_byte (CHR 0x00) ?label" using bytes not_id_tail(1) by (auto simp: contains_byte_def)
  moreover have "length ?label \<le> 128" unfolding label using t(3) short(1) by (simp add: t(1))
  moreover have "rolling_shape mid" using t(1-3) by (simp add: rolling_shape_def)
  moreover have "take (length mid) ?label = mid" "drop (length mid + 3) ?label = shortID mid" by (simp_all add: label)
  moreover have "drop 4 mid = t" by (simp add: t(1))
  ultimately show ?thesis using t(2-5) short
    by (auto simp: Let_def parseManagedMembershipIdentity_def label_marker [OF short(1) assms(2)] maxManagedUsernameBytes_def
        validManagedMembershipKey_def validManagedMembershipIDPayload_def membership_identity_def)
qed

lemma link_label_parses:
  assumes "validID lid ''lnk_''"
  shows "parseManagedMembershipIdentity (linkUserLabel lid) = Inr None"
proof -
  from validID_parts [of lid "''lnk''"] assms obtain t where
    t: "lid = ''lnk_'' @ t" "20 \<le> length t" "shortID lid = take 12 t" by (auto simp: is_lower_def)
  let ?label = "linkUserLabel lid"
  have label: "?label = lid @ ''-link-l-'' @ shortID lid" by (simp add: linkUserLabel_def)
  have len: "length ?label = length lid + 20" using t(2,3) by (simp add: label)
  have not_mem: "\<not> has_prefix ''mem_'' (take n ?label)" for n
    unfolding label by (cases n) (auto simp: has_prefix_def t(1))
  show ?thesis
  proof (cases "last_index ''-m-'' ?label")
    case None
    moreover have "\<not> validManagedMembershipFullID ?label" using not_mem [of "length ?label"]
      by (simp add: validManagedMembershipFullID_def)
    ultimately show ?thesis by (simp add: parseManagedMembershipIdentity_def)
  next
    case (Some i)
    have "length (drop (i + 3) ?label) \<noteq> 12"
    proof
      assume "length (drop (i + 3) ?label) = 12"
      then have "i = length lid + 5" using len by simp
      then have "drop i ?label = ''-l-'' @ shortID lid" by (simp add: label)
      with last_index_Some(2) [OF Some] show False by simp
    qed
    moreover have "\<not> rolling_shape (take i ?label)" using not_mem [of i] by (simp add: rolling_shape_def)
    ultimately show ?thesis using Some by (simp add: parseManagedMembershipIdentity_def Let_def)
  qed
qed

text \<open>A late second marker in the short identifier turns the label into one of the topology.\<close>

lemma late_marker_label:
  assumes "validID mid ''mem_''" and last: "last_index ''-m-'' (AuthenticatedUserLabel mid) = Some i" and "36 < i"
  shows "parseManagedMembershipIdentity (AuthenticatedUserLabel mid) = Inr None"
proof -
  from membership_id_parts [OF assms(1)] obtain t where t: "mid = ''mem_'' @ t" "length t \<le> 32" by blast
  let ?label = "AuthenticatedUserLabel mid"
  have "length ?label = length mid + 15" using validID_short(1) [OF assms(1)] by (simp add: AuthenticatedUserLabel_def)
  moreover have "length mid \<le> 36" using t by simp
  ultimately have "length (drop (i + 3) ?label) < 12" using assms(3) by simp
  moreover have "i \<le> length ?label" by (rule last_index_Some(1) [OF last])
  then have "\<not> rolling_shape (take i ?label)" using assms(3) by (simp add: rolling_shape_def)
  ultimately show ?thesis using last by (simp add: parseManagedMembershipIdentity_def Let_def)
qed

section \<open>Identities of a list of labels\<close>

lemma parsed_key:
  assumes "parseManagedMembershipIdentity name = Inr (Some i)"
  shows "length (idn_LegacyKey i) = 12" "idn_FullID i \<noteq> [] \<Longrightarrow> idn_LegacyKey i = take 12 (drop 4 (idn_FullID i))"
    "clean_text name" "name \<noteq> []"
  using assms unfolding parseManagedMembershipIdentity_def clean_text_def Let_def
  by (auto split: option.splits if_splits simp: validManagedMembershipKey_def validManagedMembershipIDPayload_def)

fun label_keys :: "string list \<Rightarrow> string list" where
  "label_keys [] = []"
| "label_keys (n # ns) =
     (case parseManagedMembershipIdentity n of Inr (Some i) \<Rightarrow> idn_LegacyKey i # label_keys ns | _ \<Rightarrow> label_keys ns)"

definition index_sound :: "identity_index \<Rightarrow> bool" where
  "index_sound idx \<longleftrightarrow> (\<forall>f. idx_byFull idx f \<noteq> None \<longrightarrow> idx_byLegacy idx (take 12 (drop 4 f)) \<noteq> None)"

lemma index_sound_new [simp]: "index_sound newManagedMembershipIdentityIndex"
  by (simp add: index_sound_def newManagedMembershipIdentityIndex_def)

lemma add_identity_step:
  assumes "index_sound idx" "parseManagedMembershipIdentity name = Inr (Some i)"
  shows "(\<exists>idx'. add_identity idx i = Inr idx') \<longleftrightarrow> idx_byLegacy idx (idn_LegacyKey i) = None"
    and "add_identity idx i = Inr idx' \<Longrightarrow>
           index_sound idx' \<and> idx_byLegacy idx' = (idx_byLegacy idx)(idn_LegacyKey i \<mapsto> i)"
  using assms(1) parsed_key(2) [OF assms(2)]
  by (auto simp: add_identity_def index_sound_def split: if_splits)

lemma add_labels_decides:
  assumes "index_sound idx"
  shows "is_ok (foldE add_label idx names) \<longleftrightarrow>
    (\<forall>n \<in> set names. \<not> isl (parseManagedMembershipIdentity n)) \<and> distinct (label_keys names) \<and>
    (\<forall>k \<in> set (label_keys names). idx_byLegacy idx k = None)"
  using assms
proof (induction names arbitrary: idx)
  case (Cons n ns)
  show ?case
  proof (cases "parseManagedMembershipIdentity n")
    case (Inl e)
    then show ?thesis by (simp add: add_label_def)
  next
    case (Inr p)
    show ?thesis
    proof (cases p)
      case None
      with Inr Cons show ?thesis by (simp add: add_label_def)
    next
      case (Some i)
      note step = add_identity_step [OF Cons.prems Inr [unfolded Some]]
      show ?thesis
      proof (cases "add_identity idx i")
        case (Inl e)
        with step(1) Inr Some show ?thesis by (simp add: add_label_def)
      next
        case added: (Inr idx')
        from step(2) [OF added] Cons.IH [of idx'] step(1) added Inr Some show ?thesis
          by (auto simp: add_label_def split: if_splits)
      qed
    qed
  qed
qed simp

lemma add_labels_result:
  assumes "index_sound idx" "foldE add_label idx names = Inr idx'"
  shows "index_sound idx' \<and> (\<forall>k. idx_byLegacy idx' k \<noteq> None \<longleftrightarrow> idx_byLegacy idx k \<noteq> None \<or> k \<in> set (label_keys names))"
  using assms
proof (induction names arbitrary: idx)
  case (Cons n ns)
  from Cons.prems(2) obtain idx1 where one: "add_label idx n = Inr idx1" and rest: "foldE add_label idx1 ns = Inr idx'"
    by (auto simp: bindE_Inr_iff)
  from one obtain p where p: "parseManagedMembershipIdentity n = Inr p"
    "(case p of None \<Rightarrow> ok idx | Some i \<Rightarrow> add_identity idx i) = Inr idx1" by (auto simp: add_label_def bindE_Inr_iff)
  show ?case
  proof (cases p)
    case None
    with p Cons.IH [OF Cons.prems(1)] rest show ?thesis by simp
  next
    case (Some i)
    from add_identity_step(2) [OF Cons.prems(1) p(1) [unfolded Some]] p(2) Some have
      "index_sound idx1" "idx_byLegacy idx1 = (idx_byLegacy idx)(idn_LegacyKey i \<mapsto> i)" by simp_all
    with Cons.IH [OF _ rest] p(1) Some show ?thesis by auto
  qed
qed simp

lemma label_keys_append: "label_keys (ms @ ns) = label_keys ms @ label_keys ns"
  by (induction ms) (auto split: sum.splits option.splits)

lemma mset_label_keys: "mset ms = mset ns \<Longrightarrow> mset (label_keys ms) = mset (label_keys ns)"
proof -
  have "mset (label_keys ns) = sum_mset (image_mset (\<lambda>n. mset (label_keys [n])) (mset ns))" for ns
  proof (induction ns)
    case (Cons n ns)
    have "label_keys (n # ns) = label_keys [n] @ label_keys ns" by (simp split: sum.splits option.splits)
    with Cons show ?case by simp
  qed simp
  then show "mset ms = mset ns \<Longrightarrow> ?thesis" by simp
qed

end
