(* ===== verification/AuthorityFacts.thy ===== *)
theory AuthorityFacts
  imports IdentityFacts
begin

text \<open>
  Taking the users out of a document and putting others in: the loops over the endpoints as updates
  of distinct positions, valid authorities, and that the document with other users has the same shape.
\<close>

section \<open>Updates of distinct positions\<close>

definition update_each :: "(nat \<times> ('a \<Rightarrow> 'a)) list \<Rightarrow> 'a list \<Rightarrow> 'a list" where
  "update_each ups xs = fold (\<lambda>(i, f) xs. xs[i := f (xs ! i)]) ups xs"

lemma update_each_simps [simp]:
  "update_each [] xs = xs" "update_each ((i, f) # ups) xs = update_each ups (xs[i := f (xs ! i)])"
  by (simp_all add: update_each_def)

lemma length_update_each [simp]: "length (update_each ups xs) = length xs"
  by (induction ups arbitrary: xs) auto

lemma nth_update_each:
  assumes "distinct (map fst ups)" "i < length xs"
  shows "update_each ups xs ! i = (case map_of ups i of None \<Rightarrow> xs ! i | Some f \<Rightarrow> f (xs ! i))"
  using assms
proof (induction ups arbitrary: xs)
  case (Cons u ups)
  obtain j f where u: "u = (j, f)" by fastforce
  show ?case
  proof (cases "j = i")
    case True
    with Cons.prems u have "map_of ups i = None" by (simp add: map_of_eq_None_iff)
    with True Cons u show ?thesis by simp
  next
    case False
    with Cons u show ?thesis by (simp cong: option.case_cong)
  qed
qed simp

lemma nth_update_same:
  assumes "distinct (map fst rs)" "i < length xs"
  shows "update_each (map (\<lambda>(i, _). (i, f)) rs) xs ! i = (if i \<in> fst ` set rs then f (xs ! i) else xs ! i)"
proof -
  have "map_of (map (\<lambda>(i, _). (i, f)) rs) i = (if i \<in> fst ` set rs then Some f else None)" by (induction rs) auto
  moreover have "distinct (map fst (map (\<lambda>(i, _). (i, f)) rs))" using assms(1) by (simp add: comp_def split_beta)
  ultimately show ?thesis using nth_update_each [of "map (\<lambda>(i, _). (i, f)) rs" i xs] assms(2) by simp
qed

lemma map_update_each_same:
  assumes "\<And>i f x. (i, f) \<in> set ups \<Longrightarrow> g (f x) = g x"
  shows "map g (update_each ups xs) = map g xs"
  using assms
proof (induction ups arbitrary: xs)
  case (Cons u ups)
  obtain i f where u: "u = (i, f)" by fastforce
  have "g (f (xs ! i)) = g (xs ! i)" using Cons.prems u by auto
  then have "map g (xs[i := f (xs ! i)]) = map g xs" by (intro nth_equalityI) (simp_all, metis nth_list_update_eq nth_list_update_neq)
  moreover have "map g (update_each ups ys) = map g ys" for ys
    using Cons.prems by (intro Cons.IH) (meson list.set_intros(2))
  ultimately show ?case using u by simp
qed simp

section \<open>Objects among the inbounds\<close>

definition object_fields :: "json \<Rightarrow> fields" where
  "object_fields j = (case j of JObj m \<Rightarrow> m | _ \<Rightarrow> [])"

lemma object_at_nth: "object_at xs i = object_fields (xs ! i)"
  by (simp add: object_at_def object_fields_def)

definition is_object :: "json \<Rightarrow> bool" where
  "is_object j \<longleftrightarrow> as_object j \<noteq> None"

lemma is_object_simps [simp]: "is_object (JObj m)" "object_fields (JObj m) = m" "as_object (JObj m) = Some m"
  by (simp_all add: is_object_def as_object_def object_fields_def)

lemma as_object_Some: "as_object j = Some m \<longleftrightarrow> j = JObj m"
  by (cases j) (auto simp: as_object_def)

lemma is_objectE: "is_object j \<Longrightarrow> (\<And>m. j = JObj m \<Longrightarrow> P) \<Longrightarrow> P"
  by (cases j) (auto simp: is_object_def as_object_def)

lemma object_fields_of: "is_object j \<Longrightarrow> JObj (object_fields j) = j"
  by (auto elim: is_objectE)

definition drop_users :: "json \<Rightarrow> json" where
  "drop_users j = JObj (delete_key ''users'' (object_fields j))"

definition with_users :: "managed_user list \<Rightarrow> json \<Rightarrow> json" where
  "with_users us j = JObj (put_users us (object_fields j))"

definition tag_of :: "json \<Rightarrow> string" where
  "tag_of j = text_or_empty (Option.bind (as_object j) (string_at ''tag''))"

lemma fill_map_map: "fill_map key val m (map g xs) = fill_map (\<lambda>x. key (g x)) (\<lambda>x. val (g x)) m xs"
  by (induction xs arbitrary: m) auto

lemma enumerated_map: "enumerated (map f xs) = map (\<lambda>(i, x). (i, f x)) (enumerated xs)"
  by (simp add: enumerated_def zip_map2)

lemma tag_positions_tags: "tag_positions xs = fill_map snd fst Map.empty (enumerated (map tag_of xs))"
  by (simp add: tag_positions_def enumerated_map fill_map_map tag_of_def case_prod_beta')

lemma tag_positions_bound: "tag_positions xs t = Some i \<Longrightarrow> i < length xs \<and> tag_of (xs ! i) = t"
  unfolding tag_positions_tags by (drule fill_map_SomeD) (auto simp: set_enumerated)

lemma drop_users_simps [simp]:
  "is_object (drop_users j)" "k \<noteq> ''users'' \<Longrightarrow> map_of (object_fields (drop_users j)) k = map_of (object_fields j) k"
  "map_of (object_fields (drop_users j)) ''users'' = None"
  by (simp_all add: drop_users_def map_of_delete_key)

lemma put_users_lookup:
  "map_of (put_users us m) ''users'' = Some (JArr (map user_object us))"
  "k \<noteq> ''users'' \<Longrightarrow> k \<noteq> ''managed'' \<Longrightarrow> map_of (put_users us m) k = map_of m k"
  by (simp_all add: put_users_def Let_def map_of_delete_key map_of_set_key)

lemma is_map_put_users [simp]: "is_map m \<Longrightarrow> is_map (put_users us m)"
  by (simp add: put_users_def Let_def)

lemma tag_of_changed [simp]:
  "tag_of (drop_users j) = tag_of j" "tag_of (with_users us j) = tag_of j" "tag_of (without_marker j) = tag_of j"
  by (cases j; simp add: tag_of_def drop_users_def with_users_def string_at_def map_of_delete_key put_users_lookup
      without_marker_def as_object_def object_fields_def text_or_empty_def as_string_def)+

lemma without_marker_object [simp]: "is_object (without_marker j) = is_object j"
  by (cases j) (simp_all add: without_marker_def is_object_def as_object_def)

section \<open>Taking users out\<close>

definition endpoint_ok :: "json list \<Rightarrow> (string \<rightharpoonup> nat) \<Rightarrow> string \<times> string \<Rightarrow> nat \<times> managed_user list \<Rightarrow> bool" where
  "endpoint_ok inbounds byTag = (\<lambda>(path, tag) (i, us).
     validManagedUserPath path \<and> byTag tag = Some i \<and>
     managedInboundType (map_of (object_at inbounds i) ''type'') \<and>
     extractManagedUsers (map_of (object_at inbounds i) ''users'') = Inr us)"

lemma extract_none [simp]: "extractManagedUsers None = Inl e \<longleftrightarrow> e = ErrOther ''managed inbound has invalid users''"
  by (auto simp: extractManagedUsers_def)

lemma endpoint_ok_after:
  assumes "i < length inbounds"
  shows "endpoint_ok (inbounds[i := drop_users (inbounds ! i)]) byTag s r \<longleftrightarrow> fst r \<noteq> i \<and> endpoint_ok inbounds byTag s r"
proof -
  have "extractManagedUsers None \<noteq> Inr us" for us by (simp add: extractManagedUsers_def)
  then show ?thesis using assms
    by (cases s; cases r) (auto simp: endpoint_ok_def object_at_nth nth_list_update)
qed

lemma take_users_decides:
  assumes "\<And>t i. byTag t = Some i \<Longrightarrow> i < length inbounds"
  shows "foldE (take_users byTag) (inbounds, eps) servers = Inr (inbounds', eps') \<longleftrightarrow>
    (\<exists>rs. list_all2 (endpoint_ok inbounds byTag) servers rs \<and> distinct (map fst rs) \<and>
       inbounds' = update_each (map (\<lambda>(i, _). (i, drop_users)) rs) inbounds \<and>
       eps' = eps @ map2 (\<lambda>(p, _) (_, us). \<lparr>med_Path = p, med_Users = us\<rparr>) servers rs)"
  using assms
proof (induction servers arbitrary: inbounds eps)
  case Nil
  then show ?case by auto
next
  case (Cons s servers)
  obtain path tag where s: "s = (path, tag)" by fastforce
  have step: "take_users byTag (inbounds, eps) s = Inr acc \<longleftrightarrow>
      (\<exists>i us. endpoint_ok inbounds byTag s (i, us) \<and>
         acc = (inbounds[i := drop_users (inbounds ! i)], eps @ [\<lparr>med_Path = path, med_Users = us\<rparr>]))" for acc
    by (cases acc) (auto simp: take_users_def s endpoint_ok_def bindE_Inr_iff require_Inr from_option_Inr Let_def drop_users_def
        object_at_nth)
  have bound: "i < length inbounds" if "endpoint_ok inbounds byTag s (i, us)" for i us
    using that Cons.prems by (auto simp: endpoint_ok_def s)
  have rest: "foldE (take_users byTag) (inbounds[i := drop_users (inbounds ! i)], eps @ [e]) servers = Inr (inbounds', eps') \<longleftrightarrow>
      (\<exists>rs. list_all2 (endpoint_ok inbounds byTag) servers rs \<and> i \<notin> fst ` set rs \<and> distinct (map fst rs) \<and>
         inbounds' = update_each (map (\<lambda>(i, _). (i, drop_users)) rs) (inbounds[i := drop_users (inbounds ! i)]) \<and>
         eps' = eps @ e # map2 (\<lambda>(p, _) (_, us). \<lparr>med_Path = p, med_Users = us\<rparr>) servers rs)"
    if "i < length inbounds" for i e
  proof -
    have "list_all2 (endpoint_ok (inbounds[i := drop_users (inbounds ! i)]) byTag) servers rs \<longleftrightarrow>
        list_all2 (endpoint_ok inbounds byTag) servers rs \<and> i \<notin> fst ` set rs" for rs
      unfolding endpoint_ok_after [OF that] by (induction servers rs rule: list_induct2') auto
    then show ?thesis by (subst Cons.IH) (use Cons.prems in \<open>auto\<close>)
  qed
  show ?case
  proof
    assume "foldE (take_users byTag) (inbounds, eps) (s # servers) = Inr (inbounds', eps')"
    then obtain i us where ok: "endpoint_ok inbounds byTag s (i, us)"
      and f: "foldE (take_users byTag) (inbounds[i := drop_users (inbounds ! i)], eps @ [\<lparr>med_Path = path, med_Users = us\<rparr>]) servers
        = Inr (inbounds', eps')" by (auto simp: bindE_Inr_iff step)
    from f [unfolded rest [OF bound [OF ok]]] obtain rs where
      "list_all2 (endpoint_ok inbounds byTag) servers rs" "i \<notin> fst ` set rs" "distinct (map fst rs)"
      "inbounds' = update_each (map (\<lambda>(i, _). (i, drop_users)) rs) (inbounds[i := drop_users (inbounds ! i)])"
      "eps' = eps @ \<lparr>med_Path = path, med_Users = us\<rparr> # map2 (\<lambda>(p, _) (_, us). \<lparr>med_Path = p, med_Users = us\<rparr>) servers rs" by blast
    with ok s show "\<exists>rs. list_all2 (endpoint_ok inbounds byTag) (s # servers) rs \<and> distinct (map fst rs) \<and>
       inbounds' = update_each (map (\<lambda>(i, _). (i, drop_users)) rs) inbounds \<and>
       eps' = eps @ map2 (\<lambda>(p, _) (_, us). \<lparr>med_Path = p, med_Users = us\<rparr>) (s # servers) rs"
      by (intro exI [of _ "(i, us) # rs"]) auto
  next
    assume "\<exists>rs. list_all2 (endpoint_ok inbounds byTag) (s # servers) rs \<and> distinct (map fst rs) \<and>
       inbounds' = update_each (map (\<lambda>(i, _). (i, drop_users)) rs) inbounds \<and>
       eps' = eps @ map2 (\<lambda>(p, _) (_, us). \<lparr>med_Path = p, med_Users = us\<rparr>) (s # servers) rs"
    then obtain i us rs where ok: "endpoint_ok inbounds byTag s (i, us)" and
      "list_all2 (endpoint_ok inbounds byTag) servers rs" "i \<notin> fst ` set rs" "distinct (map fst rs)"
      "inbounds' = update_each (map (\<lambda>(i, _). (i, drop_users)) rs) (inbounds[i := drop_users (inbounds ! i)])"
      "eps' = eps @ \<lparr>med_Path = path, med_Users = us\<rparr> # map2 (\<lambda>(p, _) (_, us). \<lparr>med_Path = p, med_Users = us\<rparr>) servers rs"
      by (auto simp: list_all2_Cons1 s)
    then have "foldE (take_users byTag) (inbounds[i := drop_users (inbounds ! i)], eps @ [\<lparr>med_Path = path, med_Users = us\<rparr>]) servers
        = Inr (inbounds', eps')" unfolding rest [OF bound [OF ok]] by blast
    then show "foldE (take_users byTag) (inbounds, eps) (s # servers) = Inr (inbounds', eps')"
      using ok by (auto simp: bindE_Inr_iff step)
  qed
qed

section \<open>Valid authorities\<close>

definition labels_of :: "authority_endpoint list \<Rightarrow> string list" where
  "labels_of es = concat (map (\<lambda>e. map mus_Username (aep_Users e)) es)"

lemma valid_user_parses:
  "valid_authority_user u \<Longrightarrow> \<exists>i. parseManagedMembershipIdentity (mus_Username u) = Inr (Some i)"
  by (auto simp: valid_authority_user_def split: sum.splits option.splits)

lemma inner_users:
  "foldE (\<lambda>index u. bindE (require (valid_authority_user u) e1) (\<lambda>_. wrapE e2 (add_label index (mus_Username u)))) idx us = Inr idx' \<longleftrightarrow>
     (\<forall>u \<in> set us. valid_authority_user u) \<and> foldE add_label idx (map mus_Username us) = Inr idx'"
proof (induction us arbitrary: idx)
  case (Cons u us)
  then show ?case by (auto simp: bindE_Inr_iff require_Inr wrapE_Inr)
qed simp

lemma check_endpoints_decides:
  "foldE check_endpoint (paths, idx) es = Inr (paths', idx') \<longleftrightarrow>
     (\<forall>e \<in> set es. validManagedUserPath (aep_Path e) \<and> (\<forall>u \<in> set (aep_Users e). valid_authority_user u)) \<and>
     distinct (map aep_Path es) \<and> aep_Path ` set es \<inter> set paths = {} \<and>
     paths' = rev (map aep_Path es) @ paths \<and> foldE add_label idx (labels_of es) = Inr idx'"
proof (induction es arbitrary: paths idx)
  case (Cons e es)
  have step: "check_endpoint (paths, idx) e = Inr r \<longleftrightarrow>
      (\<exists>i. r = (aep_Path e # paths, i) \<and> validManagedUserPath (aep_Path e) \<and> aep_Path e \<notin> set paths \<and>
        (\<forall>u \<in> set (aep_Users e). valid_authority_user u) \<and> foldE add_label idx (map mus_Username (aep_Users e)) = Inr i)" for r
    by (auto simp: check_endpoint_def bindE_Inr_iff require_Inr inner_users)
  show ?case by (auto simp: bindE_Inr_iff step Cons labels_of_def foldE_append)
qed (auto simp: labels_of_def)

lemma validate_variant_decides:
  "validateManagedUserAuthorityVariant v = Inr () \<longleftrightarrow>
     auv_TopologySHA256 v \<noteq> 0 \<and>
     (\<forall>e \<in> set (auv_Endpoints v). validManagedUserPath (aep_Path e) \<and> (\<forall>u \<in> set (aep_Users e). valid_authority_user u)) \<and>
     distinct (map aep_Path (auv_Endpoints v)) \<and> distinct (label_keys (labels_of (auv_Endpoints v)))"
proof -
  have "is_ok (foldE add_label newManagedMembershipIdentityIndex (labels_of (auv_Endpoints v))) \<longleftrightarrow>
      distinct (label_keys (labels_of (auv_Endpoints v)))"
    if "\<forall>e \<in> set (auv_Endpoints v). \<forall>u \<in> set (aep_Users e). valid_authority_user u"
  proof -
    have "\<not> isl (parseManagedMembershipIdentity n)" if "n \<in> set (labels_of (auv_Endpoints v))" for n
      using that \<open>\<forall>e \<in> set (auv_Endpoints v). _\<close>
      by (auto simp: labels_of_def dest!: bspec valid_user_parses)
    then show ?thesis by (simp add: add_labels_decides newManagedMembershipIdentityIndex_def [THEN arg_cong [of _ _ idx_byLegacy]])
  qed
  then show ?thesis
    by (fastforce simp: validateManagedUserAuthorityVariant_def bindE_Inr_iff require_Inr check_endpoints_decides is_ok_iff)
qed

definition sorted_variant :: "authority_variant \<Rightarrow> authority_variant" where
  "sorted_variant v = v\<lparr>auv_Endpoints := sort_key aep_Path
     (map (\<lambda>e. e\<lparr>aep_Users := sort_key mus_Username (aep_Users e)\<rparr>) (auv_Endpoints v))\<rparr>"

lemma mset_concat_map: "mset (concat (map f xs)) = sum_mset (image_mset (\<lambda>x. mset (f x)) (mset xs))"
  by (induction xs) auto

lemma validate_sorted:
  assumes "validateManagedUserAuthorityVariant v = Inr ()"
  shows "validateManagedUserAuthorityVariant (sorted_variant v) = Inr ()"
proof -
  let ?es = "auv_Endpoints v" and ?s = "auv_Endpoints (sorted_variant v)"
  have es: "mset ?s = image_mset (\<lambda>e. e\<lparr>aep_Users := sort_key mus_Username (aep_Users e)\<rparr>) (mset ?es)"
    by (simp add: sorted_variant_def)
  have "mset (labels_of ?s) = mset (labels_of ?es)"
    by (simp add: labels_of_def mset_concat_map es image_mset.compositionality comp_def)
  then have "mset (label_keys (labels_of ?s)) = mset (label_keys (labels_of ?es))" by (rule mset_label_keys)
  then have keys: "distinct (label_keys (labels_of ?s)) \<longleftrightarrow> distinct (label_keys (labels_of ?es))"
    by (rule mset_eq_imp_distinct_iff)
  have "mset (map aep_Path ?s) = mset (map aep_Path ?es)" by (simp add: es image_mset.compositionality comp_def)
  then have paths: "distinct (map aep_Path ?s) \<longleftrightarrow> distinct (map aep_Path ?es)" by (rule mset_eq_imp_distinct_iff)
  have "set ?s = (\<lambda>e. e\<lparr>aep_Users := sort_key mus_Username (aep_Users e)\<rparr>) ` set ?es" by (simp add: sorted_variant_def)
  with assms keys paths show ?thesis unfolding validate_variant_decides by (auto simp: sorted_variant_def)
qed

section \<open>Merging users\<close>

definition is_member :: "managed_user \<Rightarrow> bool" where
  "is_member u \<longleftrightarrow> (\<exists>i. parseManagedMembershipIdentity (mus_Username u) = Inr (Some i))"

lemma topology_users_filter:
  "topology_users us = Inr vs \<Longrightarrow> vs = filter (\<lambda>u. \<not> is_member u) us \<and> (\<forall>u \<in> set us. \<not> isl (parseManagedMembershipIdentity (mus_Username u)))"
  by (induction us arbitrary: vs) (auto simp: bindE_Inr_iff is_member_def split: if_splits)

lemma membership_users_filter:
  "(\<forall>u \<in> set us. \<not> isl (parseManagedMembershipIdentity (mus_Username u))) \<Longrightarrow> membership_users us = Inr (filter is_member us)"
proof (induction us)
  case (Cons u us)
  then obtain p where "parseManagedMembershipIdentity (mus_Username u) = Inr p" by (auto simp: isl_def) (metis sum.exhaust)
  with Cons show ?case by (cases p) (auto simp: is_member_def)
qed simp

lemma no_adjacent_repeat:
  "sorted (map mus_Username us) \<Longrightarrow> \<not> adjacent_repeat us \<Longrightarrow> distinct (map mus_Username us)"
proof (induction us)
  case (Cons u us)
  show ?case
  proof (cases us)
    case (Cons v vs)
    with Cons.prems have "mus_Username u < mus_Username v" "\<not> adjacent_repeat us"
      by (auto simp: adjacent_repeat_def)
    moreover have "\<forall>w \<in> set us. mus_Username v \<le> mus_Username w" using Cons.prems(1) Cons by auto
    ultimately show ?thesis using Cons.IH Cons.prems(1) by force
  qed simp
qed simp

definition merged_users :: "(string \<rightharpoonup> managed_user list) \<Rightarrow> managed_endpoint \<Rightarrow> managed_user list" where
  "merged_users authority e =
     sort_key mus_Username (filter (\<lambda>u. \<not> is_member u) (med_Users e) @ the (authority (med_Path e)))"

lemma merge_step:
  assumes "merge_endpoint (authority, acc) e = Inr r"
  shows "authority (med_Path e) \<noteq> None"
    and "\<forall>u \<in> set (med_Users e). \<not> isl (parseManagedMembershipIdentity (mus_Username u))"
    and "distinct (map mus_Username (merged_users authority e))"
    and "r = (authority(med_Path e := None), acc @ [\<lparr>med_Path = med_Path e, med_Users = merged_users authority e\<rparr>])"
proof -
  from assms obtain au links where au: "authority (med_Path e) = Some au" and links: "topology_users (med_Users e) = Inr links"
    and nr: "\<not> adjacent_repeat (sort_key mus_Username (links @ au))"
    and r: "r = (authority(med_Path e := None), acc @ [\<lparr>med_Path = med_Path e, med_Users = sort_key mus_Username (links @ au)\<rparr>])"
    by (auto simp: merge_endpoint_def bindE_Inr_iff require_Inr from_option_Inr Let_def)
  note l = topology_users_filter [OF links]
  have m: "merged_users authority e = sort_key mus_Username (links @ au)" using l au by (simp add: merged_users_def)
  show "authority (med_Path e) \<noteq> None" using au by simp
  show "\<forall>u \<in> set (med_Users e). \<not> isl (parseManagedMembershipIdentity (mus_Username u))" using l by simp
  show "distinct (map mus_Username (merged_users authority e))"
    unfolding m by (rule no_adjacent_repeat [OF _ nr]) simp
  show "r = (authority(med_Path e := None), acc @ [\<lparr>med_Path = med_Path e, med_Users = merged_users authority e\<rparr>])"
    using r m by simp
qed

lemma merge_endpoints:
  assumes "foldE merge_endpoint (authority, acc) es = Inr (authority', merged)"
  shows "(\<forall>e \<in> set es. authority (med_Path e) \<noteq> None
           \<and> (\<forall>u \<in> set (med_Users e). \<not> isl (parseManagedMembershipIdentity (mus_Username u)))
           \<and> distinct (map mus_Username (merged_users authority e)))
    \<and> authority' = (\<lambda>p. if p \<in> med_Path ` set es then None else authority p)
    \<and> merged = acc @ map (\<lambda>e. \<lparr>med_Path = med_Path e, med_Users = merged_users authority e\<rparr>) es"
  using assms
proof (induction es arbitrary: authority acc)
  case (Cons e es)
  from Cons.prems obtain r where one: "merge_endpoint (authority, acc) e = Inr r" and rest: "foldE merge_endpoint r es = Inr (authority', merged)"
    by (auto simp: bindE_Inr_iff)
  note s = merge_step [OF one]
  let ?a = "authority(med_Path e := None)"
  note ih = Cons.IH [OF rest [unfolded s(4)]]
  have other: "med_Path f \<noteq> med_Path e" "merged_users ?a f = merged_users authority f" if "f \<in> set es" for f
    using ih that by (auto simp: merged_users_def)
  have "authority (med_Path f) \<noteq> None \<and> (\<forall>u \<in> set (med_Users f). \<not> isl (parseManagedMembershipIdentity (mus_Username u)))
      \<and> distinct (map mus_Username (merged_users authority f))" if "f \<in> set es" for f
    using bspec [OF conjunct1 [OF ih] that] other(1) [OF that] unfolding other(2) [OF that] by simp
  moreover have "authority' = (\<lambda>p. if p \<in> med_Path ` set (e # es) then None else authority p)"
    using ih by (auto simp: fun_eq_iff)
  moreover have mp: "map (\<lambda>f. \<lparr>med_Path = med_Path f, med_Users = merged_users ?a f\<rparr>) es
      = map (\<lambda>f. \<lparr>med_Path = med_Path f, med_Users = merged_users authority f\<rparr>) es"
    by (rule map_cong [OF refl]) (simp only: other(2))
  have "merged = acc @ map (\<lambda>f. \<lparr>med_Path = med_Path f, med_Users = merged_users authority f\<rparr>) (e # es)"
    using conjunct2 [OF conjunct2 [OF ih]] unfolding mp by simp
  ultimately show ?case using s(1-3) by simp
qed auto

section \<open>A document with other users\<close>

lemma managed_users_of_decides:
  "managed_users_of doc = Inr parsed \<longleftrightarrow>
     (\<exists>servers inbounds rs. managedUserServers doc = Inr servers \<and> array_at ''inbounds'' doc = Some inbounds \<and>
        (\<forall>j \<in> set inbounds. is_object j) \<and> list_all2 (endpoint_ok inbounds (tag_positions inbounds)) servers rs \<and>
        distinct (map fst rs) \<and>
        parsed = \<lparr>mcf_Document = set_key ''inbounds'' (JArr (update_each (map (\<lambda>(i, _). (i, drop_users)) rs) inbounds)) doc,
                  mcf_Endpoints = map2 (\<lambda>(p, _) (_, us). \<lparr>med_Path = p, med_Users = us\<rparr>) servers rs\<rparr>)"
proof -
  have taken: "foldE (take_users (tag_positions inbounds)) (inbounds, []) servers = Inr (inbounds', es) \<longleftrightarrow>
      (\<exists>rs. list_all2 (endpoint_ok inbounds (tag_positions inbounds)) servers rs \<and> distinct (map fst rs) \<and>
       inbounds' = update_each (map (\<lambda>(i, _). (i, drop_users)) rs) inbounds \<and>
       es = map2 (\<lambda>(p, _) (_, us). \<lparr>med_Path = p, med_Users = us\<rparr>) servers rs)" for inbounds inbounds' servers es
    using tag_positions_bound by (subst take_users_decides) auto
  show ?thesis
    by (auto simp: managed_users_of_def bindE_Inr_iff from_option_Inr require_Inr taken list_all_iff is_object_def) blast+
qed

lemma managedUserServers_cong:
  "map_of doc ''services'' = map_of doc' ''services'' \<Longrightarrow> managedUserServers doc = managedUserServers doc'"
  by (simp add: managedUserServers_def array_at_def)

lemma server_tags_paths: "server_tags fs = Inr servers \<Longrightarrow> map fst servers = map fst fs"
proof -
  have "foldE (\<lambda>acc (path, v). case v of
          JStr t \<Rightarrow> if t = [] then fail e else ok (acc @ [(path, t)]) | _ \<Rightarrow> fail e) acc fs = Inr servers
        \<Longrightarrow> map fst servers = map fst acc @ map fst fs" for acc e
    by (induction fs arbitrary: acc) (auto simp: bindE_Inr_iff split: json.splits if_splits)
  from this [of _ "[]"] show "server_tags fs = Inr servers \<Longrightarrow> ?thesis" by (auto simp: server_tags_def)
qed

lemma canonical_entry: "as_any (JObj m) = JObj m \<Longrightarrow> map_of m k = Some v \<Longrightarrow> as_any v = v"
  unfolding canonical_obj by (auto dest!: map_of_SomeD)

lemma managed_paths_ascend:
  assumes "as_any (JObj doc) = JObj doc" "managedUserServers doc = Inr servers"
  shows "is_map servers"
proof -
  from assms(2) obtain services service fs where
    s: "array_at ''services'' doc = Some services" "find is_user_service services = Some (JObj service)"
    "map_of service ''servers'' = Some (JObj fs)" "server_tags fs = Inr servers"
    by (auto simp: managedUserServers_def bindE_Inr_iff from_option_Inr as_object_Some bind_eq_Some_conv)
  from s(1) have "map_of doc ''services'' = Some (JArr services)" by (auto simp: array_at_def split: option.splits json.splits)
  from canonical_entry [OF assms(1) this] have "as_any (JArr services) = JArr services" .
  moreover have "JObj service \<in> set services" using s(2) by (metis find_Some_iff nth_mem)
  ultimately have "as_any (JObj service) = JObj service" unfolding canonical_arr by blast
  from canonical_entry [OF this s(3)] have "is_map fs" unfolding canonical_obj by blast
  with server_tags_paths [OF s(4)] show ?thesis by (simp add: is_map_def)
qed

lemma install_run:
  assumes "\<forall>(p, t) \<in> set servers. \<exists>i. tag_positions inbounds t = Some i \<and> is_object (inbounds ! i)"
  shows "foldE (\<lambda>xs (path, tag).
          bindE (from_option e (Option.bind (tag_positions inbounds tag)
                      (\<lambda>i. if as_object (inbounds ! i) = None then None else Some i))) (\<lambda>i.
          ok (xs[i := JObj (put_users (f path) (object_at xs i))]))) xs servers
     = Inr (update_each (map (\<lambda>(p, t). (the (tag_positions inbounds t), with_users (f p))) servers) xs)"
  using assms
proof (induction servers arbitrary: xs)
  case (Cons s servers)
  then show ?case
    by (cases s) (auto simp: from_option_def is_object_def object_at_nth with_users_def)
qed simp

lemma extract_installed:
  assumes "sorted (map mus_Username us)" "distinct (map mus_Username us)"
    and "\<forall>u \<in> set us. mus_Username u \<noteq> [] \<and> mus_Password u \<noteq> []"
  shows "extractManagedUsers (Some (JArr (map user_object us))) = Inr us"
proof -
  have "foldE (\<lambda>users j. bindE (read_user j) (\<lambda>u. bindE (require (mus_Username u \<notin> mus_Username ` set users) e) (\<lambda>_.
            ok (users @ [u])))) acc (map user_object us) = Inr (acc @ us)"
    if "mus_Username ` set acc \<inter> mus_Username ` set us = {}" for acc e
    using that assms(2,3)
  proof (induction us arbitrary: acc)
    case (Cons u us)
    have "read_user (user_object u) = Inr u" using Cons.prems(3)
      by (simp add: read_user_def user_object_def string_at_def as_string_def)
    moreover have "mus_Username u \<notin> mus_Username ` set acc" using Cons.prems(1) by auto
    moreover have "mus_Username ` set (acc @ [u]) \<inter> mus_Username ` set us = {}" using Cons.prems(1,2) by auto
    ultimately show ?case using Cons.IH [of "acc @ [u]"] Cons.prems by (simp add: require_def)
  qed simp
  from this [of "[]"] have "extractManagedUsers (Some (JArr (map user_object us))) = Inr (sort_key mus_Username us)"
    by (simp add: extractManagedUsers_def)
  then show ?thesis using assms(1) by (simp add: sort_key_id_if_sorted)
qed

section \<open>Collected traffic\<close>

text \<open>Only counters the interface gave for a Membership of the endpoint are reported.\<close>

lemma membership_names_members:
  assumes "membership_names us = Inr names" "n \<in> set names"
  shows "\<exists>u \<in> set us. mus_Username u = n \<and> is_member u"
proof -
  have "set names \<subseteq> mus_Username ` {u \<in> set us. is_member u}"
    by (rule foldE_invariant [OF assms(1) [unfolded membership_names_def]])
      (auto simp: bindE_Inr_iff is_member_def split: if_splits option.splits)
  with assms(2) show ?thesis by auto
qed

definition honest_counter ::
  "(string \<Rightarrow> (string \<times> u64 \<times> u64) list option) \<Rightarrow> managed_endpoint list \<Rightarrow> managed_traffic \<Rightarrow> bool" where
  "honest_counter reply es t \<longleftrightarrow>
     (\<exists>e \<in> set es. med_Path e = utr_InboundPath t \<and> (\<exists>u \<in> set (med_Users e). mus_Username u = utr_Username t \<and> is_member u)) \<and>
     (\<exists>us. reply (utr_InboundPath t) = Some us \<and> (utr_Username t, utr_UplinkBytes t, utr_DownlinkBytes t) \<in> set us)"

lemma collected_counters_honest:
  assumes "collect_endpoints reply result es = (result', err)"
  shows "\<forall>t \<in> set (tsn_Users result'). t \<in> set (tsn_Users result) \<or> honest_counter reply es t"
  using assms
proof (induction reply result es rule: collect_endpoints.induct)
  case (2 reply result e es)
  have weaken: "honest_counter reply es t \<Longrightarrow> honest_counter reply (e # es) t" for t
    by (auto simp: honest_counter_def)
  show ?case
  proof (cases "membership_names (med_Users e)")
    case (Inl err)
    with 2(4) show ?thesis by simp
  next
    case names: (Inr names)
    show ?thesis
    proof (cases names)
      case Nil
      with 2(1) 2(4) names weaken show ?thesis by auto
    next
      case (Cons n ns)
      show ?thesis
      proof (cases "Option.bind (reply (med_Path e)) (endpoint_traffic (med_Path e) names)")
        case None
        with 2(2) [OF names Cons] 2(4) names Cons weaken show ?thesis by auto
      next
        case (Some us)
        then have "\<forall>t \<in> set us. honest_counter reply (e # es) t"
          using membership_names_members [OF names]
          by (auto simp: bind_eq_Some_conv endpoint_traffic_def Let_def honest_counter_def split: if_splits)
        with 2(3) [OF names Cons] 2(4) names Cons Some weaken show ?thesis by auto
      qed
    qed
  qed
qed simp

end
