(* ===== verification/Overlay.thy ===== *)
theory Overlay
  imports AuthorityFacts
begin

text \<open>Laying an authority over a configuration keeps its shape, and projecting the result gives the authority back.\<close>

section \<open>Preserved by updates\<close>

lemma all_update_each:
  assumes "\<forall>x \<in> set xs. P x" "\<And>i f x. (i, f) \<in> set ups \<Longrightarrow> P x \<Longrightarrow> P (f x)" "\<forall>(i, f) \<in> set ups. i < length xs"
  shows "\<forall>x \<in> set (update_each ups xs). P x"
  using assms
proof (induction ups arbitrary: xs)
  case (Cons u ups)
  obtain i f where u: "u = (i, f)" by fastforce
  have i: "i < length xs" using Cons.prems(3) u by auto
  have "P (f (xs ! i))" using Cons.prems(2) [of i f "xs ! i"] Cons.prems(1) u i by simp
  then have "\<forall>x \<in> set (xs[i := f (xs ! i)]). P x" using Cons.prems(1) set_update_subset_insert by fastforce
  moreover have "P (g x)" if "(j, g) \<in> set ups" "P x" for j g x
    using Cons.prems(2) [of j g x] that by simp
  moreover have "\<forall>(j, g) \<in> set ups. j < length (xs[i := f (xs ! i)])" using Cons.prems(3) by auto
  ultimately show ?case unfolding u update_each_simps by (rule Cons.IH)
qed simp

lemma set_key_twice [simp]: "is_map m \<Longrightarrow> set_key k v (set_key k w m) = set_key k v m"
  by (rule is_map_eqI) (simp_all add: map_of_set_key)

lemma array_at_set_key [simp]:
  "array_at k (set_key k (JArr xs) m) = Some xs" "k \<noteq> k' \<Longrightarrow> array_at k (set_key k' v m) = array_at k m"
  by (simp_all add: array_at_def map_of_set_key)

lemma array_atD: "array_at k m = Some xs \<Longrightarrow> map_of m k = Some (JArr xs)"
  by (auto simp: array_at_def split: option.splits json.splits)

lemma canonical_set_key:
  "as_any (JObj m) = JObj m \<Longrightarrow> as_any v = v \<Longrightarrow> as_any (JObj (set_key k v m)) = JObj (set_key k v m)"
  unfolding canonical_obj by (auto simp: set_set_key)

lemma canonical_delete_key:
  "as_any (JObj m) = JObj m \<Longrightarrow> as_any (JObj (delete_key k m)) = JObj (delete_key k m)"
  unfolding canonical_obj by (auto simp: set_delete_key)

lemma canonical_user: "as_any (user_object u) = user_object u"
  unfolding user_object_def canonical_obj by (simp add: is_map_def)

lemma canonical_put_users:
  assumes "as_any (JObj m) = JObj m"
  shows "as_any (JObj (put_users us m)) = JObj (put_users us m)"
proof -
  have "as_any (JArr (map user_object us)) = JArr (map user_object us)" unfolding canonical_arr by (simp add: canonical_user)
  then have "as_any (JObj (set_key ''users'' (JArr (map user_object us)) m)) = JObj (set_key ''users'' (JArr (map user_object us)) m)"
    by (rule canonical_set_key [OF assms])
  note m = this
  have "as_any (JObj (set_key ''managed'' (JBool True) (set_key ''users'' (JArr (map user_object us)) m)))
      = JObj (set_key ''managed'' (JBool True) (set_key ''users'' (JArr (map user_object us)) m))"
    by (rule canonical_set_key [OF m]) simp
  with canonical_delete_key [OF m] show ?thesis unfolding put_users_def Let_def
    by (simp only: split: if_split) simp
qed

lemma clean_set_key: "clean_tree env (JObj m) \<Longrightarrow> clean_text k \<Longrightarrow> clean_tree env v \<Longrightarrow> clean_tree env (JObj (set_key k v m))"
  by (auto simp: set_set_key)

lemma clean_delete_key: "clean_tree env (JObj m) \<Longrightarrow> clean_tree env (JObj (delete_key k m))"
  by (auto simp: set_delete_key)

lemma clean_words [simp]: "clean_text ''users''" "clean_text ''managed''" "clean_text ''name''" "clean_text ''password''" "clean_text ''inbounds''"
  by (simp_all add: clean_text_def runes_def)

lemma clean_put_users:
  assumes "clean_tree env (JObj m)" "\<forall>u \<in> set us. clean_text (mus_Username u) \<and> clean_text (mus_Password u)"
  shows "clean_tree env (JObj (put_users us m))"
proof -
  have "clean_tree env (JArr (map user_object us))" using assms(2) by (auto simp: user_object_def)
  then have "clean_tree env (JObj (set_key ''users'' (JArr (map user_object us)) m))" by (intro clean_set_key assms(1)) simp_all
  note m = this
  have "clean_tree env (JObj (set_key ''managed'' (JBool True) (set_key ''users'' (JArr (map user_object us)) m)))"
    by (rule clean_set_key [OF m]) simp_all
  with clean_delete_key [OF m] show ?thesis unfolding put_users_def Let_def by (simp only: split: if_split) simp
qed

lemma users_out_again:
  assumes "is_map m" "map_of m ''users'' = None" "map_of m ''managed'' = None"
  shows "delete_key ''managed'' (delete_key ''users'' (put_users us m)) = m"
  using assms by (intro is_map_eqI) (auto simp: map_of_delete_key put_users_lookup fun_eq_iff)

section \<open>The shape of a document with other users\<close>

lemma overlay_parses:
  assumes doc: "as_any (JObj doc) = JObj doc" and parse: "managed_users_of doc = Inr parsed"
    and digest: "managedTopologyDigest env (mcf_Document parsed) = Inr (dg, doc2)"
    and inst: "installManagedEndpointUsers es doc2 = Inr doc3"
    and paths: "map med_Path es = map med_Path (mcf_Endpoints parsed)"
    and users: "\<forall>e \<in> set es. sorted (map mus_Username (med_Users e)) \<and> distinct (map mus_Username (med_Users e)) \<and>
      (\<forall>u \<in> set (med_Users e). mus_Username u \<noteq> [] \<and> mus_Password u \<noteq> [])"
  obtains doc4 where "managed_users_of doc3 = Inr \<lparr>mcf_Document = doc4, mcf_Endpoints = es\<rparr>"
    "managedTopologyDigest env doc4 = Inr (dg, doc2)" "as_any (JObj doc3) = JObj doc3"
    "clean_tree env (JObj doc) \<Longrightarrow> (\<forall>e \<in> set es. \<forall>u \<in> set (med_Users e). clean_text (mus_Username u) \<and> clean_text (mus_Password u))
       \<Longrightarrow> clean_tree env (JObj doc3)"
proof -
  have map: "is_map doc" using doc unfolding canonical_obj by blast
  from parse obtain servers I rs where servers: "managedUserServers doc = Inr servers" and I: "array_at ''inbounds'' doc = Some I"
    and objects: "\<forall>j \<in> set I. is_object j" and rs: "list_all2 (endpoint_ok I (tag_positions I)) servers rs" "distinct (map fst rs)"
    and parsed: "parsed = \<lparr>mcf_Document = set_key ''inbounds'' (JArr (update_each (map (\<lambda>(i, _). (i, drop_users)) rs) I)) doc,
                  mcf_Endpoints = map2 (\<lambda>(p, _) (_, us). \<lparr>med_Path = p, med_Users = us\<rparr>) servers rs\<rparr>"
    unfolding managed_users_of_decides by blast
  define pos where "pos = tag_positions I"
  define I1 where "I1 = update_each (map (\<lambda>(i, _). (i, drop_users)) rs) I"
  define I2 where "I2 = map without_marker I1"
  have doc1: "mcf_Document parsed = set_key ''inbounds'' (JArr I1) doc" by (simp add: parsed I1_def)
  have doc2: "doc2 = set_key ''inbounds'' (JArr I2) doc"
    using digest map by (auto simp: managedTopologyDigest_def bindE_Inr_iff doc1 strip_markers_def I2_def)
  have len: "length servers = length rs" "length I1 = length I" "length I2 = length I"
    using rs(1) by (auto simp: list_all2_lengthD I1_def I2_def)
  have ascending: "is_map servers" by (rule managed_paths_ascend [OF doc servers])
  have es_paths: "map med_Path es = map fst servers"
    unfolding paths parsed using len(1) by (auto simp: map2_map_map split_beta comp_def intro: nth_equalityI)
  have len_es: "length es = length rs" using arg_cong [OF es_paths, of length] len(1) by simp
  have tags2: "tag_positions I2 = pos"
    unfolding pos_def tag_positions_tags I2_def I1_def
    by (simp add: comp_def) (subst map_update_each_same [where g = tag_of], auto)
  have at: "pos (snd (servers ! k)) = Some (fst (rs ! k))" "managedInboundType (map_of (object_fields (I ! fst (rs ! k))) ''type'')"
      "validManagedUserPath (fst (servers ! k))" "fst (rs ! k) < length I" if "k < length rs" for k
    using list_all2_nthD2 [OF rs(1) that] tag_positions_bound [of I]
    by (auto simp: endpoint_ok_def object_at_nth pos_def split: prod.splits)
  have nth1: "I1 ! i = (if i \<in> fst ` set rs then drop_users (I ! i) else I ! i)" if "i < length I" for i
    using rs(2) that unfolding I1_def by (rule nth_update_same)
  have objects1: "is_object (I1 ! i)" if "i < length I" for i using nth1 [OF that] objects that by simp
  have objects2: "is_object (I2 ! i)" if "i < length I" for i using objects1 [OF that] that len(2) by (simp add: I2_def)
  define us where "us p = (case fill_map med_Path med_Users Map.empty es p of None \<Rightarrow> [] | Some us \<Rightarrow> us)" for p
  have us_at: "us (fst (servers ! k)) = med_Users (es ! k)" if "k < length rs" for k
  proof -
    have "distinct (map med_Path es)" using ascending by (simp add: es_paths is_map_def)
    moreover have "fst (servers ! k) = med_Path (es ! k)"
      using es_paths that len(1) len_es by (metis nth_map)
    ultimately show ?thesis using that len_es fill_map_distinct [of med_Path es "es ! k" med_Users Map.empty] by (simp add: us_def)
  qed
  define ups where "ups = map (\<lambda>(p, t). (the (pos t), with_users (us p))) servers"
  define I3 where "I3 = update_each ups I2"
  have ups_at: "ups ! k = (fst (rs ! k), with_users (med_Users (es ! k)))" if "k < length rs" for k
    using that len(1) at(1) [OF that] us_at [OF that] by (simp add: ups_def split_beta)
  have ups_fst: "map fst ups = map fst rs"
    using len(1) ups_at by (intro nth_equalityI) (simp_all add: ups_def split_beta)
  have inst': "doc3 = set_key ''inbounds'' (JArr I3) doc"
  proof -
    have "\<forall>(p, t) \<in> set servers. \<exists>i. tag_positions I2 t = Some i \<and> is_object (I2 ! i)"
    proof safe
      fix p t assume "(p, t) \<in> set servers"
      then obtain k where k: "k < length rs" "servers ! k = (p, t)" using len(1) by (metis in_set_conv_nth)
      with at(1,4) [OF k(1)] objects2 [of "fst (rs ! k)"] show "\<exists>i. tag_positions I2 t = Some i \<and> is_object (I2 ! i)"
        by (auto simp: tags2)
    qed
    note run = install_run [OF this, of _ us I2, unfolded tags2]
    have "managedUserServers doc2 = Inr servers"
      using servers managedUserServers_cong [of doc2 doc] by (simp add: doc2 map_of_set_key)
    with inst map show ?thesis
      by (simp add: installManagedEndpointUsers_def doc2 us_def [symmetric] tags2 run I3_def ups_def)
  qed
  have nth3: "I3 ! i = (case map_of ups i of None \<Rightarrow> I2 ! i | Some f \<Rightarrow> f (I2 ! i))" if "i < length I" for i
    unfolding I3_def using that len(3) rs(2) by (intro nth_update_each) (simp_all add: ups_fst)
  have nth3_at: "I3 ! fst (rs ! k) = with_users (med_Users (es ! k)) (I2 ! fst (rs ! k))" if "k < length rs" for k
  proof -
    have "(fst (rs ! k), with_users (med_Users (es ! k))) \<in> set ups"
      using ups_at [OF that] that len(1) by (metis length_map nth_mem ups_def)
    then have "map_of ups (fst (rs ! k)) = Some (with_users (med_Users (es ! k)))"
      using rs(2) by (intro map_of_is_SomeI) (simp_all add: ups_fst)
    with nth3 [OF at(4) [OF that]] show ?thesis by simp
  qed
  have nth3_other: "I3 ! i = I2 ! i" if "i < length I" "i \<notin> fst ` set rs" for i
  proof -
    have "map_of ups i = None" using that(2) ups_fst by (metis list.set_map map_of_eq_None_iff)
    with nth3 [OF that(1)] show ?thesis by simp
  qed
  have len3: "length I3 = length I" by (simp add: I3_def len)
  define rs3 where "rs3 = map (\<lambda>k. (fst (rs ! k), med_Users (es ! k))) [0..<length rs]"
  have rs3_fst: "map fst rs3 = map fst rs" by (intro nth_equalityI) (simp_all add: rs3_def)
  have tags3: "tag_positions I3 = pos"
    unfolding tags2 [symmetric] tag_positions_tags I3_def ups_def
    by (subst map_update_each_same [where g = tag_of]) auto
  define I4 where "I4 = update_each (map (\<lambda>(i, _). (i, drop_users)) rs3) I3"
  define doc4 where "doc4 = set_key ''inbounds'' (JArr I4) doc"
  define field where "field i = object_fields (I ! i)" for i
  have I2_at: "I2 ! fst (rs ! k) = JObj (delete_key ''managed'' (delete_key ''users'' (field (fst (rs ! k)))))" if "k < length rs" for k
    using nth1 [OF at(4) [OF that]] that at(4) [OF that] len(2)
    by (simp add: I2_def field_def without_marker_def drop_users_def)
  have I3_at: "I3 ! fst (rs ! k) = JObj (put_users (med_Users (es ! k))
      (delete_key ''managed'' (delete_key ''users'' (field (fst (rs ! k))))))" if "k < length rs" for k
    using nth3_at [OF that] I2_at [OF that] by (simp add: with_users_def)
  have objects3: "is_object (I3 ! i)" if "i < length I" for i
  proof (cases "i \<in> fst ` set rs")
    case True
    then obtain k where "k < length rs" "i = fst (rs ! k)" by (metis imageE in_set_conv_nth)
    with I3_at show ?thesis by simp
  next
    case False
    with nth3_other [OF that] objects2 [OF that] show ?thesis by simp
  qed
  have ok3: "endpoint_ok I3 pos (servers ! k) (rs3 ! k)" if k: "k < length rs" for k
  proof -
    have "extractManagedUsers (Some (JArr (map user_object (med_Users (es ! k))))) = Inr (med_Users (es ! k))"
      using users k len_es by (intro extract_installed) auto
    then show ?thesis using at(1-3) [OF k] k
      by (cases "servers ! k") (simp add: endpoint_ok_def rs3_def object_at_nth I3_at put_users_lookup map_of_delete_key field_def)
  qed
  have parsed3: "managed_users_of doc3 = Inr \<lparr>mcf_Document = doc4, mcf_Endpoints = es\<rparr>"
    unfolding managed_users_of_decides
  proof (intro exI conjI)
    show "managedUserServers doc3 = Inr servers"
      using servers managedUserServers_cong [of doc3 doc] by (simp add: inst' map_of_set_key)
    show "array_at ''inbounds'' doc3 = Some I3" by (simp add: inst')
    show "\<forall>j \<in> set I3. is_object j" using objects3 len3 by (metis in_set_conv_nth)
    show "list_all2 (endpoint_ok I3 (tag_positions I3)) servers rs3"
      unfolding tags3 list_all2_conv_all_nth using ok3 len(1) by (simp add: rs3_def)
    show "distinct (map fst rs3)" using rs(2) rs3_fst by simp
    have "med_Path (es ! k) = fst (servers ! k)" if "k < length rs" for k
      using es_paths that len(1) len_es by (metis nth_map)
    then have "es = map2 (\<lambda>(p, _) (_, us). \<lparr>med_Path = p, med_Users = us\<rparr>) servers rs3"
      using len(1) len_es by (intro nth_equalityI) (auto simp: rs3_def split_beta)
    then show "\<lparr>mcf_Document = doc4, mcf_Endpoints = es\<rparr> =
        \<lparr>mcf_Document = set_key ''inbounds'' (JArr (update_each (map (\<lambda>(i, _). (i, drop_users)) rs3) I3)) doc3,
         mcf_Endpoints = map2 (\<lambda>(p, _) (_, us). \<lparr>med_Path = p, med_Users = us\<rparr>) servers rs3\<rparr>"
      using map by (simp add: doc4_def I4_def inst')
  qed
  have fields_ok: "as_any (I ! i) = I ! i" if "i < length I" for i
    using canonical_entry [OF doc array_atD [OF I]] that unfolding canonical_arr by simp
  have map_field: "is_map (field i)" if "i < length I" for i
    using fields_ok [OF that] object_fields_of [of "I ! i"] objects that unfolding field_def
    by (metis canonical_obj nth_mem)
  have stripped: "map without_marker I4 = I2"
  proof (rule nth_equalityI)
    show "length (map without_marker I4) = length I2" by (simp add: I4_def len3 len)
    fix i assume "i < length (map without_marker I4)"
    then have i: "i < length I" by (simp add: I4_def len3)
    have "fst ` set rs3 = fst ` set rs" using rs3_fst by (metis list.set_map)
    then have nth4: "I4 ! i = (if i \<in> fst ` set rs then drop_users (I3 ! i) else I3 ! i)"
      using rs(2) rs3_fst i len3 unfolding I4_def by (subst nth_update_same) simp_all
    show "map without_marker I4 ! i = I2 ! i"
    proof (cases "i \<in> fst ` set rs")
      case True
      then obtain k where k: "k < length rs" "i = fst (rs ! k)" by (metis imageE in_set_conv_nth)
      have "delete_key ''managed'' (delete_key ''users'' (put_users (med_Users (es ! k))
          (delete_key ''managed'' (delete_key ''users'' (field i))))) = delete_key ''managed'' (delete_key ''users'' (field i))"
        using map_field [OF i] by (intro users_out_again) (simp_all add: map_of_delete_key)
      with k True nth4 I2_at [OF k(1)] I3_at [OF k(1)] i show ?thesis
        by (simp add: I4_def len3 drop_users_def without_marker_def)
    next
      case False
      have "without_marker (without_marker j) = without_marker j" for j
        by (cases j) (simp_all add: without_marker_def delete_key_def)
      with False nth4 nth3_other [OF i False] i len(2) show ?thesis by (simp add: I4_def len3 I2_def)
    qed
  qed
  have "strip_markers doc4 = doc2" using map stripped by (simp add: strip_markers_def doc4_def doc2)
  moreover have "strip_markers (mcf_Document parsed) = doc2"
    using digest by (auto simp: managedTopologyDigest_def bindE_Inr_iff)
  moreover have "array_at ''certificate_providers'' doc4 = array_at ''certificate_providers'' (mcf_Document parsed)"
    by (simp add: doc4_def doc1)
  ultimately have "canonical_document env doc4 = canonical_document env (mcf_Document parsed)"
      "strip_markers doc4 = strip_markers (mcf_Document parsed)"
    by (simp_all only: canonical_document_def)
  with digest have same: "managedTopologyDigest env doc4 = Inr (dg, doc2)"
    by (simp only: managedTopologyDigest_def)
  have shape: "\<forall>x \<in> set I3. P x"
    if "\<forall>x \<in> set I. P x" "\<And>m k. P (JObj m) \<Longrightarrow> P (JObj (delete_key k m))"
      "\<And>m e. P (JObj m) \<Longrightarrow> e \<in> set es \<Longrightarrow> P (JObj (put_users (med_Users e) m))" for P
  proof -
    have "P (I1 ! i)" if "i < length I" for i
      using nth1 [OF that] \<open>\<forall>x \<in> set I. P x\<close> objects that(1) \<open>\<And>m k. P (JObj m) \<Longrightarrow> P (JObj (delete_key k m))\<close>
      by (auto simp: drop_users_def object_fields_of)
    then have "P (I2 ! i)" if i: "i < length I" for i
    proof -
      obtain m where m: "I1 ! i = JObj m" using objects1 [OF i] by (rule is_objectE)
      with \<open>\<And>i. i < length I \<Longrightarrow> P (I1 ! i)\<close> [OF i] have "P (JObj m)" by simp
      then have "P (JObj (delete_key ''managed'' m))" by (rule \<open>\<And>m k. P (JObj m) \<Longrightarrow> P (JObj (delete_key k m))\<close>)
      with m i len(2) show ?thesis by (simp add: I2_def without_marker_def)
    qed
    then have "P (I3 ! i)" if "i < length I" for i
    proof (cases "i \<in> fst ` set rs")
      case True
      then obtain k where k: "k < length rs" "i = fst (rs ! k)" by (metis imageE in_set_conv_nth)
      with \<open>\<And>i. i < length I \<Longrightarrow> P (I2 ! i)\<close> that have "P (JObj (delete_key ''managed'' (delete_key ''users'' (field i))))"
        by (metis I2_at)
      with k show ?thesis using I3_at [OF k(1)] len_es
          \<open>\<And>m e. P (JObj m) \<Longrightarrow> e \<in> set es \<Longrightarrow> P (JObj (put_users (med_Users e) m))\<close> by simp
    next
      case False
      with nth3_other [OF that] \<open>\<And>i. i < length I \<Longrightarrow> P (I2 ! i)\<close> that show ?thesis by simp
    qed
    then show ?thesis using len3 by (metis in_set_conv_nth)
  qed
  have "\<forall>x \<in> set I. as_any x = x" using canonical_entry [OF doc array_atD [OF I]] unfolding canonical_arr .
  then have "\<forall>x \<in> set I3. as_any x = x"
    by (rule shape) (simp_all only: canonical_delete_key canonical_put_users)
  then have canonical3: "as_any (JObj doc3) = JObj doc3"
    unfolding inst' by (intro canonical_set_key doc) (simp only: canonical_arr)
  have clean3: "clean_tree env (JObj doc3)"
    if "clean_tree env (JObj doc)" "\<forall>e \<in> set es. \<forall>u \<in> set (med_Users e). clean_text (mus_Username u) \<and> clean_text (mus_Password u)"
  proof -
    have "clean_tree env (JArr I)" using that(1) array_atD [OF I] by (auto dest!: map_of_SomeD)
    then have "\<forall>x \<in> set I. clean_tree env x" by simp
    then have "\<forall>x \<in> set I3. clean_tree env x"
      by (rule shape) (erule clean_delete_key, erule clean_put_users, use that(2) in blast)
    then show ?thesis unfolding inst' by (intro clean_set_key that(1)) simp_all
  qed
  show thesis by (rule that [OF parsed3 same canonical3 clean3])
qed

section \<open>Projecting the result\<close>

lemma read_user_nonempty: "read_user j = Inr u \<Longrightarrow> mus_Username u \<noteq> [] \<and> mus_Password u \<noteq> []"
  by (auto simp: read_user_def split: json.splits option.splits if_splits)

lemma read_user_clean: "read_user j = Inr u \<Longrightarrow> clean_tree env j \<Longrightarrow> clean_text (mus_Username u) \<and> clean_text (mus_Password u)"
  by (auto simp: read_user_def string_at_def as_string_def split: json.splits option.splits if_splits dest!: map_of_SomeD)

lemma extracted_users:
  assumes "extractManagedUsers raw = Inr us"
  obtains raws where "raw = Some (JArr raws)" "\<forall>u \<in> set us. \<exists>j \<in> set raws. read_user j = Inr u" "sorted (map mus_Username us)"
    "distinct (map mus_Username us)"
proof -
  from assms obtain raws e us' where raws: "raw = Some (JArr raws)" and
    f: "foldE (\<lambda>users j. bindE (read_user j) (\<lambda>u. bindE (require (mus_Username u \<notin> mus_Username ` set users) e) (\<lambda>_. ok (users @ [u])))) [] raws = Inr us'"
    and us: "us = sort_key mus_Username us'"
    by (auto simp: extractManagedUsers_def bindE_Inr_iff split: option.splits json.splits)
  have "distinct (map mus_Username us') \<and> (\<forall>u \<in> set us'. \<exists>j \<in> set raws. read_user j = Inr u)"
    by (rule foldE_invariant [OF f]) (auto simp: bindE_Inr_iff require_Inr)
  moreover from this have "distinct (map mus_Username us)"
    unfolding us by (metis mset_eq_imp_distinct_iff mset_map mset_sort)
  ultimately show thesis using that [OF raws] us by simp
qed

text \<open>The users of a parsed configuration are complete and valid text.\<close>

lemma parsed_users:
  assumes "managed_users_of doc = Inr parsed" "e \<in> set (mcf_Endpoints parsed)" "u \<in> set (med_Users e)"
  shows "mus_Username u \<noteq> [] \<and> mus_Password u \<noteq> []"
    "clean_tree env (JObj doc) \<Longrightarrow> clean_text (mus_Username u) \<and> clean_text (mus_Password u)"
proof -
  from assms(1) obtain servers I rs where I: "array_at ''inbounds'' doc = Some I" "\<forall>j \<in> set I. is_object j"
    and rs: "list_all2 (endpoint_ok I (tag_positions I)) servers rs"
    and es: "mcf_Endpoints parsed = map2 (\<lambda>(p, _) (_, us). \<lparr>med_Path = p, med_Users = us\<rparr>) servers rs"
    unfolding managed_users_of_decides by auto
  from assms(2) es obtain k where k: "k < length rs" "med_Users e = snd (rs ! k)"
    by (auto simp: in_set_conv_nth split_beta)
  obtain p t i us where s: "servers ! k = (p, t)" and r: "rs ! k = (i, us)" by fastforce
  with list_all2_nthD2 [OF rs k(1)] have pos: "tag_positions I t = Some i" and ex: "extractManagedUsers (map_of (object_fields (I ! i)) ''users'') = Inr us"
    by (auto simp: endpoint_ok_def object_at_nth)
  from extracted_users [OF ex] obtain raws where raws: "map_of (object_fields (I ! i)) ''users'' = Some (JArr raws)"
    "\<forall>u \<in> set us. \<exists>j \<in> set raws. read_user j = Inr u" by blast
  from assms(3) k(2) r obtain j where j: "j \<in> set raws" "read_user j = Inr u" using raws(2) by auto
  from read_user_nonempty [OF j(2)] show "mus_Username u \<noteq> [] \<and> mus_Password u \<noteq> []" .
  assume clean: "clean_tree env (JObj doc)"
  have i: "i < length I" using tag_positions_bound [OF pos] by simp
  have "clean_tree env (JArr I)" using clean array_atD [OF I(1)] by (auto dest!: map_of_SomeD)
  then have "clean_tree env (JObj (object_fields (I ! i)))" using I(2) i by (simp add: object_fields_of)
  then have "clean_tree env (JArr raws)" using raws(1) by (auto dest!: map_of_SomeD)
  then show "clean_text (mus_Username u) \<and> clean_text (mus_Password u)" using j read_user_clean by auto
qed

lemma parsed_paths:
  assumes "as_any (JObj doc) = JObj doc" "managed_users_of doc = Inr parsed"
  shows "sorted (map med_Path (mcf_Endpoints parsed))" "distinct (map med_Path (mcf_Endpoints parsed))"
proof -
  from assms(2) obtain servers I rs where servers: "managedUserServers doc = Inr servers"
    and rs: "list_all2 (endpoint_ok I (tag_positions I)) servers rs"
    and es: "mcf_Endpoints parsed = map2 (\<lambda>(p, _) (_, us). \<lparr>med_Path = p, med_Users = us\<rparr>) servers rs"
    unfolding managed_users_of_decides by auto
  have "map med_Path (mcf_Endpoints parsed) = map fst servers"
    unfolding es using list_all2_lengthD [OF rs] by (intro nth_equalityI) (simp_all add: split_beta)
  with managed_paths_ascend [OF assms(1) servers] show "sorted (map med_Path (mcf_Endpoints parsed))"
    "distinct (map med_Path (mcf_Endpoints parsed))" by (simp_all add: is_map_def)
qed

lemma project_endpoints_map:
  assumes "\<forall>e \<in> set es. \<forall>u \<in> set (med_Users e). \<not> isl (parseManagedMembershipIdentity (mus_Username u))"
  shows "project_endpoints es = Inr (map (\<lambda>e. \<lparr>aep_Path = med_Path e, aep_Users = filter is_member (med_Users e)\<rparr>) es)"
  using assms by (induction es) (auto simp: membership_users_filter)

text \<open>What an overlay consists of.\<close>

lemma overlay_steps:
  assumes run: "applyManagedUserAuthority env config variants = Inr (out, True)"
    and other: "trim_space config \<noteq> trim_space DisabledManagedConfig"
  obtains doc parsed dg doc2 v authority es doc3 s where
    "decodeManagedDocument env config = Inr doc" "managed_users_of doc = Inr parsed"
    "managedTopologyDigest env (mcf_Document parsed) = Inr (dg, doc2)"
    "v \<in> set variants" "auv_TopologySHA256 v = dg"
    "foldE merge_endpoint (fill_map aep_Path aep_Users Map.empty (auv_Endpoints v), []) (mcf_Endpoints parsed) = Inr (authority, es)"
    "\<forall>e \<in> set (auv_Endpoints v). authority (aep_Path e) = None"
    "installManagedEndpointUsers es doc2 = Inr doc3" "jen_indent env (JObj doc3) = Some s" "out = s @ [CHR 0x0A]"
proof -
  from run other obtain parsed dg doc2 where
    p: "parseManagedUserConfig env config = Inr parsed" "managedTopologyDigest env (mcf_Document parsed) = Inr (dg, doc2)"
    and f: "(case find (\<lambda>v. auv_TopologySHA256 v = dg) variants of
           None \<Rightarrow> ok (config, False)
         | Some selected \<Rightarrow>
             bindE (foldE merge_endpoint
                      (fill_map aep_Path aep_Users Map.empty (auv_Endpoints selected), []) (mcf_Endpoints parsed)) (\<lambda>(authority, endpoints).
             bindE (require (list_all (\<lambda>e. authority (aep_Path e) = None) (auv_Endpoints selected))
                      (ErrOther ''managed-user authority references an endpoint outside its topology'')) (\<lambda>_.
             bindE (installManagedEndpointUsers endpoints doc2) (\<lambda>document.
             bindE (from_option (ErrOther ''json'') (jen_indent env (JObj document))) (\<lambda>encoded.
             ok (encoded @ [CHR 0x0A], True)))))) = Inr (out, True)"
    by (auto simp: applyManagedUserAuthority_def bindE_Inr_iff)
  from f obtain v where v: "find (\<lambda>v. auv_TopologySHA256 v = dg) variants = Some v" by (auto split: option.splits)
  then have mem: "v \<in> set variants" "auv_TopologySHA256 v = dg" by (auto simp: find_Some_iff)
  from p(1) obtain doc where doc: "decodeManagedDocument env config = Inr doc" "managed_users_of doc = Inr parsed"
    by (auto simp: parseManagedUserConfig_def bindE_Inr_iff)
  from f v show thesis
    by (auto simp: bindE_Inr_iff require_Inr from_option_Inr list_all_iff intro: that [OF doc p(2) mem])
qed

lemma record_endpoint: "e\<lparr>aep_Users := us\<rparr> = \<lparr>aep_Path = aep_Path e, aep_Users = us\<rparr>"
  by (cases e) simp

lemma overlay_projects:
  assumes env: "json_reads_back env" and run: "applyManagedUserAuthority env config variants = Inr (out, True)"
    and other: "trim_space config \<noteq> trim_space DisabledManagedConfig"
    and valid: "\<forall>v \<in> set variants. validateManagedUserAuthorityVariant v = Inr () \<and>
      (\<forall>e \<in> set (auv_Endpoints v). \<forall>u \<in> set (aep_Users e). clean_text (mus_Password u))"
  obtains v parsed parsed' where "v \<in> set variants" "BuildManagedUserAuthorityVariant env out = Inr (sorted_variant v)"
    "parseManagedUserConfig env config = Inr parsed" "parseManagedUserConfig env out = Inr parsed'"
    "map (\<lambda>e. (med_Path e, sort_key mus_Username (filter (\<lambda>u. \<not> is_member u) (med_Users e)))) (mcf_Endpoints parsed) =
     map (\<lambda>e. (med_Path e, filter (\<lambda>u. \<not> is_member u) (med_Users e))) (mcf_Endpoints parsed')"
proof -
  from overlay_steps [OF run other] obtain doc parsed dg doc2 v authority es doc3 s where
    doc: "decodeManagedDocument env config = Inr doc" "managed_users_of doc = Inr parsed"
    and dg: "managedTopologyDigest env (mcf_Document parsed) = Inr (dg, doc2)"
    and v: "v \<in> set variants" "auv_TopologySHA256 v = dg"
    and merge: "foldE merge_endpoint (fill_map aep_Path aep_Users Map.empty (auv_Endpoints v), []) (mcf_Endpoints parsed) = Inr (authority, es)"
    and all: "\<forall>e \<in> set (auv_Endpoints v). authority (aep_Path e) = None"
    and inst: "installManagedEndpointUsers es doc2 = Inr doc3"
    and out: "jen_indent env (JObj doc3) = Some s" "out = s @ [CHR 0x0A]" .
  define E where "E = mcf_Endpoints parsed"
  define auth where "auth = fill_map aep_Path aep_Users Map.empty (auv_Endpoints v)"
  note canonical = decoded_document(1) [OF doc(1)] and clean = decoded_document(2) [OF doc(1) env]
  note m = merge_endpoints [OF merge, folded E_def auth_def]
  have es: "es = map (\<lambda>e. \<lparr>med_Path = med_Path e, med_Users = merged_users auth e\<rparr>) E" using m by simp
  have valid_v: "auv_TopologySHA256 v \<noteq> 0" "distinct (map aep_Path (auv_Endpoints v))"
    "\<forall>e \<in> set (auv_Endpoints v). \<forall>u \<in> set (aep_Users e). valid_authority_user u"
    using valid v(1) unfolding validate_variant_decides by blast+
  have source: "\<exists>g \<in> set (auv_Endpoints v). aep_Path g = med_Path e \<and> aep_Users g = the (auth (med_Path e))" if "e \<in> set E" for e
  proof -
    from m that obtain us where "auth (med_Path e) = Some us" by auto
    with fill_map_SomeD [of aep_Path aep_Users Map.empty _ "med_Path e" us] show ?thesis by (auto simp: auth_def)
  qed
  have good: "\<not> isl (parseManagedMembershipIdentity (mus_Username u)) \<and> mus_Username u \<noteq> [] \<and> mus_Password u \<noteq> []
      \<and> clean_text (mus_Username u) \<and> clean_text (mus_Password u)"
    if e: "e \<in> set E" and u: "u \<in> set (merged_users auth e)" for e u
  proof (cases "u \<in> set (med_Users e)")
    case True
    with m e parsed_users [OF doc(2), of e u] clean show ?thesis by (simp add: E_def)
  next
    case False
    with u have "u \<in> set (the (auth (med_Path e)))" by (simp add: merged_users_def)
    with source [OF e] obtain g where g: "g \<in> set (auv_Endpoints v)" "u \<in> set (aep_Users g)" by auto
    then have ok: "valid_authority_user u" "clean_text (mus_Password u)" using valid_v(3) valid v(1) by blast+
    from valid_user_parses [OF ok(1)] obtain i where i: "parseManagedMembershipIdentity (mus_Username u) = Inr (Some i)" ..
    have "trim_space (mus_Password u) \<noteq> []" using ok(1) by (simp add: valid_authority_user_def)
    moreover have "strip_front ws [] = []" for ws
      by (subst strip_front.simps) (auto simp: find_Some_iff has_prefix_def split: option.split)
    then have "trim_space [] = []" by (simp add: trim_space_def)
    ultimately have "mus_Password u \<noteq> []" by auto
    with i ok(2) parsed_key(3,4) [OF i] show ?thesis by simp
  qed
  have paths: "map med_Path es = map med_Path E" by (simp add: es comp_def)
  have users: "\<forall>e \<in> set es. sorted (map mus_Username (med_Users e)) \<and> distinct (map mus_Username (med_Users e)) \<and>
      (\<forall>u \<in> set (med_Users e). mus_Username u \<noteq> [] \<and> mus_Password u \<noteq> [])"
    using m good by (auto simp: es merged_users_def)
  obtain doc4 where doc4: "managed_users_of doc3 = Inr \<lparr>mcf_Document = doc4, mcf_Endpoints = es\<rparr>"
    "managedTopologyDigest env doc4 = Inr (dg, doc2)" "as_any (JObj doc3) = JObj doc3" "clean_tree env (JObj doc3)"
    by (rule overlay_parses [OF canonical doc(2) dg inst paths [unfolded E_def] users]) (use clean good es in auto)
  have read: "parseManagedUserConfig env out = Inr \<lparr>mcf_Document = doc4, mcf_Endpoints = es\<rparr>"
    using decode_written [OF env doc4(4,3) out(1)] doc4(1) by (simp add: parseManagedUserConfig_def out(2))
  have members: "filter is_member (merged_users auth e) = sort_key mus_Username (the (auth (med_Path e)))"
    and links: "filter (\<lambda>u. \<not> is_member u) (merged_users auth e) = sort_key mus_Username (filter (\<lambda>u. \<not> is_member u) (med_Users e))"
    if "e \<in> set E" for e
  proof -
    have "\<forall>u \<in> set (the (auth (med_Path e))). is_member u"
      using source [OF that] valid_v(3) valid_user_parses unfolding is_member_def by metis
    then have "filter is_member (the (auth (med_Path e))) = the (auth (med_Path e))"
      "filter (\<lambda>u. \<not> is_member u) (the (auth (med_Path e))) = []" by (auto simp: filter_id_conv filter_empty_conv)
    then show "filter is_member (merged_users auth e) = sort_key mus_Username (the (auth (med_Path e)))"
      "filter (\<lambda>u. \<not> is_member u) (merged_users auth e) = sort_key mus_Username (filter (\<lambda>u. \<not> is_member u) (med_Users e))"
      by (simp_all add: merged_users_def filter_sort)
  qed
  let ?w = "map (\<lambda>e. \<lparr>aep_Path = med_Path e, aep_Users = filter is_member (med_Users e)\<rparr>) es"
  have w: "?w = map (\<lambda>e. \<lparr>aep_Path = med_Path e, aep_Users = sort_key mus_Username (the (auth (med_Path e)))\<rparr>) E"
    by (simp add: es members)
  note ascending = parsed_paths [OF canonical doc(2), folded E_def]
  have "?w = auv_Endpoints (sorted_variant v)"
  proof (rule map_sorted_distinct_set_unique [where f = aep_Path])
    show "sorted (map aep_Path ?w)" "distinct (map aep_Path ?w)" using ascending by (simp_all add: w comp_def)
    show "sorted (map aep_Path (auv_Endpoints (sorted_variant v)))" by (simp add: sorted_variant_def)
    have "mset (map aep_Path (auv_Endpoints (sorted_variant v))) = mset (map aep_Path (auv_Endpoints v))"
      by (simp add: sorted_variant_def image_mset.compositionality comp_def)
    then show d: "distinct (map aep_Path (auv_Endpoints (sorted_variant v)))" using valid_v(2) mset_eq_imp_distinct_iff by blast
    have found: "auth (aep_Path g) = Some (aep_Users g)" if "g \<in> set (auv_Endpoints v)" for g
      unfolding auth_def by (rule fill_map_distinct [OF valid_v(2) that])
    show same: "set ?w = set (auv_Endpoints (sorted_variant v))"
    proof (intro equalityI subsetI)
      fix x assume "x \<in> set ?w"
      then obtain e where e: "e \<in> set E" "x = \<lparr>aep_Path = med_Path e, aep_Users = sort_key mus_Username (the (auth (med_Path e)))\<rparr>"
        by (auto simp: w)
      with source [OF e(1)] show "x \<in> set (auv_Endpoints (sorted_variant v))"
        by (auto simp: sorted_variant_def record_endpoint image_iff) (metis)
    next
      fix x assume "x \<in> set (auv_Endpoints (sorted_variant v))"
      then obtain g where g: "g \<in> set (auv_Endpoints v)" "x = \<lparr>aep_Path = aep_Path g, aep_Users = sort_key mus_Username (aep_Users g)\<rparr>"
        by (auto simp: sorted_variant_def record_endpoint)
      have "aep_Path g \<in> med_Path ` set E" using all g(1) m found [OF g(1)] by (auto split: if_splits)
      then show "x \<in> set ?w" using g found [OF g(1)] by (auto simp: w image_iff)
    qed
    show "inj_on aep_Path (set ?w \<union> set (auv_Endpoints (sorted_variant v)))"
      unfolding same using d by (simp add: distinct_map)
  qed
  then have variant: "\<lparr>auv_TopologySHA256 = dg, auv_Endpoints = ?w\<rparr> = sorted_variant v"
    using v(2) by (simp add: sorted_variant_def)
  have "\<forall>e \<in> set es. \<forall>u \<in> set (med_Users e). \<not> isl (parseManagedMembershipIdentity (mus_Username u))"
    using good by (auto simp: es)
  note project = project_endpoints_map [OF this]
  have "validateManagedUserAuthorityVariant (sorted_variant v) = Inr ()" using validate_sorted valid v(1) by blast
  then have built: "BuildManagedUserAuthorityVariant env out = Inr (sorted_variant v)"
    unfolding BuildManagedUserAuthorityVariant_def read by (simp add: doc4(2) project Let_def variant del: map_map)
  have "map (\<lambda>e. (med_Path e, sort_key mus_Username (filter (\<lambda>u. \<not> is_member u) (med_Users e)))) E =
     map (\<lambda>e. (med_Path e, filter (\<lambda>u. \<not> is_member u) (med_Users e))) es"
    by (simp add: es links)
  moreover have "parseManagedUserConfig env config = Inr parsed" using doc by (simp add: parseManagedUserConfig_def)
  ultimately show thesis by (intro that [OF v(1) built _ read]) (simp_all add: E_def)
qed

end
