(* ===== verification/ManagedCompile.thy ===== *)
theory ManagedCompile
  imports Overlay CompileAdmission
begin

text \<open>
  Compiled configurations under the managed-user functions: what the safety policy says of them and
  what authority they project to.
\<close>

section \<open>Reading a compiled configuration\<close>

lemma as_any_object: "as_any (JObj fs) = JObj (to_map (map (\<lambda>(k, v). (k, as_any v)) fs))"
  by simp

lemma any_lookup:
  assumes "distinct (map fst fs)"
  shows "map_of (to_map (map (\<lambda>(k, v). (k, as_any v)) fs)) k = map_option as_any (map_of fs k)"
proof -
  have "map_of (rev (map (\<lambda>(k, v). (k, as_any v)) fs)) = map_of (map (\<lambda>(k, v). (k, as_any v)) fs)"
    using assms by (intro map_of_rev) (simp add: comp_def split_beta)
  moreover have "map_of (map (\<lambda>(k, v). (k, as_any v)) fs) k = map_option as_any (map_of fs k)" by (induction fs) auto
  ultimately show ?thesis by simp
qed

lemma to_map_keys: "fst ` set (to_map fs) = fst ` set fs"
  by (simp add: to_map_def dom_clearjunk)

lemma to_map_distinct: "distinct (map fst (to_map fs))"
  using is_map_to_map [of fs] by (simp add: is_map_def)

lemma raw_list_plain:
  assumes "distinct (map fst m)" "\<forall>k \<in> fst ` set m. fold_name k = name \<longrightarrow> k = name" "fold_name name = name"
    "map_of m name = None \<or> map_of m name = Some (JArr xs)"
  shows "raw_list name m = Inr (case map_of m name of None \<Rightarrow> [] | Some _ \<Rightarrow> xs)"
proof -
  have "foldE (\<lambda>acc (k, v). if fold_name k = name
       then (case v of JArr xs \<Rightarrow> ok xs | JNull \<Rightarrow> ok [] | _ \<Rightarrow> fail (ErrOther ''json'')) else ok acc) acc m
     = Inr (case map_of m name of None \<Rightarrow> acc | Some _ \<Rightarrow> xs)" for acc
    using assms
  proof (induction m arbitrary: acc)
    case (Cons p m)
    obtain k v where p: "p = (k, v)" by fastforce
    show ?case
    proof (cases "k = name")
      case True
      with Cons.prems p have "v = JArr xs" "map_of m name = None" by (simp_all add: map_of_eq_None_iff)
      with True Cons p show ?thesis by simp
    next
      case False
      with Cons.prems p have "fold_name k \<noteq> name" by auto
      with False Cons p show ?thesis by simp
    qed
  qed simp
  then show ?thesis unfolding raw_list_def .
qed

lemma listener_fields:
  assumes "renderListener digest g = Inr (inbound, provider)"
  shows "distinct (map fst inbound)" "map_of inbound ''listen_port'' = Some (JInt (ep_ListenPort (grp_endpoint g)))"
    "map_of inbound ''type'' = Some (JStr (protocol_name (ep_Protocol (grp_endpoint g))))"
    "map_of inbound ''tag'' = Some (JStr (grp_tag g))"
    "map_of inbound ''users'' = Some (JArr (map (\<lambda>u. JObj (user_fields u)) (sort_key ru_Name (concat (map ing_users (grp_candidates g))))))"
    "ep_Protocol (grp_endpoint g) \<in> {ProtocolShadowsocks, ProtocolAnyTLS, ProtocolHysteria2}"
  using assms
  by (cases "ep_Protocol (grp_endpoint g)"; cases "renderInboundTLS digest g";
      auto simp: renderListener_def Let_def optional_object_def hysteria2_fields_def user_fields_def split: option.splits if_splits)+

lemma config_shape:
  assumes "renderAgentConfig digest r = Inr config"
  obtains inbounds providers where "render_groups digest (ar_groups r) = Inr (inbounds, providers)" "distinct (map fst config)"
    "map_of config ''inbounds'' = Some (JArr (map JObj inbounds))"
    "fst ` set config \<subseteq> {''dns'', ''inbounds'', ''outbounds'', ''route'', ''services'', ''certificate_providers''}"
    "map_of config ''services'' = (if ar_groups r = [] then None else
       Some (JArr [JObj [(''type'', JStr ''ssm-api''), (''tag'', JStr ManagedUserAPIServiceTag),
                  (''listen'', JStr ''127.0.0.1''), (''listen_port'', JInt ManagedUserAPIListenPort),
                  (''servers'', JObj (fold (\<lambda>g. AList.update (CHR ''/'' # grp_tag g) (JStr (grp_tag g))) (ar_groups r) []))]]))"
  using assms by (auto simp: renderAgentConfig_def bindE_Inr_iff Let_def intro!: that split: if_splits)

section \<open>The safety policy\<close>

definition listens_on :: "string \<Rightarrow> int \<Rightarrow> proxy_node \<Rightarrow> bool" where
  "listens_on a p n \<longleftrightarrow>
     hop_agent n (root_hop n) = a \<and> ep_ListenPort (ent_Endpoint (pn_Entrance n)) = p \<or>
     list_ex (\<lambda>l. hop_agent n (lnk_ChildHopID l) = a \<and> ep_ListenPort (lnk_Endpoint l) = p) (pn_Links n)"

text \<open>The documented results of \<open>ParseFloat\<close> on the decimal text of a port.\<close>

definition reads_ports :: "json_env \<Rightarrow> bool" where
  "reads_ports env \<longleftrightarrow> (\<forall>i. 0 < i \<and> i \<le> 65535 \<longrightarrow> jen_float env (show_int i) = Some i)"

lemma fold_names:
  "fold_name ''dns'' = ''dns''" "fold_name ''inbounds'' = ''inbounds''" "fold_name ''outbounds'' = ''outbounds''"
  "fold_name ''route'' = ''route''" "fold_name ''services'' = ''services''" "fold_name ''certificate_providers'' = ''certificate_providers''"
  by (simp_all add: ascii_lower_def is_upper_def less_eq_char_def)

lemma eachE_same:
  assumes "\<forall>x \<in> set xs. f x = (if P x then Inl e else Inr ())"
  shows "eachE f xs = (if \<exists>x \<in> set xs. P x then Inl e else Inr ())"
  using assms by (induction xs) auto

lemma check_listener:
  assumes "reads_ports env" "renderListener digest g = Inr (inbound, provider)"
    and "0 < ep_ListenPort (grp_endpoint g)" "ep_ListenPort (grp_endpoint g) \<le> 65535" "ep_ListenPort (grp_endpoint g) \<noteq> 80"
  shows "check_inbound env (as_any (JObj inbound)) =
    (if ep_ListenPort (grp_endpoint g) = ManagedUserAPIListenPort then fail ErrManagedUserAPIListenPort else ok ())"
proof -
  note f = listener_fields [OF assms(2)]
  let ?m = "to_map (map (\<lambda>(k, v). (k, as_any v)) inbound)"
  have "map_of (rev ?m) = map_of ?m" by (rule map_of_rev [OF to_map_distinct])
  then have "map_of (rev ?m) ''listen_port'' = Some (JInt (ep_ListenPort (grp_endpoint g)))"
    unfolding any_lookup [OF f(1)] by (simp add: f(2))
  moreover have "jen_float env (show_int (ep_ListenPort (grp_endpoint g))) = Some (ep_ListenPort (grp_endpoint g))"
    using assms(1,3,4) by (simp add: reads_ports_def)
  ultimately show ?thesis using assms(5) unfolding as_any_object
    by (simp add: check_inbound_def struct_fields_def raw_entry_def number_text_def HTTP01ListenPort_def del: map_of_to_map)
qed

lemma check_own_service:
  "check_service env (as_any (JObj [(''type'', JStr ''ssm-api''), (''tag'', JStr ManagedUserAPIServiceTag),
      (''listen'', JStr ''127.0.0.1''), (''listen_port'', JInt ManagedUserAPIListenPort), (''servers'', servers)])) = Inr ()"
proof -
  let ?fs = "[(''type'', JStr ''ssm-api''), (''tag'', JStr ManagedUserAPIServiceTag),
      (''listen'', JStr ''127.0.0.1''), (''listen_port'', JInt ManagedUserAPIListenPort), (''servers'', servers)]"
  let ?m = "to_map (map (\<lambda>(k, v). (k, as_any v)) ?fs)"
  have "map_of (rev ?m) = map_of ?m" by (rule map_of_rev [OF to_map_distinct])
  moreover have "map_of ?m k = map_option as_any (map_of ?fs k)" for k by (rule any_lookup) simp
  ultimately show ?thesis unfolding as_any_object
    by (simp add: check_service_def struct_fields_def raw_entry_def number_text_def as_string_def require_def del: map_of_to_map)
qed

lemma eachE_listeners:
  assumes "reads_ports env" "list_all2 (\<lambda>g inbound. \<exists>p. renderListener digest g = Inr (inbound, p)) gs inbounds"
    and "\<forall>g \<in> set gs. 0 < ep_ListenPort (grp_endpoint g) \<and> ep_ListenPort (grp_endpoint g) \<le> 65535 \<and> ep_ListenPort (grp_endpoint g) \<noteq> 80"
  shows "eachE (check_inbound env) (map as_any (map JObj inbounds)) =
    (if \<exists>g \<in> set gs. ep_ListenPort (grp_endpoint g) = ManagedUserAPIListenPort then fail ErrManagedUserAPIListenPort else ok ())"
  using assms(2,3)
proof (induction rule: list_all2_induct)
  case (Cons g gs inbound inbounds)
  then obtain p where "renderListener digest g = Inr (inbound, p)" by blast
  from check_listener [OF assms(1) this] Cons show ?case by (simp del: as_any.simps)
qed simp

lemma config_policy:
  assumes env: "reads_ports env" and written: "jen_read env t = Some (as_any (JObj config), True)"
    and run: "renderAgentConfig digest r = Inr config"
    and ports: "\<forall>g \<in> set (ar_groups r). 0 < ep_ListenPort (grp_endpoint g) \<and> ep_ListenPort (grp_endpoint g) \<le> 65535
      \<and> ep_ListenPort (grp_endpoint g) \<noteq> 80"
  shows "ValidateManagedConfig env t =
    (if \<exists>g \<in> set (ar_groups r). ep_ListenPort (grp_endpoint g) = ManagedUserAPIListenPort then fail ErrManagedUserAPIListenPort else ok ())"
proof -
  from config_shape [OF run] obtain inbounds providers where groups: "render_groups digest (ar_groups r) = Inr (inbounds, providers)"
    and d: "distinct (map fst config)" and ins: "map_of config ''inbounds'' = Some (JArr (map JObj inbounds))"
    and keys: "fst ` set config \<subseteq> {''dns'', ''inbounds'', ''outbounds'', ''route'', ''services'', ''certificate_providers''}"
    and services: "map_of config ''services'' = (if ar_groups r = [] then None else
       Some (JArr [JObj [(''type'', JStr ''ssm-api''), (''tag'', JStr ManagedUserAPIServiceTag),
                  (''listen'', JStr ''127.0.0.1''), (''listen_port'', JInt ManagedUserAPIListenPort),
                  (''servers'', JObj (fold (\<lambda>g. AList.update (CHR ''/'' # grp_tag g) (JStr (grp_tag g))) (ar_groups r) []))]]))" .
  let ?m = "to_map (map (\<lambda>(k, v). (k, as_any v)) config)"
  note read = written [unfolded as_any_object]
  have same: "fst ` set ?m = fst ` set config" by (simp add: to_map_keys image_image split_beta)
  have fold: "\<forall>k \<in> fst ` set ?m. fold_name k = name \<longrightarrow> k = name" for name
  proof (intro ballI impI)
    fix k assume "k \<in> fst ` set ?m" and k: "fold_name k = name"
    then have "k \<in> {''dns'', ''inbounds'', ''outbounds'', ''route'', ''services'', ''certificate_providers''}"
      using keys unfolding same by blast
    then have "fold_name k = k" by (elim insertE emptyE) (simp_all only: fold_names)
    with k show "k = name" by simp
  qed
  have list1: "raw_list ''inbounds'' ?m = Inr (map as_any (map JObj inbounds))"
    by (subst raw_list_plain [OF to_map_distinct fold fold_names(2), where xs = "map as_any (map JObj inbounds)"])
      (simp_all add: any_lookup [OF d] ins del: map_of_to_map map_map)
  have list2: "\<exists>xs. raw_list ''services'' ?m = Inr xs \<and> eachE (check_service env) xs = Inr ()"
  proof (cases "ar_groups r = []")
    case True
    have "raw_list ''services'' ?m = Inr []"
      by (subst raw_list_plain [OF to_map_distinct fold fold_names(5), where xs = "[]"])
        (simp_all add: any_lookup [OF d] services True del: map_of_to_map)
    then show ?thesis by simp
  next
    case False
    let ?s = "JObj [(''type'', JStr ''ssm-api''), (''tag'', JStr ManagedUserAPIServiceTag),
                  (''listen'', JStr ''127.0.0.1''), (''listen_port'', JInt ManagedUserAPIListenPort),
                  (''servers'', JObj (fold (\<lambda>g. AList.update (CHR ''/'' # grp_tag g) (JStr (grp_tag g))) (ar_groups r) []))]"
    have "map_of ?m ''services'' = Some (JArr [as_any ?s])" unfolding any_lookup [OF d] by (simp add: services False)
    then have "raw_list ''services'' ?m = Inr [as_any ?s]"
      by (subst raw_list_plain [OF to_map_distinct fold fold_names(5), where xs = "[as_any ?s]"]) (simp_all del: map_of_to_map as_any.simps)
    moreover have "eachE (check_service env) [as_any ?s] = Inr ()" using check_own_service [of env] by (simp del: as_any.simps)
    ultimately show ?thesis by blast
  qed
  then obtain xs where xs: "raw_list ''services'' ?m = Inr xs" "eachE (check_service env) xs = Inr ()" by blast
  note listeners = eachE_listeners [OF env render_groups_inbounds [OF groups] ports]
  show ?thesis
    unfolding ValidateManagedConfig_def Let_def read from_option_def option.case bindE.simps struct_fields_def json.case wrapE.simps
      list1 xs(1) require_def if_True case_prod_conv listeners by (simp add: xs(2))
qed

lemma listens_on_bare: "listens_on a p (bare_node n) = listens_on a p n"
proof -
  have e: "ep_ListenPort (bare_endpoint e) = ep_ListenPort e" for e by (simp add: bare_endpoint_def)
  have l: "ep_ListenPort (lnk_Endpoint (bare_link l)) = ep_ListenPort (lnk_Endpoint l)" for l by (simp add: bare_link_def e)
  have "ent_Endpoint (pn_Entrance (bare_node n)) = bare_endpoint (ent_Endpoint (pn_Entrance n))"
    and "pn_Links (bare_node n) = map bare_link (pn_Links n)" by (simp_all add: bare_node_def)
  then show ?thesis unfolding listens_on_def bare_node_keeps by (simp add: e l list_ex_iff)
qed

lemma candidate_listens:
  assumes "routing_tree n"
  shows "(\<exists>c. candidate_of n c \<and> candidate_agent c = a \<and> ep_ListenPort (ing_endpoint c) = p) \<longleftrightarrow> listens_on a p n"
proof -
  let ?P = "\<lambda>c. candidate_agent c = a \<and> ep_ListenPort (ing_endpoint c) = p"
  from inbounds_exist(1) [OF assms] obtain root where root: "root_candidate n = Inr root" by blast
  then have "hop_map n (root_hop n) = Some (ing_hop root)" and fields: "ing_endpoint root = ent_Endpoint (pn_Entrance n)"
    by (auto simp: root_candidate_def bindE_Inr_iff from_option_def split: option.splits)
  from hop_map_agent(1) [OF this(1)] have "hop_agent n (root_hop n) = candidate_agent root" .
  then have r: "?P root \<longleftrightarrow> hop_agent n (root_hop n) = a \<and> ep_ListenPort (ent_Endpoint (pn_Entrance n)) = p" by (simp add: fields)
  have l: "(\<exists>c. link_candidate n l = Inr c \<and> ?P c) \<longleftrightarrow> hop_agent n (lnk_ChildHopID l) = a \<and> ep_ListenPort (lnk_Endpoint l) = p"
    if "l \<in> set (pn_Links n)" for l
  proof -
    from inbounds_exist(2) [OF assms that] obtain c where c: "link_candidate n l = Inr c" by blast
    then have "hop_map n (lnk_ChildHopID l) = Some (ing_hop c)" and fields: "ing_endpoint c = lnk_Endpoint l"
      by (auto simp: link_candidate_def bindE_Inr_iff from_option_def split: option.splits)
    from hop_map_agent(1) [OF this(1)] have "hop_agent n (lnk_ChildHopID l) = candidate_agent c" .
    then show ?thesis by (auto simp: c fields)
  qed
  have "(\<exists>c. candidate_of n c \<and> ?P c) \<longleftrightarrow> ?P root \<or> (\<exists>l \<in> set (pn_Links n). \<exists>c. link_candidate n l = Inr c \<and> ?P c)"
    unfolding candidate_of_def root by blast
  also have "\<dots> \<longleftrightarrow> listens_on a p n" unfolding r listens_on_def list_ex_iff using l by blast
  finally show ?thesis .
qed

lemma endpoint_port_range: "validateEndpoint e = Inr () \<Longrightarrow> 0 < ep_ListenPort e \<and> ep_ListenPort e \<le> 65535 \<and> ep_ListenPort e \<noteq> 80"
  by (auto simp: validateEndpoint_def split: if_splits)

lemma candidate_port:
  assumes "state_ok env st" "n \<in> set (st_ProxyNodes st)" "candidate_of n c"
  shows "0 < ep_ListenPort (ing_endpoint c) \<and> ep_ListenPort (ing_endpoint c) \<le> 65535 \<and> ep_ListenPort (ing_endpoint c) \<noteq> 80"
proof -
  have "topology_ok n" by (rule state_ok_node(1) [OF assms(1,2)])
  with assms(3) have "validateEndpoint (ing_endpoint c) = Inr ()"
    by (auto simp: topology_ok_def link_ok_def candidate_of_def root_candidate_def link_candidate_def bindE_Inr_iff)
  then show ?thesis by (rule endpoint_port_range)
qed

lemma Compile_policy:
  assumes env: "reads_ports jenv" and written: "jen_read jenv t = Some (as_any (JObj config), True)"
    and run: "Compile env digest tx resolver st = Some (Inr res)" and config: "map_of (cr_Configs res) a = Some config"
  shows "ValidateManagedConfig jenv t =
    (if list_ex (listens_on a ManagedUserAPIListenPort) (st_ProxyNodes st) then fail ErrManagedUserAPIListenPort else ok ())"
proof -
  from Compile_known [OF run] obtain resolve nodes where comp: "compile_nodes digest tx resolve nodes = Inr res"
    and nodes: "map fst nodes = st_ProxyNodes (reconciled st)" and known: "\<forall>(node, ds) \<in> set nodes. known_rules node" by blast
  from Compile_valid [OF run] have ok: "state_ok env (reconciled st)" by blast
  have fst_nodes: "fst ` set nodes = set (st_ProxyNodes (reconciled st))" using nodes by (metis list.set_map)
  from compile_config_groups [OF comp known config] obtain groups cs r where gok: "groups_ok digest groups cs"
    and cs: "set cs = {c. \<exists>(node, ds) \<in> set nodes. candidate_of node c}"
    and groups: "set (ar_groups r) = {g \<in> set groups. grp_agentID g = a}" and rendered: "renderAgentConfig digest r = Inr config" by blast
  have cs': "c \<in> set cs \<longleftrightarrow> (\<exists>n \<in> set (st_ProxyNodes (reconciled st)). candidate_of n c)" for c
    unfolding cs fst_nodes [symmetric] by force
  have key: "so_Agent (fst (candidate_key c)) = candidate_agent c" "so_Port (fst (candidate_key c)) = ep_ListenPort (ing_endpoint c)" for c
    by (simp_all add: candidate_key_def listenerKeys_def listener_socket_def Let_def)
  have group: "\<exists>c \<in> set cs. candidate_key c = grp_key g \<and> ep_ListenPort (ing_endpoint c) = ep_ListenPort (grp_endpoint g)" if "g \<in> set groups" for g
  proof -
    from gok that have "grp_endpoint g \<in> ing_endpoint ` set (filter (\<lambda>c. candidate_key c = grp_key g) cs)" unfolding groups_ok_def by metis
    then show ?thesis by auto
  qed
  have ports: "\<forall>g \<in> set (ar_groups r). 0 < ep_ListenPort (grp_endpoint g) \<and> ep_ListenPort (grp_endpoint g) \<le> 65535
      \<and> ep_ListenPort (grp_endpoint g) \<noteq> 80"
  proof
    fix g assume "g \<in> set (ar_groups r)"
    with group groups obtain c where c: "c \<in> set cs" "ep_ListenPort (ing_endpoint c) = ep_ListenPort (grp_endpoint g)" by blast
    then obtain n where "n \<in> set (st_ProxyNodes (reconciled st))" "candidate_of n c" using cs' by blast
    from candidate_port [OF ok this] c(2) show "0 < ep_ListenPort (grp_endpoint g) \<and> ep_ListenPort (grp_endpoint g) \<le> 65535
      \<and> ep_ListenPort (grp_endpoint g) \<noteq> 80" by simp
  qed
  have "(\<exists>g \<in> set (ar_groups r). ep_ListenPort (grp_endpoint g) = p) \<longleftrightarrow>
      (\<exists>c \<in> set cs. candidate_agent c = a \<and> ep_ListenPort (ing_endpoint c) = p)" for p
  proof
    assume "\<exists>g \<in> set (ar_groups r). ep_ListenPort (grp_endpoint g) = p"
    then obtain g where g: "g \<in> set groups" "grp_agentID g = a" "ep_ListenPort (grp_endpoint g) = p" using groups by blast
    with group obtain c where c: "c \<in> set cs" "candidate_key c = grp_key g" "ep_ListenPort (ing_endpoint c) = p" by blast
    from gok g(1) have "grp_agentID g = so_Agent (fst (grp_key g))" unfolding groups_ok_def by blast
    with c g(2) key(1) [of c] show "\<exists>c \<in> set cs. candidate_agent c = a \<and> ep_ListenPort (ing_endpoint c) = p" by auto
  next
    assume "\<exists>c \<in> set cs. candidate_agent c = a \<and> ep_ListenPort (ing_endpoint c) = p"
    then obtain c where c: "c \<in> set cs" "candidate_agent c = a" "ep_ListenPort (ing_endpoint c) = p" by blast
    from gok c(1) have "candidate_key c \<in> grp_key ` set groups" unfolding groups_ok_def by (metis image_eqI)
    then obtain g where g: "g \<in> set groups" "candidate_key c = grp_key g" by (rule imageE)
    from gok g(1) have "grp_agentID g = so_Agent (fst (grp_key g))" unfolding groups_ok_def by blast
    with g c key [of c] have "g \<in> set (ar_groups r)" by (simp add: groups)
    from group [OF g(1)] obtain d where d: "candidate_key d = grp_key g" "ep_ListenPort (ing_endpoint d) = ep_ListenPort (grp_endpoint g)" by blast
    have "ep_ListenPort (grp_endpoint g) = p" using d g(2) key(2) [of c] key(2) [of d] c(3) by simp
    with \<open>g \<in> set (ar_groups r)\<close> show "\<exists>g \<in> set (ar_groups r). ep_ListenPort (grp_endpoint g) = p" by blast
  qed
  also have "(\<exists>c \<in> set cs. candidate_agent c = a \<and> ep_ListenPort (ing_endpoint c) = p) \<longleftrightarrow>
      (\<exists>n \<in> set (st_ProxyNodes (reconciled st)). listens_on a p n)" for p
    using cs' candidate_listens state_ok_node(2) [OF ok] by blast
  also have "(\<exists>n \<in> set (st_ProxyNodes (reconciled st)). listens_on a p n) \<longleftrightarrow>
      (\<exists>b \<in> set (map bare_node (st_ProxyNodes (reconciled st))). listens_on a p b)" for p by (simp add: listens_on_bare)
  also have "(\<exists>b \<in> set (map bare_node (st_ProxyNodes (reconciled st))). listens_on a p b) \<longleftrightarrow> list_ex (listens_on a p) (st_ProxyNodes st)" for p
    unfolding reconciled_bare by (simp add: listens_on_bare list_ex_iff)
  finally show ?thesis using config_policy [OF env written rendered ports] by simp
qed

end
