(* ===== verification/Retain.thy ===== *)
theory Retain
  imports Overlay
begin

text \<open>\<open>retainAuthorizedMemberships\<close> keeps only Memberships the active configuration already had.\<close>

section \<open>What the active labels authorize\<close>

definition authorized_by :: "string list \<Rightarrow> identity \<Rightarrow> bool" where
  "authorized_by active i \<longleftrightarrow>
     list_ex (\<lambda>n. case parseManagedMembershipIdentity n of
         Inr (Some j) \<Rightarrow> idn_FullID j \<noteq> [] \<and> idn_FullID j = idn_FullID i \<or>
           idn_LegacyKey j = idn_LegacyKey i \<and> (idn_FullID j = [] \<or> idn_FullID i = [])
       | Inr None \<Rightarrow> has_suffix (CHR ''-'' # idn_LegacyKey i) n
       | Inl _ \<Rightarrow> False) active"

definition active_names :: "json_env \<Rightarrow> string \<Rightarrow> string list" where
  "active_names env config =
     (case decodeManagedDocument env config of Inl _ \<Rightarrow> [] | Inr m \<Rightarrow> managedDocumentUserNames m)"

definition index_from :: "string list \<Rightarrow> identity_index \<Rightarrow> bool" where
  "index_from ns index \<longleftrightarrow>
     (\<forall>f. idx_byFull index f \<noteq> None \<longrightarrow> (\<exists>n \<in> set ns. \<exists>j. parseManagedMembershipIdentity n = Inr (Some j) \<and> idn_FullID j = f)) \<and>
     (\<forall>k j. idx_byLegacy index k = Some j \<longrightarrow> idn_LegacyKey j = k \<and>
        ((\<exists>n \<in> set ns. parseManagedMembershipIdentity n = Inr (Some j)) \<or>
         idn_FullID j = [] \<and> (\<exists>n \<in> set ns. parseManagedMembershipIdentity n = Inr None \<and> has_suffix (CHR ''-'' # k) n)))"

lemma index_from_new: "index_from ns newManagedMembershipIdentityIndex"
  by (simp add: index_from_def newManagedMembershipIdentityIndex_def)

lemma index_from_add:
  assumes "index_from ns index" "add_identity index i = Inr index'"
    and "(\<exists>n \<in> set ns. parseManagedMembershipIdentity n = Inr (Some i)) \<or>
      idn_FullID i = [] \<and> (\<exists>n \<in> set ns. parseManagedMembershipIdentity n = Inr None \<and> has_suffix (CHR ''-'' # idn_LegacyKey i) n)"
  shows "index_from ns index'"
proof -
  from assms(2) have full: "idx_byFull index' = (if idn_FullID i \<noteq> [] then (idx_byFull index)(idn_FullID i \<mapsto> i) else idx_byFull index)"
    and legacy: "idx_byLegacy index' = (idx_byLegacy index)(idn_LegacyKey i \<mapsto> i)"
    by (auto simp: add_identity_def split: if_splits)
  show ?thesis unfolding index_from_def
  proof (intro conjI allI impI)
    fix f assume f: "idx_byFull index' f \<noteq> None"
    show "\<exists>n \<in> set ns. \<exists>j. parseManagedMembershipIdentity n = Inr (Some j) \<and> idn_FullID j = f"
    proof (cases "idn_FullID i \<noteq> [] \<and> f = idn_FullID i")
      case True
      with assms(3) show ?thesis by blast
    next
      case False
      with f full have "idx_byFull index f \<noteq> None" by (auto split: if_splits)
      with assms(1) show ?thesis unfolding index_from_def by blast
    qed
  next
    fix k j assume k: "idx_byLegacy index' k = Some j"
    show "idn_LegacyKey j = k"
      using k legacy assms(1) by (cases "k = idn_LegacyKey i") (auto simp: index_from_def)
    show "(\<exists>n \<in> set ns. parseManagedMembershipIdentity n = Inr (Some j)) \<or>
         idn_FullID j = [] \<and> (\<exists>n \<in> set ns. parseManagedMembershipIdentity n = Inr None \<and> has_suffix (CHR ''-'' # k) n)"
    proof (cases "k = idn_LegacyKey i")
      case True
      with k legacy have "j = i" by simp
      with True assms(3) show ?thesis by simp
    next
      case False
      with k legacy have "idx_byLegacy index k = Some j" by simp
      with assms(1) show ?thesis unfolding index_from_def by blast
    qed
  qed
qed

lemma index_from_fold:
  assumes pick: "\<And>xs. xs \<noteq> [] \<Longrightarrow> pick xs \<in> set xs"
    and run: "foldE (authorize_active pick keys) newManagedMembershipIdentityIndex ns = Inr index"
  shows "index_from ns index"
proof (rule foldE_invariant [where P = "index_from ns", OF run index_from_new])
  fix s n s'
  assume s: "index_from ns s" and n: "n \<in> set ns" and step: "authorize_active pick keys s n = Inr s'"
  let ?fit = "filter (\<lambda>k. has_suffix (CHR ''-'' # k) n) keys"
  from step obtain p where p: "parseManagedMembershipIdentity n = Inr p"
    by (auto simp: authorize_active_def bindE_Inr_iff)
  show "index_from ns s'"
  proof (cases p)
    case (Some i)
    with step p have "add_identity s i = Inr s'" by (simp add: authorize_active_def)
    with s n p Some show ?thesis by (blast intro: index_from_add)
  next
    case None
    show ?thesis
    proof (cases "?fit = []")
      case True
      with step p None s show ?thesis by (simp add: authorize_active_def)
    next
      case False
      with step p None have add: "add_identity s \<lparr>idn_FullID = [], idn_LegacyKey = pick ?fit\<rparr> = Inr s'"
        by (simp add: authorize_active_def Let_def)
      have "has_suffix (CHR ''-'' # pick ?fit) n" using pick [OF False] by simp
      with n p None show ?thesis by (intro index_from_add [OF s add]) auto
    qed
  qed
qed

lemma authorizes_sound:
  assumes "index_from ns index" "authorizes index i = Inr True"
  shows "authorized_by ns i"
proof (cases "idn_FullID i \<noteq> [] \<and> idx_byFull index (idn_FullID i) \<noteq> None")
  case True
  with assms(1) obtain n j where "n \<in> set ns" "parseManagedMembershipIdentity n = Inr (Some j)" "idn_FullID j = idn_FullID i"
    unfolding index_from_def by blast
  with True show ?thesis by (auto simp: authorized_by_def list_ex_iff intro!: bexI [of _ n])
next
  case False
  with assms(2) obtain j where j: "idx_byLegacy index (idn_LegacyKey i) = Some j" "idn_FullID j = [] \<or> idn_FullID i = []"
    by (auto simp: authorizes_def split: option.splits if_splits)
  from assms(1) j(1) have key: "idn_LegacyKey j = idn_LegacyKey i" and
    src: "(\<exists>n \<in> set ns. parseManagedMembershipIdentity n = Inr (Some j)) \<or>
      idn_FullID j = [] \<and> (\<exists>n \<in> set ns. parseManagedMembershipIdentity n = Inr None \<and> has_suffix (CHR ''-'' # idn_LegacyKey i) n)"
    unfolding index_from_def by blast+
  from src show ?thesis
  proof
    assume "\<exists>n \<in> set ns. parseManagedMembershipIdentity n = Inr (Some j)"
    then obtain n where "n \<in> set ns" "parseManagedMembershipIdentity n = Inr (Some j)" by blast
    with key j(2) show ?thesis by (auto simp: authorized_by_def list_ex_iff intro!: bexI [of _ n])
  next
    assume "idn_FullID j = [] \<and> (\<exists>n \<in> set ns. parseManagedMembershipIdentity n = Inr None \<and> has_suffix (CHR ''-'' # idn_LegacyKey i) n)"
    then obtain n where "n \<in> set ns" "parseManagedMembershipIdentity n = Inr None" "has_suffix (CHR ''-'' # idn_LegacyKey i) n" by blast
    then show ?thesis by (auto simp: authorized_by_def list_ex_iff intro!: bexI [of _ n])
  qed
qed

section \<open>The retained document\<close>

definition user_name :: "json \<Rightarrow> string" where
  "user_name u = text_or_empty (Option.bind (as_object u) (string_at ''name''))"

lemma retain_users_sound:
  assumes "retain_users index us = Inr kept"
  shows "set kept \<subseteq> set us" "\<forall>u \<in> set kept. \<forall>i. parseManagedMembershipIdentity (user_name u) = Inr (Some i) \<longrightarrow> authorizes index i = Inr True"
proof -
  have "set kept \<subseteq> set us \<and> (\<forall>u \<in> set kept. \<forall>i. parseManagedMembershipIdentity (user_name u) = Inr (Some i) \<longrightarrow> authorizes index i = Inr True)"
    by (rule foldE_invariant [OF assms [unfolded retain_users_def]])
      (auto simp: bindE_Inr_iff user_name_def split: if_splits option.splits)
  then show "set kept \<subseteq> set us" "\<forall>u \<in> set kept. \<forall>i. parseManagedMembershipIdentity (user_name u) = Inr (Some i) \<longrightarrow> authorizes index i = Inr True"
    by blast+
qed

lemma user_names_of_names:
  "n \<in> set (user_names_of j) \<Longrightarrow> \<exists>us. Option.bind (as_object j) (array_at ''users'') = Some us \<and> (\<exists>u \<in> set us. user_name u = n)"
proof -
  assume n: "n \<in> set (user_names_of j)"
  then obtain us u where us: "Option.bind (as_object j) (array_at ''users'') = Some us" "u \<in> set us"
    "n \<in> set (case Option.bind (as_object u) (string_at ''name'') of None \<Rightarrow> [] | Some name \<Rightarrow> [name])"
    by (cases "Option.bind (as_object j) (array_at ''users'')") (auto simp: user_names_of_def)
  then have "user_name u = n"
    by (cases "Option.bind (as_object u) (string_at ''name'')") (simp_all add: user_name_def text_or_empty_def)
  with us(1,2) show ?thesis by blast
qed

definition kept_inbound :: "identity_index \<Rightarrow> json \<Rightarrow> json \<Rightarrow> bool" where
  "kept_inbound index j j' \<longleftrightarrow>
     (\<forall>n \<in> set (user_names_of j'). \<forall>i. parseManagedMembershipIdentity n = Inr (Some i) \<longrightarrow> authorizes index i = Inr True) \<and>
     (as_any j = j \<longrightarrow> as_any j' = j') \<and> (\<forall>env. clean_tree env j \<longrightarrow> clean_tree env j')"

lemma retain_inbound_sound:
  assumes "retain_inbound index j = Inr j'"
  shows "kept_inbound index j j'"
proof -
  from assms obtain m kept where j: "j = JObj m" and
    kept: "retain_users index (case array_at ''users'' m of None \<Rightarrow> [] | Some us \<Rightarrow> us) = Inr kept"
    and j': "j' = JObj (if map_of (set_key ''users'' (JArr kept) m) ''type'' = Some (JStr ''shadowsocks'') \<and> kept = []
                    then set_key ''managed'' (JBool True) (set_key ''users'' (JArr kept) m)
                    else delete_key ''managed'' (set_key ''users'' (JArr kept) m))"
    by (auto simp: retain_inbound_def bindE_Inr_iff Let_def split: json.splits)
  note s = retain_users_sound [OF kept]
  obtain m' where m': "j' = JObj m'" "map_of m' ''users'' = Some (JArr kept)"
    unfolding j' by (simp add: map_of_set_key map_of_delete_key)
  have names: "\<forall>n \<in> set (user_names_of j'). \<forall>i. parseManagedMembershipIdentity n = Inr (Some i) \<longrightarrow> authorizes index i = Inr True"
  proof (intro ballI allI impI)
    fix n i assume n: "n \<in> set (user_names_of j')" and i: "parseManagedMembershipIdentity n = Inr (Some i)"
    from user_names_of_names [OF n] m' obtain u where "u \<in> set kept" "user_name u = n" by (auto simp: array_at_def)
    with s(2) i show "authorizes index i = Inr True" by blast
  qed
  have canonical: "as_any j' = j'" if "as_any j = j"
  proof -
    have "as_any (JArr kept) = JArr kept" unfolding canonical_arr
    proof
      fix u assume u: "u \<in> set kept"
      then obtain us where us: "array_at ''users'' m = Some us" "u \<in> set us" using s(1) u by (cases "array_at ''users'' m") auto
      from canonical_entry [OF that [unfolded j] array_atD [OF us(1)]] us(2) show "as_any u = u" unfolding canonical_arr by blast
    qed
    then have c: "as_any (JObj (set_key ''users'' (JArr kept) m)) = JObj (set_key ''users'' (JArr kept) m)"
      by (rule canonical_set_key [OF that [unfolded j]])
    then have "as_any (JObj (set_key ''managed'' (JBool True) (set_key ''users'' (JArr kept) m)))
        = JObj (set_key ''managed'' (JBool True) (set_key ''users'' (JArr kept) m))" by (rule canonical_set_key) simp
    with canonical_delete_key [OF c] show ?thesis unfolding j' by (simp only: split: if_split) simp
  qed
  have clean: "clean_tree env j'" if "clean_tree env j" for env
  proof -
    have "clean_tree env u" if u: "u \<in> set kept" for u
    proof -
      obtain us where us: "array_at ''users'' m = Some us" "u \<in> set us" using s(1) u by (cases "array_at ''users'' m") auto
      from map_of_SomeD [OF array_atD [OF us(1)]] \<open>clean_tree env j\<close> us(2) j show ?thesis by auto
    qed
    then have "clean_tree env (JArr kept)" by simp
    then have c: "clean_tree env (JObj (set_key ''users'' (JArr kept) m))" by (intro clean_set_key that [unfolded j]) simp_all
    have "clean_tree env (JObj (set_key ''managed'' (JBool True) (set_key ''users'' (JArr kept) m)))" by (rule clean_set_key [OF c]) simp_all
    with clean_delete_key [OF c] show ?thesis unfolding j' by (simp only: split: if_split) simp
  qed
  from names canonical clean show ?thesis by (simp add: kept_inbound_def)
qed

lemma retain_inbounds_sound:
  assumes "foldE (\<lambda>acc j. bindE (retain_inbound index j) (\<lambda>j. ok (acc @ [j]))) [] js = Inr js'"
  shows "list_all2 (kept_inbound index) js js'"
proof -
  have "foldE (\<lambda>acc j. bindE (retain_inbound index j) (\<lambda>j. ok (acc @ [j]))) acc js = Inr js' \<Longrightarrow>
      \<exists>new. js' = acc @ new \<and> list_all2 (kept_inbound index) js new" for acc
  proof (induction js arbitrary: acc)
    case (Cons j js)
    from Cons.prems obtain j' where j': "retain_inbound index j = Inr j'"
      and rest: "foldE (\<lambda>acc j. bindE (retain_inbound index j) (\<lambda>j. ok (acc @ [j]))) (acc @ [j']) js = Inr js'"
      by (auto simp: bindE_Inr_iff)
    from Cons.IH [OF rest] retain_inbound_sound [OF j'] show ?case by auto
  qed simp
  from this [OF assms] show ?thesis by simp
qed

lemma list_all2_each:
  assumes "list_all2 R xs ys" "\<And>x y. R x y \<Longrightarrow> P x \<Longrightarrow> Q y" "\<forall>x \<in> set xs. P x"
  shows "\<forall>y \<in> set ys. Q y"
  using assms(1,3) by (induction rule: list_all2_induct) (auto intro: assms(2))

lemma counted_names:
  assumes "managedMembershipIdentityIndexForNames names = Inr (index, amount)" "n \<in> set names"
    "parseManagedMembershipIdentity n = Inr (Some i)"
  shows "amount \<noteq> 0"
proof -
  have grows: "foldE (\<lambda>(index, amount) name. bindE (parseManagedMembershipIdentity name) (\<lambda>parsed. case parsed of
         None \<Rightarrow> ok (index, amount) | Some i \<Rightarrow> bindE (add_identity index i) (\<lambda>index. ok (index, Suc amount)))) (x, c) names = Inr (index, amount)
      \<Longrightarrow> c \<le> amount \<and> (n \<in> set names \<longrightarrow> c < amount)" for x c names
  proof (induction names arbitrary: x c)
    case (Cons m ms)
    then show ?case using assms(3) by (auto simp: bindE_Inr_iff split: option.splits dest!: Cons.IH)
  qed simp
  from grows [OF assms(1) [unfolded managedMembershipIdentityIndexForNames_def]] assms(2) show ?thesis by simp
qed

lemma retained_authorized:
  assumes env: "json_reads_back env" and pick: "\<And>xs. xs \<noteq> [] \<Longrightarrow> pick xs \<in> set xs"
    and run: "retainAuthorizedMemberships env pick activeConfig candidateConfig = Inr out"
    and doc: "decodeManagedDocument env out = Inr doc" and n: "n \<in> set (managedDocumentUserNames doc)"
    and i: "parseManagedMembershipIdentity n = Inr (Some i)"
  shows "authorized_by (active_names env activeConfig) i"
proof -
  from run obtain candidate idx amount where cand: "decodeManagedDocument env candidateConfig = Inr candidate"
    and idx: "managedMembershipIdentityIndexForNames (managedDocumentUserNames candidate) = Inr (idx, amount)"
    by (auto simp: retainAuthorizedMemberships_def bindE_Inr_iff Let_def)
  show ?thesis
  proof (cases "amount = 0")
    case True
    with run cand idx have "out = candidateConfig" by (simp add: retainAuthorizedMemberships_def)
    with doc cand have "doc = candidate" by simp
    with counted_names [OF idx _ i] n True show ?thesis by simp
  next
    case False
    let ?keys = "filter (\<lambda>k. idx_byLegacy idx k \<noteq> None)
                           (concat (map (\<lambda>n. case parseManagedMembershipIdentity n of
                               Inr (Some i) \<Rightarrow> [idn_LegacyKey i] | _ \<Rightarrow> []) (managedDocumentUserNames candidate)))"
    from run cand idx False obtain index js s where
      index: "(case decodeManagedDocument env activeConfig of
                Inl _ \<Rightarrow> ok newManagedMembershipIdentityIndex
              | Inr active \<Rightarrow>
                  if trim_space activeConfig = [] then ok newManagedMembershipIdentityIndex
                  else foldE (authorize_active pick ?keys) newManagedMembershipIdentityIndex (managedDocumentUserNames active)) = Inr index"
      and js: "foldE (\<lambda>acc j. bindE (retain_inbound index j) (\<lambda>j. ok (acc @ [j]))) []
                (case array_at ''inbounds'' candidate of None \<Rightarrow> [] | Some xs \<Rightarrow> xs) = Inr js"
      and out: "jen_indent env (JObj (if array_at ''inbounds'' candidate = None then candidate
                 else set_key ''inbounds'' (JArr js) candidate)) = Some s" "out = s @ [CHR 0x0A]"
      by (auto simp: retainAuthorizedMemberships_def bindE_Inr_iff from_option_Inr Let_def)
    from index index_from_fold [OF pick] index_from_new have from_active: "index_from (active_names env activeConfig) index"
      by (auto simp: active_names_def split: sum.splits if_splits)
    show ?thesis
    proof (cases "array_at ''inbounds'' candidate")
      case None
      then have "managedDocumentUserNames candidate = []" by (simp add: managedDocumentUserNames_def)
      with idx False show ?thesis by (simp add: managedMembershipIdentityIndexForNames_def)
    next
      case (Some I)
      note canonical = decoded_document(1) [OF cand] and clean = decoded_document(2) [OF cand env]
      let ?d = "set_key ''inbounds'' (JArr js) candidate"
      from js Some have kept: "list_all2 (kept_inbound index) I js" by (intro retain_inbounds_sound) simp
      have "\<forall>j \<in> set I. as_any j = j" using canonical_entry [OF canonical array_atD [OF Some]] unfolding canonical_arr .
      then have "\<forall>j \<in> set js. as_any j = j" by (intro list_all2_each [OF kept, of "\<lambda>j. as_any j = j"]) (auto simp: kept_inbound_def)
      then have c: "as_any (JObj ?d) = JObj ?d" by (intro canonical_set_key canonical) (simp only: canonical_arr)
      have "\<forall>j \<in> set I. clean_tree env j" using clean map_of_SomeD [OF array_atD [OF Some]] by auto
      then have "\<forall>j \<in> set js. clean_tree env j" by (intro list_all2_each [OF kept, of "clean_tree env"]) (auto simp: kept_inbound_def)
      then have l: "clean_tree env (JObj ?d)" by (intro clean_set_key clean) simp_all
      from decode_written [OF env l c] out Some doc have "doc = ?d" by simp
      with n obtain j where "j \<in> set js" "n \<in> set (user_names_of j)" by (auto simp: managedDocumentUserNames_def)
      with kept i have "authorizes index i = Inr True" by (fastforce simp: list_all2_conv_all_nth in_set_conv_nth kept_inbound_def)
      then show ?thesis by (rule authorizes_sound [OF from_active])
    qed
  qed
qed

end
