(* ===== verification/ManagedClaims.thy ===== *)
theory ManagedClaims
  imports ManagedCompile Retain CompilerClaims NetipFacts
begin

text \<open>Properties of the managed users of \<open>internal/singbox\<close>.\<close>

section \<open>A configuration to apply them to\<close>

definition table_json :: "(string \<times> json) list \<Rightarrow> json_env" where
  "table_json docs =
     \<lparr>jen_read = (\<lambda>s. map_option (\<lambda>(t, j). (as_any j, True)) (find (\<lambda>(t, _). t @ [CHR 0x0A] = s) docs)),
      jen_compact = (\<lambda>_. Some ''x''), jen_indent = (\<lambda>j. map_option fst (find (\<lambda>(_, d). d = j) docs)),
      jen_isNumber = (\<lambda>_. False),
      jen_float = atoi, jen_sha256 = (\<lambda>_. 1)\<rparr>"

lemma table_json_reads_back:
  assumes "distinct (map fst docs)" "\<forall>(t, j) \<in> set docs. clean_tree (table_json docs) j"
  shows "json_reads_back (table_json docs)"
  unfolding json_reads_back_def
proof (intro conjI allI impI)
  fix s j only
  assume "jen_read (table_json docs) s = Some (j, only)"
  then obtain t d where "find (\<lambda>(t, _). t @ [CHR 0x0A] = s) docs = Some (t, d)" "j = as_any d"
    by (auto simp: table_json_def)
  moreover from this have "(t, d) \<in> set docs" by (metis find_Some_iff nth_mem)
  ultimately show "clean_tree (table_json docs) j" using assms(2) clean_as_any by blast
next
  fix j s
  assume "clean_tree (table_json docs) j" "jen_indent (table_json docs) j = Some s"
  then obtain d where "find (\<lambda>(_, d). d = j) docs = Some (s, d)" by (auto simp: table_json_def)
  then have mem: "(s, j) \<in> set docs" by (auto simp: find_Some_iff in_set_conv_nth)
  have "find (\<lambda>(t, _). t @ [CHR 0x0A] = s @ [CHR 0x0A]) docs \<noteq> None"
    using mem by (auto simp: find_None_iff)
  then obtain p where p: "find (\<lambda>(t, _). t @ [CHR 0x0A] = s @ [CHR 0x0A]) docs = Some p" by blast
  then have "p \<in> set docs" "fst p = s" by (auto simp: find_Some_iff split_beta)
  with mem assms(1) have "p = (s, j)" by (metis eq_key_imp_eq_value prod.collapse)
  with p show "jen_read (table_json docs) (s @ [CHR 0x0A]) = Some (as_any j, True)" by (simp add: table_json_def)
qed

definition sample_service :: json where
  "sample_service = JObj [(''listen'', JStr ''127.0.0.1''), (''listen_port'', JInt 19090),
     (''servers'', JObj [(''/tp-in-00'', JStr ''tp-in-00'')]), (''tag'', JStr ''tp-managed-users''), (''type'', JStr ''ssm-api'')]"

definition sample_config_with :: "managed_user list \<Rightarrow> json" where
  "sample_config_with us = JObj [(''inbounds'', JArr [JObj [(''tag'', JStr ''tp-in-00''), (''type'', JStr ''anytls''),
     (''users'', JArr (map user_object us))]]), (''services'', JArr [sample_service])]"

definition link_user :: managed_user where
  "link_user = \<lparr>mus_Username = ''lnk_b-link-l-b'', mus_Password = ''beta''\<rparr>"

definition old_member :: managed_user where
  "old_member = \<lparr>mus_Username = ''alice-m-aaaaaaaaaaaa'', mus_Password = ''old''\<rparr>"

definition new_member :: managed_user where
  "new_member = \<lparr>mus_Username = ''carol-m-cccccccccccc'', mus_Password = ''new''\<rparr>"

definition overlay_env :: json_env where
  "overlay_env = table_json [(''c'', sample_config_with [old_member, link_user]), (''d'', sample_config_with [new_member, link_user])]"

definition overlay_variant :: authority_variant where
  "overlay_variant = \<lparr>auv_TopologySHA256 = 1, auv_Endpoints = [\<lparr>aep_Path = ''/tp-in-00'', aep_Users = [new_member]\<rparr>]\<rparr>"

lemma ascii_clean: "\<forall>c \<in> set s. (of_char c :: nat) < 0x80 \<Longrightarrow> clean_text s"
  by (simp add: clean_text_def ascii_runes)

lemma overlay_env_reads: "json_reads_back overlay_env"
  unfolding overlay_env_def
  by (rule table_json_reads_back)
    (auto simp: sample_config_with_def sample_service_def user_object_def old_member_def new_member_def link_user_def intro!: ascii_clean)

text \<open>A text whose first byte starts no white space keeps it.\<close>

lemma trim_keeps_first:
  assumes "plain c" "trim_space (c # s) = d # t"
  shows "d = c"
proof -
  have suffix: "\<exists>u. x = u @ strip_front ws x" for ws x
  proof (induction ws x rule: strip_front.induct)
    case (1 ws s)
    show ?case
    proof (cases "find (\<lambda>w. w \<noteq> [] \<and> has_prefix w s) ws")
      case None
      then show ?thesis by (subst strip_front.simps) simp
    next
      case (Some w)
      from 1 [OF Some] obtain u where "drop (length w) s = u @ strip_front ws (drop (length w) s)" ..
      then have "s = (take (length w) s @ u) @ strip_front ws (drop (length w) s)" by (metis append.assoc append_take_drop_id)
      moreover have "strip_front ws s = strip_front ws (drop (length w) s)"
        by (subst strip_front.simps) (simp only: Some option.case)
      ultimately show ?thesis by metis
    qed
  qed
  have "strip_front utf8_spaces (c # s) = c # s"
    using assms(1) spaces_not_plain by (intro strip_front_plain) (auto simp: list_all_iff)
  moreover obtain u where "rev (c # s) = u @ strip_front (map rev utf8_spaces) (rev (c # s))" using suffix by blast
  ultimately have "rev (c # s) = u @ rev (trim_space (c # s))" by (simp add: trim_space_def)
  then have "c # s = trim_space (c # s) @ rev u" by (metis rev_append rev_rev_ident)
  with assms(2) show ?thesis by simp
qed

lemma not_disabled: "trim_space (''c'' @ [CHR 0x0A]) \<noteq> trim_space DisabledManagedConfig"
proof
  assume same: "trim_space (''c'' @ [CHR 0x0A]) = trim_space DisabledManagedConfig"
  have c: "trim_space (''c'' @ [CHR 0x0A]) = ''c''" by code_simp
  obtain s where "DisabledManagedConfig = CHR ''{'' # s" by (simp add: DisabledManagedConfig_def disabledManagedConfig_def)
  with same c trim_keeps_first [of "CHR ''{''" s "CHR ''c''" "[]"] show False by (simp add: plain_def)
qed

text \<open>C37: An Agent that lays an authority over its configuration runs, as far as the users are concerned,
  exactly that authority: projecting the configuration it writes gives back one of the variants it
  was given, users and endpoints in ascending order, so the shape of the topology is untouched.\<close>

theorem authority_projects_back:
  assumes "json_reads_back env" "trim_space config \<noteq> trim_space DisabledManagedConfig"
    and "\<forall>v \<in> set variants. validateManagedUserAuthorityVariant v = Inr () \<and>
      (\<forall>e \<in> set (auv_Endpoints v). \<forall>u \<in> set (aep_Users e). clean_text (mus_Password u))"
    and "applyManagedUserAuthority env config variants = Inr (out, True)"
  shows "\<exists>v \<in> set variants. BuildManagedUserAuthorityVariant env out = Inr (sorted_variant v)"
  by (rule overlay_projects [OF assms(1,4,2,3)]) blast

lemma overlay_runs: "applyManagedUserAuthority overlay_env (''c'' @ [CHR 0x0A]) [overlay_variant] = Inr (''d'' @ [CHR 0x0A], True)"
  unfolding applyManagedUserAuthority_def if_not_P [OF not_disabled] by code_simp

theorem authority_projects_back_witness:
  "\<exists>v \<in> set [overlay_variant]. BuildManagedUserAuthorityVariant overlay_env (''d'' @ [CHR 0x0A]) = Inr (sorted_variant v)"
proof (rule authority_projects_back [OF overlay_env_reads not_disabled _ overlay_runs])
  have "validateManagedUserAuthorityVariant overlay_variant = Inr ()" by code_simp
  then show "\<forall>v \<in> set [overlay_variant]. validateManagedUserAuthorityVariant v = Inr () \<and>
      (\<forall>e \<in> set (auv_Endpoints v). \<forall>u \<in> set (aep_Users e). clean_text (mus_Password u))"
    by (auto simp: overlay_variant_def new_member_def intro!: ascii_clean)
qed

section \<open>Compiled configurations\<close>

text \<open>C39: Every configuration the compiler writes passes the safety policy unless an inbound of the Agent
  uses the port of the managed-user interface, which the validation of the state allows: then the
  policy refuses it.\<close>

theorem compiled_policy:
  assumes "Compile env digest tx resolver st = Some (Inr res)" "map_of (cr_Configs res) a = Some config"
    and "jen_read jenv t = Some (as_any (JObj config), True)" "reads_ports jenv"
  shows "ValidateManagedConfig jenv t =
    (if list_ex (listens_on a ManagedUserAPIListenPort) (st_ProxyNodes st) then fail ErrManagedUserAPIListenPort else ok ())"
  by (rule Compile_policy [OF assms(4,3,1,2)])

lemma table_json_ports: "reads_ports (table_json docs)"
  unfolding reads_ports_def
proof (intro allI impI)
  fix i :: int
  assume i: "0 < i \<and> i \<le> 65535"
  have body: "show_int i = show_nat (nat i)" using i by (simp add: show_int_def)
  have digit: "is_digit (hd (show_nat (nat i)))" using show_nat_digits [of "nat i"] hd_in_set [OF show_nat_not_Nil] by blast
  then have "hd (show_nat (nat i)) \<noteq> CHR ''-''" "hd (show_nat (nat i)) \<noteq> CHR ''+''"
    by (auto simp: is_digit_def less_eq_char_def)
  with i digits_value_show_nat [of 0 "nat i"] show "jen_float (table_json docs) (show_int i) = Some i"
    unfolding body by (cases "show_nat (nat i)") (auto simp: table_json_def atoi_def Let_def)
qed

theorem compiled_policy_witness:
  "\<exists>res config. Compile sample_env port_digest port_digest (Some sample_resolve) sample_state = Some (Inr res)
     \<and> map_of (cr_Configs res) ''beta'' = Some config
     \<and> ValidateManagedConfig (table_json [(''c'', JObj config)]) (''c'' @ [CHR 0x0A]) = Inr ()"
proof -
  from sample_compiles obtain res where run: "Compile sample_env port_digest port_digest (Some sample_resolve) sample_state = Some (Inr res)" by blast
  from sample_beta_config [OF run] obtain config where config: "map_of (cr_Configs res) ''beta'' = Some config" by blast
  have "jen_read (table_json [(''c'', JObj config)]) (''c'' @ [CHR 0x0A]) = Some (as_any (JObj config), True)"
    by (simp add: table_json_def)
  note policy = compiled_policy [OF run config this table_json_ports]
  have "\<not> list_ex (listens_on ''beta'' ManagedUserAPIListenPort) (st_ProxyNodes sample_state)" by code_simp
  with policy run config show ?thesis by auto
qed

section \<open>A label that escapes\<close>

text \<open>C40: A Membership whose short identifier contains the marker late enough has a label that passes for
  one of the topology, so no authority can revoke it: whatever variants an Agent is given, the
  configuration it writes still admits that user with the old credential.\<close>

theorem late_marker_survives:
  assumes "json_reads_back env" "trim_space config \<noteq> trim_space DisabledManagedConfig"
    and "\<forall>v \<in> set variants. validateManagedUserAuthorityVariant v = Inr () \<and>
      (\<forall>e \<in> set (auv_Endpoints v). \<forall>u \<in> set (aep_Users e). clean_text (mus_Password u))"
    and "applyManagedUserAuthority env config variants = Inr (out, True)"
    and "parseManagedUserConfig env config = Inr parsed" "e \<in> set (mcf_Endpoints parsed)" "u \<in> set (med_Users e)"
    and "mus_Username u = AuthenticatedUserLabel mid" "validID mid ''mem_''"
    and "last_index ''-m-'' (AuthenticatedUserLabel mid) = Some i" "36 < i"
  shows "\<exists>parsed' e'. parseManagedUserConfig env out = Inr parsed' \<and> e' \<in> set (mcf_Endpoints parsed')
    \<and> med_Path e' = med_Path e \<and> u \<in> set (med_Users e')"
proof -
  obtain v p parsed' where p: "parseManagedUserConfig env config = Inr p" "parseManagedUserConfig env out = Inr parsed'"
    and same: "map (\<lambda>e. (med_Path e, sort_key mus_Username (filter (\<lambda>u. \<not> is_member u) (med_Users e)))) (mcf_Endpoints p) =
     map (\<lambda>e. (med_Path e, filter (\<lambda>u. \<not> is_member u) (med_Users e))) (mcf_Endpoints parsed')"
    by (rule overlay_projects [OF assms(1,4,2,3)])
  have "parseManagedMembershipIdentity (mus_Username u) = Inr None" unfolding assms(8) by (rule late_marker_label [OF assms(9-11)])
  then have kept: "\<not> is_member u" by (simp add: is_member_def)
  have "(med_Path e, sort_key mus_Username (filter (\<lambda>u. \<not> is_member u) (med_Users e)))
      \<in> set (map (\<lambda>e. (med_Path e, filter (\<lambda>u. \<not> is_member u) (med_Users e))) (mcf_Endpoints parsed'))"
    unfolding same [symmetric] using assms(5,6) p(1) by auto
  then obtain e' where e': "e' \<in> set (mcf_Endpoints parsed')" "med_Path e' = med_Path e"
    "filter (\<lambda>u. \<not> is_member u) (med_Users e') = sort_key mus_Username (filter (\<lambda>u. \<not> is_member u) (med_Users e))" by auto
  from kept assms(7) have "u \<in> set (filter (\<lambda>u. \<not> is_member u) (med_Users e'))" unfolding e'(3) by simp
  with p(2) e'(1,2) show ?thesis by auto
qed

definition late_id :: string where
  "late_id = ''mem_aaaaaaaaa-m-aaaaaaaaaaaa''"

definition late_member :: managed_user where
  "late_member = \<lparr>mus_Username = AuthenticatedUserLabel late_id, mus_Password = ''old''\<rparr>"

definition late_env :: json_env where
  "late_env = table_json [(''c'', sample_config_with [late_member]), (''d'', sample_config_with [new_member, late_member])]"

lemma late_label: "AuthenticatedUserLabel late_id = ''mem_aaaaaaaaa-m-aaaaaaaaaaaa-m-aaaaaaaaa-m-''"
  by code_simp

lemma late_env_reads: "json_reads_back late_env"
  unfolding late_env_def
  by (rule table_json_reads_back)
    (auto simp: sample_config_with_def sample_service_def user_object_def late_member_def new_member_def late_label intro!: ascii_clean)

theorem late_marker_survives_witness:
  "\<exists>parsed' e'. parseManagedUserConfig late_env (''d'' @ [CHR 0x0A]) = Inr parsed' \<and> e' \<in> set (mcf_Endpoints parsed')
    \<and> med_Path e' = ''/tp-in-00'' \<and> late_member \<in> set (med_Users e')"
proof -
  let ?c = "''c'' @ [CHR 0x0A]"
  have valid: "\<forall>v \<in> set [overlay_variant]. validateManagedUserAuthorityVariant v = Inr () \<and>
      (\<forall>e \<in> set (auv_Endpoints v). \<forall>u \<in> set (aep_Users e). clean_text (mus_Password u))"
  proof -
    have "validateManagedUserAuthorityVariant overlay_variant = Inr ()" by code_simp
    then show ?thesis by (auto simp: overlay_variant_def new_member_def intro!: ascii_clean)
  qed
  have run: "applyManagedUserAuthority late_env ?c [overlay_variant] = Inr (''d'' @ [CHR 0x0A], True)"
    unfolding applyManagedUserAuthority_def if_not_P [OF not_disabled] by code_simp
  have "case parseManagedUserConfig late_env ?c of Inl _ \<Rightarrow> False
      | Inr parsed \<Rightarrow> mcf_Endpoints parsed = [\<lparr>med_Path = ''/tp-in-00'', med_Users = [late_member]\<rparr>]" by code_simp
  then obtain parsed where parsed: "parseManagedUserConfig late_env ?c = Inr parsed"
    "mcf_Endpoints parsed = [\<lparr>med_Path = ''/tp-in-00'', med_Users = [late_member]\<rparr>]" by (auto split: sum.splits)
  have "validID late_id ''mem_''" "last_index ''-m-'' (AuthenticatedUserLabel late_id) = Some 40" by code_simp+
  with late_marker_survives [OF late_env_reads not_disabled valid run parsed(1), of "\<lparr>med_Path = ''/tp-in-00'', med_Users = [late_member]\<rparr>" late_member late_id 40]
  show ?thesis by (simp add: parsed(2) late_member_def)
qed

section \<open>Configurations that are kept\<close>

text \<open>C38: Whatever the candidate configuration asks for, the configuration written from it admits only
  Memberships the active configuration already authorizes: by full identity, or by the legacy key
  when one of the two labels does not carry the full one. The order in which the keys are tried does
  not matter.\<close>

theorem retained_memberships_were_active:
  assumes "json_reads_back env" "\<forall>xs. xs \<noteq> [] \<longrightarrow> pick xs \<in> set xs"
    and "retainAuthorizedMemberships env pick activeConfig candidateConfig = Inr out"
    and "decodeManagedDocument env out = Inr doc" "name \<in> set (managedDocumentUserNames doc)"
    and "parseManagedMembershipIdentity name = Inr (Some i)"
  shows "authorized_by (active_names env activeConfig) i"
  using assms(2) by (intro retained_authorized [OF assms(1) _ assms(3-6)]) blast

definition retain_env :: json_env where
  "retain_env = table_json [(''a'', sample_config_with [old_member, link_user]), (''c'', sample_config_with [old_member, new_member]),
     (''d'', sample_config_with [old_member])]"

lemma retain_env_reads: "json_reads_back retain_env"
  unfolding retain_env_def
  by (rule table_json_reads_back)
    (auto simp: sample_config_with_def sample_service_def user_object_def old_member_def new_member_def link_user_def intro!: ascii_clean)

theorem retained_memberships_were_active_witness:
  "case (retainAuthorizedMemberships retain_env hd (''a'' @ [CHR 0x0A]) (''c'' @ [CHR 0x0A]),
         parseManagedMembershipIdentity (mus_Username old_member)) of
     (Inr out, Inr (Some i)) \<Rightarrow> out = ''d'' @ [CHR 0x0A] \<and> authorized_by (active_names retain_env (''a'' @ [CHR 0x0A])) i
   | _ \<Rightarrow> False"
proof -
  have run: "retainAuthorizedMemberships retain_env hd (''a'' @ [CHR 0x0A]) (''c'' @ [CHR 0x0A]) = Inr (''d'' @ [CHR 0x0A])"
    by code_simp
  have "case decodeManagedDocument retain_env (''d'' @ [CHR 0x0A]) of Inl _ \<Rightarrow> False
      | Inr doc \<Rightarrow> mus_Username old_member \<in> set (managedDocumentUserNames doc)" by code_simp
  then obtain doc where doc: "decodeManagedDocument retain_env (''d'' @ [CHR 0x0A]) = Inr doc"
    "mus_Username old_member \<in> set (managedDocumentUserNames doc)" by (auto split: sum.splits)
  have "case parseManagedMembershipIdentity (mus_Username old_member) of Inr (Some _) \<Rightarrow> True | _ \<Rightarrow> False" by code_simp
  then obtain i where i: "parseManagedMembershipIdentity (mus_Username old_member) = Inr (Some i)"
    by (auto split: sum.splits option.splits)
  have "\<forall>xs :: string list. xs \<noteq> [] \<longrightarrow> hd xs \<in> set xs" by simp
  from retained_memberships_were_active [OF retain_env_reads this run doc i] run i show ?thesis by simp
qed

end
