(* ===== verification/Spec2Isabelle.thy ===== *)
theory Spec2Isabelle
  imports TopologyClaims StoreClaims BillingClaims CompilerClaims DeploymentClaims PoolClaims ManagedClaims
begin

text \<open>
  A verification development for the master of Theatropolis: the Proxy Node manager in
  \<open>src/internal/proxynode\<close>, the deployment records in \<open>src/internal/deployment\<close>, the registry of
  Agent addresses in \<open>src/internal/pool\<close>; and for the managed users of its Agents in
  \<open>src/internal/singbox\<close>.

  The program. A Proxy Node is a tree of Hops (Agents) joined by Links; Rules on the Links and BLOCK
  branches decide where the traffic of a Hop goes; End Users are admitted by Memberships with a
  quota and a term. One Store holds the state and persists it in two authorities, a JSON document
  and an SQL ledger. Edits of the topology advance \<open>Revision\<close>, edits of users advance
  \<open>UserRevision\<close>, and accounting only changes the ledger. Every edit works on a copy, is validated
  as a whole and is installed only when both authorities accepted it. The applied topology is compiled
  into one configuration per Agent; each configuration sent to an Agent is a deployment, whose record
  moves from queued to applied or failed and always keeps what the Agent confirmed last. The addresses
  Links dial come from the registry of the pool, which collects what Agents report, probe and are
  observed at and what operators pin. Beside its configuration an Agent is given an authority, the
  list of users each endpoint may admit: whatever configuration runs, its users are overlaid with the
  authority for its topology, so that a revocation does not wait for a deployment.

  \<^bold>\<open>The theories.\<close>
  \<^item> \<open>Prelude\<close>: error values, the result type of fallible steps and its combinators, lists and maps.
  \<^item> \<open>Text\<close>: the string functions of Go's library the code uses, on byte strings: \<open>TrimSpace\<close>,
    \<open>Atoi\<close>, UTF-8 decoding, base64, \<open>net.ParseIP\<close> and \<open>net.ParseCIDR\<close>, and the regular expressions.
  \<^item> \<open>Calendar\<close>: \<open>time.Time\<close> as nanoseconds since 0001-01-01 UTC, the proleptic Gregorian calendar,
    \<open>AddDate\<close>, the fixed UTC+8 billing zone and the anchored month arithmetic of \<open>billing.go\<close>.
  \<^item> \<open>Model\<close> (\<open>model.go\<close>): the records and enumerations of the persisted state.
  \<^item> \<open>Credentials\<close> (\<open>credentials.go\<close>): identifiers, keys and secrets drawn from a random source.
  \<^item> \<open>Validation\<close> (\<open>validation.go\<close>): \<open>validateStoredState\<close> and everything it calls, with
    \<open>Topology\<close>: the routing tree these checks decide.
  \<^item> \<open>Listeners\<close> (\<open>listeners.go\<close>): listener keys, socket claims, the shared edit of an inbound and
    the reconciliation of its secrets.
  \<^item> \<open>Routing\<close> (\<open>store.go\<close>, \<open>topology.go\<close>): descendants, ancestors, the numbering of Links and Rules,
    the copy of a branch; \<open>RoutingFacts\<close>, \<open>TopologyFacts\<close>, \<open>BranchFacts\<close> and \<open>OrderFacts\<close> hold what
    is proved about them and about each edit.
  \<^item> \<open>Ledger\<close> (\<open>accounting_sql.go\<close>): the SQL tables and the transactions on them, with \<open>LedgerFacts\<close>.
  \<^item> \<open>Store\<close> (\<open>store.go\<close>): the Store, its indexes and the two-authority persistence.
  \<^item> \<open>UserPlane\<close> (\<open>store.go\<close>, \<open>billing.go\<close>, \<open>subscriptions.go\<close>): users, Memberships, terms, subscriptions.
  \<^item> \<open>TopologyPlane\<close> (\<open>store.go\<close>): Proxy Nodes, branches, Links, Rules, the application of a topology.
  \<^item> \<open>Billing\<close> (\<open>billing.go\<close>, \<open>agent_usage.go\<close>): traffic reports, quota periods and expiry.
  \<^item> \<open>Compiler\<close> (\<open>compiler.go\<close>): from a state to one sing-box configuration per Agent. \<open>CompilerFacts\<close>
    and \<open>CompileResult\<close> give the rules a meaning and relate them to the topology, \<open>CompileProgress\<close>
    shows that no error return is reached, \<open>CompileWhole\<close> and \<open>CompileAdmission\<close> treat \<open>Compile\<close> as
    a whole: depths, missing Rule Sets, the users an inbound admits.
  \<^item> \<open>Deployment\<close> (\<open>deployment.go\<close>) and \<open>DeploymentDisk\<close> (\<open>disk_store.go\<close>): deployment records, their
    state machine, and the stores in memory and on disk. \<open>DeploymentFacts\<close> states the contract of a
    store as a step relation on views and a locale, \<open>DeploymentStores\<close> interprets it on both stores,
    \<open>DeploymentRecovery\<close> treats documents, file names and opening a directory, \<open>DeploymentCrash\<close> the
    directories an interrupted write leaves, \<open>DeploymentAgreement\<close> the two stores side by side.
  \<^item> \<open>Netip\<close>: the part of \<open>net/netip\<close> the pool uses, with \<open>NetipFacts\<close>: parsing the canonical text
    of an address gives back the address.
  \<^item> \<open>Pool\<close> (\<open>pool/registry.go\<close>): the registry, its resolution order and its document. \<open>PoolFacts\<close> has
    its invariant and what every mutation may do, \<open>PoolRecovery\<close> opening the document again,
    \<open>PoolCompile\<close> the compiler with the registry as its resolver.
  \<^item> \<open>Managed\<close> (\<open>policy.go\<close>, \<open>managed_membership_identity.go\<close>, \<open>managed_users.go\<close>): the safety policy,
    the identities in user labels, the users of a configuration and their traffic; \<open>Authority\<close>
    (\<open>managed_user_authority.go\<close>, \<open>managed_users.go\<close>): authorities, their overlay and projection, the
    retention of Memberships and the reconciliation. \<open>ManagedFacts\<close>, \<open>IdentityFacts\<close> and
    \<open>AuthorityFacts\<close> treat documents, labels and the users in a document, \<open>Overlay\<close> and \<open>Retain\<close> the
    two operations that rewrite a configuration, \<open>ManagedCompile\<close> compiled configurations.
  \<^item> \<open>StateFacts\<close>, \<open>StoreFacts\<close> and \<open>Operations\<close>: the invariant of the state and of the Store, and that
    every public operation preserves it.
  \<^item> \<open>Samples\<close>: a small valid state on which the properties with hypotheses are applied, and the
    \<open>Claims\<close> theories with the properties themselves.

  \<^bold>\<open>How the code is represented.\<close> A pointer into a slice is an index and an edit through it an
  update at that index; a map is a partial function; a Go error is a value of \<open>error\<close>, whose
  constructors are the sentinels the callers test. \<open>uint64\<close> is a 64-bit word, \<open>int\<close> and times are
  integers. \<open>cloneState\<close> is the identity, since values are immutable. Locks are not represented:
  every operation runs under the Store's mutex, so an execution is a sequence of operations. The
  clock is read once per role and passed in \<open>call\<close>; so are the random bytes and the outcomes of file
  and SQL operations (\<open>faults\<close>). Parameters of the model are, in \<open>environment\<close>, Unicode
  normalisation, case folding and letter classes, \<open>url.Parse\<close> and the conversion of an out-of-range
  float; and the SHA-256 digest of a listener key.

  A compiled configuration is the list of fields the code hands to \<open>json.MarshalIndent\<close>; the
  meaning of its rules (\<open>dispatch\<close>) is sing-box's documented one, the first matching rule whose
  action is final, with a parameter for whether a connection meets a match field. Parameters of the
  compiler are the address resolver, the digest of a listener key and its text, by which groups are
  sorted.

  A directory is a list of named entries; an operation of the deployment store on disk takes the
  outcome of each of its system calls and \<open>persist\<close> yields every directory the disk holds on the way,
  so that a crash is a prefix of that list. SHA-256, \<open>json.Valid\<close> and the JSON codec of a stored
  record are the fields of \<open>deploy_env\<close>; \<open>json_round_trip\<close> and the absence of collisions among the
  Agents are hypotheses where reading back depends on them.

  The registry of the pool is one record with its file; an operation takes the readings of the clock
  and the outcomes of the system calls of its write. The JSON codec of the document and the type of an
  outbound are the fields of \<open>pool_env\<close>; \<open>reformat\<close> writes out the layout \<open>json.MarshalIndent\<close> gives
  a raw outbound, because \<open>Open\<close> limits the length of that layout.

  A configuration on an Agent is its text. The JSON reader and writers, SHA-256 and the value of a
  number literal are the fields of \<open>json_env\<close>; \<open>json_reads_back\<close>, that reading what
  \<open>json.MarshalIndent\<close> wrote gives the value back, is a hypothesis. \<open>as_any\<close> writes out the step from
  the text to Go's \<open>any\<close>. The answers of the loopback interface are arguments.

  Identifiers and credentials are checked in two passes where the source interleaves them in one
  loop; both accept the same states but may report a different error first.

  \<^bold>\<open>Termination.\<close> The searches over the routing graph have termination measures that count the Hops
  not yet seen. The catch-up loop of quota periods is a partial function, so that never returning
  would be a value of its own, and so is the recursion of \<open>topologyDepths\<close>, written as a loop over
  an explicit stack.

  \<^bold>\<open>Not modelled.\<close> The start of the Store (\<open>Open\<close> and the migrations of old documents), the deployer
  and the gRPC control plane, the rest of the Agent (its control stream, the processes and files of
  the manager, the file of the authority), the derivation and rendering of pool entries for the
  hand-written configurations of older versions, the export of client configurations, updates and
  the web interface.
\<close>

end
